(* ===== verification/Cplant_Prelude.thy ===== *)
theory Cplant_Prelude
  imports Main "HOL-Library.Word" "HOL-Library.Monad_Syntax"
begin

text \<open>
  Prelude of the Cplant development: C integers, handles, and the generic facts on
  options and functions that every component uses.

  Signed C integers are \<open>int\<close> values; where the C code computes, the result is brought
  back into range by \<open>s32\<close> (\<open>int\<close>) or \<open>s64\<close> (\<open>long\<close> of the 64-bit
  compute nodes), which is two's complement wrap-around.  Unsigned C integers and
  addresses are words.  A C access outside an array, a null dereference and a
  division by zero are the value \<open>None\<close> of the operation.
\<close>

unbundle bit_operations_syntax

named_theorems c_arith \<open>C integer arithmetic in range\<close>
named_theorems ptl_const \<open>definitions of the constants of the headers\<close>

section \<open>C integers\<close>

definition s32 :: "int \<Rightarrow> int" where
  "s32 x = (x + 2 ^ 31) mod 2 ^ 32 - 2 ^ 31"

definition s64 :: "int \<Rightarrow> int" where
  "s64 x = (x + 2 ^ 63) mod 2 ^ 64 - 2 ^ 63"

text \<open>The values a C \<open>int\<close> can take.\<close>

definition c_int :: "int \<Rightarrow> bool" where
  "c_int x \<longleftrightarrow> - (2 ^ 31) \<le> x \<and> x < 2 ^ 31"

lemma s32_c_int [simp]: "c_int (s32 x)"
proof -
  have "0 \<le> (x + 2 ^ 31) mod 2 ^ 32" and "(x + 2 ^ 31) mod 2 ^ 32 < 2 ^ 32"
    by simp_all
  then show ?thesis by (simp add: c_int_def s32_def)
qed

lemma s32_id [c_arith]: "c_int x \<Longrightarrow> s32 x = x"
  by (simp add: s32_def c_int_def)

lemma s64_id [c_arith]: "- (2 ^ 63) \<le> x \<Longrightarrow> x < 2 ^ 63 \<Longrightarrow> s64 x = x"
  by (simp add: s64_def)

section \<open>Handles\<close>

text \<open>
  All handles have their interface number in the second 16-bit word and the index of
  the object in the first.
\<close>

definition h_index :: "int \<Rightarrow> int" where
  "h_index h = h AND 0xFFFF"

definition h_ni :: "int \<Rightarrow> int" where
  "h_ni h = h AND (NOT 0xFFFF)"

lemma h_index_mod: "h_index h = h mod 65536"
proof -
  have "h AND mask 16 = h mod 65536"
    by (simp add: take_bit_eq_mod flip: take_bit_eq_mask)
  then show ?thesis by (simp add: h_index_def mask_eq_exp_minus_1)
qed

lemma h_index_bounds [simp]: "0 \<le> h_index h" "h_index h < 65536"
  by (simp_all add: h_index_mod)

lemma h_index_not_neg [simp]: "\<not> h_index h < 0"
  by (simp add: not_less)

lemma h_index_of_handle:
  assumes "0 \<le> i" and "i < 65536"
  shows "h_index (i OR h_ni h) = i"
proof -
  have mask: "(0xFFFF :: int) = mask 16" by (simp add: mask_eq_exp_minus_1)
  have "(i OR h_ni h) AND mask 16 = (i AND mask 16) OR ((h AND NOT (mask 16)) AND mask 16)"
    by (simp add: h_ni_def mask bit.conj_disj_distrib2)
  also have "\<dots> = i AND mask 16"
    by (simp add: and.assoc)
  also have "\<dots> = i"
    using assms by (simp add: take_bit_eq_mod flip: take_bit_eq_mask)
  finally show ?thesis by (simp add: h_index_def mask)
qed

section \<open>Options and functions\<close>

lemma bind_eq_Some_iff:
  "Option.bind m f = Some y \<longleftrightarrow> (\<exists>x. m = Some x \<and> f x = Some y)"
  by (cases m) auto

lemma bind_eq_None_iff:
  "Option.bind m f = None \<longleftrightarrow> m = None \<or> (\<exists>x. m = Some x \<and> f x = None)"
  by (cases m) auto

lemma bind_Some_None [simp]: "Option.bind m (\<lambda>x. Some (g x)) = None \<longleftrightarrow> m = None"
  by (cases m) auto

end
