(* ===== verification/P30_Types.thy ===== *)
theory P30_Types
  imports Cplant_Prelude
begin

text \<open>
  Data of the Portals 3.0 library (\<open>include/p30/types.h\<close>, \<open>errno.h\<close>,
  \<open>lib-types.h\<close>): process ids, memory descriptors, events, message headers, and
  the library objects.

  The fields \<open>next_free\<close>, \<open>next\<close>, \<open>prev\<close> of the library objects and the
  field \<open>md\<close> of a match entry are not in the records below: the first belongs to
  the object pools (theory \<open>P30_Pool\<close>), the others to the linked lists (theory
  \<open>P30_Links\<close>), as in the macros of \<open>lib-p30.h\<close> that are the only code to
  write them.  A pointer to a library object is the index of the object in its array.
\<close>

section \<open>Public types\<close>

definition PTL_EQ_NONE :: int where [ptl_const]: "PTL_EQ_NONE = -1"
definition PTL_ID_ANY :: int where [ptl_const]: "PTL_ID_ANY = -1"
definition PTL_MD_THRESH_INF :: int where [ptl_const]: "PTL_MD_THRESH_INF = -1"

datatype ptl_addr_kind = PTL_ADDR_NID | PTL_ADDR_GID | PTL_ADDR_BOTH

record ptl_process_id =
  addr_kind :: ptl_addr_kind
  id_nid :: int
  id_pid :: int
  id_gid :: int
  id_rid :: int

datatype ptl_unlink = PTL_RETAIN | PTL_UNLINK

datatype ptl_ins_pos = PTL_INS_BEFORE | PTL_INS_AFTER

type_synonym user_ptr = "64 word"

record ptl_md =
  pm_start :: user_ptr
  pm_length :: int
  pm_threshold :: int
  pm_max_offset :: int
  pm_options :: "32 word"
  pm_user_ptr :: user_ptr
  pm_eventq :: int

definition PTL_MD_OP_PUT :: "32 word" where [ptl_const]: "PTL_MD_OP_PUT = 1"
definition PTL_MD_OP_GET :: "32 word" where [ptl_const]: "PTL_MD_OP_GET = 2"
definition PTL_MD_MANAGE_REMOTE :: "32 word" where [ptl_const]: "PTL_MD_MANAGE_REMOTE = 4"
definition PTL_MD_TRUNCATE :: "32 word" where [ptl_const]: "PTL_MD_TRUNCATE = 8"
definition PTL_MD_ACK_DISABLE :: "32 word" where [ptl_const]: "PTL_MD_ACK_DISABLE = 16"

text \<open>\<open>options & flag\<close> used as a C condition.\<close>

definition has_option :: "32 word \<Rightarrow> 32 word \<Rightarrow> bool" where
  "has_option opts flag \<longleftrightarrow> opts AND flag \<noteq> 0"

datatype ptl_event_kind =
  PTL_EVENT_GET | PTL_EVENT_PUT | PTL_EVENT_REPLY | PTL_EVENT_ACK | PTL_EVENT_SENT

record ptl_event =
  ev_type :: ptl_event_kind
  ev_sequence :: "32 word"
  ev_initiator :: ptl_process_id
  ev_portal :: int
  ev_match_bits :: "64 word"
  ev_rlength :: int
  ev_mlength :: int
  ev_offset :: int
  ev_md :: ptl_md
  ev_hdr_data :: "64 word"

datatype ptl_ack_req = PTL_ACK_REQ | PTL_NOACK_REQ

datatype ptl_sr_index =
    PTL_SR_DROP_COUNT | PTL_SR_DROP_LENGTH | PTL_SR_RECV_COUNT | PTL_SR_RECV_LENGTH
  | PTL_SR_SEND_COUNT | PTL_SR_SEND_LENGTH | PTL_SR_MSGS_MAX | PTL_SR_OTHER int

section \<open>Error codes\<close>

text \<open>
  The enumeration of \<open>errno.h\<close>, in its order.  Return codes stay integers because the
  library returns the codes of the network layer's callbacks through the same field.
\<close>

definition PTL_OK :: int where [ptl_const]: "PTL_OK = 0"
definition PTL_SEGV :: int where [ptl_const]: "PTL_SEGV = 1"
definition PTL_NOSPACE :: int where [ptl_const]: "PTL_NOSPACE = 2"
definition PTL_INUSE :: int where [ptl_const]: "PTL_INUSE = 3"
definition PTL_VAL_FAILED :: int where [ptl_const]: "PTL_VAL_FAILED = 4"
definition PTL_NAL_FAILED :: int where [ptl_const]: "PTL_NAL_FAILED = 5"
definition PTL_NOINIT :: int where [ptl_const]: "PTL_NOINIT = 6"
definition PTL_INV_MD :: int where [ptl_const]: "PTL_INV_MD = 12"
definition PTL_INV_ME :: int where [ptl_const]: "PTL_INV_ME = 13"
definition PTL_INV_NI :: int where [ptl_const]: "PTL_INV_NI = 14"
definition PTL_INV_PROC :: int where [ptl_const]: "PTL_INV_PROC = 16"
definition PTL_INV_PTINDEX :: int where [ptl_const]: "PTL_INV_PTINDEX = 18"
definition PTL_INV_SR_INDX :: int where [ptl_const]: "PTL_INV_SR_INDX = 20"
definition PTL_ADDR_UNKNOWN :: int where [ptl_const]: "PTL_ADDR_UNKNOWN = 22"
definition PTL_INV_EQ :: int where [ptl_const]: "PTL_INV_EQ = 23"
definition PTL_EQ_DROPPED :: int where [ptl_const]: "PTL_EQ_DROPPED = 24"
definition PTL_EQ_EMPTY :: int where [ptl_const]: "PTL_EQ_EMPTY = 25"
definition PTL_NOUPDATE :: int where [ptl_const]: "PTL_NOUPDATE = 26"
definition PTL_FAIL :: int where [ptl_const]: "PTL_FAIL = 27"
definition PTL_NOT_IMPLEMENTED :: int where [ptl_const]: "PTL_NOT_IMPLEMENTED = 28"

section \<open>Message headers\<close>

text \<open>
  The untagged union of \<open>ptl_hdr_t\<close> together with its field \<open>type\<close>: the type
  selects the member, so the pair is a datatype.  \<open>MSG_OTHER\<close> is a type field with
  none of the enumerated values.  The library never reads or writes the address kind of
  the header's source.
\<close>

record hdr_src =
  src_nid :: int
  src_pid :: int
  src_gid :: int
  src_rid :: int

record ack_msg =
  ack_dst_md :: int
  ack_mlength :: int
  ack_match_bits :: "64 word"

record put_msg =
  put_ptl_index :: int
  put_ack_md :: int
  put_match_bits :: "64 word"
  put_length :: int
  put_offset :: int
  put_hdr_data :: "64 word"

record get_msg =
  get_ptl_index :: int
  get_match_bits :: "64 word"
  get_length :: int
  get_src_offset :: int
  get_return_offset :: int
  get_return_md :: int

record reply_msg =
  reply_dst_md :: int
  reply_dst_offset :: int
  reply_length :: int

datatype ptl_msg =
    MSG_ACK ack_msg
  | MSG_PUT put_msg
  | MSG_GET get_msg
  | MSG_REPLY reply_msg
  | MSG_BARRIER int
  | MSG_OTHER int

record ptl_hdr =
  hdr_nid :: int
  hdr_pid :: int
  hdr_src :: hdr_src
  hdr_msg :: ptl_msg

text \<open>The two message types that \<open>lib_find_md\<close> is called with.\<close>

datatype find_type = PTL_MSG_PUT | PTL_MSG_GET

section \<open>Library objects\<close>

record lib_counters =
  recv_count :: int
  recv_length :: int
  send_count :: int
  send_length :: int
  drop_count :: int
  drop_length :: int
  msgs_alloc :: int
  msgs_max :: int

record lib_msg =
  msg_md :: "nat option"
  msg_gid :: int
  msg_rid :: int
  msg_nid :: int
  msg_pid :: int
  msg_ev :: ptl_event
  msg_return_md :: int

record lib_eq =
  eq_sequence :: "32 word"
  eq_size :: int
  eq_base :: user_ptr
  eq_pending :: int

record lib_me =
  me_match_id :: ptl_process_id
  me_match_bits :: "64 word"
  me_ignore_bits :: "64 word"
  me_unlink :: ptl_unlink

record lib_md =
  md_me :: "nat option"
  md_start :: user_ptr
  md_offset :: int
  md_length :: int
  md_threshold :: int
  md_max_offset :: int
  md_pending :: int
  md_unlink :: ptl_unlink
  md_options :: "32 word"
  md_user_ptr :: user_ptr
  md_eq :: "nat option"
  md_do_unlink :: bool
  md_addrkey :: user_ptr

definition MAX_MES :: nat where [ptl_const]: "MAX_MES = 4096"
definition MAX_MDS :: nat where [ptl_const]: "MAX_MDS = 4096"
definition MAX_MSGS :: nat where [ptl_const]: "MAX_MSGS = 1024"
definition MAX_EQS :: nat where [ptl_const]: "MAX_EQS = 4096"

end
