(* ===== verification/P30_Pool.thy ===== *)
theory P30_Pool
  imports P30_Types
begin

text \<open>
  The object pools of \<open>include/lib-p30.h\<close> (\<open>mk_alloc\<close>).  The macro expands to
  an allocator and a deallocator for each of the four object types; the model is one
  pair of definitions over the pool, that is the \<open>next_free\<close> fields of the array
  and the head of its free list.  The contract of a pool is the locale
  \<open>object_pool\<close>; the last section interprets it for the four arrays.
\<close>

section \<open>The macro\<close>

text \<open>
  A \<open>next_free\<close> pointer is null when the object is in use, the sentinel
  \<open>0xDEADBEEF\<close> at the end of the free list, and the next free object otherwise.
\<close>

datatype fptr = FNull | FDead | FObj nat

record pool =
  next_free :: "nat \<Rightarrow> fptr"
  free_head :: fptr

definition pool_alloc :: "pool \<Rightarrow> (nat \<times> pool) option" where
  "pool_alloc p =
     (case free_head p of
        FNull \<Rightarrow> None
      | FDead \<Rightarrow> None
      | FObj i \<Rightarrow> Some (i, p\<lparr>free_head := next_free p i, next_free := (next_free p)(i := FNull)\<rparr>))"

definition pool_free :: "nat \<Rightarrow> pool \<Rightarrow> pool" where
  "pool_free i p =
     (if next_free p i \<noteq> FNull then p
      else p\<lparr>next_free := (next_free p)(i := free_head p), free_head := FObj i\<rparr>)"

definition pool_inuse :: "pool \<Rightarrow> nat \<Rightarrow> bool" where
  "pool_inuse p i \<longleftrightarrow> next_free p i = FNull"

text \<open>The initialisation loops of \<open>lib_init\<close>, one per array, on arbitrary memory.\<close>

fun pool_init_loop :: "nat \<Rightarrow> nat \<Rightarrow> pool \<Rightarrow> pool" where
  "pool_init_loop i 0 p = p"
| "pool_init_loop i (Suc k) p =
     pool_init_loop (Suc i) k
       (p\<lparr>next_free := (next_free p)(i := free_head p), free_head := FObj i\<rparr>)"

definition pool_init :: "nat \<Rightarrow> pool \<Rightarrow> pool" where
  "pool_init n p = pool_init_loop 0 n (p\<lparr>free_head := FDead\<rparr>)"

section \<open>The free list\<close>

text \<open>The objects met from a \<open>next_free\<close> pointer to the sentinel.\<close>

fun free_chain :: "(nat \<Rightarrow> fptr) \<Rightarrow> fptr \<Rightarrow> nat list \<Rightarrow> bool" where
  "free_chain f q [] \<longleftrightarrow> q = FDead"
| "free_chain f q (x # xs) \<longleftrightarrow> q = FObj x \<and> free_chain f (f x) xs"

text \<open>
  Well-formed pool of \<open>n\<close> objects: the free list runs through distinct objects to the
  sentinel, and the objects off the list are exactly the ones marked in use.
\<close>

definition pool_inv :: "nat \<Rightarrow> pool \<Rightarrow> bool" where
  "pool_inv n p \<longleftrightarrow>
     (\<exists>xs. free_chain (next_free p) (free_head p) xs \<and> distinct xs \<and> set xs \<subseteq> {..<n} \<and>
        (\<forall>i<n. pool_inuse p i \<longleftrightarrow> i \<notin> set xs))"

lemma free_chain_upd [simp]:
  "x \<notin> set xs \<Longrightarrow> free_chain (f(x := v)) q xs = free_chain f q xs"
  by (induction xs arbitrary: q) auto

lemma pool_invI:
  assumes "free_chain (next_free p) (free_head p) xs" "distinct xs" "set xs \<subseteq> {..<n}"
    and "\<And>i. i < n \<Longrightarrow> pool_inuse p i \<longleftrightarrow> i \<notin> set xs"
  shows "pool_inv n p"
  using assms unfolding pool_inv_def by blast

lemma pool_invE:
  assumes "pool_inv n p"
  obtains xs where "free_chain (next_free p) (free_head p) xs" "distinct xs" "set xs \<subseteq> {..<n}"
    "\<forall>i<n. pool_inuse p i \<longleftrightarrow> i \<notin> set xs"
  using assms unfolding pool_inv_def by blast

lemma free_chain_Nil_iff: "free_chain f q xs \<Longrightarrow> xs = [] \<longleftrightarrow> q = FDead"
  by (cases xs) auto

lemma pool_alloc_Some:
  assumes "pool_inv n p" and "pool_alloc p = Some (i, p')"
  shows "i < n \<and> \<not> pool_inuse p i \<and> pool_inv n p' \<and>
    (\<forall>j. pool_inuse p' j \<longleftrightarrow> j = i \<or> pool_inuse p j)"
proof -
  from assms(1) obtain xs where xs: "free_chain (next_free p) (free_head p) xs" "distinct xs"
      "set xs \<subseteq> {..<n}" "\<forall>j<n. pool_inuse p j \<longleftrightarrow> j \<notin> set xs"
    by (rule pool_invE)
  from assms(2) have hd: "free_head p = FObj i"
    and p': "p' = p\<lparr>free_head := next_free p i, next_free := (next_free p)(i := FNull)\<rparr>"
    by (auto simp: pool_alloc_def split: fptr.splits)
  from xs(1) hd obtain ys where ys: "xs = i # ys" by (cases xs) auto
  have use: "pool_inuse p' j \<longleftrightarrow> j = i \<or> pool_inuse p j" for j
    by (simp add: p' pool_inuse_def)
  have "pool_inv n p'"
    using xs by (intro pool_invI [of _ ys]) (auto simp: ys use, auto simp: p')
  with use xs ys show ?thesis by auto
qed

lemma pool_alloc_None:
  assumes "pool_inv n p"
  shows "pool_alloc p = None \<longleftrightarrow> (\<forall>i<n. pool_inuse p i)"
proof -
  from assms obtain xs where xs: "free_chain (next_free p) (free_head p) xs"
      "set xs \<subseteq> {..<n}" "\<forall>i<n. pool_inuse p i \<longleftrightarrow> i \<notin> set xs"
    by (rule pool_invE)
  have "pool_alloc p = None \<longleftrightarrow> xs = []"
    using xs(1) by (cases xs) (auto simp: pool_alloc_def)
  with xs show ?thesis by (cases xs) auto
qed

lemma pool_free_inuse:
  assumes "pool_inv n p" and "i < n" and "pool_inuse p i"
  shows "pool_inv n (pool_free i p) \<and> (\<forall>j. pool_inuse (pool_free i p) j \<longleftrightarrow> j \<noteq> i \<and> pool_inuse p j)"
proof -
  from assms(1) obtain xs where xs: "free_chain (next_free p) (free_head p) xs" "distinct xs"
      "set xs \<subseteq> {..<n}" "\<forall>j<n. pool_inuse p j \<longleftrightarrow> j \<notin> set xs"
    by (rule pool_invE)
  have "free_head p \<noteq> FNull"
    using xs(1) by (cases xs) auto
  then have use: "pool_inuse (pool_free i p) j \<longleftrightarrow> j \<noteq> i \<and> pool_inuse p j" for j
    using assms(3) by (simp add: pool_free_def pool_inuse_def)
  have i: "i \<notin> set xs"
    using assms xs(4) by blast
  have "free_chain (next_free (pool_free i p)) (free_head (pool_free i p)) (i # xs)"
    using xs(1) i assms(3) by (simp add: pool_free_def pool_inuse_def)
  then have "pool_inv n (pool_free i p)"
    using xs i assms(2) by (intro pool_invI [of _ "i # xs"]) (auto simp: use)
  with use show ?thesis by blast
qed

lemma pool_free_not_inuse [simp]: "\<not> pool_inuse p i \<Longrightarrow> pool_free i p = p"
  by (simp add: pool_free_def pool_inuse_def)

lemma pool_init_loop_inv:
  assumes "free_chain (next_free p) (free_head p) xs" "distinct xs" "set xs = {..<i}"
  shows "\<exists>ys. free_chain (next_free (pool_init_loop i k p)) (free_head (pool_init_loop i k p)) ys \<and>
    distinct ys \<and> set ys = {..<i + k}"
  using assms
proof (induction k arbitrary: i p xs)
  case 0
  then show ?case by (intro exI [of _ xs]) simp
next
  case (Suc k)
  let ?p = "p\<lparr>next_free := (next_free p)(i := free_head p), free_head := FObj i\<rparr>"
  have "free_chain (next_free ?p) (free_head ?p) (i # xs)" "distinct (i # xs)"
      "set (i # xs) = {..<Suc i}"
    using Suc.prems by (simp_all add: lessThan_Suc)
  from Suc.IH [OF this] show ?case by simp
qed

lemma free_chain_not_FNull: "free_chain f q xs \<Longrightarrow> x \<in> set xs \<Longrightarrow> f x \<noteq> FNull"
proof (induction xs arbitrary: q)
  case (Cons a xs)
  then show ?case by (cases xs) auto
qed simp

lemma pool_init_inv: "pool_inv n (pool_init n p)"
  and pool_init_free: "i < n \<Longrightarrow> \<not> pool_inuse (pool_init n p) i"
proof -
  let ?p = "p\<lparr>free_head := FDead\<rparr>"
  obtain ys where ys: "free_chain (next_free (pool_init n p)) (free_head (pool_init n p)) ys"
      "distinct ys" "set ys = {..<n}"
    using pool_init_loop_inv [of ?p "[]" 0 n] by (auto simp: pool_init_def)
  have free: "\<not> pool_inuse (pool_init n p) i" if "i < n" for i
    using free_chain_not_FNull [OF ys(1)] that ys(3) by (auto simp: pool_inuse_def)
  show "i < n \<Longrightarrow> \<not> pool_inuse (pool_init n p) i" by (rule free)
  show "pool_inv n (pool_init n p)"
    using ys free by (intro pool_invI [of _ ys]) auto
qed

section \<open>The contract of a pool\<close>

locale object_pool =
  fixes n :: nat
    and alloc :: "'p \<Rightarrow> (nat \<times> 'p) option"
    and free :: "nat \<Rightarrow> 'p \<Rightarrow> 'p"
    and inuse :: "'p \<Rightarrow> nat \<Rightarrow> bool"
    and inv :: "'p \<Rightarrow> bool"
  assumes alloc_Some: "inv p \<Longrightarrow> alloc p = Some (i, p') \<Longrightarrow>
      i < n \<and> \<not> inuse p i \<and> inv p' \<and> (\<forall>j. inuse p' j \<longleftrightarrow> j = i \<or> inuse p j)"
    and alloc_None: "inv p \<Longrightarrow> alloc p = None \<longleftrightarrow> (\<forall>i<n. inuse p i)"
    and free_inuse: "inv p \<Longrightarrow> i < n \<Longrightarrow> inuse p i \<Longrightarrow>
      inv (free i p) \<and> (\<forall>j. inuse (free i p) j \<longleftrightarrow> j \<noteq> i \<and> inuse p j)"
    and free_idle: "\<not> inuse p i \<Longrightarrow> free i p = p"
begin

text \<open>The set of objects in use, which the operations change by one element.\<close>

definition used :: "'p \<Rightarrow> nat set" where
  "used p = {i. i < n \<and> inuse p i}"

lemma used_finite [simp]: "finite (used p)"
  by (simp add: used_def)

lemma used_alloc: "inv p \<Longrightarrow> alloc p = Some (i, p') \<Longrightarrow> used p' = insert i (used p)"
  using alloc_Some [of p i p'] by (auto simp: used_def)

lemma used_alloc_fresh: "inv p \<Longrightarrow> alloc p = Some (i, p') \<Longrightarrow> i \<notin> used p"
  using alloc_Some [of p i p'] by (auto simp: used_def)

lemma used_free: "inv p \<Longrightarrow> i < n \<Longrightarrow> used (free i p) = used p - {i}"
  using free_inuse [of p i] free_idle [of p i] by (cases "inuse p i") (auto simp: used_def)

lemma inv_free: "inv p \<Longrightarrow> i < n \<Longrightarrow> inv (free i p)"
  using free_inuse [of p i] free_idle [of p i] by (cases "inuse p i") simp_all

lemma inv_alloc: "inv p \<Longrightarrow> alloc p = Some (i, p') \<Longrightarrow> inv p'"
  using alloc_Some by blast

lemma card_used_le: "card (used p) \<le> n"
proof -
  have "used p \<subseteq> {..<n}" by (auto simp: used_def)
  then show ?thesis using card_mono [of "{..<n}" "used p"] by simp
qed

lemma card_used_alloc: "inv p \<Longrightarrow> alloc p = Some (i, p') \<Longrightarrow> card (used p') = Suc (card (used p))"
  by (simp add: used_alloc used_alloc_fresh)

lemma card_used_free: "inv p \<Longrightarrow> i \<in> used p \<Longrightarrow> Suc (card (used (free i p))) = card (used p)"
  using used_free [of p i] card_Suc_Diff1 [of "used p" i] by (simp add: used_def)

text \<open>An allocation fails only when every object is in use.\<close>

lemma alloc_succeeds: "inv p \<Longrightarrow> card (used p) < n \<Longrightarrow> \<exists>i p'. alloc p = Some (i, p')"
proof (rule ccontr)
  assume "inv p" and less: "card (used p) < n" and "\<nexists>i p'. alloc p = Some (i, p')"
  then have "alloc p = None" by (cases "alloc p") auto
  with \<open>inv p\<close> have "used p = {..<n}" using alloc_None [of p] by (auto simp: used_def)
  with less show False by simp
qed

text \<open>Freeing what was just allocated gives back the same set of objects in use.\<close>

lemma alloc_free: "inv p \<Longrightarrow> alloc p = Some (i, p') \<Longrightarrow> used (free i p') = used p"
  using used_free [OF inv_alloc, of p i p' i] alloc_Some [of p i p']
  by (simp add: used_alloc used_alloc_fresh)

end

interpretation me_pool: object_pool MAX_MES pool_alloc pool_free pool_inuse "pool_inv MAX_MES"
  by unfold_locales
    (fact pool_alloc_Some pool_alloc_None pool_free_inuse pool_free_not_inuse)+

interpretation md_pool: object_pool MAX_MDS pool_alloc pool_free pool_inuse "pool_inv MAX_MDS"
  by unfold_locales
    (fact pool_alloc_Some pool_alloc_None pool_free_inuse pool_free_not_inuse)+

interpretation eq_pool: object_pool MAX_EQS pool_alloc pool_free pool_inuse "pool_inv MAX_EQS"
  by unfold_locales
    (fact pool_alloc_Some pool_alloc_None pool_free_inuse pool_free_not_inuse)+

interpretation msg_pool: object_pool MAX_MSGS pool_alloc pool_free pool_inuse "pool_inv MAX_MSGS"
  by unfold_locales
    (fact pool_alloc_Some pool_alloc_None pool_free_inuse pool_free_not_inuse)+

end
