(* ===== verification/P30_Links.thy ===== *)
theory P30_Links
  imports P30_Types
begin

text \<open>
  The linked lists of \<open>include/lib-p30.h\<close> (\<open>lib_insert\<close>, \<open>lib_unlink\<close>).
  A list element has a pointer to the next element and a pointer to the cell that
  points to it: the \<open>next\<close> field of its predecessor or the head of the list.  The
  macros are used for the match entries, whose heads are the entries of the portal
  table, and for the memory descriptors, whose heads are the fields \<open>md\<close> of the match
  entries; one model serves both.
\<close>

section \<open>The macros\<close>

datatype cell = Head nat | Next nat

record links =
  heads :: "nat \<Rightarrow> nat option"
  nxt :: "nat \<Rightarrow> nat option"
  prv :: "nat \<Rightarrow> cell option"

fun cell_get :: "links \<Rightarrow> cell \<Rightarrow> nat option" where
  "cell_get l (Head h) = heads l h"
| "cell_get l (Next i) = nxt l i"

fun cell_set :: "cell \<Rightarrow> nat option \<Rightarrow> links \<Rightarrow> links" where
  "cell_set (Head h) v l = l\<lparr>heads := (heads l)(h := v)\<rparr>"
| "cell_set (Next i) v l = l\<lparr>nxt := (nxt l)(i := v)\<rparr>"

definition set_prv :: "nat \<Rightarrow> cell option \<Rightarrow> links \<Rightarrow> links" where
  "set_prv i c l = l\<lparr>prv := (prv l)(i := c)\<rparr>"

definition set_nxt :: "nat \<Rightarrow> nat option \<Rightarrow> links \<Rightarrow> links" where
  "set_nxt i v l = l\<lparr>nxt := (nxt l)(i := v)\<rparr>"

definition lib_insert :: "nat \<Rightarrow> nat \<Rightarrow> ptl_ins_pos \<Rightarrow> links \<Rightarrow> links" where
  "lib_insert obj new pos l =
     (if pos = PTL_INS_AFTER then
        (let l1 = set_nxt new (nxt l obj) l;
             l2 = set_prv new (Some (Next obj)) l1;
             l3 = set_nxt obj (Some new) l2
         in case nxt l3 new of
              None \<Rightarrow> l3
            | Some m \<Rightarrow> set_prv m (Some (Next new)) l3)
      else
        (let l1 = set_nxt new (Some obj) l;
             l2 = set_prv new (prv l1 obj) l1;
             l3 = set_prv obj (Some (Next new)) l2
         in case prv l3 new of
              None \<Rightarrow> l3
            | Some c \<Rightarrow> cell_set c (Some new) l3))"

definition lib_unlink :: "nat \<Rightarrow> links \<Rightarrow> links" where
  "lib_unlink obj l =
     (let l1 = (case prv l obj of None \<Rightarrow> l | Some c \<Rightarrow> cell_set c (nxt l obj) l);
          l2 = (case nxt l1 obj of None \<Rightarrow> l1 | Some m \<Rightarrow> set_prv m (prv l1 obj) l1)
      in set_nxt obj None (set_prv obj None l2))"

text \<open>
  What \<open>do_PtlMEAttach\<close> and \<open>do_PtlMDAttach_internal\<close> do by hand: hang a new
  element under an empty head.
\<close>

definition link_head :: "nat \<Rightarrow> nat \<Rightarrow> links \<Rightarrow> links" where
  "link_head h new l = cell_set (Head h) (Some new) (set_prv new (Some (Head h)) (set_nxt new None l))"

text \<open>A new element on no list.\<close>

definition link_clear :: "nat \<Rightarrow> links \<Rightarrow> links" where
  "link_clear new l = set_nxt new None (set_prv new None l)"

section \<open>Well-formed links\<close>

text \<open>
  The cells that exist: the heads \<open>hs\<close> and the \<open>next\<close> fields of the elements
  \<open>us\<close> in use.  In well-formed links a cell points to an element exactly when the
  element's \<open>prev\<close> points to the cell; links of elements not in use do not matter.
\<close>

fun live_cell :: "nat set \<Rightarrow> nat set \<Rightarrow> cell \<Rightarrow> bool" where
  "live_cell us hs (Head h) \<longleftrightarrow> h \<in> hs"
| "live_cell us hs (Next i) \<longleftrightarrow> i \<in> us"

definition link_edges :: "nat set \<Rightarrow> links \<Rightarrow> (nat \<times> nat) set" where
  "link_edges us l = {(i, m). i \<in> us \<and> nxt l i = Some m}"

definition wf_links :: "nat set \<Rightarrow> nat set \<Rightarrow> links \<Rightarrow> bool" where
  "wf_links us hs l \<longleftrightarrow>
     (\<forall>c m. live_cell us hs c \<longrightarrow> cell_get l c = Some m \<longrightarrow> m \<in> us \<and> prv l m = Some c) \<and>
     (\<forall>m\<in>us. \<forall>c. prv l m = Some c \<longrightarrow> live_cell us hs c \<and> cell_get l c = Some m) \<and>
     acyclic (link_edges us l)"

lemma wf_linksI:
  assumes "\<And>h m. h \<in> hs \<Longrightarrow> heads l h = Some m \<Longrightarrow> m \<in> us \<and> prv l m = Some (Head h)"
    and "\<And>i m. i \<in> us \<Longrightarrow> nxt l i = Some m \<Longrightarrow> m \<in> us \<and> prv l m = Some (Next i)"
    and "\<And>m h. m \<in> us \<Longrightarrow> prv l m = Some (Head h) \<Longrightarrow> h \<in> hs \<and> heads l h = Some m"
    and "\<And>m i. m \<in> us \<Longrightarrow> prv l m = Some (Next i) \<Longrightarrow> i \<in> us \<and> nxt l i = Some m"
    and "acyclic (link_edges us l)"
  shows "wf_links us hs l"
  unfolding wf_links_def
proof (intro conjI allI ballI impI)
  fix c m assume "live_cell us hs c" "cell_get l c = Some m"
  then show "m \<in> us" "prv l m = Some c" using assms(1,2) by (cases c; auto)+
next
  fix m c assume "m \<in> us" "prv l m = Some c"
  then show "live_cell us hs c" "cell_get l c = Some m" using assms(3,4) by (cases c; auto)+
qed (rule assms(5))

lemma wf_links_head:
  "wf_links us hs l \<Longrightarrow> h \<in> hs \<Longrightarrow> heads l h = Some m \<Longrightarrow> m \<in> us \<and> prv l m = Some (Head h)"
  unfolding wf_links_def by (metis cell_get.simps(1) live_cell.simps(1))

lemma wf_links_nxt:
  "wf_links us hs l \<Longrightarrow> i \<in> us \<Longrightarrow> nxt l i = Some m \<Longrightarrow> m \<in> us \<and> prv l m = Some (Next i)"
  unfolding wf_links_def by (metis cell_get.simps(2) live_cell.simps(2))

lemma wf_links_prv_Head:
  "wf_links us hs l \<Longrightarrow> m \<in> us \<Longrightarrow> prv l m = Some (Head h) \<Longrightarrow> h \<in> hs \<and> heads l h = Some m"
  unfolding wf_links_def by (metis cell_get.simps(1) live_cell.simps(1))

lemma wf_links_prv_Next:
  "wf_links us hs l \<Longrightarrow> m \<in> us \<Longrightarrow> prv l m = Some (Next i) \<Longrightarrow> i \<in> us \<and> nxt l i = Some m"
  unfolding wf_links_def by (metis cell_get.simps(2) live_cell.simps(2))

lemma wf_links_acyclic: "wf_links us hs l \<Longrightarrow> acyclic (link_edges us l)"
  by (simp add: wf_links_def)

lemmas wf_links_dests = wf_links_head wf_links_nxt wf_links_prv_Head wf_links_prv_Next

lemma wf_links_no_self: "wf_links us hs l \<Longrightarrow> m \<in> us \<Longrightarrow> prv l m \<noteq> Some (Next m)"
  using wf_links_acyclic [of us hs l] wf_links_prv_Next [of us hs l m m]
  by (auto simp: acyclic_def link_edges_def)

section \<open>The operations on the fields\<close>

lemma cell_set_sel [simp]:
  "heads (cell_set c v l) = (case c of Head h \<Rightarrow> (heads l)(h := v) | Next i \<Rightarrow> heads l)"
  "nxt (cell_set c v l) = (case c of Head h \<Rightarrow> nxt l | Next i \<Rightarrow> (nxt l)(i := v))"
  "prv (cell_set c v l) = prv l"
  by (cases c; simp)+

lemma link_set_sel [simp]:
  "heads (set_prv i c l) = heads l" "nxt (set_prv i c l) = nxt l"
  "prv (set_prv i c l) = (prv l)(i := c)"
  "heads (set_nxt i v l) = heads l" "nxt (set_nxt i v l) = (nxt l)(i := v)"
  "prv (set_nxt i v l) = prv l"
  by (simp_all add: set_prv_def set_nxt_def)

lemma lib_insert_after_sel:
  assumes "new \<noteq> obj"
  shows "heads (lib_insert obj new PTL_INS_AFTER l) = heads l"
    and "nxt (lib_insert obj new PTL_INS_AFTER l) = (nxt l)(new := nxt l obj, obj := Some new)"
    and "prv (lib_insert obj new PTL_INS_AFTER l) =
      (case nxt l obj of
         None \<Rightarrow> (prv l)(new := Some (Next obj))
       | Some m \<Rightarrow> (prv l)(new := Some (Next obj), m := Some (Next new)))"
  using assms by (auto simp: lib_insert_def Let_def split: option.splits)


lemma lib_insert_before_sel:
  assumes "new \<noteq> obj"
  shows "heads (lib_insert obj new PTL_INS_BEFORE l) =
      (case prv l obj of Some (Head h) \<Rightarrow> (heads l)(h := Some new) | _ \<Rightarrow> heads l)"
    and "nxt (lib_insert obj new PTL_INS_BEFORE l) =
      (case prv l obj of
         Some (Next i) \<Rightarrow> (nxt l)(new := Some obj, i := Some new)
       | _ \<Rightarrow> (nxt l)(new := Some obj))"
    and "prv (lib_insert obj new PTL_INS_BEFORE l) = (prv l)(new := prv l obj, obj := Some (Next new))"
  using assms by (auto simp: lib_insert_def Let_def split: option.splits cell.splits)

lemma lib_unlink_sel:
  assumes "prv l obj \<noteq> Some (Next obj)"
  shows "heads (lib_unlink obj l) =
      (case prv l obj of Some (Head h) \<Rightarrow> (heads l)(h := nxt l obj) | _ \<Rightarrow> heads l)"
    and "nxt (lib_unlink obj l) =
      (case prv l obj of
         Some (Next i) \<Rightarrow> (nxt l)(i := nxt l obj, obj := None)
       | _ \<Rightarrow> (nxt l)(obj := None))"
    and "prv (lib_unlink obj l) =
      (case nxt l obj of
         None \<Rightarrow> (prv l)(obj := None)
       | Some m \<Rightarrow> (prv l)(m := prv l obj, obj := None))"
  using assms by (auto simp: lib_unlink_def Let_def split: option.splits cell.splits)

section \<open>The operations keep the links well-formed\<close>

text \<open>Subdividing an edge by a fresh element keeps a relation acyclic, contracting one too.\<close>

lemma acyclic_subdivide:
  assumes "acyclic r" and "n \<notin> Field r" and "a \<noteq> n" and "(a, b) \<in> r"
  shows "acyclic (insert (a, n) (insert (n, b) (r - {(a, b)})))"
proof -
  let ?q = "r - {(a, b)}"
  have q: "acyclic ?q" using assms(1) acyclic_subset [of r ?q] by blast
  have "(b, n) \<notin> ?q\<^sup>*"
  proof
    assume "(b, n) \<in> ?q\<^sup>*"
    then show False
    proof (cases rule: rtranclE)
      case base
      then show ?thesis using assms(2,4) by (auto simp: Field_def)
    next
      case (step y)
      then show ?thesis using assms(2) by (auto simp: Field_def)
    qed
  qed
  with q have q1: "acyclic (insert (n, b) ?q)" by (simp add: acyclic_insert)
  have "(n, a) \<notin> (insert (n, b) ?q)\<^sup>*"
  proof
    assume "(n, a) \<in> (insert (n, b) ?q)\<^sup>*"
    with assms(3) have "(b, a) \<in> ?q\<^sup>*"
      by (auto simp: rtrancl_insert dest: rtranclD tranclD simp: Field_def)
        (use assms(2) in \<open>auto dest!: tranclD simp: Field_def rtrancl_eq_or_trancl\<close>)
    then have "(b, a) \<in> r\<^sup>*" by (rule rtrancl_mono [THEN subsetD, rotated]) blast
    with assms(1,4) show False by (meson acyclic_def rtrancl_into_trancl1 rtrancl_into_trancl2)
  qed
  with q1 show ?thesis by (simp add: acyclic_insert)
qed

lemma acyclic_insert_fresh_target:
  "acyclic r \<Longrightarrow> n \<notin> Field r \<Longrightarrow> a \<noteq> n \<Longrightarrow> acyclic (insert (a, n) r)"
  by (auto simp: acyclic_insert Field_def elim: converse_rtranclE)

lemma acyclic_insert_fresh_source:
  "acyclic r \<Longrightarrow> n \<notin> Field r \<Longrightarrow> a \<noteq> n \<Longrightarrow> acyclic (insert (n, a) r)"
  by (auto simp: acyclic_insert Field_def elim: rtranclE)

lemma wf_links_Field: "wf_links us hs l \<Longrightarrow> Field (link_edges us l) \<subseteq> us"
  by (auto simp: Field_def link_edges_def dest: wf_links_nxt)

lemma link_edges_upd [simp]:
  "link_edges us (set_prv i c l) = link_edges us l"
  "link_edges us (l\<lparr>heads := hd'\<rparr>) = link_edges us l"
  by (simp_all add: link_edges_def set_prv_def)

lemma wf_link_clear:
  assumes "wf_links us hs l" "new \<notin> us"
  shows "wf_links (insert new us) hs (link_clear new l)" (is "wf_links _ _ ?l")
proof -
  note wf = wf_links_dests [OF assms(1)]
  have sel: "heads ?l = heads l" "nxt ?l = (nxt l)(new := None)" "prv ?l = (prv l)(new := None)"
    by (simp_all add: link_clear_def)
  have "link_edges (insert new us) ?l = link_edges us l"
    using assms(2) by (auto simp: link_edges_def sel split: if_splits)
  then have edges: "acyclic (link_edges (insert new us) ?l)"
    using wf_links_acyclic [OF assms(1)] by simp
  show ?thesis
  proof (rule wf_linksI)
    fix k m assume "k \<in> hs" "heads ?l k = Some m"
    then show "m \<in> insert new us \<and> prv ?l m = Some (Head k)"
      using assms wf(1) [of k m] by (auto simp: sel split: if_splits)
  next
    fix i m assume "i \<in> insert new us" "nxt ?l i = Some m"
    then show "m \<in> insert new us \<and> prv ?l m = Some (Next i)"
      using assms wf(2) [of i m] by (auto simp: sel split: if_splits)
  next
    fix m k assume "m \<in> insert new us" "prv ?l m = Some (Head k)"
    then show "k \<in> hs \<and> heads ?l k = Some m"
      using assms wf(3) [of m k] by (auto simp: sel split: if_splits)
  next
    fix m i assume "m \<in> insert new us" "prv ?l m = Some (Next i)"
    then show "i \<in> insert new us \<and> nxt ?l i = Some m"
      using assms wf(4) [of m i] by (auto simp: sel split: if_splits)
  qed (use edges in simp)
qed

lemma wf_link_head:
  assumes "wf_links us hs l" "new \<notin> us" "h \<in> hs" "heads l h = None"
  shows "wf_links (insert new us) hs (link_head h new l)" (is "wf_links _ _ ?l")
proof -
  note wf = wf_links_dests [OF assms(1)]
  have sel: "heads ?l = (heads l)(h := Some new)" "nxt ?l = (nxt l)(new := None)"
      "prv ?l = (prv l)(new := Some (Head h))"
    by (simp_all add: link_head_def set_prv_def set_nxt_def)
  have "link_edges (insert new us) ?l = link_edges us l"
    using assms(2) by (auto simp: link_edges_def sel split: if_splits)
  then have edges: "acyclic (link_edges (insert new us) ?l)"
    using wf_links_acyclic [OF assms(1)] by simp
  show ?thesis
  proof (rule wf_linksI)
    fix k m assume "k \<in> hs" "heads ?l k = Some m"
    then show "m \<in> insert new us \<and> prv ?l m = Some (Head k)"
      using assms wf(1) [of k m] by (auto simp: sel split: if_splits)
  next
    fix i m assume "i \<in> insert new us" "nxt ?l i = Some m"
    then show "m \<in> insert new us \<and> prv ?l m = Some (Next i)"
      using assms wf(2) [of i m] by (auto simp: sel split: if_splits)
  next
    fix m k assume "m \<in> insert new us" "prv ?l m = Some (Head k)"
    then show "k \<in> hs \<and> heads ?l k = Some m"
      using assms wf(3) [of m k] by (auto simp: sel split: if_splits)
  next
    fix m i assume "m \<in> insert new us" "prv ?l m = Some (Next i)"
    then show "i \<in> insert new us \<and> nxt ?l i = Some m"
      using assms wf(4) [of m i] by (auto simp: sel split: if_splits)
  qed (use edges in simp)
qed

lemma link_edges_insert_after:
  assumes "obj \<in> us" "new \<notin> us"
  shows "link_edges (insert new us) (lib_insert obj new PTL_INS_AFTER l) =
    (case nxt l obj of
       None \<Rightarrow> insert (obj, new) (link_edges us l)
     | Some m \<Rightarrow> insert (obj, new) (insert (new, m) (link_edges us l - {(obj, m)})))"
proof -
  have ne: "new \<noteq> obj" using assms by blast
  show ?thesis
    using assms ne
    by (auto simp: link_edges_def lib_insert_after_sel [OF ne] split: option.splits if_splits)
qed

lemma link_edges_insert_before:
  assumes "wf_links us hs l" "obj \<in> us" "new \<notin> us"
  shows "link_edges (insert new us) (lib_insert obj new PTL_INS_BEFORE l) =
    (case prv l obj of
       Some (Next i) \<Rightarrow> insert (i, new) (insert (new, obj) (link_edges us l - {(i, obj)}))
     | _ \<Rightarrow> insert (new, obj) (link_edges us l))"
proof -
  have ne: "new \<noteq> obj" using assms by blast
  show ?thesis
  proof (cases "\<exists>i. prv l obj = Some (Next i)")
    case True
    then obtain i where i: "prv l obj = Some (Next i)" by blast
    with wf_links_prv_Next [OF assms(1,2)] have "i \<in> us" "nxt l i = Some obj" by blast+
    with assms i ne show ?thesis
      by (auto simp: link_edges_def lib_insert_before_sel [OF ne] split: if_splits)
  next
    case False
    with assms ne show ?thesis
      by (auto simp: link_edges_def lib_insert_before_sel [OF ne]
          split: option.splits cell.splits if_splits)
  qed
qed

lemma link_edges_unlink:
  assumes "wf_links us hs l" "obj \<in> us"
  shows "link_edges (us - {obj}) (lib_unlink obj l) \<subseteq> (link_edges us l)\<^sup>+"
proof (rule subrelI)
  fix i m assume e: "(i, m) \<in> link_edges (us - {obj}) (lib_unlink obj l)"
  note sel = lib_unlink_sel [OF wf_links_no_self [OF assms]]
  show "(i, m) \<in> (link_edges us l)\<^sup>+"
  proof (cases "prv l obj = Some (Next i)")
    case True
    with e have "(obj, m) \<in> link_edges us l"
      using assms(2) by (auto simp: link_edges_def sel)
    moreover from True have "(i, obj) \<in> link_edges us l"
      using wf_links_prv_Next [OF assms] by (auto simp: link_edges_def)
    ultimately show ?thesis by (meson r_into_trancl trancl_into_trancl2)
  next
    case False
    with e have "(i, m) \<in> link_edges us l"
      by (auto simp: link_edges_def sel split: option.splits cell.splits if_splits)
    then show ?thesis by (rule r_into_trancl)
  qed
qed

lemma acyclic_insert_after:
  assumes "wf_links us hs l" "obj \<in> us" "new \<notin> us"
  shows "acyclic (link_edges (insert new us) (lib_insert obj new PTL_INS_AFTER l))"
proof -
  have f: "new \<notin> Field (link_edges us l)" using wf_links_Field [OF assms(1)] assms(3) by blast
  have ne: "obj \<noteq> new" using assms by blast
  note a = wf_links_acyclic [OF assms(1)]
  show ?thesis
  proof (cases "nxt l obj")
    case None
    have "acyclic (insert (obj, new) (link_edges us l))"
      using a f ne by (rule acyclic_insert_fresh_target)
    with None show ?thesis by (simp only: link_edges_insert_after [OF assms(2,3)] option.case)
  next
    case (Some m)
    with assms(2) have "(obj, m) \<in> link_edges us l" by (simp add: link_edges_def)
    with a f ne have "acyclic (insert (obj, new) (insert (new, m) (link_edges us l - {(obj, m)})))"
      by (rule acyclic_subdivide)
    with Some show ?thesis by (simp only: link_edges_insert_after [OF assms(2,3)] option.case)
  qed
qed

lemma acyclic_insert_before:
  assumes "wf_links us hs l" "obj \<in> us" "new \<notin> us"
  shows "acyclic (link_edges (insert new us) (lib_insert obj new PTL_INS_BEFORE l))"
proof -
  have f: "new \<notin> Field (link_edges us l)" using wf_links_Field [OF assms(1)] assms(3) by blast
  note a = wf_links_acyclic [OF assms(1)]
  show ?thesis
  proof (cases "\<exists>i. prv l obj = Some (Next i)")
    case True
    then obtain i where i: "prv l obj = Some (Next i)" by blast
    with wf_links_prv_Next [OF assms(1,2)] have "i \<in> us" "nxt l i = Some obj" by blast+
    with assms(3) have "i \<noteq> new" "(i, obj) \<in> link_edges us l" by (auto simp: link_edges_def)
    with a f have "acyclic (insert (i, new) (insert (new, obj) (link_edges us l - {(i, obj)})))"
      by (rule acyclic_subdivide)
    with i show ?thesis by (simp only: link_edges_insert_before [OF assms] option.case cell.case)
  next
    case False
    then have "link_edges (insert new us) (lib_insert obj new PTL_INS_BEFORE l) =
        insert (new, obj) (link_edges us l)"
      by (auto simp: link_edges_insert_before [OF assms] split: option.splits cell.splits)
    moreover have "obj \<noteq> new" using assms by blast
    ultimately show ?thesis using acyclic_insert_fresh_source [OF a f] by simp
  qed
qed

lemma acyclic_unlink:
  assumes "wf_links us hs l" "obj \<in> us"
  shows "acyclic (link_edges (us - {obj}) (lib_unlink obj l))"
  using link_edges_unlink [OF assms] wf_links_acyclic [OF assms(1)]
  by (auto simp: acyclic_def dest: trancl_mono)

lemma wf_lib_insert_after:
  assumes "wf_links us hs l" "obj \<in> us" "new \<notin> us"
  shows "wf_links (insert new us) hs (lib_insert obj new PTL_INS_AFTER l)" (is "wf_links _ _ ?l")
proof -
  have ne: "new \<noteq> obj" using assms by blast
  note sel = lib_insert_after_sel [OF ne, of l]
  note wf = wf_links_dests [OF assms(1)]
  show ?thesis
  proof (rule wf_linksI)
    fix h m assume "h \<in> hs" "heads ?l h = Some m"
    then show "m \<in> insert new us \<and> prv ?l m = Some (Head h)"
      using wf(1) [of h m] wf(2) [of obj m] assms by (auto simp: sel split: option.splits)
  next
    fix i m assume "i \<in> insert new us" "nxt ?l i = Some m"
    then show "m \<in> insert new us \<and> prv ?l m = Some (Next i)"
      using wf(2) [of i m] wf(2) [of obj m] assms
      by (auto simp: sel split: option.splits if_splits)
  next
    fix m h assume "m \<in> insert new us" "prv ?l m = Some (Head h)"
    then show "h \<in> hs \<and> heads ?l h = Some m"
      using wf(3) [of m h] by (auto simp: sel split: option.splits if_splits)
  next
    fix m i assume "m \<in> insert new us" "prv ?l m = Some (Next i)"
    then show "i \<in> insert new us \<and> nxt ?l i = Some m"
      using wf(4) [of m i] assms by (auto simp: sel split: option.splits if_splits)
  qed (rule acyclic_insert_after [OF assms])
qed

lemma wf_lib_insert_before:
  assumes "wf_links us hs l" "obj \<in> us" "new \<notin> us"
  shows "wf_links (insert new us) hs (lib_insert obj new PTL_INS_BEFORE l)" (is "wf_links _ _ ?l")
proof -
  have ne: "new \<noteq> obj" using assms by blast
  note sel = lib_insert_before_sel [OF ne, of l]
  note wf = wf_links_dests [OF assms(1)]
  show ?thesis
  proof (rule wf_linksI)
    fix h m assume "h \<in> hs" "heads ?l h = Some m"
    then show "m \<in> insert new us \<and> prv ?l m = Some (Head h)"
      using wf(1) [of h m] wf(3) [of obj h] assms
      by (auto simp: sel split: option.splits cell.splits if_splits)
  next
    fix i m assume "i \<in> insert new us" "nxt ?l i = Some m"
    then show "m \<in> insert new us \<and> prv ?l m = Some (Next i)"
      using wf(2) [of i m] wf(4) [of obj i] assms
      by (auto simp: sel split: option.splits cell.splits if_splits)
  next
    fix m h assume "m \<in> insert new us" "prv ?l m = Some (Head h)"
    then show "h \<in> hs \<and> heads ?l h = Some m"
      using wf(3) [of m h] wf(3) [of obj h] assms
      by (auto simp: sel split: option.splits cell.splits if_splits)
  next
    fix m i assume "m \<in> insert new us" "prv ?l m = Some (Next i)"
    then show "i \<in> insert new us \<and> nxt ?l i = Some m"
      using wf(4) [of m i] wf(4) [of obj i] assms
      by (auto simp: sel split: option.splits cell.splits if_splits)
  qed (rule acyclic_insert_before [OF assms])
qed

lemma wf_lib_unlink:
  assumes "wf_links us hs l" "obj \<in> us"
  shows "wf_links (us - {obj}) hs (lib_unlink obj l)" (is "wf_links _ _ ?l")
proof -
  note sel = lib_unlink_sel [OF wf_links_no_self [OF assms]]
  note wf = wf_links_dests [OF assms(1)]
  show ?thesis
  proof (rule wf_linksI)
    fix h m assume "h \<in> hs" "heads ?l h = Some m"
    then show "m \<in> us - {obj} \<and> prv ?l m = Some (Head h)"
      using wf(1) [of h m] wf(2) [of obj m] wf(3) [of obj h] assms
      by (auto simp: sel split: option.splits cell.splits if_splits)
  next
    fix i m assume "i \<in> us - {obj}" "nxt ?l i = Some m"
    then show "m \<in> us - {obj} \<and> prv ?l m = Some (Next i)"
      using wf(2) [of i m] wf(2) [of obj m] wf(4) [of obj i] assms
      by (auto simp: sel split: option.splits cell.splits if_splits)
  next
    fix m h assume "m \<in> us - {obj}" "prv ?l m = Some (Head h)"
    then show "h \<in> hs \<and> heads ?l h = Some m"
      using wf(3) [of m h] wf(3) [of obj h] wf(2) [of obj m] assms
      by (auto simp: sel split: option.splits cell.splits if_splits)
  next
    fix m i assume "m \<in> us - {obj}" "prv ?l m = Some (Next i)"
    then show "i \<in> us - {obj} \<and> nxt ?l i = Some m"
      using wf(4) [of m i] wf(4) [of obj i] wf(2) [of obj m] assms
      by (auto simp: sel split: option.splits cell.splits if_splits)
  qed (rule acyclic_unlink [OF assms])
qed

lemma wf_lib_insert:
  "wf_links us hs l \<Longrightarrow> obj \<in> us \<Longrightarrow> new \<notin> us \<Longrightarrow> wf_links (insert new us) hs (lib_insert obj new pos l)"
  by (cases pos) (simp_all add: wf_lib_insert_after wf_lib_insert_before)

section \<open>The lists that the links represent\<close>

text \<open>
  \<open>seg f p xs q\<close>: following \<open>f\<close> from the pointer \<open>p\<close> one meets the
  elements \<open>xs\<close> and arrives at the pointer \<open>q\<close>.  A list of the library is a
  segment from its head to the null pointer.
\<close>

fun seg :: "(nat \<Rightarrow> nat option) \<Rightarrow> nat option \<Rightarrow> nat list \<Rightarrow> nat option \<Rightarrow> bool" where
  "seg f p [] q \<longleftrightarrow> p = q"
| "seg f p (x # xs) q \<longleftrightarrow> p = Some x \<and> seg f (f x) xs q"

definition list_at :: "links \<Rightarrow> nat \<Rightarrow> nat list \<Rightarrow> bool" where
  "list_at l h xs \<longleftrightarrow> seg (nxt l) (heads l h) xs None"

lemma seg_append [simp]: "seg f p (xs @ ys) q \<longleftrightarrow> (\<exists>r. seg f p xs r \<and> seg f r ys q)"
  by (induction xs arbitrary: p) auto

lemma seg_upd [simp]: "x \<notin> set xs \<Longrightarrow> seg (f(x := v)) p xs q = seg f p xs q"
  by (induction xs arbitrary: p) auto

lemma seg_unique: "seg f p xs None \<Longrightarrow> seg f p ys None \<Longrightarrow> xs = ys"
proof (induction xs arbitrary: p ys)
  case Nil
  then show ?case by (cases ys) auto
next
  case (Cons x xs)
  then show ?case by (cases ys) auto
qed

lemma seg_distinct: "seg f p xs None \<Longrightarrow> distinct xs"
proof (induction xs arbitrary: p)
  case (Cons x xs)
  have "x \<notin> set xs"
  proof
    assume "x \<in> set xs"
    then obtain as bs where xs: "xs = as @ x # bs" by (meson split_list)
    with Cons.prems have "seg f (f x) (as @ x # bs) None" and "seg f (f x) bs None"
      by auto
    then have "as @ x # bs = bs" by (rule seg_unique)
    then have "length (as @ x # bs) = length bs" by (rule arg_cong)
    then show False by simp
  qed
  with Cons show ?case by auto
qed simp

lemma list_at_unique: "list_at l h xs \<Longrightarrow> list_at l h ys \<Longrightarrow> xs = ys"
  unfolding list_at_def by (rule seg_unique)

lemma list_at_distinct: "list_at l h xs \<Longrightarrow> distinct xs"
  unfolding list_at_def by (rule seg_distinct)

lemma list_at_Nil [simp]: "list_at l h [] \<longleftrightarrow> heads l h = None"
  by (simp add: list_at_def)

lemma list_at_Cons: "list_at l h (x # xs) \<longleftrightarrow> heads l h = Some x \<and> seg (nxt l) (nxt l x) xs None"
  by (simp add: list_at_def)

lemma seg_exists:
  assumes "wf_links us hs l" "finite us" "i \<in> us"
  shows "\<exists>xs. seg (nxt l) (Some i) xs None \<and> set xs \<subseteq> us"
proof -
  have "link_edges us l \<subseteq> us \<times> us"
    using wf_links_nxt [OF assms(1)] by (auto simp: link_edges_def)
  then have "finite (link_edges us l)"
    using assms(2) finite_subset by blast
  then have "wf ((link_edges us l)\<inverse>)"
    using wf_links_acyclic [OF assms(1)] by (rule finite_acyclic_wf_converse)
  then show ?thesis
    using assms(3)
  proof (induction i rule: wf_induct_rule)
    case (less i)
    show ?case
    proof (cases "nxt l i")
      case None
      with less.prems show ?thesis by (intro exI [of _ "[i]"]) simp
    next
      case (Some m)
      with less.prems have "(m, i) \<in> (link_edges us l)\<inverse>" and "m \<in> us"
        using wf_links_nxt [OF assms(1)] by (auto simp: link_edges_def)
      then obtain xs where "seg (nxt l) (Some m) xs None" "set xs \<subseteq> us"
        using less.IH by blast
      with Some less.prems show ?thesis by (intro exI [of _ "i # xs"]) simp
    qed
  qed
qed

lemma list_at_exists:
  assumes "wf_links us hs l" "finite us" "h \<in> hs"
  shows "\<exists>xs. list_at l h xs \<and> set xs \<subseteq> us"
proof (cases "heads l h")
  case None
  then show ?thesis by (intro exI [of _ "[]"]) simp
next
  case (Some m)
  with wf_links_head [OF assms(1,3)] have "m \<in> us" by blast
  with seg_exists [OF assms(1,2)] Some show ?thesis by (simp add: list_at_def)
qed

text \<open>The elements of a list, and what points to the element after a prefix.\<close>

lemma seg_subset:
  assumes "wf_links us hs l" "seg (nxt l) (Some i) xs q" "i \<in> us"
  shows "set xs \<subseteq> us"
  using assms(2,3)
proof (induction xs arbitrary: i)
  case (Cons x xs)
  show ?case
  proof (cases xs)
    case Nil
    with Cons.prems show ?thesis by simp
  next
    case (Cons y ys)
    with Cons.prems have "nxt l x = Some y" and "x \<in> us" by auto
    then have "y \<in> us" using wf_links_nxt [OF assms(1)] by blast
    with Cons.IH [of y] Cons.prems Cons \<open>nxt l x = Some y\<close> show ?thesis by auto
  qed
qed simp

lemma list_at_subset:
  assumes "wf_links us hs l" "list_at l h xs" "h \<in> hs"
  shows "set xs \<subseteq> us"
proof (cases xs)
  case (Cons a ys)
  with assms have "seg (nxt l) (Some a) xs None" and "a \<in> us"
    using wf_links_head [OF assms(1,3)] by (auto simp: list_at_Cons)
  then show ?thesis by (rule seg_subset [OF assms(1)])
qed simp

fun cell_before :: "nat \<Rightarrow> nat list \<Rightarrow> cell" where
  "cell_before h [] = Head h"
| "cell_before h (x # xs) = Next (last (x # xs))"

lemma list_at_prv:
  assumes "wf_links us hs l" "list_at l h (as @ obj # bs)" "h \<in> hs"
  shows "prv l obj = Some (cell_before h as)"
proof (cases as rule: rev_cases)
  case Nil
  with assms show ?thesis by (simp add: list_at_Cons wf_links_head)
next
  case (snoc cs c)
  with assms have "c \<in> us" using list_at_subset [OF assms(1,2,3)] by simp
  moreover from assms(2) snoc have "nxt l c = Some obj" by (auto simp: list_at_def)
  ultimately have "prv l obj = Some (Next c)" using wf_links_nxt [OF assms(1)] by blast
  with snoc show ?thesis by (cases cs) auto
qed

lemma seg_next_mem: "seg f p xs None \<Longrightarrow> i \<in> set xs \<Longrightarrow> f i = Some m \<Longrightarrow> m \<in> set xs"
proof (induction xs arbitrary: p)
  case (Cons x xs)
  then show ?case by (cases xs) auto
qed simp

section \<open>What the operations do to the lists\<close>

lemma list_at_insert_after:
  assumes "wf_links us hs l" "h \<in> hs" "list_at l h (as @ obj # bs)" "new \<notin> us"
  shows "list_at (lib_insert obj new PTL_INS_AFTER l) h (as @ obj # new # bs)"
proof -
  have sub: "set (as @ obj # bs) \<subseteq> us" using list_at_subset [OF assms(1,3,2)] .
  have dist: "distinct (as @ obj # bs)" using list_at_distinct [OF assms(3)] .
  from sub assms(4) have ne: "new \<noteq> obj" "new \<notin> set as" "new \<notin> set bs" by auto
  note sel = lib_insert_after_sel [OF ne(1), of l]
  show ?thesis using assms(3) ne dist by (auto simp: list_at_def sel)
qed

lemma list_at_insert_before:
  assumes "wf_links us hs l" "h \<in> hs" "list_at l h (as @ obj # bs)" "new \<notin> us"
  shows "list_at (lib_insert obj new PTL_INS_BEFORE l) h (as @ new # obj # bs)"
proof -
  have sub: "set (as @ obj # bs) \<subseteq> us" using list_at_subset [OF assms(1,3,2)] .
  have dist: "distinct (as @ obj # bs)" using list_at_distinct [OF assms(3)] .
  from sub assms(4) have ne: "new \<noteq> obj" "new \<notin> set as" "new \<notin> set bs" by auto
  note sel = lib_insert_before_sel [OF ne(1), of l]
  have prv: "prv l obj = Some (cell_before h as)" using list_at_prv [OF assms(1,3,2)] .
  show ?thesis
  proof (cases as rule: rev_cases)
    case Nil
    with assms(3) ne dist prv show ?thesis by (auto simp: list_at_def sel)
  next
    case (snoc cs c)
    then have "cell_before h as = Next c" by (cases cs) auto
    with snoc assms(3) ne dist prv show ?thesis by (auto simp: list_at_def sel)
  qed
qed

lemma list_at_unlink:
  assumes "wf_links us hs l" "h \<in> hs" "list_at l h (as @ obj # bs)"
  shows "list_at (lib_unlink obj l) h (as @ bs)"
proof -
  have "obj \<in> us" using list_at_subset [OF assms(1,3,2)] by simp
  note sel = lib_unlink_sel [OF wf_links_no_self [OF assms(1) this]]
  have dist: "distinct (as @ obj # bs)" using list_at_distinct [OF assms(3)] .
  have prv: "prv l obj = Some (cell_before h as)" using list_at_prv [OF assms(1,3,2)] .
  show ?thesis
  proof (cases as rule: rev_cases)
    case Nil
    with assms(3) dist prv show ?thesis by (auto simp: list_at_def sel)
  next
    case (snoc cs c)
    then have "cell_before h as = Next c" by (cases cs) auto
    with snoc assms(3) dist prv show ?thesis by (auto simp: list_at_def sel)
  qed
qed

lemma list_at_link_head:
  "wf_links us hs l \<Longrightarrow> new \<notin> us \<Longrightarrow> list_at (link_head h new l) h [new]"
  by (simp add: list_at_def link_head_def)

text \<open>Lists that do not contain the element are left alone.\<close>

lemma list_at_other_insert:
  assumes "wf_links us hs l" "obj \<in> us" "k \<in> hs" "list_at l k ys" "obj \<notin> set ys" "new \<notin> us"
  shows "list_at (lib_insert obj new pos l) k ys"
proof -
  have ne: "new \<noteq> obj" "new \<notin> set ys"
    using list_at_subset [OF assms(1,4,3)] assms(2,6) by auto
  show ?thesis
  proof (cases pos)
    case PTL_INS_AFTER
    with assms ne show ?thesis by (simp add: list_at_def lib_insert_after_sel [OF ne(1)])
  next
    case PTL_INS_BEFORE
    have "heads l k \<noteq> Some obj" using assms(4,5) by (cases ys) (auto simp: list_at_def)
    moreover have "i \<notin> set ys" if "prv l obj = Some (Next i)" for i
      using that wf_links_prv_Next [OF assms(1,2)] seg_next_mem assms(4,5)
      unfolding list_at_def by blast
    moreover have "heads l h = Some obj" if "prv l obj = Some (Head h)" for h
      using that wf_links_prv_Head [OF assms(1,2)] by blast
    ultimately show ?thesis using assms(4) ne PTL_INS_BEFORE
      by (auto simp: list_at_def lib_insert_before_sel [OF ne(1)] split: option.splits cell.splits)
  qed
qed

lemma list_at_other_unlink:
  assumes "wf_links us hs l" "obj \<in> us" "k \<in> hs" "list_at l k ys" "obj \<notin> set ys"
  shows "list_at (lib_unlink obj l) k ys"
proof -
  note sel = lib_unlink_sel [OF wf_links_no_self [OF assms(1,2)]]
  have "heads l k \<noteq> Some obj" using assms(4,5) by (cases ys) (auto simp: list_at_def)
  moreover have "i \<notin> set ys" if "prv l obj = Some (Next i)" for i
    using that wf_links_prv_Next [OF assms(1,2)] seg_next_mem assms(4,5)
    unfolding list_at_def by blast
  moreover have "heads l h = Some obj" if "prv l obj = Some (Head h)" for h
    using that wf_links_prv_Head [OF assms(1,2)] by blast
  ultimately show ?thesis using assms(4,5)
    by (auto simp: list_at_def sel split: option.splits cell.splits)
qed

lemma list_at_other_head:
  assumes "wf_links us hs l" "new \<notin> us" "k \<in> hs" "k \<noteq> h" "list_at l k ys"
  shows "list_at (link_head h new l) k ys"
proof -
  have "new \<notin> set ys" using list_at_subset [OF assms(1,5,3)] assms(2) by blast
  with assms(4,5) show ?thesis by (simp add: list_at_def link_head_def)
qed

lemma list_at_other_clear:
  assumes "wf_links us hs l" "new \<notin> us" "k \<in> hs" "list_at l k ys"
  shows "list_at (link_clear new l) k ys"
proof -
  have "new \<notin> set ys" using list_at_subset [OF assms(1,4,3)] assms(2) by blast
  with assms(4) show ?thesis by (simp add: list_at_def link_clear_def)
qed

section \<open>The contract of the lists\<close>

text \<open>
  What the clients of the macros rely on: \<open>ok us l\<close> says that \<open>l\<close> represents
  lists over the elements \<open>us\<close>, \<open>at l h xs\<close> that the list under the head
  \<open>h\<close> is \<open>xs\<close>.
\<close>

locale linked_lists =
  fixes hs :: "nat set"
    and ok :: "nat set \<Rightarrow> 'l \<Rightarrow> bool"
    and at :: "'l \<Rightarrow> nat \<Rightarrow> nat list \<Rightarrow> bool"
    and ins :: "nat \<Rightarrow> nat \<Rightarrow> ptl_ins_pos \<Rightarrow> 'l \<Rightarrow> 'l"
    and unl :: "nat \<Rightarrow> 'l \<Rightarrow> 'l"
  assumes ok_ins: "ok us l \<Longrightarrow> obj \<in> us \<Longrightarrow> new \<notin> us \<Longrightarrow> ok (insert new us) (ins obj new pos l)"
    and ok_unl: "ok us l \<Longrightarrow> obj \<in> us \<Longrightarrow> ok (us - {obj}) (unl obj l)"
    and at_unique: "at l h xs \<Longrightarrow> at l h ys \<Longrightarrow> xs = ys"
    and at_subset: "ok us l \<Longrightarrow> at l h xs \<Longrightarrow> h \<in> hs \<Longrightarrow> set xs \<subseteq> us"
    and at_after: "ok us l \<Longrightarrow> h \<in> hs \<Longrightarrow> at l h (as @ obj # bs) \<Longrightarrow> new \<notin> us \<Longrightarrow>
      at (ins obj new PTL_INS_AFTER l) h (as @ obj # new # bs)"
    and at_before: "ok us l \<Longrightarrow> h \<in> hs \<Longrightarrow> at l h (as @ obj # bs) \<Longrightarrow> new \<notin> us \<Longrightarrow>
      at (ins obj new PTL_INS_BEFORE l) h (as @ new # obj # bs)"
    and at_unl: "ok us l \<Longrightarrow> h \<in> hs \<Longrightarrow> at l h (as @ obj # bs) \<Longrightarrow> at (unl obj l) h (as @ bs)"
    and at_ins_other: "ok us l \<Longrightarrow> obj \<in> us \<Longrightarrow> k \<in> hs \<Longrightarrow> at l k ys \<Longrightarrow> obj \<notin> set ys \<Longrightarrow>
      new \<notin> us \<Longrightarrow> at (ins obj new pos l) k ys"
    and at_unl_other: "ok us l \<Longrightarrow> obj \<in> us \<Longrightarrow> k \<in> hs \<Longrightarrow> at l k ys \<Longrightarrow> obj \<notin> set ys \<Longrightarrow>
      at (unl obj l) k ys"
begin

text \<open>Insertion adds exactly the new element to the list, next to the given one.\<close>

lemma ins_set:
  assumes "ok us l" "h \<in> hs" "at l h xs" "obj \<in> set xs" "new \<notin> us" "at (ins obj new pos l) h ys"
  shows "set ys = insert new (set xs)"
proof -
  obtain as bs where xs: "xs = as @ obj # bs" using assms(4) by (meson split_list)
  show ?thesis
  proof (cases pos)
    case PTL_INS_AFTER
    with assms xs at_unique [OF assms(6)] at_after [of us l h as obj bs new] show ?thesis by auto
  next
    case PTL_INS_BEFORE
    with assms xs at_unique [OF assms(6)] at_before [of us l h as obj bs new] show ?thesis by auto
  qed
qed

text \<open>Unlinking an element that was just inserted restores the list.\<close>

lemma ins_unl:
  assumes "ok us l" "h \<in> hs" "at l h xs" "obj \<in> set xs" "obj \<in> us" "new \<notin> us"
  shows "at (unl new (ins obj new pos l)) h xs"
proof -
  obtain as bs where xs: "xs = as @ obj # bs" using assms(4) by (meson split_list)
  have ok: "ok (insert new us) (ins obj new pos l)" using assms ok_ins by blast
  show ?thesis
  proof (cases pos)
    case PTL_INS_AFTER
    then have "at (ins obj new pos l) h ((as @ [obj]) @ new # bs)"
      using at_after [of us l h as obj bs new] assms xs by simp
    from at_unl [OF ok assms(2) this] xs show ?thesis by simp
  next
    case PTL_INS_BEFORE
    then have "at (ins obj new pos l) h (as @ new # obj # bs)"
      using at_before [of us l h as obj bs new] assms xs by simp
    from at_unl [OF ok assms(2) this] xs show ?thesis by simp
  qed
qed

end

interpretation ll: linked_lists hs "\<lambda>us. wf_links us hs" list_at lib_insert lib_unlink for hs
  by unfold_locales
    (fact wf_lib_insert wf_lib_unlink list_at_unique list_at_subset list_at_insert_after
      list_at_insert_before list_at_unlink list_at_other_insert list_at_other_unlink)+

end
