(* ===== verification/P30_State.thy ===== *)
theory P30_State
  imports P30_Pool P30_Links
begin

text \<open>
  The state of a network interface (\<open>lib_ni_t\<close> of \<open>lib-types.h\<close>), the callbacks
  of the network abstraction layer (\<open>nal_cb_t\<close> of \<open>lib-nal.h\<close>), the allocators
  of \<open>lib-p30.h\<close> on the state, and the invariant of an interface.
\<close>

section \<open>The network abstraction layer\<close>

text \<open>
  The library calls the layer through function pointers.  Every call is recorded in the
  trace of the interface, with the arguments the layer sees (lengths converted to
  \<open>size_t\<close>, messages by their index or null).  What a call returns is a parameter of
  the model: a function of the trace so far and of the arguments, so that it may depend on
  the state of the layer.
\<close>

datatype nal_call =
    CB_SEND "nat option" ptl_hdr int int int int user_ptr "64 word"
  | CB_RECV "nat option" user_ptr "64 word" "64 word"
  | CB_WRITE user_ptr ptl_event
  | CB_INVALIDATE user_ptr "64 word" user_ptr
  | CB_VALIDATE user_ptr "64 word"
  | CB_MALLOC "64 word"
  | CB_FREE user_ptr

record nal_cb =
  cb_send :: "nal_call list \<Rightarrow> nat option \<Rightarrow> ptl_hdr \<Rightarrow> user_ptr \<Rightarrow> 64 word \<Rightarrow> int"
  cb_write :: "nal_call list \<Rightarrow> user_ptr \<Rightarrow> ptl_event \<Rightarrow> int"
  cb_validate :: "nal_call list \<Rightarrow> user_ptr \<Rightarrow> 64 word \<Rightarrow> int \<times> user_ptr"
  cb_malloc :: "nal_call list \<Rightarrow> 64 word \<Rightarrow> user_ptr"
  cb_gidrid2nidpid :: "int \<Rightarrow> int \<Rightarrow> int \<times> int \<times> int"
  cb_nidpid2gidrid :: "int \<Rightarrow> int \<Rightarrow> int \<times> int \<times> int"
  cb_dist :: "int \<Rightarrow> int \<times> 64 word"

definition size_t :: "int \<Rightarrow> 64 word" where
  "size_t n = of_int n"

definition NULL_PTR :: user_ptr where [ptl_const]: "NULL_PTR = 0"

section \<open>The interface\<close>

text \<open>
  The arrays of the interface are functions of the index; the five pointers are the blocks
  that \<open>lib_init\<close> got from the network layer and \<open>lib_fini\<close> gives back.
\<close>

record lib_ni =
  ni_up :: bool
  ni_nid :: int
  ni_pid :: int
  ni_rid :: int
  ni_gid :: int
  ni_num_nodes :: int
  ni_debug :: "32 word"
  ni_tbl_size :: int
  ni_me_links :: links
  ni_md_links :: links
  ni_eq :: "nat \<Rightarrow> lib_eq"
  ni_me :: "nat \<Rightarrow> lib_me"
  ni_md :: "nat \<Rightarrow> lib_md"
  ni_msg :: "nat \<Rightarrow> lib_msg"
  ni_eq_pool :: pool
  ni_me_pool :: pool
  ni_md_pool :: pool
  ni_msg_pool :: pool
  ni_counters :: lib_counters
  ni_tbl_ptr :: user_ptr
  ni_eq_ptr :: user_ptr
  ni_me_ptr :: user_ptr
  ni_md_ptr :: user_ptr
  ni_msg_ptr :: user_ptr
  ni_trace :: "nal_call list"

definition nal_call :: "nal_call \<Rightarrow> lib_ni \<Rightarrow> lib_ni" where
  "nal_call c ni = ni\<lparr>ni_trace := ni_trace ni @ [c]\<rparr>"

definition upd_md :: "nat \<Rightarrow> (lib_md \<Rightarrow> lib_md) \<Rightarrow> lib_ni \<Rightarrow> lib_ni" where
  "upd_md i f ni = ni\<lparr>ni_md := (ni_md ni)(i := f (ni_md ni i))\<rparr>"

definition upd_me :: "nat \<Rightarrow> (lib_me \<Rightarrow> lib_me) \<Rightarrow> lib_ni \<Rightarrow> lib_ni" where
  "upd_me i f ni = ni\<lparr>ni_me := (ni_me ni)(i := f (ni_me ni i))\<rparr>"

definition upd_eq :: "nat \<Rightarrow> (lib_eq \<Rightarrow> lib_eq) \<Rightarrow> lib_ni \<Rightarrow> lib_ni" where
  "upd_eq i f ni = ni\<lparr>ni_eq := (ni_eq ni)(i := f (ni_eq ni i))\<rparr>"

definition upd_msg :: "nat \<Rightarrow> (lib_msg \<Rightarrow> lib_msg) \<Rightarrow> lib_ni \<Rightarrow> lib_ni" where
  "upd_msg i f ni = ni\<lparr>ni_msg := (ni_msg ni)(i := f (ni_msg ni i))\<rparr>"

definition upd_counters :: "(lib_counters \<Rightarrow> lib_counters) \<Rightarrow> lib_ni \<Rightarrow> lib_ni" where
  "upd_counters f ni = ni\<lparr>ni_counters := f (ni_counters ni)\<rparr>"

lemmas ni_upd_defs = nal_call_def upd_md_def upd_me_def upd_eq_def upd_msg_def upd_counters_def

text \<open>What the updates leave alone.\<close>

lemma nal_call_sel [simp]:
  "ni_up (nal_call c ni) = ni_up ni" "ni_tbl_size (nal_call c ni) = ni_tbl_size ni"
  "ni_me_links (nal_call c ni) = ni_me_links ni" "ni_md_links (nal_call c ni) = ni_md_links ni"
  "ni_eq_pool (nal_call c ni) = ni_eq_pool ni" "ni_me_pool (nal_call c ni) = ni_me_pool ni"
  "ni_md_pool (nal_call c ni) = ni_md_pool ni" "ni_msg_pool (nal_call c ni) = ni_msg_pool ni"
  "ni_nid (nal_call c ni) = ni_nid ni" "ni_pid (nal_call c ni) = ni_pid ni"
  "ni_gid (nal_call c ni) = ni_gid ni" "ni_rid (nal_call c ni) = ni_rid ni"
  "ni_eq (nal_call c ni) = ni_eq ni" "ni_me (nal_call c ni) = ni_me ni"
  "ni_md (nal_call c ni) = ni_md ni" "ni_msg (nal_call c ni) = ni_msg ni"
  "ni_counters (nal_call c ni) = ni_counters ni"
  by (simp_all add: nal_call_def)

lemma upd_md_sel [simp]:
  "ni_up (upd_md i f ni) = ni_up ni" "ni_tbl_size (upd_md i f ni) = ni_tbl_size ni"
  "ni_me_links (upd_md i f ni) = ni_me_links ni" "ni_md_links (upd_md i f ni) = ni_md_links ni"
  "ni_eq_pool (upd_md i f ni) = ni_eq_pool ni" "ni_me_pool (upd_md i f ni) = ni_me_pool ni"
  "ni_md_pool (upd_md i f ni) = ni_md_pool ni" "ni_msg_pool (upd_md i f ni) = ni_msg_pool ni"
  "ni_nid (upd_md i f ni) = ni_nid ni" "ni_pid (upd_md i f ni) = ni_pid ni"
  "ni_gid (upd_md i f ni) = ni_gid ni" "ni_rid (upd_md i f ni) = ni_rid ni"
  "ni_eq (upd_md i f ni) = ni_eq ni" "ni_me (upd_md i f ni) = ni_me ni"
  "ni_msg (upd_md i f ni) = ni_msg ni" "ni_counters (upd_md i f ni) = ni_counters ni"
  "ni_trace (upd_md i f ni) = ni_trace ni"
  by (simp_all add: upd_md_def)

lemma upd_me_sel [simp]:
  "ni_up (upd_me i f ni) = ni_up ni" "ni_tbl_size (upd_me i f ni) = ni_tbl_size ni"
  "ni_me_links (upd_me i f ni) = ni_me_links ni" "ni_md_links (upd_me i f ni) = ni_md_links ni"
  "ni_eq_pool (upd_me i f ni) = ni_eq_pool ni" "ni_me_pool (upd_me i f ni) = ni_me_pool ni"
  "ni_md_pool (upd_me i f ni) = ni_md_pool ni" "ni_msg_pool (upd_me i f ni) = ni_msg_pool ni"
  "ni_nid (upd_me i f ni) = ni_nid ni" "ni_pid (upd_me i f ni) = ni_pid ni"
  "ni_gid (upd_me i f ni) = ni_gid ni" "ni_rid (upd_me i f ni) = ni_rid ni"
  "ni_eq (upd_me i f ni) = ni_eq ni" "ni_md (upd_me i f ni) = ni_md ni"
  "ni_msg (upd_me i f ni) = ni_msg ni" "ni_counters (upd_me i f ni) = ni_counters ni"
  "ni_trace (upd_me i f ni) = ni_trace ni"
  by (simp_all add: upd_me_def)

lemma upd_eq_sel [simp]:
  "ni_up (upd_eq i f ni) = ni_up ni" "ni_tbl_size (upd_eq i f ni) = ni_tbl_size ni"
  "ni_me_links (upd_eq i f ni) = ni_me_links ni" "ni_md_links (upd_eq i f ni) = ni_md_links ni"
  "ni_eq_pool (upd_eq i f ni) = ni_eq_pool ni" "ni_me_pool (upd_eq i f ni) = ni_me_pool ni"
  "ni_md_pool (upd_eq i f ni) = ni_md_pool ni" "ni_msg_pool (upd_eq i f ni) = ni_msg_pool ni"
  "ni_nid (upd_eq i f ni) = ni_nid ni" "ni_pid (upd_eq i f ni) = ni_pid ni"
  "ni_gid (upd_eq i f ni) = ni_gid ni" "ni_rid (upd_eq i f ni) = ni_rid ni"
  "ni_md (upd_eq i f ni) = ni_md ni" "ni_me (upd_eq i f ni) = ni_me ni"
  "ni_msg (upd_eq i f ni) = ni_msg ni" "ni_counters (upd_eq i f ni) = ni_counters ni"
  "ni_trace (upd_eq i f ni) = ni_trace ni"
  by (simp_all add: upd_eq_def)

lemma upd_msg_sel [simp]:
  "ni_up (upd_msg i f ni) = ni_up ni" "ni_tbl_size (upd_msg i f ni) = ni_tbl_size ni"
  "ni_me_links (upd_msg i f ni) = ni_me_links ni" "ni_md_links (upd_msg i f ni) = ni_md_links ni"
  "ni_eq_pool (upd_msg i f ni) = ni_eq_pool ni" "ni_me_pool (upd_msg i f ni) = ni_me_pool ni"
  "ni_md_pool (upd_msg i f ni) = ni_md_pool ni" "ni_msg_pool (upd_msg i f ni) = ni_msg_pool ni"
  "ni_nid (upd_msg i f ni) = ni_nid ni" "ni_pid (upd_msg i f ni) = ni_pid ni"
  "ni_gid (upd_msg i f ni) = ni_gid ni" "ni_rid (upd_msg i f ni) = ni_rid ni"
  "ni_eq (upd_msg i f ni) = ni_eq ni" "ni_me (upd_msg i f ni) = ni_me ni"
  "ni_md (upd_msg i f ni) = ni_md ni" "ni_counters (upd_msg i f ni) = ni_counters ni"
  "ni_trace (upd_msg i f ni) = ni_trace ni"
  by (simp_all add: upd_msg_def)

lemma upd_counters_sel [simp]:
  "ni_up (upd_counters f ni) = ni_up ni" "ni_tbl_size (upd_counters f ni) = ni_tbl_size ni"
  "ni_me_links (upd_counters f ni) = ni_me_links ni"
  "ni_md_links (upd_counters f ni) = ni_md_links ni"
  "ni_eq_pool (upd_counters f ni) = ni_eq_pool ni"
  "ni_me_pool (upd_counters f ni) = ni_me_pool ni"
  "ni_md_pool (upd_counters f ni) = ni_md_pool ni"
  "ni_msg_pool (upd_counters f ni) = ni_msg_pool ni" "ni_nid (upd_counters f ni) = ni_nid ni"
  "ni_pid (upd_counters f ni) = ni_pid ni" "ni_gid (upd_counters f ni) = ni_gid ni"
  "ni_rid (upd_counters f ni) = ni_rid ni" "ni_eq (upd_counters f ni) = ni_eq ni"
  "ni_me (upd_counters f ni) = ni_me ni" "ni_md (upd_counters f ni) = ni_md ni"
  "ni_msg (upd_counters f ni) = ni_msg ni" "ni_trace (upd_counters f ni) = ni_trace ni"
  by (simp_all add: upd_counters_def)

text \<open>
  Reading \<open>next_free\<close> of the array element at a C index, as \<open>inuse\<close> does: outside
  the array there is no element and the access is undefined.
\<close>

definition inuse_at :: "nat \<Rightarrow> pool \<Rightarrow> int \<Rightarrow> bool option" where
  "inuse_at n p i = (if 0 \<le> i \<and> i < int n then Some (pool_inuse p (nat i)) else None)"

text \<open>
  The test \<open>current < 0 || current > MAX || !inuse( obj )\<close> that every operation makes
  on the index of a handle: the array is read for every index up to and including
  \<open>MAX\<close>.
\<close>

definition bad_index :: "nat \<Rightarrow> pool \<Rightarrow> int \<Rightarrow> bool option" where
  "bad_index n p i = (if i < 0 \<or> i > int n then Some True else map_option Not (inuse_at n p i))"

abbreviation bad_me :: "lib_ni \<Rightarrow> int \<Rightarrow> bool option" where
  "bad_me ni \<equiv> bad_index MAX_MES (ni_me_pool ni)"

abbreviation bad_md :: "lib_ni \<Rightarrow> int \<Rightarrow> bool option" where
  "bad_md ni \<equiv> bad_index MAX_MDS (ni_md_pool ni)"

abbreviation bad_eq :: "lib_ni \<Rightarrow> int \<Rightarrow> bool option" where
  "bad_eq ni \<equiv> bad_index MAX_EQS (ni_eq_pool ni)"

text \<open>The event queue at a C index.\<close>

definition eq_at :: "lib_ni \<Rightarrow> int \<Rightarrow> lib_eq option" where
  "eq_at ni i = (if 0 \<le> i \<and> i < int MAX_EQS then Some (ni_eq ni (nat i)) else None)"

lemma bad_index_None: "bad_index n p i = None \<longleftrightarrow> i = int n"
  by (auto simp: bad_index_def inuse_at_def)

lemma bad_index_False: "bad_index n p i = Some False \<longleftrightarrow> 0 \<le> i \<and> i < int n \<and> pool_inuse p (nat i)"
  by (auto simp: bad_index_def inuse_at_def)

lemma bad_index_True:
  "bad_index n p i = Some True \<longleftrightarrow> i < 0 \<or> i > int n \<or> (i < int n \<and> \<not> pool_inuse p (nat i))"
  by (auto simp: bad_index_def inuse_at_def)

section \<open>Allocators\<close>

definition lib_me_alloc :: "lib_ni \<Rightarrow> (nat \<times> lib_ni) option" where
  "lib_me_alloc ni = map_option (\<lambda>(i, p). (i, ni\<lparr>ni_me_pool := p\<rparr>)) (pool_alloc (ni_me_pool ni))"

definition lib_md_alloc :: "lib_ni \<Rightarrow> (nat \<times> lib_ni) option" where
  "lib_md_alloc ni = map_option (\<lambda>(i, p). (i, ni\<lparr>ni_md_pool := p\<rparr>)) (pool_alloc (ni_md_pool ni))"

definition lib_eq_alloc :: "lib_ni \<Rightarrow> (nat \<times> lib_ni) option" where
  "lib_eq_alloc ni = map_option (\<lambda>(i, p). (i, ni\<lparr>ni_eq_pool := p\<rparr>)) (pool_alloc (ni_eq_pool ni))"

definition lib_me_free :: "nat \<Rightarrow> lib_ni \<Rightarrow> lib_ni" where
  "lib_me_free i ni = ni\<lparr>ni_me_pool := pool_free i (ni_me_pool ni)\<rparr>"

definition lib_md_free :: "nat \<Rightarrow> lib_ni \<Rightarrow> lib_ni" where
  "lib_md_free i ni = ni\<lparr>ni_md_pool := pool_free i (ni_md_pool ni)\<rparr>"

definition lib_eq_free :: "nat \<Rightarrow> lib_ni \<Rightarrow> lib_ni" where
  "lib_eq_free i ni = ni\<lparr>ni_eq_pool := pool_free i (ni_eq_pool ni)\<rparr>"

text \<open>\<open>lib_msg_alloc\<close> also resets two fields and counts the messages in use.\<close>

definition count_msg_alloc :: "lib_counters \<Rightarrow> lib_counters" where
  "count_msg_alloc c =
     (let a = s64 (msgs_alloc c + 1); c1 = c\<lparr>msgs_alloc := a\<rparr>
      in if a > msgs_max c1 then c1\<lparr>msgs_max := a\<rparr> else c1)"

definition lib_msg_alloc :: "lib_ni \<Rightarrow> (nat \<times> lib_ni) option" where
  "lib_msg_alloc ni =
     (case pool_alloc (ni_msg_pool ni) of
        None \<Rightarrow> None
      | Some (i, p) \<Rightarrow>
          Some (i, upd_counters count_msg_alloc
            (upd_msg i (\<lambda>m. m\<lparr>msg_md := None, msg_return_md := -1\<rparr>) (ni\<lparr>ni_msg_pool := p\<rparr>))))"

definition lib_msg_free :: "nat \<Rightarrow> lib_ni \<Rightarrow> lib_ni" where
  "lib_msg_free i ni =
     (let ni1 = upd_counters (\<lambda>c. c\<lparr>msgs_alloc := s64 (msgs_alloc c - 1)\<rparr>) ni
      in ni1\<lparr>ni_msg_pool := pool_free i (ni_msg_pool ni1)\<rparr>)"

section \<open>The invariant\<close>

abbreviation used_mes :: "lib_ni \<Rightarrow> nat set" where
  "used_mes ni \<equiv> me_pool.used (ni_me_pool ni)"

abbreviation used_mds :: "lib_ni \<Rightarrow> nat set" where
  "used_mds ni \<equiv> md_pool.used (ni_md_pool ni)"

abbreviation used_eqs :: "lib_ni \<Rightarrow> nat set" where
  "used_eqs ni \<equiv> eq_pool.used (ni_eq_pool ni)"

abbreviation used_msgs :: "lib_ni \<Rightarrow> nat set" where
  "used_msgs ni \<equiv> msg_pool.used (ni_msg_pool ni)"

text \<open>A handle passes the test exactly when its index is that of an object in use.\<close>

lemma bad_me_False: "bad_me ni (h_index h) = Some False \<longleftrightarrow> nat (h_index h) \<in> used_mes ni"
  by (auto simp: bad_index_False me_pool.used_def nat_less_iff)

lemma bad_md_False: "bad_md ni (h_index h) = Some False \<longleftrightarrow> nat (h_index h) \<in> used_mds ni"
  by (auto simp: bad_index_False md_pool.used_def nat_less_iff)

lemma bad_eq_False: "bad_eq ni (h_index h) = Some False \<longleftrightarrow> nat (h_index h) \<in> used_eqs ni"
  by (auto simp: bad_index_False eq_pool.used_def nat_less_iff)

definition portals :: "lib_ni \<Rightarrow> nat set" where
  "portals ni = {..<nat (ni_tbl_size ni)}"

text \<open>The match entry that owns a descriptor, read off its place in the lists.\<close>

definition owner_ok :: "nat set \<Rightarrow> links \<Rightarrow> (nat \<Rightarrow> nat option) \<Rightarrow> bool" where
  "owner_ok us l own \<longleftrightarrow>
     (\<forall>m\<in>us. own m = (case prv l m of
        None \<Rightarrow> None | Some (Head h) \<Rightarrow> Some h | Some (Next i) \<Rightarrow> own i))"

text \<open>
  A message in use refers to a descriptor that is in use, or that has been unlinked since,
  is on no list and belongs to no entry.
\<close>

definition msgs_ok :: "lib_ni \<Rightarrow> bool" where
  "msgs_ok ni \<longleftrightarrow>
     (\<forall>k\<in>used_msgs ni. \<forall>m. msg_md (ni_msg ni k) = Some m \<longrightarrow>
        m < MAX_MDS \<and>
        (m \<in> used_mds ni \<or> prv (ni_md_links ni) m = None \<and> nxt (ni_md_links ni) m = None \<and>
           md_me (ni_md ni m) = None))"

definition counters_ok :: "lib_ni \<Rightarrow> bool" where
  "counters_ok ni \<longleftrightarrow>
     msgs_alloc (ni_counters ni) = int (card (used_msgs ni)) \<and>
     msgs_alloc (ni_counters ni) \<le> msgs_max (ni_counters ni) \<and>
     msgs_max (ni_counters ni) \<le> int MAX_MSGS"

definition ni_inv :: "lib_ni \<Rightarrow> bool" where
  "ni_inv ni \<longleftrightarrow>
     pool_inv MAX_MES (ni_me_pool ni) \<and> pool_inv MAX_MDS (ni_md_pool ni) \<and>
     pool_inv MAX_EQS (ni_eq_pool ni) \<and> pool_inv MAX_MSGS (ni_msg_pool ni) \<and>
     wf_links (used_mes ni) (portals ni) (ni_me_links ni) \<and>
     wf_links (used_mds ni) (used_mes ni) (ni_md_links ni) \<and>
     owner_ok (used_mds ni) (ni_md_links ni) (\<lambda>m. md_me (ni_md ni m)) \<and>
     msgs_ok ni \<and> counters_ok ni"

section \<open>The invariant under the primitive updates\<close>

named_theorems ni_inv_simps \<open>updates that the invariant does not see\<close>

lemmas ni_inv_defs = ni_inv_def portals_def msgs_ok_def counters_ok_def

lemma ni_inv_nal_call [ni_inv_simps]: "ni_inv (nal_call c ni) = ni_inv ni"
  by (simp add: nal_call_def ni_inv_defs)

lemma ni_inv_upd_me [ni_inv_simps]: "ni_inv (upd_me i f ni) = ni_inv ni"
  by (simp add: upd_me_def ni_inv_defs)

lemma ni_inv_upd_eq [ni_inv_simps]: "ni_inv (upd_eq i f ni) = ni_inv ni"
  by (simp add: upd_eq_def ni_inv_defs)

lemma ni_inv_debug [ni_inv_simps]: "ni_inv (ni\<lparr>ni_debug := d\<rparr>) = ni_inv ni"
  by (simp add: ni_inv_defs)

lemma ni_inv_upd_md [ni_inv_simps]:
  assumes "md_me (f (ni_md ni i)) = md_me (ni_md ni i)"
  shows "ni_inv (upd_md i f ni) = ni_inv ni"
proof -
  have "md_me (((ni_md ni)(i := f (ni_md ni i))) m) = md_me (ni_md ni m)" for m
    using assms by auto
  then show ?thesis by (simp add: upd_md_def ni_inv_defs del: fun_upd_apply)
qed

lemma ni_inv_upd_counters [ni_inv_simps]:
  assumes "msgs_alloc (f (ni_counters ni)) = msgs_alloc (ni_counters ni)"
    and "msgs_max (f (ni_counters ni)) = msgs_max (ni_counters ni)"
  shows "ni_inv (upd_counters f ni) = ni_inv ni"
  using assms by (simp add: upd_counters_def ni_inv_defs)

lemma ni_inv_upd_msg [ni_inv_simps]:
  assumes "msg_md (f (ni_msg ni i)) = msg_md (ni_msg ni i)"
  shows "ni_inv (upd_msg i f ni) = ni_inv ni"
proof -
  have "msg_md (((ni_msg ni)(i := f (ni_msg ni i))) k) = msg_md (ni_msg ni k)" for k
    using assms by simp
  then have "msgs_ok (upd_msg i f ni) = msgs_ok ni"
    unfolding msgs_ok_def upd_msg_def by (simp del: fun_upd_apply)
  then show ?thesis by (simp add: ni_inv_def portals_def counters_ok_def)
qed

lemma ni_inv_set_msg_md:
  assumes "ni_inv ni" "msg_md (f (ni_msg ni i)) = Some m" "m \<in> used_mds ni"
  shows "ni_inv (upd_msg i f ni)"
  using assms by (auto simp: upd_msg_def ni_inv_defs md_pool.used_def)

lemma lib_msg_alloc_inv:
  assumes "ni_inv ni" "lib_msg_alloc ni = Some (k, ni')"
  shows "ni_inv ni'" and "k \<in> used_msgs ni'" and "k \<notin> used_msgs ni"
    and "used_msgs ni' = insert k (used_msgs ni)"
proof -
  from assms(2) obtain p where p: "pool_alloc (ni_msg_pool ni) = Some (k, p)"
    and ni': "ni' = upd_counters count_msg_alloc
            (upd_msg k (\<lambda>m. m\<lparr>msg_md := None, msg_return_md := -1\<rparr>) (ni\<lparr>ni_msg_pool := p\<rparr>))"
    by (auto simp: lib_msg_alloc_def split: option.splits)
  have inv: "pool_inv MAX_MSGS (ni_msg_pool ni)" using assms(1) by (simp add: ni_inv_def)
  note used = msg_pool.used_alloc [OF inv p] and card = msg_pool.card_used_alloc [OF inv p]
  have le: "card (msg_pool.used p) \<le> MAX_MSGS" by (rule msg_pool.card_used_le)
  show "k \<in> used_msgs ni'" "used_msgs ni' = insert k (used_msgs ni)"
    using used by (simp_all add: ni' upd_counters_def upd_msg_def)
  show "k \<notin> used_msgs ni" using msg_pool.used_alloc_fresh [OF inv p] .
  have "s64 (int (card (used_msgs ni)) + 1) = int (card (used_msgs ni)) + 1"
    using le card by (intro s64_id) (simp_all add: MAX_MSGS_def)
  then show "ni_inv ni'"
    using assms(1) used card le msg_pool.inv_alloc [OF inv p]
    by (auto simp: ni' upd_counters_def upd_msg_def ni_inv_defs count_msg_alloc_def Let_def)
qed

lemma lib_msg_free_inv:
  assumes "ni_inv ni" "k \<in> used_msgs ni"
  shows "ni_inv (lib_msg_free k ni)"
proof -
  have inv: "pool_inv MAX_MSGS (ni_msg_pool ni)" using assms(1) by (simp add: ni_inv_def)
  have k: "k < MAX_MSGS" using assms(2) by (simp add: msg_pool.used_def)
  note used = msg_pool.used_free [OF inv k] and card = msg_pool.card_used_free [OF inv assms(2)]
  have le: "card (used_msgs ni) \<le> MAX_MSGS" by (rule msg_pool.card_used_le)
  have "s64 (int (card (used_msgs ni)) - 1) = int (card (msg_pool.used (pool_free k (ni_msg_pool ni))))"
    using le card by (subst s64_id) (auto simp: MAX_MSGS_def)
  then show ?thesis
    using assms(1) used card msg_pool.inv_free [OF inv k]
    by (auto simp: lib_msg_free_def upd_counters_def ni_inv_defs Let_def)
qed

section \<open>Owners and idle descriptors\<close>

lemma owner_okD: "owner_ok us l own \<Longrightarrow> m \<in> us \<Longrightarrow>
    own m = (case prv l m of None \<Rightarrow> None | Some (Head h) \<Rightarrow> Some h | Some (Next i) \<Rightarrow> own i)"
  by (simp add: owner_ok_def)

lemma owner_ok_frame:
  assumes "wf_links us hs l" "m \<in> us" "owner_ok us l own" "new \<notin> us"
  shows "own m = (case prv l m of None \<Rightarrow> None
    | Some (Head h) \<Rightarrow> Some h | Some (Next i) \<Rightarrow> (own(new := v)) i)"
proof -
  have "i \<noteq> new" if "prv l m = Some (Next i)" for i
    using wf_links_prv_Next [OF assms(1,2) that] assms(4) by blast
  then show ?thesis
    using owner_okD [OF assms(3,2)] by (auto split: option.splits cell.splits)
qed

lemma owner_clear:
  assumes "wf_links us hs l" "new \<notin> us" "owner_ok us l own"
  shows "owner_ok (insert new us) (link_clear new l) (own(new := None))"
  unfolding owner_ok_def
proof
  fix m assume "m \<in> insert new us"
  then show "(own(new := None)) m = (case prv (link_clear new l) m of None \<Rightarrow> None
      | Some (Head h) \<Rightarrow> Some h | Some (Next i) \<Rightarrow> (own(new := None)) i)"
    using owner_ok_frame [OF assms(1) _ assms(3,2), of m]
    by (cases "m = new") (simp_all add: link_clear_def)
qed

lemma owner_head:
  assumes "wf_links us hs l" "new \<notin> us" "owner_ok us l own"
  shows "owner_ok (insert new us) (link_head h new l) (own(new := Some h))"
  unfolding owner_ok_def
proof
  fix m assume "m \<in> insert new us"
  then show "(own(new := Some h)) m = (case prv (link_head h new l) m of None \<Rightarrow> None
      | Some (Head h) \<Rightarrow> Some h | Some (Next i) \<Rightarrow> (own(new := Some h)) i)"
    using owner_ok_frame [OF assms(1) _ assms(3,2), of m]
    by (cases "m = new") (simp_all add: link_head_def)
qed

lemma owner_insert:
  assumes "wf_links us hs l" "obj \<in> us" "new \<notin> us" "owner_ok us l own"
  shows "owner_ok (insert new us) (lib_insert obj new pos l) (own(new := own obj))"
  unfolding owner_ok_def
proof
  fix m assume m: "m \<in> insert new us"
  have ne: "new \<noteq> obj" using assms by blast
  have frame: "m \<in> us \<Longrightarrow> own m = (case prv l m of None \<Rightarrow> None
      | Some (Head h) \<Rightarrow> Some h | Some (Next i) \<Rightarrow> (own(new := own obj)) i)" for m
    using owner_ok_frame [OF assms(1) _ assms(4,3)] by blast
  have own_next: "own m = own obj" if "nxt l obj = Some m" for m
    using owner_okD [OF assms(4), of m] wf_links_nxt [OF assms(1,2) that] by simp
  show "(own(new := own obj)) m = (case prv (lib_insert obj new pos l) m of None \<Rightarrow> None
      | Some (Head h) \<Rightarrow> Some h | Some (Next i) \<Rightarrow> (own(new := own obj)) i)"
  proof (cases pos)
    case PTL_INS_AFTER
    consider "m = new" | "m \<noteq> new" "nxt l obj = Some m" | "m \<noteq> new" "nxt l obj \<noteq> Some m" by blast
    then show ?thesis
    proof cases
      case 1
      have "nxt l obj \<noteq> Some new" using wf_links_nxt [OF assms(1,2)] assms(3) by blast
      with 1 ne show ?thesis
        by (auto simp: PTL_INS_AFTER lib_insert_after_sel [OF ne] split: option.splits)
    next
      case 2
      with ne own_next [OF 2(2)] show ?thesis
        by (simp add: PTL_INS_AFTER lib_insert_after_sel [OF ne])
    next
      case 3
      then have "prv (lib_insert obj new pos l) m = prv l m"
        by (auto simp: PTL_INS_AFTER lib_insert_after_sel [OF ne] split: option.splits)
      with frame [of m] m 3 show ?thesis by (simp del: fun_upd_apply) simp
    qed
  next
    case PTL_INS_BEFORE
    consider "m = new" | "m = obj" | "m \<noteq> new" "m \<noteq> obj" by blast
    then show ?thesis
    proof cases
      case 1
      then have eq: "prv (lib_insert obj new pos l) new = prv l obj"
        using ne by (simp add: PTL_INS_BEFORE lib_insert_before_sel [OF ne])
      show ?thesis unfolding 1 eq fun_upd_same by (rule frame [OF assms(2)])
    next
      case 2
      with ne show ?thesis by (simp add: PTL_INS_BEFORE lib_insert_before_sel [OF ne])
    next
      case 3
      then have "prv (lib_insert obj new pos l) m = prv l m"
        by (simp add: PTL_INS_BEFORE lib_insert_before_sel [OF ne])
      with frame [of m] m 3 show ?thesis by simp
    qed
  qed
qed

lemma owner_unlink:
  assumes "wf_links us hs l" "obj \<in> us" "owner_ok us l own"
  shows "owner_ok (us - {obj}) (lib_unlink obj l) (own(obj := None))"
  unfolding owner_ok_def
proof
  fix m assume m: "m \<in> us - {obj}"
  note sel = lib_unlink_sel [OF wf_links_no_self [OF assms(1,2)]]
  show "(own(obj := None)) m = (case prv (lib_unlink obj l) m of None \<Rightarrow> None
      | Some (Head h) \<Rightarrow> Some h | Some (Next i) \<Rightarrow> (own(obj := None)) i)"
  proof (cases "nxt l obj = Some m")
    case True
    then have "own m = own obj"
      using owner_okD [OF assms(3), of m] wf_links_nxt [OF assms(1,2) True] by simp
    moreover have "own obj = (case prv l obj of None \<Rightarrow> None
        | Some (Head h) \<Rightarrow> Some h | Some (Next i) \<Rightarrow> (own(obj := None)) i)"
      using owner_okD [OF assms(3,2)] wf_links_no_self [OF assms(1,2)]
      by (auto split: option.splits cell.splits)
    moreover have "prv (lib_unlink obj l) m = prv l obj"
      using True m by (simp add: sel)
    ultimately show ?thesis using m by simp
  next
    case False
    then have "prv (lib_unlink obj l) m = prv l m"
      using m by (auto simp: sel split: option.splits)
    moreover have "i \<noteq> obj" if "prv l m = Some (Next i)" for i
      using wf_links_prv_Next [OF assms(1) _ that] m False by blast
    ultimately show ?thesis
      using m owner_okD [OF assms(3), of m] by (auto split: option.splits cell.splits)
  qed
qed

definition idle :: "links \<Rightarrow> nat \<Rightarrow> bool" where
  "idle l m \<longleftrightarrow> prv l m = None \<and> nxt l m = None"

lemma idle_link_clear: "idle (link_clear new l) m \<longleftrightarrow> m = new \<or> idle l m"
  by (auto simp: idle_def link_clear_def)

lemma idle_link_head: "m \<noteq> new \<Longrightarrow> idle (link_head h new l) m = idle l m"
  by (auto simp: idle_def link_head_def)

lemma idle_insert:
  assumes "wf_links us hs l" "obj \<in> us" "new \<notin> us" "m \<notin> insert new us"
  shows "idle (lib_insert obj new pos l) m = idle l m"
proof -
  have ne: "new \<noteq> obj" "m \<noteq> obj" "m \<noteq> new" using assms by blast+
  show ?thesis
    using ne assms wf_links_nxt [OF assms(1,2)] wf_links_prv_Next [OF assms(1,2)]
    by (cases pos)
      (auto simp: idle_def lib_insert_after_sel [OF ne(1)] lib_insert_before_sel [OF ne(1)]
        split: option.splits cell.splits)
qed

lemma idle_unlink:
  assumes "wf_links us hs l" "obj \<in> us" "m \<notin> us"
  shows "idle (lib_unlink obj l) m = idle l m"
proof -
  note sel = lib_unlink_sel [OF wf_links_no_self [OF assms(1,2)]]
  show ?thesis
    using assms wf_links_nxt [OF assms(1,2)] wf_links_prv_Next [OF assms(1,2)]
    by (auto simp: idle_def sel split: option.splits cell.splits)
qed

lemma idle_unlink_self: "idle (lib_unlink obj l) obj"
  by (simp add: idle_def lib_unlink_def Let_def)

lemma unlink_idle: "idle l obj \<Longrightarrow> lib_unlink obj l = l"
  by (cases l) (simp add: idle_def lib_unlink_def Let_def set_prv_def set_nxt_def fun_upd_idem)

lemma msgs_ok_idle:
  "msgs_ok ni \<longleftrightarrow> (\<forall>k\<in>used_msgs ni. \<forall>m. msg_md (ni_msg ni k) = Some m \<longrightarrow>
     m < MAX_MDS \<and> (m \<in> used_mds ni \<or> idle (ni_md_links ni) m \<and> md_me (ni_md ni m) = None))"
  by (simp add: msgs_ok_def idle_def)

text \<open>The owner of a descriptor in use is an entry in use.\<close>

lemma owner_in_heads:
  assumes "wf_links us hs l" "finite us" "owner_ok us l own" "m \<in> us" "own m = Some h"
  shows "h \<in> hs"
proof -
  have "link_edges us l \<subseteq> us \<times> us"
    using wf_links_Field [OF assms(1)] by (auto simp: Field_def)
  then have "finite (link_edges us l)"
    by (rule finite_subset [OF _ finite_cartesian_product [OF assms(2,2)]])
  then have "wf (link_edges us l)"
    using wf_links_acyclic [OF assms(1)] by (rule finite_acyclic_wf)
  then show ?thesis using assms(4,5)
  proof (induction m)
    case (less m)
    note own = owner_okD [OF assms(3) less.prems(1)]
    show ?case
    proof (cases "prv l m")
      case None
      with own less.prems show ?thesis by simp
    next
      case (Some c)
      show ?thesis
      proof (cases c)
        case (Head k)
        with own less.prems Some wf_links_prv_Head [OF assms(1) less.prems(1), of k] show ?thesis by simp
      next
        case (Next i)
        with Some have i: "i \<in> us" "nxt l i = Some m"
          using wf_links_prv_Next [OF assms(1) less.prems(1), of i] by simp_all
        then have "(i, m) \<in> link_edges us l" by (simp add: link_edges_def)
        moreover have "own i = Some h" using own less.prems Some Next by simp
        ultimately show ?thesis using less.IH i by blast
      qed
    qed
  qed
qed

end
