(* ===== verification/P30_MD.thy ===== *)
theory P30_MD
  imports P30_State
begin

text \<open>
  Memory descriptors (\<open>lib-p30/md.c\<close>).  An operation of the library returns the
  fields of its return block and the interface afterwards; an output the code leaves
  unwritten is \<open>None\<close>.  The operation as a whole is \<open>None\<close> where the code reads
  outside an array.
\<close>

section \<open>Operations\<close>

definition lib_md_unlink :: "nat \<Rightarrow> lib_ni \<Rightarrow> lib_ni" where
  "lib_md_unlink md ni =
     (let ni1 = upd_md md (\<lambda>m. m\<lparr>md_me := None\<rparr>) ni;
          m = ni_md ni1 md;
          ni2 = nal_call (CB_INVALIDATE (md_start m) (size_t (md_length m)) (md_addrkey m)) ni1;
          ni3 = ni2\<lparr>ni_md_links := lib_unlink md (ni_md_links ni2)\<rparr>
      in lib_md_free md ni3)"

text \<open>The event queue of a descriptor to be built: an error, or the queue or none.\<close>

definition md_build_eq :: "int \<Rightarrow> lib_ni \<Rightarrow> (int + nat option) option" where
  "md_build_eq evq ni =
     (if evq \<noteq> PTL_EQ_NONE then
        do {
          let eq_index = h_index evq;
          bad \<leftarrow> bad_eq ni eq_index;
          Some (if bad then Inl PTL_INV_EQ else Inr (Some (nat eq_index)))
        }
      else Some (Inr None))"

definition lib_md_build :: "nal_cb \<Rightarrow> ptl_md \<Rightarrow> lib_ni \<Rightarrow> ((int + nat) \<times> lib_ni) option" where
  "lib_md_build cb md ni =
     do {
       r \<leftarrow> md_build_eq (pm_eventq md) ni;
       (case r of
          Inl e \<Rightarrow> Some (Inl e, ni)
        | Inr eq \<Rightarrow>
            (let len = size_t (pm_length md);
                 (rc, addrkey) = cb_validate cb (ni_trace ni) (pm_start md) len;
                 ni1 = nal_call (CB_VALIDATE (pm_start md) len) ni
             in if rc < 0 then Some (Inl PTL_VAL_FAILED, ni1)
                else case lib_md_alloc ni1 of
                  None \<Rightarrow>
                    Some (Inl PTL_NOSPACE, nal_call (CB_INVALIDATE (pm_start md) len addrkey) ni1)
                | Some (new, ni2) \<Rightarrow>
                    Some (Inr new,
                      (upd_md new (\<lambda>_.
                         \<lparr>md_me = None, md_start = pm_start md, md_offset = 0,
                          md_length = pm_length md, md_threshold = pm_threshold md,
                          md_max_offset = pm_max_offset md, md_pending = 0,
                          md_unlink = PTL_UNLINK, md_options = pm_options md,
                          md_user_ptr = pm_user_ptr md, md_eq = eq, md_do_unlink = False,
                          md_addrkey = addrkey\<rparr>) ni2)
                      \<lparr>ni_md_links := link_clear new (ni_md_links ni2)\<rparr>)))
     }"

definition lib_md_deconstruct :: "nat \<Rightarrow> lib_ni \<Rightarrow> ptl_md" where
  "lib_md_deconstruct md ni =
     (let m = ni_md ni md
      in \<lparr>pm_start = md_start m, pm_length = md_length m, pm_threshold = md_threshold m,
          pm_max_offset = md_max_offset m, pm_options = md_options m,
          pm_user_ptr = md_user_ptr m,
          pm_eventq = (case md_eq m of Some e \<Rightarrow> int e | None \<Rightarrow> PTL_EQ_NONE)\<rparr>)"

definition do_PtlMDAttach_internal ::
  "nal_cb \<Rightarrow> int \<Rightarrow> ptl_md \<Rightarrow> ptl_unlink \<Rightarrow> lib_ni \<Rightarrow> ((int \<times> int option) \<times> lib_ni) option" where
  "do_PtlMDAttach_internal cb current_in md_in unlink_in ni =
     do {
       let ni_h = h_ni current_in;
       let current = h_index current_in;
       bad \<leftarrow> bad_me ni current;
       (if bad then Some ((PTL_INV_ME, None), ni)
        else if heads (ni_md_links ni) (nat current) \<noteq> None then Some ((PTL_INUSE, None), ni)
        else do {
          (r, ni1) \<leftarrow> lib_md_build cb md_in ni;
          (case r of
             Inl rc \<Rightarrow> Some ((rc, None), ni1)
           | Inr new \<Rightarrow>
               (let me = nat current;
                    l = cell_set (Head me) (Some new) (ni_md_links ni1);
                    ni2 = ni1\<lparr>ni_md_links := set_prv new (Some (Head me)) l\<rparr>;
                    ni3 = upd_md new (\<lambda>m. m\<lparr>md_unlink := unlink_in, md_me := Some me\<rparr>) ni2
                in Some ((PTL_OK, Some (int new OR ni_h)), ni3)))
        })
     }"

definition do_PtlMDInsert_internal ::
  "nal_cb \<Rightarrow> int \<Rightarrow> ptl_md \<Rightarrow> ptl_unlink \<Rightarrow> ptl_ins_pos \<Rightarrow> lib_ni \<Rightarrow>
     ((int \<times> int option) \<times> lib_ni) option" where
  "do_PtlMDInsert_internal cb current_in md_in unlink_in position_in ni =
     do {
       let ni_h = h_ni current_in;
       let current = h_index current_in;
       bad \<leftarrow> bad_md ni current;
       (if bad then Some ((PTL_INV_MD, None), ni)
        else do {
          (r, ni1) \<leftarrow> lib_md_build cb md_in ni;
          (case r of
             Inl rc \<Rightarrow> Some ((rc, None), ni1)
           | Inr new \<Rightarrow>
               (let md = nat current;
                    ni2 = ni1\<lparr>ni_md_links := lib_insert md new position_in (ni_md_links ni1)\<rparr>;
                    ni3 = upd_md new (\<lambda>m. m\<lparr>md_me := md_me (ni_md ni2 md), md_unlink := unlink_in\<rparr>) ni2
                in Some ((PTL_OK, Some (int new OR ni_h)), ni3)))
        })
     }"

definition do_PtlMDBind_internal ::
  "nal_cb \<Rightarrow> int \<Rightarrow> ptl_md \<Rightarrow> lib_ni \<Rightarrow> ((int \<times> int option) \<times> lib_ni) option" where
  "do_PtlMDBind_internal cb ni_in md_in ni =
     do {
       let ni_h = h_ni ni_in;
       (r, ni1) \<leftarrow> lib_md_build cb md_in ni;
       (case r of
          Inl rc \<Rightarrow> Some ((rc, None), ni1)
        | Inr new \<Rightarrow>
            Some ((PTL_OK, Some (int new OR ni_h)), upd_md new (\<lambda>m. m\<lparr>md_me := None\<rparr>) ni1))
     }"

definition do_PtlMDUnlink_internal :: "int \<Rightarrow> lib_ni \<Rightarrow> ((int \<times> ptl_md option) \<times> lib_ni) option" where
  "do_PtlMDUnlink_internal md_in ni =
     do {
       let current = h_index md_in;
       bad \<leftarrow> bad_md ni current;
       (if bad then Some ((PTL_INV_MD, None), ni)
        else (let md = nat current; status = lib_md_deconstruct md ni
              in Some ((PTL_OK, Some status), lib_md_unlink md ni)))
     }"

text \<open>
  \<open>do_PtlMDUpdate_internal\<close>: the event queue to test (an error, the queue, or none),
  then the update itself.  The test of the queue's index ends in \<open>!inuse( md )\<close>, as
  the source has it.
\<close>

definition md_update_testq :: "int \<Rightarrow> nat \<Rightarrow> lib_ni \<Rightarrow> int + int option" where
  "md_update_testq testq_in md ni =
     (if testq_in \<noteq> PTL_EQ_NONE then
        (let eq_index = h_index testq_in
         in if eq_index < 0 \<or> eq_index > int MAX_EQS \<or> \<not> pool_inuse (ni_md_pool ni) md
            then Inl PTL_INV_EQ else Inr (Some eq_index))
      else Inr None)"

definition md_update_ready :: "int option \<Rightarrow> 32 word \<Rightarrow> lib_ni \<Rightarrow> bool option" where
  "md_update_ready eq sequence_in ni =
     (case eq of
        None \<Rightarrow> Some True
      | Some i \<Rightarrow> map_option (\<lambda>q. eq_pending q = 0 \<and> eq_sequence q = sequence_in) (eq_at ni i))"

text \<open>Revalidation of the memory, when the region is not covered by the old one.\<close>

definition md_update_validate :: "nal_cb \<Rightarrow> ptl_md \<Rightarrow> nat \<Rightarrow> lib_ni \<Rightarrow> bool \<times> lib_ni" where
  "md_update_validate cb new md ni =
     (let m = ni_md ni md
      in if pm_start new \<noteq> md_start m \<or> pm_length new > md_length m then
           (let ni1 = nal_call (CB_INVALIDATE (md_start m) (size_t (md_length m)) (md_addrkey m)) ni;
                len = size_t (pm_length new);
                (rc, addrkey) = cb_validate cb (ni_trace ni1) (pm_start new) len;
                ni2 = nal_call (CB_VALIDATE (pm_start new) len) ni1
            in if rc < 0 then (False, ni2)
               else (True, upd_md md (\<lambda>m. m\<lparr>md_addrkey := addrkey\<rparr>) ni2))
         else (True, ni))"

definition md_update_eq :: "ptl_md \<Rightarrow> lib_ni \<Rightarrow> nat option option" where
  "md_update_eq new ni =
     (if 0 \<le> pm_eventq new \<and> pm_eventq new \<le> int MAX_EQS then
        do {
          u \<leftarrow> inuse_at MAX_EQS (ni_eq_pool ni) (pm_eventq new);
          Some (if u then Some (nat (pm_eventq new)) else None)
        }
      else Some None)"

definition do_PtlMDUpdate_internal ::
  "nal_cb \<Rightarrow> int \<Rightarrow> bool \<Rightarrow> ptl_md option \<Rightarrow> int \<Rightarrow> 32 word \<Rightarrow> lib_ni \<Rightarrow>
     ((int \<times> ptl_md option) \<times> lib_ni) option" where
  "do_PtlMDUpdate_internal cb md_in old_valid new_inout testq_in sequence_in ni =
     do {
       let current = h_index md_in;
       let md = nat current;
       bad \<leftarrow> bad_md ni current;
       (if bad then Some ((PTL_INV_MD, None), ni)
        else
          (let old = (if old_valid then Some (lib_md_deconstruct md ni) else None)
           in case new_inout of
                None \<Rightarrow> Some ((PTL_OK, old), ni)
              | Some new \<Rightarrow>
                  (case md_update_testq testq_in md ni of
                     Inl e \<Rightarrow> Some ((e, old), ni)
                   | Inr eq \<Rightarrow>
                       do {
                         ready \<leftarrow> md_update_ready eq sequence_in ni;
                         (if \<not> ready then Some ((PTL_NOUPDATE, old), ni)
                          else
                            (let (ok, ni1) = md_update_validate cb new md ni
                             in if \<not> ok then Some ((PTL_VAL_FAILED, old), ni1)
                                else do {
                                  evq \<leftarrow> md_update_eq new ni1;
                                  Some ((PTL_OK, old),
                                    upd_md md (\<lambda>m. m\<lparr>md_start := pm_start new,
                                      md_length := pm_length new,
                                      md_threshold := pm_threshold new,
                                      md_max_offset := pm_max_offset new,
                                      md_options := pm_options new,
                                      md_user_ptr := pm_user_ptr new,
                                      md_eq := evq\<rparr>) ni1)
                                }))
                       })))
     }"

section \<open>The operations keep the invariant\<close>

lemma lib_md_unlink_sel [simp]:
  "ni_me_pool (lib_md_unlink md ni) = ni_me_pool ni"
  "ni_eq_pool (lib_md_unlink md ni) = ni_eq_pool ni"
  "ni_msg_pool (lib_md_unlink md ni) = ni_msg_pool ni"
  "ni_md_pool (lib_md_unlink md ni) = pool_free md (ni_md_pool ni)"
  "ni_me_links (lib_md_unlink md ni) = ni_me_links ni"
  "ni_md_links (lib_md_unlink md ni) = lib_unlink md (ni_md_links ni)"
  "ni_me (lib_md_unlink md ni) = ni_me ni"
  "ni_eq (lib_md_unlink md ni) = ni_eq ni"
  "ni_msg (lib_md_unlink md ni) = ni_msg ni"
  "ni_md (lib_md_unlink md ni) = (ni_md ni)(md := (ni_md ni md)\<lparr>md_me := None\<rparr>)"
  "ni_tbl_size (lib_md_unlink md ni) = ni_tbl_size ni"
  "ni_counters (lib_md_unlink md ni) = ni_counters ni"
  "portals (lib_md_unlink md ni) = portals ni"
  "ni_up (lib_md_unlink md ni) = ni_up ni"
  by (simp_all add: lib_md_unlink_def lib_md_free_def Let_def ni_upd_defs portals_def)

lemma used_mds_unlink:
  "ni_inv ni \<Longrightarrow> md < MAX_MDS \<Longrightarrow> used_mds (lib_md_unlink md ni) = used_mds ni - {md}"
  by (simp add: md_pool.used_free ni_inv_def)

lemma lib_md_unlink_inv:
  assumes inv: "ni_inv ni" and md: "md < MAX_MDS"
    and use: "md \<in> used_mds ni \<or> idle (ni_md_links ni) md"
  shows "ni_inv (lib_md_unlink md ni)"
proof -
  let ?ni = "lib_md_unlink md ni" and ?l = "ni_md_links ni"
  have pinv: "pool_inv MAX_MDS (ni_md_pool ni)" and wf: "wf_links (used_mds ni) (used_mes ni) ?l"
    and own: "owner_ok (used_mds ni) ?l (\<lambda>m. md_me (ni_md ni m))" and msgs: "msgs_ok ni"
    using inv by (simp_all add: ni_inv_def)
  note used = used_mds_unlink [OF inv md]
  have own_eq: "(\<lambda>m. md_me (ni_md ?ni m)) = (\<lambda>m. md_me (ni_md ni m))(md := None)"
    by auto
  have "wf_links (used_mds ?ni) (used_mes ?ni) (ni_md_links ?ni) \<and>
      owner_ok (used_mds ?ni) (ni_md_links ?ni) (\<lambda>m. md_me (ni_md ?ni m)) \<and> msgs_ok ?ni"
  proof (cases "md \<in> used_mds ni")
    case True
    have "msgs_ok ?ni"
      unfolding msgs_ok_idle
    proof (intro ballI allI impI)
      fix k m assume "k \<in> used_msgs ?ni" "msg_md (ni_msg ?ni k) = Some m"
      with msgs have m: "m < MAX_MDS" "m \<in> used_mds ni \<or> idle ?l m \<and> md_me (ni_md ni m) = None"
        by (auto simp: msgs_ok_idle)
      then show "m < MAX_MDS \<and> (m \<in> used_mds ?ni \<or> idle (ni_md_links ?ni) m \<and> md_me (ni_md ?ni m) = None)"
        using idle_unlink [OF wf True, of m] idle_unlink_self [of md ?l] used by auto
    qed
    with True wf own show ?thesis
      unfolding own_eq used by (simp add: wf_lib_unlink owner_unlink)
  next
    case False
    then have idle: "idle ?l md" and same: "used_mds ?ni = used_mds ni"
      using use used by auto
    have "owner_ok (used_mds ni) ?l ((\<lambda>m. md_me (ni_md ni m))(md := None))"
      using owner_ok_frame [OF wf _ own False] False by (auto simp: owner_ok_def)
    with idle wf msgs show ?thesis
      unfolding own_eq same by (simp add: unlink_idle msgs_ok_idle same [simplified])
  qed
  with inv show ?thesis
    using md_pool.inv_free [OF pinv md] by (simp add: ni_inv_def counters_ok_def)
qed

subsection \<open>Building a descriptor\<close>

definition md_of :: "ptl_md \<Rightarrow> nat option \<Rightarrow> user_ptr \<Rightarrow> lib_md" where
  "md_of md eq addrkey =
     \<lparr>md_me = None, md_start = pm_start md, md_offset = 0,
      md_length = pm_length md, md_threshold = pm_threshold md,
      md_max_offset = pm_max_offset md, md_pending = 0,
      md_unlink = PTL_UNLINK, md_options = pm_options md,
      md_user_ptr = pm_user_ptr md, md_eq = eq, md_do_unlink = False,
      md_addrkey = addrkey\<rparr>"

lemma md_build_eq_None: "md_build_eq evq ni = None \<longleftrightarrow> evq \<noteq> PTL_EQ_NONE \<and> h_index evq = int MAX_EQS"
  by (auto simp: md_build_eq_def bind_eq_None_iff bad_index_None Let_def)

lemma md_build_eq_Inl: "md_build_eq evq ni = Some (Inl e) \<Longrightarrow> e = PTL_INV_EQ"
  by (auto simp: md_build_eq_def bind_eq_Some_iff Let_def split: if_splits)

lemma md_build_eq_Inr:
  "md_build_eq evq ni = Some (Inr eq) \<longleftrightarrow>
     (if evq = PTL_EQ_NONE then eq = None
      else nat (h_index evq) \<in> used_eqs ni \<and> eq = Some (nat (h_index evq)))"
  by (auto simp: md_build_eq_def bind_eq_Some_iff bad_eq_False Let_def)

text \<open>The outcomes of \<open>lib_md_build\<close> in the order of its tests.\<close>

lemma lib_md_build_cases:
  obtains
    (fault) "lib_md_build cb md ni = None" "pm_eventq md \<noteq> PTL_EQ_NONE" "h_index (pm_eventq md) = int MAX_EQS"
  | (error) e cs where "lib_md_build cb md ni = Some (Inl e, ni\<lparr>ni_trace := cs\<rparr>)"
      "e \<in> {PTL_INV_EQ, PTL_VAL_FAILED, PTL_NOSPACE}"
  | (built) new p eq cs addrkey where "pool_alloc (ni_md_pool ni) = Some (new, p)"
      "md_build_eq (pm_eventq md) ni = Some (Inr eq)"
      "lib_md_build cb md ni = Some (Inr new,
         ni\<lparr>ni_trace := cs, ni_md_pool := p, ni_md := (ni_md ni)(new := md_of md eq addrkey),
           ni_md_links := link_clear new (ni_md_links ni)\<rparr>)"
proof (cases "md_build_eq (pm_eventq md) ni")
  case None
  then show ?thesis
    using md_build_eq_None [of "pm_eventq md" ni] by (intro fault) (simp_all add: lib_md_build_def)
next
  case (Some r)
  obtain rc addrkey where v: "cb_validate cb (ni_trace ni) (pm_start md) (size_t (pm_length md)) = (rc, addrkey)"
    by (cases "cb_validate cb (ni_trace ni) (pm_start md) (size_t (pm_length md))")
  note defs = lib_md_build_def Let_def nal_call_def lib_md_alloc_def upd_md_def md_of_def
  show ?thesis
  proof (cases r)
    case (Inl e)
    with Some md_build_eq_Inl [of _ ni e] show ?thesis
      by (intro error [of e "ni_trace ni"]) (simp_all add: lib_md_build_def)
  next
    case (Inr eq)
    consider "rc < 0" | "\<not> rc < 0" "pool_alloc (ni_md_pool ni) = None"
      | new p where "\<not> rc < 0" "pool_alloc (ni_md_pool ni) = Some (new, p)"
      by (metis not_None_eq surj_pair)
    then show ?thesis
    proof cases
      case 1
      with Some Inr v show ?thesis by (intro error) (auto simp: defs)
    next
      case 2
      with Some Inr v show ?thesis by (intro error) (auto simp: defs)
    next
      case 3
      with Some Inr v show ?thesis by (intro built) (auto simp: defs)
    qed
  qed
qed

text \<open>A descriptor that an operation adds to the interface.\<close>

lemma ni_inv_new_md:
  assumes inv: "ni_inv ni" and p: "pool_alloc (ni_md_pool ni) = Some (new, p)"
    and wf: "wf_links (insert new (used_mds ni)) (used_mes ni) l"
    and own: "owner_ok (insert new (used_mds ni)) l ((\<lambda>m. md_me (ni_md ni m))(new := md_me m))"
    and idle: "\<And>m. m \<notin> insert new (used_mds ni) \<Longrightarrow> idle l m = idle (ni_md_links ni) m"
  shows "ni_inv (ni\<lparr>ni_trace := cs, ni_md_pool := p, ni_md := (ni_md ni)(new := m), ni_md_links := l\<rparr>)"
    (is "ni_inv ?ni")
proof -
  have pinv: "pool_inv MAX_MDS (ni_md_pool ni)" using inv by (simp add: ni_inv_def)
  have used: "md_pool.used p = insert new (used_mds ni)" by (rule md_pool.used_alloc [OF pinv p])
  have "(\<lambda>x. md_me (((ni_md ni)(new := m)) x)) = (\<lambda>m. md_me (ni_md ni m))(new := md_me m)"
    by auto
  moreover have "msgs_ok ?ni"
    using inv idle used by (auto simp: msgs_ok_idle ni_inv_def)
  ultimately show ?thesis
    using inv wf own md_pool.inv_alloc [OF pinv p] used
    by (simp add: ni_inv_def portals_def counters_ok_def)
qed

lemma ni_inv_trace: "ni_inv (ni\<lparr>ni_trace := cs\<rparr>) = ni_inv ni"
  by (simp add: ni_inv_defs)

lemma link_head_clear:
  "set_prv new (Some (Head h)) (cell_set (Head h) (Some new) (link_clear new l)) = link_head h new l"
  by (simp add: link_head_def link_clear_def set_prv_def set_nxt_def)

lemma lib_insert_clear: "new \<noteq> obj \<Longrightarrow> lib_insert obj new pos (link_clear new l) = lib_insert obj new pos l"
  by (cases pos)
    (auto simp: lib_insert_def link_clear_def set_prv_def set_nxt_def Let_def split: option.splits)

subsection \<open>The outcomes of the operations\<close>

text \<open>
  Each operation either faults, or reports an error and leaves the interface as it was but
  for calls of the network layer, or succeeds.  A fault is an access at index \<open>MAX\<close> of
  an array with \<open>MAX\<close> elements, which the range tests let through.
\<close>

definition md_fault :: "ptl_md \<Rightarrow> bool" where
  "md_fault md \<longleftrightarrow> pm_eventq md \<noteq> PTL_EQ_NONE \<and> h_index (pm_eventq md) = int MAX_EQS"

lemma do_PtlMDAttach_internal_cases:
  obtains
    (fault) "do_PtlMDAttach_internal cb current_in md_in unlink_in ni = None"
      "h_index current_in = int MAX_MES \<or> md_fault md_in"
  | (error) rc cs where "do_PtlMDAttach_internal cb current_in md_in unlink_in ni =
        Some ((rc, None), ni\<lparr>ni_trace := cs\<rparr>)"
      "rc \<in> {PTL_INV_ME, PTL_INUSE, PTL_INV_EQ, PTL_VAL_FAILED, PTL_NOSPACE}"
  | (ok) me new p eq cs addrkey where "me = nat (h_index current_in)" "me \<in> used_mes ni"
      "heads (ni_md_links ni) me = None" "pool_alloc (ni_md_pool ni) = Some (new, p)"
      "md_build_eq (pm_eventq md_in) ni = Some (Inr eq)"
      "do_PtlMDAttach_internal cb current_in md_in unlink_in ni =
         Some ((PTL_OK, Some (int new OR h_ni current_in)),
           ni\<lparr>ni_trace := cs, ni_md_pool := p,
             ni_md := (ni_md ni)(new := (md_of md_in eq addrkey)\<lparr>md_unlink := unlink_in, md_me := Some me\<rparr>),
             ni_md_links := link_head me new (ni_md_links ni)\<rparr>)"
proof -
  let ?me = "nat (h_index current_in)"
  note defs = do_PtlMDAttach_internal_def Let_def
  consider "bad_me ni (h_index current_in) = None" | "bad_me ni (h_index current_in) = Some True"
    | "bad_me ni (h_index current_in) = Some False" "heads (ni_md_links ni) ?me \<noteq> None"
    | "bad_me ni (h_index current_in) = Some False" "heads (ni_md_links ni) ?me = None"
    by (cases "bad_me ni (h_index current_in)") auto
  then show thesis
  proof cases
    case 1
    then show ?thesis
      using bad_index_None [of MAX_MES "ni_me_pool ni" "h_index current_in"]
      by (intro fault) (simp_all add: defs)
  next
    case 2
    then show ?thesis by (intro error [of _ "ni_trace ni"]) (auto simp: defs)
  next
    case 3
    then show ?thesis by (intro error [of _ "ni_trace ni"]) (auto simp: defs)
  next
    case 4
    then have me: "?me \<in> used_mes ni" by (simp add: bad_me_False)
    show ?thesis
    proof (cases rule: lib_md_build_cases [of cb md_in ni])
      case fault
      with 4 show ?thesis by (intro that(1)) (simp_all add: defs md_fault_def)
    next
      case (error e cs)
      with 4 show ?thesis by (intro that(2)) (auto simp: defs)
    next
      case (built new p eq cs addrkey)
      with 4 me show ?thesis
        by (intro ok [OF refl me _ built(1,2), of addrkey cs])
          (simp_all add: defs upd_md_def link_head_clear [simplified])
    qed
  qed
qed

lemma do_PtlMDInsert_internal_cases:
  assumes "ni_inv ni"
  obtains
    (fault) "do_PtlMDInsert_internal cb current_in md_in unlink_in pos ni = None"
      "h_index current_in = int MAX_MDS \<or> md_fault md_in"
  | (error) rc cs where "do_PtlMDInsert_internal cb current_in md_in unlink_in pos ni =
        Some ((rc, None), ni\<lparr>ni_trace := cs\<rparr>)"
      "rc \<in> {PTL_INV_MD, PTL_INV_EQ, PTL_VAL_FAILED, PTL_NOSPACE}"
  | (ok) md new p eq cs addrkey where "md = nat (h_index current_in)" "md \<in> used_mds ni"
      "pool_alloc (ni_md_pool ni) = Some (new, p)"
      "md_build_eq (pm_eventq md_in) ni = Some (Inr eq)"
      "do_PtlMDInsert_internal cb current_in md_in unlink_in pos ni =
         Some ((PTL_OK, Some (int new OR h_ni current_in)),
           ni\<lparr>ni_trace := cs, ni_md_pool := p,
             ni_md := (ni_md ni)(new := (md_of md_in eq addrkey)
               \<lparr>md_me := md_me (ni_md ni md), md_unlink := unlink_in\<rparr>),
             ni_md_links := lib_insert md new pos (ni_md_links ni)\<rparr>)"
proof -
  let ?md = "nat (h_index current_in)"
  note defs = do_PtlMDInsert_internal_def Let_def
  consider "bad_md ni (h_index current_in) = None" | "bad_md ni (h_index current_in) = Some True"
    | "bad_md ni (h_index current_in) = Some False"
    by (cases "bad_md ni (h_index current_in)") auto
  then show thesis
  proof cases
    case 1
    then show ?thesis
      using bad_index_None [of MAX_MDS "ni_md_pool ni" "h_index current_in"]
      by (intro fault) (simp_all add: defs)
  next
    case 2
    then show ?thesis by (intro error [of _ "ni_trace ni"]) (auto simp: defs)
  next
    case 3
    then have md: "?md \<in> used_mds ni" by (simp add: bad_md_False)
    show ?thesis
    proof (cases rule: lib_md_build_cases [of cb md_in ni])
      case fault
      with 3 show ?thesis by (intro that(1)) (simp_all add: defs md_fault_def)
    next
      case (error e cs)
      with 3 show ?thesis by (intro that(2)) (auto simp: defs)
    next
      case (built new p eq cs addrkey)
      have "new \<notin> used_mds ni"
        using assms md_pool.used_alloc_fresh [OF _ built(1)] by (simp add: ni_inv_def)
      then have ne: "new \<noteq> ?md" using md by blast
      with 3 built show ?thesis
        by (intro ok [OF refl md built(1,2), of addrkey cs]) (simp add: defs upd_md_def lib_insert_clear [OF ne])
    qed
  qed
qed

lemma do_PtlMDBind_internal_cases:
  obtains
    (fault) "do_PtlMDBind_internal cb ni_in md_in ni = None" "md_fault md_in"
  | (error) rc cs where "do_PtlMDBind_internal cb ni_in md_in ni =
        Some ((rc, None), ni\<lparr>ni_trace := cs\<rparr>)"
      "rc \<in> {PTL_INV_EQ, PTL_VAL_FAILED, PTL_NOSPACE}"
  | (ok) new p eq cs addrkey where "pool_alloc (ni_md_pool ni) = Some (new, p)"
      "md_build_eq (pm_eventq md_in) ni = Some (Inr eq)"
      "do_PtlMDBind_internal cb ni_in md_in ni =
         Some ((PTL_OK, Some (int new OR h_ni ni_in)),
           ni\<lparr>ni_trace := cs, ni_md_pool := p,
             ni_md := (ni_md ni)(new := md_of md_in eq addrkey),
             ni_md_links := link_clear new (ni_md_links ni)\<rparr>)"
proof (cases rule: lib_md_build_cases [of cb md_in ni])
  case fault
  then show ?thesis by (intro that(1)) (simp_all add: do_PtlMDBind_internal_def Let_def md_fault_def)
next
  case (error e cs)
  then show ?thesis by (intro that(2)) (simp_all add: do_PtlMDBind_internal_def Let_def)
next
  case (built new p eq cs addrkey)
  have "(md_of md_in eq addrkey)\<lparr>md_me := None\<rparr> = md_of md_in eq addrkey" by (simp add: md_of_def)
  then show ?thesis
    using built by (intro ok [OF built(1,2), of addrkey cs]) (simp add: do_PtlMDBind_internal_def Let_def upd_md_def)
qed

lemma do_PtlMDUnlink_internal_cases:
  obtains
    (fault) "do_PtlMDUnlink_internal md_in ni = None" "h_index md_in = int MAX_MDS"
  | (error) "do_PtlMDUnlink_internal md_in ni = Some ((PTL_INV_MD, None), ni)"
      "nat (h_index md_in) \<notin> used_mds ni"
  | (ok) md where "md = nat (h_index md_in)" "md \<in> used_mds ni"
      "do_PtlMDUnlink_internal md_in ni =
         Some ((PTL_OK, Some (lib_md_deconstruct md ni)), lib_md_unlink md ni)"
proof (cases "bad_md ni (h_index md_in)")
  case None
  then show ?thesis
    using bad_index_None [of MAX_MDS "ni_md_pool ni" "h_index md_in"]
    by (intro fault) (simp_all add: do_PtlMDUnlink_internal_def Let_def)
next
  case (Some b)
  then show ?thesis
    using bad_md_False [of ni md_in]
    by (cases b) (auto intro: ok error simp: do_PtlMDUnlink_internal_def Let_def)
qed

section \<open>Invariant\<close>

lemma do_PtlMDAttach_internal_inv:
  assumes inv: "ni_inv ni"
    and op: "do_PtlMDAttach_internal cb current_in md_in unlink_in ni = Some (ret, ni')"
  shows "ni_inv ni'"
proof (cases rule: do_PtlMDAttach_internal_cases [of cb current_in md_in unlink_in ni])
  case (ok me new p eq cs addrkey)
  have wf: "wf_links (used_mds ni) (used_mes ni) (ni_md_links ni)"
    and own: "owner_ok (used_mds ni) (ni_md_links ni) (\<lambda>m. md_me (ni_md ni m))"
    and fresh: "new \<notin> used_mds ni"
    using inv md_pool.used_alloc_fresh [OF _ ok(4)] by (simp_all add: ni_inv_def)
  show ?thesis
    using op ok(6) wf_link_head [OF wf fresh ok(2,3)] owner_head [OF wf fresh own, of me]
    by (auto intro!: ni_inv_new_md [OF inv ok(4)] simp: idle_link_head)
qed (use inv op in \<open>auto simp: ni_inv_trace\<close>)

lemma do_PtlMDInsert_internal_inv:
  assumes inv: "ni_inv ni"
    and op: "do_PtlMDInsert_internal cb current_in md_in unlink_in pos ni = Some (ret, ni')"
  shows "ni_inv ni'"
  using inv
proof (cases rule: do_PtlMDInsert_internal_cases [of ni cb current_in md_in unlink_in pos])
  case (ok md new p eq cs addrkey)
  have wf: "wf_links (used_mds ni) (used_mes ni) (ni_md_links ni)"
    and own: "owner_ok (used_mds ni) (ni_md_links ni) (\<lambda>m. md_me (ni_md ni m))"
    and fresh: "new \<notin> used_mds ni"
    using inv md_pool.used_alloc_fresh [OF _ ok(3)] by (simp_all add: ni_inv_def)
  show ?thesis
    using op ok(5) wf_lib_insert [OF wf ok(2) fresh] owner_insert [OF wf ok(2) fresh own, of pos]
      idle_insert [OF wf ok(2) fresh]
    by (auto intro!: ni_inv_new_md [OF inv ok(3)])
qed (use inv op in \<open>auto simp: ni_inv_trace\<close>)

lemma do_PtlMDBind_internal_inv:
  assumes inv: "ni_inv ni" and op: "do_PtlMDBind_internal cb ni_in md_in ni = Some (ret, ni')"
  shows "ni_inv ni'"
proof (cases rule: do_PtlMDBind_internal_cases [of cb ni_in md_in ni])
  case (ok new p eq cs addrkey)
  have wf: "wf_links (used_mds ni) (used_mes ni) (ni_md_links ni)"
    and own: "owner_ok (used_mds ni) (ni_md_links ni) (\<lambda>m. md_me (ni_md ni m))"
    and fresh: "new \<notin> used_mds ni"
    using inv md_pool.used_alloc_fresh [OF _ ok(1)] by (simp_all add: ni_inv_def)
  show ?thesis
    using op ok(3) wf_link_clear [OF wf fresh] owner_clear [OF wf fresh own]
    by (auto intro!: ni_inv_new_md [OF inv ok(1)] simp: idle_link_clear md_of_def)
qed (use inv op in \<open>auto simp: ni_inv_trace\<close>)

lemma do_PtlMDUnlink_internal_inv:
  assumes "ni_inv ni" and "do_PtlMDUnlink_internal md_in ni = Some (ret, ni')"
  shows "ni_inv ni'"
  using assms
  by (cases rule: do_PtlMDUnlink_internal_cases [of md_in ni])
    (auto intro: lib_md_unlink_inv simp: md_pool.used_def)

lemma md_update_validate_frame:
  assumes "md_update_validate cb new md ni = (ok, ni1)"
  shows "ni_inv ni1 = ni_inv ni" "ni_eq_pool ni1 = ni_eq_pool ni"
    "ni_md_pool ni1 = ni_md_pool ni" "ni_md_links ni1 = ni_md_links ni"
    "\<exists>k. ni_md ni1 = (ni_md ni)(md := (ni_md ni md)\<lparr>md_addrkey := k\<rparr>)"
proof -
  have same: "(ni_md ni)(md := (ni_md ni md)\<lparr>md_addrkey := md_addrkey (ni_md ni md)\<rparr>) = ni_md ni"
    by simp
  from assms show "ni_inv ni1 = ni_inv ni" "ni_eq_pool ni1 = ni_eq_pool ni"
      "ni_md_pool ni1 = ni_md_pool ni" "ni_md_links ni1 = ni_md_links ni"
      "\<exists>k. ni_md ni1 = (ni_md ni)(md := (ni_md ni md)\<lparr>md_addrkey := k\<rparr>)"
    unfolding md_update_validate_def Let_def
    by (auto simp: ni_inv_simps split: if_splits prod.splits)
      (auto simp: ni_upd_defs intro: exI [of _ "md_addrkey (ni_md ni md)"] same [symmetric])
qed

lemma do_PtlMDUpdate_internal_inv:
  assumes inv: "ni_inv ni"
    and op: "do_PtlMDUpdate_internal cb md_in old_valid new testq_in seq ni = Some (ret, ni')"
  shows "ni_inv ni'"
proof (cases "ni' = ni")
  case False
  then obtain n ok ni1 where v: "md_update_validate cb n (nat (h_index md_in)) ni = (ok, ni1)"
    and ni': "ni' = ni1 \<or> (\<exists>evq. ni' = upd_md (nat (h_index md_in)) (\<lambda>m. m\<lparr>md_start := pm_start n,
          md_length := pm_length n, md_threshold := pm_threshold n, md_max_offset := pm_max_offset n,
          md_options := pm_options n, md_user_ptr := pm_user_ptr n, md_eq := evq\<rparr>) ni1)"
    using op
    by (auto simp: do_PtlMDUpdate_internal_def Let_def bind_eq_Some_iff
        split: option.splits sum.splits if_splits prod.splits)
  from ni' inv md_update_validate_frame(1) [OF v] show ?thesis
    by (auto simp: ni_inv_simps)
qed (use inv in simp)

end
