(* ===== verification/P30_ME.thy ===== *)
theory P30_ME
  imports P30_MD
begin

text \<open>
  Match entries (\<open>lib-p30/me.c\<close>).  The loops that follow pointers are partial functions;
  the lemmas show that they return on every state of the invariant, and what they return.
\<close>

section \<open>Operations\<close>

definition do_PtlMEAttach ::
  "int \<Rightarrow> int \<Rightarrow> ptl_process_id \<Rightarrow> 64 word \<Rightarrow> 64 word \<Rightarrow> ptl_unlink \<Rightarrow> lib_ni \<Rightarrow>
     ((int \<times> int option) \<times> lib_ni) option" where
  "do_PtlMEAttach interface_in index_in match_id_in match_bits_in ignore_bits_in unlink_in ni =
     (let ni_h = h_ni interface_in
      in if ni_tbl_size ni < index_in \<or> index_in < 0 then Some ((PTL_INV_PTINDEX, None), ni)
         else if index_in \<ge> ni_tbl_size ni then None
         else if heads (ni_me_links ni) (nat index_in) \<noteq> None then Some ((PTL_INUSE, None), ni)
         else case lib_me_alloc ni of
           None \<Rightarrow> Some ((PTL_NOSPACE, None), ni)
         | Some (me, ni1) \<Rightarrow>
             (let ni2 = upd_me me (\<lambda>_. \<lparr>me_match_id = match_id_in, me_match_bits = match_bits_in,
                          me_ignore_bits = ignore_bits_in, me_unlink = unlink_in\<rparr>) ni1;
                  ni3 = ni2\<lparr>ni_md_links := cell_set (Head me) None (ni_md_links ni2)\<rparr>;
                  ni4 = ni3\<lparr>ni_me_links := link_head (nat index_in) me (ni_me_links ni3)\<rparr>
              in Some ((PTL_OK, Some (int me OR ni_h)), ni4)))"

definition do_PtlMEInsert ::
  "int \<Rightarrow> ptl_process_id \<Rightarrow> 64 word \<Rightarrow> 64 word \<Rightarrow> ptl_unlink \<Rightarrow> ptl_ins_pos \<Rightarrow> lib_ni \<Rightarrow>
     ((int \<times> int option) \<times> lib_ni) option" where
  "do_PtlMEInsert current_in match_id_in match_bits_in ignore_bits_in unlink_in position_in ni =
     do {
       let ni_h = h_ni current_in;
       let current = h_index current_in;
       bad \<leftarrow> bad_me ni current;
       (if bad then Some ((PTL_INV_ME, None), ni)
        else case lib_me_alloc ni of
          None \<Rightarrow> Some ((PTL_NOSPACE, None), ni)
        | Some (new, ni1) \<Rightarrow>
            (let ni2 = upd_me new (\<lambda>_. \<lparr>me_match_id = match_id_in, me_match_bits = match_bits_in,
                         me_ignore_bits = ignore_bits_in, me_unlink = unlink_in\<rparr>) ni1;
                 ni3 = ni2\<lparr>ni_md_links := cell_set (Head new) None (ni_md_links ni2)\<rparr>;
                 ni4 = ni3\<lparr>ni_me_links := link_clear new (ni_me_links ni3)\<rparr>;
                 ni5 = ni4\<lparr>ni_me_links := lib_insert (nat current) new position_in (ni_me_links ni4)\<rparr>
             in Some ((PTL_OK, Some (int new OR ni_h)), ni5)))
     }"

text \<open>The loop \<open>while( me->md ) lib_md_unlink( nal, me->md )\<close>.\<close>

partial_function (option) me_unlink_mds :: "nat \<Rightarrow> lib_ni \<Rightarrow> lib_ni option" where
  "me_unlink_mds me ni =
     (case heads (ni_md_links ni) me of
        None \<Rightarrow> Some ni
      | Some md \<Rightarrow> me_unlink_mds me (lib_md_unlink md ni))"

definition lib_me_unlink :: "nat \<Rightarrow> lib_ni \<Rightarrow> lib_ni option" where
  "lib_me_unlink me ni =
     do {
       let ni1 = ni\<lparr>ni_me_links := lib_unlink me (ni_me_links ni)\<rparr>;
       ni2 \<leftarrow> me_unlink_mds me ni1;
       Some (lib_me_free me ni2)
     }"

definition do_PtlMEUnlink :: "int \<Rightarrow> lib_ni \<Rightarrow> (int \<times> lib_ni) option" where
  "do_PtlMEUnlink current_in ni =
     do {
       let current = h_index current_in;
       bad \<leftarrow> bad_me ni current;
       (if bad then Some (PTL_INV_ME, ni)
        else do {
          ni1 \<leftarrow> lib_me_unlink (nat current) ni;
          Some (PTL_OK, ni1)
        })
     }"

text \<open>
  The dumps print: what a dump prints of an entry is its index, its bits and its three
  pointers.
\<close>

record me_dump =
  dump_index :: int
  dump_match :: "64 word"
  dump_ignore :: "64 word"
  dump_md :: "nat option"
  dump_prev :: "cell option"
  dump_next :: "nat option"

definition lib_me_dump :: "nat \<Rightarrow> int \<Rightarrow> lib_ni \<Rightarrow> me_dump" where
  "lib_me_dump me current ni =
     \<lparr>dump_index = current, dump_match = me_match_bits (ni_me ni me),
      dump_ignore = me_ignore_bits (ni_me ni me), dump_md = heads (ni_md_links ni) me,
      dump_prev = prv (ni_me_links ni) me, dump_next = nxt (ni_me_links ni) me\<rparr>"

partial_function (option) tbl_dump_loop :: "nat option \<Rightarrow> lib_ni \<Rightarrow> me_dump list option" where
  "tbl_dump_loop me ni =
     (case me of
        None \<Rightarrow> Some []
      | Some m \<Rightarrow> Option.bind (tbl_dump_loop (nxt (ni_me_links ni) m) ni)
                    (\<lambda>ds. Some (lib_me_dump m (int m) ni # ds)))"

definition do_PtlTblDump :: "int \<Rightarrow> lib_ni \<Rightarrow> (int \<times> me_dump list) option" where
  "do_PtlTblDump index_in ni =
     (if ni_tbl_size ni < index_in \<or> index_in < 0 then Some (PTL_INV_PTINDEX, [])
      else if index_in \<ge> ni_tbl_size ni then None
      else do {
        ds \<leftarrow> tbl_dump_loop (heads (ni_me_links ni) (nat index_in)) ni;
        Some (PTL_OK, ds)
      })"

definition do_PtlMEDump :: "int \<Rightarrow> lib_ni \<Rightarrow> (int \<times> me_dump list) option" where
  "do_PtlMEDump current_in ni =
     do {
       let current = h_index current_in;
       bad \<leftarrow> bad_me ni current;
       Some (if bad then (PTL_INV_ME, []) else (PTL_OK, [lib_me_dump (nat current) current ni]))
     }"

section \<open>Invariant\<close>

lemma wf_links_new_head:
  assumes "wf_links us hs l" "h \<notin> hs"
  shows "wf_links us (insert h hs) (cell_set (Head h) None l)" (is "wf_links _ _ ?l")
proof (rule wf_linksI)
  fix k m assume "k \<in> insert h hs" "heads ?l k = Some m"
  then show "m \<in> us \<and> prv ?l m = Some (Head k)"
    using wf_links_head [OF assms(1), of k m] by (simp split: if_splits)
next
  fix i m assume "i \<in> us" "nxt ?l i = Some m"
  then show "m \<in> us \<and> prv ?l m = Some (Next i)"
    using wf_links_nxt [OF assms(1), of i m] by simp
next
  fix m k assume "m \<in> us" "prv ?l m = Some (Head k)"
  then show "k \<in> insert h hs \<and> heads ?l k = Some m"
    using wf_links_prv_Head [OF assms(1), of m k] assms(2) by auto
next
  fix m i assume "m \<in> us" "prv ?l m = Some (Next i)"
  then show "i \<in> us \<and> nxt ?l i = Some m"
    using wf_links_prv_Next [OF assms(1), of m i] by simp
next
  show "acyclic (link_edges us ?l)"
    using wf_links_acyclic [OF assms(1)] by (simp add: link_edges_def)
qed

lemma wf_links_drop_head:
  assumes "wf_links us hs l" "heads l h = None"
  shows "wf_links us (hs - {h}) l"
proof (rule wf_linksI)
  fix k m assume "k \<in> hs - {h}" "heads l k = Some m"
  then show "m \<in> us \<and> prv l m = Some (Head k)"
    using wf_links_head [OF assms(1), of k m] by simp
next
  fix m k assume "m \<in> us" "prv l m = Some (Head k)"
  then show "k \<in> hs - {h} \<and> heads l k = Some m"
    using wf_links_prv_Head [OF assms(1), of m k] assms(2) by auto
qed (use wf_links_nxt [OF assms(1)] wf_links_prv_Next [OF assms(1)] wf_links_acyclic [OF assms(1)] in blast)+

lemma wf_links_unlink_keep:
  assumes "wf_links us hs l" "obj \<in> us"
  shows "wf_links us hs (lib_unlink obj l)"
proof -
  have "link_clear obj (lib_unlink obj l) = lib_unlink obj l"
    by (simp add: link_clear_def lib_unlink_def Let_def set_prv_def set_nxt_def)
  then show ?thesis
    using wf_link_clear [OF wf_lib_unlink [OF assms], of obj] assms(2) by (simp add: insert_absorb)
qed

lemma ni_inv_new_me:
  assumes inv: "ni_inv ni" and p: "pool_alloc (ni_me_pool ni) = Some (new, p)"
    and wf: "wf_links (insert new (used_mes ni)) (portals ni) l"
  shows "ni_inv (ni\<lparr>ni_me_pool := p, ni_me := f, ni_me_links := l,
    ni_md_links := cell_set (Head new) None (ni_md_links ni)\<rparr>)"
proof -
  have pinv: "pool_inv MAX_MES (ni_me_pool ni)" using inv by (simp add: ni_inv_def)
  have used: "me_pool.used p = insert new (used_mes ni)" by (rule me_pool.used_alloc [OF pinv p])
  have "wf_links (used_mds ni) (insert new (used_mes ni)) (cell_set (Head new) None (ni_md_links ni))"
    using inv me_pool.used_alloc_fresh [OF pinv p]
    by (intro wf_links_new_head) (simp_all add: ni_inv_def)
  then show ?thesis
    using inv wf me_pool.inv_alloc [OF pinv p] used
    by (simp add: ni_inv_defs owner_ok_def)
qed

definition me_of :: "ptl_process_id \<Rightarrow> 64 word \<Rightarrow> 64 word \<Rightarrow> ptl_unlink \<Rightarrow> lib_me" where
  "me_of i mb ib u = \<lparr>me_match_id = i, me_match_bits = mb, me_ignore_bits = ib, me_unlink = u\<rparr>"

lemma do_PtlMEAttach_cases:
  obtains
    (fault) "do_PtlMEAttach ni_in idx i mb ib u ni = None" "idx = ni_tbl_size ni"
  | (error) rc where "do_PtlMEAttach ni_in idx i mb ib u ni = Some ((rc, None), ni)"
      "rc \<in> {PTL_INV_PTINDEX, PTL_INUSE, PTL_NOSPACE}"
  | (ok) new p where "0 \<le> idx" "idx < ni_tbl_size ni" "heads (ni_me_links ni) (nat idx) = None"
      "pool_alloc (ni_me_pool ni) = Some (new, p)"
      "do_PtlMEAttach ni_in idx i mb ib u ni = Some ((PTL_OK, Some (int new OR h_ni ni_in)),
         ni\<lparr>ni_me_pool := p, ni_me := (ni_me ni)(new := me_of i mb ib u),
           ni_me_links := link_head (nat idx) new (ni_me_links ni),
           ni_md_links := cell_set (Head new) None (ni_md_links ni)\<rparr>)"
proof -
  note defs = do_PtlMEAttach_def Let_def lib_me_alloc_def
  consider "idx < 0 \<or> idx > ni_tbl_size ni" | "0 \<le> idx" "idx = ni_tbl_size ni"
    | "0 \<le> idx" "idx < ni_tbl_size ni" "heads (ni_me_links ni) (nat idx) \<noteq> None"
    | "0 \<le> idx" "idx < ni_tbl_size ni" "heads (ni_me_links ni) (nat idx) = None"
      "pool_alloc (ni_me_pool ni) = None"
    | new p where "0 \<le> idx" "idx < ni_tbl_size ni" "heads (ni_me_links ni) (nat idx) = None"
      "pool_alloc (ni_me_pool ni) = Some (new, p)"
    by (metis linorder_less_linear not_None_eq not_less surj_pair)
  then show thesis
  proof cases
    case 1
    then show ?thesis by (intro error) (auto simp: defs)
  next
    case 2
    then show ?thesis by (intro fault) (auto simp: defs)
  next
    case 3
    then show ?thesis by (intro error) (auto simp: defs)
  next
    case 4
    then show ?thesis by (intro error) (auto simp: defs)
  next
    case (5 new p)
    then show ?thesis by (intro ok [OF 5]) (simp add: defs upd_me_def me_of_def)
  qed
qed

lemma do_PtlMEInsert_cases:
  assumes "ni_inv ni"
  obtains
    (fault) "do_PtlMEInsert current_in i mb ib u pos ni = None" "h_index current_in = int MAX_MES"
  | (error) rc where "do_PtlMEInsert current_in i mb ib u pos ni = Some ((rc, None), ni)"
      "rc \<in> {PTL_INV_ME, PTL_NOSPACE}"
  | (ok) me new p where "me = nat (h_index current_in)" "me \<in> used_mes ni"
      "pool_alloc (ni_me_pool ni) = Some (new, p)"
      "do_PtlMEInsert current_in i mb ib u pos ni = Some ((PTL_OK, Some (int new OR h_ni current_in)),
         ni\<lparr>ni_me_pool := p, ni_me := (ni_me ni)(new := me_of i mb ib u),
           ni_me_links := lib_insert me new pos (ni_me_links ni),
           ni_md_links := cell_set (Head new) None (ni_md_links ni)\<rparr>)"
proof -
  note defs = do_PtlMEInsert_def Let_def lib_me_alloc_def
  let ?b = "bad_me ni (h_index current_in)"
  consider "?b = None" | "?b = Some True" | "?b = Some False" "pool_alloc (ni_me_pool ni) = None"
    | new p where "?b = Some False" "pool_alloc (ni_me_pool ni) = Some (new, p)"
    by (metis (full_types) not_None_eq surj_pair)
  then show thesis
  proof cases
    case 1
    then show ?thesis
      using bad_index_None [of MAX_MES "ni_me_pool ni" "h_index current_in"]
      by (intro fault) (simp_all add: defs)
  next
    case 2
    then show ?thesis by (intro error) (auto simp: defs)
  next
    case 3
    then show ?thesis by (intro error) (auto simp: defs)
  next
    case (4 new p)
    then have me: "nat (h_index current_in) \<in> used_mes ni" by (simp add: bad_me_False)
    moreover have "new \<notin> used_mes ni"
      using assms me_pool.used_alloc_fresh [OF _ 4(2)] by (simp add: ni_inv_def)
    ultimately have ne: "new \<noteq> nat (h_index current_in)" by blast
    show ?thesis
      using 4 by (intro ok [OF refl me 4(2)]) (simp add: defs upd_me_def me_of_def lib_insert_clear [OF ne])
  qed
qed

lemma do_PtlMEAttach_inv:
  assumes inv: "ni_inv ni" and op: "do_PtlMEAttach ni_in idx i mb ib u ni = Some (ret, ni')"
  shows "ni_inv ni'"
proof (cases rule: do_PtlMEAttach_cases [of ni_in idx i mb ib u ni])
  case (ok new p)
  have "wf_links (used_mes ni) (portals ni) (ni_me_links ni)" "new \<notin> used_mes ni"
    using inv me_pool.used_alloc_fresh [OF _ ok(4)] by (simp_all add: ni_inv_def)
  then have "wf_links (insert new (used_mes ni)) (portals ni) (link_head (nat idx) new (ni_me_links ni))"
    using ok(1-3) by (intro wf_link_head) (simp_all add: portals_def)
  then show ?thesis using op ok(5) ni_inv_new_me [OF inv ok(4)] by auto
qed (use inv op in auto)

lemma do_PtlMEInsert_inv:
  assumes inv: "ni_inv ni" and op: "do_PtlMEInsert current_in i mb ib u pos ni = Some (ret, ni')"
  shows "ni_inv ni'"
  using inv
proof (cases rule: do_PtlMEInsert_cases [of ni current_in i mb ib u pos])
  case (ok me new p)
  have "wf_links (used_mes ni) (portals ni) (ni_me_links ni)" "new \<notin> used_mes ni"
    using inv me_pool.used_alloc_fresh [OF _ ok(3)] by (simp_all add: ni_inv_def)
  then have "wf_links (insert new (used_mes ni)) (portals ni) (lib_insert me new pos (ni_me_links ni))"
    using ok(2) by (intro wf_lib_insert)
  then show ?thesis using op ok(4) ni_inv_new_me [OF inv ok(3)] by auto
qed (use inv op in auto)

section \<open>Unlinking an entry\<close>

text \<open>The loop unlinks the descriptors of the entry, in the order of its list.\<close>

lemma me_unlink_mds_step:
  assumes inv: "ni_inv ni" and me: "me \<in> used_mes ni" and l: "list_at (ni_md_links ni) me (m # mds)"
  shows "ni_inv (lib_md_unlink m ni)" "list_at (ni_md_links (lib_md_unlink m ni)) me mds"
    "used_mds (lib_md_unlink m ni) = used_mds ni - {m}"
proof -
  have wf: "wf_links (used_mds ni) (used_mes ni) (ni_md_links ni)" using inv by (simp add: ni_inv_def)
  have m: "m \<in> used_mds ni" using list_at_subset [OF wf l me] by simp
  then have lt: "m < MAX_MDS" by (simp add: md_pool.used_def)
  show "ni_inv (lib_md_unlink m ni)" by (rule lib_md_unlink_inv [OF inv lt disjI1 [OF m]])
  show "used_mds (lib_md_unlink m ni) = used_mds ni - {m}" by (rule used_mds_unlink [OF inv lt])
  show "list_at (ni_md_links (lib_md_unlink m ni)) me mds"
    using list_at_unlink [OF wf me, of "[]" m mds] l by simp
qed

lemma me_unlink_mds_fold:
  assumes "ni_inv ni" "me \<in> used_mes ni" "list_at (ni_md_links ni) me mds"
  shows "me_unlink_mds me ni = Some (fold lib_md_unlink mds ni) \<and>
    ni_inv (fold lib_md_unlink mds ni) \<and>
    heads (ni_md_links (fold lib_md_unlink mds ni)) me = None \<and>
    used_mds (fold lib_md_unlink mds ni) = used_mds ni - set mds"
  using assms
proof (induction mds arbitrary: ni)
  case Nil
  then show ?case by (subst me_unlink_mds.simps) simp
next
  case (Cons m mds)
  note step = me_unlink_mds_step [OF Cons.prems]
  have "me_unlink_mds me ni = me_unlink_mds me (lib_md_unlink m ni)"
    using Cons.prems by (subst me_unlink_mds.simps) (simp add: list_at_Cons)
  with Cons.IH [OF step(1) _ step(2)] Cons.prems(2) step(3) show ?case by auto
qed

lemma fold_md_unlink_sel:
  "ni_me_pool (fold lib_md_unlink mds ni) = ni_me_pool ni"
  "ni_eq_pool (fold lib_md_unlink mds ni) = ni_eq_pool ni"
  "ni_msg_pool (fold lib_md_unlink mds ni) = ni_msg_pool ni"
  "ni_me_links (fold lib_md_unlink mds ni) = ni_me_links ni"
  "ni_me (fold lib_md_unlink mds ni) = ni_me ni"
  "ni_msg (fold lib_md_unlink mds ni) = ni_msg ni"
  "ni_eq (fold lib_md_unlink mds ni) = ni_eq ni"
  "ni_counters (fold lib_md_unlink mds ni) = ni_counters ni"
  "portals (fold lib_md_unlink mds ni) = portals ni"
  "md_eq (ni_md (fold lib_md_unlink mds ni) m) = md_eq (ni_md ni m)"
  "md_pending (ni_md (fold lib_md_unlink mds ni) m) = md_pending (ni_md ni m)"
  "ni_up (fold lib_md_unlink mds ni) = ni_up ni"
  by (induction mds arbitrary: ni) simp_all

lemma lib_me_free_inv:
  assumes inv: "ni_inv ni" and me: "me \<in> used_mes ni"
    and none: "heads (ni_md_links ni) me = None" and idle: "idle (ni_me_links ni) me"
  shows "ni_inv (lib_me_free me ni)"
proof -
  have pinv: "pool_inv MAX_MES (ni_me_pool ni)" and lt: "me < MAX_MES"
    and wf: "wf_links (used_mes ni) (portals ni) (ni_me_links ni)"
    and wfd: "wf_links (used_mds ni) (used_mes ni) (ni_md_links ni)"
    using inv me by (simp_all add: ni_inv_def me_pool.used_def)
  have "wf_links (used_mes ni - {me}) (portals ni) (ni_me_links ni)"
    using wf_lib_unlink [OF wf me] unlink_idle [OF idle] by simp
  then show ?thesis
    using inv wf_links_drop_head [OF wfd none] me_pool.inv_free [OF pinv lt] me_pool.used_free [OF pinv lt]
    by (simp add: lib_me_free_def ni_inv_defs)
qed

text \<open>
  Unlinking an entry in use returns: the entry leaves its list, its descriptors are
  unlinked in order, and the entry is free.
\<close>

lemma lib_me_unlink_spec:
  assumes inv: "ni_inv ni" and me: "me \<in> used_mes ni"
  obtains mds where "list_at (ni_md_links ni) me mds" "set mds \<subseteq> used_mds ni"
    "lib_me_unlink me ni = Some (lib_me_free me (fold lib_md_unlink mds
       (ni\<lparr>ni_me_links := lib_unlink me (ni_me_links ni)\<rparr>)))"
    "ni_inv (lib_me_free me (fold lib_md_unlink mds (ni\<lparr>ni_me_links := lib_unlink me (ni_me_links ni)\<rparr>)))"
proof -
  let ?ni = "ni\<lparr>ni_me_links := lib_unlink me (ni_me_links ni)\<rparr>"
  have wf: "wf_links (used_mes ni) (portals ni) (ni_me_links ni)"
    and wfd: "wf_links (used_mds ni) (used_mes ni) (ni_md_links ni)"
    using inv by (simp_all add: ni_inv_def)
  obtain mds where mds: "list_at (ni_md_links ni) me mds" "set mds \<subseteq> used_mds ni"
    using list_at_exists [OF wfd _ me] by auto
  have inv1: "ni_inv ?ni"
    using inv wf_links_unlink_keep [OF wf me] by (simp add: ni_inv_defs)
  define ni2 where "ni2 = fold lib_md_unlink mds ?ni"
  have loop: "me_unlink_mds me ?ni = Some ni2" "ni_inv ni2" "heads (ni_md_links ni2) me = None"
    using me_unlink_mds_fold [OF inv1, of me mds] me mds(1) by (simp_all add: ni2_def)
  have "me \<in> used_mes ni2" "idle (ni_me_links ni2) me"
    using me by (simp_all add: ni2_def fold_md_unlink_sel idle_unlink_self)
  then have "ni_inv (lib_me_free me ni2)"
    using lib_me_free_inv loop by blast
  then show thesis
    using that [OF mds] loop by (simp add: lib_me_unlink_def Let_def flip: ni2_def)
qed

text \<open>The same, without the list: what the client of \<open>lib_me_unlink\<close> needs.\<close>

lemma lib_me_unlink_total:
  assumes inv: "ni_inv ni" and me: "me \<in> used_mes ni"
  obtains ni' where "lib_me_unlink me ni = Some ni'" "ni_inv ni'"
    "used_mes ni' = used_mes ni - {me}"
    "used_mds ni' = {m \<in> used_mds ni. \<not> (\<exists>mds. list_at (ni_md_links ni) me mds \<and> m \<in> set mds)}"
    "ni_msg_pool ni' = ni_msg_pool ni" "ni_eq_pool ni' = ni_eq_pool ni" "ni_msg ni' = ni_msg ni"
    "ni_eq ni' = ni_eq ni" "ni_up ni' = ni_up ni" "ni_counters ni' = ni_counters ni"
    "\<And>m. md_eq (ni_md ni' m) = md_eq (ni_md ni m)"
    "\<And>m. md_pending (ni_md ni' m) = md_pending (ni_md ni m)"
proof -
  from lib_me_unlink_spec [OF inv me] obtain mds where mds: "list_at (ni_md_links ni) me mds"
    and ni': "lib_me_unlink me ni = Some (lib_me_free me (fold lib_md_unlink mds
       (ni\<lparr>ni_me_links := lib_unlink me (ni_me_links ni)\<rparr>)))"
    and inv': "ni_inv (lib_me_free me (fold lib_md_unlink mds (ni\<lparr>ni_me_links := lib_unlink me (ni_me_links ni)\<rparr>)))"
    by metis
  let ?ni = "ni\<lparr>ni_me_links := lib_unlink me (ni_me_links ni)\<rparr>"
  have wf: "wf_links (used_mes ni) (portals ni) (ni_me_links ni)" using inv by (simp add: ni_inv_def)
  have "ni_inv ?ni" using inv wf_links_unlink_keep [OF wf me] by (simp add: ni_inv_defs)
  from me_unlink_mds_fold [OF this, of me mds] me mds
  have "used_mds (fold lib_md_unlink mds ?ni) = used_mds ni - set mds" by simp
  moreover have "m \<in> set mds \<longleftrightarrow> (\<exists>ms. list_at (ni_md_links ni) me ms \<and> m \<in> set ms)" for m
    using mds list_at_unique by blast
  moreover have "pool_inv MAX_MES (ni_me_pool ni)" "me < MAX_MES"
    using inv me by (simp_all add: ni_inv_def me_pool.used_def)
  note me_pool.used_free [OF this]
  ultimately show thesis
    by (intro that [OF ni' inv']) (auto simp: lib_me_free_def fold_md_unlink_sel)
qed

lemma do_PtlMEUnlink_cases:
  assumes "ni_inv ni"
  obtains
    (fault) "do_PtlMEUnlink current_in ni = None" "h_index current_in = int MAX_MES"
  | (error) "do_PtlMEUnlink current_in ni = Some (PTL_INV_ME, ni)"
      "nat (h_index current_in) \<notin> used_mes ni"
  | (ok) me ni' where "me = nat (h_index current_in)" "me \<in> used_mes ni"
      "lib_me_unlink me ni = Some ni'" "do_PtlMEUnlink current_in ni = Some (PTL_OK, ni')"
proof -
  let ?b = "bad_me ni (h_index current_in)"
  consider "?b = None" | "?b = Some True" | "?b = Some False" by (metis (full_types) not_None_eq)
  then show thesis
  proof cases
    case 1
    then show ?thesis
      using bad_index_None [of MAX_MES "ni_me_pool ni" "h_index current_in"]
      by (intro fault) (simp_all add: do_PtlMEUnlink_def)
  next
    case 2
    then show ?thesis
      using bad_me_False [of ni current_in] by (intro error) (auto simp: do_PtlMEUnlink_def)
  next
    case 3
    then have me: "nat (h_index current_in) \<in> used_mes ni" by (simp add: bad_me_False)
    from lib_me_unlink_spec [OF assms me] obtain ni' where
      "lib_me_unlink (nat (h_index current_in)) ni = Some ni'" by metis
    with 3 show ?thesis by (intro ok [OF refl me]) (simp_all add: do_PtlMEUnlink_def)
  qed
qed

lemma lib_me_unlink_inv:
  "ni_inv ni \<Longrightarrow> me \<in> used_mes ni \<Longrightarrow> lib_me_unlink me ni = Some ni' \<Longrightarrow> ni_inv ni'"
  by (metis lib_me_unlink_spec option.inject)

lemma do_PtlMEUnlink_inv:
  assumes "ni_inv ni" and op: "do_PtlMEUnlink current_in ni = Some (ret, ni')"
  shows "ni_inv ni'"
  using assms(1)
  by (cases rule: do_PtlMEUnlink_cases [of ni current_in])
    (use assms lib_me_unlink_inv in auto)

section \<open>The dumps\<close>

lemma tbl_dump_loop_seg:
  "seg (nxt (ni_me_links ni)) p mes None \<Longrightarrow>
   tbl_dump_loop p ni = Some (map (\<lambda>m. lib_me_dump m (int m) ni) mes)"
  by (induction mes arbitrary: p) (subst tbl_dump_loop.simps; simp)+

end
