(* ===== verification/P30_EQ.thy ===== *)
theory P30_EQ
  imports P30_ME
begin

text \<open>
  Event queues on the library side (\<open>lib-p30/eq.c\<close>), and the completion of a message
  (\<open>lib-p30/msg.c\<close>), which writes the event, sends the acknowledgement and unlinks
  descriptors that have finished.
\<close>

section \<open>Allocating and freeing a queue\<close>

text \<open>The size of \<open>ptl_event_t\<close> with the layout of the 64-bit compute nodes.\<close>

definition sizeof_event :: "64 word" where [ptl_const]: "sizeof_event = 104"

definition do_PtlEQAlloc_internal ::
  "int \<Rightarrow> int \<Rightarrow> user_ptr \<Rightarrow> lib_ni \<Rightarrow> ((int \<times> int option) \<times> lib_ni)" where
  "do_PtlEQAlloc_internal ni_in count_in base_in ni =
     (let ni_h = h_ni ni_in
      in case lib_eq_alloc ni of
           None \<Rightarrow>
             ((PTL_NOSPACE, None),
              nal_call (CB_INVALIDATE base_in (size_t count_in * sizeof_event) NULL_PTR) ni)
         | Some (eq, ni1) \<Rightarrow>
             ((PTL_OK, Some (int eq OR ni_h)),
              upd_eq eq (\<lambda>_. \<lparr>eq_sequence = 1, eq_size = count_in, eq_base = base_in,
                eq_pending = 0\<rparr>) ni1))"

definition lib_eq_unlink :: "nat \<Rightarrow> lib_ni \<Rightarrow> lib_ni" where
  "lib_eq_unlink eq ni =
     (let q = ni_eq ni eq
      in lib_eq_free eq
           (nal_call (CB_INVALIDATE (eq_base q) (size_t (eq_size q) * sizeof_event) NULL_PTR) ni))"

definition do_PtlEQFree_internal :: "int \<Rightarrow> lib_ni \<Rightarrow> (int \<times> lib_ni) option" where
  "do_PtlEQFree_internal eventq_in ni =
     do {
       let current = h_index eventq_in;
       bad \<leftarrow> bad_eq ni current;
       Some (if bad then (PTL_INV_EQ, ni) else (PTL_OK, lib_eq_unlink (nat current) ni))
     }"

section \<open>Completing a message\<close>

text \<open>
  The write of the event (\<open>msg.c:54-74\<close>): the sequence number is taken from the queue,
  the slot is the number modulo the size of the queue (an unsigned remainder, undefined for a
  queue of size zero).  The result is false when the network layer could not write.
\<close>

definition finalize_event :: "nal_cb \<Rightarrow> nat \<Rightarrow> nat \<Rightarrow> lib_ni \<Rightarrow> (bool \<times> lib_ni) option" where
  "finalize_event cb msg eq ni =
     (let seq = eq_sequence (ni_eq ni eq);
          ni1 = upd_msg msg (\<lambda>m. m\<lparr>msg_ev := (msg_ev m)\<lparr>ev_sequence := seq\<rparr>\<rparr>) ni;
          ni2 = upd_eq eq (\<lambda>q. q\<lparr>eq_sequence := eq_sequence q + 1\<rparr>) ni1;
          q = ni_eq ni2 eq;
          size = (of_int (eq_size q) :: 32 word)
      in if size = 0 then None
         else
           (let slot = eq_base q + ucast (seq mod size) * sizeof_event;
                ev = msg_ev (ni_msg ni2 msg);
                rc = cb_write cb (ni_trace ni2) slot ev;
                ni3 = nal_call (CB_WRITE slot ev) ni2
            in if rc \<noteq> 0 then Some (False, ni3)
               else
                 (let pending = s32 (eq_pending (ni_eq ni3 eq) - 1)
                  in Some (True, upd_eq eq (\<lambda>q. q\<lparr>eq_pending := (if pending < 0 then 0 else pending)\<rparr>) ni3))))"

text \<open>The acknowledgement (\<open>msg.c:76-98\<close>).\<close>

definition ack_hdr :: "nat \<Rightarrow> lib_ni \<Rightarrow> ptl_hdr" where
  "ack_hdr msg ni =
     (let m = ni_msg ni msg
      in \<lparr>hdr_nid = msg_nid m, hdr_pid = msg_pid m,
          hdr_src = \<lparr>src_nid = ni_nid ni, src_pid = ni_pid ni, src_gid = ni_gid ni, src_rid = ni_rid ni\<rparr>,
          hdr_msg = MSG_ACK \<lparr>ack_dst_md = msg_return_md m, ack_mlength = ev_mlength (msg_ev m),
            ack_match_bits = ev_match_bits (msg_ev m)\<rparr>\<rparr>)"

definition finalize_ack :: "nal_cb \<Rightarrow> nat \<Rightarrow> lib_ni \<Rightarrow> int \<times> lib_ni" where
  "finalize_ack cb msg ni =
     (let m = ni_msg ni msg
      in if msg_return_md m \<ge> 0 then
           (let ack = ack_hdr msg ni
            in (cb_send cb (ni_trace ni) None ack NULL_PTR 0,
                nal_call (CB_SEND None ack (msg_nid m) (msg_pid m) (msg_gid m) (msg_rid m) NULL_PTR 0) ni))
         else (0, ni))"

text \<open>The end of the operation on the descriptor (\<open>msg.c:100-112\<close>).\<close>

definition finalize_md :: "nat \<Rightarrow> lib_ni \<Rightarrow> lib_ni option" where
  "finalize_md md ni =
     (let ni1 = upd_md md (\<lambda>m. m\<lparr>md_pending := s32 (md_pending m - 1)\<rparr>) ni
      in if md_pending (ni_md ni1 md) = 0 \<and> md_do_unlink (ni_md ni1 md) then
           (let ni2 = lib_md_unlink md ni1
            in case md_me (ni_md ni1 md) of
                 None \<Rightarrow> Some ni2
               | Some me \<Rightarrow>
                   (if heads (ni_md_links ni2) me = None \<and> me_unlink (ni_me ni2 me) = PTL_UNLINK
                    then lib_me_unlink me ni2 else Some ni2))
         else Some ni1)"

definition lib_finalize :: "nal_cb \<Rightarrow> nat option \<Rightarrow> lib_ni \<Rightarrow> (int \<times> lib_ni) option" where
  "lib_finalize cb msg_opt ni =
     (if \<not> ni_up ni then Some (-1, ni)
      else case msg_opt of
        None \<Rightarrow> Some (0, ni)
      | Some msg \<Rightarrow>
          do {
            md \<leftarrow> msg_md (ni_msg ni msg);
            (written, ni1) \<leftarrow> (case md_eq (ni_md ni md) of
                               None \<Rightarrow> Some (True, ni)
                             | Some eq \<Rightarrow> finalize_event cb msg eq ni);
            (if \<not> written then Some (-1, ni1)
             else do {
               let (rc, ni2) = finalize_ack cb msg ni1;
               ni3 \<leftarrow> finalize_md md ni2;
               Some (rc, lib_msg_free msg ni3)
             })
          })"

section \<open>Invariant\<close>

lemma do_PtlEQAlloc_internal_cases:
  obtains
    (error) "pool_alloc (ni_eq_pool ni) = None" "do_PtlEQAlloc_internal ni_in count base ni = ((PTL_NOSPACE, None),
      nal_call (CB_INVALIDATE base (size_t count * sizeof_event) NULL_PTR) ni)"
  | (ok) new p where "pool_alloc (ni_eq_pool ni) = Some (new, p)"
      "do_PtlEQAlloc_internal ni_in count base ni = ((PTL_OK, Some (int new OR h_ni ni_in)),
         ni\<lparr>ni_eq_pool := p, ni_eq := (ni_eq ni)(new :=
           \<lparr>eq_sequence = 1, eq_size = count, eq_base = base, eq_pending = 0\<rparr>)\<rparr>)"
  by (cases "pool_alloc (ni_eq_pool ni)")
    (auto simp: do_PtlEQAlloc_internal_def lib_eq_alloc_def upd_eq_def Let_def)

lemma ni_inv_eq_pool: "ni_inv ni \<Longrightarrow> pool_inv MAX_EQS p \<Longrightarrow> ni_inv (ni\<lparr>ni_eq_pool := p, ni_eq := f\<rparr>)"
  by (simp add: ni_inv_defs)

lemma do_PtlEQAlloc_internal_inv:
  assumes inv: "ni_inv ni" and op: "do_PtlEQAlloc_internal ni_in count base ni = (ret, ni')"
  shows "ni_inv ni'"
proof (cases rule: do_PtlEQAlloc_internal_cases [of ni ni_in count base])
  case error
  with inv op show ?thesis by (auto simp: ni_inv_simps)
next
  case (ok new p)
  have pinv: "pool_inv MAX_EQS (ni_eq_pool ni)" using inv by (simp add: ni_inv_def)
  show ?thesis using op ok(2) ni_inv_eq_pool [OF inv eq_pool.inv_alloc [OF pinv ok(1)]] by auto
qed

lemma lib_eq_unlink_inv: "ni_inv ni \<Longrightarrow> eq < MAX_EQS \<Longrightarrow> ni_inv (lib_eq_unlink eq ni)"
  using eq_pool.inv_free [of "ni_eq_pool ni" eq]
  by (simp add: lib_eq_unlink_def lib_eq_free_def nal_call_def ni_inv_defs Let_def)

lemma do_PtlEQFree_internal_cases:
  obtains
    (fault) "do_PtlEQFree_internal eventq_in ni = None" "h_index eventq_in = int MAX_EQS"
  | (error) "do_PtlEQFree_internal eventq_in ni = Some (PTL_INV_EQ, ni)"
      "nat (h_index eventq_in) \<notin> used_eqs ni"
  | (ok) eq where "eq = nat (h_index eventq_in)" "eq \<in> used_eqs ni"
      "do_PtlEQFree_internal eventq_in ni = Some (PTL_OK, lib_eq_unlink eq ni)"
proof (cases "bad_eq ni (h_index eventq_in)")
  case None
  then show ?thesis
    using bad_index_None [of MAX_EQS "ni_eq_pool ni" "h_index eventq_in"]
    by (intro fault) (simp_all add: do_PtlEQFree_internal_def Let_def)
next
  case (Some b)
  then show ?thesis
    using bad_eq_False [of ni eventq_in]
    by (cases b) (auto intro: ok error simp: do_PtlEQFree_internal_def Let_def)
qed

lemma do_PtlEQFree_internal_inv:
  "ni_inv ni \<Longrightarrow> do_PtlEQFree_internal eventq_in ni = Some (ret, ni') \<Longrightarrow> ni_inv ni'"
  by (cases rule: do_PtlEQFree_internal_cases [of eventq_in ni])
    (auto simp: lib_eq_unlink_inv eq_pool.used_def)

section \<open>Completion keeps the invariant\<close>

text \<open>The event, the write and the acknowledgement change only the queue, the event of the
  message and the trace.\<close>

lemma finalize_event_frame:
  assumes "finalize_event cb msg eq ni = Some (w, ni1)"
  shows "ni_inv ni1 = ni_inv ni" "ni_msg_pool ni1 = ni_msg_pool ni" "ni_md_pool ni1 = ni_md_pool ni"
    "ni_eq_pool ni1 = ni_eq_pool ni" "ni_me_pool ni1 = ni_me_pool ni"
    "ni_md_links ni1 = ni_md_links ni" "ni_me_links ni1 = ni_me_links ni"
    "ni_md ni1 = ni_md ni" "ni_me ni1 = ni_me ni"
    "msg_md (ni_msg ni1 k) = msg_md (ni_msg ni k)" "eq_size (ni_eq ni1 e) = eq_size (ni_eq ni e)"
    "ni_up ni1 = ni_up ni" "ni_tbl_size ni1 = ni_tbl_size ni"
proof -
  note defs = finalize_event_def Let_def
  show "ni_inv ni1 = ni_inv ni"
    using assms unfolding defs by (auto simp: ni_inv_simps split: if_splits)
qed (use assms in \<open>auto simp: finalize_event_def Let_def ni_upd_defs split: if_splits\<close>)

lemma finalize_event_written:
  assumes "finalize_event cb msg eq ni = Some (w, ni1)" "\<not> w"
  shows "\<exists>t a e. cb_write cb t a e \<noteq> 0"
  using assms by (auto simp: finalize_event_def Let_def split: if_splits)

lemma finalize_ack_frame:
  assumes "finalize_ack cb msg ni = (rc, ni1)"
  shows "\<exists>cs. ni1 = ni\<lparr>ni_trace := cs\<rparr>"
proof (cases "msg_return_md (ni_msg ni msg) \<ge> 0")
  case True
  with assms show ?thesis by (auto simp: finalize_ack_def nal_call_def Let_def)
next
  case False
  then have "ni1 = ni\<lparr>ni_trace := ni_trace ni\<rparr>" using assms by (simp add: finalize_ack_def)
  then show ?thesis ..
qed

lemma finalize_md_spec:
  assumes inv: "ni_inv ni" and md: "md < MAX_MDS"
    and use: "md \<in> used_mds ni \<or> idle (ni_md_links ni) md \<and> md_me (ni_md ni md) = None"
  obtains ni' where "finalize_md md ni = Some ni'" "ni_inv ni'" "ni_msg_pool ni' = ni_msg_pool ni"
    "ni_up ni' = ni_up ni"
proof -
  define ni1 where "ni1 = upd_md md (\<lambda>m. m\<lparr>md_pending := s32 (md_pending m - 1)\<rparr>) ni"
  have inv1: "ni_inv ni1" using inv by (simp add: ni1_def ni_inv_simps)
  have sel: "used_mds ni1 = used_mds ni" "used_mes ni1 = used_mes ni" "ni_md_links ni1 = ni_md_links ni"
      "md_me (ni_md ni1 m) = md_me (ni_md ni m)" "ni_msg_pool ni1 = ni_msg_pool ni" "ni_up ni1 = ni_up ni" for m
    by (simp_all add: ni1_def upd_md_def)
  show thesis
  proof (cases "md_pending (ni_md ni1 md) = 0 \<and> md_do_unlink (ni_md ni1 md)")
    case False
    then have "finalize_md md ni = Some ni1"
      by (auto simp: finalize_md_def Let_def ni1_def [symmetric])
    with inv1 sel show ?thesis by (intro that)
  next
    case True
    let ?ni2 = "lib_md_unlink md ni1"
    have inv2: "ni_inv ?ni2" using use by (intro lib_md_unlink_inv [OF inv1 md]) (auto simp: sel)
    have fin: "finalize_md md ni = (case md_me (ni_md ni md) of None \<Rightarrow> Some ?ni2
        | Some me \<Rightarrow> if heads (ni_md_links ?ni2) me = None \<and> me_unlink (ni_me ?ni2 me) = PTL_UNLINK
            then lib_me_unlink me ?ni2 else Some ?ni2)"
      using True sel(4) [of md] by (simp add: finalize_md_def Let_def ni1_def [symmetric])
    show ?thesis
    proof (cases "md_me (ni_md ni md)")
      case None
      with fin inv2 sel show ?thesis by (intro that [of ?ni2]) simp_all
    next
      case (Some me)
      then have "md \<in> used_mds ni" using use by auto
      with inv Some have me: "me \<in> used_mes ?ni2"
        using owner_in_heads [of "used_mds ni" "used_mes ni" "ni_md_links ni" "\<lambda>m. md_me (ni_md ni m)" md me]
        by (simp add: ni_inv_def sel)
      from lib_me_unlink_total [OF inv2 me] obtain ni' where
        "lib_me_unlink me ?ni2 = Some ni'" "ni_inv ni'" "ni_msg_pool ni' = ni_msg_pool ?ni2"
        "ni_up ni' = ni_up ?ni2" by metis
      then show ?thesis
        using fin Some inv2 sel(5,6)
        by (cases "heads (ni_md_links ?ni2) me = None \<and> me_unlink (ni_me ?ni2 me) = PTL_UNLINK")
          (auto intro: that)
    qed
  qed
qed

text \<open>
  A message is completed: the write may fault only for a queue of size zero, and a failed
  write leaves the message in use.
\<close>

lemma lib_finalize_inv:
  assumes inv: "ni_inv ni" and k: "k \<in> used_msgs ni" and op: "lib_finalize cb (Some k) ni = Some (rc, ni')"
  shows "ni_inv ni'"
proof (cases "ni_up ni")
  case False
  with op inv show ?thesis by (simp add: lib_finalize_def)
next
  case True
  with op obtain md where md: "msg_md (ni_msg ni k) = Some md"
    by (auto simp: lib_finalize_def bind_eq_Some_iff)
  then have use: "md < MAX_MDS" "md \<in> used_mds ni \<or> idle (ni_md_links ni) md \<and> md_me (ni_md ni md) = None"
    using inv k by (auto simp: ni_inv_def msgs_ok_idle)
  from op True md obtain w ni1 where ev: "(case md_eq (ni_md ni md) of None \<Rightarrow> Some (True, ni)
      | Some eq \<Rightarrow> finalize_event cb k eq ni) = Some (w, ni1)"
    and rest: "(if \<not> w then Some (-1, ni1) else do {
               let (rc, ni2) = finalize_ack cb k ni1;
               ni3 \<leftarrow> finalize_md md ni2;
               Some (rc, lib_msg_free k ni3)}) = Some (rc, ni')"
    by (auto simp: lib_finalize_def bind_eq_Some_iff)
  have ni1: "ni_inv ni1" "used_msgs ni1 = used_msgs ni" "used_mds ni1 = used_mds ni"
      "ni_md_links ni1 = ni_md_links ni" "ni_md ni1 = ni_md ni"
    using ev inv by (auto simp: finalize_event_frame split: option.splits)
  show ?thesis
  proof (cases w)
    case False
    with rest ni1 show ?thesis by simp
  next
    case True
    obtain rc2 ni2 where ack: "finalize_ack cb k ni1 = (rc2, ni2)" by (cases "finalize_ack cb k ni1")
    then obtain cs where ni2: "ni2 = ni1\<lparr>ni_trace := cs\<rparr>" using finalize_ack_frame by blast
    have "ni_inv ni2" using ni1 by (simp add: ni2 ni_inv_trace)
    then obtain ni3 where ni3: "finalize_md md ni2 = Some ni3" "ni_inv ni3" "ni_msg_pool ni3 = ni_msg_pool ni2"
      using use ni1 by (elim finalize_md_spec [of ni2 md]) (simp_all add: ni2)
    have "ni' = lib_msg_free k ni3" using rest True ack ni3(1) by simp
    with ni3 k ni1(2) show ?thesis by (simp add: lib_msg_free_inv ni2)
  qed
qed

end
