(* ===== verification/P30_NI.thy ===== *)
theory P30_NI
  imports P30_EQ
begin

text \<open>
  Identification, status and distance of an interface (\<open>lib-p30/pid.c\<close>,
  \<open>ni.c\<close>, \<open>not-impl.c\<close>).  None of these operations changes an object of the
  interface; only \<open>do_PtlNIDebug\<close> changes its state.
\<close>

section \<open>Process ids\<close>

definition my_id :: "lib_ni \<Rightarrow> ptl_process_id" where
  "my_id ni = \<lparr>addr_kind = PTL_ADDR_BOTH, id_nid = ni_nid ni, id_pid = ni_pid ni,
     id_gid = ni_gid ni, id_rid = ni_rid ni\<rparr>"

definition do_PtlGetId :: "lib_ni \<Rightarrow> int \<times> ptl_process_id \<times> int" where
  "do_PtlGetId ni = (PTL_OK, my_id ni, ni_num_nodes ni)"

text \<open>
  The callbacks return their code and the two ids as they stand after the call.
\<close>

definition lib_trans_id :: "nal_cb \<Rightarrow> ptl_process_id \<Rightarrow> lib_ni \<Rightarrow> int \<times> ptl_process_id" where
  "lib_trans_id cb id_in ni =
     (if addr_kind id_in = PTL_ADDR_BOTH then (PTL_OK, id_in\<lparr>addr_kind := PTL_ADDR_BOTH\<rparr>)
      else if (addr_kind id_in = PTL_ADDR_NID \<and> id_nid id_in = ni_nid ni \<and> id_pid id_in = ni_pid ni) \<or>
              (addr_kind id_in = PTL_ADDR_GID \<and> id_gid id_in = ni_gid ni \<and> id_rid id_in = ni_rid ni)
      then (PTL_OK, my_id ni)
      else if addr_kind id_in = PTL_ADDR_GID then
        (let (rc, nid, pid) = cb_gidrid2nidpid cb (id_gid id_in) (id_rid id_in);
             id_out = \<lparr>addr_kind = PTL_ADDR_BOTH, id_nid = nid, id_pid = pid,
                       id_gid = id_gid id_in, id_rid = id_rid id_in\<rparr>
         in if rc \<noteq> 0 then (PTL_ADDR_UNKNOWN, id_out) else (PTL_OK, id_out))
      else
        (let (rc, gid, rid) = cb_nidpid2gidrid cb (id_nid id_in) (id_pid id_in);
             id_out = \<lparr>addr_kind = PTL_ADDR_BOTH, id_nid = id_nid id_in, id_pid = id_pid id_in,
                       id_gid = gid, id_rid = rid\<rparr>
         in if rc \<noteq> 0 then (PTL_ADDR_UNKNOWN, id_out) else (PTL_OK, id_out)))"

definition do_PtlTransId :: "nal_cb \<Rightarrow> ptl_process_id \<Rightarrow> lib_ni \<Rightarrow> int \<times> ptl_process_id" where
  "do_PtlTransId cb id_in ni = lib_trans_id cb id_in ni"

section \<open>Status\<close>

text \<open>The return code of \<open>do_PtlNIDebug\<close> is the old mask, as a signed number.\<close>

definition do_PtlNIDebug :: "32 word \<Rightarrow> lib_ni \<Rightarrow> int \<times> lib_ni" where
  "do_PtlNIDebug mask_in ni = (sint (ni_debug ni), ni\<lparr>ni_debug := mask_in\<rparr>)"

text \<open>
  The counters are \<open>long\<close>, the status is an \<open>int\<close>.  Without an argument block only
  the code is written.
\<close>

definition do_PtlNIStatus :: "ptl_sr_index option \<Rightarrow> lib_ni \<Rightarrow> int \<times> int option" where
  "do_PtlNIStatus args ni =
     (case args of
        None \<Rightarrow> (PTL_SEGV, None)
      | Some register_in \<Rightarrow>
          (let count = ni_counters ni
           in case register_in of
                PTL_SR_DROP_COUNT \<Rightarrow> (PTL_OK, Some (s32 (drop_count count)))
              | PTL_SR_DROP_LENGTH \<Rightarrow> (PTL_OK, Some (s32 (drop_length count)))
              | PTL_SR_RECV_COUNT \<Rightarrow> (PTL_OK, Some (s32 (recv_count count)))
              | PTL_SR_RECV_LENGTH \<Rightarrow> (PTL_OK, Some (s32 (recv_length count)))
              | PTL_SR_SEND_COUNT \<Rightarrow> (PTL_OK, Some (s32 (send_count count)))
              | PTL_SR_SEND_LENGTH \<Rightarrow> (PTL_OK, Some (s32 (send_length count)))
              | PTL_SR_MSGS_MAX \<Rightarrow> (PTL_OK, Some (s32 (msgs_max count)))
              | PTL_SR_OTHER _ \<Rightarrow> (PTL_INV_SR_INDX, Some 0)))"

definition MAX_DIST :: "64 word" where [ptl_const]: "MAX_DIST = 18446744073709551615"

text \<open>
  \<open>do_PtlNIDist\<close> writes the code of its return block only when it succeeds.
\<close>

definition do_PtlNIDist :: "nal_cb \<Rightarrow> ptl_process_id \<Rightarrow> lib_ni \<Rightarrow> int option \<times> 64 word" where
  "do_PtlNIDist cb id_in ni =
     (let (rc, new_id) = lib_trans_id cb id_in ni
      in if addr_kind id_in = PTL_ADDR_GID \<and> rc \<noteq> PTL_OK then (None, MAX_DIST)
         else
           (let nid = (if addr_kind id_in = PTL_ADDR_GID then id_nid new_id else id_nid id_in);
                (rc, dist) = cb_dist cb nid
            in if rc \<noteq> 0 then (None, MAX_DIST) else (Some PTL_OK, dist)))"

section \<open>Access control\<close>

definition do_PtlACEntry :: "(int \<times> int \<times> ptl_process_id \<times> int) option \<Rightarrow> int" where
  "do_PtlACEntry args = (case args of None \<Rightarrow> PTL_SEGV | Some _ \<Rightarrow> PTL_NOT_IMPLEMENTED)"

section \<open>Lemmas\<close>

text \<open>
  A translated id always has both addresses, and one address of the id that was
  translated.
\<close>

lemma lib_trans_id_kind: "addr_kind (snd (lib_trans_id cb id_in ni)) = PTL_ADDR_BOTH"
  by (simp add: lib_trans_id_def my_id_def Let_def split: prod.split)

lemma lib_trans_id_keeps:
  "addr_kind id_in \<noteq> PTL_ADDR_GID \<Longrightarrow> id_nid (snd (lib_trans_id cb id_in ni)) = id_nid id_in \<and>
     id_pid (snd (lib_trans_id cb id_in ni)) = id_pid id_in"
  "addr_kind id_in \<noteq> PTL_ADDR_NID \<Longrightarrow> id_gid (snd (lib_trans_id cb id_in ni)) = id_gid id_in \<and>
     id_rid (snd (lib_trans_id cb id_in ni)) = id_rid id_in"
  by (cases "addr_kind id_in"; auto simp: lib_trans_id_def my_id_def Let_def split: prod.split)+

lemma lib_trans_id_idem:
  assumes "lib_trans_id cb id_in ni = (PTL_OK, i)"
  shows "lib_trans_id cb i ni = (PTL_OK, i)"
proof -
  have "addr_kind i = PTL_ADDR_BOTH" using lib_trans_id_kind [of cb id_in ni] assms by simp
  then show ?thesis by (cases i) (simp add: lib_trans_id_def)
qed

end
