(* ===== verification/P30_Move.thy ===== *)
theory P30_Move
  imports P30_NI
begin

text \<open>
  Data movement (\<open>lib-p30/move.c\<close>): the search of the match list, the delivery of
  incoming messages, and the requests \<open>PtlPut\<close> and \<open>PtlGet\<close>.
\<close>

section \<open>Matching\<close>

text \<open>
  The tests of the loop over the match list (\<open>move.c:104-152\<close>): the source against the
  entry's match id, then the match bits under the entry's mask.
\<close>

definition id_matches :: "hdr_src \<Rightarrow> ptl_process_id \<Rightarrow> bool" where
  "id_matches src mid \<longleftrightarrow>
     \<not> ((addr_kind mid = PTL_ADDR_GID \<or> addr_kind mid = PTL_ADDR_BOTH) \<and>
         ((src_gid src \<noteq> id_gid mid \<and> id_gid mid \<noteq> PTL_ID_ANY) \<or>
          (src_rid src \<noteq> id_rid mid \<and> id_rid mid \<noteq> PTL_ID_ANY))) \<and>
     \<not> ((addr_kind mid = PTL_ADDR_NID \<or> addr_kind mid = PTL_ADDR_BOTH) \<and>
         ((src_nid src \<noteq> id_nid mid \<and> id_nid mid \<noteq> PTL_ID_ANY) \<or>
          (src_pid src \<noteq> id_pid mid \<and> id_pid mid \<noteq> PTL_ID_ANY)))"

definition me_matches :: "hdr_src \<Rightarrow> 64 word \<Rightarrow> lib_me \<Rightarrow> bool" where
  "me_matches src match_bits me \<longleftrightarrow>
     id_matches src (me_match_id me) \<and>
     me_match_bits me AND NOT (me_ignore_bits me) = match_bits AND NOT (me_ignore_bits me)"

text \<open>
  The body of the loop over the descriptors (\<open>move.c:172-236\<close>): the descriptor takes the
  message (\<open>break\<close>, with a length and an offset), the search goes on with the next entry
  (\<open>goto next_me\<close>), or with the next descriptor (\<open>continue\<close>).
\<close>

datatype md_verdict = MD_TAKE int int | MD_NEXT_ME | MD_CONTINUE

definition md_try :: "find_type \<Rightarrow> int \<Rightarrow> int \<Rightarrow> bool \<Rightarrow> lib_md \<Rightarrow> md_verdict" where
  "md_try type rlength roffset inuse md =
     (if type = PTL_MSG_PUT \<and> \<not> has_option (md_options md) PTL_MD_OP_PUT then MD_NEXT_ME
      else if type = PTL_MSG_GET \<and> \<not> has_option (md_options md) PTL_MD_OP_GET then MD_NEXT_ME
      else if md_threshold md = 0 then MD_NEXT_ME
      else if \<not> inuse then MD_CONTINUE
      else if \<not> has_option (md_options md) PTL_MD_MANAGE_REMOTE \<and> md_offset md > md_max_offset md
      then MD_NEXT_ME
      else
        (let offset = (if has_option (md_options md) PTL_MD_MANAGE_REMOTE then roffset else md_offset md)
         in if has_option (md_options md) PTL_MD_TRUNCATE \<and> offset \<le> md_length md
            then MD_TAKE (min (s32 (md_length md - offset)) rlength) offset
            else if s32 (offset + rlength) \<le> md_length md then MD_TAKE rlength offset
            else MD_NEXT_ME))"

text \<open>The loop over the descriptors of an entry; \<open>None\<close> inside is \<open>goto next_me\<close>.\<close>

partial_function (option) md_search ::
  "find_type \<Rightarrow> int \<Rightarrow> int \<Rightarrow> lib_ni \<Rightarrow> nat option \<Rightarrow> (nat \<times> int \<times> int) option option" where
  "md_search type rlength roffset ni p =
     (case p of
        None \<Rightarrow> Some None
      | Some md \<Rightarrow>
          (case md_try type rlength roffset (pool_inuse (ni_md_pool ni) md) (ni_md ni md) of
             MD_TAKE mlength offset \<Rightarrow> Some (Some (md, mlength, offset))
           | MD_NEXT_ME \<Rightarrow> Some None
           | MD_CONTINUE \<Rightarrow> md_search type rlength roffset ni (nxt (ni_md_links ni) md)))"

text \<open>The loop over the match list, which the label \<open>next_me\<close> re-enters.\<close>

partial_function (option) me_search ::
  "hdr_src \<Rightarrow> find_type \<Rightarrow> int \<Rightarrow> int \<Rightarrow> 64 word \<Rightarrow> lib_ni \<Rightarrow> nat option \<Rightarrow>
     (nat \<times> int \<times> int) option option" where
  "me_search src type rlength roffset match_bits ni p =
     (case p of
        None \<Rightarrow> Some None
      | Some me \<Rightarrow>
          (if \<not> pool_inuse (ni_me_pool ni) me \<or> \<not> me_matches src match_bits (ni_me ni me)
           then me_search src type rlength roffset match_bits ni (nxt (ni_me_links ni) me)
           else Option.bind (md_search type rlength roffset ni (heads (ni_md_links ni) me))
             (\<lambda>r. case r of
                None \<Rightarrow> me_search src type rlength roffset match_bits ni (nxt (ni_me_links ni) me)
              | Some found \<Rightarrow> Some (Some found))))"

definition lib_find_md ::
  "hdr_src \<Rightarrow> int \<Rightarrow> find_type \<Rightarrow> int \<Rightarrow> int \<Rightarrow> 64 word \<Rightarrow> lib_ni \<Rightarrow>
     ((nat \<times> int \<times> int) option \<times> lib_ni) option" where
  "lib_find_md src index type rlength roffset match_bits ni =
     (if index < 0 \<or> index > ni_tbl_size ni then Some (None, ni)
      else if index \<ge> ni_tbl_size ni then None
      else do {
        r \<leftarrow> me_search src type rlength roffset match_bits ni (heads (ni_me_links ni) (nat index));
        Some (case r of
          None \<Rightarrow> (None, ni)
        | Some (md, mlength, offset) \<Rightarrow>
            (Some (md, mlength, offset), upd_md md (\<lambda>m. m\<lparr>md_offset := s32 (md_offset m + mlength)\<rparr>) ni))
      })"

section \<open>What every operation does to a descriptor and its queue\<close>

text \<open>
  Decrement the threshold, decide on unlinking (\<open>move.c:355-367\<close> and the four places like
  it; only the passive operations look at the offset), and hold the descriptor.
\<close>

definition md_consume :: "bool \<Rightarrow> lib_md \<Rightarrow> lib_md" where
  "md_consume check_offset md =
     (let md1 = md\<lparr>md_threshold := (if md_threshold md = PTL_MD_THRESH_INF then md_threshold md
                                   else s32 (md_threshold md - 1))\<rparr>
      in if md_unlink md1 = PTL_UNLINK \<and>
            (md_threshold md1 = 0 \<or>
             check_offset \<and> \<not> has_option (md_options md1) PTL_MD_MANAGE_REMOTE \<and>
               md_offset md1 > md_max_offset md1)
         then md1\<lparr>md_do_unlink := True\<rparr> else md1)"

definition hold_md :: "bool \<Rightarrow> nat \<Rightarrow> nat \<Rightarrow> lib_ni \<Rightarrow> lib_ni" where
  "hold_md check_offset md msg ni =
     (let ni1 = upd_md md (md_consume check_offset) ni;
          ni2 = upd_msg msg (\<lambda>m. m\<lparr>msg_md := Some md\<rparr>) ni1
      in upd_md md (\<lambda>m. m\<lparr>md_pending := s32 (md_pending m + 1)\<rparr>) ni2)"

text \<open>
  When the descriptor has an event queue: count the pending event and fill in the event of
  the message, with the descriptor as it is at this point.
\<close>

definition fill_event :: "nat \<Rightarrow> nat \<Rightarrow> (lib_msg \<Rightarrow> lib_msg) \<Rightarrow> lib_ni \<Rightarrow> lib_ni" where
  "fill_event md msg f ni =
     (case md_eq (ni_md ni md) of
        None \<Rightarrow> ni
      | Some eq \<Rightarrow>
          (let ni1 = upd_eq eq (\<lambda>q. q\<lparr>eq_pending := s32 (eq_pending q + 1)\<rparr>) ni;
               d = lib_md_deconstruct md ni1
           in upd_msg msg (\<lambda>m. (f m)\<lparr>msg_ev := (msg_ev (f m))\<lparr>ev_md := d\<rparr>\<rparr>) ni1))"

definition initiator :: "hdr_src \<Rightarrow> ptl_process_id" where
  "initiator src = \<lparr>addr_kind = PTL_ADDR_BOTH, id_nid = src_nid src, id_pid = src_pid src,
     id_gid = src_gid src, id_rid = src_rid src\<rparr>"

definition my_src :: "lib_ni \<Rightarrow> hdr_src" where
  "my_src ni = \<lparr>src_nid = ni_nid ni, src_pid = ni_pid ni, src_gid = ni_gid ni, src_rid = ni_rid ni\<rparr>"

definition count_drop :: "int \<Rightarrow> lib_ni \<Rightarrow> lib_ni" where
  "count_drop len = upd_counters (\<lambda>c. c\<lparr>drop_count := s64 (drop_count c + 1),
     drop_length := s64 (drop_length c + len)\<rparr>)"

definition count_recv :: "int \<Rightarrow> lib_ni \<Rightarrow> lib_ni" where
  "count_recv len = upd_counters (\<lambda>c. c\<lparr>recv_count := s64 (recv_count c + 1),
     recv_length := s64 (recv_length c + len)\<rparr>)"

definition count_send :: "int \<Rightarrow> lib_ni \<Rightarrow> lib_ni" where
  "count_send len = upd_counters (\<lambda>c. c\<lparr>send_count := s64 (send_count c + 1),
     send_length := s64 (send_length c + len)\<rparr>)"

section \<open>Incoming messages\<close>

definition parse_put :: "ptl_hdr \<Rightarrow> put_msg \<Rightarrow> lib_ni \<Rightarrow> (int \<times> lib_ni) option" where
  "parse_put hdr put ni =
     do {
       let src = hdr_src hdr;
       let rlength = put_length put;
       (r, ni1) \<leftarrow> lib_find_md src (put_ptl_index put) PTL_MSG_PUT rlength (put_offset put)
                     (put_match_bits put) ni;
       Some (case r of
         None \<Rightarrow> (-1, nal_call (CB_RECV None NULL_PTR 0 (size_t rlength)) (count_drop rlength ni1))
       | Some (md, mlength, offset) \<Rightarrow>
           (case lib_msg_alloc ni1 of
              None \<Rightarrow> (1, ni1)
            | Some (msg, ni2) \<Rightarrow>
                (let ni3 = (if put_ack_md put \<ge> 0 \<and> \<not> has_option (md_options (ni_md ni2 md)) PTL_MD_ACK_DISABLE
                       then upd_msg msg (\<lambda>m. m\<lparr>msg_nid := src_nid src, msg_pid := src_pid src,
                              msg_gid := src_gid src, msg_rid := src_rid src,
                              msg_return_md := put_ack_md put,
                              msg_ev := (msg_ev m)\<lparr>ev_match_bits := put_match_bits put\<rparr>\<rparr>) ni2
                       else ni2);
                     ni4 = fill_event md msg (\<lambda>m. m\<lparr>msg_ev := (msg_ev m)
                             \<lparr>ev_type := PTL_EVENT_PUT, ev_initiator := initiator src,
                              ev_portal := put_ptl_index put, ev_match_bits := put_match_bits put,
                              ev_rlength := rlength, ev_mlength := mlength, ev_offset := offset,
                              ev_hdr_data := put_hdr_data put\<rparr>\<rparr>) ni3;
                     ni5 = count_recv mlength ni4;
                     ni6 = hold_md True md msg ni5
                 in (0, nal_call (CB_RECV (Some msg) (md_start (ni_md ni6 md) + of_int offset)
                          (size_t mlength) (size_t rlength)) ni6))))
     }"

definition parse_get :: "nal_cb \<Rightarrow> ptl_hdr \<Rightarrow> get_msg \<Rightarrow> lib_ni \<Rightarrow> (int \<times> lib_ni) option" where
  "parse_get cb hdr get ni =
     do {
       let src = hdr_src hdr;
       let rlength = get_length get;
       let ni0 = nal_call (CB_RECV None NULL_PTR 0 0) ni;
       (r, ni1) \<leftarrow> lib_find_md src (get_ptl_index get) PTL_MSG_GET rlength (get_src_offset get)
                     (get_match_bits get) ni0;
       Some (case r of
         None \<Rightarrow> (-1, count_drop rlength ni1)
       | Some (md, mlength, offset) \<Rightarrow>
           (let out = \<lparr>hdr_nid = src_nid src, hdr_pid = src_pid src, hdr_src = my_src ni1,
                  hdr_msg = MSG_REPLY \<lparr>reply_dst_md = get_return_md get,
                    reply_dst_offset = get_return_offset get, reply_length = mlength\<rparr>\<rparr>
            in case lib_msg_alloc ni1 of
              None \<Rightarrow> (1, ni1)
            | Some (msg, ni2) \<Rightarrow>
                (let ni3 = fill_event md msg (\<lambda>m. m\<lparr>msg_return_md := -1, msg_ev := (msg_ev m)
                             \<lparr>ev_type := PTL_EVENT_GET, ev_initiator := initiator src,
                              ev_portal := get_ptl_index get, ev_match_bits := get_match_bits get,
                              ev_rlength := rlength, ev_mlength := mlength, ev_offset := offset,
                              ev_hdr_data := 0\<rparr>\<rparr>) ni2;
                     ni4 = count_send mlength ni3;
                     ni5 = hold_md True md msg ni4;
                     data = md_start (ni_md ni5 md) + of_int offset
                 in (cb_send cb (ni_trace ni5) (Some msg) out data (size_t mlength),
                     nal_call (CB_SEND (Some msg) out (src_nid src) (src_pid src) (src_gid src)
                       (src_rid src) data (size_t mlength)) ni5))))
     }"

definition fail_reply :: "reply_msg \<Rightarrow> lib_ni \<Rightarrow> int \<times> lib_ni" where
  "fail_reply reply ni =
     (-1, nal_call (CB_RECV None NULL_PTR 0 (size_t (reply_length reply)))
            (count_drop (reply_length reply) ni))"

definition parse_reply :: "ptl_hdr \<Rightarrow> reply_msg \<Rightarrow> lib_ni \<Rightarrow> (int \<times> lib_ni) option" where
  "parse_reply hdr reply ni =
     do {
       let src = hdr_src hdr;
       let current = h_index (reply_dst_md reply);
       let md = nat current;
       bad \<leftarrow> bad_md ni current;
       Some (if bad \<or> md_threshold (ni_md ni md) = 0 then fail_reply reply ni
        else
          (let d = ni_md ni md;
               rlength = reply_length reply;
               offset = (if has_option (md_options d) PTL_MD_MANAGE_REMOTE
                         then reply_dst_offset reply else md_offset d)
           in if s32 (rlength + offset) > md_length d \<and> \<not> has_option (md_options d) PTL_MD_TRUNCATE
              then fail_reply reply ni
              else
                (let mlength = min rlength (s32 (md_length d - offset))
                 in case lib_msg_alloc ni of
                      None \<Rightarrow> (1, ni)
                    | Some (msg, ni1) \<Rightarrow>
                        (let ni2 = fill_event md msg (\<lambda>m. m\<lparr>msg_return_md := -1, msg_ev := (msg_ev m)
                                     \<lparr>ev_type := PTL_EVENT_REPLY, ev_initiator := initiator src,
                                      ev_rlength := rlength, ev_mlength := mlength,
                                      ev_offset := offset\<rparr>\<rparr>) ni1;
                             ni3 = count_recv mlength ni2;
                             ni4 = hold_md False md msg ni3
                         in (0, nal_call (CB_RECV (Some msg) (md_start (ni_md ni4 md) + of_int offset)
                                  (size_t mlength) (size_t rlength)) ni4)))))
     }"

definition parse_ack :: "ptl_hdr \<Rightarrow> ack_msg \<Rightarrow> lib_ni \<Rightarrow> (int \<times> lib_ni) option" where
  "parse_ack hdr ack ni =
     do {
       let src = hdr_src hdr;
       let current = h_index (ack_dst_md ack);
       let md = nat current;
       bad \<leftarrow> bad_md ni current;
       Some (if bad \<or> md_threshold (ni_md ni md) = 0
        then (-1, nal_call (CB_RECV None NULL_PTR 0 0) ni)
        else case lib_msg_alloc ni of
          None \<Rightarrow> (1, ni)
        | Some (msg, ni1) \<Rightarrow>
            (let ni2 = fill_event md msg (\<lambda>m. m\<lparr>msg_return_md := -1, msg_ev := (msg_ev m)
                         \<lparr>ev_type := PTL_EVENT_ACK, ev_initiator := initiator src,
                          ev_mlength := ack_mlength ack, ev_match_bits := ack_match_bits ack\<rparr>\<rparr>) ni1;
                 ni3 = hold_md False md msg ni2;
                 ni4 = upd_counters (\<lambda>c. c\<lparr>recv_count := s64 (recv_count c + 1)\<rparr>) ni3
             in (0, nal_call (CB_RECV (Some msg) NULL_PTR 0 0) ni4)))
     }"

definition lib_parse :: "nal_cb \<Rightarrow> ptl_hdr \<Rightarrow> lib_ni \<Rightarrow> (int \<times> lib_ni) option" where
  "lib_parse cb hdr ni =
     (case hdr_msg hdr of
        MSG_ACK ack \<Rightarrow> parse_ack hdr ack ni
      | MSG_PUT put \<Rightarrow> parse_put hdr put ni
      | MSG_GET get \<Rightarrow> parse_get cb hdr get ni
      | MSG_REPLY reply \<Rightarrow> parse_reply hdr reply ni
      | _ \<Rightarrow> Some (-1, nal_call (CB_RECV None NULL_PTR 0 0) ni))"

section \<open>Outgoing requests\<close>

definition do_PtlPut ::
  "nal_cb \<Rightarrow> int \<Rightarrow> ptl_ack_req \<Rightarrow> ptl_process_id \<Rightarrow> int \<Rightarrow> 64 word \<Rightarrow> int \<Rightarrow> 64 word \<Rightarrow> lib_ni \<Rightarrow>
     (int \<times> lib_ni) option" where
  "do_PtlPut cb md_in ack_req_in target_in portal_in match_bits_in offset_in hdr_data_in ni =
     do {
       let current = h_index md_in;
       let md = nat current;
       bad \<leftarrow> bad_md ni current;
       Some (if bad \<or> md_threshold (ni_md ni md) = 0 then (PTL_INV_MD, ni)
        else
          (let (rc, id_out) = lib_trans_id cb target_in ni;
               len = md_length (ni_md ni md)
           in if rc \<noteq> PTL_OK then (PTL_INV_PROC, ni)
              else
                (let hdr = \<lparr>hdr_nid = id_nid id_out, hdr_pid = id_pid id_out, hdr_src = my_src ni,
                       hdr_msg = MSG_PUT \<lparr>put_ptl_index = portal_in,
                         put_ack_md = (if ack_req_in = PTL_ACK_REQ then current else -1),
                         put_match_bits = match_bits_in, put_length = len,
                         put_offset = offset_in, put_hdr_data = hdr_data_in\<rparr>\<rparr>;
                     ni1 = count_send len ni
                 in case lib_msg_alloc ni1 of
                      None \<Rightarrow> (PTL_FAIL, ni1)
                    | Some (msg, ni2) \<Rightarrow>
                        (let ni3 = fill_event md msg (\<lambda>m. m\<lparr>msg_return_md := -1, msg_ev := (msg_ev m)
                                     \<lparr>ev_type := PTL_EVENT_SENT, ev_initiator := initiator (my_src ni2),
                                      ev_portal := portal_in, ev_match_bits := match_bits_in,
                                      ev_rlength := len, ev_mlength := len, ev_offset := offset_in,
                                      ev_hdr_data := hdr_data_in\<rparr>\<rparr>) ni2;
                             ni4 = hold_md False md msg ni3;
                             data = md_start (ni_md ni4 md);
                             n = size_t (md_length (ni_md ni4 md))
                         in (cb_send cb (ni_trace ni4) (Some msg) hdr data n,
                             nal_call (CB_SEND (Some msg) hdr (id_nid id_out) (id_pid id_out)
                               (id_gid id_out) (id_rid id_out) data n) ni4)))))
     }"

definition do_PtlGet ::
  "nal_cb \<Rightarrow> int \<Rightarrow> ptl_process_id \<Rightarrow> int \<Rightarrow> 64 word \<Rightarrow> int \<Rightarrow> lib_ni \<Rightarrow> (int \<times> lib_ni) option" where
  "do_PtlGet cb md_in target_in portal_in match_bits_in offset_in ni =
     do {
       let current = h_index md_in;
       let md = nat current;
       bad \<leftarrow> bad_md ni current;
       Some (if bad \<or> md_threshold (ni_md ni md) = 0 then (PTL_INV_MD, ni)
        else
          (let (rc, id_out) = lib_trans_id cb target_in ni;
               len = md_length (ni_md ni md)
           in if rc \<noteq> PTL_OK then (PTL_INV_PROC, ni)
              else
                (let hdr = \<lparr>hdr_nid = id_nid id_out, hdr_pid = id_pid id_out, hdr_src = my_src ni,
                       hdr_msg = MSG_GET \<lparr>get_ptl_index = portal_in, get_match_bits = match_bits_in,
                         get_length = len, get_src_offset = offset_in,
                         get_return_offset = md_offset (ni_md ni md), get_return_md = int md\<rparr>\<rparr>;
                     ni1 = upd_counters (\<lambda>c. c\<lparr>send_count := s64 (send_count c + 1)\<rparr>) ni
                 in case lib_msg_alloc ni1 of
                      None \<Rightarrow> (PTL_FAIL, ni1)
                    | Some (msg, ni2) \<Rightarrow>
                        (let ni3 = fill_event md msg (\<lambda>m. m\<lparr>msg_return_md := -1, msg_ev := (msg_ev m)
                                     \<lparr>ev_type := PTL_EVENT_SENT, ev_initiator := initiator (my_src ni2),
                                      ev_portal := portal_in, ev_match_bits := match_bits_in,
                                      ev_rlength := len, ev_mlength := len, ev_offset := offset_in,
                                      ev_hdr_data := 0\<rparr>\<rparr>) ni2;
                             ni4 = hold_md False md msg ni3
                         in (cb_send cb (ni_trace ni4) (Some msg) hdr NULL_PTR 0,
                             nal_call (CB_SEND (Some msg) hdr (id_nid id_out) (id_pid id_out)
                               (id_gid id_out) (id_rid id_out) NULL_PTR 0) ni4)))))
     }"

section \<open>The search of the match list\<close>

text \<open>What an entry of the match list gives: its first descriptor, if it takes the message.\<close>

definition me_offer ::
  "hdr_src \<Rightarrow> find_type \<Rightarrow> int \<Rightarrow> int \<Rightarrow> 64 word \<Rightarrow> lib_ni \<Rightarrow> nat \<Rightarrow> (nat \<times> int \<times> int) option" where
  "me_offer src type rlength roffset match_bits ni me =
     (if me_matches src match_bits (ni_me ni me) then
        (case heads (ni_md_links ni) me of
           None \<Rightarrow> None
         | Some md \<Rightarrow>
             (case md_try type rlength roffset True (ni_md ni md) of
                MD_TAKE mlength offset \<Rightarrow> Some (md, mlength, offset) | _ \<Rightarrow> None))
      else None)"

fun first_offer :: "('a \<Rightarrow> 'b option) \<Rightarrow> 'a list \<Rightarrow> 'b option" where
  "first_offer f [] = None"
| "first_offer f (x # xs) = (case f x of None \<Rightarrow> first_offer f xs | Some y \<Rightarrow> Some y)"

lemma first_offer_Some:
  "first_offer f xs = Some y \<longleftrightarrow> (\<exists>as x bs. xs = as @ x # bs \<and> f x = Some y \<and> (\<forall>a\<in>set as. f a = None))"
proof (induction xs)
  case (Cons x xs)
  show ?case
  proof (cases "f x")
    case None
    have "(\<exists>as z bs. x # xs = as @ z # bs \<and> f z = Some y \<and> (\<forall>a\<in>set as. f a = None)) \<longleftrightarrow>
        (\<exists>as z bs. xs = as @ z # bs \<and> f z = Some y \<and> (\<forall>a\<in>set as. f a = None))" (is "?l \<longleftrightarrow> ?r")
    proof
      assume ?l
      then obtain as z bs where "x # xs = as @ z # bs" "f z = Some y" "\<forall>a\<in>set as. f a = None" by blast
      with None show ?r by (cases as) auto
    next
      assume ?r
      then obtain as z bs where "xs = as @ z # bs" "f z = Some y" "\<forall>a\<in>set as. f a = None" by blast
      with None show ?l by (intro exI [of _ "x # as"] exI [of _ z] exI [of _ bs]) simp
    qed
    with Cons None show ?thesis by simp
  next
    case (Some w)
    have "(\<exists>as z bs. x # xs = as @ z # bs \<and> f z = Some y \<and> (\<forall>a\<in>set as. f a = None)) \<longleftrightarrow> w = y"
      using Some by (auto simp: Cons_eq_append_conv intro: exI [of _ "[]"])
    with Some show ?thesis by simp
  qed
qed simp

lemma first_offer_None: "first_offer f xs = None \<longleftrightarrow> (\<forall>x\<in>set xs. f x = None)"
  by (induction xs) (auto split: option.splits)

lemma md_try_inuse: "md_try type rlength roffset True md \<noteq> MD_CONTINUE"
  by (simp add: md_try_def Let_def)

lemma md_search_used:
  assumes "\<And>m. p = Some m \<Longrightarrow> m \<in> used_mds ni"
  shows "md_search type rlength roffset ni p =
    Some (case p of None \<Rightarrow> None | Some md \<Rightarrow>
      (case md_try type rlength roffset True (ni_md ni md) of
         MD_TAKE mlength offset \<Rightarrow> Some (md, mlength, offset) | _ \<Rightarrow> None))"
proof (cases p)
  case None
  then show ?thesis by (subst md_search.simps) simp
next
  case (Some m)
  with assms have "pool_inuse (ni_md_pool ni) m" by (simp add: md_pool.used_def)
  with Some show ?thesis
    using md_try_inuse [of type rlength roffset "ni_md ni m"]
    by (subst md_search.simps) (simp split: md_verdict.split)
qed

lemma me_search_seg:
  assumes "wf_links (used_mds ni) (used_mes ni) (ni_md_links ni)"
    and "seg (nxt (ni_me_links ni)) p mes None" "set mes \<subseteq> used_mes ni"
  shows "me_search src type rlength roffset mb ni p =
    Some (first_offer (me_offer src type rlength roffset mb ni) mes)"
  using assms(2,3)
proof (induction mes arbitrary: p)
  case Nil
  then show ?case by (subst me_search.simps) simp
next
  case (Cons me mes)
  then have p: "p = Some me" and seg: "seg (nxt (ni_me_links ni)) (nxt (ni_me_links ni) me) mes None"
    and used: "me \<in> used_mes ni" "set mes \<subseteq> used_mes ni" by auto
  note IH = Cons.IH [OF seg used(2)]
  have inuse: "pool_inuse (ni_me_pool ni) me" using used(1) by (simp add: me_pool.used_def)
  have md: "m \<in> used_mds ni" if "heads (ni_md_links ni) me = Some m" for m
    using wf_links_head [OF assms(1) used(1) that] by simp
  note inner = md_search_used [of "heads (ni_md_links ni) me" ni type rlength roffset, OF md]
  show ?case
    by (subst me_search.simps)
      (simp add: p inuse IH inner me_offer_def [of src type rlength roffset mb ni me] split: option.split md_verdict.split)
qed

text \<open>
  \<open>lib_find_md\<close> on a portal in range: the first offer along the match list.
\<close>

lemma lib_find_md_spec:
  assumes inv: "ni_inv ni" and idx: "0 \<le> idx" "idx < ni_tbl_size ni"
    and mes: "list_at (ni_me_links ni) (nat idx) mes"
  shows "lib_find_md src idx type rlength roffset mb ni =
    Some (case first_offer (me_offer src type rlength roffset mb ni) mes of
        None \<Rightarrow> (None, ni)
      | Some (md, mlength, offset) \<Rightarrow> (Some (md, mlength, offset),
          upd_md md (\<lambda>m. m\<lparr>md_offset := s32 (md_offset m + mlength)\<rparr>) ni))"
proof -
  have wf: "wf_links (used_mes ni) (portals ni) (ni_me_links ni)"
    and wfd: "wf_links (used_mds ni) (used_mes ni) (ni_md_links ni)"
    using inv by (simp_all add: ni_inv_def)
  have "nat idx \<in> portals ni" using idx by (simp add: portals_def)
  with list_at_subset [OF wf mes] have "set mes \<subseteq> used_mes ni" .
  with me_search_seg [OF wfd, of "heads (ni_me_links ni) (nat idx)" mes] mes show ?thesis
    using idx by (simp add: lib_find_md_def list_at_def)
qed

lemma lib_find_md_cases:
  assumes inv: "ni_inv ni"
  obtains
    (fault) "lib_find_md src idx type rlength roffset mb ni = None" "idx = ni_tbl_size ni"
  | (none) "lib_find_md src idx type rlength roffset mb ni = Some (None, ni)"
  | (found) md mlength offset where "md \<in> used_mds ni" "0 \<le> idx" "idx < ni_tbl_size ni"
      "md_try type rlength roffset True (ni_md ni md) = MD_TAKE mlength offset"
      "lib_find_md src idx type rlength roffset mb ni = Some (Some (md, mlength, offset),
         upd_md md (\<lambda>m. m\<lparr>md_offset := s32 (md_offset m + mlength)\<rparr>) ni)"
proof -
  consider "idx < 0 \<or> idx > ni_tbl_size ni" | "0 \<le> idx" "idx = ni_tbl_size ni"
    | "0 \<le> idx" "idx < ni_tbl_size ni" by linarith
  then show thesis
  proof cases
    case 1
    then show ?thesis by (intro none) (auto simp: lib_find_md_def)
  next
    case 2
    then show ?thesis by (intro fault) (auto simp: lib_find_md_def)
  next
    case 3
    have wf: "wf_links (used_mes ni) (portals ni) (ni_me_links ni)"
      and wfd: "wf_links (used_mds ni) (used_mes ni) (ni_md_links ni)"
      using inv by (simp_all add: ni_inv_def)
    have port: "nat idx \<in> portals ni" using 3 by (simp add: portals_def)
    obtain mes where mes: "list_at (ni_me_links ni) (nat idx) mes" "set mes \<subseteq> used_mes ni"
      using list_at_exists [OF wf _ port] by auto
    note spec = lib_find_md_spec [OF inv 3 mes(1), of src type rlength roffset mb]
    show ?thesis
    proof (cases "first_offer (me_offer src type rlength roffset mb ni) mes")
      case None
      with spec show ?thesis by (intro none) simp
    next
      case (Some r)
      obtain md mlength offset where r: "r = (md, mlength, offset)" by (cases r)
      from Some obtain as me bs where "mes = as @ me # bs" "me_offer src type rlength roffset mb ni me = Some r"
        unfolding first_offer_Some by blast
      then have md: "heads (ni_md_links ni) me = Some md" "me \<in> used_mes ni"
        and take: "md_try type rlength roffset True (ni_md ni md) = MD_TAKE mlength offset"
        using mes(2) by (auto simp: me_offer_def r split: if_splits option.splits md_verdict.splits)
      have "md \<in> used_mds ni" using wf_links_head [OF wfd md(2,1)] by simp
      then show ?thesis using spec Some 3 take by (intro found) (simp_all add: r)
    qed
  qed
qed

section \<open>Invariant\<close>

lemma count_inv [ni_inv_simps]:
  "ni_inv (count_drop n ni) = ni_inv ni" "ni_inv (count_recv n ni) = ni_inv ni"
  "ni_inv (count_send n ni) = ni_inv ni"
  by (simp_all add: count_drop_def count_recv_def count_send_def ni_inv_simps)

lemma count_sel [simp]:
  "ni_md_pool (count_drop n ni) = ni_md_pool ni" "ni_md_pool (count_recv n ni) = ni_md_pool ni"
  "ni_md_pool (count_send n ni) = ni_md_pool ni" "ni_msg_pool (count_recv n ni) = ni_msg_pool ni"
  "ni_msg_pool (count_send n ni) = ni_msg_pool ni" "ni_md (count_recv n ni) = ni_md ni"
  "ni_md (count_send n ni) = ni_md ni" "ni_eq_pool (count_send n ni) = ni_eq_pool ni"
  by (simp_all add: count_drop_def count_recv_def count_send_def upd_counters_def)

lemma fill_event_inv:
  "(\<And>m. msg_md (f m) = msg_md m) \<Longrightarrow> ni_inv (fill_event md msg f ni) = ni_inv ni"
  by (simp add: fill_event_def ni_inv_simps Let_def split: option.split)

lemma fill_event_sel [simp]:
  "ni_md_pool (fill_event md msg f ni) = ni_md_pool ni"
  "ni_msg_pool (fill_event md msg f ni) = ni_msg_pool ni"
  "ni_me_pool (fill_event md msg f ni) = ni_me_pool ni"
  "ni_eq_pool (fill_event md msg f ni) = ni_eq_pool ni"
  "ni_md_links (fill_event md msg f ni) = ni_md_links ni"
  "ni_me_links (fill_event md msg f ni) = ni_me_links ni"
  "ni_md (fill_event md msg f ni) = ni_md ni"
  "ni_up (fill_event md msg f ni) = ni_up ni"
  "ni_trace (fill_event md msg f ni) = ni_trace ni"
  "eq_size (ni_eq (fill_event md msg f ni) e) = eq_size (ni_eq ni e)"
  "k \<noteq> msg \<Longrightarrow> ni_msg (fill_event md msg f ni) k = ni_msg ni k"
  by (simp_all add: fill_event_def upd_eq_def upd_msg_def Let_def split: option.split)

lemma md_consume_sel [simp]:
  "md_me (md_consume b m) = md_me m" "md_eq (md_consume b m) = md_eq m"
  "md_pending (md_consume b m) = md_pending m" "md_start (md_consume b m) = md_start m"
  "md_length (md_consume b m) = md_length m" "md_offset (md_consume b m) = md_offset m"
  "md_options (md_consume b m) = md_options m" "md_unlink (md_consume b m) = md_unlink m"
  by (simp_all add: md_consume_def Let_def)

lemma hold_md_inv:
  assumes "ni_inv ni" "md \<in> used_mds ni"
  shows "ni_inv (hold_md b md msg ni)"
proof -
  let ?ni = "upd_md md (md_consume b) ni"
  have "ni_inv (upd_msg msg (\<lambda>m. m\<lparr>msg_md := Some md\<rparr>) ?ni)"
    using assms by (intro ni_inv_set_msg_md [where m = md]) (simp_all add: ni_inv_simps)
  then show ?thesis by (simp add: hold_md_def Let_def ni_inv_simps)
qed

lemma lib_msg_alloc_sel:
  assumes "lib_msg_alloc ni = Some (k, ni')"
  shows "ni_md_pool ni' = ni_md_pool ni" "ni_md ni' = ni_md ni" "ni_md_links ni' = ni_md_links ni"
    "ni_me_links ni' = ni_me_links ni" "ni_me_pool ni' = ni_me_pool ni" "ni_eq_pool ni' = ni_eq_pool ni"
    "ni_eq ni' = ni_eq ni" "ni_up ni' = ni_up ni" "ni_trace ni' = ni_trace ni"
    "j \<noteq> k \<Longrightarrow> ni_msg ni' j = ni_msg ni j" "ni_nid ni' = ni_nid ni" "ni_tbl_size ni' = ni_tbl_size ni"
  using assms by (auto simp: lib_msg_alloc_def upd_counters_def upd_msg_def split: option.splits)

text \<open>
  The common end of the five operations that move data: on a message just allocated, fill in
  the event, count, hold the descriptor, and call the network layer.
\<close>

lemma deliver_inv:
  assumes inv: "ni_inv ni" and md: "md \<in> used_mds ni" and alloc: "lib_msg_alloc ni = Some (msg, ni2)"
    and f: "\<And>m. msg_md (f m) = msg_md m"
    and ni3: "ni_inv ni2 \<Longrightarrow> ni_inv ni3" "ni_md_pool ni3 = ni_md_pool ni2"
    and ni4: "\<And>n. ni_inv n \<Longrightarrow> ni_inv (g n)" "\<And>n. ni_md_pool (g n) = ni_md_pool n"
  shows "ni_inv (hold_md b md msg (g (fill_event md msg f ni3)))"
proof -
  have "ni_inv ni2" "md \<in> used_mds ni2"
    using lib_msg_alloc_inv(1) [OF inv alloc] md by (simp_all add: lib_msg_alloc_sel [OF alloc])
  then have "ni_inv (fill_event md msg f ni3)" "md \<in> used_mds (fill_event md msg f ni3)"
    using ni3 fill_event_inv [of f] f by simp_all
  then show ?thesis using ni4 by (intro hold_md_inv) simp_all
qed

lemma parse_put_inv:
  assumes inv: "ni_inv ni" and op: "parse_put hdr put ni = Some (rc, ni')"
  shows "ni_inv ni'"
  using inv
proof (cases rule: lib_find_md_cases [of ni "hdr_src hdr" "put_ptl_index put" PTL_MSG_PUT
      "put_length put" "put_offset put" "put_match_bits put"])
  case (found md mlength offset)
  define ni1 where "ni1 = upd_md md (\<lambda>m. m\<lparr>md_offset := s32 (md_offset m + mlength)\<rparr>) ni"
  have inv1: "ni_inv ni1" and md1: "md \<in> used_mds ni1"
    using inv found(1) by (simp_all add: ni1_def ni_inv_simps)
  show ?thesis
  proof (cases "lib_msg_alloc ni1")
    case None
    with op found(5) inv1 show ?thesis by (auto simp: parse_put_def ni1_def)
  next
    case (Some r)
    obtain msg ni2 where r: "r = (msg, ni2)" by (cases r)
    with op found(5) Some show ?thesis
      by (auto simp: parse_put_def ni1_def [symmetric] Let_def ni_inv_simps
          intro!: deliver_inv [OF inv1 md1 Some [unfolded r]])
  qed
qed (use op inv in \<open>auto simp: parse_put_def ni_inv_simps Let_def\<close>)

lemma parse_get_inv:
  assumes inv: "ni_inv ni" and op: "parse_get cb hdr get ni = Some (rc, ni')"
  shows "ni_inv ni'"
proof -
  define ni0 where "ni0 = nal_call (CB_RECV None NULL_PTR 0 0) ni"
  have inv0: "ni_inv ni0" using inv by (simp add: ni0_def ni_inv_simps)
  then show ?thesis
  proof (cases rule: lib_find_md_cases [of ni0 "hdr_src hdr" "get_ptl_index get" PTL_MSG_GET
        "get_length get" "get_src_offset get" "get_match_bits get"])
    case (found md mlength offset)
    define ni1 where "ni1 = upd_md md (\<lambda>m. m\<lparr>md_offset := s32 (md_offset m + mlength)\<rparr>) ni0"
    have inv1: "ni_inv ni1" and md1: "md \<in> used_mds ni1"
      using inv0 found(1) by (simp_all add: ni1_def ni_inv_simps)
    show ?thesis
    proof (cases "lib_msg_alloc ni1")
      case None
      with op found(5) inv1 show ?thesis by (auto simp: parse_get_def ni1_def ni0_def Let_def)
    next
      case (Some r)
      obtain msg ni2 where r: "r = (msg, ni2)" by (cases r)
      with op found(5) Some show ?thesis
        by (auto simp: parse_get_def ni1_def [symmetric] ni0_def [symmetric] Let_def ni_inv_simps
            intro!: deliver_inv [OF inv1 md1 Some [unfolded r]])
    qed
  qed (use op inv0 in \<open>auto simp: parse_get_def ni0_def [symmetric] ni_inv_simps Let_def\<close>)
qed

lemma fail_reply_inv: "ni_inv ni \<Longrightarrow> ni_inv (snd (fail_reply reply ni))"
  by (simp add: fail_reply_def ni_inv_simps)

lemma parse_reply_inv:
  assumes inv: "ni_inv ni" and op: "parse_reply hdr reply ni = Some (rc, ni')"
  shows "ni_inv ni'"
proof -
  let ?md = "nat (h_index (reply_dst_md reply))"
  consider "ni' = snd (fail_reply reply ni)" | "ni' = ni"
    | msg ni1 where "?md \<in> used_mds ni" "lib_msg_alloc ni = Some (msg, ni1)"
    using op bad_md_False [of ni "reply_dst_md reply"]
    by (auto simp: parse_reply_def Let_def bind_eq_Some_iff split: if_splits option.splits)
  then show ?thesis
  proof cases
    case 1
    with inv fail_reply_inv show ?thesis by blast
  next
    case 2
    with inv show ?thesis by simp
  next
    case (3 msg ni1)
    with op inv fail_reply_inv [OF inv, of reply] show ?thesis
      by (auto simp: parse_reply_def Let_def bind_eq_Some_iff ni_inv_simps
          intro!: deliver_inv [OF inv 3] split: if_splits)
  qed
qed

lemma parse_ack_inv:
  assumes inv: "ni_inv ni" and op: "parse_ack hdr ack ni = Some (rc, ni')"
  shows "ni_inv ni'"
proof -
  let ?md = "nat (h_index (ack_dst_md ack))"
  consider "ni' = nal_call (CB_RECV None NULL_PTR 0 0) ni" | "ni' = ni"
    | msg ni1 where "?md \<in> used_mds ni" "lib_msg_alloc ni = Some (msg, ni1)"
    using op bad_md_False [of ni "ack_dst_md ack"]
    by (auto simp: parse_ack_def Let_def bind_eq_Some_iff split: if_splits option.splits)
  then show ?thesis
  proof cases
    case (3 msg ni1)
    with op inv show ?thesis
      by (auto simp: parse_ack_def Let_def bind_eq_Some_iff ni_inv_simps
          intro!: deliver_inv [OF inv 3, where g = id, simplified] split: if_splits)
  qed (use inv in \<open>simp_all add: ni_inv_simps\<close>)
qed

lemma lib_parse_inv:
  assumes "ni_inv ni" "lib_parse cb hdr ni = Some (rc, ni')"
  shows "ni_inv ni'"
  using assms(2) parse_ack_inv [OF assms(1)] parse_put_inv [OF assms(1)] parse_get_inv [OF assms(1)]
    parse_reply_inv [OF assms(1)]
  by (cases "hdr_msg hdr") (auto simp: lib_parse_def ni_inv_simps assms(1))

lemma do_PtlPut_inv:
  assumes inv: "ni_inv ni" and op: "do_PtlPut cb md_in ack target portal mb off data ni = Some (rc, ni')"
  shows "ni_inv ni'"
proof -
  let ?md = "nat (h_index md_in)"
  define ni1 where "ni1 = count_send (md_length (ni_md ni ?md)) ni"
  have inv1: "ni_inv ni1" and sel: "used_mds ni1 = used_mds ni"
    using inv by (simp_all add: ni1_def ni_inv_simps)
  consider "ni' = ni" | "ni' = ni1"
    | msg ni2 where "?md \<in> used_mds ni1" "lib_msg_alloc ni1 = Some (msg, ni2)"
    using op bad_md_False [of ni md_in]
    by (auto simp: do_PtlPut_def Let_def bind_eq_Some_iff ni1_def split: if_splits option.splits prod.splits)
  then show ?thesis
  proof cases
    case (3 msg ni2)
    with op inv show ?thesis
      by (auto simp: do_PtlPut_def Let_def bind_eq_Some_iff ni_inv_simps ni1_def [symmetric]
          intro!: deliver_inv [OF inv1 3, where g = id, simplified] split: if_splits prod.splits)
  qed (use inv inv1 in simp_all)
qed

lemma do_PtlGet_inv:
  assumes inv: "ni_inv ni" and op: "do_PtlGet cb md_in target portal mb off ni = Some (rc, ni')"
  shows "ni_inv ni'"
proof -
  let ?md = "nat (h_index md_in)"
  define ni1 where "ni1 = upd_counters (\<lambda>c. c\<lparr>send_count := s64 (send_count c + 1)\<rparr>) ni"
  have inv1: "ni_inv ni1" and sel: "used_mds ni1 = used_mds ni"
    using inv by (simp_all add: ni1_def ni_inv_simps)
  consider "ni' = ni" | "ni' = ni1"
    | msg ni2 where "?md \<in> used_mds ni1" "lib_msg_alloc ni1 = Some (msg, ni2)"
    using op bad_md_False [of ni md_in]
    by (auto simp: do_PtlGet_def Let_def bind_eq_Some_iff ni1_def split: if_splits option.splits prod.splits)
  then show ?thesis
  proof cases
    case (3 msg ni2)
    with op inv show ?thesis
      by (auto simp: do_PtlGet_def Let_def bind_eq_Some_iff ni_inv_simps ni1_def [symmetric]
          intro!: deliver_inv [OF inv1 3, where g = id, simplified] split: if_splits prod.splits)
  qed (use inv inv1 in simp_all)
qed

end
