(* ===== verification/P30_Safe.thy ===== *)
theory P30_Safe
  imports P30_Move
begin

text \<open>
  Two more invariants of an interface, on top of \<open>ni_inv\<close>.  With the first, completing a
  message cannot fault: its descriptor is known, and the event queues it may write to have a
  size.  The second is the accounting of pending operations: the counter of a descriptor is
  the number of messages that hold it, so no message holds a descriptor that is free.
\<close>

section \<open>Definitions\<close>

definition eq_ready :: "lib_ni \<Rightarrow> nat \<Rightarrow> bool" where
  "eq_ready ni e \<longleftrightarrow> e < MAX_EQS \<and> (of_int (eq_size (ni_eq ni e)) :: 32 word) \<noteq> 0"

definition holders :: "lib_ni \<Rightarrow> nat \<Rightarrow> nat set" where
  "holders ni m = {k \<in> used_msgs ni. msg_md (ni_msg ni k) = Some m}"

definition ev_inv :: "lib_ni \<Rightarrow> bool" where
  "ev_inv ni \<longleftrightarrow>
     (\<forall>k\<in>used_msgs ni. msg_md (ni_msg ni k) \<noteq> None) \<and>
     (\<forall>e\<in>used_eqs ni. eq_ready ni e) \<and>
     (\<forall>m e. m \<in> used_mds ni \<or> holders ni m \<noteq> {} \<longrightarrow> md_eq (ni_md ni m) = Some e \<longrightarrow> eq_ready ni e)"

definition pend_inv :: "lib_ni \<Rightarrow> bool" where
  "pend_inv ni \<longleftrightarrow>
     (\<forall>m\<in>used_mds ni. md_pending (ni_md ni m) = int (card (holders ni m))) \<and>
     (\<forall>m. holders ni m \<noteq> {} \<longrightarrow> m \<in> used_mds ni)"

lemma holders_finite [simp]: "finite (holders ni m)"
  by (simp add: holders_def)

lemma holders_card: "card (holders ni m) \<le> MAX_MSGS"
proof -
  have "card (holders ni m) \<le> card (used_msgs ni)" by (intro card_mono) (auto simp: holders_def)
  also have "\<dots> \<le> MAX_MSGS" by (rule msg_pool.card_used_le)
  finally show ?thesis .
qed

section \<open>Operations that send nothing\<close>

text \<open>
  An operation that leaves messages and queues alone, and the descriptors but for freeing
  some.
\<close>

definition quiet :: "lib_ni \<Rightarrow> lib_ni \<Rightarrow> bool" where
  "quiet ni ni' \<longleftrightarrow>
     used_msgs ni' = used_msgs ni \<and> (\<forall>k. msg_md (ni_msg ni' k) = msg_md (ni_msg ni k)) \<and>
     used_eqs ni' \<subseteq> used_eqs ni \<and> (\<forall>e. eq_size (ni_eq ni' e) = eq_size (ni_eq ni e)) \<and>
     used_mds ni' \<subseteq> used_mds ni \<and>
     (\<forall>m. md_eq (ni_md ni' m) = md_eq (ni_md ni m) \<and> md_pending (ni_md ni' m) = md_pending (ni_md ni m))"

lemma quiet_refl [simp]: "quiet ni ni"
  by (simp add: quiet_def)

lemma quiet_trans: "quiet a b \<Longrightarrow> quiet b c \<Longrightarrow> quiet a c"
  unfolding quiet_def by (metis (no_types, opaque_lifting) order_trans)

lemma quiet_trace: "quiet ni (ni\<lparr>ni_trace := cs\<rparr>)"
  by (simp add: quiet_def)

lemma quiet_upd [simp]:
  "quiet ni (nal_call c ni)" "quiet ni (upd_me i f ni)" "quiet ni (upd_counters h ni)"
  "quiet ni (count_drop n ni)" "quiet ni (count_send n ni)" "quiet ni (count_recv n ni)"
  by (simp_all add: quiet_def count_drop_def count_send_def count_recv_def)

lemma quiet_eq_ready: "quiet ni ni' \<Longrightarrow> eq_ready ni' e = eq_ready ni e"
  by (simp add: quiet_def eq_ready_def)

lemma quiet_holders: "quiet ni ni' \<Longrightarrow> holders ni' m = holders ni m"
  by (simp add: quiet_def holders_def)

lemma ev_inv_quiet:
  assumes "quiet ni ni'" "ev_inv ni"
  shows "ev_inv ni'"
  using assms(2) quiet_eq_ready [OF assms(1)] quiet_holders [OF assms(1)] assms(1)
  unfolding ev_inv_def quiet_def by (metis subset_iff)

lemma pend_inv_quiet:
  assumes "quiet ni ni'" "pend_inv ni" "\<And>m. m \<in> used_mds ni - used_mds ni' \<Longrightarrow> holders ni m = {}"
  shows "pend_inv ni'"
  using assms(2,3) quiet_holders [OF assms(1)] assms(1)
  unfolding pend_inv_def quiet_def by (metis Diff_iff subset_iff)

section \<open>Descriptors\<close>

lemma quiet_md_unlink: "ni_inv ni \<Longrightarrow> md < MAX_MDS \<Longrightarrow> quiet ni (lib_md_unlink md ni)"
  using used_mds_unlink [of ni md] by (simp add: quiet_def)

lemma inv2_new_md:
  assumes inv: "ni_inv ni" and p: "pool_alloc (ni_md_pool ni) = Some (new, p)"
    and ni': "ni' = ni\<lparr>ni_trace := cs, ni_md_pool := p, ni_md := (ni_md ni)(new := m), ni_md_links := l\<rparr>"
  shows "ev_inv ni \<Longrightarrow> (\<And>e. md_eq m = Some e \<Longrightarrow> e \<in> used_eqs ni) \<Longrightarrow> ev_inv ni'"
    and "pend_inv ni \<Longrightarrow> md_pending m = 0 \<Longrightarrow> pend_inv ni'"
proof -
  have pinv: "pool_inv MAX_MDS (ni_md_pool ni)" using inv by (simp add: ni_inv_def)
  have used: "used_mds ni' = insert new (used_mds ni)"
    using md_pool.used_alloc [OF pinv p] by (simp add: ni')
  have fresh: "new \<notin> used_mds ni" by (rule md_pool.used_alloc_fresh [OF pinv p])
  have sel: "holders ni' k = holders ni k" "eq_ready ni' e = eq_ready ni e"
    "used_msgs ni' = used_msgs ni" "used_eqs ni' = used_eqs ni" "ni_msg ni' = ni_msg ni"
    "ni_md ni' = (ni_md ni)(new := m)" for k e
    by (simp_all add: ni' holders_def eq_ready_def)
  show "ev_inv ni'" if "ev_inv ni" and eq: "\<And>e. md_eq m = Some e \<Longrightarrow> e \<in> used_eqs ni"
    using that(1) eq unfolding ev_inv_def used sel by (auto split: if_splits)
  show "pend_inv ni'" if "pend_inv ni" "md_pending m = 0"
    using that fresh unfolding pend_inv_def used sel by auto
qed

lemma ev_inv_upd_md:
  assumes "ev_inv ni" "\<And>e. md_eq (f (ni_md ni i)) = Some e \<Longrightarrow> eq_ready ni e"
  shows "ev_inv (upd_md i f ni)"
proof -
  have "holders (upd_md i f ni) k = holders ni k" "eq_ready (upd_md i f ni) e = eq_ready ni e" for k e
    by (simp_all add: holders_def eq_ready_def)
  with assms show ?thesis by (auto simp: ev_inv_def upd_md_def split: if_splits)
qed

lemma pend_inv_upd_md:
  assumes "pend_inv ni" "md_pending (f (ni_md ni i)) = md_pending (ni_md ni i)"
  shows "pend_inv (upd_md i f ni)"
proof -
  have "holders (upd_md i f ni) k = holders ni k" for k by (simp add: holders_def)
  with assms show ?thesis by (auto simp: pend_inv_def upd_md_def)
qed

lemma md_build_eq_used: "md_build_eq evq ni = Some (Inr eq) \<Longrightarrow> eq = Some e \<Longrightarrow> e \<in> used_eqs ni"
  by (auto simp: md_build_eq_Inr split: if_splits)

lemma do_PtlMDAttach_internal_inv2:
  assumes inv: "ni_inv ni" and op: "do_PtlMDAttach_internal cb h md u ni = Some (ret, ni')"
  shows "ev_inv ni \<Longrightarrow> ev_inv ni'" "pend_inv ni \<Longrightarrow> pend_inv ni'"
proof -
  have "(ev_inv ni \<longrightarrow> ev_inv ni') \<and> (pend_inv ni \<longrightarrow> pend_inv ni')"
  proof (cases rule: do_PtlMDAttach_internal_cases [of cb h md u ni])
    case (error rc cs)
    then have "ni' = ni\<lparr>ni_trace := cs\<rparr>" using op by simp
    then show ?thesis
      using ev_inv_quiet [OF quiet_trace] pend_inv_quiet [OF quiet_trace] by auto
  next
    case (ok me new p eq cs addrkey)
    from ok(6) op have ni': "ni' = ni\<lparr>ni_trace := cs, ni_md_pool := p,
        ni_md := (ni_md ni)(new := (md_of md eq addrkey)\<lparr>md_unlink := u, md_me := Some me\<rparr>),
        ni_md_links := link_head me new (ni_md_links ni)\<rparr>" by simp
    show ?thesis
      using inv2_new_md [OF inv ok(4) ni'] md_build_eq_used [OF ok(5)] by (auto simp: md_of_def)
  qed (use op in simp)
  then show "ev_inv ni \<Longrightarrow> ev_inv ni'" "pend_inv ni \<Longrightarrow> pend_inv ni'" by blast+
qed

lemma do_PtlMDInsert_internal_inv2:
  assumes inv: "ni_inv ni" and op: "do_PtlMDInsert_internal cb h md u pos ni = Some (ret, ni')"
  shows "ev_inv ni \<Longrightarrow> ev_inv ni'" "pend_inv ni \<Longrightarrow> pend_inv ni'"
proof -
  from inv have "(ev_inv ni \<longrightarrow> ev_inv ni') \<and> (pend_inv ni \<longrightarrow> pend_inv ni')"
  proof (cases rule: do_PtlMDInsert_internal_cases [of ni cb h md u pos])
    case (error rc cs)
    then have "ni' = ni\<lparr>ni_trace := cs\<rparr>" using op by simp
    then show ?thesis
      using ev_inv_quiet [OF quiet_trace] pend_inv_quiet [OF quiet_trace] by auto
  next
    case (ok d new p eq cs addrkey)
    from ok(5) op have ni': "ni' = ni\<lparr>ni_trace := cs, ni_md_pool := p,
        ni_md := (ni_md ni)(new := (md_of md eq addrkey)\<lparr>md_me := md_me (ni_md ni d), md_unlink := u\<rparr>),
        ni_md_links := lib_insert d new pos (ni_md_links ni)\<rparr>" by simp
    show ?thesis
      using inv2_new_md [OF inv ok(3) ni'] md_build_eq_used [OF ok(4)] by (auto simp: md_of_def)
  qed (use op in simp)
  then show "ev_inv ni \<Longrightarrow> ev_inv ni'" "pend_inv ni \<Longrightarrow> pend_inv ni'" by blast+
qed

lemma do_PtlMDBind_internal_inv2:
  assumes inv: "ni_inv ni" and op: "do_PtlMDBind_internal cb h md ni = Some (ret, ni')"
  shows "ev_inv ni \<Longrightarrow> ev_inv ni'" "pend_inv ni \<Longrightarrow> pend_inv ni'"
proof -
  have "(ev_inv ni \<longrightarrow> ev_inv ni') \<and> (pend_inv ni \<longrightarrow> pend_inv ni')"
  proof (cases rule: do_PtlMDBind_internal_cases [of cb h md ni])
    case (error rc cs)
    then have "ni' = ni\<lparr>ni_trace := cs\<rparr>" using op by simp
    then show ?thesis
      using ev_inv_quiet [OF quiet_trace] pend_inv_quiet [OF quiet_trace] by auto
  next
    case (ok new p eq cs addrkey)
    from ok(3) op have ni': "ni' = ni\<lparr>ni_trace := cs, ni_md_pool := p,
        ni_md := (ni_md ni)(new := md_of md eq addrkey),
        ni_md_links := link_clear new (ni_md_links ni)\<rparr>" by simp
    show ?thesis
      using inv2_new_md [OF inv ok(1) ni'] md_build_eq_used [OF ok(2)] by (auto simp: md_of_def)
  qed (use op in simp)
  then show "ev_inv ni \<Longrightarrow> ev_inv ni'" "pend_inv ni \<Longrightarrow> pend_inv ni'" by blast+
qed

text \<open>Unlinking keeps the accounting only when no operation is pending on the descriptor.\<close>

lemma do_PtlMDUnlink_internal_inv2:
  assumes inv: "ni_inv ni" and op: "do_PtlMDUnlink_internal h ni = Some (ret, ni')"
  shows "ev_inv ni \<Longrightarrow> ev_inv ni'"
    and "pend_inv ni \<Longrightarrow> md_pending (ni_md ni (nat (h_index h))) = 0 \<Longrightarrow> pend_inv ni'"
proof -
  have "(ev_inv ni \<longrightarrow> ev_inv ni') \<and>
      (pend_inv ni \<and> md_pending (ni_md ni (nat (h_index h))) = 0 \<longrightarrow> pend_inv ni')"
  proof (cases rule: do_PtlMDUnlink_internal_cases [of h ni])
    case (ok md)
    then have ni': "ni' = lib_md_unlink md ni" using op by simp
    have md: "md < MAX_MDS" using ok(2) by (simp add: md_pool.used_def)
    note q = quiet_md_unlink [OF inv md]
    have "holders ni m = {}"
      if "pend_inv ni" "md_pending (ni_md ni md) = 0" "m \<in> used_mds ni - used_mds ni'" for m
      using that used_mds_unlink [OF inv md] ok(2) by (auto simp: ni' pend_inv_def)
    then show ?thesis
      using ev_inv_quiet [OF q] pend_inv_quiet [OF q] ok(1) by (auto simp: ni')
  qed (use op in simp_all)
  then show "ev_inv ni \<Longrightarrow> ev_inv ni'"
    and "pend_inv ni \<Longrightarrow> md_pending (ni_md ni (nat (h_index h))) = 0 \<Longrightarrow> pend_inv ni'" by blast+
qed

lemma quiet_md_update_validate:
  assumes "md_update_validate cb new md ni = (ok, ni1)"
  shows "quiet ni ni1"
proof -
  from assms have "used_msgs ni1 = used_msgs ni" "ni_msg ni1 = ni_msg ni" "ni_eq ni1 = ni_eq ni"
    by (auto simp: md_update_validate_def Let_def split: if_splits prod.splits)
  with md_update_validate_frame(2,3,5) [OF assms] show ?thesis by (auto simp: quiet_def)
qed

lemma do_PtlMDUpdate_internal_inv2:
  assumes inv: "ni_inv ni"
    and op: "do_PtlMDUpdate_internal cb h old new testq seq ni = Some (ret, ni')"
  shows "ev_inv ni \<Longrightarrow> ev_inv ni'" "pend_inv ni \<Longrightarrow> pend_inv ni'"
proof -
  have "(ev_inv ni \<longrightarrow> ev_inv ni') \<and> (pend_inv ni \<longrightarrow> pend_inv ni')"
  proof (cases "ni' = ni")
    case False
    then obtain n ok ni1 where v: "md_update_validate cb n (nat (h_index h)) ni = (ok, ni1)"
      and ni': "ni' = ni1 \<or> (\<exists>evq. md_update_eq n ni1 = Some evq \<and>
            ni' = upd_md (nat (h_index h)) (\<lambda>m. m\<lparr>md_start := pm_start n,
            md_length := pm_length n, md_threshold := pm_threshold n, md_max_offset := pm_max_offset n,
            md_options := pm_options n, md_user_ptr := pm_user_ptr n, md_eq := evq\<rparr>) ni1)"
      using op
      by (auto simp: do_PtlMDUpdate_internal_def Let_def bind_eq_Some_iff
          split: option.splits sum.splits if_splits prod.splits)
    note q = quiet_md_update_validate [OF v]
    have same: "used_mds ni1 = used_mds ni" using md_update_validate_frame(3) [OF v] by simp
    have ev: "e \<in> used_eqs ni1" if "md_update_eq n ni1 = Some (Some e)" for e
      using that by (auto simp: md_update_eq_def inuse_at_def bind_eq_Some_iff eq_pool.used_def
          split: if_splits)
    have "ev_inv ni' " if "ev_inv ni"
    proof -
      have ev1: "ev_inv ni1" using ev_inv_quiet [OF q that] .
      then have "\<And>e. e \<in> used_eqs ni1 \<Longrightarrow> eq_ready ni1 e" by (simp add: ev_inv_def)
      with ev1 ni' ev show ?thesis by (auto intro!: ev_inv_upd_md)
    qed
    moreover have "pend_inv ni'" if "pend_inv ni"
    proof -
      have "pend_inv ni1" using pend_inv_quiet [OF q that] same by simp
      with ni' show ?thesis by (auto intro!: pend_inv_upd_md)
    qed
    ultimately show ?thesis by blast
  qed simp
  then show "ev_inv ni \<Longrightarrow> ev_inv ni'" "pend_inv ni \<Longrightarrow> pend_inv ni'" by blast+
qed

section \<open>Entries and queues\<close>

lemma do_PtlMEAttach_quiet:
  assumes "do_PtlMEAttach ni_in idx i mb ib u ni = Some (ret, ni')"
  shows "quiet ni ni'" "used_mds ni' = used_mds ni"
  by (cases rule: do_PtlMEAttach_cases [of ni_in idx i mb ib u ni];
      use assms in \<open>auto simp: quiet_def\<close>)+

lemma do_PtlMEInsert_quiet:
  assumes "ni_inv ni" "do_PtlMEInsert h i mb ib u pos ni = Some (ret, ni')"
  shows "quiet ni ni'" "used_mds ni' = used_mds ni"
  using assms(1)
  by (cases rule: do_PtlMEInsert_cases [of ni h i mb ib u pos];
      use assms(2) in \<open>auto simp: quiet_def\<close>)+

lemma lib_me_unlink_quiet:
  assumes "ni_inv ni" "me \<in> used_mes ni" "lib_me_unlink me ni = Some ni'"
  shows "quiet ni ni'"
    and "m \<in> used_mds ni - used_mds ni' \<Longrightarrow> \<exists>mds. list_at (ni_md_links ni) me mds \<and> m \<in> set mds"
proof -
  have q: "quiet ni ni' \<and>
      used_mds ni' = {m \<in> used_mds ni. \<not> (\<exists>mds. list_at (ni_md_links ni) me mds \<and> m \<in> set mds)}"
    by (rule lib_me_unlink_total [OF assms(1,2)]) (use assms(3) in \<open>auto simp: quiet_def\<close>)
  then show "quiet ni ni'" ..
  show "\<exists>mds. list_at (ni_md_links ni) me mds \<and> m \<in> set mds" if "m \<in> used_mds ni - used_mds ni'"
    using q that by auto
qed

text \<open>
  Unlinking an entry unlinks its descriptors: the accounting survives when none of them has an
  operation pending.
\<close>

lemma do_PtlMEUnlink_inv2:
  assumes inv: "ni_inv ni" and op: "do_PtlMEUnlink h ni = Some (ret, ni')"
  shows "ev_inv ni \<Longrightarrow> ev_inv ni'"
    and "pend_inv ni \<Longrightarrow>
      (\<And>mds m. list_at (ni_md_links ni) (nat (h_index h)) mds \<Longrightarrow> m \<in> set mds \<Longrightarrow> md_pending (ni_md ni m) = 0) \<Longrightarrow>
      pend_inv ni'"
proof -
  have goal: "(ev_inv ni \<longrightarrow> ev_inv ni') \<and>
    (pend_inv ni \<and> (\<forall>mds m. list_at (ni_md_links ni) (nat (h_index h)) mds \<longrightarrow> m \<in> set mds \<longrightarrow>
        md_pending (ni_md ni m) = 0) \<longrightarrow> pend_inv ni')"
    using inv
  proof (cases rule: do_PtlMEUnlink_cases [of ni h])
    case (ok me ni2)
    then have ni2: "lib_me_unlink me ni = Some ni'" using op by simp
    note q = lib_me_unlink_quiet [OF inv ok(2) ni2]
    have "holders ni m = {}"
      if "pend_inv ni" "\<forall>mds m. list_at (ni_md_links ni) me mds \<longrightarrow> m \<in> set mds \<longrightarrow>
        md_pending (ni_md ni m) = 0" "m \<in> used_mds ni - used_mds ni'" for m
    proof -
      from q(2) [OF that(3)] that(2) have "md_pending (ni_md ni m) = 0" by blast
      with that(1,3) show ?thesis by (auto simp: pend_inv_def)
    qed
    with ev_inv_quiet [OF q(1)] pend_inv_quiet [OF q(1)] ok(1) show ?thesis by blast
  qed (use op in simp_all)
  then show "ev_inv ni \<Longrightarrow> ev_inv ni'"
    and "pend_inv ni \<Longrightarrow>
      (\<And>mds m. list_at (ni_md_links ni) (nat (h_index h)) mds \<Longrightarrow> m \<in> set mds \<Longrightarrow> md_pending (ni_md ni m) = 0) \<Longrightarrow>
      pend_inv ni'" by blast+
qed

lemma do_PtlEQAlloc_internal_inv2:
  assumes inv: "ni_inv ni" and op: "do_PtlEQAlloc_internal ni_in count base ni = (ret, ni')"
    and count: "(of_int count :: 32 word) \<noteq> 0"
  shows "ev_inv ni \<Longrightarrow> ev_inv ni'" "pend_inv ni \<Longrightarrow> pend_inv ni'"
proof -
  have "(ev_inv ni \<longrightarrow> ev_inv ni') \<and> (pend_inv ni \<longrightarrow> pend_inv ni')"
  proof (cases rule: do_PtlEQAlloc_internal_cases [of ni ni_in count base])
    case error
    then have q: "quiet ni ni'" "used_mds ni' = used_mds ni" using op by auto
    show ?thesis using ev_inv_quiet [OF q(1)] pend_inv_quiet [OF q(1)] q(2) by simp
  next
    case (ok new p)
    have pinv: "pool_inv MAX_EQS (ni_eq_pool ni)" using inv by (simp add: ni_inv_def)
    note used = eq_pool.used_alloc [OF pinv ok(1)]
    have new: "new < MAX_EQS" using eq_pool.alloc_Some [OF pinv ok(1)] by simp
    have eq: "ni' = ni\<lparr>ni_eq_pool := p, ni_eq := (ni_eq ni)(new :=
        \<lparr>eq_sequence = 1, eq_size = count, eq_base = base, eq_pending = 0\<rparr>)\<rparr>"
      using op ok(2) by simp
    have ready: "eq_ready ni' e" if "e = new \<or> eq_ready ni e" for e
      using that new count by (cases "e = new") (simp_all add: eq_ready_def eq)
    have ni': "ni_md ni' = ni_md ni" "ni_msg ni' = ni_msg ni" "used_msgs ni' = used_msgs ni"
        "used_mds ni' = used_mds ni" "used_eqs ni' = insert new (used_eqs ni)"
      using used by (simp_all add: eq)
    then have hold: "holders ni' m = holders ni m" for m by (simp add: holders_def)
    have "ev_inv ni'" if ev: "ev_inv ni"
      unfolding ev_inv_def ni' hold
    proof (intro conjI ballI allI impI)
      show "msg_md (ni_msg ni k) \<noteq> None" if "k \<in> used_msgs ni" for k
        using ev that unfolding ev_inv_def by (elim conjE) (rule bspec)
      show "eq_ready ni' e" if "e \<in> insert new (used_eqs ni)" for e
        using ev that by (intro ready) (auto simp: ev_inv_def)
      show "eq_ready ni' e" if "m \<in> used_mds ni \<or> holders ni m \<noteq> {}" "md_eq (ni_md ni m) = Some e" for m e
        using ev that unfolding ev_inv_def by (intro ready disjI2) (elim conjE allE, erule (1) impE, erule (1) impE)
    qed
    moreover have "pend_inv ni' = pend_inv ni" unfolding pend_inv_def ni' hold ..
    ultimately show ?thesis by blast
  qed
  then show "ev_inv ni \<Longrightarrow> ev_inv ni'" "pend_inv ni \<Longrightarrow> pend_inv ni'" by blast+
qed

lemma do_PtlEQFree_internal_quiet:
  assumes inv: "ni_inv ni" and op: "do_PtlEQFree_internal h ni = Some (ret, ni')"
  shows "quiet ni ni'" "used_mds ni' = used_mds ni"
proof -
  have "quiet ni ni' \<and> used_mds ni' = used_mds ni"
  proof (cases rule: do_PtlEQFree_internal_cases [of h ni])
    case (ok eq)
    have "pool_inv MAX_EQS (ni_eq_pool ni)" "eq < MAX_EQS"
      using inv ok(2) by (simp_all add: ni_inv_def eq_pool.used_def)
    note used = eq_pool.used_free [OF this]
    have "ni' = lib_eq_unlink eq ni" using op ok(3) by simp
    then show ?thesis by (simp add: quiet_def lib_eq_unlink_def lib_eq_free_def Let_def used)
  qed (use op in simp_all)
  then show "quiet ni ni'" "used_mds ni' = used_mds ni" by blast+
qed

section \<open>Moving data\<close>

text \<open>The common end of the operations that move data, for both invariants.\<close>

lemma hold_md_inv2:
  assumes inv: "ni_inv ni" and md: "md \<in> used_mds ni" and alloc: "lib_msg_alloc ni = Some (msg, ni2)"
    and quiet: "quiet ni2 ni3" "used_mds ni3 = used_mds ni2"
  shows "ev_inv ni \<Longrightarrow> ev_inv (hold_md b md msg ni3)"
    and "pend_inv ni \<Longrightarrow> pend_inv (hold_md b md msg ni3)"
proof -
  let ?ni = "hold_md b md msg ni3"
  note sel = lib_msg_alloc_sel [OF alloc]
  have used: "used_msgs ?ni = insert msg (used_msgs ni)" "msg \<notin> used_msgs ni"
    using lib_msg_alloc_inv(4,3) [OF inv alloc] quiet by (simp_all add: hold_md_def Let_def quiet_def)
  have mds: "used_mds ?ni = used_mds ni" "used_eqs ?ni \<subseteq> used_eqs ni"
    using quiet by (auto simp: hold_md_def Let_def sel quiet_def)
  have msgs: "msg_md (ni_msg ?ni k) = (if k = msg then Some md else msg_md (ni_msg ni k))" for k
    using quiet(1) sel(10) [of k] by (simp add: hold_md_def Let_def upd_msg_def quiet_def)
  have "md_eq (ni_md ?ni m) = md_eq (ni_md ni m)" "eq_ready ?ni e = eq_ready ni e" for m e
    using quiet(1) by (simp_all add: hold_md_def Let_def upd_md_def upd_msg_def quiet_def eq_ready_def sel)
  note same = this
  have hold: "holders ?ni m = (if m = md then insert msg (holders ni md) else holders ni m)" for m
    using used by (auto simp: holders_def msgs)
  show "ev_inv ?ni" if "ev_inv ni"
    using that md mds used msgs same hold unfolding ev_inv_def by (auto split: if_splits)
  have fresh: "msg \<notin> holders ni md" using used(2) by (simp add: holders_def)
  have pend: "md_pending (ni_md ?ni m) = (if m = md then s32 (md_pending (ni_md ni md) + 1)
      else md_pending (ni_md ni m))" for m
    using quiet(1) by (simp add: hold_md_def Let_def upd_md_def upd_msg_def quiet_def sel)
  show "pend_inv ?ni" if "pend_inv ni"
  proof -
    have "card (holders ni md) < 2 ^ 30" using holders_card [of ni md] by (simp add: MAX_MSGS_def)
    then have "s32 (int (card (holders ni md)) + 1) = int (card (insert msg (holders ni md)))"
      using fresh by (simp add: s32_id c_int_def)
    with that md mds hold pend show ?thesis unfolding pend_inv_def by (auto split: if_splits)
  qed
qed

text \<open>
  An operation that moves data either leaves messages and descriptors alone, or allocates one
  message and holds one descriptor with it.
\<close>

definition calm :: "lib_ni \<Rightarrow> lib_ni \<Rightarrow> bool" where
  "calm ni ni' \<longleftrightarrow> quiet ni ni' \<and> used_mds ni' = used_mds ni"

lemma calm_refl [simp]: "calm ni ni"
  by (simp add: calm_def)

lemma calm_trans: "calm a b \<Longrightarrow> calm b c \<Longrightarrow> calm a c"
  unfolding calm_def using quiet_trans by metis

lemma calm_inv2:
  assumes "calm ni ni'"
  shows "ev_inv ni \<Longrightarrow> ev_inv ni'" "pend_inv ni \<Longrightarrow> pend_inv ni'"
proof -
  from assms have q: "quiet ni ni'" "used_mds ni' = used_mds ni" by (simp_all add: calm_def)
  show "ev_inv ni \<Longrightarrow> ev_inv ni'" by (rule ev_inv_quiet [OF q(1)])
  show "pend_inv ni \<Longrightarrow> pend_inv ni'" using pend_inv_quiet [OF q(1)] q(2) by simp
qed

lemma calm_upd [simp]:
  "calm ni (nal_call c ni)" "calm ni (upd_counters h ni)"
  "calm ni (count_drop n ni)" "calm ni (count_send n ni)" "calm ni (count_recv n ni)"
  by (simp_all add: calm_def)

lemma calm_fill_event:
  assumes "\<And>m. msg_md (f m) = msg_md m"
  shows "calm ni (fill_event md msg f ni)"
proof -
  have "msg_md (ni_msg (fill_event md msg f ni) k) = msg_md (ni_msg ni k)" for k
    using assms by (simp add: fill_event_def upd_msg_def upd_eq_def Let_def split: option.split)
  then show ?thesis by (simp add: calm_def quiet_def)
qed

lemma calm_upd_msg: "(\<And>m. msg_md (f m) = msg_md m) \<Longrightarrow> calm ni (upd_msg k f ni)"
  by (simp add: calm_def quiet_def upd_msg_def)

lemma calm_upd_md:
  "(\<And>m. md_eq (f m) = md_eq m) \<Longrightarrow> (\<And>m. md_pending (f m) = md_pending m) \<Longrightarrow> calm ni (upd_md k f ni)"
  by (simp add: calm_def quiet_def upd_md_def)

definition moves :: "lib_ni \<Rightarrow> lib_ni \<Rightarrow> bool" where
  "moves ni ni' \<longleftrightarrow> calm ni ni' \<or>
     (\<exists>ni1 md msg ni2 ni3 b. calm ni ni1 \<and> ni_inv ni1 \<and> md \<in> used_mds ni1 \<and>
        lib_msg_alloc ni1 = Some (msg, ni2) \<and> calm ni2 ni3 \<and> calm (hold_md b md msg ni3) ni')"

lemma moves_inv2:
  assumes "moves ni ni'"
  shows "ev_inv ni \<Longrightarrow> ev_inv ni'" "pend_inv ni \<Longrightarrow> pend_inv ni'"
proof -
  have "(ev_inv ni \<longrightarrow> ev_inv ni') \<and> (pend_inv ni \<longrightarrow> pend_inv ni')"
  proof (cases "calm ni ni'")
    case True
    then show ?thesis using calm_inv2 by blast
  next
    case False
    with assms obtain ni1 md msg ni2 ni3 b where
      m: "calm ni ni1" "ni_inv ni1" "md \<in> used_mds ni1" "lib_msg_alloc ni1 = Some (msg, ni2)"
        "calm ni2 ni3" "calm (hold_md b md msg ni3) ni'"
      by (auto simp: moves_def)
    from m(5) have "quiet ni2 ni3" "used_mds ni3 = used_mds ni2" by (auto simp: calm_def)
    note hold = hold_md_inv2 [OF m(2-4) this]
    show ?thesis using calm_inv2 [OF m(1)] hold calm_inv2 [OF m(6)] by blast
  qed
  then show "ev_inv ni \<Longrightarrow> ev_inv ni'" "pend_inv ni \<Longrightarrow> pend_inv ni'" by blast+
qed

lemma movesI_calm: "calm ni ni' \<Longrightarrow> moves ni ni'"
  by (simp add: moves_def)

lemma movesI_hold:
  assumes "calm ni ni1" "ni_inv ni1" "md \<in> used_mds ni1" "lib_msg_alloc ni1 = Some (msg, ni2)"
    "calm ni2 ni3" "calm (hold_md b md msg ni3) ni'"
  shows "moves ni ni'"
  using assms unfolding moves_def by blast

lemma movesI_nal:
  assumes "calm ni ni1" "ni_inv ni1" "md \<in> used_mds ni1" "lib_msg_alloc ni1 = Some (msg, ni2)"
    "calm ni2 ni3"
  shows "moves ni (nal_call c (hold_md b md msg ni3))"
    and "moves ni (nal_call c (upd_counters h (hold_md b md msg ni3)))"
  using movesI_hold [OF assms] calm_upd(1,2) calm_trans by metis+

lemma calm_event:
  "(\<And>m. msg_md (f m) = msg_md m) \<Longrightarrow> calm ni ni3 \<Longrightarrow> calm ni (fill_event md msg f ni3)"
  using calm_fill_event calm_trans by metis

lemma calm_count:
  "calm ni ni3 \<Longrightarrow> calm ni (count_recv n ni3)" "calm ni ni3 \<Longrightarrow> calm ni (count_send n ni3)"
  using calm_trans calm_upd by metis+

lemma parse_put_moves:
  assumes inv: "ni_inv ni" and op: "parse_put hdr put ni = Some (rc, ni')"
  shows "moves ni ni'"
  using inv
proof (cases rule: lib_find_md_cases [of ni "hdr_src hdr" "put_ptl_index put" PTL_MSG_PUT
      "put_length put" "put_offset put" "put_match_bits put"])
  case none
  then have "ni' = nal_call (CB_RECV None NULL_PTR 0 (size_t (put_length put))) (count_drop (put_length put) ni)"
    using op by (simp add: parse_put_def Let_def)
  then show ?thesis by (metis movesI_calm calm_trans calm_upd(1,3))
next
  case (found md mlength offset)
  define ni1 where "ni1 = upd_md md (\<lambda>m. m\<lparr>md_offset := s32 (md_offset m + mlength)\<rparr>) ni"
  have c1: "calm ni ni1" unfolding ni1_def by (rule calm_upd_md) simp_all
  have inv1: "ni_inv ni1" and md1: "md \<in> used_mds ni1"
    using inv found(1) by (simp_all add: ni1_def ni_inv_simps)
  show ?thesis
  proof (cases "lib_msg_alloc ni1")
    case None
    with op found(5) c1 show ?thesis by (auto simp: parse_put_def ni1_def movesI_calm)
  next
    case (Some r)
    obtain msg ni2 where r: "r = (msg, ni2)" by (cases r)
    with op found(5) Some show ?thesis
      by (auto simp: parse_put_def ni1_def [symmetric] Let_def
          intro!: movesI_nal [OF c1 inv1 md1 Some [unfolded r]] calm_event calm_count calm_upd_msg)
  qed
qed (use op in \<open>simp add: parse_put_def\<close>)

lemma parse_get_moves:
  assumes inv: "ni_inv ni" and op: "parse_get cb hdr get ni = Some (rc, ni')"
  shows "moves ni ni'"
proof -
  define ni0 where "ni0 = nal_call (CB_RECV None NULL_PTR 0 0) ni"
  have inv0: "ni_inv ni0" using inv by (simp add: ni0_def ni_inv_simps)
  have c0: "calm ni ni0" by (simp add: ni0_def)
  from inv0 show ?thesis
  proof (cases rule: lib_find_md_cases [of ni0 "hdr_src hdr" "get_ptl_index get" PTL_MSG_GET
        "get_length get" "get_src_offset get" "get_match_bits get"])
    case none
    then have "ni' = count_drop (get_length get) ni0"
      using op by (simp add: parse_get_def Let_def ni0_def [symmetric])
    then show ?thesis using c0 by (metis movesI_calm calm_trans calm_upd(3))
  next
    case (found md mlength offset)
    define ni1 where "ni1 = upd_md md (\<lambda>m. m\<lparr>md_offset := s32 (md_offset m + mlength)\<rparr>) ni0"
    have "calm ni0 ni1" unfolding ni1_def by (rule calm_upd_md) simp_all
    with c0 have c1: "calm ni ni1" by (rule calm_trans)
    have inv1: "ni_inv ni1" and md1: "md \<in> used_mds ni1"
      using inv0 found(1) by (simp_all add: ni1_def ni_inv_simps)
    show ?thesis
    proof (cases "lib_msg_alloc ni1")
      case None
      with op found(5) c1 show ?thesis
        by (auto simp: parse_get_def ni1_def ni0_def [symmetric] Let_def movesI_calm)
    next
      case (Some r)
      obtain msg ni2 where r: "r = (msg, ni2)" by (cases r)
      with op found(5) Some show ?thesis
        by (auto simp: parse_get_def ni1_def [symmetric] ni0_def [symmetric] Let_def
            intro!: movesI_nal [OF c1 inv1 md1 Some [unfolded r]] calm_event calm_count)
    qed
  qed (use op in \<open>simp add: parse_get_def Let_def ni0_def [symmetric]\<close>)
qed

lemma fail_reply_calm: "calm ni (snd (fail_reply reply ni))"
  unfolding fail_reply_def snd_conv by (metis calm_trans calm_upd(1,3))

lemma parse_reply_moves:
  assumes inv: "ni_inv ni" and op: "parse_reply hdr reply ni = Some (rc, ni')"
  shows "moves ni ni'"
proof -
  let ?md = "nat (h_index (reply_dst_md reply))"
  consider "ni' = snd (fail_reply reply ni)" | "ni' = ni"
    | msg ni1 where "?md \<in> used_mds ni" "lib_msg_alloc ni = Some (msg, ni1)"
    using op bad_md_False [of ni "reply_dst_md reply"]
    by (auto simp: parse_reply_def Let_def bind_eq_Some_iff split: if_splits option.splits)
  then show ?thesis
  proof cases
    case 1
    with fail_reply_calm show ?thesis by (simp add: movesI_calm)
  next
    case 2
    then show ?thesis by (simp add: movesI_calm)
  next
    case (3 msg ni1)
    with op fail_reply_calm [of ni reply] show ?thesis
      by (auto simp: parse_reply_def Let_def bind_eq_Some_iff movesI_calm
          intro!: movesI_nal [OF calm_refl inv 3] calm_event calm_count split: if_splits)
  qed
qed

lemma parse_ack_moves:
  assumes inv: "ni_inv ni" and op: "parse_ack hdr ack ni = Some (rc, ni')"
  shows "moves ni ni'"
proof -
  let ?md = "nat (h_index (ack_dst_md ack))"
  consider "ni' = nal_call (CB_RECV None NULL_PTR 0 0) ni" | "ni' = ni"
    | msg ni1 where "?md \<in> used_mds ni" "lib_msg_alloc ni = Some (msg, ni1)"
    using op bad_md_False [of ni "ack_dst_md ack"]
    by (auto simp: parse_ack_def Let_def bind_eq_Some_iff split: if_splits option.splits)
  then show ?thesis
  proof cases
    case (3 msg ni1)
    with op show ?thesis
      by (auto simp: parse_ack_def Let_def bind_eq_Some_iff movesI_calm
          intro!: movesI_nal [OF calm_refl inv 3] calm_event split: if_splits)
  qed (simp_all add: movesI_calm)
qed

lemma lib_parse_moves:
  assumes "ni_inv ni" "lib_parse cb hdr ni = Some (rc, ni')"
  shows "moves ni ni'"
  using assms(2) parse_ack_moves [OF assms(1)] parse_put_moves [OF assms(1)] parse_get_moves [OF assms(1)]
    parse_reply_moves [OF assms(1)]
  by (cases "hdr_msg hdr") (auto simp: lib_parse_def movesI_calm)

lemma do_PtlPut_moves:
  assumes inv: "ni_inv ni" and op: "do_PtlPut cb md_in ack target portal mb off data ni = Some (rc, ni')"
  shows "moves ni ni'"
proof -
  let ?md = "nat (h_index md_in)"
  define ni1 where "ni1 = count_send (md_length (ni_md ni ?md)) ni"
  have inv1: "ni_inv ni1" and c1: "calm ni ni1"
    using inv by (simp_all add: ni1_def ni_inv_simps)
  consider "ni' = ni" | "ni' = ni1"
    | msg ni2 where "?md \<in> used_mds ni1" "lib_msg_alloc ni1 = Some (msg, ni2)"
    using op bad_md_False [of ni md_in]
    by (auto simp: do_PtlPut_def Let_def bind_eq_Some_iff ni1_def split: if_splits option.splits prod.splits)
  then show ?thesis
  proof cases
    case (3 msg ni2)
    with op show ?thesis
      by (auto simp: do_PtlPut_def Let_def bind_eq_Some_iff ni1_def [symmetric] movesI_calm
          intro!: movesI_nal [OF c1 inv1 3] calm_event split: if_splits prod.splits)
  qed (use c1 in \<open>simp_all add: movesI_calm\<close>)
qed

lemma do_PtlGet_moves:
  assumes inv: "ni_inv ni" and op: "do_PtlGet cb md_in target portal mb off ni = Some (rc, ni')"
  shows "moves ni ni'"
proof -
  let ?md = "nat (h_index md_in)"
  define ni1 where "ni1 = upd_counters (\<lambda>c. c\<lparr>send_count := s64 (send_count c + 1)\<rparr>) ni"
  have inv1: "ni_inv ni1" and c1: "calm ni ni1"
    using inv by (simp_all add: ni1_def ni_inv_simps)
  consider "ni' = ni" | "ni' = ni1"
    | msg ni2 where "?md \<in> used_mds ni1" "lib_msg_alloc ni1 = Some (msg, ni2)"
    using op bad_md_False [of ni md_in]
    by (auto simp: do_PtlGet_def Let_def bind_eq_Some_iff ni1_def split: if_splits option.splits prod.splits)
  then show ?thesis
  proof cases
    case (3 msg ni2)
    with op show ?thesis
      by (auto simp: do_PtlGet_def Let_def bind_eq_Some_iff ni1_def [symmetric] movesI_calm
          intro!: movesI_nal [OF c1 inv1 3] calm_event split: if_splits prod.splits)
  qed (use c1 in \<open>simp_all add: movesI_calm\<close>)
qed

section \<open>Completion\<close>

lemma finalize_event_calm:
  assumes "finalize_event cb msg eq ni = Some (w, ni1)"
  shows "calm ni ni1"
  by (simp add: calm_def quiet_def finalize_event_frame [OF assms])

lemma finalize_event_total:
  assumes "eq_ready ni eq"
  shows "finalize_event cb msg eq ni \<noteq> None"
proof -
  have "eq_size (ni_eq (upd_eq eq (\<lambda>q. q\<lparr>eq_sequence := eq_sequence q + 1\<rparr>)
      (upd_msg msg (\<lambda>m. m\<lparr>msg_ev := (msg_ev m)\<lparr>ev_sequence := s\<rparr>\<rparr>) ni)) eq) = eq_size (ni_eq ni eq)" for s
    by (simp add: upd_eq_def)
  with assms show ?thesis by (auto simp: finalize_event_def Let_def eq_ready_def)
qed

text \<open>The outcomes of completing a message on an interface that is up.\<close>

lemma lib_finalize_cases:
  assumes inv: "ni_inv ni" and ev: "ev_inv ni" and k: "k \<in> used_msgs ni" and up: "ni_up ni"
  obtains
    (failed) ni1 where "lib_finalize cb (Some k) ni = Some (-1, ni1)" "calm ni ni1"
      "\<not> (\<forall>t a e. cb_write cb t a e = 0)"
  | (completed) md ni2 ni3 rc where "msg_md (ni_msg ni k) = Some md" "calm ni ni2" "ni_inv ni2"
      "finalize_md md ni2 = Some ni3" "ni_inv ni3" "ni_msg_pool ni3 = ni_msg_pool ni"
      "lib_finalize cb (Some k) ni = Some (rc, lib_msg_free k ni3)"
      "md_pending (ni_md ni2 md) = md_pending (ni_md ni md)"
      "md_do_unlink (ni_md ni2 md) = md_do_unlink (ni_md ni md)" "ni_up ni3"
proof -
  from ev k obtain md where md: "msg_md (ni_msg ni k) = Some md" by (auto simp: ev_inv_def)
  then have use: "md < MAX_MDS" "md \<in> used_mds ni \<or> idle (ni_md_links ni) md \<and> md_me (ni_md ni md) = None"
    using inv k by (auto simp: ni_inv_def msgs_ok_idle)
  have "holders ni md \<noteq> {}" using md k by (auto simp: holders_def)
  then have ready: "eq_ready ni eq" if "md_eq (ni_md ni md) = Some eq" for eq
    using ev that unfolding ev_inv_def by blast
  have "(case md_eq (ni_md ni md) of None \<Rightarrow> Some (True, ni)
      | Some eq \<Rightarrow> finalize_event cb k eq ni) \<noteq> None"
    using finalize_event_total [OF ready] by (cases "md_eq (ni_md ni md)") simp_all
  then obtain w ni1 where ni1: "(case md_eq (ni_md ni md) of None \<Rightarrow> Some (True, ni)
      | Some eq \<Rightarrow> finalize_event cb k eq ni) = Some (w, ni1)" by auto
  have c1: "calm ni ni1" using ni1 finalize_event_calm by (auto split: option.splits)
  have frame: "ni_inv ni1" "ni_msg_pool ni1 = ni_msg_pool ni" "ni_md_pool ni1 = ni_md_pool ni"
      "ni_md_links ni1 = ni_md_links ni" "ni_md ni1 = ni_md ni" "ni_up ni1 = ni_up ni"
    using ni1 inv by (auto simp: finalize_event_frame split: option.splits)
  show thesis
  proof (cases w)
    case False
    then have "\<not> (\<forall>t a e. cb_write cb t a e = 0)"
      using ni1 finalize_event_written [of cb k _ ni False ni1] by (auto split: option.splits)
    with False up md ni1 c1 show ?thesis by (intro failed) (simp_all add: lib_finalize_def)
  next
    case True
    obtain rc ni2 where ack: "finalize_ack cb k ni1 = (rc, ni2)" by (cases "finalize_ack cb k ni1")
    then obtain cs where ni2: "ni2 = ni1\<lparr>ni_trace := cs\<rparr>" using finalize_ack_frame by blast
    have "calm ni1 ni2" by (simp add: ni2 calm_def quiet_trace)
    with c1 have c2: "calm ni ni2" by (rule calm_trans)
    have inv2: "ni_inv ni2" using frame(1) by (simp add: ni2 ni_inv_trace)
    obtain ni3 where ni3: "finalize_md md ni2 = Some ni3" "ni_inv ni3" "ni_msg_pool ni3 = ni_msg_pool ni2"
        "ni_up ni3 = ni_up ni2"
      using use frame by (elim finalize_md_spec [OF inv2]) (simp_all add: ni2)
    show ?thesis
      using up md ni1 True ack ni3 frame by (intro completed [OF md c2 inv2 ni3(1,2)]) (simp_all add: lib_finalize_def ni2)
  qed
qed

lemma finalize_md_quiet:
  assumes inv: "ni_inv ni" and md: "md < MAX_MDS"
    and use: "md \<in> used_mds ni \<or> idle (ni_md_links ni) md \<and> md_me (ni_md ni md) = None"
    and fin: "finalize_md md ni = Some ni'"
    and ni1: "ni1 = upd_md md (\<lambda>m. m\<lparr>md_pending := s32 (md_pending m - 1)\<rparr>) ni"
  shows "quiet ni1 ni'"
    and "m \<in> used_mds ni1 - used_mds ni' \<Longrightarrow> m = md \<and> md_pending (ni_md ni1 md) = 0 \<and> md_do_unlink (ni_md ni md)"
proof -
  have inv1: "ni_inv ni1" using inv by (simp add: ni1 ni_inv_simps)
  have sel: "used_mds ni1 = used_mds ni" "ni_md_links ni1 = ni_md_links ni" "used_mes ni1 = used_mes ni"
      "md_me (ni_md ni1 md) = md_me (ni_md ni md)" "md_do_unlink (ni_md ni1 md) = md_do_unlink (ni_md ni md)"
    by (simp_all add: ni1 upd_md_def)
  have "quiet ni1 ni' \<and> (\<forall>m. m \<in> used_mds ni1 - used_mds ni' \<longrightarrow>
      m = md \<and> md_pending (ni_md ni1 md) = 0 \<and> md_do_unlink (ni_md ni md))"
  proof (cases "md_pending (ni_md ni1 md) = 0 \<and> md_do_unlink (ni_md ni1 md)")
    case False
    then have "ni' = ni1" using fin by (auto simp: finalize_md_def Let_def ni1 [symmetric])
    then show ?thesis by simp
  next
    case True
    let ?ni2 = "lib_md_unlink md ni1"
    have q2: "quiet ni1 ?ni2" by (rule quiet_md_unlink [OF inv1 md])
    have used2: "used_mds ?ni2 = used_mds ni1 - {md}" by (rule used_mds_unlink [OF inv1 md])
    have inv2: "ni_inv ?ni2" using use by (intro lib_md_unlink_inv [OF inv1 md]) (auto simp: sel)
    consider "ni' = ?ni2" | me where "md_me (ni_md ni md) = Some me" "heads (ni_md_links ?ni2) me = None"
        "lib_me_unlink me ?ni2 = Some ni'"
      using fin True sel(4) by (auto simp: finalize_md_def Let_def ni1 [symmetric] split: option.splits if_splits)
    then show ?thesis
    proof cases
      case 1
      with q2 used2 True sel(5) show ?thesis by auto
    next
      case (2 me)
      then have "md \<in> used_mds ni" using use by auto
      with inv 2(1) have me: "me \<in> used_mes ?ni2"
        using owner_in_heads [of "used_mds ni" "used_mes ni" "ni_md_links ni" "\<lambda>m. md_me (ni_md ni m)" md me]
        by (simp add: ni_inv_def sel)
      note q3 = lib_me_unlink_quiet [OF inv2 me 2(3)]
      have "used_mds ni' = used_mds ?ni2"
      proof -
        have "mds = []" if "list_at (ni_md_links ?ni2) me mds" for mds
          using that 2(2) list_at_unique [of "ni_md_links ?ni2" me mds "[]"] by simp
        then have "used_mds ?ni2 - used_mds ni' = {}" using q3(2) by fastforce
        moreover have "used_mds ni' \<subseteq> used_mds ?ni2" using q3(1) by (simp add: quiet_def)
        ultimately show ?thesis by blast
      qed
      with quiet_trans [OF q2 q3(1)] used2 True sel(5) show ?thesis by auto
    qed
  qed
  then show "quiet ni1 ni'"
    and "m \<in> used_mds ni1 - used_mds ni' \<Longrightarrow> m = md \<and> md_pending (ni_md ni1 md) = 0 \<and> md_do_unlink (ni_md ni md)"
    by blast+
qed

text \<open>Both invariants survive a completion, and no operation is left pending twice.\<close>

lemma lib_msg_free_sel [simp]:
  "ni_md (lib_msg_free k ni) = ni_md ni" "ni_md_pool (lib_msg_free k ni) = ni_md_pool ni"
  "ni_eq (lib_msg_free k ni) = ni_eq ni" "ni_eq_pool (lib_msg_free k ni) = ni_eq_pool ni"
  "ni_msg (lib_msg_free k ni) = ni_msg ni" "ni_up (lib_msg_free k ni) = ni_up ni"
  "ni_msg_pool (lib_msg_free k ni) = pool_free k (ni_msg_pool ni)"
  by (simp_all add: lib_msg_free_def Let_def)

lemma holders_msg_free:
  assumes "ni_inv ni" "k \<in> used_msgs ni"
  shows "used_msgs (lib_msg_free k ni) = used_msgs ni - {k}"
    and "holders (lib_msg_free k ni) m = holders ni m - {k}"
proof -
  have "pool_inv MAX_MSGS (ni_msg_pool ni)" "k < MAX_MSGS"
    using assms by (simp_all add: ni_inv_def msg_pool.used_def)
  note used = msg_pool.used_free [OF this]
  show "used_msgs (lib_msg_free k ni) = used_msgs ni - {k}" by (simp add: used)
  show "holders (lib_msg_free k ni) m = holders ni m - {k}" by (auto simp: holders_def used)
qed

text \<open>Completing a message releases one hold on its descriptor.\<close>

lemma pend_inv_release:
  assumes pend: "pend_inv ni" and k: "k \<in> holders ni md"
    and hold: "\<And>m. holders ni' m = holders ni m - {k}" and used: "used_mds ni' \<subseteq> used_mds ni"
    and own: "md_pending (ni_md ni' md) = s32 (md_pending (ni_md ni md) - 1)"
    and rest: "\<And>m. m \<noteq> md \<Longrightarrow> md_pending (ni_md ni' m) = md_pending (ni_md ni m)"
    and gone: "\<And>m. m \<in> used_mds ni - used_mds ni' \<Longrightarrow> m = md \<and> md_pending (ni_md ni' md) = 0"
  shows "pend_inv ni'"
proof -
  have "int (card (holders ni md - {k})) = int (card (holders ni md)) - 1"
    using k card_Suc_Diff1 [of "holders ni md" k] by simp
  moreover have "md \<in> used_mds ni" using pend k by (auto simp: pend_inv_def)
  then have "md_pending (ni_md ni md) = int (card (holders ni md))" using pend by (simp add: pend_inv_def)
  ultimately have md: "md_pending (ni_md ni' md) = int (card (holders ni' md))"
    using own holders_card [of ni md] by (simp add: hold MAX_MSGS_def s32_id c_int_def)
  have other: "holders ni' m = holders ni m" if "m \<noteq> md" for m
    using that k hold [of m] by (auto simp: holders_def)
  show ?thesis
    unfolding pend_inv_def
  proof (intro conjI ballI allI impI)
    fix m assume "m \<in> used_mds ni'"
    with used have "m \<in> used_mds ni" by blast
    then show "md_pending (ni_md ni' m) = int (card (holders ni' m))"
      using pend md rest other by (cases "m = md") (simp_all add: pend_inv_def)
  next
    fix m assume h: "holders ni' m \<noteq> {}"
    then have "holders ni m \<noteq> {}" using hold [of m] by auto
    then have "m \<in> used_mds ni" using pend unfolding pend_inv_def by blast
    show "m \<in> used_mds ni'"
    proof (rule ccontr)
      assume "m \<notin> used_mds ni'"
      with gone [of m] \<open>m \<in> used_mds ni\<close> have "m = md" "md_pending (ni_md ni' md) = 0" by auto
      with md h show False by simp
    qed
  qed
qed

lemma lib_finalize_completed_inv2:
  assumes inv: "ni_inv ni" and ev: "ev_inv ni" and k: "k \<in> used_msgs ni"
    and md: "msg_md (ni_msg ni k) = Some md" and calm: "calm ni ni2" and inv2: "ni_inv ni2"
    and fin: "finalize_md md ni2 = Some ni3" and inv3: "ni_inv ni3" and pool: "ni_msg_pool ni3 = ni_msg_pool ni"
    and pend: "md_pending (ni_md ni2 md) = md_pending (ni_md ni md)"
    and ni': "ni' = lib_msg_free k ni3"
  shows "ev_inv ni' \<and> (pend_inv ni \<longrightarrow> pend_inv ni')"
proof -
  have same: "used_msgs ni2 = used_msgs ni" "holders ni2 m = holders ni m" "eq_ready ni2 e = eq_ready ni e"
      "md_eq (ni_md ni2 m) = md_eq (ni_md ni m)" "used_mds ni2 = used_mds ni" "msg_md (ni_msg ni2 k) = Some md"
      "md_pending (ni_md ni2 m) = md_pending (ni_md ni m)" for m e
    using calm md quiet_holders quiet_eq_ready by (auto simp: calm_def quiet_def)
  have use: "md < MAX_MDS" "md \<in> used_mds ni2 \<or> idle (ni_md_links ni2) md \<and> md_me (ni_md ni2 md) = None"
    using inv2 k same by (auto simp: ni_inv_def msgs_ok_idle)
  define n1 where "n1 = upd_md md (\<lambda>m. m\<lparr>md_pending := s32 (md_pending m - 1)\<rparr>) ni2"
  note q = finalize_md_quiet [OF inv2 use fin n1_def]
  have kh: "k \<in> holders ni md" using k md by (simp add: holders_def)
  have k3: "k \<in> used_msgs ni3" using k pool by simp
  note free = holders_msg_free [OF inv3 k3, folded ni']
  have hold: "holders n1 m = holders ni m" "used_mds n1 = used_mds ni" for m
    using same by (simp_all add: n1_def holders_def)
  have "eq_ready ni e" if "md_eq (ni_md ni md) = Some e" for e
    using ev kh that unfolding ev_inv_def by blast
  then have "ev_inv n1" unfolding n1_def
    using calm_inv2(1) [OF calm ev] same by (intro ev_inv_upd_md) simp_all
  then have ev3: "ev_inv ni3" by (rule ev_inv_quiet [OF q(1)])
  have sel: "eq_ready ni' e = eq_ready ni3 e" "used_mds ni' = used_mds ni3" "used_eqs ni' = used_eqs ni3"
      "ni_md ni' = ni_md ni3" "ni_msg ni' = ni_msg ni3" for e
    by (simp_all add: ni' eq_ready_def)
  have "ev_inv ni'" using ev3 unfolding ev_inv_def sel free by blast
  moreover have p: "md_pending (ni_md ni3 m) = md_pending (ni_md n1 m)" "used_mds ni3 \<subseteq> used_mds ni" for m
    using q(1) hold(2) by (simp_all add: quiet_def)
  have "pend_inv ni'" if "pend_inv ni"
  proof (rule pend_inv_release [OF that kh])
    show "holders ni' m = holders ni m - {k}" for m using free quiet_holders [OF q(1)] hold by simp
    show "md_pending (ni_md ni' md) = s32 (md_pending (ni_md ni md) - 1)"
      using pend by (simp add: sel p n1_def upd_md_def)
    show "m \<noteq> md \<Longrightarrow> md_pending (ni_md ni' m) = md_pending (ni_md ni m)" for m
      using same by (simp add: sel p n1_def upd_md_def)
    show "m = md \<and> md_pending (ni_md ni' md) = 0" if "m \<in> used_mds ni - used_mds ni'" for m
      using that q(2) [of m] hold(2) by (simp add: sel p)
  qed (simp add: sel p)
  ultimately show ?thesis by blast
qed

lemma lib_finalize_inv2:
  assumes inv: "ni_inv ni" and ev: "ev_inv ni" and k: "k \<in> used_msgs ni"
    and op: "lib_finalize cb (Some k) ni = Some (rc, ni')"
  shows "ev_inv ni'" "pend_inv ni \<Longrightarrow> pend_inv ni'"
proof -
  have "ev_inv ni' \<and> (pend_inv ni \<longrightarrow> pend_inv ni')"
  proof (cases "ni_up ni")
    case False
    with op ev show ?thesis by (simp add: lib_finalize_def)
  next
    case True
    from inv ev k True show ?thesis
    proof (cases rule: lib_finalize_cases [of ni k cb])
      case (failed ni1)
      with op ev calm_inv2 [OF failed(2)] show ?thesis by simp
    next
      case (completed md ni2 ni3 rc2)
      have "ni' = lib_msg_free k ni3" using op completed(7) by simp
      from lib_finalize_completed_inv2 [OF inv ev k completed(1-6) completed(8) this] show ?thesis .
    qed
  qed
  then show "ev_inv ni'" "pend_inv ni \<Longrightarrow> pend_inv ni'" by blast+
qed

end
