(* ===== verification/P30_Lib.thy ===== *)
theory P30_Lib
  imports P30_Safe
begin

text \<open>
  The interface as a whole (\<open>lib-p30/init.c\<close>, \<open>dispatch.c\<close>): initialisation, the
  dispatch of requests, shutdown; and the steps of the library, as the application and the
  network layer drive them.
\<close>

section \<open>Initialisation\<close>

text \<open>Sizes of the structures with the layout of the 64-bit compute nodes.\<close>

definition sizeof_ptr :: "64 word" where [ptl_const]: "sizeof_ptr = 8"
definition sizeof_lib_eq :: "64 word" where [ptl_const]: "sizeof_lib_eq = 32"
definition sizeof_lib_me :: "64 word" where [ptl_const]: "sizeof_lib_me = 80"
definition sizeof_lib_md :: "64 word" where [ptl_const]: "sizeof_lib_md = 104"
definition sizeof_lib_msg :: "64 word" where [ptl_const]: "sizeof_lib_msg = 144"

definition lib_malloc :: "nal_cb \<Rightarrow> 64 word \<Rightarrow> lib_ni \<Rightarrow> user_ptr \<times> lib_ni" where
  "lib_malloc cb n ni = (cb_malloc cb (ni_trace ni) n, nal_call (CB_MALLOC n) ni)"

definition zero_counters :: lib_counters where
  "zero_counters = \<lparr>recv_count = 0, recv_length = 0, send_count = 0, send_length = 0,
     drop_count = 0, drop_length = 0, msgs_alloc = 0, msgs_max = 0\<rparr>"

text \<open>
  The five allocations of \<open>lib_init\<close> in their order, each with the clean-up of the ones
  before; \<open>False\<close> is the label \<open>fail_...\<close>.
\<close>

definition lib_init_alloc :: "nal_cb \<Rightarrow> int \<Rightarrow> lib_ni \<Rightarrow> bool \<times> lib_ni" where
  "lib_init_alloc cb ptl_size ni =
     (let (tbl, ni) = lib_malloc cb (sizeof_ptr * size_t ptl_size) ni; ni = ni\<lparr>ni_tbl_ptr := tbl\<rparr>
      in if tbl = NULL_PTR then (False, ni)
      else let (eq, ni) = lib_malloc cb (sizeof_lib_eq * of_nat MAX_EQS) ni; ni = ni\<lparr>ni_eq_ptr := eq\<rparr>
      in if eq = NULL_PTR then (False, nal_call (CB_FREE tbl) ni)
      else let (me, ni) = lib_malloc cb (sizeof_lib_me * of_nat MAX_MES) ni; ni = ni\<lparr>ni_me_ptr := me\<rparr>
      in if me = NULL_PTR then (False, nal_call (CB_FREE tbl) (nal_call (CB_FREE eq) ni))
      else let (md, ni) = lib_malloc cb (sizeof_lib_md * of_nat MAX_MDS) ni; ni = ni\<lparr>ni_md_ptr := md\<rparr>
      in if md = NULL_PTR
         then (False, nal_call (CB_FREE tbl) (nal_call (CB_FREE eq) (nal_call (CB_FREE me) ni)))
      else let (msg, ni) = lib_malloc cb (sizeof_lib_msg * of_nat MAX_MSGS) ni; ni = ni\<lparr>ni_msg_ptr := msg\<rparr>
      in if msg = NULL_PTR
         then (False, nal_call (CB_FREE tbl) (nal_call (CB_FREE eq) (nal_call (CB_FREE me)
                (nal_call (CB_FREE md) ni))))
      else (True, ni))"

definition lib_init ::
  "nal_cb \<Rightarrow> int \<Rightarrow> int \<Rightarrow> int \<Rightarrow> int \<Rightarrow> int \<Rightarrow> int \<Rightarrow> lib_ni \<Rightarrow> int \<times> lib_ni" where
  "lib_init cb nid pid rid gid gsize ptl_size ni =
     (let ni1 = ni\<lparr>ni_counters := zero_counters, ni_nid := nid, ni_rid := rid, ni_gid := gid,
                   ni_pid := pid, ni_num_nodes := gsize, ni_tbl_size := ptl_size\<rparr>;
          (ok, ni2) = lib_init_alloc cb ptl_size ni1
      in if \<not> ok then (PTL_NOSPACE, ni2)
         else
           (let l = ni_me_links ni2;
                ni3 = ni2\<lparr>ni_me_links := l\<lparr>heads := (\<lambda>i. if i < nat ptl_size then None else heads l i)\<rparr>,
                  ni_me_pool := pool_init MAX_MES (ni_me_pool ni2),
                  ni_md_pool := pool_init MAX_MDS (ni_md_pool ni2),
                  ni_eq_pool := pool_init MAX_EQS (ni_eq_pool ni2),
                  ni_msg_pool := pool_init MAX_MSGS (ni_msg_pool ni2),
                  ni_debug := 0, ni_up := True\<rparr>
            in (PTL_OK, ni3)))"

section \<open>Shutdown\<close>

text \<open>The four loops over the arrays; an element in use is released.\<close>

definition fini_msgs :: "lib_ni \<Rightarrow> lib_ni" where
  "fini_msgs = fold (\<lambda>i ni. if pool_inuse (ni_msg_pool ni) i then lib_msg_free i ni else ni) [0..<MAX_MSGS]"

definition fini_eqs :: "lib_ni \<Rightarrow> lib_ni" where
  "fini_eqs = fold (\<lambda>i ni. if pool_inuse (ni_eq_pool ni) i then lib_eq_unlink i ni else ni) [0..<MAX_EQS]"

definition fini_mds :: "lib_ni \<Rightarrow> lib_ni" where
  "fini_mds = fold (\<lambda>i ni. if pool_inuse (ni_md_pool ni) i then lib_md_unlink i ni else ni) [0..<MAX_MDS]"

definition fini_mes :: "lib_ni \<Rightarrow> lib_ni" where
  "fini_mes = fold (\<lambda>i ni. if pool_inuse (ni_me_pool ni) i then lib_me_free i ni else ni) [0..<MAX_MES]"

definition lib_fini :: "lib_ni \<Rightarrow> int \<times> lib_ni" where
  "lib_fini ni =
     (let ni1 = fini_mes (fini_mds (fini_eqs (fini_msgs ni)));
          ni2 = nal_call (CB_FREE (ni_msg_ptr ni1)) ni1;
          ni3 = nal_call (CB_FREE (ni_md_ptr ni2)) ni2;
          ni4 = nal_call (CB_FREE (ni_me_ptr ni3)) ni3;
          ni5 = nal_call (CB_FREE (ni_eq_ptr ni4)) ni4;
          ni6 = nal_call (CB_FREE (ni_tbl_ptr ni5)) ni5
      in (0, ni6\<lparr>ni_up := False\<rparr>))"

section \<open>Dispatch\<close>

text \<open>
  The argument blocks and the return blocks, one constructor per entry of the dispatch
  table, in its order.
\<close>

datatype lib_args =
    GetId_in
  | TransId_in ptl_process_id
  | NIStatus_in "ptl_sr_index option"
  | NIDist_in ptl_process_id
  | NIDebug_in "32 word"
  | MEAttach_in int int ptl_process_id "64 word" "64 word" ptl_unlink
  | MEInsert_in int ptl_process_id "64 word" "64 word" ptl_unlink ptl_ins_pos
  | MEUnlink_in int
  | TblDump_in int
  | MEDump_in int
  | MDAttach_in int ptl_md ptl_unlink
  | MDInsert_in int ptl_md ptl_unlink ptl_ins_pos
  | MDBind_in int ptl_md
  | MDUpdate_in int bool "ptl_md option" int "32 word"
  | MDUnlink_in int
  | EQAlloc_in int int user_ptr
  | EQFree_in int
  | ACEntry_in "(int \<times> int \<times> ptl_process_id \<times> int) option"
  | Put_in int ptl_ack_req ptl_process_id int "64 word" int "64 word"
  | Get_in int ptl_process_id int "64 word" int

datatype lib_ret =
    RC_out int
  | GetId_out int ptl_process_id int
  | TransId_out int ptl_process_id
  | NIStatus_out int "int option"
  | NIDist_out "int option" "64 word"
  | Handle_out int "int option"
  | Dump_out int "me_dump list"
  | MD_out int "ptl_md option"

text \<open>The indices of the calls (\<open>lib-dispatch.h\<close>).\<close>

definition PTL_GETID :: int where [ptl_const]: "PTL_GETID = 0"
definition PTL_TRANSID :: int where [ptl_const]: "PTL_TRANSID = 1"
definition PTL_NISTATUS :: int where [ptl_const]: "PTL_NISTATUS = 2"
definition PTL_NIDIST :: int where [ptl_const]: "PTL_NIDIST = 3"
definition PTL_NIDEBUG :: int where [ptl_const]: "PTL_NIDEBUG = 4"
definition PTL_MEATTACH :: int where [ptl_const]: "PTL_MEATTACH = 5"
definition PTL_MEINSERT :: int where [ptl_const]: "PTL_MEINSERT = 6"
definition PTL_MEUNLINK :: int where [ptl_const]: "PTL_MEUNLINK = 7"
definition PTL_TBLDUMP :: int where [ptl_const]: "PTL_TBLDUMP = 8"
definition PTL_MEDUMP :: int where [ptl_const]: "PTL_MEDUMP = 9"
definition PTL_MDATTACH :: int where [ptl_const]: "PTL_MDATTACH = 10"
definition PTL_MDINSERT :: int where [ptl_const]: "PTL_MDINSERT = 11"
definition PTL_MDBIND :: int where [ptl_const]: "PTL_MDBIND = 12"
definition PTL_MDUPDATE :: int where [ptl_const]: "PTL_MDUPDATE = 13"
definition PTL_MDUNLINK :: int where [ptl_const]: "PTL_MDUNLINK = 14"
definition PTL_EQALLOC :: int where [ptl_const]: "PTL_EQALLOC = 15"
definition PTL_EQFREE :: int where [ptl_const]: "PTL_EQFREE = 16"
definition PTL_ACENTRY :: int where [ptl_const]: "PTL_ACENTRY = 17"
definition PTL_PUT :: int where [ptl_const]: "PTL_PUT = 18"
definition PTL_GET :: int where [ptl_const]: "PTL_GET = 19"
definition LIB_MAX_DISPATCH :: int where [ptl_const]: "LIB_MAX_DISPATCH = 20"

lemmas call_index_defs = PTL_GETID_def PTL_TRANSID_def PTL_NISTATUS_def PTL_NIDIST_def PTL_NIDEBUG_def PTL_MEATTACH_def PTL_MEINSERT_def PTL_MEUNLINK_def PTL_TBLDUMP_def PTL_MEDUMP_def PTL_MDATTACH_def PTL_MDINSERT_def PTL_MDBIND_def PTL_MDUPDATE_def PTL_MDUNLINK_def PTL_EQALLOC_def PTL_EQFREE_def PTL_ACENTRY_def PTL_PUT_def PTL_GET_def

text \<open>The index of the call that builds a block.\<close>

fun dispatch_index :: "lib_args \<Rightarrow> int" where
  "dispatch_index GetId_in = PTL_GETID"
| "dispatch_index (TransId_in _) = PTL_TRANSID"
| "dispatch_index (NIStatus_in _) = PTL_NISTATUS"
| "dispatch_index (NIDist_in _) = PTL_NIDIST"
| "dispatch_index (NIDebug_in _) = PTL_NIDEBUG"
| "dispatch_index (MEAttach_in _ _ _ _ _ _) = PTL_MEATTACH"
| "dispatch_index (MEInsert_in _ _ _ _ _ _) = PTL_MEINSERT"
| "dispatch_index (MEUnlink_in _) = PTL_MEUNLINK"
| "dispatch_index (TblDump_in _) = PTL_TBLDUMP"
| "dispatch_index (MEDump_in _) = PTL_MEDUMP"
| "dispatch_index (MDAttach_in _ _ _) = PTL_MDATTACH"
| "dispatch_index (MDInsert_in _ _ _ _) = PTL_MDINSERT"
| "dispatch_index (MDBind_in _ _) = PTL_MDBIND"
| "dispatch_index (MDUpdate_in _ _ _ _ _) = PTL_MDUPDATE"
| "dispatch_index (MDUnlink_in _) = PTL_MDUNLINK"
| "dispatch_index (EQAlloc_in _ _ _) = PTL_EQALLOC"
| "dispatch_index (EQFree_in _) = PTL_EQFREE"
| "dispatch_index (ACEntry_in _) = PTL_ACENTRY"
| "dispatch_index (Put_in _ _ _ _ _ _ _) = PTL_PUT"
| "dispatch_index (Get_in _ _ _ _ _) = PTL_GET"

text \<open>
  The functions of the library by name, the function that reads a block, and the dispatch
  table (\<open>dispatch.c\<close>), which must be in the order of the indices.
\<close>

datatype lib_fun =
    Do_PtlGetId
  | Do_PtlTransId
  | Do_PtlNIStatus
  | Do_PtlNIDist
  | Do_PtlNIDebug
  | Do_PtlMEAttach
  | Do_PtlMEInsert
  | Do_PtlMEUnlink
  | Do_PtlTblDump
  | Do_PtlMEDump
  | Do_PtlMDAttach_internal
  | Do_PtlMDInsert_internal
  | Do_PtlMDBind_internal
  | Do_PtlMDUpdate_internal
  | Do_PtlMDUnlink_internal
  | Do_PtlEQAlloc_internal
  | Do_PtlEQFree_internal
  | Do_PtlACEntry
  | Do_PtlPut
  | Do_PtlGet

fun reader_of :: "lib_args \<Rightarrow> lib_fun" where
  "reader_of GetId_in = Do_PtlGetId"
| "reader_of (TransId_in _) = Do_PtlTransId"
| "reader_of (NIStatus_in _) = Do_PtlNIStatus"
| "reader_of (NIDist_in _) = Do_PtlNIDist"
| "reader_of (NIDebug_in _) = Do_PtlNIDebug"
| "reader_of (MEAttach_in _ _ _ _ _ _) = Do_PtlMEAttach"
| "reader_of (MEInsert_in _ _ _ _ _ _) = Do_PtlMEInsert"
| "reader_of (MEUnlink_in _) = Do_PtlMEUnlink"
| "reader_of (TblDump_in _) = Do_PtlTblDump"
| "reader_of (MEDump_in _) = Do_PtlMEDump"
| "reader_of (MDAttach_in _ _ _) = Do_PtlMDAttach_internal"
| "reader_of (MDInsert_in _ _ _ _) = Do_PtlMDInsert_internal"
| "reader_of (MDBind_in _ _) = Do_PtlMDBind_internal"
| "reader_of (MDUpdate_in _ _ _ _ _) = Do_PtlMDUpdate_internal"
| "reader_of (MDUnlink_in _) = Do_PtlMDUnlink_internal"
| "reader_of (EQAlloc_in _ _ _) = Do_PtlEQAlloc_internal"
| "reader_of (EQFree_in _) = Do_PtlEQFree_internal"
| "reader_of (ACEntry_in _) = Do_PtlACEntry"
| "reader_of (Put_in _ _ _ _ _ _ _) = Do_PtlPut"
| "reader_of (Get_in _ _ _ _ _) = Do_PtlGet"

definition dispatch_table :: "lib_fun list" where
  "dispatch_table = [
     Do_PtlGetId, Do_PtlTransId, Do_PtlNIStatus, Do_PtlNIDist,
     Do_PtlNIDebug, Do_PtlMEAttach, Do_PtlMEInsert, Do_PtlMEUnlink,
     Do_PtlTblDump, Do_PtlMEDump, Do_PtlMDAttach_internal, Do_PtlMDInsert_internal,
     Do_PtlMDBind_internal, Do_PtlMDUpdate_internal, Do_PtlMDUnlink_internal, Do_PtlEQAlloc_internal,
     Do_PtlEQFree_internal, Do_PtlACEntry, Do_PtlPut, Do_PtlGet]"

text \<open>What the functions of the dispatch table do with their blocks.\<close>

fun dispatch_fun :: "nal_cb \<Rightarrow> lib_args \<Rightarrow> lib_ni \<Rightarrow> (lib_ret \<times> lib_ni) option" where
  "dispatch_fun cb GetId_in ni = (case do_PtlGetId ni of (rc, i, n) \<Rightarrow> Some (GetId_out rc i n, ni))"
| "dispatch_fun cb (TransId_in i) ni = (case do_PtlTransId cb i ni of (rc, j) \<Rightarrow> Some (TransId_out rc j, ni))"
| "dispatch_fun cb (NIStatus_in r) ni = (case do_PtlNIStatus r ni of (rc, v) \<Rightarrow> Some (NIStatus_out rc v, ni))"
| "dispatch_fun cb (NIDist_in i) ni = (case do_PtlNIDist cb i ni of (rc, d) \<Rightarrow> Some (NIDist_out rc d, ni))"
| "dispatch_fun cb (NIDebug_in m) ni = (case do_PtlNIDebug m ni of (rc, ni') \<Rightarrow> Some (RC_out rc, ni'))"
| "dispatch_fun cb (MEAttach_in h idx i mb ib u) ni =
     map_option (\<lambda>((rc, h), ni'). (Handle_out rc h, ni')) (do_PtlMEAttach h idx i mb ib u ni)"
| "dispatch_fun cb (MEInsert_in h i mb ib u pos) ni =
     map_option (\<lambda>((rc, h), ni'). (Handle_out rc h, ni')) (do_PtlMEInsert h i mb ib u pos ni)"
| "dispatch_fun cb (MEUnlink_in h) ni = map_option (\<lambda>(rc, ni'). (RC_out rc, ni')) (do_PtlMEUnlink h ni)"
| "dispatch_fun cb (TblDump_in idx) ni = map_option (\<lambda>(rc, ds). (Dump_out rc ds, ni)) (do_PtlTblDump idx ni)"
| "dispatch_fun cb (MEDump_in h) ni = map_option (\<lambda>(rc, ds). (Dump_out rc ds, ni)) (do_PtlMEDump h ni)"
| "dispatch_fun cb (MDAttach_in h md u) ni =
     map_option (\<lambda>((rc, h), ni'). (Handle_out rc h, ni')) (do_PtlMDAttach_internal cb h md u ni)"
| "dispatch_fun cb (MDInsert_in h md u pos) ni =
     map_option (\<lambda>((rc, h), ni'). (Handle_out rc h, ni')) (do_PtlMDInsert_internal cb h md u pos ni)"
| "dispatch_fun cb (MDBind_in h md) ni =
     map_option (\<lambda>((rc, h), ni'). (Handle_out rc h, ni')) (do_PtlMDBind_internal cb h md ni)"
| "dispatch_fun cb (MDUpdate_in h old new testq seq) ni =
     map_option (\<lambda>((rc, md), ni'). (MD_out rc md, ni')) (do_PtlMDUpdate_internal cb h old new testq seq ni)"
| "dispatch_fun cb (MDUnlink_in h) ni =
     map_option (\<lambda>((rc, md), ni'). (MD_out rc md, ni')) (do_PtlMDUnlink_internal h ni)"
| "dispatch_fun cb (EQAlloc_in h n b) ni =
     (case do_PtlEQAlloc_internal h n b ni of ((rc, h), ni') \<Rightarrow> Some (Handle_out rc h, ni'))"
| "dispatch_fun cb (EQFree_in h) ni = map_option (\<lambda>(rc, ni'). (RC_out rc, ni')) (do_PtlEQFree_internal h ni)"
| "dispatch_fun cb (ACEntry_in a) ni = Some (RC_out (do_PtlACEntry a), ni)"
| "dispatch_fun cb (Put_in md ack i p mb off dat) ni =
     map_option (\<lambda>(rc, ni'). (RC_out rc, ni')) (do_PtlPut cb md ack i p mb off dat ni)"
| "dispatch_fun cb (Get_in md i p mb off) ni =
     map_option (\<lambda>(rc, ni'). (RC_out rc, ni')) (do_PtlGet cb md i p mb off ni)"

text \<open>
  The dispatch table has the 20 functions and an empty entry that ends it.  An index for
  another function than the block was built for is undefined: the function reads the block
  as its own type.  A call that is refused writes no return block.
\<close>

definition lib_dispatch ::
  "nal_cb \<Rightarrow> int \<Rightarrow> lib_args \<Rightarrow> lib_ni \<Rightarrow> (lib_ret option \<times> lib_ni) option" where
  "lib_dispatch cb index arg_block ni =
     (if index < 0 \<or> index > LIB_MAX_DISPATCH \<or> index = LIB_MAX_DISPATCH then Some (None, ni)
      else if dispatch_table ! nat index = reader_of arg_block
      then map_option (\<lambda>(ret, ni'). (Some ret, ni')) (dispatch_fun cb arg_block ni)
      else None)"

lemma dispatch_index_table:
  "0 \<le> dispatch_index args" "dispatch_index args < LIB_MAX_DISPATCH" "dispatch_table ! nat (dispatch_index args) = reader_of args"
  by (cases args; simp add: call_index_defs LIB_MAX_DISPATCH_def dispatch_table_def)+

lemma lib_dispatch_index:
  "lib_dispatch cb (dispatch_index args) args ni =
     map_option (\<lambda>(ret, ni'). (Some ret, ni')) (dispatch_fun cb args ni)"
  using dispatch_index_table [of args] by (simp add: lib_dispatch_def)

section \<open>Initialisation establishes the invariants\<close>

lemma lib_malloc_sel [simp]:
  "ni_counters (snd (lib_malloc cb n ni)) = ni_counters ni"
  "ni_tbl_size (snd (lib_malloc cb n ni)) = ni_tbl_size ni"
  by (simp_all add: lib_malloc_def)

lemma lib_init_alloc_sel:
  "ni_counters (snd (lib_init_alloc cb n ni)) = ni_counters ni"
  "ni_tbl_size (snd (lib_init_alloc cb n ni)) = ni_tbl_size ni"
  by (simp_all add: lib_init_alloc_def lib_malloc_def Let_def)

lemma pool_init_used:
  "me_pool.used (pool_init MAX_MES p) = {}" "md_pool.used (pool_init MAX_MDS p) = {}"
  "eq_pool.used (pool_init MAX_EQS p) = {}" "msg_pool.used (pool_init MAX_MSGS p) = {}"
  by (auto simp: me_pool.used_def md_pool.used_def eq_pool.used_def msg_pool.used_def pool_init_free)

lemma wf_links_empty: "(\<And>h. h \<in> hs \<Longrightarrow> heads l h = None) \<Longrightarrow> wf_links {} hs l"
  by (intro wf_linksI) (simp_all add: link_edges_def acyclic_def)

lemma lib_init_establishes:
  assumes "lib_init cb nid pid rid gid gsize ptl_size ni = (PTL_OK, ni')"
  shows "ni_inv ni'" "ev_inv ni'" "pend_inv ni'" "ni_up ni'"
    "used_mes ni' = {}" "used_mds ni' = {}" "used_eqs ni' = {}" "used_msgs ni' = {}"
proof -
  let ?ni1 = "ni\<lparr>ni_counters := zero_counters, ni_nid := nid, ni_rid := rid, ni_gid := gid,
                   ni_pid := pid, ni_num_nodes := gsize, ni_tbl_size := ptl_size\<rparr>"
  obtain ok ni2 where ni2: "lib_init_alloc cb ptl_size ?ni1 = (ok, ni2)"
    by (cases "lib_init_alloc cb ptl_size ?ni1")
  with lib_init_alloc_sel [of cb ptl_size ?ni1]
  have sel: "ni_counters ni2 = zero_counters" "ni_tbl_size ni2 = ptl_size" by simp_all
  have ok and ni': "ni' = ni2\<lparr>ni_me_links := (ni_me_links ni2)\<lparr>heads :=
         (\<lambda>i. if i < nat ptl_size then None else heads (ni_me_links ni2) i)\<rparr>,
       ni_me_pool := pool_init MAX_MES (ni_me_pool ni2), ni_md_pool := pool_init MAX_MDS (ni_md_pool ni2),
       ni_eq_pool := pool_init MAX_EQS (ni_eq_pool ni2), ni_msg_pool := pool_init MAX_MSGS (ni_msg_pool ni2),
       ni_debug := 0, ni_up := True\<rparr>"
    using assms ni2 by (auto simp: lib_init_def Let_def PTL_OK_def PTL_NOSPACE_def split: if_splits)
  show used: "used_mes ni' = {}" "used_mds ni' = {}" "used_eqs ni' = {}" "used_msgs ni' = {}"
    by (simp_all add: ni' pool_init_used)
  show "ni_up ni'" by (simp add: ni')
  have "wf_links {} (portals ni') (ni_me_links ni')" "wf_links {} {} (ni_md_links ni')"
    by (intro wf_links_empty; simp add: ni' portals_def sel)+
  then show "ni_inv ni'"
    unfolding ni_inv_def msgs_ok_def counters_ok_def owner_ok_def used
    by (simp add: ni' pool_init_inv sel zero_counters_def)
  show "ev_inv ni'" "pend_inv ni'"
    using used by (simp_all add: ev_inv_def pend_inv_def holders_def)
qed

section \<open>Requests keep the invariants\<close>

text \<open>
  A queue that is to hold no events, and an unlink while operations are pending, are what the
  library does not guard against.
\<close>

fun sane_args :: "lib_args \<Rightarrow> bool" where
  "sane_args (EQAlloc_in h n b) \<longleftrightarrow> (of_int n :: 32 word) \<noteq> 0"
| "sane_args _ \<longleftrightarrow> True"

fun idle_args :: "lib_args \<Rightarrow> lib_ni \<Rightarrow> bool" where
  "idle_args (MDUnlink_in h) ni \<longleftrightarrow> md_pending (ni_md ni (nat (h_index h))) = 0"
| "idle_args (MEUnlink_in h) ni \<longleftrightarrow>
     (\<forall>mds m. list_at (ni_md_links ni) (nat (h_index h)) mds \<longrightarrow> m \<in> set mds \<longrightarrow> md_pending (ni_md ni m) = 0)"
| "idle_args _ ni \<longleftrightarrow> True"

lemma dispatch_fun_inv:
  assumes inv: "ni_inv ni" and op: "dispatch_fun cb args ni = Some (ret, ni')"
  shows "ni_inv ni'"
proof (cases args)
  case (NIDebug_in m)
  with op inv show ?thesis by (auto simp: do_PtlNIDebug_def ni_inv_simps)
next
  case (EQAlloc_in h n b)
  with op inv show ?thesis
    using do_PtlEQAlloc_internal_inv [OF inv, of h n b] by (auto split: prod.splits)
qed (use op inv in \<open>auto split: prod.splits
    dest: do_PtlMEAttach_inv do_PtlMEInsert_inv do_PtlMEUnlink_inv do_PtlMDAttach_internal_inv
      do_PtlMDInsert_internal_inv do_PtlMDBind_internal_inv do_PtlMDUpdate_internal_inv
      do_PtlMDUnlink_internal_inv do_PtlEQFree_internal_inv do_PtlPut_inv do_PtlGet_inv\<close>)

lemma calm_debug: "calm ni (ni\<lparr>ni_debug := m\<rparr>)"
  by (simp add: calm_def quiet_def)

lemma calm_MEAttach: "do_PtlMEAttach h idx i mb ib u ni = Some (ret, ni') \<Longrightarrow> calm ni ni'"
  using do_PtlMEAttach_quiet unfolding calm_def by blast

lemma calm_MEInsert: "ni_inv ni \<Longrightarrow> do_PtlMEInsert h i mb ib u pos ni = Some (ret, ni') \<Longrightarrow> calm ni ni'"
  using do_PtlMEInsert_quiet unfolding calm_def by blast

lemma calm_EQFree: "ni_inv ni \<Longrightarrow> do_PtlEQFree_internal h ni = Some (ret, ni') \<Longrightarrow> calm ni ni'"
  using do_PtlEQFree_internal_quiet unfolding calm_def by blast

lemma dispatch_fun_ev_inv:
  assumes inv: "ni_inv ni" and op: "dispatch_fun cb args ni = Some (ret, ni')"
    and ev: "ev_inv ni" "sane_args args"
  shows "ev_inv ni'"
proof (cases args)
  case (NIDebug_in m)
  with op ev calm_inv2(1) [OF calm_debug] show ?thesis by (auto simp: do_PtlNIDebug_def)
next
  case (EQAlloc_in h n b)
  obtain r n' where "do_PtlEQAlloc_internal h n b ni = (r, n')" by (cases "do_PtlEQAlloc_internal h n b ni")
  with do_PtlEQAlloc_internal_inv2(1) [OF inv this] EQAlloc_in op ev show ?thesis
    by (auto split: prod.splits)
next
  case (MEAttach_in h idx i mb ib u)
  with op ev show ?thesis by (auto split: prod.splits dest!: calm_MEAttach dest: calm_inv2(1))
next
  case (MEInsert_in h i mb ib u pos)
  with op ev show ?thesis by (auto split: prod.splits dest!: calm_MEInsert [OF inv] dest: calm_inv2(1))
next
  case (EQFree_in h)
  with op ev show ?thesis by (auto split: prod.splits dest!: calm_EQFree [OF inv] dest: calm_inv2(1))
next
  case (Put_in md ack i p mb off dat)
  with op ev show ?thesis by (auto split: prod.splits dest!: do_PtlPut_moves [OF inv] dest: moves_inv2(1))
next
  case (Get_in md i p mb off)
  with op ev show ?thesis by (auto split: prod.splits dest!: do_PtlGet_moves [OF inv] dest: moves_inv2(1))
qed (use op ev in \<open>auto split: prod.splits
    dest: do_PtlMEUnlink_inv2(1) [OF inv] do_PtlMDAttach_internal_inv2(1) [OF inv]
      do_PtlMDInsert_internal_inv2(1) [OF inv] do_PtlMDBind_internal_inv2(1) [OF inv]
      do_PtlMDUpdate_internal_inv2(1) [OF inv] do_PtlMDUnlink_internal_inv2(1) [OF inv]\<close>)

lemma dispatch_fun_pend_inv:
  assumes inv: "ni_inv ni" and op: "dispatch_fun cb args ni = Some (ret, ni')"
    and sane: "sane_args args" and pend: "pend_inv ni" "idle_args args ni"
  shows "pend_inv ni'"
proof (cases args)
  case (NIDebug_in m)
  with op pend calm_inv2(2) [OF calm_debug] show ?thesis by (auto simp: do_PtlNIDebug_def)
next
  case (EQAlloc_in h n b)
  obtain r n' where "do_PtlEQAlloc_internal h n b ni = (r, n')" by (cases "do_PtlEQAlloc_internal h n b ni")
  with do_PtlEQAlloc_internal_inv2(2) [OF inv this] EQAlloc_in op sane pend show ?thesis
    by (auto split: prod.splits)
next
  case (MEAttach_in h idx i mb ib u)
  with op pend show ?thesis by (auto split: prod.splits dest!: calm_MEAttach dest: calm_inv2(2))
next
  case (MEInsert_in h i mb ib u pos)
  with op pend show ?thesis by (auto split: prod.splits dest!: calm_MEInsert [OF inv] dest: calm_inv2(2))
next
  case (EQFree_in h)
  with op pend show ?thesis by (auto split: prod.splits dest!: calm_EQFree [OF inv] dest: calm_inv2(2))
next
  case (Put_in md ack i p mb off dat)
  with op pend show ?thesis by (auto split: prod.splits dest!: do_PtlPut_moves [OF inv] dest: moves_inv2(2))
next
  case (Get_in md i p mb off)
  with op pend show ?thesis by (auto split: prod.splits dest!: do_PtlGet_moves [OF inv] dest: moves_inv2(2))
next
  case (MEUnlink_in h)
  with op pend show ?thesis
    by (auto split: prod.splits elim!: do_PtlMEUnlink_inv2(2) [OF inv])
next
  case (MDUnlink_in h)
  with op pend show ?thesis
    by (auto split: prod.splits elim!: do_PtlMDUnlink_internal_inv2(2) [OF inv])
qed (use op pend in \<open>auto split: prod.splits
    dest: do_PtlMDAttach_internal_inv2(2) [OF inv]
      do_PtlMDInsert_internal_inv2(2) [OF inv] do_PtlMDBind_internal_inv2(2) [OF inv]
      do_PtlMDUpdate_internal_inv2(2) [OF inv]\<close>)

section \<open>Where a request can fault\<close>

text \<open>
  The boundary of the range tests: an index equal to the size of the array that is read.
\<close>

fun at_boundary :: "lib_args \<Rightarrow> lib_ni \<Rightarrow> bool" where
  "at_boundary (MEAttach_in _ idx _ _ _ _) ni \<longleftrightarrow> idx = ni_tbl_size ni"
| "at_boundary (MEInsert_in h _ _ _ _ _) ni \<longleftrightarrow> h_index h = int MAX_MES"
| "at_boundary (MEUnlink_in h) ni \<longleftrightarrow> h_index h = int MAX_MES"
| "at_boundary (TblDump_in idx) ni \<longleftrightarrow> idx = ni_tbl_size ni"
| "at_boundary (MEDump_in h) ni \<longleftrightarrow> h_index h = int MAX_MES"
| "at_boundary (MDAttach_in h md _) ni \<longleftrightarrow> h_index h = int MAX_MES \<or> md_fault md"
| "at_boundary (MDInsert_in h md _ _) ni \<longleftrightarrow> h_index h = int MAX_MDS \<or> md_fault md"
| "at_boundary (MDBind_in _ md) ni \<longleftrightarrow> md_fault md"
| "at_boundary (MDUpdate_in h _ new testq _) ni \<longleftrightarrow> h_index h = int MAX_MDS \<or>
     (\<exists>md. new = Some md \<and> (testq \<noteq> PTL_EQ_NONE \<and> h_index testq = int MAX_EQS \<or> pm_eventq md = int MAX_EQS))"
| "at_boundary (MDUnlink_in h) ni \<longleftrightarrow> h_index h = int MAX_MDS"
| "at_boundary (EQFree_in h) ni \<longleftrightarrow> h_index h = int MAX_EQS"
| "at_boundary (Put_in h _ _ _ _ _ _) ni \<longleftrightarrow> h_index h = int MAX_MDS"
| "at_boundary (Get_in h _ _ _ _) ni \<longleftrightarrow> h_index h = int MAX_MDS"
| "at_boundary _ ni \<longleftrightarrow> False"

lemma do_PtlMDUpdate_internal_None:
  assumes "do_PtlMDUpdate_internal cb h old new testq seq ni = None"
  shows "at_boundary (MDUpdate_in h old new testq seq) ni"
proof -
  have ready: "md_update_ready eq seq ni = None \<Longrightarrow> md_update_testq testq md ni = Inr eq \<Longrightarrow>
      testq \<noteq> PTL_EQ_NONE \<and> h_index testq = int MAX_EQS" for eq md
    by (auto simp: md_update_ready_def md_update_testq_def eq_at_def Let_def split: option.splits if_splits)
  have evq: "md_update_eq md n = None \<Longrightarrow> pm_eventq md = int MAX_EQS" for md n
    by (auto simp: md_update_eq_def bind_eq_None_iff inuse_at_def split: if_splits)
  show ?thesis
  proof (rule ccontr)
    assume nb: "\<not> at_boundary (MDUpdate_in h old new testq seq) ni"
    then obtain bad where bad: "bad_md ni (h_index h) = Some bad"
      using bad_index_None [of MAX_MDS "ni_md_pool ni" "h_index h"] by (cases "bad_md ni (h_index h)") auto
    note defs = do_PtlMDUpdate_internal_def Let_def
    have False if md: "\<not> bad" "new = Some md" and eq: "md_update_testq testq (nat (h_index h)) ni = Inr eq" for md eq
    proof -
      obtain r where r: "md_update_ready eq seq ni = Some r"
        using ready [OF _ eq] nb md by (cases "md_update_ready eq seq ni") auto
      obtain ok ni1 where v: "md_update_validate cb md (nat (h_index h)) ni = (ok, ni1)"
        by (cases "md_update_validate cb md (nat (h_index h)) ni")
      obtain e where "md_update_eq md ni1 = Some e"
        using evq [of md ni1] nb md by (cases "md_update_eq md ni1") auto
      with assms bad md eq r v show False by (cases r; cases ok) (simp_all add: defs)
    qed
    then show False
      using assms bad by (cases bad; cases new; cases "md_update_testq testq (nat (h_index h)) ni") (auto simp: defs)
  qed
qed

lemma do_PtlTblDump_total:
  assumes "ni_inv ni" "0 \<le> idx" "idx < ni_tbl_size ni" "list_at (ni_me_links ni) (nat idx) mes"
  shows "do_PtlTblDump idx ni = Some (PTL_OK, map (\<lambda>m. lib_me_dump m (int m) ni) mes)"
  using tbl_dump_loop_seg [of ni "heads (ni_me_links ni) (nat idx)" mes] assms
  by (simp add: do_PtlTblDump_def list_at_def)

lemma do_PtlTblDump_None:
  assumes inv: "ni_inv ni" and op: "do_PtlTblDump idx ni = None"
  shows "idx = ni_tbl_size ni"
proof (rule ccontr)
  assume "idx \<noteq> ni_tbl_size ni"
  with op have idx: "0 \<le> idx" "idx < ni_tbl_size ni" by (auto simp: do_PtlTblDump_def split: if_splits)
  have "wf_links (used_mes ni) (portals ni) (ni_me_links ni)" "nat idx \<in> portals ni"
    using inv idx by (simp_all add: ni_inv_def portals_def)
  then obtain mes where "list_at (ni_me_links ni) (nat idx) mes"
    using list_at_exists [OF _ me_pool.used_finite] by blast
  with do_PtlTblDump_total [OF inv idx] op show False by simp
qed

lemma dispatch_fun_None:
  assumes inv: "ni_inv ni" and op: "dispatch_fun cb args ni = None"
  shows "at_boundary args ni"
proof (cases args)
  case (MEAttach_in h idx i mb ib u)
  with op show ?thesis by (cases rule: do_PtlMEAttach_cases [of h idx i mb ib u ni]) auto
next
  case (MEInsert_in h i mb ib u pos)
  from inv show ?thesis
    by (cases rule: do_PtlMEInsert_cases [of ni h i mb ib u pos]) (use MEInsert_in op in auto)
next
  case (MEUnlink_in h)
  from inv show ?thesis
    by (cases rule: do_PtlMEUnlink_cases [of ni h]) (use MEUnlink_in op in auto)
next
  case (TblDump_in idx)
  with op show ?thesis using do_PtlTblDump_None [OF inv] by auto
next
  case (MDAttach_in h md u)
  with op show ?thesis by (cases rule: do_PtlMDAttach_internal_cases [of cb h md u ni]) auto
next
  case (MDInsert_in h md u pos)
  from inv show ?thesis
    by (cases rule: do_PtlMDInsert_internal_cases [of ni cb h md u pos]) (use MDInsert_in op in auto)
next
  case (MDBind_in h md)
  with op show ?thesis by (cases rule: do_PtlMDBind_internal_cases [of cb h md ni]) auto
next
  case (MDUnlink_in h)
  with op show ?thesis by (cases rule: do_PtlMDUnlink_internal_cases [of h ni]) auto
next
  case (EQFree_in h)
  with op show ?thesis by (cases rule: do_PtlEQFree_internal_cases [of h ni]) auto
next
  case (MDUpdate_in h old new testq seq)
  with op do_PtlMDUpdate_internal_None show ?thesis by auto
qed (use op in \<open>auto simp: do_PtlMEDump_def do_PtlPut_def do_PtlGet_def Let_def bad_index_None
    split: prod.splits\<close>)

fun hdr_at_boundary :: "ptl_hdr \<Rightarrow> lib_ni \<Rightarrow> bool" where
  "hdr_at_boundary hdr ni =
     (case hdr_msg hdr of
        MSG_ACK ack \<Rightarrow> h_index (ack_dst_md ack) = int MAX_MDS
      | MSG_PUT put \<Rightarrow> put_ptl_index put = ni_tbl_size ni
      | MSG_GET get \<Rightarrow> get_ptl_index get = ni_tbl_size ni
      | MSG_REPLY reply \<Rightarrow> h_index (reply_dst_md reply) = int MAX_MDS
      | _ \<Rightarrow> False)"

lemma lib_find_md_None:
  assumes "ni_inv ni" "lib_find_md src idx type rlength roffset mb ni = None"
  shows "idx = ni_tbl_size ni"
  using assms(1)
  by (cases rule: lib_find_md_cases [of ni src idx type rlength roffset mb]) (use assms(2) in auto)

lemma lib_parse_None:
  assumes inv: "ni_inv ni" and op: "lib_parse cb hdr ni = None"
  shows "hdr_at_boundary hdr ni"
proof (cases "hdr_msg hdr")
  case (MSG_PUT put)
  with op have "lib_find_md (hdr_src hdr) (put_ptl_index put) PTL_MSG_PUT (put_length put) (put_offset put)
      (put_match_bits put) ni = None"
    by (auto simp: lib_parse_def parse_put_def Let_def bind_eq_None_iff split: prod.splits)
  from lib_find_md_None [OF inv this] MSG_PUT show ?thesis by simp
next
  case (MSG_GET get)
  let ?ni = "nal_call (CB_RECV None NULL_PTR 0 0) ni"
  from MSG_GET op have "lib_find_md (hdr_src hdr) (get_ptl_index get) PTL_MSG_GET (get_length get)
      (get_src_offset get) (get_match_bits get) ?ni = None"
    by (auto simp: lib_parse_def parse_get_def Let_def bind_eq_None_iff split: prod.splits)
  from lib_find_md_None [OF _ this] MSG_GET inv show ?thesis by (simp add: ni_inv_simps)
qed (use op in \<open>auto simp: lib_parse_def parse_ack_def parse_reply_def Let_def bad_index_None\<close>)

section \<open>The steps of the library\<close>

text \<open>
  The library runs when the application calls it (under the dispatch lock), when a message
  comes in, and when the network layer completes a message that the library handed to it.
\<close>

inductive lib_step :: "nal_cb \<Rightarrow> lib_ni \<Rightarrow> lib_ni \<Rightarrow> bool" for cb where
  api: "ni_up ni \<Longrightarrow> lib_dispatch cb idx args ni = Some (ret, ni') \<Longrightarrow> lib_step cb ni ni'"
| incoming: "ni_up ni \<Longrightarrow> lib_parse cb hdr ni = Some (rc, ni') \<Longrightarrow> lib_step cb ni ni'"
| completion: "k \<in> used_msgs ni \<Longrightarrow> lib_finalize cb (Some k) ni = Some (rc, ni') \<Longrightarrow> lib_step cb ni ni'"
| completion_null: "lib_finalize cb None ni = Some (rc, ni') \<Longrightarrow> lib_step cb ni ni'"

inductive_cases lib_stepE: "lib_step cb ni ni'"

inductive reachable :: "nal_cb \<Rightarrow> lib_ni \<Rightarrow> bool" for cb where
  init: "lib_init cb nid pid rid gid gsize ptl_size ni = (PTL_OK, ni') \<Longrightarrow> reachable cb ni'"
| step: "reachable cb ni \<Longrightarrow> lib_step cb ni ni' \<Longrightarrow> reachable cb ni'"

lemma lib_dispatch_inv: "ni_inv ni \<Longrightarrow> lib_dispatch cb idx args ni = Some (ret, ni') \<Longrightarrow> ni_inv ni'"
  by (auto simp: lib_dispatch_def dest: dispatch_fun_inv split: if_splits)

lemma lib_step_inv: "lib_step cb ni ni' \<Longrightarrow> ni_inv ni \<Longrightarrow> ni_inv ni'"
proof (induction rule: lib_step.induct)
  case (api ni idx args ret ni')
  then show ?case using lib_dispatch_inv by blast
next
  case (incoming ni hdr rc ni')
  then show ?case using lib_parse_inv by blast
next
  case (completion k ni rc ni')
  then show ?case using lib_finalize_inv by blast
next
  case (completion_null ni rc ni')
  then show ?case by (auto simp: lib_finalize_def split: if_splits)
qed

lemma reachable_inv: "reachable cb ni \<Longrightarrow> ni_inv ni"
  by (induction rule: reachable.induct) (use lib_init_establishes(1) lib_step_inv in blast)+

end
