(* ===== verification/P30_Fini.thy ===== *)
theory P30_Fini
  imports P30_Lib
begin

text \<open>
  Shutdown: \<open>lib_fini\<close> releases every object in use, tells the network layer about every
  region it had validated, and gives the arrays back.  The four loops share a contract, the
  locale \<open>release_loop\<close>.
\<close>

section \<open>Loops that release what is in use\<close>

locale release_loop =
  fixes n :: nat
    and used :: "'s \<Rightarrow> nat set"
    and rel :: "nat \<Rightarrow> 's \<Rightarrow> 's"
    and inv :: "'s \<Rightarrow> bool"
  assumes used_bound: "i \<in> used s \<Longrightarrow> i < n"
    and rel_used: "inv s \<Longrightarrow> i \<in> used s \<Longrightarrow> used (rel i s) = used s - {i}"
    and rel_inv: "inv s \<Longrightarrow> i \<in> used s \<Longrightarrow> inv (rel i s)"
begin

definition body :: "nat \<Rightarrow> 's \<Rightarrow> 's" where
  "body i s = (if i \<in> used s then rel i s else s)"

lemma body_inv: "inv s \<Longrightarrow> inv (body i s)"
  by (simp add: body_def rel_inv)

lemma body_used: "inv s \<Longrightarrow> used (body i s) = used s - {i}"
  by (simp add: body_def rel_used)

lemma loop_inv: "inv s \<Longrightarrow> inv (fold body is s)"
  by (induction "is" arbitrary: s) (simp_all add: body_inv)

lemma loop_used: "inv s \<Longrightarrow> used (fold body is s) = used s - set is"
  by (induction "is" arbitrary: s) (auto simp: body_inv body_used)

text \<open>After the loop nothing is in use.\<close>

lemma loop_empty: "inv s \<Longrightarrow> used (fold body [0..<n] s) = {}"
  using used_bound by (fastforce simp: loop_used)

text \<open>What releasing leaves alone, the loop leaves alone.\<close>

lemma loop_frame:
  assumes "\<And>i s. f (rel i s) = f s"
  shows "f (fold body is s) = f s"
proof (induction "is" arbitrary: s)
  case (Cons i "is")
  have "f (body i s) = f s" by (simp add: body_def assms)
  with Cons show ?case by simp
qed simp

end

locale traced_release_loop = release_loop n used rel inv
  for n :: nat and used :: "'s \<Rightarrow> nat set" and rel :: "nat \<Rightarrow> 's \<Rightarrow> 's" and inv :: "'s \<Rightarrow> bool" +
  fixes trace :: "'s \<Rightarrow> 'c list"
    and call :: "nat \<Rightarrow> 's \<Rightarrow> 'c"
  assumes rel_trace: "trace (rel i s) = trace s @ [call i s]"
    and rel_call: "i \<noteq> j \<Longrightarrow> call j (rel i s) = call j s"
begin

text \<open>The loop makes one call for each object in use, in the order of the array.\<close>

lemma loop_trace:
  "inv s \<Longrightarrow> distinct is \<Longrightarrow>
   trace (fold body is s) = trace s @ map (\<lambda>i. call i s) (filter (\<lambda>i. i \<in> used s) is)"
proof (induction "is" arbitrary: s)
  case (Cons i "is")
  have call: "call j (body i s) = call j s" if "j \<in> set is" for j
    using that rel_call [of i j s] Cons.prems(2) by (auto simp: body_def)
  have same: "map (\<lambda>j. call j (body i s)) (filter (\<lambda>j. j \<in> used (body i s)) is) =
      map (\<lambda>j. call j s) (filter (\<lambda>j. j \<in> used s) is)"
    using Cons.prems call by (auto simp: body_used intro!: map_cong filter_cong)
  from Cons.IH [OF body_inv [OF Cons.prems(1)]] Cons.prems(2) show ?case
    by (simp add: same) (simp add: body_def rel_trace)
qed simp

end

section \<open>The loops of the code\<close>

interpretation msg_loop: release_loop MAX_MSGS used_msgs lib_msg_free ni_inv
proof
  show "i \<in> used_msgs s \<Longrightarrow> i < MAX_MSGS" for i s by (simp add: msg_pool.used_def)
  show "ni_inv s \<Longrightarrow> i \<in> used_msgs s \<Longrightarrow> used_msgs (lib_msg_free i s) = used_msgs s - {i}" for i s
    by (rule holders_msg_free(1))
  show "ni_inv s \<Longrightarrow> i \<in> used_msgs s \<Longrightarrow> ni_inv (lib_msg_free i s)" for i s
    by (rule lib_msg_free_inv)
qed

definition eq_call :: "nat \<Rightarrow> lib_ni \<Rightarrow> nal_call" where
  "eq_call i ni = CB_INVALIDATE (eq_base (ni_eq ni i)) (size_t (eq_size (ni_eq ni i)) * sizeof_event) NULL_PTR"

definition md_call :: "nat \<Rightarrow> lib_ni \<Rightarrow> nal_call" where
  "md_call i ni = CB_INVALIDATE (md_start (ni_md ni i)) (size_t (md_length (ni_md ni i))) (md_addrkey (ni_md ni i))"

lemma lib_eq_unlink_sel [simp]:
  "ni_eq (lib_eq_unlink i ni) = ni_eq ni" "ni_md (lib_eq_unlink i ni) = ni_md ni"
  "ni_md_pool (lib_eq_unlink i ni) = ni_md_pool ni" "ni_msg_pool (lib_eq_unlink i ni) = ni_msg_pool ni"
  "ni_me_pool (lib_eq_unlink i ni) = ni_me_pool ni" "ni_counters (lib_eq_unlink i ni) = ni_counters ni"
  "ni_eq_pool (lib_eq_unlink i ni) = pool_free i (ni_eq_pool ni)"
  "ni_trace (lib_eq_unlink i ni) = ni_trace ni @ [eq_call i ni]"
  by (simp_all add: lib_eq_unlink_def lib_eq_free_def eq_call_def Let_def nal_call_def)

interpretation eq_loop: traced_release_loop MAX_EQS used_eqs lib_eq_unlink ni_inv ni_trace eq_call
proof
  show "i \<in> used_eqs s \<Longrightarrow> i < MAX_EQS" for i s by (simp add: eq_pool.used_def)
  show "used_eqs (lib_eq_unlink i s) = used_eqs s - {i}" if "ni_inv s" "i \<in> used_eqs s" for i s
    using that eq_pool.used_free [of "ni_eq_pool s" i] by (simp add: ni_inv_def eq_pool.used_def)
  show "ni_inv (lib_eq_unlink i s)" if "ni_inv s" "i \<in> used_eqs s" for i s
    using that by (intro lib_eq_unlink_inv) (simp_all add: eq_pool.used_def)
qed (simp_all add: eq_call_def)

lemma md_unlink_trace: "ni_trace (lib_md_unlink i ni) = ni_trace ni @ [md_call i ni]"
  by (simp add: lib_md_unlink_def lib_md_free_def md_call_def Let_def ni_upd_defs)

interpretation md_loop: traced_release_loop MAX_MDS used_mds lib_md_unlink ni_inv ni_trace md_call
proof
  show "i \<in> used_mds s \<Longrightarrow> i < MAX_MDS" for i s by (simp add: md_pool.used_def)
  show "used_mds (lib_md_unlink i s) = used_mds s - {i}" if "ni_inv s" "i \<in> used_mds s" for i s
    using that by (intro used_mds_unlink) (simp_all add: md_pool.used_def)
  show "ni_inv (lib_md_unlink i s)" if "ni_inv s" "i \<in> used_mds s" for i s
    using that by (intro lib_md_unlink_inv) (simp_all add: md_pool.used_def)
qed (simp_all add: md_unlink_trace md_call_def)

interpretation me_loop: release_loop MAX_MES used_mes lib_me_free "\<lambda>ni. pool_inv MAX_MES (ni_me_pool ni)"
proof
  show "i \<in> used_mes s \<Longrightarrow> i < MAX_MES" for i s by (simp add: me_pool.used_def)
  show "used_mes (lib_me_free i s) = used_mes s - {i}"
    if "pool_inv MAX_MES (ni_me_pool s)" "i \<in> used_mes s" for i s
    using that me_pool.used_free [of "ni_me_pool s" i] by (simp add: lib_me_free_def me_pool.used_def)
  show "pool_inv MAX_MES (ni_me_pool (lib_me_free i s))"
    if "pool_inv MAX_MES (ni_me_pool s)" "i \<in> used_mes s" for i s
    using that me_pool.inv_free [of "ni_me_pool s" i] by (simp add: lib_me_free_def me_pool.used_def)
qed

lemma fini_loops:
  "fini_msgs ni = fold msg_loop.body [0..<MAX_MSGS] ni"
  "fini_eqs ni = fold eq_loop.body [0..<MAX_EQS] ni"
  "fini_mds ni = fold md_loop.body [0..<MAX_MDS] ni"
  "fini_mes ni = fold me_loop.body [0..<MAX_MES] ni"
proof -
  have "msg_loop.body i = (\<lambda>ni. if pool_inuse (ni_msg_pool ni) i then lib_msg_free i ni else ni)"
    if "i < MAX_MSGS" for i
    using that by (simp add: fun_eq_iff msg_loop.body_def) (simp add: msg_pool.used_def)
  then show "fini_msgs ni = fold msg_loop.body [0..<MAX_MSGS] ni"
    unfolding fini_msgs_def by (intro fold_cong) simp_all
  have "eq_loop.body i = (\<lambda>ni. if pool_inuse (ni_eq_pool ni) i then lib_eq_unlink i ni else ni)"
    if "i < MAX_EQS" for i
    using that by (simp add: fun_eq_iff eq_loop.body_def) (simp add: eq_pool.used_def)
  then show "fini_eqs ni = fold eq_loop.body [0..<MAX_EQS] ni"
    unfolding fini_eqs_def by (intro fold_cong) simp_all
  have "md_loop.body i = (\<lambda>ni. if pool_inuse (ni_md_pool ni) i then lib_md_unlink i ni else ni)"
    if "i < MAX_MDS" for i
    using that by (simp add: fun_eq_iff md_loop.body_def) (simp add: md_pool.used_def)
  then show "fini_mds ni = fold md_loop.body [0..<MAX_MDS] ni"
    unfolding fini_mds_def by (intro fold_cong) simp_all
  have "me_loop.body i = (\<lambda>ni. if pool_inuse (ni_me_pool ni) i then lib_me_free i ni else ni)"
    if "i < MAX_MES" for i
    using that by (simp add: fun_eq_iff me_loop.body_def) (simp add: me_pool.used_def)
  then show "fini_mes ni = fold me_loop.body [0..<MAX_MES] ni"
    unfolding fini_mes_def by (intro fold_cong) simp_all
qed

text \<open>What the loops leave alone.\<close>

lemma fini_frames:
  "ni_md (fini_msgs ni) = ni_md ni" "ni_md_pool (fini_msgs ni) = ni_md_pool ni"
  "ni_eq (fini_msgs ni) = ni_eq ni" "ni_eq_pool (fini_msgs ni) = ni_eq_pool ni"
  "ni_trace (fini_msgs ni) = ni_trace ni"
  "ni_md (fini_eqs ni) = ni_md ni" "ni_md_pool (fini_eqs ni) = ni_md_pool ni"
  "ni_msg_pool (fini_eqs ni) = ni_msg_pool ni" "ni_counters (fini_eqs ni) = ni_counters ni"
  "ni_msg_pool (fini_mds ni) = ni_msg_pool ni" "ni_counters (fini_mds ni) = ni_counters ni"
  "ni_eq_pool (fini_mds ni) = ni_eq_pool ni" "ni_me_pool (fini_mds ni) = ni_me_pool ni"
  "ni_msg_pool (fini_mes ni) = ni_msg_pool ni" "ni_counters (fini_mes ni) = ni_counters ni"
  "ni_eq_pool (fini_mes ni) = ni_eq_pool ni" "ni_md_pool (fini_mes ni) = ni_md_pool ni"
  "ni_trace (fini_mes ni) = ni_trace ni"
  unfolding fini_loops
  by (rule msg_loop.loop_frame eq_loop.loop_frame md_loop.loop_frame me_loop.loop_frame;
      simp add: lib_me_free_def lib_msg_free_def Let_def)+

lemma fini_ptrs:
  "ni_msg_ptr (fini_mes (fini_mds (fini_eqs (fini_msgs ni)))) = ni_msg_ptr ni"
  "ni_md_ptr (fini_mes (fini_mds (fini_eqs (fini_msgs ni)))) = ni_md_ptr ni"
  "ni_me_ptr (fini_mes (fini_mds (fini_eqs (fini_msgs ni)))) = ni_me_ptr ni"
  "ni_eq_ptr (fini_mes (fini_mds (fini_eqs (fini_msgs ni)))) = ni_eq_ptr ni"
  "ni_tbl_ptr (fini_mes (fini_mds (fini_eqs (fini_msgs ni)))) = ni_tbl_ptr ni"
proof -
  have frame: "f (fini_mes (fini_mds (fini_eqs (fini_msgs ni)))) = f ni"
    if "\<And>i s. f (lib_msg_free i s) = f s" "\<And>i s. f (lib_eq_unlink i s) = f s"
      "\<And>i s. f (lib_md_unlink i s) = f s" "\<And>i s. f (lib_me_free i s) = f s"
    for f :: "lib_ni \<Rightarrow> user_ptr"
    unfolding fini_loops using that
    by (simp add: msg_loop.loop_frame eq_loop.loop_frame md_loop.loop_frame me_loop.loop_frame)
  show "ni_msg_ptr (fini_mes (fini_mds (fini_eqs (fini_msgs ni)))) = ni_msg_ptr ni"
    "ni_md_ptr (fini_mes (fini_mds (fini_eqs (fini_msgs ni)))) = ni_md_ptr ni"
    "ni_me_ptr (fini_mes (fini_mds (fini_eqs (fini_msgs ni)))) = ni_me_ptr ni"
    "ni_eq_ptr (fini_mes (fini_mds (fini_eqs (fini_msgs ni)))) = ni_eq_ptr ni"
    "ni_tbl_ptr (fini_mes (fini_mds (fini_eqs (fini_msgs ni)))) = ni_tbl_ptr ni"
    by (rule frame; simp add: lib_msg_free_def lib_eq_unlink_def lib_eq_free_def lib_md_unlink_def
        lib_md_free_def lib_me_free_def ni_upd_defs Let_def)+
qed

lemma fini_inv:
  assumes "ni_inv ni"
  shows "ni_inv (fini_msgs ni)" "ni_inv (fini_eqs (fini_msgs ni))"
    "ni_inv (fini_mds (fini_eqs (fini_msgs ni)))"
  using assms unfolding fini_loops
  by (simp_all add: msg_loop.loop_inv eq_loop.loop_inv md_loop.loop_inv)

section \<open>Shutdown\<close>

text \<open>
  C21: shutting down an interface of the invariant leaves no object in use and no message
  counted, marks the interface down, and makes exactly these calls of the network layer, in
  this order: every event queue in use and then every descriptor in use is invalidated once,
  in the order of the arrays, and the five arrays are freed.
\<close>

theorem lib_fini_releases_all:
  assumes inv: "ni_inv ni" and fini: "lib_fini ni = (rc, ni')"
  shows "used_msgs ni' = {} \<and> used_eqs ni' = {} \<and> used_mds ni' = {} \<and> used_mes ni' = {} \<and>
    msgs_alloc (ni_counters ni') = 0 \<and> \<not> ni_up ni' \<and> rc = 0 \<and>
    ni_trace ni' = ni_trace ni @
      map (\<lambda>i. eq_call i ni) (filter (\<lambda>i. i \<in> used_eqs ni) [0..<MAX_EQS]) @
      map (\<lambda>i. md_call i ni) (filter (\<lambda>i. i \<in> used_mds ni) [0..<MAX_MDS]) @
      map CB_FREE [ni_msg_ptr ni, ni_md_ptr ni, ni_me_ptr ni, ni_eq_ptr ni, ni_tbl_ptr ni]"
proof -
  define a where "a = fini_msgs ni"
  define b where "b = fini_eqs a"
  define c where "c = fini_mds b"
  define d where "d = fini_mes c"
  note invs = fini_inv [OF inv, folded a_def, folded b_def, folded c_def]
  have ptrs: "ni_msg_ptr d = ni_msg_ptr ni" "ni_md_ptr d = ni_md_ptr ni" "ni_me_ptr d = ni_me_ptr ni"
      "ni_eq_ptr d = ni_eq_ptr ni" "ni_tbl_ptr d = ni_tbl_ptr ni"
    unfolding d_def c_def b_def a_def by (rule fini_ptrs)+
  have d: "ni' = nal_call (CB_FREE (ni_tbl_ptr ni)) (nal_call (CB_FREE (ni_eq_ptr ni)) (nal_call
      (CB_FREE (ni_me_ptr ni)) (nal_call (CB_FREE (ni_md_ptr ni)) (nal_call (CB_FREE (ni_msg_ptr ni)) d))))
      \<lparr>ni_up := False\<rparr>" "rc = 0"
    using fini by (simp_all add: lib_fini_def Let_def ptrs [unfolded d_def c_def b_def a_def, symmetric]
        d_def c_def b_def a_def nal_call_def)
  have msgs: "used_msgs a = {}"
    unfolding a_def fini_loops by (rule msg_loop.loop_empty [OF inv])
  have eqs: "used_eqs b = {}" unfolding b_def fini_loops by (rule eq_loop.loop_empty [OF invs(1)])
  have mds: "used_mds c = {}" unfolding c_def fini_loops by (rule md_loop.loop_empty [OF invs(2)])
  have mes: "used_mes d = {}"
    unfolding d_def fini_loops using invs(3) by (intro me_loop.loop_empty) (simp add: ni_inv_def)
  have cnt: "msgs_alloc (ni_counters a) = 0" using invs(1) msgs by (simp add: ni_inv_def counters_ok_def)
  have "ni_trace b = ni_trace ni @ map (\<lambda>i. eq_call i a) (filter (\<lambda>i. i \<in> used_eqs a) [0..<MAX_EQS])"
    using eq_loop.loop_trace [OF invs(1), of "[0..<MAX_EQS]"] by (simp add: b_def a_def fini_loops(2) fini_frames)
  moreover have "ni_trace c = ni_trace b @ map (\<lambda>i. md_call i b) (filter (\<lambda>i. i \<in> used_mds b) [0..<MAX_MDS])"
    using md_loop.loop_trace [OF invs(2), of "[0..<MAX_MDS]"] by (simp add: c_def fini_loops(3))
  moreover have "eq_call i a = eq_call i ni" "md_call i b = md_call i ni" for i
    by (simp_all add: eq_call_def md_call_def a_def b_def fini_frames)
  ultimately have trace: "ni_trace d = ni_trace ni @
      map (\<lambda>i. eq_call i ni) (filter (\<lambda>i. i \<in> used_eqs ni) [0..<MAX_EQS]) @
      map (\<lambda>i. md_call i ni) (filter (\<lambda>i. i \<in> used_mds ni) [0..<MAX_MDS])"
    by (simp add: d_def a_def b_def fini_frames)
  have "used_msgs d = {}" "used_eqs d = {}" "used_mds d = {}" "ni_counters d = ni_counters a"
    using msgs eqs mds by (simp_all add: d_def c_def b_def fini_frames)
  with d mes cnt trace show ?thesis by (simp add: nal_call_def)
qed

end
