(* ===== verification/P30_Api.thy ===== *)
theory P30_Api
  imports P30_Fini
begin

text \<open>
  The application's side (\<open>api-p30/wrap.c\<close>, \<open>md.c\<close>, \<open>eq.c\<close>, \<open>init.c\<close>,
  \<open>ni.c\<close>): requests are packed into argument blocks and forwarded to the library
  through the network layer's \<open>forward\<close>; the events of a queue are read from the
  application's memory, where the library writes them.
\<close>

section \<open>State\<close>

record ptl_eq =
  peq_inuse :: bool
  peq_sequence :: "32 word"
  peq_size :: int
  peq_base :: user_ptr

text \<open>
  The state of the process: the flag \<open>ptl_init\<close>, the table of interfaces, the event
  queues of every interface, the events in memory by address, and the world behind the
  network layers, where the libraries are.
\<close>

record 'w api =
  api_init :: bool
  api_p30_initialized :: bool
  api_ifs :: "nat \<Rightarrow> nat option"
  api_num :: int
  api_eqs :: "nat \<Rightarrow> nat \<Rightarrow> ptl_eq"
  api_mem :: "user_ptr \<Rightarrow> ptl_event"
  api_world :: 'w

text \<open>
  The entry points of \<open>nal_t\<close> and the C library's allocator are parameters.  The return
  block of \<open>forward\<close> is \<open>None\<close> when the other side writes none.
\<close>

record 'w nal =
  nal_forward :: "nat \<Rightarrow> int \<Rightarrow> lib_args \<Rightarrow> 'w \<Rightarrow> lib_ret option \<times> 'w"
  nal_validate :: "nat \<Rightarrow> user_ptr \<Rightarrow> 64 word \<Rightarrow> 'w \<Rightarrow> int \<times> 'w"
  nal_malloc :: "64 word \<Rightarrow> 'w \<Rightarrow> user_ptr"

definition MAX_NIS :: nat where [ptl_const]: "MAX_NIS = 8"

text \<open>
  \<open>ptl_interfaces[(h >> 16) & 0xF]\<close>: the mask admits 16 indices, the table has 8 entries.
\<close>

definition iface :: "'w api \<Rightarrow> int \<Rightarrow> nat option option" where
  "iface st h =
     (let i = drop_bit 16 h AND 0xF
      in if i < int MAX_NIS then Some (api_ifs st (nat i)) else None)"

section \<open>Forwarding\<close>

text \<open>
  The return code of a return block; \<open>None\<close> is a code that was not written.
\<close>

fun ret_rc :: "lib_ret \<Rightarrow> int option" where
  "ret_rc (RC_out rc) = Some rc"
| "ret_rc (GetId_out rc _ _) = Some rc"
| "ret_rc (TransId_out rc _) = Some rc"
| "ret_rc (NIStatus_out rc _) = Some rc"
| "ret_rc (NIDist_out rc _) = rc"
| "ret_rc (Handle_out rc _) = Some rc"
| "ret_rc (Dump_out rc _) = Some rc"
| "ret_rc (MD_out rc _) = Some rc"

text \<open>
  The body that the generated functions of \<open>wrap.c\<close> share: the result is the code and,
  when the request was forwarded, the return block.  Each function passes its own index.
\<close>

definition api_call ::
  "'w nal \<Rightarrow> int \<Rightarrow> int \<Rightarrow> int \<Rightarrow> lib_args \<Rightarrow> 'w api \<Rightarrow> ((int \<times> lib_ret option) \<times> 'w api) option" where
  "api_call N no_nal index h args st =
     (if \<not> api_init st then Some ((PTL_NOINIT, None), st)
      else do {
        nal \<leftarrow> iface st h;
        (case nal of
           None \<Rightarrow> Some ((no_nal, None), st)
         | Some n \<Rightarrow>
             (let (ret, w) = nal_forward N n index args (api_world st)
              in do {
                r \<leftarrow> ret;
                rc \<leftarrow> ret_rc r;
                Some ((rc, Some r), st\<lparr>api_world := w\<rparr>)
              }))
      })"

definition PtlGetId where "PtlGetId N handle_in = api_call N PTL_NOINIT PTL_GETID handle_in GetId_in"

definition PtlTransId where
  "PtlTransId N handle_in id_in = api_call N PTL_NOINIT PTL_TRANSID handle_in (TransId_in id_in)"

definition PtlNIStatus where
  "PtlNIStatus N interface_in register_in = api_call N PTL_NOINIT PTL_NISTATUS interface_in (NIStatus_in (Some register_in))"

text \<open>\<open>PtlNIDist\<close> also tests its output pointer.\<close>

definition PtlNIDist where
  "PtlNIDist N interface_in process_in distance_out_valid st =
     (if api_init st \<and> \<not> distance_out_valid then Some ((PTL_SEGV, None), st)
      else api_call N PTL_INV_NI PTL_NIDIST interface_in (NIDist_in process_in) st)"

definition PtlNIDebug where "PtlNIDebug N ni mask_in = api_call N PTL_NOINIT PTL_NIDEBUG ni (NIDebug_in mask_in)"

definition PtlMEAttach where
  "PtlMEAttach N interface_in index_in match_id_in match_bits_in ignore_bits_in unlink_in =
     api_call N PTL_NOINIT PTL_MEATTACH interface_in
       (MEAttach_in interface_in index_in match_id_in match_bits_in ignore_bits_in unlink_in)"

definition PtlMEInsert where
  "PtlMEInsert N current_in match_id_in match_bits_in ignore_bits_in unlink_in position_in =
     api_call N PTL_NOINIT PTL_MEINSERT current_in
       (MEInsert_in current_in match_id_in match_bits_in ignore_bits_in unlink_in position_in)"

definition PtlMEUnlink where
  "PtlMEUnlink N current_in = api_call N PTL_NOINIT PTL_MEUNLINK current_in (MEUnlink_in current_in)"

definition PtlTblDump where "PtlTblDump N ni index_in = api_call N PTL_NOINIT PTL_TBLDUMP ni (TblDump_in index_in)"

definition PtlMEDump where
  "PtlMEDump N current_in = api_call N PTL_NOINIT PTL_MEDUMP current_in (MEDump_in current_in)"

definition PtlMDAttach_internal where
  "PtlMDAttach_internal N current_in md_in unlink_in =
     api_call N PTL_NOINIT PTL_MDATTACH current_in (MDAttach_in current_in md_in unlink_in)"

definition PtlMDInsert_internal where
  "PtlMDInsert_internal N current_in md_in unlink_in position_in =
     api_call N PTL_NOINIT PTL_MDINSERT current_in (MDInsert_in current_in md_in unlink_in position_in)"

definition PtlMDBind_internal where
  "PtlMDBind_internal N ni_in md_in = api_call N PTL_NOINIT PTL_MDBIND ni_in (MDBind_in ni_in md_in)"

definition PtlMDUpdate_internal where
  "PtlMDUpdate_internal N md_in old_valid new_inout testq_in sequence_in =
     api_call N PTL_NOINIT PTL_MDUPDATE md_in (MDUpdate_in md_in old_valid new_inout testq_in sequence_in)"

definition PtlMDUnlink_internal where
  "PtlMDUnlink_internal N md_in = api_call N PTL_NOINIT PTL_MDUNLINK md_in (MDUnlink_in md_in)"

definition PtlEQAlloc_internal where
  "PtlEQAlloc_internal N ni_in count_in base_in = api_call N PTL_NOINIT PTL_EQALLOC ni_in (EQAlloc_in ni_in count_in base_in)"

definition PtlEQFree_internal where
  "PtlEQFree_internal N eventq_in = api_call N PTL_NOINIT PTL_EQFREE eventq_in (EQFree_in eventq_in)"

definition PtlACEntry where
  "PtlACEntry N ni_in index_in match_id_in portal_in =
     api_call N PTL_NOINIT PTL_ACENTRY ni_in (ACEntry_in (Some (ni_in, index_in, match_id_in, portal_in)))"

definition PtlPut where
  "PtlPut N md_in ack_req_in target_in portal_in match_bits_in offset_in hdr_data_in =
     api_call N PTL_NOINIT PTL_PUT md_in
       (Put_in md_in ack_req_in target_in portal_in match_bits_in offset_in hdr_data_in)"

definition PtlGet where
  "PtlGet N md_in target_in portal_in match_bits_in offset_in =
     api_call N PTL_NOINIT PTL_GET md_in (Get_in md_in target_in portal_in match_bits_in offset_in)"

section \<open>Descriptors\<close>

text \<open>
  The functions of \<open>api-p30/md.c\<close> validate the region with the network layer before they
  forward the request.
\<close>

definition with_validated ::
  "'w nal \<Rightarrow> int \<Rightarrow> ptl_md option \<Rightarrow>
     ('w api \<Rightarrow> ((int \<times> lib_ret option) \<times> 'w api) option) \<Rightarrow>
     'w api \<Rightarrow> ((int \<times> lib_ret option) \<times> 'w api) option" where
  "with_validated N h md_in call st =
     do {
       nal \<leftarrow> iface st h;
       (case nal of
          None \<Rightarrow> Some ((PTL_NOINIT, None), st)
        | Some n \<Rightarrow>
            (case md_in of
               None \<Rightarrow> call st
             | Some md \<Rightarrow>
                 (let (rc, w) = nal_validate N n (pm_start md) (size_t (pm_length md)) (api_world st);
                      st1 = st\<lparr>api_world := w\<rparr>
                  in if rc \<noteq> 0 then Some ((PTL_SEGV, None), st1) else call st1)))
     }"

definition PtlMDAttach where
  "PtlMDAttach N current_in md_in unlink_in =
     with_validated N current_in (Some md_in) (PtlMDAttach_internal N current_in md_in unlink_in)"

definition PtlMDInsert where
  "PtlMDInsert N current_in md_in unlink_in position_in =
     with_validated N current_in (Some md_in) (PtlMDInsert_internal N current_in md_in unlink_in position_in)"

definition PtlMDBind where
  "PtlMDBind N ni_in md_in = with_validated N ni_in (Some md_in) (PtlMDBind_internal N ni_in md_in)"

definition PtlMDUnlink where
  "PtlMDUnlink N md_in = with_validated N md_in None (PtlMDUnlink_internal N md_in)"

section \<open>Event queues\<close>

text \<open>
  The element of the array of queues at an index, when the index has an element.
\<close>

definition peq_at :: "'w api \<Rightarrow> nat \<Rightarrow> int \<Rightarrow> ptl_eq option" where
  "peq_at st n i = (if 0 \<le> i \<and> i < int MAX_EQS then Some (api_eqs st n (nat i)) else None)"

text \<open>
  The test \<open>current < 0 || current > MAX_EQS || !eq->inuse\<close>; the address of
  \<open>base[i]\<close>.
\<close>

definition bad_peq :: "'w api \<Rightarrow> nat \<Rightarrow> int \<Rightarrow> bool option" where
  "bad_peq st n i =
     (if i < 0 \<or> i > int MAX_EQS then Some True else map_option (\<lambda>q. \<not> peq_inuse q) (peq_at st n i))"

definition ev_addr :: "user_ptr \<Rightarrow> 64 word \<Rightarrow> user_ptr" where
  "ev_addr base i = base + i * sizeof_event"

definition set_peq :: "nat \<Rightarrow> nat \<Rightarrow> (ptl_eq \<Rightarrow> ptl_eq) \<Rightarrow> 'w api \<Rightarrow> 'w api" where
  "set_peq n i f st = st\<lparr>api_eqs := (api_eqs st)(n := (api_eqs st n)(i := f (api_eqs st n i)))\<rparr>"

text \<open>The allocation is the parameter: the address of the array or none.\<close>

definition ptl_eq_ni_init :: "bool \<Rightarrow> nat \<Rightarrow> 'w api \<Rightarrow> int \<times> 'w api" where
  "ptl_eq_ni_init malloc_ok n st =
     (if \<not> malloc_ok then (PTL_NOSPACE, st)
      else (PTL_OK, fold (\<lambda>i. set_peq n i (\<lambda>q. q\<lparr>peq_inuse := False\<rparr>)) [0..<MAX_EQS] st))"

definition clear_events :: "user_ptr \<Rightarrow> int \<Rightarrow> (user_ptr \<Rightarrow> ptl_event) \<Rightarrow> (user_ptr \<Rightarrow> ptl_event)" where
  "clear_events base count mem =
     fold (\<lambda>i m. m(ev_addr base (of_nat i) := (m (ev_addr base (of_nat i)))\<lparr>ev_sequence := 0\<rparr>))
       [0..<nat count] mem"

definition PtlEQAlloc ::
  "'w nal \<Rightarrow> int \<Rightarrow> int \<Rightarrow> 'w api \<Rightarrow> ((int \<times> int option) \<times> 'w api) option" where
  "PtlEQAlloc N interface count st =
     do {
       nal \<leftarrow> iface st interface;
       (case nal of
          None \<Rightarrow> Some ((PTL_NOINIT, None), st)
        | Some n \<Rightarrow>
            (let len = size_t count * sizeof_event;
                 ev = nal_malloc N len (api_world st)
             in if ev = NULL_PTR then Some ((PTL_NOSPACE, None), st)
                else
                  (let st1 = st\<lparr>api_mem := clear_events ev count (api_mem st)\<rparr>;
                       (rc, w) = nal_validate N n ev len (api_world st1);
                       st2 = st1\<lparr>api_world := w\<rparr>
                   in if rc \<noteq> 0 then Some ((PTL_SEGV, None), st2)
                      else do {
                        ((rc, ret), st3) \<leftarrow> PtlEQAlloc_internal N interface count ev st2;
                        (if rc \<noteq> 0 then Some ((PTL_SEGV, None), st3)
                         else do {
                           handle \<leftarrow> (case ret of Some (Handle_out _ h) \<Rightarrow> h | _ \<Rightarrow> None);
                           let current = h_index handle;
                           free \<leftarrow> bad_peq st3 n current;
                           (if \<not> free then Some ((PTL_SEGV, None), st3)
                            else if current > int MAX_EQS then Some ((PTL_SEGV, None), st3)
                            else Some ((PTL_OK, Some handle),
                              set_peq n (nat current) (\<lambda>_. \<lparr>peq_inuse = True, peq_sequence = 1,
                                peq_size = count, peq_base = ev\<rparr>) st3))
                         })
                      })))
     }"

text \<open>
  The functions below look up the interface with the masked handle, whose interface part is
  zero; only \<open>PtlEQCount\<close> uses the handle itself.
\<close>

definition PtlEQFree :: "'w nal \<Rightarrow> int \<Rightarrow> 'w api \<Rightarrow> (int \<times> 'w api) option" where
  "PtlEQFree N eventq st =
     do {
       let current = h_index eventq;
       nal \<leftarrow> iface st current;
       (case nal of
          None \<Rightarrow> Some (PTL_NOINIT, st)
        | Some n \<Rightarrow>
            do {
              bad \<leftarrow> bad_peq st n current;
              (if bad then Some (PTL_INV_EQ, st)
               else do {
                 ((rc, _), st1) \<leftarrow> PtlEQFree_internal N eventq st;
                 Some (rc, set_peq n (nat current) (\<lambda>q. q\<lparr>peq_inuse := False\<rparr>) st1)
               })
            })
     }"

text \<open>\<open>new_index\<close> is an \<open>int\<close>: the unsigned remainder, converted.\<close>

definition PtlEQGet :: "int \<Rightarrow> 'w api \<Rightarrow> ((int \<times> ptl_event option) \<times> 'w api) option" where
  "PtlEQGet eventq st =
     do {
       let current = h_index eventq;
       nal \<leftarrow> iface st current;
       (case nal of
          None \<Rightarrow> Some ((PTL_NOINIT, None), st)
        | Some n \<Rightarrow>
            do {
              bad \<leftarrow> bad_peq st n current;
              (if bad then Some ((PTL_INV_EQ, None), st)
               else
                 (let q = api_eqs st n (nat current);
                      size = (of_int (peq_size q) :: 32 word)
                  in if size = 0 then None
                     else
                       (let new_index = sint (peq_sequence q mod size);
                            new_event = api_mem st (ev_addr (peq_base q) (of_int new_index))
                        in if peq_sequence q > ev_sequence new_event
                           then Some ((PTL_EQ_EMPTY, None), st)
                           else
                             (let rc = (if peq_sequence q \<noteq> ev_sequence new_event then PTL_EQ_DROPPED
                                        else PTL_OK)
                              in Some ((rc, Some new_event),
                                   set_peq n (nat current)
                                     (\<lambda>q. q\<lparr>peq_sequence := ev_sequence new_event + 1\<rparr>) st)))))
            })
     }"

text \<open>
  The loop of \<open>PtlEQWait\<close>: while the queue is empty the network layer may run
  (\<open>yield\<close>, a parameter that changes the state).
\<close>

partial_function (option) eq_wait_loop ::
  "('w api \<Rightarrow> 'w api) \<Rightarrow> int \<Rightarrow> 'w api \<Rightarrow> ((int \<times> ptl_event option) \<times> 'w api) option" where
  "eq_wait_loop yield eventq_in st =
     Option.bind (PtlEQGet eventq_in st) (\<lambda>r.
       if fst (fst r) = PTL_EQ_EMPTY then eq_wait_loop yield eventq_in (yield (snd r)) else Some r)"

definition PtlEQWait ::
  "('w api \<Rightarrow> 'w api) \<Rightarrow> int \<Rightarrow> 'w api \<Rightarrow> ((int \<times> ptl_event option) \<times> 'w api) option" where
  "PtlEQWait yield eventq_in st =
     do {
       nal \<leftarrow> iface st (h_index eventq_in);
       (case nal of
          None \<Rightarrow> Some ((PTL_NOINIT, None), st)
        | Some n \<Rightarrow> eq_wait_loop yield eventq_in st)
     }"

definition PtlEQCount :: "int \<Rightarrow> 'w api \<Rightarrow> (int \<times> int option) option" where
  "PtlEQCount eventq st =
     do {
       let current = h_index eventq;
       nal \<leftarrow> iface st eventq;
       (case nal of
          None \<Rightarrow> Some (PTL_NOINIT, None)
        | Some n \<Rightarrow>
            do {
              bad \<leftarrow> bad_peq st n current;
              Some (if bad then (PTL_INV_EQ, None)
               else
                 (let q = api_eqs st n (nat current)
                  in (PTL_OK, Some (fold (\<lambda>i count.
                        if ev_sequence (api_mem st (ev_addr (peq_base q) (of_nat i))) \<ge> peq_sequence q
                        then s32 (count + 1) else count) [0..<nat (peq_size q)] 0))))
            })
     }"

definition PtlMDUpdate ::
  "'w nal \<Rightarrow> int \<Rightarrow> bool \<Rightarrow> ptl_md option \<Rightarrow> int \<Rightarrow> 'w api \<Rightarrow> ((int \<times> lib_ret option) \<times> 'w api) option" where
  "PtlMDUpdate N md_in old_valid new_inout testq_in st =
     do {
       let testq = h_index testq_in;
       nal \<leftarrow> iface st md_in;
       (case nal of
          None \<Rightarrow> Some ((PTL_NOINIT, None), st)
        | Some n \<Rightarrow>
            do {
              bad \<leftarrow> (if testq_in \<noteq> PTL_EQ_NONE then bad_peq st n testq else Some False);
              (if bad then Some ((PTL_INV_EQ, None), st)
               else
                 (let sequence = (if testq_in \<noteq> PTL_EQ_NONE then peq_sequence (api_eqs st n (nat testq)) else -1)
                  in with_validated N md_in new_inout
                       (PtlMDUpdate_internal N md_in old_valid new_inout testq_in sequence) st))
            })
     }"

section \<open>Initialisation\<close>

definition ptl_ni_init :: "'w api \<Rightarrow> int \<times> 'w api" where
  "ptl_ni_init st = (PTL_OK, st\<lparr>api_ifs := (\<lambda>i. if i < MAX_NIS then None else api_ifs st i)\<rparr>)"

text \<open>The other initialisers that \<open>PtlInit\<close> calls do nothing.\<close>

definition PtlInit :: "'w api \<Rightarrow> int \<times> 'w api" where
  "PtlInit st =
     (if api_init st then (PTL_OK, st)
      else (PTL_OK, (snd (ptl_ni_init st))\<lparr>api_init := True, api_p30_initialized := True\<rparr>))"

definition PtlNIHandle :: "int \<Rightarrow> int \<times> int" where
  "PtlNIHandle handle_in = (PTL_OK, h_index handle_in)"

section \<open>The ring of events\<close>

text \<open>
  The slot of an event: both sides compute the sequence number modulo the size of the queue,
  with unsigned arithmetic.
\<close>

lemma slot_unat:
  assumes "k < 2 ^ 32" "0 < n" "n < 2 ^ 31"
  shows "unat ((of_nat k :: 32 word) mod of_int (int n)) = k mod n"
  using assms by (simp add: unat_mod unat_of_nat)

lemma sint_small: "uint (w :: 32 word) < 2 ^ 31 \<Longrightarrow> sint w = uint w"
  by (simp add: sint_uint signed_take_bit_eq_if_positive bit_iff_odd uint_word_ariths take_bit_int_eq_self)

lemma slot_get:
  assumes "k < 2 ^ 32" "0 < n" "n < 2 ^ 31"
  shows "(of_int (sint ((of_nat k :: 32 word) mod of_int (int n))) :: 64 word) = of_nat (k mod n)"
proof -
  let ?w = "(of_nat k :: 32 word) mod of_int (int n)"
  have u: "unat ?w = k mod n" by (rule slot_unat [OF assms])
  have "k mod n < n" using assms(2) by simp
  then have "k mod n < 2 ^ 31" using assms(3) by linarith
  then have lt: "int (k mod n) < 2 ^ 31" by simp
  have ui: "uint ?w = int (k mod n)" by (simp only: uint_nat u)
  have "sint ?w = int (k mod n)" using sint_small [of ?w] lt by (simp only: ui)
  then show ?thesis by (simp only: of_int_of_nat_eq)
qed

lemma slot_put:
  assumes "k < 2 ^ 32" "0 < n" "n < 2 ^ 31"
  shows "(ucast ((of_nat k :: 32 word) mod of_int (int n)) :: 64 word) = of_nat (k mod n)"
proof -
  have "(ucast w :: 64 word) = of_nat (unat w)" for w :: "32 word" by simp
  then show ?thesis by (simp only: slot_unat [OF assms])
qed

text \<open>Different slots have different addresses.\<close>

lemma ev_addr_inj:
  assumes "i < 2 ^ 31" "j < 2 ^ 31" "ev_addr base (of_nat i) = ev_addr base (of_nat j)"
  shows "i = j"
proof -
  have "(of_nat (i * 104) :: 64 word) = of_nat (j * 104)"
    using assms(3) by (simp add: ev_addr_def sizeof_event_def)
  then have "unat (of_nat (i * 104) :: 64 word) = unat (of_nat (j * 104) :: 64 word)" by simp
  then have "i * 104 = j * 104" using assms(1,2) by (simp only: unat_of_nat) simp
  then show ?thesis by simp
qed

text \<open>
  The memory of a queue of size \<open>n\<close> at \<open>base\<close> after the events \<open>es\<close> have
  been written into it, numbered from 1: the last \<open>n\<close> events are in their slots, and a
  slot that was never written has the sequence number 0.
\<close>

definition ring :: "user_ptr \<Rightarrow> nat \<Rightarrow> ptl_event list \<Rightarrow> (user_ptr \<Rightarrow> ptl_event) \<Rightarrow> bool" where
  "ring base n es mem \<longleftrightarrow>
     (\<forall>k. 0 < k \<and> k \<le> length es \<longrightarrow> ev_sequence (es ! (k - 1)) = of_nat k) \<and>
     (\<forall>k. 0 < k \<and> k \<le> length es \<and> length es < k + n \<longrightarrow>
        mem (ev_addr base (of_nat (k mod n))) = es ! (k - 1)) \<and>
     (\<forall>k. length es < k \<and> k \<le> n \<longrightarrow> ev_sequence (mem (ev_addr base (of_nat (k mod n)))) = 0)"

lemma mod_window: "k < m \<Longrightarrow> m < k + n \<Longrightarrow> m mod n \<noteq> k mod (n :: nat)"
proof
  assume km: "k < m" "m < k + n" and "m mod n = k mod n"
  then have "n dvd m - k" using mod_eq_dvd_iff_nat [of k m n] by simp
  moreover have "0 < m - k" "m - k < n" using km by linarith+
  ultimately show False using nat_dvd_not_less by blast
qed

lemma ring_write:
  assumes ring: "ring base n es mem" and n: "0 < n" "n < 2 ^ 31"
    and e: "ev_sequence e = of_nat (Suc (length es))"
  shows "ring base n (es @ [e]) (mem(ev_addr base (of_nat (Suc (length es) mod n)) := e))"
proof -
  let ?m = "Suc (length es)"
  have small: "k mod n < 2 ^ 31" for k using n mod_less_divisor [of n k] by linarith
  have other: "ev_addr base (of_nat (k mod n)) \<noteq> ev_addr base (of_nat (?m mod n))"
    if "k < ?m \<and> ?m < k + n \<or> ?m < k \<and> k < ?m + n" for k
    using that ev_addr_inj [OF small small, of base k ?m] mod_window [of k ?m n] mod_window [of ?m k n]
    by auto
  show ?thesis
    unfolding ring_def
  proof (intro conjI allI impI)
    fix k assume "0 < k \<and> k \<le> length (es @ [e])"
    then show "ev_sequence ((es @ [e]) ! (k - 1)) = of_nat k"
      using ring e by (cases "k = ?m") (auto simp: ring_def nth_append)
  next
    fix k assume k: "0 < k \<and> k \<le> length (es @ [e]) \<and> length (es @ [e]) < k + n"
    show "(mem(ev_addr base (of_nat (?m mod n)) := e)) (ev_addr base (of_nat (k mod n))) = (es @ [e]) ! (k - 1)"
    proof (cases "k = ?m")
      case False
      with k have lt: "k < ?m" "?m < k + n" by simp_all
      with ring k have "mem (ev_addr base (of_nat (k mod n))) = es ! (k - 1)" by (simp add: ring_def)
      moreover have "(es @ [e]) ! (k - 1) = es ! (k - 1)" using lt k by (simp add: nth_append)
      moreover have "ev_addr base (of_nat (k mod n)) \<noteq> ev_addr base (of_nat (?m mod n))"
        using lt by (intro other) blast
      ultimately show ?thesis by simp
    qed simp
  next
    fix k assume k: "length (es @ [e]) < k \<and> k \<le> n"
    then have "ev_addr base (of_nat (k mod n)) \<noteq> ev_addr base (of_nat (?m mod n))"
      by (intro other) simp
    moreover have "ev_sequence (mem (ev_addr base (of_nat (k mod n)))) = 0"
      using ring k by (simp add: ring_def)
    ultimately show "ev_sequence ((mem(ev_addr base (of_nat (?m mod n)) := e))
        (ev_addr base (of_nat (k mod n)))) = 0" by simp
  qed
qed

text \<open>
  The next event a reader finds that has read up to number \<open>c\<close>: the next one, unless it
  has been overwritten since.
\<close>

definition next_event :: "nat \<Rightarrow> nat \<Rightarrow> nat \<Rightarrow> nat" where
  "next_event n c m = m - (m - Suc c) mod n"

lemma next_event_props:
  assumes "c < m" "0 < n"
  shows "c < next_event n c m" "next_event n c m \<le> m" "m < next_event n c m + n"
    "next_event n c m mod n = Suc c mod n"
    "next_event n c m = Suc c \<longleftrightarrow> m \<le> c + n"
proof -
  have lt: "(m - Suc c) mod n < n" using assms(2) by simp
  have le: "(m - Suc c) mod n \<le> m - Suc c" by simp
  show "c < next_event n c m" "next_event n c m \<le> m" "m < next_event n c m + n"
    using assms(1) lt le unfolding next_event_def by linarith+
  have "next_event n c m = Suc c + (m - Suc c) div n * n"
    using assms(1) minus_mod_eq_div_mult [of "m - Suc c" n] le unfolding next_event_def by linarith
  then show "next_event n c m mod n = Suc c mod n" by simp
  show "next_event n c m = Suc c \<longleftrightarrow> m \<le> c + n"
  proof
    assume "next_event n c m = Suc c"
    then show "m \<le> c + n" using lt assms(1) le unfolding next_event_def by linarith
  next
    assume "m \<le> c + n"
    then have "(m - Suc c) mod n = m - Suc c" using assms by simp
    then show "next_event n c m = Suc c" using assms(1) by (simp add: next_event_def)
  qed
qed

text \<open>A queue of the application that has read the events up to number \<open>c\<close>.\<close>

definition reader :: "'w api \<Rightarrow> int \<Rightarrow> user_ptr \<Rightarrow> nat \<Rightarrow> nat \<Rightarrow> bool" where
  "reader st eventq base n c \<longleftrightarrow>
     h_index eventq < int MAX_EQS \<and> (\<exists>nal. api_ifs st 0 = Some nal \<and>
       api_eqs st nal (nat (h_index eventq)) =
         \<lparr>peq_inuse = True, peq_sequence = of_nat (Suc c), peq_size = int n, peq_base = base\<rparr>)"

lemma iface_masked: "iface st (h_index h) = Some (api_ifs st 0)"
proof -
  have "drop_bit 16 (h_index h) = (0 :: int)"
    using h_index_bounds [of h] by (simp add: drop_bit_eq_div del: h_index_bounds)
  then show ?thesis by (simp add: iface_def MAX_NIS_def)
qed

lemma word_less_of_nat: "i < 2 ^ 32 \<Longrightarrow> j < 2 ^ 32 \<Longrightarrow> (of_nat i :: 32 word) < of_nat j \<longleftrightarrow> i < j"
  by (simp add: word_less_nat_alt unat_of_nat)

text \<open>Reading from a ring.\<close>

lemma PtlEQGet_ring:
  assumes reader: "reader st eventq base n c" and ring: "ring base n es (api_mem st)"
    and n: "0 < n" "n < 2 ^ 31" and c: "c \<le> length es" "Suc (length es) < 2 ^ 32"
  shows "c = length es \<Longrightarrow> PtlEQGet eventq st = Some ((PTL_EQ_EMPTY, None), st)"
    and "c < length es \<Longrightarrow> \<exists>st'. PtlEQGet eventq st =
      Some ((if length es \<le> c + n then PTL_OK else PTL_EQ_DROPPED,
             Some (es ! (next_event n c (length es) - 1))), st') \<and>
      reader st' eventq base n (next_event n c (length es)) \<and> api_mem st' = api_mem st"
proof -
  let ?i = "nat (h_index eventq)" and ?m = "length es"
  from reader obtain nal where nal: "api_ifs st 0 = Some nal" and idx: "h_index eventq < int MAX_EQS"
    and q: "api_eqs st nal ?i =
      \<lparr>peq_inuse = True, peq_sequence = of_nat (Suc c), peq_size = int n, peq_base = base\<rparr>"
    by (auto simp: reader_def)
  have bad: "bad_peq st nal (h_index eventq) = Some False"
    using idx q by (simp add: bad_peq_def peq_at_def)
  have size: "(of_int (int n) :: 32 word) \<noteq> 0"
    using n by (simp add: word_of_nat_eq_0_iff nat_dvd_not_less)
  have slot: "of_int (sint ((of_nat (Suc c) :: 32 word) mod of_int (int n))) = (of_nat (Suc c mod n) :: 64 word)"
    using c by (intro slot_get [OF _ n]) linarith
  let ?ev = "api_mem st (ev_addr base (of_nat (Suc c mod n)))"
  have get: "PtlEQGet eventq st =
      (if of_nat (Suc c) > ev_sequence ?ev then Some ((PTL_EQ_EMPTY, None), st)
       else Some ((if of_nat (Suc c) \<noteq> ev_sequence ?ev then PTL_EQ_DROPPED else PTL_OK, Some ?ev),
         set_peq nal ?i (\<lambda>q. q\<lparr>peq_sequence := ev_sequence ?ev + 1\<rparr>) st))"
    using size slot unfolding PtlEQGet_def Let_def iface_masked nal
    by (simp add: bad q del: of_int_of_nat_eq of_nat_Suc)
  show "PtlEQGet eventq st = Some ((PTL_EQ_EMPTY, None), st)" if "c = ?m"
  proof -
    have "ev_sequence ?ev < of_nat (Suc c)"
    proof (cases "?m < n")
      case True
      with ring that have "ev_sequence ?ev = 0" by (simp add: ring_def)
      then show ?thesis using c that by (simp add: word_greater_zero_iff word_of_nat_eq_0_iff nat_dvd_not_less del: of_nat_Suc)
    next
      case False
      let ?k = "Suc c - n"
      have "?k mod n = Suc c mod n" using False that n by (metis le_mod_geq le_SucI not_less)
      moreover have k: "0 < ?k" "?k \<le> ?m" "?m < ?k + n" using False that n by linarith+
      ultimately have "?ev = es ! (?k - 1)" "ev_sequence (es ! (?k - 1)) = of_nat ?k"
        using ring unfolding ring_def by metis+
      then have "ev_sequence ?ev = of_nat ?k" by simp
      moreover have "(of_nat ?k :: 32 word) < of_nat (Suc c)"
        using c that n by (subst word_less_of_nat) linarith+
      ultimately show ?thesis by simp
    qed
    then show ?thesis using get by simp
  qed
  show "\<exists>st'. PtlEQGet eventq st = Some ((if ?m \<le> c + n then PTL_OK else PTL_EQ_DROPPED,
        Some (es ! (next_event n c ?m - 1))), st') \<and>
      reader st' eventq base n (next_event n c ?m) \<and> api_mem st' = api_mem st" if lt: "c < ?m"
  proof -
    let ?k = "next_event n c ?m"
    note k = next_event_props [OF lt n(1)]
    have "?ev = es ! (?k - 1)" "ev_sequence (es ! (?k - 1)) = of_nat ?k"
      using ring k(1-4) unfolding ring_def by (metis (no_types) less_nat_zero_code linorder_neqE_nat)+
    then have ev: "?ev = es ! (?k - 1)" "ev_sequence ?ev = of_nat ?k" by simp_all
    have "\<not> (of_nat ?k :: 32 word) < of_nat (Suc c)"
      using c k(1,2) by (subst word_less_of_nat) linarith+
    moreover have "(of_nat (Suc c) :: 32 word) = of_nat ?k \<longleftrightarrow> ?m \<le> c + n"
    proof -
      have "(of_nat (Suc c) :: 32 word) = of_nat ?k \<longleftrightarrow> Suc c = ?k"
        using c k(1,2) by (auto simp: word_unat_eq_iff unat_of_nat simp del: of_nat_Suc)
      with k(5) show ?thesis by auto
    qed
    moreover have "reader (set_peq nal ?i (\<lambda>q. q\<lparr>peq_sequence := of_nat ?k + 1\<rparr>) st) eventq base n ?k"
      using nal idx q by (simp add: reader_def set_peq_def)
    ultimately show ?thesis
      using get ev by (auto simp: set_peq_def)
  qed
qed

end
