(* ===== verification/P30_Example.thy ===== *)
theory P30_Example
  imports P30_Api
begin

text \<open>
  A concrete interface: a network layer whose callbacks always succeed, an interface with
  eight portals that \<open>lib_init\<close> sets up over it, and the states after an entry, a queue,
  descriptors and messages have been added to it.  The theorems of the other theories are
  instantiated on these states.
\<close>

section \<open>Pools after initialisation\<close>

text \<open>The free list of a fresh pool runs down from the last object.\<close>

lemma pool_init_loop_next:
  "next_free (pool_init_loop i k p) j =
     (if i \<le> j \<and> j < i + k then (if j = i then free_head p else FObj (j - 1)) else next_free p j)"
  by (induction i k p rule: pool_init_loop.induct) auto

lemma pool_init_loop_head:
  "free_head (pool_init_loop i k p) = (if k = 0 then free_head p else FObj (i + k - 1))"
  by (induction i k p rule: pool_init_loop.induct) auto

lemma pool_init_eq:
  "0 < n \<Longrightarrow> pool_init n p =
     \<lparr>next_free = (\<lambda>j. if j < n then (if j = 0 then FDead else FObj (j - 1)) else next_free p j),
      free_head = FObj (n - 1)\<rparr>"
  by (intro pool.equality) (simp_all add: pool_init_def pool_init_loop_next pool_init_loop_head fun_eq_iff)

section \<open>The interface\<close>

definition demo_id :: ptl_process_id where
  "demo_id = \<lparr>addr_kind = PTL_ADDR_BOTH, id_nid = 7, id_pid = 8, id_gid = 9, id_rid = 0\<rparr>"

definition any_id :: ptl_process_id where
  "any_id = \<lparr>addr_kind = PTL_ADDR_BOTH, id_nid = PTL_ID_ANY, id_pid = PTL_ID_ANY,
     id_gid = PTL_ID_ANY, id_rid = PTL_ID_ANY\<rparr>"

definition demo_cb :: nal_cb where
  "demo_cb = \<lparr>cb_send = (\<lambda>_ _ _ _ _. 0), cb_write = (\<lambda>_ _ _. 0), cb_validate = (\<lambda>_ _ _. (0, 0)),
     cb_malloc = (\<lambda>_ _. 4096), cb_gidrid2nidpid = (\<lambda>g r. (0, r, g)),
     cb_nidpid2gidrid = (\<lambda>n p. (0, p, n)), cb_dist = (\<lambda>n. (0, 1))\<rparr>"

definition demo_md :: ptl_md where
  "demo_md = \<lparr>pm_start = 0x10000, pm_length = 100, pm_threshold = 2, pm_max_offset = 100,
     pm_options = 3, pm_user_ptr = 0, pm_eventq = PTL_EQ_NONE\<rparr>"

definition demo_event :: ptl_event where
  "demo_event = \<lparr>ev_type = PTL_EVENT_PUT, ev_sequence = 0, ev_initiator = demo_id, ev_portal = 0,
     ev_match_bits = 0, ev_rlength = 0, ev_mlength = 0, ev_offset = 0, ev_md = demo_md,
     ev_hdr_data = 0\<rparr>"

text \<open>The memory of the interface before \<open>lib_init\<close>.\<close>

definition demo_raw :: lib_ni where
  "demo_raw =
     \<lparr>ni_up = False, ni_nid = 0, ni_pid = 0, ni_rid = 0, ni_gid = 0, ni_num_nodes = 0, ni_debug = 0,
      ni_tbl_size = 0,
      ni_me_links = \<lparr>heads = \<lambda>_. None, nxt = \<lambda>_. None, prv = \<lambda>_. None\<rparr>,
      ni_md_links = \<lparr>heads = \<lambda>_. None, nxt = \<lambda>_. None, prv = \<lambda>_. None\<rparr>,
      ni_eq = (\<lambda>_. \<lparr>eq_sequence = 0, eq_size = 0, eq_base = 0, eq_pending = 0\<rparr>),
      ni_me = (\<lambda>_. \<lparr>me_match_id = demo_id, me_match_bits = 0, me_ignore_bits = 0, me_unlink = PTL_RETAIN\<rparr>),
      ni_md = (\<lambda>_. \<lparr>md_me = None, md_start = 0, md_offset = 0, md_length = 0, md_threshold = 0,
        md_max_offset = 0, md_pending = 0, md_unlink = PTL_RETAIN, md_options = 0, md_user_ptr = 0,
        md_eq = None, md_do_unlink = False, md_addrkey = 0\<rparr>),
      ni_msg = (\<lambda>_. \<lparr>msg_md = None, msg_gid = 0, msg_rid = 0, msg_nid = 0, msg_pid = 0,
        msg_ev = demo_event, msg_return_md = 0\<rparr>),
      ni_eq_pool = \<lparr>next_free = \<lambda>_. FNull, free_head = FNull\<rparr>,
      ni_me_pool = \<lparr>next_free = \<lambda>_. FNull, free_head = FNull\<rparr>,
      ni_md_pool = \<lparr>next_free = \<lambda>_. FNull, free_head = FNull\<rparr>,
      ni_msg_pool = \<lparr>next_free = \<lambda>_. FNull, free_head = FNull\<rparr>,
      ni_counters = zero_counters,
      ni_tbl_ptr = 0, ni_eq_ptr = 0, ni_me_ptr = 0, ni_md_ptr = 0, ni_msg_ptr = 0, ni_trace = []\<rparr>"

definition demo_ni :: lib_ni where
  "demo_ni = snd (lib_init demo_cb 7 8 0 9 1 8 demo_raw)"

lemma demo_init: "lib_init demo_cb 7 8 0 9 1 8 demo_raw = (PTL_OK, demo_ni)"
  by (simp add: demo_ni_def lib_init_def lib_init_alloc_def lib_malloc_def Let_def demo_cb_def NULL_PTR_def)

lemmas demo_inv = lib_init_establishes [OF demo_init]

lemma demo_reachable: "reachable demo_cb demo_ni"
  by (rule reachable.init [OF demo_init])


lemma demo_ni_sel:
  "ni_up demo_ni" "ni_tbl_size demo_ni = 8" "ni_counters demo_ni = zero_counters"
  "ni_nid demo_ni = 7" "ni_pid demo_ni = 8" "ni_gid demo_ni = 9" "ni_rid demo_ni = 0"
  "heads (ni_me_links demo_ni) i = None" "heads (ni_md_links demo_ni) i = None"
  "nxt (ni_me_links demo_ni) i = None" "nxt (ni_md_links demo_ni) i = None"
  "prv (ni_me_links demo_ni) i = None" "prv (ni_md_links demo_ni) i = None"
  "free_head (ni_me_pool demo_ni) = FObj 4095" "free_head (ni_md_pool demo_ni) = FObj 4095"
  "free_head (ni_eq_pool demo_ni) = FObj 4095" "free_head (ni_msg_pool demo_ni) = FObj 1023"
  "ni_msg demo_ni = ni_msg demo_raw"
  by (simp_all add: demo_ni_def lib_init_def lib_init_alloc_def lib_malloc_def Let_def demo_cb_def
      NULL_PTR_def demo_raw_def pool_init_eq nal_call_def MAX_MES_def MAX_MDS_def MAX_EQS_def MAX_MSGS_def)

section \<open>A portal with an entry, a queue and a descriptor\<close>

text \<open>
  Portal 4 gets an entry that any process matches with the bits 5, the interface a queue of
  four events, and the entry a descriptor of 100 bytes that reports to the queue.
\<close>

definition demo_me_ni :: lib_ni where
  "demo_me_ni = snd (the (do_PtlMEAttach 0 4 any_id 5 0 PTL_UNLINK demo_ni))"

definition demo_eq_ni :: lib_ni where
  "demo_eq_ni = snd (do_PtlEQAlloc_internal 0 4 0x20000 demo_me_ni)"

definition demo_md_ni :: lib_ni where
  "demo_md_ni = snd (the (do_PtlMDAttach_internal demo_cb 4095 (demo_md\<lparr>pm_eventq := 4095\<rparr>) PTL_UNLINK demo_eq_ni))"

lemma demo_attach: "do_PtlMEAttach 0 4 any_id 5 0 PTL_UNLINK demo_ni = Some ((PTL_OK, Some 4095), demo_me_ni)"
  by (simp add: demo_me_ni_def do_PtlMEAttach_def lib_me_alloc_def pool_alloc_def demo_ni_sel Let_def h_ni_def)

lemma demo_me_sel:
  "ni_up demo_me_ni" "ni_tbl_size demo_me_ni = 8" "ni_counters demo_me_ni = zero_counters"
  "next_free (ni_me_pool demo_me_ni) 4095 = FNull" "ni_md_pool demo_me_ni = ni_md_pool demo_ni"
  "ni_eq_pool demo_me_ni = ni_eq_pool demo_ni" "ni_msg_pool demo_me_ni = ni_msg_pool demo_ni"
  "ni_me_links demo_me_ni = link_head 4 4095 (ni_me_links demo_ni)"
  "ni_md_links demo_me_ni = cell_set (Head 4095) None (ni_md_links demo_ni)"
  "ni_me demo_me_ni 4095 = me_of any_id 5 0 PTL_UNLINK" "ni_msg demo_me_ni = ni_msg demo_raw"
  "ni_nid demo_me_ni = 7" "ni_pid demo_me_ni = 8" "ni_gid demo_me_ni = 9" "ni_rid demo_me_ni = 0"
  by (simp_all add: demo_me_ni_def do_PtlMEAttach_def lib_me_alloc_def pool_alloc_def demo_ni_sel Let_def
      upd_me_def me_of_def pool_inuse_def)

lemma demo_eq_alloc: "do_PtlEQAlloc_internal 0 4 0x20000 demo_me_ni = ((PTL_OK, Some 4095), demo_eq_ni)"
  by (simp add: demo_eq_ni_def do_PtlEQAlloc_internal_def lib_eq_alloc_def pool_alloc_def demo_me_sel
      demo_ni_sel Let_def h_ni_def)

lemma demo_eq_sel:
  "ni_up demo_eq_ni" "ni_tbl_size demo_eq_ni = 8" "ni_counters demo_eq_ni = zero_counters"
  "ni_me_pool demo_eq_ni = ni_me_pool demo_me_ni" "ni_md_pool demo_eq_ni = ni_md_pool demo_ni"
  "next_free (ni_eq_pool demo_eq_ni) 4095 = FNull" "ni_msg_pool demo_eq_ni = ni_msg_pool demo_ni"
  "ni_me_links demo_eq_ni = ni_me_links demo_me_ni" "ni_md_links demo_eq_ni = ni_md_links demo_me_ni"
  "ni_me demo_eq_ni = ni_me demo_me_ni" "ni_msg demo_eq_ni = ni_msg demo_raw"
  "ni_eq demo_eq_ni 4095 = \<lparr>eq_sequence = 1, eq_size = 4, eq_base = 0x20000, eq_pending = 0\<rparr>"
  "ni_nid demo_eq_ni = 7" "ni_pid demo_eq_ni = 8" "ni_gid demo_eq_ni = 9" "ni_rid demo_eq_ni = 0"
  by (simp_all add: demo_eq_ni_def do_PtlEQAlloc_internal_def lib_eq_alloc_def pool_alloc_def demo_me_sel
      demo_ni_sel Let_def upd_eq_def pool_inuse_def)

lemma h_index_4095 [simp]: "h_index 4095 = 4095"
  by (simp add: h_index_mod)

lemma demo_md_attach:
  "do_PtlMDAttach_internal demo_cb 4095 (demo_md\<lparr>pm_eventq := 4095\<rparr>) PTL_UNLINK demo_eq_ni =
     Some ((PTL_OK, Some 4095), demo_md_ni)"
  by (simp add: demo_md_ni_def do_PtlMDAttach_internal_def lib_md_build_def md_build_eq_def bad_index_def
      inuse_at_def lib_md_alloc_def pool_alloc_def demo_eq_sel demo_me_sel demo_ni_sel demo_cb_def
      MAX_MES_def MAX_EQS_def PTL_EQ_NONE_def demo_md_def Let_def h_ni_def pool_inuse_def)

lemma demo_md_sel:
  "ni_up demo_md_ni" "ni_tbl_size demo_md_ni = 8" "ni_counters demo_md_ni = zero_counters"
  "ni_me_pool demo_md_ni = ni_me_pool demo_me_ni" "next_free (ni_md_pool demo_md_ni) 4095 = FNull"
  "ni_eq_pool demo_md_ni = ni_eq_pool demo_eq_ni" "ni_msg_pool demo_md_ni = ni_msg_pool demo_ni"
  "ni_me_links demo_md_ni = ni_me_links demo_me_ni"
  "heads (ni_md_links demo_md_ni) 4095 = Some 4095" "nxt (ni_md_links demo_md_ni) 4095 = None"
  "prv (ni_md_links demo_md_ni) 4095 = Some (Head 4095)"
  "ni_me demo_md_ni = ni_me demo_me_ni" "ni_msg demo_md_ni = ni_msg demo_raw"
  "ni_eq demo_md_ni = ni_eq demo_eq_ni"
  "ni_md demo_md_ni 4095 = \<lparr>md_me = Some 4095, md_start = 0x10000, md_offset = 0, md_length = 100,
     md_threshold = 2, md_max_offset = 100, md_pending = 0, md_unlink = PTL_UNLINK, md_options = 3,
     md_user_ptr = 0, md_eq = Some 4095, md_do_unlink = False, md_addrkey = 0\<rparr>"
  "ni_nid demo_md_ni = 7" "ni_pid demo_md_ni = 8" "ni_gid demo_md_ni = 9" "ni_rid demo_md_ni = 0"
  by (simp_all add: demo_md_ni_def do_PtlMDAttach_internal_def lib_md_build_def md_build_eq_def bad_index_def
      inuse_at_def lib_md_alloc_def pool_alloc_def demo_eq_sel demo_me_sel demo_ni_sel demo_cb_def
      MAX_MES_def MAX_EQS_def PTL_EQ_NONE_def demo_md_def Let_def upd_md_def pool_inuse_def link_clear_def)

lemma demo_step:
  "lib_step demo_cb demo_ni demo_me_ni" "lib_step demo_cb demo_me_ni demo_eq_ni"
  "lib_step demo_cb demo_eq_ni demo_md_ni"
  by (rule lib_step.api [where idx = 5 and args = "MEAttach_in 0 4 any_id 5 0 PTL_UNLINK"]
        lib_step.api [where idx = 15 and args = "EQAlloc_in 0 4 0x20000"]
        lib_step.api [where idx = 10 and args = "MDAttach_in 4095 (demo_md\<lparr>pm_eventq := 4095\<rparr>) PTL_UNLINK"];
      simp add: lib_dispatch_def LIB_MAX_DISPATCH_def dispatch_table_def demo_attach demo_eq_alloc demo_md_attach
        demo_ni_sel demo_me_sel demo_eq_sel)+

lemma demo_md_reachable: "reachable demo_cb demo_md_ni"
  using demo_reachable demo_step by (blast intro: reachable.step)

lemmas demo_md_inv = reachable_inv [OF demo_md_reachable]

section \<open>A message to the portal\<close>

definition demo_src :: hdr_src where
  "demo_src = \<lparr>src_nid = 1, src_pid = 2, src_gid = 3, src_rid = 1\<rparr>"

definition demo_put :: put_msg where
  "demo_put = \<lparr>put_ptl_index = 4, put_ack_md = 17, put_match_bits = 5, put_length = 40,
     put_offset = 0, put_hdr_data = 99\<rparr>"

definition demo_hdr :: ptl_hdr where
  "demo_hdr = \<lparr>hdr_nid = 7, hdr_pid = 8, hdr_src = demo_src, hdr_msg = MSG_PUT demo_put\<rparr>"

definition demo_put_ni :: lib_ni where
  "demo_put_ni = snd (the (lib_parse demo_cb demo_hdr demo_md_ni))"

lemma demo_list: "list_at (ni_me_links demo_md_ni) 4 [4095]"
  by (simp add: demo_md_sel demo_me_sel list_at_def link_head_def)

lemma demo_matches: "me_matches src 5 (me_of any_id 5 0 u)"
  by (simp add: me_matches_def id_matches_def any_id_def me_of_def)

lemma has_option_3:
  "has_option 3 PTL_MD_OP_PUT" "has_option 3 PTL_MD_OP_GET" "\<not> has_option 3 PTL_MD_MANAGE_REMOTE"
  "\<not> has_option 3 PTL_MD_TRUNCATE" "\<not> has_option 3 PTL_MD_ACK_DISABLE"
  by (simp_all add: has_option_def ptl_const)

lemma demo_offer: "me_offer src type 40 off 5 demo_md_ni 4095 = Some (4095, 40, 0)"
  by (cases type) (simp_all add: me_offer_def demo_md_sel demo_me_sel demo_matches md_try_def has_option_3 s32_def)

lemma demo_find:
  "lib_find_md src 4 type 40 off 5 demo_md_ni =
     Some (Some (4095, 40, 0), upd_md 4095 (\<lambda>m. m\<lparr>md_offset := s32 (md_offset m + 40)\<rparr>) demo_md_ni)"
  using lib_find_md_spec [OF demo_md_inv, of 4 "[4095]"] demo_list by (simp add: demo_md_sel demo_offer)

lemma demo_parse: "lib_parse demo_cb demo_hdr demo_md_ni = Some (0, demo_put_ni)"
  by (simp add: demo_put_ni_def lib_parse_def demo_hdr_def parse_put_def demo_put_def demo_find
      lib_msg_alloc_def pool_alloc_def demo_md_sel demo_ni_sel Let_def)

end
