(* ===== verification/P30_Runs.thy ===== *)
theory P30_Runs
  imports P30_Example
begin

text \<open>
  Runs of an interface: what holds in every state that requests, incoming messages and
  completions can lead to.  The runs of \<open>reachable\<close> are arbitrary; the orderly runs below
  leave out what the library does not guard against, a queue of no events and an unlink of a
  descriptor with operations pending.
\<close>

section \<open>Orderly runs\<close>

inductive orderly :: "nal_cb \<Rightarrow> lib_ni \<Rightarrow> bool" for cb where
  init: "lib_init cb nid pid rid gid gsize ptl_size ni = (PTL_OK, ni') \<Longrightarrow> orderly cb ni'"
| api: "orderly cb ni \<Longrightarrow> sane_args args \<Longrightarrow> idle_args args ni \<Longrightarrow>
    lib_dispatch cb idx args ni = Some (ret, ni') \<Longrightarrow> orderly cb ni'"
| incoming: "orderly cb ni \<Longrightarrow> lib_parse cb hdr ni = Some (rc, ni') \<Longrightarrow> orderly cb ni'"
| completion: "orderly cb ni \<Longrightarrow> k \<in> used_msgs ni \<Longrightarrow> lib_finalize cb (Some k) ni = Some (rc, ni') \<Longrightarrow>
    orderly cb ni'"

lemma lib_dispatch_dispatch_fun:
  "lib_dispatch cb idx args ni = Some (ret, ni') \<Longrightarrow>
   ni' = ni \<or> (\<exists>r. dispatch_fun cb args ni = Some (r, ni'))"
  by (auto simp: lib_dispatch_def split: if_splits)

lemma orderly_inv: "orderly cb ni \<Longrightarrow> ni_inv ni \<and> ev_inv ni \<and> pend_inv ni"
proof (induction rule: orderly.induct)
  case (init nid pid rid gid gsize ptl_size ni ni')
  from lib_init_establishes(1-3) [OF this] show ?case by blast
next
  case (api ni args idx ret ni')
  from lib_dispatch_dispatch_fun [OF api.hyps(4)] show ?case
  proof
    assume "\<exists>r. dispatch_fun cb args ni = Some (r, ni')"
    then obtain r where "dispatch_fun cb args ni = Some (r, ni')" by blast
    with api.IH api.hyps(2,3) show ?thesis
      using dispatch_fun_inv dispatch_fun_ev_inv dispatch_fun_pend_inv by blast
  qed (use api.IH in simp)
next
  case (incoming ni hdr rc ni')
  then have inv: "ni_inv ni" by blast
  from lib_parse_inv [OF inv incoming.hyps(2)] moves_inv2 [OF lib_parse_moves [OF inv incoming.hyps(2)]]
    incoming.IH show ?case by blast
next
  case (completion ni k rc ni')
  then have inv: "ni_inv ni" "ev_inv ni" "pend_inv ni" by blast+
  from lib_finalize_inv [OF inv(1) completion.hyps(2,3)]
    lib_finalize_inv2 [OF inv(1,2) completion.hyps(2,3)] inv(3) show ?case by blast
qed

section \<open>Completing every message\<close>

lemma complete_one:
  assumes ord: "orderly cb ni" and up: "ni_up ni" and k: "k \<in> used_msgs ni"
    and wr: "\<forall>t a e. cb_write cb t a e = 0"
  obtains rc ni' where "lib_finalize cb (Some k) ni = Some (rc, ni')" "orderly cb ni'" "ni_up ni'"
    "used_msgs ni' = used_msgs ni - {k}"
proof -
  from orderly_inv [OF ord] have inv: "ni_inv ni" "ev_inv ni" by blast+
  from inv k up show thesis
  proof (cases rule: lib_finalize_cases [of ni k cb])
    case (failed ni1)
    with wr show ?thesis by blast
  next
    case (completed md ni2 ni3 rc)
    have k3: "k \<in> used_msgs ni3" using k completed(6) by simp
    have "used_msgs (lib_msg_free k ni3) = used_msgs ni - {k}"
      using holders_msg_free(1) [OF completed(5) k3] completed(6) by simp
    moreover have "ni_up (lib_msg_free k ni3)" using completed(10) by (simp add: lib_msg_free_def Let_def)
    ultimately show ?thesis
      using that [OF completed(7)] orderly.completion [OF ord k completed(7)] by blast
  qed
qed

fun complete_all :: "nal_cb \<Rightarrow> nat list \<Rightarrow> lib_ni \<Rightarrow> lib_ni option" where
  "complete_all cb [] ni = Some ni"
| "complete_all cb (k # ks) ni =
     Option.bind (lib_finalize cb (Some k) ni) (\<lambda>(rc, ni'). complete_all cb ks ni')"

lemma complete_all_drains:
  assumes wr: "\<forall>t a e. cb_write cb t a e = 0"
    and "orderly cb ni" "ni_up ni" "distinct ks" "set ks \<subseteq> used_msgs ni"
  shows "\<exists>ni'. complete_all cb ks ni = Some ni' \<and> orderly cb ni' \<and> used_msgs ni' = used_msgs ni - set ks"
  using assms(2-)
proof (induction ks arbitrary: ni)
  case (Cons k ks)
  from Cons.prems have k: "k \<in> used_msgs ni" by simp
  obtain rc ni1 where step: "lib_finalize cb (Some k) ni = Some (rc, ni1)" "orderly cb ni1" "ni_up ni1"
      "used_msgs ni1 = used_msgs ni - {k}"
    by (rule complete_one [OF Cons.prems(1,2) k wr])
  have "set ks \<subseteq> used_msgs ni1" using Cons.prems step(4) by auto
  from Cons.IH [OF step(2,3) _ this] Cons.prems(3) obtain ni' where
    "complete_all cb ks ni1 = Some ni'" "orderly cb ni'" "used_msgs ni' = used_msgs ni1 - set ks" by auto
  with step show ?case by auto
qed simp

section \<open>Properties\<close>

text \<open>
  C4: in every state that any sequence of requests, messages and completions can reach, a
  request through the dispatch table returns a result block and keeps the invariant of the
  interface, unless its index is exactly the size of the array it selects from.
\<close>

theorem reachable_request_total:
  assumes "reachable cb ni" "\<not> at_boundary args ni"
  shows "\<exists>ret ni'. lib_dispatch cb (dispatch_index args) args ni = Some (Some ret, ni') \<and> ni_inv ni'"
proof -
  have inv: "ni_inv ni" by (rule reachable_inv [OF assms(1)])
  obtain ret ni' where "dispatch_fun cb args ni = Some (ret, ni')"
    using dispatch_fun_None [OF inv] assms(2) by fastforce
  then show ?thesis using dispatch_fun_inv [OF inv] by (simp add: lib_dispatch_index)
qed

theorem reachable_request_total_witness:
  "reachable demo_cb demo_md_ni \<and> \<not> at_boundary (MDUnlink_in 4095) demo_md_ni \<and>
   (\<exists>ret ni'. lib_dispatch demo_cb 14 (MDUnlink_in 4095) demo_md_ni = Some (Some ret, ni') \<and> ni_inv ni')"
proof -
  have nb: "\<not> at_boundary (MDUnlink_in 4095) demo_md_ni" by (simp add: MAX_MDS_def)
  from reachable_request_total [OF demo_md_reachable nb] nb demo_md_reachable show ?thesis by (simp add: PTL_MDUNLINK_def)
qed

text \<open>
  C5: in every reachable state, an incoming message with any header is handled without a
  fault and keeps the invariant, unless the portal or the descriptor it names is exactly the
  size of the table.
\<close>

theorem reachable_incoming_total:
  assumes "reachable cb ni" "\<not> hdr_at_boundary hdr ni"
  shows "\<exists>rc ni'. lib_parse cb hdr ni = Some (rc, ni') \<and> ni_inv ni'"
proof -
  have inv: "ni_inv ni" by (rule reachable_inv [OF assms(1)])
  then show ?thesis using lib_parse_None [OF inv, of cb hdr] lib_parse_inv [OF inv] assms(2) by fastforce
qed

theorem reachable_incoming_total_witness:
  "reachable demo_cb demo_md_ni \<and> \<not> hdr_at_boundary demo_hdr demo_md_ni \<and>
   (\<exists>rc ni'. lib_parse demo_cb demo_hdr demo_md_ni = Some (rc, ni') \<and> ni_inv ni')"
proof -
  have nb: "\<not> hdr_at_boundary demo_hdr demo_md_ni" by (simp add: demo_hdr_def demo_put_def demo_md_sel)
  from reachable_incoming_total [OF demo_md_reachable nb] nb demo_md_reachable show ?thesis by blast
qed

lemma bad_index_size [simp]: "bad_index n p (int n) = None"
  by (simp add: bad_index_def inuse_at_def)

text \<open>
  Requests on a handle whose index is the size of the array read one element past its end.
\<close>

lemma request_at_size_faults:
  "h_index h = int MAX_MDS \<Longrightarrow> lib_dispatch cb PTL_MDUNLINK (MDUnlink_in h) ni = None"
  "h_index h = int MAX_MDS \<Longrightarrow> lib_dispatch cb PTL_PUT (Put_in h ack i p mb off dat) ni = None"
  "h_index h = int MAX_MDS \<Longrightarrow> lib_dispatch cb PTL_GET (Get_in h i p mb off) ni = None"
  "h_index h = int MAX_MES \<Longrightarrow> lib_dispatch cb PTL_MEUNLINK (MEUnlink_in h) ni = None"
  "h_index h = int MAX_EQS \<Longrightarrow> lib_dispatch cb PTL_EQFREE (EQFree_in h) ni = None"
  using lib_dispatch_index [of cb "MDUnlink_in h" ni] lib_dispatch_index [of cb "MEUnlink_in h" ni] lib_dispatch_index [of cb "EQFree_in h" ni]
    lib_dispatch_index [of cb "Put_in h ack i p mb off dat" ni] lib_dispatch_index [of cb "Get_in h i p mb off" ni]
  by (simp_all add: do_PtlMDUnlink_internal_def do_PtlMEUnlink_def do_PtlEQFree_internal_def do_PtlPut_def do_PtlGet_def)

text \<open>
  C26: in every reachable state, an incoming message makes the library read outside its
  arrays exactly when the portal of a put or a get, or the descriptor of an acknowledgement or
  a reply, is one past the end of its table; every other message is handled.
\<close>

theorem incoming_faults_exactly:
  assumes "reachable cb ni" "0 \<le> ni_tbl_size ni"
  shows "lib_parse cb hdr ni = None \<longleftrightarrow>
    (case hdr_msg hdr of
       MSG_PUT put \<Rightarrow> put_ptl_index put = ni_tbl_size ni
     | MSG_GET get \<Rightarrow> get_ptl_index get = ni_tbl_size ni
     | MSG_ACK ack \<Rightarrow> h_index (ack_dst_md ack) = int MAX_MDS
     | MSG_REPLY reply \<Rightarrow> h_index (reply_dst_md reply) = int MAX_MDS
     | _ \<Rightarrow> False)" (is "_ \<longleftrightarrow> ?at")
proof
  assume "lib_parse cb hdr ni = None"
  from lib_parse_None [OF reachable_inv [OF assms(1)] this] show ?at by (simp split: ptl_msg.splits)
next
  assume ?at
  then show "lib_parse cb hdr ni = None"
    using assms(2) by (cases "hdr_msg hdr")
      (simp_all add: lib_parse_def parse_ack_def parse_reply_def parse_put_def parse_get_def lib_find_md_def Let_def)
qed

theorem incoming_faults_exactly_witness:
  "reachable demo_cb demo_md_ni \<and> lib_parse demo_cb demo_hdr demo_md_ni \<noteq> None \<and>
   lib_parse demo_cb (demo_hdr\<lparr>hdr_msg := MSG_PUT (demo_put\<lparr>put_ptl_index := 8\<rparr>)\<rparr>) demo_md_ni = None"
  using incoming_faults_exactly [OF demo_md_reachable, of demo_hdr]
    incoming_faults_exactly [OF demo_md_reachable, of "demo_hdr\<lparr>hdr_msg := MSG_PUT (demo_put\<lparr>put_ptl_index := 8\<rparr>)\<rparr>"] demo_md_reachable
  by (simp add: demo_md_sel demo_hdr_def demo_put_def)

text \<open>
  C13: in an orderly run the counter of pending operations of a descriptor is the number
  of messages in use that hold it, and every message in use holds a descriptor that is in use.
\<close>

theorem orderly_pending:
  assumes "orderly cb ni"
  shows "(\<forall>m\<in>used_mds ni. md_pending (ni_md ni m) = int (card {k \<in> used_msgs ni. msg_md (ni_msg ni k) = Some m})) \<and>
    (\<forall>k\<in>used_msgs ni. \<exists>m\<in>used_mds ni. msg_md (ni_msg ni k) = Some m)"
proof -
  from orderly_inv [OF assms] have "ev_inv ni" "pend_inv ni" by blast+
  then show ?thesis unfolding ev_inv_def pend_inv_def holders_def by fastforce
qed

lemma demo_orderly: "orderly demo_cb demo_put_ni"
proof -
  have "orderly demo_cb demo_me_ni"
    by (rule orderly.api [OF orderly.init [OF demo_init],
          where idx = 5 and args = "MEAttach_in 0 4 any_id 5 0 PTL_UNLINK"])
      (simp_all add: lib_dispatch_def LIB_MAX_DISPATCH_def dispatch_table_def demo_attach)
  then have "orderly demo_cb demo_eq_ni"
    by (rule orderly.api [where idx = 15 and args = "EQAlloc_in 0 4 0x20000"])
      (simp_all add: lib_dispatch_def LIB_MAX_DISPATCH_def dispatch_table_def demo_eq_alloc)
  then have "orderly demo_cb demo_md_ni"
    by (rule orderly.api [where idx = 10 and args = "MDAttach_in 4095 (demo_md\<lparr>pm_eventq := 4095\<rparr>) PTL_UNLINK"])
      (simp_all add: lib_dispatch_def LIB_MAX_DISPATCH_def dispatch_table_def demo_md_attach)
  then show ?thesis by (rule orderly.incoming [OF _ demo_parse])
qed

lemma demo_put_msgs: "used_msgs demo_put_ni = {1023}" and demo_put_up: "ni_up demo_put_ni"
  and demo_put_md: "msg_md (ni_msg demo_put_ni 1023) = Some 4095"
proof -
  note eval = demo_put_ni_def lib_parse_def demo_hdr_def parse_put_def demo_put_def demo_find
    lib_msg_alloc_def pool_alloc_def demo_md_sel demo_ni_sel Let_def hold_md_def fill_event_def
    count_recv_def upd_md_def upd_msg_def upd_eq_def upd_counters_def nal_call_def
  show "ni_up demo_put_ni" by (simp add: eval)
  show "msg_md (ni_msg demo_put_ni 1023) = Some 4095" by (simp add: eval)
  have free: "msg_pool.used (ni_msg_pool demo_ni) = {}" by (rule demo_inv)
  have "pool_alloc (ni_msg_pool demo_ni) = Some (1023, ni_msg_pool demo_put_ni)" by (simp add: eval)
  moreover have "pool_inv MAX_MSGS (ni_msg_pool demo_ni)" using demo_inv(1) by (simp add: ni_inv_def)
  ultimately show "used_msgs demo_put_ni = {1023}" using msg_pool.used_alloc free by simp
qed

theorem orderly_pending_witness:
  "orderly demo_cb demo_put_ni \<and> 1023 \<in> used_msgs demo_put_ni \<and> 4095 \<in> used_mds demo_put_ni \<and>
   md_pending (ni_md demo_put_ni 4095) = int (card {k \<in> used_msgs demo_put_ni. msg_md (ni_msg demo_put_ni k) = Some 4095})"
proof -
  note p = orderly_pending [OF demo_orderly]
  have "4095 \<in> used_mds demo_put_ni" using p demo_put_md by (simp add: demo_put_msgs)
  with p show ?thesis using demo_orderly by (simp add: demo_put_msgs)
qed

text \<open>
  C6: in an orderly run, completing the messages in use in any order returns every
  time, as long as the network layer can write the events, and leaves an interface with no
  message in use and no operation pending on any descriptor.
\<close>

theorem completions_drain:
  assumes "orderly cb ni" "ni_up ni" "\<forall>t a e. cb_write cb t a e = 0"
    and "distinct ks" "set ks = used_msgs ni"
  shows "\<exists>ni'. complete_all cb ks ni = Some ni' \<and> used_msgs ni' = {} \<and>
    (\<forall>m\<in>used_mds ni'. md_pending (ni_md ni' m) = 0) \<and> msgs_alloc (ni_counters ni') = 0"
proof -
  from complete_all_drains [OF assms(3,1,2,4)] assms(5) obtain ni' where
    ni': "complete_all cb ks ni = Some ni'" "orderly cb ni'" "used_msgs ni' = {}" by auto
  from orderly_inv [OF ni'(2)] have "ni_inv ni'" "pend_inv ni'" by blast+
  with ni' show ?thesis by (auto simp: pend_inv_def holders_def ni_inv_def counters_ok_def)
qed

theorem completions_drain_witness:
  "orderly demo_cb demo_put_ni \<and> used_msgs demo_put_ni = {1023} \<and>
   (\<exists>ni'. complete_all demo_cb [1023] demo_put_ni = Some ni' \<and> used_msgs ni' = {} \<and>
    (\<forall>m\<in>used_mds ni'. md_pending (ni_md ni' m) = 0) \<and> msgs_alloc (ni_counters ni') = 0)"
  using completions_drain [OF demo_orderly demo_put_up, of "[1023]"] demo_orderly demo_put_msgs
  by (simp add: demo_cb_def)

text \<open>Shutdown of the example interface.\<close>

theorem lib_fini_releases_all_witness:
  "ni_inv demo_put_ni \<and> used_msgs (snd (lib_fini demo_put_ni)) = {} \<and> used_mds (snd (lib_fini demo_put_ni)) = {} \<and>
   msgs_alloc (ni_counters (snd (lib_fini demo_put_ni))) = 0 \<and> \<not> ni_up (snd (lib_fini demo_put_ni))"
proof -
  have inv: "ni_inv demo_put_ni" using orderly_inv [OF demo_orderly] by blast
  have "lib_fini demo_put_ni = (fst (lib_fini demo_put_ni), snd (lib_fini demo_put_ni))" by simp
  from lib_fini_releases_all [OF inv this] inv show ?thesis by blast
qed

end
