(* ===== verification/P30_Trace.thy ===== *)
theory P30_Trace
  imports P30_Runs
begin

text \<open>
  The calls that completing a message makes of the network layer: when the operation on the
  descriptor ends, only invalidations of regions; and the whole sequence of a completion.
\<close>

section \<open>Kinds of calls\<close>

fun is_write :: "nal_call \<Rightarrow> bool" where
  "is_write (CB_WRITE _ _) \<longleftrightarrow> True"
| "is_write _ \<longleftrightarrow> False"

fun is_invalidate :: "nal_call \<Rightarrow> bool" where
  "is_invalidate (CB_INVALIDATE _ _ _) \<longleftrightarrow> True"
| "is_invalidate _ \<longleftrightarrow> False"

lemma is_invalidate_not_write: "is_invalidate c \<Longrightarrow> \<not> is_write c"
  by (cases c) simp_all

text \<open>Operations that leave the queues alone and make only calls of one kind.\<close>

definition calls_only :: "(nal_call \<Rightarrow> bool) \<Rightarrow> lib_ni \<Rightarrow> lib_ni \<Rightarrow> bool" where
  "calls_only P ni ni' \<longleftrightarrow> ni_eq ni' = ni_eq ni \<and>
     (\<exists>cs. ni_trace ni' = ni_trace ni @ cs \<and> (\<forall>c\<in>set cs. P c))"

lemma calls_only_mono: "calls_only P ni ni' \<Longrightarrow> (\<And>c. P c \<Longrightarrow> Q c) \<Longrightarrow> calls_only Q ni ni'"
  by (auto simp: calls_only_def)

lemma calls_only_refl [simp]: "calls_only P ni ni"
  by (simp add: calls_only_def)

lemma calls_only_trans: "calls_only P a b \<Longrightarrow> calls_only P b c \<Longrightarrow> calls_only P a c"
  unfolding calls_only_def by (metis UnE append_assoc set_append)

lemma calls_only_upd:
  "calls_only P ni (upd_md i f ni)" "calls_only P ni (lib_me_free i ni)" "calls_only P ni (lib_msg_free i ni)"
  "calls_only P ni (ni\<lparr>ni_me_links := l\<rparr>)"
  by (simp_all add: calls_only_def lib_me_free_def lib_msg_free_def upd_counters_def Let_def)

lemma calls_only_md_unlink: "calls_only is_invalidate ni (lib_md_unlink i ni)"
  by (simp add: calls_only_def md_unlink_trace md_call_def)

lemma calls_only_fold: "calls_only is_invalidate ni (fold lib_md_unlink mds ni)"
  by (induction mds arbitrary: ni) (auto intro: calls_only_trans [OF calls_only_md_unlink])

lemma calls_only_me_unlink:
  assumes "ni_inv ni" "me \<in> used_mes ni" "lib_me_unlink me ni = Some ni'"
  shows "calls_only is_invalidate ni ni'"
proof (rule lib_me_unlink_spec [OF assms(1,2)])
  fix mds
  assume "lib_me_unlink me ni = Some (lib_me_free me (fold lib_md_unlink mds
       (ni\<lparr>ni_me_links := lib_unlink me (ni_me_links ni)\<rparr>)))"
  with assms(3) have ni': "ni' = lib_me_free me (fold lib_md_unlink mds
       (ni\<lparr>ni_me_links := lib_unlink me (ni_me_links ni)\<rparr>))" by simp
  show ?thesis unfolding ni'
    by (rule calls_only_trans [OF calls_only_trans [OF calls_only_upd(4) calls_only_fold] calls_only_upd(2)])
qed

lemma calls_only_finalize_md:
  assumes inv: "ni_inv ni" and md: "md < MAX_MDS"
    and use: "md \<in> used_mds ni \<or> idle (ni_md_links ni) md \<and> md_me (ni_md ni md) = None"
    and fin: "finalize_md md ni = Some ni'"
  shows "calls_only is_invalidate ni ni'"
proof -
  define ni1 where "ni1 = upd_md md (\<lambda>m. m\<lparr>md_pending := s32 (md_pending m - 1)\<rparr>) ni"
  have inv1: "ni_inv ni1" using inv by (simp add: ni1_def ni_inv_simps)
  have w1: "calls_only is_invalidate ni ni1" by (simp add: ni1_def calls_only_upd)
  have w2: "calls_only is_invalidate ni (lib_md_unlink md ni1)" by (rule calls_only_trans [OF w1 calls_only_md_unlink])
  have me: "md_me (ni_md ni1 md) = md_me (ni_md ni md)" by (simp add: ni1_def upd_md_def)
  have fin: "(if md_pending (ni_md ni1 md) = 0 \<and> md_do_unlink (ni_md ni1 md) then
      (case md_me (ni_md ni md) of None \<Rightarrow> Some (lib_md_unlink md ni1)
       | Some me \<Rightarrow> if heads (ni_md_links (lib_md_unlink md ni1)) me = None \<and>
             me_unlink (ni_me (lib_md_unlink md ni1) me) = PTL_UNLINK
           then lib_me_unlink me (lib_md_unlink md ni1) else Some (lib_md_unlink md ni1))
      else Some ni1) = Some ni'"
    using fin unfolding finalize_md_def Let_def ni1_def [symmetric] me .
  show ?thesis
  proof (cases "ni' = ni1 \<or> ni' = lib_md_unlink md ni1")
    case False
    then obtain me where 3: "md_me (ni_md ni md) = Some me" "lib_me_unlink me (lib_md_unlink md ni1) = Some ni'"
      using fin by (auto split: if_splits option.splits)
    then have used: "md \<in> used_mds ni" using use by auto
    have sel: "used_mds ni1 = used_mds ni" "used_mes ni1 = used_mes ni" by (simp_all add: ni1_def)
    have inv2: "ni_inv (lib_md_unlink md ni1)" by (rule lib_md_unlink_inv [OF inv1 md]) (simp add: sel used)
    have "me \<in> used_mes ni"
      using inv 3(1) used owner_in_heads [of "used_mds ni" "used_mes ni" "ni_md_links ni" "\<lambda>m. md_me (ni_md ni m)" md me]
      by (simp add: ni_inv_def)
    then have "me \<in> used_mes (lib_md_unlink md ni1)" by (simp add: sel)
    from calls_only_me_unlink [OF inv2 this 3(2)] show ?thesis by (rule calls_only_trans [OF w2])
  qed (use w1 w2 in blast)
qed

section \<open>Completion with an acknowledgement\<close>

lemma finalize_event_writes:
  assumes "(of_int (eq_size (ni_eq ni e)) :: 32 word) \<noteq> 0" "\<forall>t a ev. cb_write cb t a ev = 0"
  shows "\<exists>ni1 c. finalize_event cb k e ni = Some (True, ni1) \<and> ni_trace ni1 = ni_trace ni @ [c] \<and> is_write c \<and>
    (\<forall>x. ni_msg ni1 x = ni_msg ni x \<or> (\<exists>s. ni_msg ni1 x = (ni_msg ni x)\<lparr>msg_ev := (msg_ev (ni_msg ni x))\<lparr>ev_sequence := s\<rparr>\<rparr>)) \<and>
    my_src ni1 = my_src ni"
  using assms by (auto simp: finalize_event_def Let_def ni_upd_defs my_src_def)

text \<open>The sequence of calls of a completion that acknowledges.\<close>

lemma lib_finalize_acks:
  assumes inv: "ni_inv ni" and up: "ni_up ni" and k: "k \<in> used_msgs ni"
    and md: "msg_md (ni_msg ni k) = Some md"
    and size: "\<forall>e. md_eq (ni_md ni md) = Some e \<longrightarrow> (of_int (eq_size (ni_eq ni e)) :: 32 word) \<noteq> 0"
    and wr: "\<forall>t a ev. cb_write cb t a ev = 0" and ret: "0 \<le> msg_return_md (ni_msg ni k)"
  shows "\<exists>rc ni' ws cs. lib_finalize cb (Some k) ni = Some (rc, ni') \<and>
    ni_trace ni' = ni_trace ni @ ws @ CB_SEND None (ack_hdr k ni) (msg_nid (ni_msg ni k)) (msg_pid (ni_msg ni k))
      (msg_gid (ni_msg ni k)) (msg_rid (ni_msg ni k)) NULL_PTR 0 # cs \<and>
    (\<forall>c\<in>set ws. is_write c) \<and> (\<forall>c\<in>set cs. is_invalidate c)"
proof -
  let ?m = "ni_msg ni k"
  obtain ni1 ws where ev: "(case md_eq (ni_md ni md) of None \<Rightarrow> Some (True, ni) | Some e \<Rightarrow> finalize_event cb k e ni) = Some (True, ni1)"
    and ws: "ni_trace ni1 = ni_trace ni @ ws" "\<forall>c\<in>set ws. is_write c"
    and same: "ack_hdr k ni1 = ack_hdr k ni" "msg_return_md (ni_msg ni1 k) = msg_return_md ?m" "msg_nid (ni_msg ni1 k) = msg_nid ?m"
      "msg_pid (ni_msg ni1 k) = msg_pid ?m" "msg_gid (ni_msg ni1 k) = msg_gid ?m" "msg_rid (ni_msg ni1 k) = msg_rid ?m"
    and inv1: "ni_inv ni1" and frame: "ni_md ni1 = ni_md ni" "ni_md_pool ni1 = ni_md_pool ni" "ni_md_links ni1 = ni_md_links ni"
  proof (cases "md_eq (ni_md ni md)")
    case None
    then show ?thesis using inv by (intro that [of ni "[]"]) simp_all
  next
    case (Some e)
    with finalize_event_writes [of ni e cb k] size wr obtain ni1 c where
      e: "finalize_event cb k e ni = Some (True, ni1)" "ni_trace ni1 = ni_trace ni @ [c]" "is_write c" "my_src ni1 = my_src ni"
        "\<forall>x. ni_msg ni1 x = ni_msg ni x \<or> (\<exists>s. ni_msg ni1 x = (ni_msg ni x)\<lparr>msg_ev := (msg_ev (ni_msg ni x))\<lparr>ev_sequence := s\<rparr>\<rparr>)"
      by blast
    have "ack_hdr k ni1 = ack_hdr k ni \<and> msg_return_md (ni_msg ni1 k) = msg_return_md ?m \<and> msg_nid (ni_msg ni1 k) = msg_nid ?m \<and>
      msg_pid (ni_msg ni1 k) = msg_pid ?m \<and> msg_gid (ni_msg ni1 k) = msg_gid ?m \<and> msg_rid (ni_msg ni1 k) = msg_rid ?m"
      using e(4) e(5) [rule_format, of k] by (auto simp: ack_hdr_def my_src_def Let_def)
    then show ?thesis using e(1-3) Some finalize_event_frame [OF e(1)] inv by (intro that [of ni1 "[c]"]) simp_all
  qed
  define ni2 where "ni2 = nal_call (CB_SEND None (ack_hdr k ni) (msg_nid ?m) (msg_pid ?m) (msg_gid ?m) (msg_rid ?m) NULL_PTR 0) ni1"
  obtain rc where ack: "finalize_ack cb k ni1 = (rc, ni2)" using ret by (simp add: finalize_ack_def ni2_def same Let_def)
  have inv2: "ni_inv ni2" using inv1 by (simp add: ni2_def ni_inv_simps)
  have use: "md < MAX_MDS" "md \<in> used_mds ni2 \<or> idle (ni_md_links ni2) md \<and> md_me (ni_md ni2 md) = None"
    using inv k md by (auto simp: ni_inv_def msgs_ok_idle ni2_def frame)
  obtain ni3 where ni3: "finalize_md md ni2 = Some ni3" by (rule finalize_md_spec [OF inv2 use])
  have "calls_only is_invalidate ni2 (lib_msg_free k ni3)"
    using calls_only_finalize_md [OF inv2 use ni3] calls_only_upd(3) by (blast intro: calls_only_trans)
  then obtain cs where cs: "ni_trace (lib_msg_free k ni3) = ni_trace ni2 @ cs" "\<forall>c\<in>set cs. is_invalidate c"
    by (auto simp: calls_only_def)
  have "lib_finalize cb (Some k) ni = Some (rc, lib_msg_free k ni3)"
    using up md ev ack ni3 by (simp add: lib_finalize_def)
  with ws cs show ?thesis
    by (intro exI [of _ rc] exI [of _ "lib_msg_free k ni3"] exI [of _ ws] exI [of _ cs]) (simp add: ni2_def nal_call_def)
qed

end
