(* ===== verification/P30_Delivery.thy ===== *)
theory P30_Delivery
  imports P30_Trace
begin

text \<open>
  Delivery of messages: which descriptor a message gets, which bytes of its region are
  touched, and that acknowledgements and replies come back to the descriptor of the request.
\<close>

section \<open>The bounds of a delivery\<close>

text \<open>The offset that a descriptor gives to a message.\<close>

definition md_base_offset :: "int \<Rightarrow> lib_md \<Rightarrow> int" where
  "md_base_offset roffset md =
     (if has_option (md_options md) PTL_MD_MANAGE_REMOTE then roffset else md_offset md)"

lemma md_try_take:
  assumes take: "md_try type rlength roffset True md = MD_TAKE mlength offset"
    and len: "c_int (md_length md)" "0 \<le> rlength" "0 \<le> md_base_offset roffset md"
    and fits: "md_base_offset roffset md + rlength < 2 ^ 31"
  shows "offset = md_base_offset roffset md \<and> 0 \<le> mlength \<and> mlength \<le> rlength \<and>
    offset + mlength \<le> md_length md \<and>
    (mlength = rlength \<or> has_option (md_options md) PTL_MD_TRUNCATE \<and> offset + mlength = md_length md)"
proof -
  let ?off = "md_base_offset roffset md"
  have sum: "s32 (?off + rlength) = ?off + rlength"
    using len fits by (intro s32_id) (simp add: c_int_def)
  have diff: "s32 (md_length md - ?off) = md_length md - ?off" if "?off \<le> md_length md"
    using that len by (intro s32_id) (simp add: c_int_def)
  have off: "(if has_option (md_options md) PTL_MD_MANAGE_REMOTE then roffset else md_offset md) = ?off"
    by (simp add: md_base_offset_def)
  from take have "(if has_option (md_options md) PTL_MD_TRUNCATE \<and> ?off \<le> md_length md
      then MD_TAKE (min (s32 (md_length md - ?off)) rlength) ?off
      else if s32 (?off + rlength) \<le> md_length md then MD_TAKE rlength ?off else MD_NEXT_ME) = MD_TAKE mlength offset"
    unfolding md_try_def Let_def off by (auto split: if_splits)
  with len sum diff show ?thesis by (auto split: if_splits)
qed

section \<open>What a delivered put leaves behind\<close>

lemma lib_find_md_Some:
  assumes "ni_inv ni" "lib_find_md src idx type rlength roffset mb ni = Some (Some (md, mlength, offset), ni')"
  shows "md \<in> used_mds ni" "ni' = upd_md md (\<lambda>m. m\<lparr>md_offset := s32 (md_offset m + mlength)\<rparr>) ni"
  using assms(1)
  by (cases rule: lib_find_md_cases [of ni src idx type rlength roffset mb]; use assms(2) in auto)+

lemma hold_md_msg [simp]:
  "ni_msg (hold_md b md k ni) = (ni_msg ni)(k := (ni_msg ni k)\<lparr>msg_md := Some md\<rparr>)"
  "ni_trace (hold_md b md k ni) = ni_trace ni"
  "ni_nid (hold_md b md k ni) = ni_nid ni" "ni_pid (hold_md b md k ni) = ni_pid ni"
  "md_start (ni_md (hold_md b md k ni) m) = md_start (ni_md ni m)"
  "md_eq (ni_md (hold_md b md k ni) m) = md_eq (ni_md ni m)"
  by (simp_all add: hold_md_def upd_msg_def upd_md_def Let_def)

lemma hold_md_pending: "md_pending (ni_md (hold_md b md k ni) md) = s32 (md_pending (ni_md ni md) + 1)"
  by (simp add: hold_md_def upd_msg_def upd_md_def Let_def)

lemma fill_event_msg:
  "ni_msg (fill_event md k f ni) = (case md_eq (ni_md ni md) of None \<Rightarrow> ni_msg ni
     | Some e \<Rightarrow> (ni_msg ni)(k := (f (ni_msg ni k))
        \<lparr>msg_ev := (msg_ev (f (ni_msg ni k)))\<lparr>ev_md := lib_md_deconstruct md ni\<rparr>\<rparr>))"
  by (simp add: fill_event_def upd_msg_def upd_eq_def lib_md_deconstruct_def Let_def split: option.split)

lemma count_trace [simp]:
  "ni_trace (count_recv n ni) = ni_trace ni" "ni_trace (count_send n ni) = ni_trace ni"
  "ni_trace (count_drop n ni) = ni_trace ni" "ni_msg (count_recv n ni) = ni_msg ni"
  "ni_msg (count_send n ni) = ni_msg ni"
  by (simp_all add: count_recv_def count_send_def count_drop_def)

lemma lib_msg_alloc_msg:
  "lib_msg_alloc ni = Some (k, ni') \<Longrightarrow>
   ni_msg ni' = (ni_msg ni)(k := (ni_msg ni k)\<lparr>msg_md := None, msg_return_md := -1\<rparr>)"
  by (auto simp: lib_msg_alloc_def upd_msg_def upd_counters_def split: option.splits)

definition wants_ack :: "put_msg \<Rightarrow> lib_md \<Rightarrow> bool" where
  "wants_ack put md \<longleftrightarrow> put_ack_md put \<ge> 0 \<and> \<not> has_option (md_options md) PTL_MD_ACK_DISABLE"

text \<open>The event of a put, before its number is known.\<close>

definition put_event :: "hdr_src \<Rightarrow> put_msg \<Rightarrow> int \<Rightarrow> int \<Rightarrow> ptl_md \<Rightarrow> ptl_event \<Rightarrow> ptl_event" where
  "put_event src put mlength offset md ev = ev
     \<lparr>ev_type := PTL_EVENT_PUT, ev_initiator := initiator src, ev_portal := put_ptl_index put,
      ev_match_bits := put_match_bits put, ev_rlength := put_length put, ev_mlength := mlength,
      ev_offset := offset, ev_hdr_data := put_hdr_data put, ev_md := md\<rparr>"

lemma put_event_sel [simp]:
  "ev_mlength (put_event src put mlength offset d ev) = mlength"
  "ev_match_bits (put_event src put mlength offset d ev) = put_match_bits put"
  by (simp_all add: put_event_def)

text \<open>What the event of a put is when it is delivered to a descriptor.\<close>

definition delivered_event :: "hdr_src \<Rightarrow> put_msg \<Rightarrow> int \<Rightarrow> int \<Rightarrow> ptl_md \<Rightarrow> lib_md \<Rightarrow> ptl_event \<Rightarrow> ptl_event" where
  "delivered_event src put mlength offset d md ev =
     (if md_eq md \<noteq> None then put_event src put mlength offset d ev
      else if wants_ack put md then ev\<lparr>ev_match_bits := put_match_bits put\<rparr> else ev)"

lemma delivered_event_queue [simp]: "md_eq md \<noteq> None \<Longrightarrow> delivered_event src put mlength offset d md ev = put_event src put mlength offset d ev"
  by (simp add: delivered_event_def)

lemma lib_msg_alloc_counters:
  "lib_msg_alloc ni = Some (k, ni') \<Longrightarrow> recv_count (ni_counters ni') = recv_count (ni_counters ni) \<and>
   recv_length (ni_counters ni') = recv_length (ni_counters ni)"
  by (auto simp: lib_msg_alloc_def upd_msg_def upd_counters_def count_msg_alloc_def Let_def split: option.splits)

lemma fill_event_counters [simp]: "ni_counters (fill_event md k f ni) = ni_counters ni"
  by (simp add: fill_event_def Let_def split: option.split)

lemma md_consumed_sel:
  "md_threshold (md_consume b m) = (if md_threshold m = PTL_MD_THRESH_INF then md_threshold m else s32 (md_threshold m - 1))"
  "md_offset (md_consume b m) = md_offset m" "md_pending (md_consume b m) = md_pending m" "md_eq (md_consume b m) = md_eq m"
  by (simp_all add: md_consume_def Let_def)

text \<open>The state that a delivered put leaves.\<close>

lemma parse_put_found:
  assumes inv: "ni_inv ni"
    and find: "lib_find_md (hdr_src hdr) (put_ptl_index put) PTL_MSG_PUT (put_length put) (put_offset put)
      (put_match_bits put) ni = Some (Some (md, mlength, offset), ni1)"
    and alloc: "lib_msg_alloc ni1 = Some (k, ni2)"
  obtains ni' d where "parse_put hdr put ni = Some (0, ni')"
    "ni_trace ni' = ni_trace ni @
      [CB_RECV (Some k) (md_start (ni_md ni md) + of_int offset) (size_t mlength) (size_t (put_length put))]"
    "msg_md (ni_msg ni' k) = Some md"
    "msg_return_md (ni_msg ni' k) = (if wants_ack put (ni_md ni md) then put_ack_md put else -1)"
    "wants_ack put (ni_md ni md) \<longrightarrow> msg_nid (ni_msg ni' k) = src_nid (hdr_src hdr) \<and> msg_pid (ni_msg ni' k) = src_pid (hdr_src hdr) \<and>
       msg_gid (ni_msg ni' k) = src_gid (hdr_src hdr) \<and> msg_rid (ni_msg ni' k) = src_rid (hdr_src hdr)"
    "msg_ev (ni_msg ni' k) = delivered_event (hdr_src hdr) put mlength offset d (ni_md ni md) (msg_ev (ni_msg ni k))"
    "pm_start d = md_start (ni_md ni md)"
    "md_pending (ni_md ni' md) = s32 (md_pending (ni_md ni md) + 1)"
    "md_offset (ni_md ni' md) = s32 (md_offset (ni_md ni md) + mlength)"
    "md_threshold (ni_md ni' md) = (if md_threshold (ni_md ni md) = PTL_MD_THRESH_INF then md_threshold (ni_md ni md)
       else s32 (md_threshold (ni_md ni md) - 1))"
    "\<forall>e. md_eq (ni_md ni md) = Some e \<longrightarrow> eq_pending (ni_eq ni' e) = s32 (eq_pending (ni_eq ni e) + 1)"
    "recv_count (ni_counters ni') = s64 (recv_count (ni_counters ni) + 1)"
    "recv_length (ni_counters ni') = s64 (recv_length (ni_counters ni) + mlength)"
    "k \<in> used_msgs ni'" "ni_up ni' = ni_up ni" "md_eq (ni_md ni' md) = md_eq (ni_md ni md)" "\<forall>e. eq_size (ni_eq ni' e) = eq_size (ni_eq ni e)"
proof -
  note ni1 = lib_find_md_Some(2) [OF inv find]
  note alloc_simps = lib_msg_alloc_sel [OF alloc] lib_msg_alloc_msg [OF alloc] lib_msg_alloc_counters [OF alloc]
  define ni' where "ni' = snd (the (parse_put hdr put ni))"
  have op: "parse_put hdr put ni = Some (0, ni')" by (simp add: ni'_def parse_put_def Let_def find alloc)
  note eval = ni'_def parse_put_def Let_def find alloc option.sel bind.simps option.case prod.case snd_conv
    nal_call_sel hold_md_msg count_sel fill_event_sel
  have msg: "ni_msg ni' k = (if md_eq (ni_md ni md) = None then id else (\<lambda>m. m\<lparr>msg_ev :=
        put_event (hdr_src hdr) put mlength offset (lib_md_deconstruct md ni1) (msg_ev m)\<rparr>))
      ((if wants_ack put (ni_md ni md) then (\<lambda>m. m\<lparr>msg_nid := src_nid (hdr_src hdr), msg_pid := src_pid (hdr_src hdr),
          msg_gid := src_gid (hdr_src hdr), msg_rid := src_rid (hdr_src hdr), msg_return_md := put_ack_md put,
          msg_ev := (msg_ev m)\<lparr>ev_match_bits := put_match_bits put\<rparr>\<rparr>) else id)
       ((ni_msg ni k)\<lparr>msg_md := None, msg_return_md := -1\<rparr>))\<lparr>msg_md := Some md\<rparr>"
    unfolding eval
    by (auto simp: fill_event_msg alloc_simps ni1 upd_md_def upd_msg_def wants_ack_def put_event_def
        lib_md_deconstruct_def split: option.splits)
  have trace: "ni_trace ni' = ni_trace ni @ [CB_RECV (Some k) (md_start (ni_md ni md) + of_int offset)
      (size_t mlength) (size_t (put_length put))]"
    unfolding eval by (simp add: alloc_simps ni1 nal_call_def upd_md_def)
  have md: "ni_md ni' md = (md_consume True ((ni_md ni md)\<lparr>md_offset := s32 (md_offset (ni_md ni md) + mlength)\<rparr>))
      \<lparr>md_pending := s32 (md_pending (ni_md ni md) + 1)\<rparr>"
    unfolding eval by (simp add: hold_md_def alloc_simps ni1 upd_md_def upd_msg_def Let_def md_consumed_sel)
  have eq: "\<forall>e. md_eq (ni_md ni md) = Some e \<longrightarrow> eq_pending (ni_eq ni' e) = s32 (eq_pending (ni_eq ni e) + 1)"
      "\<forall>e. eq_size (ni_eq ni' e) = eq_size (ni_eq ni e)" "ni_up ni' = ni_up ni"
    unfolding eval
    by (simp_all add: hold_md_def fill_event_def alloc_simps ni1 upd_md_def upd_msg_def upd_eq_def count_recv_def upd_counters_def Let_def split: option.split)
  have used: "k \<in> used_msgs ni'"
    using lib_msg_alloc_inv(2) [OF _ alloc] inv unfolding eval
    by (simp add: ni1 ni_inv_simps hold_md_def count_recv_def fill_event_def Let_def split: option.split)
  have count: "recv_count (ni_counters ni') = s64 (recv_count (ni_counters ni) + 1)"
    "recv_length (ni_counters ni') = s64 (recv_length (ni_counters ni) + mlength)"
    unfolding eval
    by (simp_all add: hold_md_def alloc_simps ni1 upd_md_def upd_msg_def count_recv_def upd_counters_def Let_def)
  show ?thesis
    by (rule that [OF op trace, of "lib_md_deconstruct md ni1"])
      (simp_all add: msg md eq count used md_consumed_sel delivered_event_def put_event_def lib_md_deconstruct_def ni1 upd_md_def Let_def)
qed

section \<open>Requests and what comes back\<close>

text \<open>The header that \<open>do_PtlPut\<close> sends.\<close>

lemma do_PtlPut_sent:
  assumes "do_PtlPut cb h ack target portal mb off dat ni = Some (rc, ni')"
    and "ni_trace ni' = ni_trace ni @ [CB_SEND k hdr nid pid gid rid buf n]"
  shows "nat (h_index h) \<in> used_mds ni \<and> hdr_src hdr = my_src ni \<and> hdr_nid hdr = nid \<and> hdr_pid hdr = pid \<and>
    hdr_msg hdr = MSG_PUT \<lparr>put_ptl_index = portal, put_ack_md = (if ack = PTL_ACK_REQ then h_index h else -1),
      put_match_bits = mb, put_length = md_length (ni_md ni (nat (h_index h))), put_offset = off, put_hdr_data = dat\<rparr>"
proof -
  from assms obtain bad where bad: "bad_md ni (h_index h) = Some bad"
    by (auto simp: do_PtlPut_def Let_def bind_eq_Some_iff)
  with assms have nb: "\<not> bad" by (auto simp: do_PtlPut_def Let_def)
  with bad have md: "nat (h_index h) \<in> used_mds ni" by (simp flip: bad_md_False)
  show ?thesis
    using assms bad nb md
    by (auto simp: do_PtlPut_def Let_def nal_call_def lib_msg_alloc_sel split: if_splits prod.splits option.splits)
qed

lemma do_PtlGet_sent:
  assumes "do_PtlGet cb h target portal mb off ni = Some (rc, ni')"
    and "ni_trace ni' = ni_trace ni @ [CB_SEND k hdr nid pid gid rid buf n]"
  shows "nat (h_index h) \<in> used_mds ni \<and> hdr_src hdr = my_src ni \<and> hdr_nid hdr = nid \<and> hdr_pid hdr = pid \<and>
    hdr_msg hdr = MSG_GET \<lparr>get_ptl_index = portal, get_match_bits = mb,
       get_length = md_length (ni_md ni (nat (h_index h))), get_src_offset = off,
       get_return_offset = md_offset (ni_md ni (nat (h_index h))), get_return_md = h_index h\<rparr>"
proof -
  from assms obtain bad where bad: "bad_md ni (h_index h) = Some bad"
    by (auto simp: do_PtlGet_def Let_def bind_eq_Some_iff)
  with assms have nb: "\<not> bad" by (auto simp: do_PtlGet_def Let_def)
  with bad have md: "nat (h_index h) \<in> used_mds ni" by (simp flip: bad_md_False)
  show ?thesis
    using assms bad nb md
    by (auto simp: do_PtlGet_def Let_def nal_call_def lib_msg_alloc_sel split: if_splits prod.splits option.splits)
qed

lemma h_index_idem [simp]: "h_index (h_index h) = h_index h"
  by (simp add: h_index_mod)

text \<open>An acknowledgement is charged to the descriptor it names.\<close>

lemma parse_ack_held:
  assumes "hdr_msg hdr = MSG_ACK ack" "nat (h_index (ack_dst_md ack)) \<in> used_mds ni"
    and "md_threshold (ni_md ni (nat (h_index (ack_dst_md ack)))) \<noteq> 0" "lib_msg_alloc ni = Some (k, ni1)"
  shows "\<exists>ni'. lib_parse cb hdr ni = Some (0, ni') \<and> msg_md (ni_msg ni' k) = Some (nat (h_index (ack_dst_md ack))) \<and>
    (md_eq (ni_md ni (nat (h_index (ack_dst_md ack)))) \<noteq> None \<longrightarrow>
       ev_type (msg_ev (ni_msg ni' k)) = PTL_EVENT_ACK \<and> ev_mlength (msg_ev (ni_msg ni' k)) = ack_mlength ack \<and>
       ev_match_bits (msg_ev (ni_msg ni' k)) = ack_match_bits ack)"
proof -
  from assms(2) have bad: "bad_md ni (h_index (ack_dst_md ack)) = Some False" by (simp add: bad_md_False)
  show ?thesis
    using assms(1,3,4) bad
    by (auto simp: lib_parse_def parse_ack_def Let_def fill_event_msg lib_msg_alloc_sel
        upd_counters_def nal_call_def split: option.splits)
qed

text \<open>The reply that a get makes at the target, and its delivery at the initiator.\<close>

lemma parse_get_replies:
  assumes inv: "ni_inv ni" and hdr: "hdr_msg hdr = MSG_GET get"
    and find: "lib_find_md (hdr_src hdr) (get_ptl_index get) PTL_MSG_GET (get_length get) (get_src_offset get)
      (get_match_bits get) (nal_call (CB_RECV None NULL_PTR 0 0) ni) = Some (Some (md, mlength, offset), ni1)"
    and alloc: "lib_msg_alloc ni1 = Some (k, ni2)"
    and out: "out = \<lparr>hdr_nid = src_nid (hdr_src hdr), hdr_pid = src_pid (hdr_src hdr), hdr_src = my_src ni,
      hdr_msg = MSG_REPLY \<lparr>reply_dst_md = get_return_md get, reply_dst_offset = get_return_offset get,
        reply_length = mlength\<rparr>\<rparr>"
  shows "\<exists>rc ni'. lib_parse cb hdr ni = Some (rc, ni') \<and> msg_md (ni_msg ni' k) = Some md \<and>
    ni_trace ni' = ni_trace ni @ [CB_RECV None NULL_PTR 0 0,
      CB_SEND (Some k) out (src_nid (hdr_src hdr)) (src_pid (hdr_src hdr)) (src_gid (hdr_src hdr))
        (src_rid (hdr_src hdr)) (md_start (ni_md ni md) + of_int offset) (size_t mlength)]"
proof -
  have "ni_inv (nal_call (CB_RECV None NULL_PTR 0 0) ni)" using inv by (simp add: ni_inv_simps)
  note ni1 = lib_find_md_Some(2) [OF this find]
  have src: "my_src ni1 = my_src ni" by (simp add: my_src_def ni1)
  show ?thesis
    using hdr find alloc
    by (simp add: lib_parse_def parse_get_def Let_def src out nal_call_def [of "CB_SEND _ _ _ _ _ _ _ _"]
        lib_msg_alloc_sel [OF alloc])
      (simp add: ni1 upd_md_def nal_call_def)
qed

lemma parse_reply_received:
  assumes hdr: "hdr_msg hdr = MSG_REPLY reply" and md: "md = nat (h_index (reply_dst_md reply))" "md \<in> used_mds ni"
    and thr: "md_threshold (ni_md ni md) \<noteq> 0" and alloc: "lib_msg_alloc ni = Some (k, ni1)"
    and off: "off = md_base_offset (reply_dst_offset reply) (ni_md ni md)" "0 \<le> off" "0 \<le> reply_length reply"
    and fits: "off + reply_length reply \<le> md_length (ni_md ni md)" "md_length (ni_md ni md) < 2 ^ 31"
  shows "\<exists>ni'. lib_parse cb hdr ni = Some (0, ni') \<and> msg_md (ni_msg ni' k) = Some md \<and>
    ni_trace ni' = ni_trace ni @ [CB_RECV (Some k) (md_start (ni_md ni md) + of_int off)
      (size_t (reply_length reply)) (size_t (reply_length reply))]"
proof -
  from md have bad: "bad_md ni (h_index (reply_dst_md reply)) = Some False" by (simp add: bad_md_False)
  have base: "(if has_option (md_options (ni_md ni md)) PTL_MD_MANAGE_REMOTE
      then reply_dst_offset reply else md_offset (ni_md ni md)) = off"
    by (simp add: off(1) md_base_offset_def)
  have s: "s32 (reply_length reply + off) = reply_length reply + off"
    "s32 (md_length (ni_md ni md) - off) = md_length (ni_md ni md) - off"
    using off(2,3) fits by (auto intro!: s32_id simp: c_int_def)
  have m: "min (reply_length reply) (md_length (ni_md ni md) - off) = reply_length reply" using fits by simp
  have parse: "lib_parse cb hdr ni = parse_reply hdr reply ni" using hdr by (simp add: lib_parse_def)
  show ?thesis
    using thr alloc fits(1)
    unfolding parse parse_reply_def Let_def md(1) [symmetric] base
    by (simp add: bad s m nal_call_def lib_msg_alloc_sel [OF alloc])
qed

section \<open>The example interface\<close>

lemma demo_find_100:
  "lib_find_md src 4 type 100 off 5 demo_md_ni =
     Some (Some (4095, 100, 0), upd_md 4095 (\<lambda>m. m\<lparr>md_offset := s32 (md_offset m + 100)\<rparr>) demo_md_ni)"
proof -
  have "me_offer src type 100 off 5 demo_md_ni 4095 = Some (4095, 100, 0)"
    by (cases type) (simp_all add: me_offer_def demo_md_sel demo_me_sel demo_matches md_try_def has_option_3 s32_def)
  then show ?thesis
    using lib_find_md_spec [OF demo_md_inv, of 4 "[4095]"] demo_list by (simp add: demo_md_sel)
qed

lemma demo_find_get:
  "\<exists>ni1. lib_find_md src 4 type 100 off 5 (nal_call c demo_md_ni) = Some (Some (4095, 100, 0), ni1) \<and>
     ni_msg_pool ni1 = ni_msg_pool demo_md_ni"
proof -
  have inv: "ni_inv (nal_call c demo_md_ni)" using demo_md_inv by (simp add: ni_inv_simps)
  have "me_offer src type 100 off 5 (nal_call c demo_md_ni) 4095 = Some (4095, 100, 0)"
    by (cases type) (simp_all add: me_offer_def demo_md_sel demo_me_sel demo_matches md_try_def has_option_3 s32_def)
  then show ?thesis
    using lib_find_md_spec [OF inv, of 4 "[4095]"] demo_list by (simp add: demo_md_sel)
qed

lemma demo_msg_alloc: "ni_msg_pool ni = ni_msg_pool demo_md_ni \<Longrightarrow> \<exists>ni'. lib_msg_alloc ni = Some (1023, ni')"
  by (simp add: lib_msg_alloc_def pool_alloc_def demo_md_sel demo_ni_sel)

lemma demo_md_used: "4095 \<in> used_mds demo_md_ni"
  unfolding md_pool.used_def by (simp add: demo_md_sel pool_inuse_def MAX_MDS_def)

lemma demo_put_sent:
  "\<exists>rc ni' hdr nid pid gid rid buf n. do_PtlPut demo_cb 4095 PTL_ACK_REQ demo_id 4 5 0 0 demo_md_ni = Some (rc, ni') \<and>
     ni_trace ni' = ni_trace demo_md_ni @ [CB_SEND (Some 1023) hdr nid pid gid rid buf n]"
  by (simp add: do_PtlPut_def bad_index_def inuse_at_def pool_inuse_def demo_md_sel MAX_MDS_def lib_trans_id_def
      demo_id_def lib_msg_alloc_def pool_alloc_def demo_ni_sel nal_call_def Let_def)

lemma demo_get_sent:
  "\<exists>rc ni' hdr nid pid gid rid buf n. do_PtlGet demo_cb 4095 demo_id 4 5 0 demo_md_ni = Some (rc, ni') \<and>
     ni_trace ni' = ni_trace demo_md_ni @ [CB_SEND (Some 1023) hdr nid pid gid rid buf n]"
  by (simp add: do_PtlGet_def bad_index_def inuse_at_def pool_inuse_def demo_md_sel MAX_MDS_def lib_trans_id_def
      demo_id_def lib_msg_alloc_def pool_alloc_def demo_ni_sel nal_call_def Let_def)

section \<open>Properties\<close>

text \<open>
  C7: on a portal in range \<open>lib_find_md\<close> implements the search of the match list:
  it finds a descriptor exactly when some entry of the list offers one, namely the offer of
  the first such entry, where an entry offers the first descriptor of its list if source and
  bits match and the descriptor takes the message.
\<close>

theorem lib_find_md_first_offer:
  assumes inv: "ni_inv ni" and idx: "0 \<le> idx" "idx < ni_tbl_size ni"
    and mes: "list_at (ni_me_links ni) (nat idx) mes"
  shows "\<exists>r ni'. lib_find_md src idx type rlength roffset mb ni = Some (r, ni') \<and>
    (r = None \<longleftrightarrow> (\<forall>me\<in>set mes. me_offer src type rlength roffset mb ni me = None)) \<and>
    (\<forall>md mlength offset. r = Some (md, mlength, offset) \<longrightarrow>
       (\<exists>as me bs. mes = as @ me # bs \<and> me_offer src type rlength roffset mb ni me = Some (md, mlength, offset) \<and>
          (\<forall>a\<in>set as. me_offer src type rlength roffset mb ni a = None)) \<and>
       ni' = upd_md md (\<lambda>m. m\<lparr>md_offset := s32 (md_offset m + mlength)\<rparr>) ni)"
proof (cases "first_offer (me_offer src type rlength roffset mb ni) mes")
  case None
  with lib_find_md_spec [OF assms, of src type rlength roffset mb] show ?thesis
    by (simp add: first_offer_None)
next
  case (Some r)
  obtain md mlength offset where r: "r = (md, mlength, offset)" by (cases r)
  have "\<not> (\<forall>me\<in>set mes. me_offer src type rlength roffset mb ni me = None)"
    using Some by (simp flip: first_offer_None)
  with Some lib_find_md_spec [OF assms, of src type rlength roffset mb] show ?thesis
    unfolding first_offer_Some by (auto simp: r Some)
qed

theorem lib_find_md_first_offer_witness:
  "\<exists>r ni'. lib_find_md demo_src 4 PTL_MSG_PUT 40 0 5 demo_md_ni = Some (r, ni') \<and> r = Some (4095, 40, 0)"
  using lib_find_md_first_offer [OF demo_md_inv, of 4 "[4095]" demo_src PTL_MSG_PUT 40 0 5] demo_list
  by (auto simp: demo_md_sel demo_offer demo_find)

text \<open>
  C12: a message whose length is not negative and whose offset is not negative and does
  not overflow is placed inside the region of the descriptor that \<open>lib_find_md\<close> chose, at
  the remote offset or at the local one as the descriptor says; it is cut only if the
  descriptor allows it, and then at the end of the region.
\<close>

theorem delivery_in_bounds:
  assumes inv: "ni_inv ni"
    and find: "lib_find_md src idx type rlength roffset mb ni = Some (Some (md, mlength, offset), ni')"
    and len: "c_int (md_length (ni_md ni md))" "0 \<le> rlength" "0 \<le> md_base_offset roffset (ni_md ni md)"
    and fits: "md_base_offset roffset (ni_md ni md) + rlength < 2 ^ 31"
  shows "md \<in> used_mds ni \<and> offset = md_base_offset roffset (ni_md ni md) \<and> 0 \<le> mlength \<and>
    offset + mlength \<le> md_length (ni_md ni md) \<and> mlength \<le> rlength \<and>
    (mlength = rlength \<or> has_option (md_options (ni_md ni md)) PTL_MD_TRUNCATE \<and> offset + mlength = md_length (ni_md ni md)) \<and>
    (has_option (md_options (ni_md ni md)) PTL_MD_MANAGE_REMOTE \<or>
       md_offset (ni_md ni' md) = offset + mlength)"
  using inv
proof (cases rule: lib_find_md_cases [of ni src idx type rlength roffset mb])
  case (found md' mlength' offset')
  with find have eq: "md' = md" "mlength' = mlength" "offset' = offset"
    and ni': "ni' = upd_md md (\<lambda>m. m\<lparr>md_offset := s32 (md_offset m + mlength)\<rparr>) ni" by auto
  note take = md_try_take [OF found(4) [unfolded eq] len fits]
  have "md_offset (ni_md ni' md) = offset + mlength"
    if "\<not> has_option (md_options (ni_md ni md)) PTL_MD_MANAGE_REMOTE"
  proof -
    have "md_offset (ni_md ni md) = offset" using that take by (simp add: md_base_offset_def)
    moreover have "c_int (offset + mlength)" using take len by (simp add: c_int_def)
    ultimately show ?thesis by (simp add: ni' upd_md_def s32_id)
  qed
  with take found(1) eq show ?thesis by blast
qed (use find in auto)

theorem delivery_in_bounds_witness:
  "lib_find_md demo_src 4 PTL_MSG_PUT 40 0 5 demo_md_ni =
     Some (Some (4095, 40, 0), upd_md 4095 (\<lambda>m. m\<lparr>md_offset := s32 (md_offset m + 40)\<rparr>) demo_md_ni) \<and>
   4095 \<in> used_mds demo_md_ni \<and> 0 + 40 \<le> md_length (ni_md demo_md_ni 4095)"
  using delivery_in_bounds [OF demo_md_inv demo_find [of demo_src PTL_MSG_PUT 0]] demo_find [of demo_src PTL_MSG_PUT 0]
  by (simp add: demo_md_sel md_base_offset_def has_option_3 c_int_def)

text \<open>
  A negative remote offset is not refused: a descriptor that accepts puts at remote
  offsets takes a message at any negative offset, before the start of its region.
\<close>

theorem negative_remote_offset_taken:
  assumes "has_option (md_options md) PTL_MD_OP_PUT" "has_option (md_options md) PTL_MD_MANAGE_REMOTE"
    and "\<not> has_option (md_options md) PTL_MD_TRUNCATE" "md_threshold md \<noteq> 0"
    and "- (2 ^ 31) \<le> roffset" "roffset < 0" "0 \<le> rlength" "rlength \<le> md_length md" "md_length md < 2 ^ 31"
  shows "md_try PTL_MSG_PUT rlength roffset True md = MD_TAKE rlength roffset"
  using assms by (simp add: md_try_def s32_id c_int_def)

theorem negative_remote_offset_taken_witness:
  "md_try PTL_MSG_PUT 16 (- 4096) True ((ni_md demo_md_ni 4095)\<lparr>md_options := 5\<rparr>) = MD_TAKE 16 (- 4096)"
  by (rule negative_remote_offset_taken) (simp_all add: demo_md_sel has_option_def ptl_const)

text \<open>
  C11: a put for which the search finds a descriptor and for which a message object is free
  is received into the region of the descriptor, at the offset and with the length that the
  search gave, as one call of the network layer.  The message holds the descriptor and names
  where to acknowledge; the descriptor has one more pending operation, its offset has moved by
  the length and its threshold has gone down by one unless it is infinite.  When the descriptor
  has a queue, the message carries the event of the put and the queue has one more pending
  event; otherwise the event of the message object is the old one but for the match bits.  The
  interface counts one message received, and its bytes.
\<close>

theorem put_delivered:
  assumes inv: "ni_inv ni" and hdr: "hdr_msg hdr = MSG_PUT put"
    and find: "lib_find_md (hdr_src hdr) (put_ptl_index put) PTL_MSG_PUT (put_length put) (put_offset put)
      (put_match_bits put) ni = Some (Some (md, mlength, offset), ni1)"
    and alloc: "lib_msg_alloc ni1 = Some (k, ni2)"
  defines "m \<equiv> ni_md ni md"
  shows "\<exists>ni' d. lib_parse cb hdr ni = Some (0, ni') \<and>
    ni_trace ni' = ni_trace ni @
      [CB_RECV (Some k) (md_start m + of_int offset) (size_t mlength) (size_t (put_length put))] \<and>
    msg_md (ni_msg ni' k) = Some md \<and>
    msg_return_md (ni_msg ni' k) = (if wants_ack put m then put_ack_md put else -1) \<and>
    md_pending (ni_md ni' md) = s32 (md_pending m + 1) \<and> md_offset (ni_md ni' md) = s32 (md_offset m + mlength) \<and>
    md_threshold (ni_md ni' md) = (if md_threshold m = PTL_MD_THRESH_INF then PTL_MD_THRESH_INF else s32 (md_threshold m - 1)) \<and>
    pm_start d = md_start m \<and>
    (case md_eq m of
       Some e \<Rightarrow> msg_ev (ni_msg ni' k) = put_event (hdr_src hdr) put mlength offset d (msg_ev (ni_msg ni k)) \<and>
         eq_pending (ni_eq ni' e) = s32 (eq_pending (ni_eq ni e) + 1)
     | None \<Rightarrow> msg_ev (ni_msg ni' k) = (if wants_ack put m then (msg_ev (ni_msg ni k))\<lparr>ev_match_bits := put_match_bits put\<rparr>
         else msg_ev (ni_msg ni k))) \<and>
    recv_count (ni_counters ni') = s64 (recv_count (ni_counters ni) + 1) \<and>
    recv_length (ni_counters ni') = s64 (recv_length (ni_counters ni) + mlength)"
proof (rule parse_put_found [OF inv find alloc])
  fix ni' d
  assume op: "parse_put hdr put ni = Some (0, ni')" and rest:
    "ni_trace ni' = ni_trace ni @
      [CB_RECV (Some k) (md_start (ni_md ni md) + of_int offset) (size_t mlength) (size_t (put_length put))]"
    "msg_md (ni_msg ni' k) = Some md"
    "msg_return_md (ni_msg ni' k) = (if wants_ack put (ni_md ni md) then put_ack_md put else -1)"
    "msg_ev (ni_msg ni' k) = delivered_event (hdr_src hdr) put mlength offset d (ni_md ni md) (msg_ev (ni_msg ni k))"
    "pm_start d = md_start (ni_md ni md)"
    "md_pending (ni_md ni' md) = s32 (md_pending (ni_md ni md) + 1)"
    "md_offset (ni_md ni' md) = s32 (md_offset (ni_md ni md) + mlength)"
    "md_threshold (ni_md ni' md) = (if md_threshold (ni_md ni md) = PTL_MD_THRESH_INF then md_threshold (ni_md ni md)
       else s32 (md_threshold (ni_md ni md) - 1))"
    "\<forall>e. md_eq (ni_md ni md) = Some e \<longrightarrow> eq_pending (ni_eq ni' e) = s32 (eq_pending (ni_eq ni e) + 1)"
    "recv_count (ni_counters ni') = s64 (recv_count (ni_counters ni) + 1)"
    "recv_length (ni_counters ni') = s64 (recv_length (ni_counters ni) + mlength)"
  have "lib_parse cb hdr ni = Some (0, ni')" using op hdr by (simp add: lib_parse_def)
  with rest show ?thesis
    unfolding m_def by (intro exI [of _ ni'] exI [of _ d]) (simp add: delivered_event_def split: option.split)
qed

theorem put_delivered_witness:
  "\<exists>ni' d. lib_parse demo_cb demo_hdr demo_md_ni = Some (0, ni') \<and> msg_md (ni_msg ni' 1023) = Some 4095 \<and>
    msg_return_md (ni_msg ni' 1023) = 17 \<and> md_pending (ni_md ni' 4095) = 1 \<and>
    msg_ev (ni_msg ni' 1023) = put_event demo_src demo_put 40 0 d demo_event \<and> pm_start d = 0x10000 \<and>
    recv_count (ni_counters ni') = 1 \<and> recv_length (ni_counters ni') = 40"
proof -
  have find: "lib_find_md (hdr_src demo_hdr) (put_ptl_index demo_put) PTL_MSG_PUT (put_length demo_put)
      (put_offset demo_put) (put_match_bits demo_put) demo_md_ni =
    Some (Some (4095, 40, 0), upd_md 4095 (\<lambda>m. m\<lparr>md_offset := s32 (md_offset m + 40)\<rparr>) demo_md_ni)"
    by (simp add: demo_put_def demo_find)
  obtain ni2 where alloc: "lib_msg_alloc (upd_md 4095 (\<lambda>m. m\<lparr>md_offset := s32 (md_offset m + 40)\<rparr>) demo_md_ni) =
      Some (1023, ni2)" using demo_msg_alloc by fastforce
  have hdr: "hdr_msg demo_hdr = MSG_PUT demo_put" by (simp add: demo_hdr_def)
  have ack: "wants_ack demo_put (ni_md demo_md_ni 4095)"
    by (simp add: wants_ack_def demo_put_def demo_md_sel has_option_3)
  have "ack_md = 17" if "put_ack_md demo_put = ack_md" for ack_md using that by (simp add: demo_put_def)
  moreover have "s32 (0 + 1) = 1" "s64 (0 + 1) = 1" "s64 (0 + 40) = 40" by (simp_all add: s32_def s64_def)
  ultimately show ?thesis
    using put_delivered [OF demo_md_inv hdr find alloc, of demo_cb] ack
    by (auto simp: demo_md_sel demo_hdr_def demo_raw_def zero_counters_def)
qed

text \<open>
  C9: a put that asks for an acknowledgement is answered on the descriptor it was made
  from.  The header that the initiator sends is delivered at a target whose descriptor has a
  queue and does not disable acknowledgements.  When the target completes the message, in
  any later state in which the message object is as the delivery left it, it makes exactly one
  send, between the write of its own event and the invalidation of regions: an acknowledgement
  for the initiator's node, process, group and rank.  Delivered at the initiator, where the
  descriptor is still in use and active and has a queue and a message object is free, it is
  charged to the descriptor of the put, and its event carries the length that was delivered
  and the match bits of the put.
\<close>

theorem put_ack_round_trip:
  assumes put: "do_PtlPut cbA h PTL_ACK_REQ target portal mb off dat niA = Some (rc, niA')"
    and sent: "ni_trace niA' = ni_trace niA @ [CB_SEND ka hdr nid pid gid rid buf n]"
    and invB: "ni_inv niB"
    and findB: "lib_find_md (my_src niA) portal PTL_MSG_PUT (md_length (ni_md niA (nat (h_index h)))) off mb niB =
      Some (Some (mdB, mlength, offset), niE)"
    and allocB: "lib_msg_alloc niE = Some (kB, niF)"
    and mdB: "\<not> has_option (md_options (ni_md niB mdB)) PTL_MD_ACK_DISABLE" "md_eq (ni_md niB mdB) = Some eB"
    and wr: "\<forall>t a ev. cb_write cbB t a ev = 0"
    and atA: "nat (h_index h) \<in> used_mds niC" "md_threshold (ni_md niC (nat (h_index h))) \<noteq> 0"
      "md_eq (ni_md niC (nat (h_index h))) = Some eA" "lib_msg_alloc niC = Some (kA, niC')"
  shows "\<exists>niB'. lib_parse cbB hdr niB = Some (0, niB') \<and>
    ni_inv niB' \<and> ni_up niB' = ni_up niB \<and> kB \<in> used_msgs niB' \<and> md_eq (ni_md niB' mdB) = Some eB \<and>
    eq_size (ni_eq niB' eB) = eq_size (ni_eq niB eB) \<and>
    (\<forall>niT. ni_inv niT \<and> ni_up niT \<and> kB \<in> used_msgs niT \<and> ni_msg niT kB = ni_msg niB' kB \<and>
         (\<forall>e. md_eq (ni_md niT mdB) = Some e \<longrightarrow> (of_int (eq_size (ni_eq niT e)) :: 32 word) \<noteq> 0) \<longrightarrow>
       (\<exists>rcT niT' ws ack cs niD. lib_finalize cbB (Some kB) niT = Some (rcT, niT') \<and>
          ni_trace niT' = ni_trace niT @ ws @ CB_SEND None ack (ni_nid niA) (ni_pid niA) (ni_gid niA) (ni_rid niA) NULL_PTR 0 # cs \<and>
          (\<forall>c\<in>set ws. is_write c) \<and> (\<forall>c\<in>set cs. is_invalidate c) \<and>
          hdr_nid ack = ni_nid niA \<and> hdr_pid ack = ni_pid niA \<and>
          lib_parse cbA ack niC = Some (0, niD) \<and> msg_md (ni_msg niD kA) = Some (nat (h_index h)) \<and>
          ev_type (msg_ev (ni_msg niD kA)) = PTL_EVENT_ACK \<and> ev_mlength (msg_ev (ni_msg niD kA)) = mlength \<and>
          ev_match_bits (msg_ev (ni_msg niD kA)) = mb))"
proof -
  let ?p = "\<lparr>put_ptl_index = portal, put_ack_md = h_index h, put_match_bits = mb,
    put_length = md_length (ni_md niA (nat (h_index h))), put_offset = off, put_hdr_data = dat\<rparr>"
  from do_PtlPut_sent [OF put sent] have hdr: "hdr_src hdr = my_src niA" "hdr_msg hdr = MSG_PUT ?p" by simp_all
  have ack: "wants_ack ?p (ni_md niB mdB)" using mdB by (simp add: wants_ack_def)
  have found: "lib_find_md (hdr_src hdr) (put_ptl_index ?p) PTL_MSG_PUT (put_length ?p) (put_offset ?p)
      (put_match_bits ?p) niB = Some (Some (mdB, mlength, offset), niE)" using findB by (simp add: hdr)
  obtain niB' d where op: "parse_put hdr ?p niB = Some (0, niB')"
    and msg: "msg_md (ni_msg niB' kB) = Some mdB"
      "msg_return_md (ni_msg niB' kB) = (if wants_ack ?p (ni_md niB mdB) then put_ack_md ?p else -1)"
      "wants_ack ?p (ni_md niB mdB) \<longrightarrow> msg_nid (ni_msg niB' kB) = src_nid (hdr_src hdr) \<and> msg_pid (ni_msg niB' kB) = src_pid (hdr_src hdr) \<and>
         msg_gid (ni_msg niB' kB) = src_gid (hdr_src hdr) \<and> msg_rid (ni_msg niB' kB) = src_rid (hdr_src hdr)"
      "msg_ev (ni_msg niB' kB) = delivered_event (hdr_src hdr) ?p mlength offset d (ni_md niB mdB) (msg_ev (ni_msg niB kB))"
    and left: "kB \<in> used_msgs niB'" "ni_up niB' = ni_up niB" "md_eq (ni_md niB' mdB) = md_eq (ni_md niB mdB)"
      "\<forall>e. eq_size (ni_eq niB' e) = eq_size (ni_eq niB e)"
    by (rule parse_put_found [OF invB found allocB]) (rule that)
  have parse: "lib_parse cbB hdr niB = Some (0, niB')" using op hdr by (simp add: lib_parse_def)
  have m: "msg_return_md (ni_msg niB' kB) = h_index h" "msg_nid (ni_msg niB' kB) = ni_nid niA" "msg_pid (ni_msg niB' kB) = ni_pid niA"
      "msg_gid (ni_msg niB' kB) = ni_gid niA" "msg_rid (ni_msg niB' kB) = ni_rid niA"
      "ev_mlength (msg_ev (ni_msg niB' kB)) = mlength" "ev_match_bits (msg_ev (ni_msg niB' kB)) = mb"
    using msg(2-4) ack mdB(2) by (simp_all add: hdr my_src_def)
  have "\<exists>rcT niT' ws ack cs niD. lib_finalize cbB (Some kB) niT = Some (rcT, niT') \<and>
      ni_trace niT' = ni_trace niT @ ws @ CB_SEND None ack (ni_nid niA) (ni_pid niA) (ni_gid niA) (ni_rid niA) NULL_PTR 0 # cs \<and>
      (\<forall>c\<in>set ws. is_write c) \<and> (\<forall>c\<in>set cs. is_invalidate c) \<and>
      hdr_nid ack = ni_nid niA \<and> hdr_pid ack = ni_pid niA \<and>
      lib_parse cbA ack niC = Some (0, niD) \<and> msg_md (ni_msg niD kA) = Some (nat (h_index h)) \<and>
      ev_type (msg_ev (ni_msg niD kA)) = PTL_EVENT_ACK \<and> ev_mlength (msg_ev (ni_msg niD kA)) = mlength \<and>
      ev_match_bits (msg_ev (ni_msg niD kA)) = mb"
    if T: "ni_inv niT" "ni_up niT" "kB \<in> used_msgs niT" and same: "ni_msg niT kB = ni_msg niB' kB"
      and size: "\<forall>e. md_eq (ni_md niT mdB) = Some e \<longrightarrow> (of_int (eq_size (ni_eq niT e)) :: 32 word) \<noteq> 0" for niT
  proof -
    have hd: "hdr_msg (ack_hdr kB niT) = MSG_ACK \<lparr>ack_dst_md = h_index h, ack_mlength = mlength, ack_match_bits = mb\<rparr>"
      "hdr_nid (ack_hdr kB niT) = ni_nid niA" "hdr_pid (ack_hdr kB niT) = ni_pid niA"
      using m by (simp_all add: ack_hdr_def Let_def same)
    have "msg_md (ni_msg niT kB) = Some mdB" "0 \<le> msg_return_md (ni_msg niT kB)" using msg(1) m(1) by (simp_all add: same)
    from lib_finalize_acks [OF T this(1) size wr this(2)] parse_ack_held [OF hd(1), of niC kA niC' cbA] atA hd(2,3)
    show ?thesis
      by (simp add: same m) metis
  qed
  then show ?thesis using parse left mdB(2) lib_parse_inv [OF invB parse] by (intro exI [of _ niB']) simp
qed

theorem put_ack_round_trip_witness:
  "\<exists>hdr niB' rc niT ack niD. lib_parse demo_cb hdr demo_md_ni = Some (0, niB') \<and>
    lib_finalize demo_cb (Some 1023) niB' = Some (rc, niT) \<and> CB_SEND None ack 7 8 9 0 NULL_PTR 0 \<in> set (ni_trace niT) \<and>
    lib_parse demo_cb ack demo_md_ni = Some (0, niD) \<and> msg_md (ni_msg niD 1023) = Some 4095 \<and>
    ev_mlength (msg_ev (ni_msg niD 1023)) = 100"
proof -
  from demo_put_sent obtain rc ni' hdr nid pid gid rid buf n where
    put: "do_PtlPut demo_cb 4095 PTL_ACK_REQ demo_id 4 5 0 0 demo_md_ni = Some (rc, ni')"
    and sent: "ni_trace ni' = ni_trace demo_md_ni @ [CB_SEND (Some 1023) hdr nid pid gid rid buf n]" by blast
  define ni1 where "ni1 = upd_md 4095 (\<lambda>m. m\<lparr>md_offset := s32 (md_offset m + 100)\<rparr>) demo_md_ni"
  obtain ni2 ni3 where alloc: "lib_msg_alloc ni1 = Some (1023, ni2)" "lib_msg_alloc demo_md_ni = Some (1023, ni3)"
    using demo_msg_alloc [of ni1] demo_msg_alloc [of demo_md_ni] by (auto simp: ni1_def)
  have "lib_find_md (my_src demo_md_ni) 4 PTL_MSG_PUT (md_length (ni_md demo_md_ni (nat (h_index 4095)))) 0 5 demo_md_ni =
      Some (Some (4095, 100, 0), ni1)"
    by (simp add: demo_md_sel demo_find_100 ni1_def)
  from put_ack_round_trip [OF put sent demo_md_inv this alloc(1), where niC = demo_md_ni and eA = 4095 and eB = 4095 and kA = 1023  and cbB = demo_cb]
    alloc(2) demo_md_used
  have "\<exists>niB'. lib_parse demo_cb hdr demo_md_ni = Some (0, niB') \<and> ni_inv niB' \<and> ni_up niB' = ni_up demo_md_ni \<and>
      1023 \<in> used_msgs niB' \<and> md_eq (ni_md niB' 4095) = Some 4095 \<and> eq_size (ni_eq niB' 4095) = eq_size (ni_eq demo_md_ni 4095) \<and>
    (\<forall>niT. ni_inv niT \<and> ni_up niT \<and> 1023 \<in> used_msgs niT \<and> ni_msg niT 1023 = ni_msg niB' 1023 \<and>
         (\<forall>e. md_eq (ni_md niT 4095) = Some e \<longrightarrow> (of_int (eq_size (ni_eq niT e)) :: 32 word) \<noteq> 0) \<longrightarrow>
       (\<exists>rcT niT' ws ack cs niD. lib_finalize demo_cb (Some 1023) niT = Some (rcT, niT') \<and>
          CB_SEND None ack 7 8 9 0 NULL_PTR 0 \<in> set (ni_trace niT') \<and>
          lib_parse demo_cb ack demo_md_ni = Some (0, niD) \<and> msg_md (ni_msg niD 1023) = Some 4095 \<and>
          ev_mlength (msg_ev (ni_msg niD 1023)) = 100))"
    by (simp add: demo_md_sel has_option_3 demo_cb_def) fastforce
  moreover have "eq_size (ni_eq demo_md_ni 4095) = 4" "ni_up demo_md_ni" by (simp_all add: demo_md_sel demo_eq_sel)
  ultimately show ?thesis by fastforce
qed

text \<open>
  C10: a get is answered into the descriptor it was made from.  The header that the
  initiator sends, delivered at a target whose search finds a descriptor and that has a
  free message object, sends the bytes that the target's descriptor offers back to the
  initiator's node, process, group and rank.  That reply, delivered at the initiator, is
  received into the region of the descriptor of the get: at the offset that the descriptor had
  when the get was made if it takes remote offsets, at its present offset otherwise.  For this
  the descriptor must still be in use, its threshold must not be zero when the reply comes, a
  message object must be free, and the reply must fit behind the offset.
\<close>

theorem get_reply_round_trip:
  assumes get: "do_PtlGet cbA h target portal mb off niA = Some (rc, niA')"
    and sent: "ni_trace niA' = ni_trace niA @ [CB_SEND ka hdr nid pid gid rid buf n]"
    and invB: "ni_inv niB"
    and findB: "lib_find_md (my_src niA) portal PTL_MSG_GET (md_length (ni_md niA (nat (h_index h)))) off mb
      (nal_call (CB_RECV None NULL_PTR 0 0) niB) = Some (Some (mdB, mlength, offset), niE)"
    and allocB: "lib_msg_alloc niE = Some (kB, niF)"
    and atA: "md = nat (h_index h)" "md \<in> used_mds niC" "md_threshold (ni_md niC md) \<noteq> 0" "lib_msg_alloc niC = Some (kA, niC')"
    and place: "place = (if has_option (md_options (ni_md niC md)) PTL_MD_MANAGE_REMOTE
      then md_offset (ni_md niA md) else md_offset (ni_md niC md))"
    and fits: "0 \<le> place" "0 \<le> mlength" "place + mlength \<le> md_length (ni_md niC md)" "md_length (ni_md niC md) < 2 ^ 31"
  shows "\<exists>rcB niB' out niD. lib_parse cbB hdr niB = Some (rcB, niB') \<and>
    ni_trace niB' = ni_trace niB @ [CB_RECV None NULL_PTR 0 0,
      CB_SEND (Some kB) out (ni_nid niA) (ni_pid niA) (ni_gid niA) (ni_rid niA)
        (md_start (ni_md niB mdB) + of_int offset) (size_t mlength)] \<and>
    hdr_nid out = ni_nid niA \<and> hdr_pid out = ni_pid niA \<and>
    lib_parse cbA out niC = Some (0, niD) \<and> msg_md (ni_msg niD kA) = Some md \<and>
    ni_trace niD = ni_trace niC @ [CB_RECV (Some kA) (md_start (ni_md niC md) + of_int place) (size_t mlength) (size_t mlength)]"
proof -
  from do_PtlGet_sent [OF get sent] have hdr: "hdr_src hdr = my_src niA"
      "hdr_msg hdr = MSG_GET \<lparr>get_ptl_index = portal, get_match_bits = mb,
         get_length = md_length (ni_md niA (nat (h_index h))), get_src_offset = off,
         get_return_offset = md_offset (ni_md niA md), get_return_md = h_index h\<rparr>" by (simp_all add: atA(1))
  define reply where "reply = \<lparr>reply_dst_md = h_index h, reply_dst_offset = md_offset (ni_md niA md), reply_length = mlength\<rparr>"
  define out where "out = \<lparr>hdr_nid = ni_nid niA, hdr_pid = ni_pid niA, hdr_src = my_src niB, hdr_msg = MSG_REPLY reply\<rparr>"
  have B: "\<exists>rcB niB'. lib_parse cbB hdr niB = Some (rcB, niB') \<and>
    ni_trace niB' = ni_trace niB @ [CB_RECV None NULL_PTR 0 0,
      CB_SEND (Some kB) out (ni_nid niA) (ni_pid niA) (ni_gid niA) (ni_rid niA)
        (md_start (ni_md niB mdB) + of_int offset) (size_t mlength)]"
    using parse_get_replies [OF invB hdr(2), of mdB mlength offset niE kB niF out cbB] findB allocB
    by (auto simp: hdr(1) my_src_def out_def reply_def)
  have "hdr_msg out = MSG_REPLY reply" "md = nat (h_index (reply_dst_md reply))"
    "place = md_base_offset (reply_dst_offset reply) (ni_md niC md)"
    by (simp_all add: out_def reply_def atA(1) md_base_offset_def place)
  from parse_reply_received [OF this(1,2) atA(2-4) this(3) fits(1) _ _ fits(4), of cbA] fits
  have "\<exists>niD. lib_parse cbA out niC = Some (0, niD) \<and> msg_md (ni_msg niD kA) = Some md \<and>
    ni_trace niD = ni_trace niC @ [CB_RECV (Some kA) (md_start (ni_md niC md) + of_int place) (size_t mlength) (size_t mlength)]"
    by (simp add: reply_def)
  moreover have "hdr_nid out = ni_nid niA" "hdr_pid out = ni_pid niA" by (simp_all add: out_def)
  ultimately show ?thesis using B by blast
qed

theorem get_reply_round_trip_witness:
  "\<exists>hdr rcB niB' out niD. lib_parse demo_cb hdr demo_md_ni = Some (rcB, niB') \<and>
    lib_parse demo_cb out demo_md_ni = Some (0, niD) \<and> msg_md (ni_msg niD 1023) = Some 4095 \<and>
    ni_trace niD = ni_trace demo_md_ni @ [CB_RECV (Some 1023) 0x10000 100 100]"
proof -
  from demo_get_sent obtain rc ni' hdr nid pid gid rid buf n where
    get: "do_PtlGet demo_cb 4095 demo_id 4 5 0 demo_md_ni = Some (rc, ni')"
    and sent: "ni_trace ni' = ni_trace demo_md_ni @ [CB_SEND (Some 1023) hdr nid pid gid rid buf n]" by blast
  have len: "md_length (ni_md demo_md_ni (nat (h_index 4095))) = 100" by (simp add: demo_md_sel)
  obtain ni1 where find: "lib_find_md (my_src demo_md_ni) 4 PTL_MSG_GET
      (md_length (ni_md demo_md_ni (nat (h_index 4095)))) 0 5 (nal_call (CB_RECV None NULL_PTR 0 0) demo_md_ni) =
      Some (Some (4095, 100, 0), ni1)" and pool: "ni_msg_pool ni1 = ni_msg_pool demo_md_ni"
    using demo_find_get unfolding len by blast
  obtain ni2 ni3 where alloc: "lib_msg_alloc ni1 = Some (1023, ni2)" "lib_msg_alloc demo_md_ni = Some (1023, ni3)"
    using demo_msg_alloc [OF pool] demo_msg_alloc [of demo_md_ni] by auto
  from get_reply_round_trip [OF get sent demo_md_inv find alloc(1), where md = 4095 and niC = demo_md_ni and kA = 1023 and place = 0 and cbB = demo_cb]
  show ?thesis using alloc(2) demo_md_used by (auto simp: demo_md_sel has_option_3 size_t_def)
qed

text \<open>
  C27: the acknowledgement of a put to a descriptor without an event queue does not
  carry the length that was delivered: its length is whatever the event of the message object
  held from its previous use.
\<close>

theorem ack_length_without_queue:
  assumes inv: "ni_inv ni" and hdr: "hdr_msg hdr = MSG_PUT put"
    and find: "lib_find_md (hdr_src hdr) (put_ptl_index put) PTL_MSG_PUT (put_length put) (put_offset put)
      (put_match_bits put) ni = Some (Some (md, mlength, offset), ni1)"
    and alloc: "lib_msg_alloc ni1 = Some (k, ni2)"
    and eq: "md_eq (ni_md ni md) = None" and ack: "wants_ack put (ni_md ni md)"
  shows "\<exists>ni'. lib_parse cb hdr ni = Some (0, ni') \<and> hdr_msg (ack_hdr k ni') =
    MSG_ACK \<lparr>ack_dst_md = put_ack_md put, ack_mlength = ev_mlength (msg_ev (ni_msg ni k)),
      ack_match_bits = put_match_bits put\<rparr>"
proof -
  obtain ni' d where "parse_put hdr put ni = Some (0, ni')"
    "msg_return_md (ni_msg ni' k) = (if wants_ack put (ni_md ni md) then put_ack_md put else -1)"
    "msg_ev (ni_msg ni' k) = delivered_event (hdr_src hdr) put mlength offset d (ni_md ni md) (msg_ev (ni_msg ni k))"
    by (rule parse_put_found [OF inv find alloc]) (rule that)
  then show ?thesis using hdr eq ack by (simp add: lib_parse_def ack_hdr_def delivered_event_def Let_def)
qed

theorem ack_length_without_queue_witness:
  "\<exists>ni'. lib_parse demo_cb demo_hdr (upd_md 4095 (\<lambda>m. m\<lparr>md_eq := None\<rparr>) demo_md_ni) = Some (0, ni') \<and>
    hdr_msg (ack_hdr 1023 ni') = MSG_ACK \<lparr>ack_dst_md = 17, ack_mlength = 0, ack_match_bits = 5\<rparr>"
proof -
  define ni where "ni = upd_md 4095 (\<lambda>m. m\<lparr>md_eq := None\<rparr>) demo_md_ni"
  have inv: "ni_inv ni" using demo_md_inv by (simp add: ni_def ni_inv_simps)
  have "me_offer demo_src PTL_MSG_PUT 40 0 5 ni 4095 = Some (4095, 40, 0)"
    by (simp add: ni_def me_offer_def upd_md_def demo_md_sel demo_me_sel demo_matches md_try_def has_option_3 s32_def)
  then obtain ni1 where find: "lib_find_md (hdr_src demo_hdr) (put_ptl_index demo_put) PTL_MSG_PUT (put_length demo_put)
      (put_offset demo_put) (put_match_bits demo_put) ni = Some (Some (4095, 40, 0), ni1)"
    and pool: "ni_msg_pool ni1 = ni_msg_pool demo_md_ni"
    using lib_find_md_spec [OF inv, of 4 "[4095]"] demo_list by (simp add: ni_def demo_md_sel demo_put_def demo_hdr_def)
  obtain ni2 where alloc: "lib_msg_alloc ni1 = Some (1023, ni2)" using demo_msg_alloc [OF pool] by blast
  have md: "md_eq (ni_md ni 4095) = None" "wants_ack demo_put (ni_md ni 4095)"
    by (simp_all add: ni_def upd_md_def demo_md_sel wants_ack_def demo_put_def has_option_3)
  have "hdr_msg demo_hdr = MSG_PUT demo_put" by (simp add: demo_hdr_def)
  from ack_length_without_queue [OF inv this find alloc md, of demo_cb] show ?thesis
    by (simp add: ni_def demo_md_sel demo_put_def demo_raw_def demo_event_def)
qed

end
