(* ===== verification/P30_Events.thy ===== *)
theory P30_Events
  imports P30_Delivery
begin

text \<open>
  Events from end to end: the library numbers the event of a completed message and writes it
  into the ring of its queue through the network layer; the application reads the ring.
\<close>

section \<open>Writes of the network layer\<close>

text \<open>The memory of the application after the calls of the library.\<close>

fun apply_call :: "nal_call \<Rightarrow> (user_ptr \<Rightarrow> ptl_event) \<Rightarrow> (user_ptr \<Rightarrow> ptl_event)" where
  "apply_call (CB_WRITE a ev) mem = mem(a := ev)"
| "apply_call _ mem = mem"

definition apply_calls :: "nal_call list \<Rightarrow> (user_ptr \<Rightarrow> ptl_event) \<Rightarrow> (user_ptr \<Rightarrow> ptl_event)" where
  "apply_calls cs mem = fold apply_call cs mem"

lemma apply_call_not_write: "\<not> is_write c \<Longrightarrow> apply_call c mem = mem"
  by (cases c) simp_all

lemma apply_calls_not_write: "\<forall>c\<in>set cs. \<not> is_write c \<Longrightarrow> apply_calls cs mem = mem"
  by (induction cs) (simp_all add: apply_calls_def apply_call_not_write)

section \<open>Completing a message appends its event\<close>

text \<open>The queue of the library after \<open>m\<close> events.\<close>

definition queue_at :: "lib_ni \<Rightarrow> nat \<Rightarrow> user_ptr \<Rightarrow> nat \<Rightarrow> nat \<Rightarrow> bool" where
  "queue_at ni e base n m \<longleftrightarrow>
     eq_base (ni_eq ni e) = base \<and> eq_size (ni_eq ni e) = int n \<and> eq_sequence (ni_eq ni e) = of_nat (Suc m)"

lemma finalize_event_appends:
  assumes q: "queue_at ni e base n m" and n: "0 < n" "n < 2 ^ 31" and m: "Suc m < 2 ^ 32"
    and wr: "\<forall>t a ev. cb_write cb t a ev = 0"
    and ev: "ev = (msg_ev (ni_msg ni k))\<lparr>ev_sequence := of_nat (Suc m)\<rparr>"
  shows "\<exists>ni1. finalize_event cb k e ni = Some (True, ni1) \<and> queue_at ni1 e base n (Suc m) \<and>
    ni_trace ni1 = ni_trace ni @ [CB_WRITE (ev_addr base (of_nat (Suc m mod n))) ev]"
proof -
  have size: "(of_int (int n) :: 32 word) \<noteq> 0"
    using n by (simp add: word_of_nat_eq_0_iff nat_dvd_not_less)
  note slot = slot_put [OF m n]
  show ?thesis
    using q size slot wr unfolding finalize_event_def queue_at_def Let_def
    by (simp add: upd_eq_def upd_msg_def nal_call_def ev ev_addr_def del: of_int_of_nat_eq of_nat_Suc)
      (simp add: ac_simps)
qed

lemma writeless_ack: "finalize_ack cb k ni = (rc, ni') \<Longrightarrow> calls_only (\<lambda>c. \<not> is_write c) ni ni'"
  by (auto simp: finalize_ack_def calls_only_def nal_call_def Let_def split: if_splits)

lemma lib_finalize_appends:
  assumes inv: "ni_inv ni" and up: "ni_up ni" and k: "k \<in> used_msgs ni"
    and md: "msg_md (ni_msg ni k) = Some md" "md_eq (ni_md ni md) = Some e"
    and q: "queue_at ni e base n m" and n: "0 < n" "n < 2 ^ 31" and m: "Suc m < 2 ^ 32"
    and wr: "\<forall>t a ev. cb_write cb t a ev = 0"
    and ev: "ev = (msg_ev (ni_msg ni k))\<lparr>ev_sequence := of_nat (Suc m)\<rparr>"
  shows "\<exists>rc ni' cs. lib_finalize cb (Some k) ni = Some (rc, ni') \<and> queue_at ni' e base n (Suc m) \<and>
    ni_trace ni' = ni_trace ni @ CB_WRITE (ev_addr base (of_nat (Suc m mod n))) ev # cs \<and> (\<forall>c\<in>set cs. \<not> is_write c)"
proof -
  from finalize_event_appends [OF q n m wr ev] obtain ni1 where ni1: "finalize_event cb k e ni = Some (True, ni1)"
      "queue_at ni1 e base n (Suc m)"
      "ni_trace ni1 = ni_trace ni @ [CB_WRITE (ev_addr base (of_nat (Suc m mod n))) ev]" by blast
  note frame = finalize_event_frame [OF ni1(1)]
  obtain rc ni2 where ack: "finalize_ack cb k ni1 = (rc, ni2)" by (cases "finalize_ack cb k ni1")
  then obtain cs where ni2: "ni2 = ni1\<lparr>ni_trace := cs\<rparr>" using finalize_ack_frame by blast
  have inv2: "ni_inv ni2" using inv frame(1) by (simp add: ni2 ni_inv_trace)
  have use: "md < MAX_MDS" "md \<in> used_mds ni2 \<or> idle (ni_md_links ni2) md \<and> md_me (ni_md ni2 md) = None"
    using inv k md(1) by (auto simp: ni_inv_def msgs_ok_idle ni2 frame)
  obtain ni3 where ni3: "finalize_md md ni2 = Some ni3" by (rule finalize_md_spec [OF inv2 use])
  have "calls_only (\<lambda>c. \<not> is_write c) ni2 ni3"
    by (rule calls_only_mono [OF calls_only_finalize_md [OF inv2 use ni3] is_invalidate_not_write])
  then have "calls_only (\<lambda>c. \<not> is_write c) ni1 (lib_msg_free k ni3)"
    using writeless_ack [OF ack] calls_only_upd(3) by (blast intro: calls_only_trans)
  moreover have "lib_finalize cb (Some k) ni = Some (rc, lib_msg_free k ni3)"
    using up md ni1(1) ack ni3 by (simp add: lib_finalize_def)
  ultimately show ?thesis using ni1(2,3) by (auto simp: calls_only_def queue_at_def)
qed

section \<open>Reading a queue\<close>

lemma ring_empty:
  assumes "0 < n" "n < 2 ^ 31"
  shows "ring base n [] (clear_events base (int n) mem)"
proof -
  have clear: "ev_sequence (fold (\<lambda>i m. m(ev_addr base (of_nat i) := (m (ev_addr base (of_nat i)))\<lparr>ev_sequence := 0\<rparr>))
      is mem (ev_addr base (of_nat j))) = 0" if "j \<in> set is" for "is" j
    using that
  proof (induction "is" rule: rev_induct)
    case (snoc i "is")
    then show ?case by auto
  qed simp
  have "ev_sequence (clear_events base (int n) mem (ev_addr base (of_nat (k mod n)))) = 0" for k
    unfolding clear_events_def using assms by (intro clear) simp
  then show ?thesis by (simp add: ring_def)
qed

text \<open>Reading several events, one call of \<open>PtlEQGet\<close> after the other.\<close>

fun get_events :: "nat \<Rightarrow> int \<Rightarrow> 'w api \<Rightarrow> ((int \<times> ptl_event option) list \<times> 'w api) option" where
  "get_events 0 eventq st = Some ([], st)"
| "get_events (Suc m) eventq st =
     Option.bind (PtlEQGet eventq st) (\<lambda>(r, st1).
       Option.bind (get_events m eventq st1) (\<lambda>(rs, st2). Some (r # rs, st2)))"

lemma get_events_ring:
  assumes n: "0 < n" "n < 2 ^ 31" and es: "Suc (length es) < 2 ^ 32"
    and "reader st eventq base n c" "ring base n es (api_mem st)" "length es = c + m" "m \<le> n"
  shows "\<exists>st'. get_events m eventq st = Some (map (\<lambda>e. (PTL_OK, Some e)) (drop c es), st') \<and>
    reader st' eventq base n (length es) \<and> api_mem st' = api_mem st"
  using assms(4-)
proof (induction m arbitrary: st c)
  case (Suc m)
  then have c: "c \<le> length es" "c < length es" "length es \<le> c + n" by simp_all
  have ne: "next_event n c (length es) = Suc c" using next_event_props(5) [OF c(2) n(1)] c(3) by simp
  from PtlEQGet_ring(2) [OF Suc.prems(1,2) n c(1) es c(2)] ne c(3) obtain st1 where
    get: "PtlEQGet eventq st = Some ((PTL_OK, Some (es ! c)), st1)" "reader st1 eventq base n (Suc c)"
      "api_mem st1 = api_mem st" by auto
  from Suc.IH [OF get(2)] Suc.prems get(3) obtain st' where
    "get_events m eventq st1 = Some (map (\<lambda>e. (PTL_OK, Some e)) (drop (Suc c) es), st')"
    "reader st' eventq base n (length es)" "api_mem st' = api_mem st" by auto
  with get show ?case by (auto simp: Cons_nth_drop_Suc [OF c(2), symmetric])
qed auto

section \<open>Counting unread events\<close>

lemma fold_count:
  assumes "distinct is" "0 \<le> a" "a + int (length is) < 2 ^ 31"
  shows "fold (\<lambda>i count. if P i then s32 (count + 1) else count) is a = a + int (card {i \<in> set is. P i})"
  using assms
proof (induction "is" arbitrary: a)
  case (Cons i "is")
  have s: "s32 (a + 1) = a + 1" using Cons.prems by (intro s32_id) (simp add: c_int_def)
  have "{j \<in> set (i # is). P j} = (if P i then insert i {j \<in> set is. P j} else {j \<in> set is. P j})" by auto
  moreover have "i \<notin> {j \<in> set is. P j}" using Cons.prems by simp
  ultimately show ?case using Cons.IH [of "a + 1"] Cons.IH [of a] Cons.prems s by simp
qed simp

text \<open>The slots whose event has a number above \<open>c\<close>.\<close>

lemma unread_slots:
  assumes ring: "ring base n es mem" and n: "0 < n" and m: "Suc (length es) < 2 ^ 32" and c: "c \<le> length es"
  shows "{i. i < n \<and> ev_sequence (mem (ev_addr base (of_nat i))) \<ge> of_nat (Suc c)} =
    (\<lambda>k. k mod n) ` {max c (length es - n)<..length es}" (is "?L = ?R")
proof (intro set_eqI iffI)
  let ?m = "length es"
  fix i assume "i \<in> ?L"
  then have i: "i < n" "\<not> ev_sequence (mem (ev_addr base (of_nat i))) < of_nat (Suc c)" by auto
  show "i \<in> ?R"
  proof (cases "?m < n \<and> (i = 0 \<or> ?m < i)")
    case True
    define k where "k = (if i = 0 then n else i)"
    have "?m < k" "k \<le> n" "k mod n = i" using True i by (auto simp: k_def)
    with ring have "ev_sequence (mem (ev_addr base (of_nat i))) = 0" by (metis ring_def)
    moreover have "(of_nat (Suc c) :: 32 word) \<noteq> 0"
      using c m by (simp add: word_of_nat_eq_0_iff nat_dvd_not_less del: of_nat_Suc)
    ultimately show ?thesis using i(2) by (simp add: word_greater_zero_iff del: of_nat_Suc)
  next
    case False
    obtain k where k: "0 < k" "k \<le> ?m" "?m < k + n" "k mod n = i"
    proof (cases "i \<le> ?m")
      case True
      let ?k = "?m - (?m - i) mod n"
      have "(?m - i) mod n < n" "(?m - i) mod n \<le> ?m - i" using n by simp_all
      moreover have "?k = i + (?m - i) div n * n"
        using True minus_mod_eq_div_mult [of "?m - i" n] calculation(2) by linarith
      then have "?k mod n = i" using i(1) by simp
      moreover have "0 < ?k"
        using False True i(1) calculation(1,2) by (cases "i = 0") linarith+
      ultimately show ?thesis using True by (intro that [of ?k]) linarith+
    qed (use False i(1) in linarith)
    then have "mem (ev_addr base (of_nat i)) = es ! (k - 1)" "ev_sequence (es ! (k - 1)) = of_nat k"
      using ring unfolding ring_def by metis+
    with i(2) have "\<not> (of_nat k :: 32 word) < of_nat (Suc c)" by simp
    then have "c < k" using k(2) m c by (subst (asm) word_less_of_nat) linarith+
    with k show ?thesis by (intro image_eqI [of _ _ k]) auto
  qed
next
  let ?m = "length es"
  fix i assume "i \<in> ?R"
  then obtain k where k: "c < k" "?m - n < k" "k \<le> ?m" "i = k mod n" by auto
  then have "mem (ev_addr base (of_nat i)) = es ! (k - 1)" "ev_sequence (es ! (k - 1)) = of_nat k"
    using ring unfolding ring_def by auto
  moreover have "\<not> (of_nat k :: 32 word) < of_nat (Suc c)"
    using k m c by (subst word_less_of_nat) linarith+
  ultimately show "i \<in> ?L" using k(4) n by (simp del: of_nat_Suc)
qed

lemma card_unread:
  "0 < n \<Longrightarrow> card ((\<lambda>k. k mod n) ` {max c (m - n)<..m}) = m - max c (m - (n :: nat))"
proof -
  assume n: "0 < n"
  have "inj_on (\<lambda>k. k mod n) {max c (m - n)<..m}"
  proof (rule inj_onI)
    fix x y assume xy: "x \<in> {max c (m - n)<..m}" "y \<in> {max c (m - n)<..m}" "x mod n = y mod n"
    then have "x \<le> m" "y \<le> m" "m < x + n" "m < y + n" by auto
    with xy(3) show "x = y"
      using mod_window [of x y n] mod_window [of y x n] by (cases x y rule: linorder_cases) auto
  qed
  then show ?thesis by (simp add: card_image)
qed

section \<open>Example queues\<close>

text \<open>A queue of \<open>n\<close> events into which \<open>m\<close> have been written, and an application
  that has read none of them.\<close>

definition demo_events :: "nat \<Rightarrow> ptl_event list" where
  "demo_events m = map (\<lambda>i. demo_event\<lparr>ev_sequence := of_nat (Suc i)\<rparr>) [0..<m]"

definition demo_mem :: "nat \<Rightarrow> nat \<Rightarrow> user_ptr \<Rightarrow> ptl_event" where
  "demo_mem n m = fold (\<lambda>i mem. mem(ev_addr 0x20000 (of_nat (Suc i mod n)) := demo_event\<lparr>ev_sequence := of_nat (Suc i)\<rparr>))
     [0..<m] (clear_events 0x20000 (int n) (\<lambda>_. demo_event))"

definition demo_api :: "nat \<Rightarrow> nat \<Rightarrow> unit api" where
  "demo_api n m = \<lparr>api_init = True, api_p30_initialized = True, api_ifs = (\<lambda>i. if i = 0 then Some 0 else None),
     api_num = 1, api_eqs = (\<lambda>_ _. \<lparr>peq_inuse = True, peq_sequence = 1, peq_size = int n, peq_base = 0x20000\<rparr>),
     api_mem = demo_mem n m, api_world = ()\<rparr>"

lemma demo_ring:
  assumes "0 < n" "n < 2 ^ 31"
  shows "ring 0x20000 n (demo_events m) (demo_mem n m)"
proof (induction m)
  case 0
  show ?case using ring_empty [OF assms] by (simp add: demo_events_def demo_mem_def)
next
  case (Suc m)
  have "length (demo_events m) = m" by (simp add: demo_events_def)
  with ring_write [OF Suc.IH assms, of "demo_event\<lparr>ev_sequence := of_nat (Suc m)\<rparr>"] show ?case
    by (simp add: demo_events_def demo_mem_def fun_upd_def)
qed

lemma demo_reader: "reader (demo_api n m) 0 0x20000 n 0"
  by (simp add: reader_def demo_api_def h_index_mod MAX_EQS_def)

lemma demo_put_queue:
  "md_eq (ni_md demo_put_ni 4095) = Some 4095" "queue_at demo_put_ni 4095 0x20000 4 0"
proof -
  note eval = demo_put_ni_def lib_parse_def demo_hdr_def parse_put_def demo_put_def demo_find
    lib_msg_alloc_def pool_alloc_def demo_md_sel demo_eq_sel demo_ni_sel Let_def hold_md_def fill_event_def
    count_recv_def upd_md_def upd_msg_def upd_eq_def upd_counters_def nal_call_def queue_at_def
  show "md_eq (ni_md demo_put_ni 4095) = Some 4095" by (simp add: eval)
  show "queue_at demo_put_ni 4095 0x20000 4 0" by (simp add: eval)
qed

section \<open>Properties\<close>

text \<open>
  C8: the event of a completed message reaches the application.  When the queue of the
  descriptor has \<open>length es\<close> events in its ring, completing the message writes one event,
  that of the message with the next number; the ring then holds it as the last event, and a
  reader that has read everything before gets exactly this event next.
\<close>

theorem completed_event_delivered:
  assumes ord: "orderly cb ni" "ni_up ni" "k \<in> used_msgs ni"
    and md: "msg_md (ni_msg ni k) = Some md" "md_eq (ni_md ni md) = Some e"
    and q: "queue_at ni e base n (length es)" "ring base n es mem"
    and n: "0 < n" "n < 2 ^ 31" and m: "Suc (Suc (length es)) < 2 ^ 32"
    and wr: "\<forall>t a ev. cb_write cb t a ev = 0"
  shows "\<exists>rc ni' cs ev. lib_finalize cb (Some k) ni = Some (rc, ni') \<and> ni_trace ni' = ni_trace ni @ cs \<and>
    ev = (msg_ev (ni_msg ni k))\<lparr>ev_sequence := of_nat (Suc (length es))\<rparr> \<and>
    ring base n (es @ [ev]) (apply_calls cs mem) \<and> queue_at ni' e base n (length (es @ [ev])) \<and>
    (\<forall>st eventq. reader st eventq base n (length es) \<and> api_mem st = apply_calls cs mem \<longrightarrow>
       (\<exists>st'. PtlEQGet eventq st = Some ((PTL_OK, Some ev), st')))"
proof -
  define ev where "ev = (msg_ev (ni_msg ni k))\<lparr>ev_sequence := of_nat (Suc (length es))\<rparr>"
  have inv: "ni_inv ni" and m1: "Suc (length es) < 2 ^ 32" using orderly_inv [OF ord(1)] m by simp_all
  from lib_finalize_appends [OF inv ord(2,3) md q(1) n m1 wr ev_def] obtain rc ni' cs where
    fin: "lib_finalize cb (Some k) ni = Some (rc, ni')" "queue_at ni' e base n (Suc (length es))"
      "ni_trace ni' = ni_trace ni @ CB_WRITE (ev_addr base (of_nat (Suc (length es) mod n))) ev # cs"
      "\<forall>c\<in>set cs. \<not> is_write c" by blast
  let ?cs = "CB_WRITE (ev_addr base (of_nat (Suc (length es) mod n))) ev # cs"
  have mem: "apply_calls ?cs mem = mem(ev_addr base (of_nat (Suc (length es) mod n)) := ev)"
    using apply_calls_not_write [OF fin(4)] by (simp add: apply_calls_def)
  have "ev_sequence ev = of_nat (Suc (length es))" by (simp add: ev_def)
  from ring_write [OF q(2) n this] have ring: "ring base n (es @ [ev]) (apply_calls ?cs mem)" unfolding mem .
  have get: "\<exists>st'. PtlEQGet eventq st = Some ((PTL_OK, Some ev), st')"
    if "reader st eventq base n (length es)" "api_mem st = apply_calls ?cs mem" for st :: "'a api" and eventq
  proof -
    have "next_event n (length es) (length (es @ [ev])) = Suc (length es)"
      using next_event_props(5) [of "length es" "length (es @ [ev])" n] n by simp
    then show ?thesis
      using PtlEQGet_ring(2) [OF that(1), of "es @ [ev]"] that(2) ring n m by (auto simp: nth_append)
  qed
  show ?thesis
    by (intro exI [of _ rc] exI [of _ ni'] exI [of _ ?cs] exI [of _ ev]) (use fin ring get ev_def in auto)
qed

theorem completed_event_delivered_witness:
  "\<exists>rc ni' cs ev. lib_finalize demo_cb (Some 1023) demo_put_ni = Some (rc, ni') \<and>
    ni_trace ni' = ni_trace demo_put_ni @ cs \<and> ev = (msg_ev (ni_msg demo_put_ni 1023))\<lparr>ev_sequence := 1\<rparr> \<and>
    ring 0x20000 4 [ev] (apply_calls cs (demo_mem 4 0)) \<and>
    (\<exists>st'. PtlEQGet 0 ((demo_api 4 0)\<lparr>api_mem := apply_calls cs (demo_mem 4 0)\<rparr>) = Some ((PTL_OK, Some ev), st'))"
proof -
  have "ring 0x20000 4 [] (demo_mem 4 0)" using demo_ring [of 4 0] by (simp add: demo_events_def)
  moreover have "reader ((demo_api 4 0)\<lparr>api_mem := mem\<rparr>) 0 0x20000 4 0" for mem
    using demo_reader [of 4 0] by (simp add: reader_def)
  ultimately show ?thesis
    using completed_event_delivered [OF demo_orderly demo_put_up, where k = 1023 and md = 4095 and e = 4095
          and base = "0x20000" and n = 4 and es = "[]" and mem = "demo_mem 4 0"]
      demo_put_msgs demo_put_md demo_put_queue
    by (fastforce simp: demo_cb_def)
qed

text \<open>
  C18: a reader of a ring that has not been overrun gets the unread events in the order in
  which they were written, each once and with the code for success, and then the code for an
  empty queue.
\<close>

theorem events_in_order:
  assumes "reader st eventq base n c" "ring base n es (api_mem st)" "0 < n" "n < 2 ^ 31"
    and "c \<le> length es" "length es \<le> c + n" "Suc (length es) < 2 ^ 32"
  shows "\<exists>st'. get_events (length es - c) eventq st = Some (map (\<lambda>e. (PTL_OK, Some e)) (drop c es), st') \<and>
    PtlEQGet eventq st' = Some ((PTL_EQ_EMPTY, None), st')"
proof -
  have "length es = c + (length es - c)" "length es - c \<le> n" using assms(5,6) by linarith+
  from get_events_ring [OF assms(3,4,7,1,2) this] obtain st' where
    st': "get_events (length es - c) eventq st = Some (map (\<lambda>e. (PTL_OK, Some e)) (drop c es), st')"
      "reader st' eventq base n (length es)" "api_mem st' = api_mem st" by blast
  with PtlEQGet_ring(1) [OF st'(2), of es] assms show ?thesis by auto
qed

theorem events_in_order_witness:
  "\<exists>st'. get_events 3 0 (demo_api 4 3) = Some (map (\<lambda>e. (PTL_OK, Some e)) (demo_events 3), st') \<and>
    PtlEQGet 0 st' = Some ((PTL_EQ_EMPTY, None), st')"
  using events_in_order [OF demo_reader [of 4 3], of "demo_events 3"] demo_ring [of 4 3]
  by (simp add: demo_api_def demo_events_def)

text \<open>
  C19: a reader that was overrun is told so: it gets an event that is still in the ring,
  with the code for dropped events, and goes on from there.
\<close>

theorem overrun_reported:
  assumes "reader st eventq base n c" "ring base n es (api_mem st)" "0 < n" "n < 2 ^ 31"
    and "c + n < length es" "Suc (length es) < 2 ^ 32"
  shows "\<exists>k st'. PtlEQGet eventq st = Some ((PTL_EQ_DROPPED, Some (es ! (k - 1))), st') \<and>
    Suc c < k \<and> k \<le> length es \<and> length es < k + n \<and> reader st' eventq base n k"
proof -
  let ?k = "next_event n c (length es)"
  have c: "c \<le> length es" "c < length es" using assms(5) by simp_all
  note k = next_event_props [OF c(2) assms(3)]
  have "Suc c < ?k" using k(1,5) assms(5) by linarith
  moreover obtain st' where "PtlEQGet eventq st = Some ((PTL_EQ_DROPPED, Some (es ! (?k - 1))), st')"
      "reader st' eventq base n ?k"
    using PtlEQGet_ring(2) [OF assms(1-4) c(1) assms(6) c(2)] assms(5) by auto
  ultimately show ?thesis using k(2,3) by blast
qed

theorem overrun_reported_witness:
  "\<exists>k st'. PtlEQGet 0 (demo_api 4 7) = Some ((PTL_EQ_DROPPED, Some (demo_events 7 ! (k - 1))), st') \<and> 1 < k \<and> k \<le> 7"
  using overrun_reported [OF demo_reader [of 4 7], of "demo_events 7"] demo_ring [of 4 7]
  by (auto simp: demo_api_def demo_events_def)

text \<open>
  C20: \<open>PtlEQCount\<close> returns the number of unread events that are still in the ring.
\<close>

theorem count_is_unread:
  assumes "reader st eventq base n c" "ring base n es (api_mem st)" "0 < n" "n < 2 ^ 31"
    and "c \<le> length es" "Suc (length es) < 2 ^ 32" and "iface st eventq = Some (api_ifs st 0)"
  shows "PtlEQCount eventq st = Some (PTL_OK, Some (int (min (length es - c) n)))"
proof -
  from assms(1) obtain nal where nal: "api_ifs st 0 = Some nal" "h_index eventq < int MAX_EQS"
    and q: "api_eqs st nal (nat (h_index eventq)) =
      \<lparr>peq_inuse = True, peq_sequence = of_nat (Suc c), peq_size = int n, peq_base = base\<rparr>"
    by (auto simp: reader_def)
  have bad: "bad_peq st nal (h_index eventq) = Some False" using nal q by (simp add: bad_peq_def peq_at_def)
  let ?P = "\<lambda>i. ev_sequence (api_mem st (ev_addr base (of_nat i))) \<ge> of_nat (Suc c)"
  have "{i \<in> set [0..<n]. ?P i} = {i. i < n \<and> ?P i}" by auto
  then have "card {i \<in> set [0..<n]. ?P i} = length es - max c (length es - n)"
    using unread_slots [OF assms(2,3,6,5)] card_unread [OF assms(3)] by simp
  also have "\<dots> = min (length es - c) n" by simp
  finally have "fold (\<lambda>i count. if ?P i then s32 (count + 1) else count) [0..<n] 0 = int (min (length es - c) n)"
    using fold_count [of "[0..<n]" 0 ?P] assms(4) by simp
  then show ?thesis
    using assms(7) nal(1) bad q by (simp add: PtlEQCount_def Let_def del: of_nat_Suc)
qed

theorem count_is_unread_witness: "PtlEQCount 0 (demo_api 4 3) = Some (PTL_OK, Some 3)"
  using count_is_unread [OF demo_reader [of 4 3], of "demo_events 3"] demo_ring [of 4 3]
  by (simp add: demo_api_def demo_events_def iface_def MAX_NIS_def)

end
