(* ===== verification/P30_Lists.thy ===== *)
theory P30_Lists
  imports P30_Runs
begin

text \<open>
  The operations on match entries and descriptors as operations on lists: the linked lists of
  an interface are abstracted to one list per portal, and the requests insert into and remove
  from these lists.
\<close>

section \<open>Abstract lists\<close>

fun insert_pos :: "ptl_ins_pos \<Rightarrow> nat \<Rightarrow> nat \<Rightarrow> nat list \<Rightarrow> nat list" where
  "insert_pos pos obj new [] = []"
| "insert_pos pos obj new (x # xs) =
     (if x = obj then (if pos = PTL_INS_AFTER then x # new # xs else new # x # xs)
      else x # insert_pos pos obj new xs)"

lemma insert_pos_other: "obj \<notin> set xs \<Longrightarrow> insert_pos pos obj new xs = xs"
  by (induction xs) auto

lemma insert_pos_append:
  "obj \<notin> set as \<Longrightarrow> insert_pos pos obj new (as @ obj # bs) =
     as @ (if pos = PTL_INS_AFTER then obj # new # bs else new # obj # bs)"
  by (induction as) auto

lemma remove1_insert_pos: "new \<notin> set xs \<Longrightarrow> new \<noteq> obj \<Longrightarrow> remove1 new (insert_pos pos obj new xs) = xs"
  by (induction xs) (auto simp: remove1_idem)

text \<open>The match lists of an interface, one for each portal.\<close>

definition match_lists :: "lib_ni \<Rightarrow> (nat \<Rightarrow> nat list) \<Rightarrow> bool" where
  "match_lists ni L \<longleftrightarrow> (\<forall>p\<in>portals ni. list_at (ni_me_links ni) p (L p))"

lemma match_lists_exist: "ni_inv ni \<Longrightarrow> \<exists>L. match_lists ni L"
proof -
  assume "ni_inv ni"
  then have "wf_links (used_mes ni) (portals ni) (ni_me_links ni)" by (simp add: ni_inv_def)
  then have "\<forall>p\<in>portals ni. \<exists>xs. list_at (ni_me_links ni) p xs"
    using list_at_exists [OF _ me_pool.used_finite] by blast
  then show ?thesis unfolding match_lists_def by (rule bchoice)
qed

lemma match_lists_unlink:
  assumes wf: "wf_links us (portals ni) (ni_me_links ni)" and obj: "obj \<in> us" and L: "match_lists ni L"
    and p: "p \<in> portals ni"
  shows "list_at (lib_unlink obj (ni_me_links ni)) p (remove1 obj (L p))"
proof (cases "obj \<in> set (L p)")
  case True
  from L p have l: "list_at (ni_me_links ni) p (L p)" by (simp add: match_lists_def)
  from True obtain as bs where ab: "L p = as @ obj # bs" by (meson split_list)
  then have "obj \<notin> set as" using list_at_distinct [OF l] by simp
  then have "remove1 obj (L p) = as @ bs" by (simp add: ab remove1_append)
  with list_at_unlink [OF wf p, of as obj bs] l show ?thesis by (simp add: ab)
next
  case False
  with list_at_other_unlink [OF wf obj p _ False] L p show ?thesis
    by (simp add: match_lists_def remove1_idem)
qed

lemma match_lists_insert:
  assumes wf: "wf_links us (portals ni) (ni_me_links ni)" and obj: "obj \<in> us" "new \<notin> us" and L: "match_lists ni L"
    and p: "p \<in> portals ni"
  shows "list_at (lib_insert obj new pos (ni_me_links ni)) p (insert_pos pos obj new (L p))"
proof -
  from L p have l: "list_at (ni_me_links ni) p (L p)" by (simp add: match_lists_def)
  show ?thesis
  proof (cases "obj \<in> set (L p)")
    case True
    then obtain as bs where ab: "L p = as @ obj # bs" by (meson split_list)
    then have "obj \<notin> set as" using list_at_distinct [OF l] by simp
    then show ?thesis
      using list_at_insert_after [OF wf p, of as obj bs new] list_at_insert_before [OF wf p, of as obj bs new] l obj
      by (cases pos) (simp_all add: ab insert_pos_append)
  next
    case False
    with list_at_other_insert [OF wf obj(1) p l False obj(2)] show ?thesis by (simp add: insert_pos_other)
  qed
qed

section \<open>The operations\<close>

lemma me_handle:
  assumes "pool_inv MAX_MES (ni_me_pool ni)" "pool_alloc (ni_me_pool ni) = Some (new, p)"
  shows "h_index (int new OR h_ni h) = int new" "new \<notin> used_mes ni" "me_pool.used p = insert new (used_mes ni)"
proof -
  have "new < MAX_MES" using me_pool.alloc_Some [OF assms] by blast
  then show "h_index (int new OR h_ni h) = int new" by (intro h_index_of_handle) (simp_all add: MAX_MES_def)
  show "new \<notin> used_mes ni" "me_pool.used p = insert new (used_mes ni)"
    using me_pool.used_alloc_fresh [OF assms] me_pool.used_alloc [OF assms] by simp_all
qed

lemma me_insert_lists:
  assumes inv: "ni_inv ni" and L: "match_lists ni L"
    and op: "do_PtlMEInsert h i mb ib u pos ni = Some ((PTL_OK, Some h'), ni')"
  shows "\<exists>new. h_index h' = int new \<and> new \<notin> used_mes ni \<and> used_mes ni' = insert new (used_mes ni) \<and>
    nat (h_index h) \<in> used_mes ni \<and> portals ni' = portals ni \<and>
    match_lists ni' (\<lambda>p. insert_pos pos (nat (h_index h)) new (L p)) \<and>
    ni_me ni' new = me_of i mb ib u \<and> heads (ni_md_links ni') new = None \<and> used_mds ni' = used_mds ni"
  using inv
proof (cases rule: do_PtlMEInsert_cases [of ni h i mb ib u pos])
  case (ok me new p)
  have pinv: "pool_inv MAX_MES (ni_me_pool ni)" and wf: "wf_links (used_mes ni) (portals ni) (ni_me_links ni)"
    using inv by (simp_all add: ni_inv_def)
  note new = me_handle [OF pinv ok(3)]
  have ni': "ni' = ni\<lparr>ni_me_pool := p, ni_me := (ni_me ni)(new := me_of i mb ib u),
       ni_me_links := lib_insert me new pos (ni_me_links ni),
       ni_md_links := cell_set (Head new) None (ni_md_links ni)\<rparr>" and h': "h' = int new OR h_ni h"
    using op ok(4) by simp_all
  have "match_lists ni' (\<lambda>p. insert_pos pos me new (L p))"
    using match_lists_insert [OF wf ok(2) new(2) L] by (simp add: match_lists_def ni' portals_def)
  then show ?thesis
    using new ok(1,2) by (intro exI [of _ new]) (simp add: h' ni' portals_def)
qed (use op in auto)

lemma fold_md_unlink_tbl: "ni_tbl_size (fold lib_md_unlink mds ni) = ni_tbl_size ni"
  by (induction mds arbitrary: ni) simp_all

lemma me_unlink_lists:
  assumes inv: "ni_inv ni" and L: "match_lists ni L" and me: "me = nat (h_index h)" "me \<in> used_mes ni"
    and mds: "list_at (ni_md_links ni) me mds"
  shows "\<exists>ni'. do_PtlMEUnlink h ni = Some (PTL_OK, ni') \<and> used_mes ni' = used_mes ni - {me} \<and>
    used_mds ni' = used_mds ni - set mds \<and> portals ni' = portals ni \<and>
    match_lists ni' (\<lambda>p. remove1 me (L p))"
proof -
  have wf: "wf_links (used_mes ni) (portals ni) (ni_me_links ni)" using inv by (simp add: ni_inv_def)
  obtain mds' where mds': "list_at (ni_md_links ni) me mds'" "lib_me_unlink me ni = Some (lib_me_free me (fold lib_md_unlink mds'
       (ni\<lparr>ni_me_links := lib_unlink me (ni_me_links ni)\<rparr>)))"
    by (rule lib_me_unlink_spec [OF inv me(2)])
  obtain ni' where ni': "lib_me_unlink me ni = Some ni'" "used_mes ni' = used_mes ni - {me}"
    "used_mds ni' = {m \<in> used_mds ni. \<not> (\<exists>mds. list_at (ni_md_links ni) me mds \<and> m \<in> set mds)}"
    by (rule lib_me_unlink_total [OF inv me(2)])
  have "list_at (ni_md_links ni) me xs \<longleftrightarrow> xs = mds" for xs using mds list_at_unique by blast
  then have "used_mds ni' = used_mds ni - set mds" using ni'(3) by auto
  moreover have "ni_me_links ni' = lib_unlink me (ni_me_links ni)" "portals ni' = portals ni"
    using mds'(2) ni'(1) by (auto simp: lib_me_free_def fold_md_unlink_sel fold_md_unlink_tbl portals_def)
  then have "match_lists ni' (\<lambda>p. remove1 me (L p))" "portals ni' = portals ni"
    using match_lists_unlink [OF wf me(2) L] by (simp_all add: match_lists_def)
  moreover have "do_PtlMEUnlink h ni = Some (PTL_OK, ni')"
    using me ni'(1) iffD2 [OF bad_me_False, of h ni] by (simp add: do_PtlMEUnlink_def Let_def)
  ultimately show ?thesis using ni'(2) by blast
qed

text \<open>What \<open>PtlMDUnlink\<close> reports of a descriptor that was attached and not used since.\<close>

definition md_status :: "ptl_md \<Rightarrow> ptl_md" where
  "md_status md = md\<lparr>pm_eventq := (if pm_eventq md = PTL_EQ_NONE then PTL_EQ_NONE else h_index (pm_eventq md))\<rparr>"

lemma md_attach_unlink:
  assumes inv: "ni_inv ni" and op: "do_PtlMDAttach_internal cb h md u ni = Some ((PTL_OK, Some h'), ni1)"
  shows "\<exists>ni2. do_PtlMDUnlink_internal h' ni1 = Some ((PTL_OK, Some (md_status md)), ni2) \<and>
    used_mds ni2 = used_mds ni \<and> nat (h_index h') \<notin> used_mds ni \<and>
    (\<forall>e\<in>used_mes ni. \<forall>mds. list_at (ni_md_links ni) e mds \<longrightarrow> list_at (ni_md_links ni2) e mds)"
proof (cases rule: do_PtlMDAttach_internal_cases [of cb h md u ni])
  case (ok me new p eq cs addrkey)
  have pinv: "pool_inv MAX_MDS (ni_md_pool ni)" and wf: "wf_links (used_mds ni) (used_mes ni) (ni_md_links ni)"
    using inv by (simp_all add: ni_inv_def)
  have lt: "new < MAX_MDS" and fresh: "new \<notin> used_mds ni" and used: "md_pool.used p = insert new (used_mds ni)"
    and pinv1: "pool_inv MAX_MDS p"
    using md_pool.alloc_Some [OF pinv ok(4)] md_pool.used_alloc_fresh [OF pinv ok(4)] md_pool.used_alloc [OF pinv ok(4)]
    by simp_all
  have h': "h_index h' = int new"
    using op ok(6) lt h_index_of_handle [of "int new" h] by (simp add: MAX_MDS_def)
  have ni1: "ni1 = ni\<lparr>ni_trace := cs, ni_md_pool := p,
      ni_md := (ni_md ni)(new := (md_of md eq addrkey)\<lparr>md_unlink := u, md_me := Some me\<rparr>),
      ni_md_links := link_head me new (ni_md_links ni)\<rparr>" using op ok(6) by simp
  have wf1: "wf_links (insert new (used_mds ni)) (used_mes ni) (link_head me new (ni_md_links ni))"
    using wf fresh ok(2,3) by (rule wf_link_head)
  have eqs: "(case eq of None \<Rightarrow> PTL_EQ_NONE | Some e \<Rightarrow> int e) =
      (if pm_eventq md = PTL_EQ_NONE then PTL_EQ_NONE else h_index (pm_eventq md))"
    using ok(5) by (auto simp: md_build_eq_Inr)
  have status: "lib_md_deconstruct new ni1 = md_status md"
    unfolding ni1 by (cases md) (use eqs in \<open>simp add: lib_md_deconstruct_def md_status_def md_of_def split: option.splits\<close>)
  have "nat (h_index h') \<in> used_mds ni1" using used by (simp add: h' ni1)
  then have "bad_md ni1 (h_index h') = Some False" by (rule iffD2 [OF bad_md_False])
  then have un: "do_PtlMDUnlink_internal h' ni1 = Some ((PTL_OK, Some (md_status md)), lib_md_unlink new ni1)"
    by (simp add: do_PtlMDUnlink_internal_def h' status Let_def)
  have lists: "list_at (ni_md_links (lib_md_unlink new ni1)) e mds"
    if "e \<in> used_mes ni" "list_at (ni_md_links ni) e mds" for e mds
  proof (cases "e = me")
    case True
    with ok(3) that(2) have "mds = []" using list_at_unique by fastforce
    with list_at_unlink [OF wf1 ok(2), of "[]" new "[]"] list_at_link_head [OF wf fresh, of me] True show ?thesis
      by (simp add: ni1)
  next
    case False
    have "new \<notin> set mds" using list_at_subset [OF wf that(2,1)] fresh by blast
    with list_at_other_unlink [OF wf1 _ that(1) list_at_other_head [OF wf fresh that(1) False that(2)]]
    show ?thesis by (simp add: ni1)
  qed
  have "used_mds (lib_md_unlink new ni1) = used_mds ni"
    using md_pool.used_free [OF pinv1 lt] used fresh by (simp add: ni1)
  with un lists fresh show ?thesis by (auto simp: h')
qed (use op in \<open>auto simp: PTL_OK_def\<close>)

section \<open>The example interface\<close>

definition demo_lists :: "nat \<Rightarrow> nat list" where
  "demo_lists p = (if p = 4 then [4095] else [])"

lemma demo_reach: "reachable demo_cb demo_me_ni" "reachable demo_cb demo_eq_ni"
  using demo_reachable demo_step by (blast intro: reachable.step)+

lemmas demo_invs = demo_reach [THEN reachable_inv]

lemma demo_match_lists: "match_lists demo_me_ni demo_lists" "match_lists demo_md_ni demo_lists"
  by (simp_all add: match_lists_def demo_lists_def demo_me_sel demo_md_sel list_at_def link_head_def demo_ni_sel)

lemma demo_insert:
  "\<exists>ni'. do_PtlMEInsert 4095 any_id 6 0 PTL_RETAIN PTL_INS_AFTER demo_me_ni = Some ((PTL_OK, Some 4094), ni')"
proof -
  have "free_head (ni_me_pool demo_me_ni) = next_free (ni_me_pool demo_ni) 4095"
    by (simp add: demo_me_ni_def do_PtlMEAttach_def lib_me_alloc_def pool_alloc_def demo_ni_sel upd_me_def Let_def)
  also have "\<dots> = FObj 4094"
    by (simp add: demo_ni_def lib_init_def lib_init_alloc_def lib_malloc_def Let_def demo_cb_def
        NULL_PTR_def demo_raw_def pool_init_eq nal_call_def MAX_MES_def)
  finally show ?thesis
    by (simp add: do_PtlMEInsert_def bad_index_def inuse_at_def pool_inuse_def demo_me_sel MAX_MES_def
        lib_me_alloc_def pool_alloc_def h_ni_def Let_def)
qed

lemma demo_used: "4095 \<in> used_mes demo_me_ni" "4095 \<in> used_mes demo_md_ni"
  unfolding me_pool.used_def by (simp_all add: demo_me_sel demo_md_sel pool_inuse_def MAX_MES_def)

section \<open>Properties\<close>

text \<open>
  C14: inserting a match entry refines insertion into a list: the new entry, which was not
  in use, comes directly before or after the given one in the match list that contains it,
  every other match list is unchanged, and the entry has the given criteria and no descriptor.
\<close>

theorem me_insert_refines:
  assumes "ni_inv ni" "match_lists ni L"
    and "do_PtlMEInsert h i mb ib u pos ni = Some ((PTL_OK, Some h'), ni')"
  shows "\<exists>new. h_index h' = int new \<and> new \<notin> used_mes ni \<and> used_mes ni' = insert new (used_mes ni) \<and>
    match_lists ni' (\<lambda>p. insert_pos pos (nat (h_index h)) new (L p)) \<and>
    ni_me ni' new = me_of i mb ib u \<and> heads (ni_md_links ni') new = None"
  using me_insert_lists [OF assms] by blast

theorem me_insert_refines_witness:
  "\<exists>ni'. do_PtlMEInsert 4095 any_id 6 0 PTL_RETAIN PTL_INS_AFTER demo_me_ni = Some ((PTL_OK, Some 4094), ni') \<and>
     match_lists ni' (\<lambda>p. insert_pos PTL_INS_AFTER 4095 4094 (demo_lists p))"
proof -
  from demo_insert obtain ni' where
    ni': "do_PtlMEInsert 4095 any_id 6 0 PTL_RETAIN PTL_INS_AFTER demo_me_ni = Some ((PTL_OK, Some 4094), ni')" by blast
  from me_insert_refines [OF demo_invs(1) demo_match_lists(1) ni'] ni' show ?thesis by (auto simp: h_index_mod)
qed

text \<open>
  C15: unlinking a match entry in use returns, removes the entry from its match list and
  leaves the others alone, and frees the entry and exactly the descriptors on its list.
\<close>

theorem me_unlink_refines:
  assumes "ni_inv ni" "match_lists ni L" "nat (h_index h) \<in> used_mes ni"
    and "list_at (ni_md_links ni) (nat (h_index h)) mds"
  shows "\<exists>ni'. do_PtlMEUnlink h ni = Some (PTL_OK, ni') \<and> used_mes ni' = used_mes ni - {nat (h_index h)} \<and>
    used_mds ni' = used_mds ni - set mds \<and> match_lists ni' (\<lambda>p. remove1 (nat (h_index h)) (L p))"
  using me_unlink_lists [OF assms(1,2) refl assms(3,4)] by blast

theorem me_unlink_refines_witness:
  "\<exists>ni'. do_PtlMEUnlink 4095 demo_md_ni = Some (PTL_OK, ni') \<and> used_mds ni' = used_mds demo_md_ni - {4095} \<and>
     match_lists ni' (\<lambda>p. remove1 4095 (demo_lists p))"
  using me_unlink_refines [OF demo_md_inv demo_match_lists(2), of 4095 "[4095]"] demo_used(2)
  by (auto simp: list_at_def demo_md_sel)

text \<open>
  Unlinking the entry that an insertion returned gives back the same match lists, the
  same entries in use and the same descriptors in use.
\<close>

theorem me_insert_unlink:
  assumes inv: "ni_inv ni" and L: "match_lists ni L"
    and op: "do_PtlMEInsert h i mb ib u pos ni = Some ((PTL_OK, Some h'), ni1)"
  shows "\<exists>ni2. do_PtlMEUnlink h' ni1 = Some (PTL_OK, ni2) \<and> match_lists ni2 L \<and> used_mes ni2 = used_mes ni \<and>
    used_mds ni2 = used_mds ni"
proof -
  from me_insert_lists [OF assms] obtain new where new: "h_index h' = int new" "new \<notin> used_mes ni"
    "used_mes ni1 = insert new (used_mes ni)" "nat (h_index h) \<in> used_mes ni" "portals ni1 = portals ni"
    "match_lists ni1 (\<lambda>p. insert_pos pos (nat (h_index h)) new (L p))" "heads (ni_md_links ni1) new = None"
    "used_mds ni1 = used_mds ni" by blast
  have inv1: "ni_inv ni1" using do_PtlMEInsert_inv [OF inv op] .
  have me: "new = nat (h_index h')" "new \<in> used_mes ni1" using new(1,3) by simp_all
  from me_unlink_lists [OF inv1 new(6) me, of "[]"] new obtain ni2 where
    ni2: "do_PtlMEUnlink h' ni1 = Some (PTL_OK, ni2)" "used_mes ni2 = used_mes ni1 - {new}"
      "used_mds ni2 = used_mds ni1" "portals ni2 = portals ni"
      "match_lists ni2 (\<lambda>p. remove1 new (insert_pos pos (nat (h_index h)) new (L p)))" by auto
  have "new \<noteq> nat (h_index h)" using new(2,4) by blast
  moreover have "new \<notin> set (L p)" if "p \<in> portals ni" for p
  proof -
    have "wf_links (used_mes ni) (portals ni) (ni_me_links ni)" using inv by (simp add: ni_inv_def)
    from list_at_subset [OF this _ that] L that new(2) show ?thesis by (auto simp: match_lists_def)
  qed
  ultimately have "match_lists ni2 L" using ni2(4,5) by (simp add: match_lists_def remove1_insert_pos)
  with ni2 new show ?thesis by auto
qed

theorem me_insert_unlink_witness:
  "\<exists>ni1 ni2. do_PtlMEInsert 4095 any_id 6 0 PTL_RETAIN PTL_INS_AFTER demo_me_ni = Some ((PTL_OK, Some 4094), ni1) \<and>
     do_PtlMEUnlink 4094 ni1 = Some (PTL_OK, ni2) \<and> match_lists ni2 demo_lists"
proof -
  from demo_insert obtain ni1 where
    ni1: "do_PtlMEInsert 4095 any_id 6 0 PTL_RETAIN PTL_INS_AFTER demo_me_ni = Some ((PTL_OK, Some 4094), ni1)" by blast
  from me_insert_unlink [OF demo_invs(1) demo_match_lists(1) ni1] ni1 show ?thesis by blast
qed

text \<open>
  C23: a descriptor that was attached and is unlinked again reports exactly what was
  attached, with the queue's handle reduced to its index, and leaves every list of descriptors
  and the set of descriptors in use as they were.
\<close>

theorem md_attach_unlink_round_trip:
  assumes "ni_inv ni" "do_PtlMDAttach_internal cb h md u ni = Some ((PTL_OK, Some h'), ni1)"
  shows "\<exists>ni2. do_PtlMDUnlink_internal h' ni1 = Some ((PTL_OK, Some (md_status md)), ni2) \<and>
    used_mds ni2 = used_mds ni \<and>
    (\<forall>e\<in>used_mes ni. \<forall>mds. list_at (ni_md_links ni) e mds \<longrightarrow> list_at (ni_md_links ni2) e mds)"
  using md_attach_unlink [OF assms] by blast

theorem md_attach_unlink_round_trip_witness:
  "\<exists>ni2. do_PtlMDUnlink_internal 4095 demo_md_ni = Some ((PTL_OK, Some (demo_md\<lparr>pm_eventq := 4095\<rparr>)), ni2) \<and>
     used_mds ni2 = used_mds demo_eq_ni"
  using md_attach_unlink_round_trip [OF demo_invs(2) demo_md_attach]
  by (auto simp: md_status_def PTL_EQ_NONE_def)

end
