(* ===== verification/P30_Calls.thy ===== *)
theory P30_Calls
  imports P30_Events P30_Lists
begin

text \<open>
  Initialisation and its failures, updates of descriptors, and the calls of the application
  through the network layer to the library and back.
\<close>

section \<open>Memory of the interface\<close>

text \<open>
  The blocks that a sequence of calls got from the network layer's allocator, in order, and the
  blocks it gave back.
\<close>

fun allocs :: "nal_cb \<Rightarrow> nal_call list \<Rightarrow> nal_call list \<Rightarrow> user_ptr list" where
  "allocs cb t [] = []"
| "allocs cb t (c # cs) =
     (case c of
        CB_MALLOC n \<Rightarrow> (let p = cb_malloc cb t n in if p = NULL_PTR then [] else [p])
      | _ \<Rightarrow> []) @ allocs cb (t @ [c]) cs"

fun frees :: "nal_call list \<Rightarrow> user_ptr list" where
  "frees [] = []"
| "frees (c # cs) = (case c of CB_FREE p \<Rightarrow> [p] | _ \<Rightarrow> []) @ frees cs"

lemma lib_init_alloc_blocks:
  assumes "lib_init_alloc cb n ni = (ok, ni')"
  shows "\<exists>cs. ni_trace ni' = ni_trace ni @ cs \<and>
    (if ok then frees cs = [] \<and> allocs cb (ni_trace ni) cs =
       [ni_tbl_ptr ni', ni_eq_ptr ni', ni_me_ptr ni', ni_md_ptr ni', ni_msg_ptr ni']
     else frees cs = rev (allocs cb (ni_trace ni) cs))"
  using assms
  by (auto simp: lib_init_alloc_def lib_malloc_def nal_call_def Let_def split: if_splits)

section \<open>Properties of the library\<close>

text \<open>
  C22: initialisation either succeeds, with five blocks allocated and none freed, or
  reports that there is no space and has given back every block it got, in the reverse order.
\<close>

theorem lib_init_no_leak:
  "\<exists>cs. ni_trace (snd (lib_init cb nid pid rid gid gsize ptl_size ni)) = ni_trace ni @ cs \<and>
    (fst (lib_init cb nid pid rid gid gsize ptl_size ni) = PTL_OK \<and> frees cs = [] \<and>
       length (allocs cb (ni_trace ni) cs) = 5 \<and> NULL_PTR \<notin> set (allocs cb (ni_trace ni) cs) \<or>
     fst (lib_init cb nid pid rid gid gsize ptl_size ni) = PTL_NOSPACE \<and>
       frees cs = rev (allocs cb (ni_trace ni) cs))"
proof -
  have null: "NULL_PTR \<notin> set (allocs cb t cs)" for t cs
    by (induction cs arbitrary: t) (auto simp: Let_def split: nal_call.splits)
  let ?ni1 = "ni\<lparr>ni_counters := zero_counters, ni_nid := nid, ni_rid := rid, ni_gid := gid,
                   ni_pid := pid, ni_num_nodes := gsize, ni_tbl_size := ptl_size\<rparr>"
  obtain ok ni2 where a: "lib_init_alloc cb ptl_size ?ni1 = (ok, ni2)" by (cases "lib_init_alloc cb ptl_size ?ni1")
  have tr: "ni_trace ?ni1 = ni_trace ni" by simp
  from lib_init_alloc_blocks [OF a, unfolded tr] obtain cs where cs: "ni_trace ni2 = ni_trace ni @ cs"
    "if ok then frees cs = [] \<and> allocs cb (ni_trace ni) cs =
       [ni_tbl_ptr ni2, ni_eq_ptr ni2, ni_me_ptr ni2, ni_md_ptr ni2, ni_msg_ptr ni2]
     else frees cs = rev (allocs cb (ni_trace ni) cs)" by blast
  show ?thesis
    using cs null [of "ni_trace ni" cs] a by (intro exI [of _ cs]) (cases ok, simp_all add: lib_init_def Let_def)
qed

text \<open>
  C24: the update of a descriptor is conditional on the queue it names.  When events of
  that queue are pending or its number is not the expected one, the code says so and nothing
  changes; no call of the network layer is made, so the new region is not invalidated.
  Otherwise, when the new region starts elsewhere or is longer, the old one is
  invalidated and then the new one validated; if this fails only these two calls have
  happened, and the descriptor still describes the region that was invalidated.  In the
  remaining cases the descriptor gets the new values, the new key if the region was validated
  again, and the new queue if its handle is that of a queue in use.
\<close>

theorem md_update_conditional:
  assumes md: "md = nat (h_index h)" "md \<in> used_mds ni" "m = ni_md ni md"
    and q: "testq \<noteq> PTL_EQ_NONE" "h_index testq < int MAX_EQS" "q = ni_eq ni (nat (h_index testq))"
    and evq: "pm_eventq new \<noteq> int MAX_EQS"
    and val: "cb_validate cb (ni_trace ni @ [CB_INVALIDATE (md_start m) (size_t (md_length m)) (md_addrkey m)])
      (pm_start new) (size_t (pm_length new)) = (rc, key)"
    and old: "old = lib_md_deconstruct md ni"
    and moved: "moved \<longleftrightarrow> pm_start new \<noteq> md_start m \<or> md_length m < pm_length new"
    and tried: "ni1 = (if moved then ni\<lparr>ni_trace := ni_trace ni @ [CB_INVALIDATE (md_start m) (size_t (md_length m)) (md_addrkey m),
      CB_VALIDATE (pm_start new) (size_t (pm_length new))]\<rparr> else ni)"
  shows "do_PtlMDUpdate_internal cb h True (Some new) testq seq ni =
    (if eq_pending q \<noteq> 0 \<or> eq_sequence q \<noteq> seq then Some ((PTL_NOUPDATE, Some old), ni)
     else if moved \<and> rc < 0 then Some ((PTL_VAL_FAILED, Some old), ni1)
     else Some ((PTL_OK, Some old), upd_md md (\<lambda>m. m\<lparr>md_addrkey := (if moved then key else md_addrkey m),
       md_start := pm_start new, md_length := pm_length new, md_threshold := pm_threshold new,
       md_max_offset := pm_max_offset new, md_options := pm_options new, md_user_ptr := pm_user_ptr new,
       md_eq := (if 0 \<le> pm_eventq new \<and> nat (pm_eventq new) \<in> used_eqs ni then Some (nat (pm_eventq new)) else None)\<rparr>) ni1))"
proof -
  have bad: "bad_md ni (h_index h) = Some False" using md iffD2 [OF bad_md_False, of h ni] by simp
  have use: "pool_inuse (ni_md_pool ni) md" using md(2) by (simp add: md_pool.used_def)
  have t: "md_update_testq testq md ni = Inr (Some (h_index testq))"
    using q use by (simp add: md_update_testq_def)
  have r: "md_update_ready (Some (h_index testq)) seq ni = Some (eq_pending q = 0 \<and> eq_sequence q = seq)"
    using q by (simp add: md_update_ready_def eq_at_def)
  have v: "md_update_validate cb new md ni = (\<not> (moved \<and> rc < 0),
      if moved \<and> \<not> rc < 0 then upd_md md (\<lambda>m. m\<lparr>md_addrkey := key\<rparr>) ni1 else ni1)"
    using val md(3) unfolding md_update_validate_def Let_def md(3) [symmetric] moved [symmetric]
    by (simp add: tried nal_call_def)
  have e: "md_update_eq new n = Some (if 0 \<le> pm_eventq new \<and> nat (pm_eventq new) \<in> used_eqs ni then Some (nat (pm_eventq new)) else None)"
    if "ni_eq_pool n = ni_eq_pool ni" for n
    using evq that by (auto simp: md_update_eq_def inuse_at_def eq_pool.used_def)
  have "ni_eq_pool ni1 = ni_eq_pool ni" by (simp add: tried)
  then show ?thesis
    unfolding do_PtlMDUpdate_internal_def Let_def md(1) [symmetric]
    using bad t r v e [of ni1] e [of "upd_md md (\<lambda>m. m\<lparr>md_addrkey := key\<rparr>) ni1"] old
    by (simp add: upd_md_def)
qed

theorem md_update_conditional_witness:
  "(\<exists>ni'. do_PtlMDUpdate_internal demo_cb 4095 True (Some (demo_md\<lparr>pm_start := 0x30000\<rparr>)) 4095 1 demo_md_ni =
     Some ((PTL_OK, Some (lib_md_deconstruct 4095 demo_md_ni)), ni') \<and> md_start (ni_md ni' 4095) = 0x30000) \<and>
   do_PtlMDUpdate_internal demo_cb 4095 True (Some (demo_md\<lparr>pm_start := 0x30000\<rparr>)) 4095 2 demo_md_ni =
     Some ((PTL_NOUPDATE, Some (lib_md_deconstruct 4095 demo_md_ni)), demo_md_ni)"
proof -
  have cb: "cb_validate demo_cb t a n = (0, 0)" for t a n by (simp add: demo_cb_def)
  note upd = md_update_conditional [of 4095 4095 demo_md_ni _ 4095 _ "demo_md\<lparr>pm_start := 0x30000\<rparr>", OF _ demo_md_used refl _ _ refl _ cb refl refl refl]
  from upd [of 1] upd [of 2] show ?thesis
    by (simp add: demo_md_sel demo_eq_sel demo_md_def PTL_EQ_NONE_def MAX_EQS_def upd_md_def)
qed

text \<open>
  When the network layer has no distance for a node, or cannot translate a group id,
  \<open>do_PtlNIDist\<close> returns without writing the code of its return block, so the call of the
  application returns a code that was never set.
\<close>

theorem ni_dist_code_unwritten:
  assumes "addr_kind i \<noteq> PTL_ADDR_GID" "cb_dist cb (id_nid i) = (rc, d)" "rc \<noteq> 0"
  shows "do_PtlNIDist cb i ni = (None, MAX_DIST) \<and>
    Option.bind (dispatch_fun cb (NIDist_in i) ni) (\<lambda>(ret, _). ret_rc ret) = None"
  using assms by (simp add: do_PtlNIDist_def Let_def split: prod.split)

theorem ni_dist_code_unwritten_witness:
  "do_PtlNIDist (demo_cb\<lparr>cb_dist := (\<lambda>_. (-1, 0))\<rparr>) demo_id demo_ni = (None, MAX_DIST)"
  using ni_dist_code_unwritten [of demo_id "demo_cb\<lparr>cb_dist := (\<lambda>_. (-1, 0))\<rparr>" "-1" 0 demo_ni]
  by (simp add: demo_id_def)

section \<open>Calls of the application\<close>

text \<open>
  What the API relies on: the network layer's \<open>forward\<close> hands a request to the dispatch
  function of the library and copies the return block back.
\<close>

definition forwards :: "lib_ni nal \<Rightarrow> nal_cb \<Rightarrow> bool" where
  "forwards N cb \<longleftrightarrow> (\<forall>n idx args w ret w'. lib_dispatch cb idx args w = Some (ret, w') \<longrightarrow>
     nal_forward N n idx args w = (ret, w'))"

text \<open>A network layer in the process itself, which calls the library directly.\<close>

definition direct_nal :: "nal_cb \<Rightarrow> user_ptr \<Rightarrow> lib_ni nal" where
  "direct_nal cb buf = \<lparr>nal_forward = (\<lambda>n idx args w.
       (case lib_dispatch cb idx args w of None \<Rightarrow> (None, w) | Some (ret, w') \<Rightarrow> (ret, w'))),
     nal_validate = (\<lambda>_ _ _ w. (0, w)), nal_malloc = (\<lambda>_ _. buf)\<rparr>"

lemma direct_nal_forwards: "forwards (direct_nal cb buf) cb"
  by (simp add: forwards_def direct_nal_def)

lemma api_call_forwards:
  assumes "forwards N cb" "api_init st" "iface st h = Some (Some n)"
    and "dispatch_fun cb args (api_world st) = Some (ret, ni')" "ret_rc ret = Some rc"
    and index: "index = dispatch_index args"
  shows "api_call N c index h args st = Some ((rc, Some ret), st\<lparr>api_world := ni'\<rparr>)"
proof -
  have "nal_forward N n (dispatch_index args) args (api_world st) = (Some ret, ni')"
    using assms(1,4) by (simp add: forwards_def lib_dispatch_index)
  with assms(2,3,5) index show ?thesis by (simp add: api_call_def)
qed




definition demo_process :: "lib_ni api" where
  "demo_process = \<lparr>api_init = True, api_p30_initialized = True, api_ifs = (\<lambda>i. if i = 0 then Some 0 else None),
     api_num = 1, api_eqs = (\<lambda>_ _. \<lparr>peq_inuse = False, peq_sequence = 0, peq_size = 0, peq_base = 0\<rparr>),
     api_mem = (\<lambda>_. demo_event), api_world = demo_md_ni\<rparr>"



section \<open>Event queues\<close>

text \<open>
  C16: allocating an event queue sets up both of its ends: the application's queue
  has read nothing, the library's queue has written nothing, they agree on the buffer and its
  size, and the buffer is an empty ring.
\<close>

theorem eq_alloc_agrees:
  assumes N: "forwards N cb" "\<forall>n a l w. nal_validate N n a l w = (0, w)" "\<forall>l w. nal_malloc N l w = buf"
      "buf \<noteq> NULL_PTR"
    and st: "api_init st" "api_ifs st 0 = Some nal" "ni_inv (api_world st)"
    and free: "card (used_eqs (api_world st)) < MAX_EQS"
      "\<forall>i. peq_inuse (api_eqs st nal i) \<longrightarrow> i \<in> used_eqs (api_world st)"
    and n: "0 < n" "n < 2 ^ 31"
  shows "\<exists>h st'. PtlEQAlloc N 0 (int n) st = Some ((PTL_OK, Some h), st') \<and>
    reader st' h buf n 0 \<and> ring buf n [] (api_mem st') \<and> queue_at (api_world st') (nat (h_index h)) buf n 0"
proof -
  let ?ni = "api_world st" and ?st1 = "st\<lparr>api_mem := clear_events buf (int n) (api_mem st)\<rparr>"
  have if0: "iface st 0 = Some (Some nal)" "iface ?st1 0 = Some (Some nal)"
    using st(2) by (simp_all add: iface_def MAX_NIS_def)
  have pinv: "pool_inv MAX_EQS (ni_eq_pool ?ni)" using st(3) by (simp add: ni_inv_def)
  from eq_pool.alloc_succeeds [OF pinv free(1)] obtain q p where
    q: "pool_alloc (ni_eq_pool ?ni) = Some (q, p)" by blast
  have fresh: "q \<notin> used_eqs ?ni" and lt: "q < MAX_EQS"
    using eq_pool.used_alloc_fresh [OF pinv q] pool_alloc_Some [OF pinv q] by simp_all
  then have unused: "\<not> peq_inuse (api_eqs st nal q)" using free(2) by blast
  define ni' where "ni' = ?ni\<lparr>ni_eq_pool := p, ni_eq := (ni_eq ?ni)(q :=
     \<lparr>eq_sequence = 1, eq_size = int n, eq_base = buf, eq_pending = 0\<rparr>)\<rparr>"
  have alloc: "do_PtlEQAlloc_internal 0 (int n) buf ?ni = ((PTL_OK, Some (int q)), ni')"
    using q by (simp add: do_PtlEQAlloc_internal_def lib_eq_alloc_def upd_eq_def h_ni_def ni'_def)
  have call: "PtlEQAlloc_internal N 0 (int n) buf ?st1 =
      Some ((PTL_OK, Some (Handle_out PTL_OK (Some (int q)))), ?st1\<lparr>api_world := ni'\<rparr>)"
    unfolding PtlEQAlloc_internal_def
    by (rule api_call_forwards [OF N(1) _ if0(2)]) (use st(1) alloc in simp_all)
  have hi: "h_index (int q) = int q" using lt by (simp add: h_index_mod MAX_EQS_def)
  have bad: "bad_peq (?st1\<lparr>api_world := ni'\<rparr>) nal (int q) = Some True"
    using lt unused by (simp add: bad_peq_def peq_at_def)
  let ?st' = "set_peq nal q (\<lambda>_. \<lparr>peq_inuse = True, peq_sequence = 1, peq_size = int n, peq_base = buf\<rparr>)
    (?st1\<lparr>api_world := ni'\<rparr>)"
  have "PtlEQAlloc N 0 (int n) st = Some ((PTL_OK, Some (int q)), ?st')"
    using N(2-4) if0(1) call hi bad lt by (simp add: PtlEQAlloc_def PTL_OK_def)
  moreover have "reader ?st' (int q) buf n 0" using st(2) lt hi by (simp add: reader_def set_peq_def)
  moreover have "ring buf n [] (api_mem ?st')" using ring_empty [OF n] by (simp add: set_peq_def)
  moreover have "queue_at (api_world ?st') (nat (h_index (int q))) buf n 0"
    using hi by (simp add: queue_at_def set_peq_def ni'_def)
  ultimately show ?thesis by blast
qed

theorem eq_alloc_agrees_witness:
  "\<exists>h st'. PtlEQAlloc (direct_nal demo_cb 0x40000) 0 4 (demo_process\<lparr>api_world := demo_ni\<rparr>) =
      Some ((PTL_OK, Some h), st') \<and>
    reader st' h 0x40000 4 0 \<and> ring 0x40000 4 [] (api_mem st') \<and>
    queue_at (api_world st') (nat (h_index h)) 0x40000 4 0"
  using eq_alloc_agrees [OF direct_nal_forwards, where st = "demo_process\<lparr>api_world := demo_ni\<rparr>" and n = 4
      and buf = "0x40000" and nal = 0] lib_init_establishes [OF demo_init]
  by (simp add: direct_nal_def demo_process_def NULL_PTR_def MAX_EQS_def)

lemma eq_wait_loop_got:
  assumes "PtlEQGet eventq st = Some ((if b then PTL_OK else PTL_EQ_DROPPED, ev), st')"
  shows "\<exists>rc. rc \<in> {PTL_OK, PTL_EQ_DROPPED} \<and> eq_wait_loop yield eventq st = Some ((rc, ev), st')"
  using assms by (subst eq_wait_loop.simps) (simp add: PTL_OK_def PTL_EQ_DROPPED_def PTL_EQ_EMPTY_def)

text \<open>
  C17: waiting for an event ends once the library has delivered one.  When after \<open>k\<close>
  turns of the network layer there are more events in the ring than the reader has read, the
  wait returns an event that was in the ring after at most that many turns.
\<close>

theorem eq_wait_delivers:
  assumes n: "0 < n" "n < 2 ^ 31"
    and rd: "\<forall>i \<le> k. reader ((yield ^^ i) st) eventq base n c"
    and ring: "\<forall>i \<le> k. ring base n (es i) (api_mem ((yield ^^ i) st)) \<and> c \<le> length (es i) \<and>
      Suc (length (es i)) < 2 ^ 32"
    and "c < length (es k)"
  shows "\<exists>j rc st'. j \<le> k \<and> c < length (es j) \<and> rc \<in> {PTL_OK, PTL_EQ_DROPPED} \<and>
    PtlEQWait yield eventq st = Some ((rc, Some (es j ! (next_event n c (length (es j)) - 1))), st')"
proof -
  have loop: "\<exists>j rc st'. j \<le> k \<and> c < length (es j) \<and> rc \<in> {PTL_OK, PTL_EQ_DROPPED} \<and>
    eq_wait_loop yield eventq st = Some ((rc, Some (es j ! (next_event n c (length (es j)) - 1))), st')"
    using rd ring assms(5)
  proof (induction k arbitrary: st es)
    case 0
    with PtlEQGet_ring(2) [of st eventq base n c "es 0"] n obtain st' where "PtlEQGet eventq st =
        Some ((if length (es 0) \<le> c + n then PTL_OK else PTL_EQ_DROPPED,
               Some (es 0 ! (next_event n c (length (es 0)) - 1))), st')" by auto
    from eq_wait_loop_got [OF this, of yield] show ?case using 0 by blast
  next
    case (Suc k)
    have now: "reader st eventq base n c" "ring base n (es 0) (api_mem st)" "c \<le> length (es 0)"
      "Suc (length (es 0)) < 2 ^ 32" using Suc.prems by (force dest: spec [of _ 0])+
    note get = PtlEQGet_ring [OF now(1,2) n now(3,4)]
    show ?case
    proof (cases "c < length (es 0)")
      case True
      from get(2) [OF this] obtain st' where "PtlEQGet eventq st =
          Some ((if length (es 0) \<le> c + n then PTL_OK else PTL_EQ_DROPPED,
                 Some (es 0 ! (next_event n c (length (es 0)) - 1))), st')" by blast
      from eq_wait_loop_got [OF this, of yield] show ?thesis using True by blast
    next
      case False
      then have "eq_wait_loop yield eventq st = eq_wait_loop yield eventq (yield st)"
        using get(1) now(3) by (subst eq_wait_loop.simps) simp
      moreover have "(yield ^^ i) (yield st) = (yield ^^ Suc i) st" for i by (simp add: funpow_swap1)
      then have "\<forall>i \<le> k. reader ((yield ^^ i) (yield st)) eventq base n c"
        "\<forall>i \<le> k. ring base n (es (Suc i)) (api_mem ((yield ^^ i) (yield st))) \<and> c \<le> length (es (Suc i)) \<and>
           Suc (length (es (Suc i))) < 2 ^ 32" using Suc.prems(1,2) by (metis Suc_le_mono)+
      from Suc.IH [OF this Suc.prems(3)] obtain j rc st' where "j \<le> k" "c < length (es (Suc j))"
        "rc \<in> {PTL_OK, PTL_EQ_DROPPED}" "eq_wait_loop yield eventq (yield st) =
          Some ((rc, Some (es (Suc j) ! (next_event n c (length (es (Suc j))) - 1))), st')" by blast
      ultimately show ?thesis by (intro exI [of _ "Suc j"] exI [of _ rc] exI [of _ st']) simp
    qed
  qed
  have "reader st eventq base n c" using rd by (force dest: spec [of _ 0])
  then have "PtlEQWait yield eventq st = eq_wait_loop yield eventq st"
    by (auto simp: PtlEQWait_def iface_masked reader_def)
  with loop show ?thesis by simp
qed

theorem eq_wait_delivers_witness:
  "\<exists>st'. PtlEQWait (\<lambda>st. st\<lparr>api_mem := demo_mem 4 1\<rparr>) 0 (demo_api 4 0) =
     Some ((PTL_OK, Some (demo_events 1 ! 0)), st') \<or>
   PtlEQWait (\<lambda>st. st\<lparr>api_mem := demo_mem 4 1\<rparr>) 0 (demo_api 4 0) =
     Some ((PTL_EQ_DROPPED, Some (demo_events 1 ! 0)), st')"
proof -
  let ?y = "\<lambda>st :: unit api. st\<lparr>api_mem := demo_mem 4 1\<rparr>"
  have y: "(?y ^^ i) (demo_api 4 0) = demo_api 4 i" if "i \<le> 1" for i
    using that by (cases i) (simp_all add: demo_api_def)
  have "\<forall>i \<le> 1. reader ((?y ^^ i) (demo_api 4 0)) 0 0x20000 4 0" using demo_reader y by simp
  moreover have "\<forall>i \<le> 1. ring 0x20000 4 (demo_events i) (api_mem ((?y ^^ i) (demo_api 4 0))) \<and>
      0 \<le> length (demo_events i) \<and> Suc (length (demo_events i)) < 2 ^ 32"
    using demo_ring [of 4] y by (simp add: demo_api_def demo_events_def)
  ultimately obtain j rc st' where j: "j \<le> 1" "0 < length (demo_events j)" "rc \<in> {PTL_OK, PTL_EQ_DROPPED}"
    "PtlEQWait ?y 0 (demo_api 4 0) = Some ((rc, Some (demo_events j ! (next_event 4 0 (length (demo_events j)) - 1))), st')"
    using eq_wait_delivers [of 4 1 ?y "demo_api 4 0" 0 "0x20000" 0 demo_events] by (auto simp: demo_events_def)
  moreover have "j = 1" using j(1,2) by (cases j) (simp_all add: demo_events_def)
  ultimately show ?thesis by (auto simp: next_event_def demo_events_def)
qed

text \<open>
  The calls on a queue ignore the interface of its handle.  They look it up from
  the masked handle, so two handles that differ only in the interface name the same queue,
  and without an interface 0 no queue can be read, waited for or freed.
\<close>

theorem queue_interface_ignored:
  "PtlEQGet eventq st = PtlEQGet (h_index eventq) st \<and>
   (api_ifs st 0 = None \<longrightarrow> PtlEQGet eventq st = Some ((PTL_NOINIT, None), st) \<and>
      PtlEQWait yield eventq st = Some ((PTL_NOINIT, None), st) \<and> PtlEQFree N eventq st = Some (PTL_NOINIT, st))"
  by (simp add: PtlEQGet_def PtlEQWait_def PtlEQFree_def iface_masked h_index_idem)

theorem queue_interface_ignored_witness:
  "PtlEQGet 0x10001 ((demo_api 4 3)\<lparr>api_ifs := (\<lambda>i. if i = 1 then Some 0 else None)\<rparr>) =
     Some ((PTL_NOINIT, None), (demo_api 4 3)\<lparr>api_ifs := (\<lambda>i. if i = 1 then Some 0 else None)\<rparr>)"
  by (rule queue_interface_ignored [THEN conjunct2, rule_format, THEN conjunct1]) simp

end
