(* ===== verification/K_Task.thy ===== *)
theory K_Task
  imports Cplant_Prelude
begin

text \<open>
  The task table of the \<open>cTask\<close> kernel module (\<open>cTask/cTask.c\<close>): the registration
  of processes under portals process ids (ppids), fixed ones from 1 to 100 and floating ones
  above, the lookups, the recovery of dead entries and the map from ranks to nodes.
\<close>

section \<open>State\<close>

definition MAX_PPID :: nat where [ptl_const]: "MAX_PPID = 1000"
definition MAX_FIXED_PPID :: nat where [ptl_const]: "MAX_FIXED_PPID = 100"
definition PPID_FLOATING :: nat where [ptl_const]: "PPID_FLOATING = MAX_FIXED_PPID + 1"
definition NUM_PTL_TASKS :: nat where [ptl_const]: "NUM_PTL_TASKS = MAX_FIXED_PPID + 80"
definition MAX_NODES :: nat where [ptl_const]: "MAX_NODES = 2048"

text \<open>
  An entry of the table; \<open>task\<close> is the address of a \<open>task_struct\<close>.  The name of
  an entry of the table is a C string; the name of a request is the raw array.
\<close>

record taskInfo =
  ti_free :: bool
  ti_ppid :: "16 word"
  ti_pnid :: int
  ti_rid :: int
  ti_nprocs :: int
  ti_gid :: "16 word"
  ti_spid :: "32 word"
  ti_task :: "nat option"
  ti_name :: string

record ctask =
  ct_physNid :: int
  ct_numPhysNodes :: int
  ct_network :: "32 word"
  ct_netmask :: "32 word"
  nidpid_map_spid :: "32 word"
  nidpid_nid :: "nat \<Rightarrow> int"
  nidpid_pid :: "nat \<Rightarrow> 16 word"
  Global_ppid :: "16 word"
  ct_taskInfo :: "nat \<Rightarrow> taskInfo"

text \<open>
  What the kernel provides: the running process, whether it is the superuser's, the
  processes that exist, the system calls for locking and the copy to the user.
\<close>

record kern =
  k_pid :: "32 word"
  k_task :: nat
  k_suser :: bool
  k_tasks :: "32 word list"
  k_mlockall :: int
  k_mlock :: int
  k_munlock :: int
  k_copy_to_user :: int

definition EPERM :: int where [ptl_const]: "EPERM = 1"
definition EINVAL :: int where [ptl_const]: "EINVAL = 22"

definition empty_entry :: taskInfo where
  "empty_entry = \<lparr>ti_free = False, ti_ppid = 0, ti_pnid = 0, ti_rid = 0, ti_nprocs = 0, ti_gid = 0,
     ti_spid = 0, ti_task = None, ti_name = []\<rparr>"

text \<open>The static initialisers.\<close>

definition ct_boot :: ctask where
  "ct_boot = \<lparr>ct_physNid = -1, ct_numPhysNodes = -1, ct_network = 0, ct_netmask = 0,
     nidpid_map_spid = -1, nidpid_nid = (\<lambda>_. 0), nidpid_pid = (\<lambda>_. 0),
     Global_ppid = of_nat (PPID_FLOATING - 1), ct_taskInfo = (\<lambda>_. empty_entry)\<rparr>"

definition set_entry :: "nat \<Rightarrow> (taskInfo \<Rightarrow> taskInfo) \<Rightarrow> ctask \<Rightarrow> ctask" where
  "set_entry i f st = st\<lparr>ct_taskInfo := (ct_taskInfo st)(i := f (ct_taskInfo st i))\<rparr>"

section \<open>Node ids\<close>

definition cTaskSetPhysNid :: "kern \<Rightarrow> int \<Rightarrow> ctask \<Rightarrow> int \<times> ctask" where
  "cTaskSetPhysNid k pnid st =
     (if \<not> k_suser k then (- EPERM, st)
      else if pnid < ct_numPhysNodes st \<and> pnid \<ge> 0 then (0, st\<lparr>ct_physNid := pnid\<rparr>)
      else (-1, st))"

definition cTaskSetNetwork :: "kern \<Rightarrow> 32 word \<Rightarrow> ctask \<Rightarrow> int \<times> ctask" where
  "cTaskSetNetwork k network st =
     (if \<not> k_suser k then (- EPERM, st) else (0, st\<lparr>ct_network := network\<rparr>))"

definition cTaskSetNetmask :: "kern \<Rightarrow> 32 word \<Rightarrow> ctask \<Rightarrow> int \<times> ctask" where
  "cTaskSetNetmask k netmask st =
     (if \<not> k_suser k then (- EPERM, st) else (0, st\<lparr>ct_netmask := netmask\<rparr>))"

definition cTaskSetNumPhysNodes :: "kern \<Rightarrow> int \<Rightarrow> ctask \<Rightarrow> int \<times> ctask" where
  "cTaskSetNumPhysNodes k numNodes st =
     (if \<not> k_suser k then (- EPERM, st) else (0, st\<lparr>ct_numPhysNodes := numNodes\<rparr>))"

section \<open>Lookups\<close>

definition findIndex :: "16 word \<Rightarrow> ctask \<Rightarrow> int" where
  "findIndex ppid st =
     (let p = unat ppid
      in if 1 \<le> p \<and> p \<le> MAX_FIXED_PPID then int p
         else if PPID_FLOATING \<le> p \<and> p \<le> MAX_PPID
         then (case find (\<lambda>i. ti_ppid (ct_taskInfo st i) = ppid) [PPID_FLOATING..<Suc NUM_PTL_TASKS] of
                 Some i \<Rightarrow> int i | None \<Rightarrow> -1)
         else -1)"

definition getSpidIndex :: "32 word \<Rightarrow> ctask \<Rightarrow> int" where
  "getSpidIndex spid st =
     (case find (\<lambda>i. ti_spid (ct_taskInfo st i) = spid) [1..<Suc NUM_PTL_TASKS] of
        Some i \<Rightarrow> int i | None \<Rightarrow> -1)"

definition cTaskGetTask :: "16 word \<Rightarrow> ctask \<Rightarrow> nat option" where
  "cTaskGetTask ppid st =
     (let index = findIndex ppid st
      in if index \<le> 0 then None else ti_task (ct_taskInfo st (nat index)))"

definition cTaskGetRank :: "16 word \<Rightarrow> ctask \<Rightarrow> int" where
  "cTaskGetRank ppid st =
     (let index = findIndex ppid st
      in if index \<le> 0 then -1 else ti_rid (ct_taskInfo st (nat index)))"

definition cTaskGetName :: "16 word \<Rightarrow> ctask \<Rightarrow> string option" where
  "cTaskGetName ppid st =
     (let index = findIndex ppid st
      in if index \<le> 0 then None else Some (ti_name (ct_taskInfo st (nat index))))"

definition cTaskGetEntry :: "int \<Rightarrow> nat option" where
  "cTaskGetEntry index = (if index < 1 \<or> index > int NUM_PTL_TASKS then None else Some (nat index))"

definition cTaskGetCurrentEntry :: "kern \<Rightarrow> ctask \<Rightarrow> nat option" where
  "cTaskGetCurrentEntry k st =
     find (\<lambda>i. ti_spid (ct_taskInfo st i) = k_pid k) [1..<Suc NUM_PTL_TASKS]"

definition cTaskGetCurrentPPID :: "kern \<Rightarrow> ctask \<Rightarrow> 16 word" where
  "cTaskGetCurrentPPID k st =
     (let index = getSpidIndex (k_pid k) st
      in if index \<le> 0 then 0 else ti_ppid (ct_taskInfo st (nat index)))"

definition ppid2spid :: "16 word \<Rightarrow> ctask \<Rightarrow> 32 word" where
  "ppid2spid ppid st =
     (let rc = findIndex ppid st
      in if rc \<le> 0 then -1 else ti_spid (ct_taskInfo st (nat rc)))"

text \<open>An index outside the map is read past its end.\<close>

definition rank2pnid :: "int \<Rightarrow> taskInfo \<Rightarrow> ctask \<Rightarrow> int option" where
  "rank2pnid nid info st =
     (if nidpid_map_spid st = ti_spid info
      then if 0 \<le> nid \<and> nid < int MAX_NODES then Some (nidpid_nid st (nat nid)) else None
      else Some (ct_physNid st))"

definition rank2ppid :: "int \<Rightarrow> taskInfo \<Rightarrow> ctask \<Rightarrow> int option" where
  "rank2ppid nid info st =
     (if nidpid_map_spid st = ti_spid info
      then if 0 \<le> nid \<and> nid < int MAX_NODES then Some (uint (nidpid_pid st (nat nid))) else None
      else Some (uint (ti_ppid info)))"

section \<open>Clearing entries\<close>

definition reset_entry :: "taskInfo \<Rightarrow> taskInfo" where
  "reset_entry e = e\<lparr>ti_free := True, ti_ppid := 0, ti_spid := 0, ti_gid := 0, ti_task := None\<rparr>"

definition clear_entry :: "taskInfo \<Rightarrow> taskInfo" where
  "clear_entry e = e\<lparr>ti_free := True, ti_ppid := 0, ti_pnid := 0, ti_rid := 0, ti_gid := 0,
     ti_spid := 0, ti_nprocs := 0, ti_task := None\<rparr>"

definition cTaskInit :: "ctask \<Rightarrow> ctask" where
  "cTaskInit st = fold (\<lambda>i. set_entry i reset_entry) [1..<Suc NUM_PTL_TASKS] st"

definition cTaskReset :: "int \<Rightarrow> ctask \<Rightarrow> int \<times> ctask" where
  "cTaskReset i st =
     (if i < 1 \<or> i > int NUM_PTL_TASKS then (-1, st) else (0, set_entry (nat i) reset_entry st))"

definition cTaskClear :: "16 word \<Rightarrow> ctask \<Rightarrow> int \<times> ctask" where
  "cTaskClear ppid st =
     (let index = findIndex ppid st
      in if index \<le> 0 then (-1, st) else (0, set_entry (nat index) clear_entry st))"

definition taskInKernel :: "kern \<Rightarrow> 32 word \<Rightarrow> bool" where
  "taskInKernel k spid \<longleftrightarrow> spid \<in> set (k_tasks k)"

definition clearTheDead :: "kern \<Rightarrow> ctask \<Rightarrow> ctask" where
  "clearTheDead k st =
     fold (\<lambda>i s. if taskInKernel k (ti_spid (ct_taskInfo s i)) then s else set_entry i clear_entry s)
       [1..<Suc NUM_PTL_TASKS] st"

section \<open>Registration\<close>

definition cTask_findFree :: "ctask \<Rightarrow> int" where
  "cTask_findFree st =
     (case find (\<lambda>i. ti_free (ct_taskInfo st i)) [PPID_FLOATING..<Suc NUM_PTL_TASKS] of
        Some i \<Rightarrow> int i | None \<Rightarrow> -1)"

text \<open>
  \<open>strcpy\<close> from the array of a request, which the user fills: without a terminator it
  reads past the array.
\<close>

definition strcpy_name :: "string \<Rightarrow> string option" where
  "strcpy_name s =
     (if CHR 0x00 \<in> set s then Some (takeWhile (\<lambda>c. c \<noteq> CHR 0x00) s) else None)"

definition register_dynamic :: "kern \<Rightarrow> taskInfo \<Rightarrow> nat \<Rightarrow> ctask \<Rightarrow> (16 word \<times> ctask) option" where
  "register_dynamic k task_in slot st =
     (let global = (if Global_ppid st = of_nat MAX_PPID then of_nat (PPID_FLOATING - 1) else Global_ppid st);
          ppid = global + 1
      in do {
        name \<leftarrow> strcpy_name (ti_name task_in);
        Some (ppid, set_entry slot (\<lambda>_. \<lparr>ti_free = False, ti_ppid = ppid, ti_pnid = ti_pnid task_in,
            ti_rid = ti_rid task_in, ti_nprocs = ti_nprocs task_in, ti_gid = ti_gid task_in,
            ti_spid = k_pid k, ti_task = Some (k_task k), ti_name = name\<rparr>)
          (st\<lparr>Global_ppid := ppid\<rparr>))
      })"

definition cTaskSet_dynamic :: "kern \<Rightarrow> taskInfo \<Rightarrow> ctask \<Rightarrow> (16 word \<times> ctask) option" where
  "cTaskSet_dynamic k task_in st =
     (if cTask_findFree st < int PPID_FLOATING
      then
        (let st1 = clearTheDead k st
         in if cTask_findFree st1 < int PPID_FLOATING then Some (0, st1)
            else register_dynamic k task_in (nat (cTask_findFree st1)) st1)
      else register_dynamic k task_in (nat (cTask_findFree st)) st)"

definition cTaskSet_static :: "kern \<Rightarrow> taskInfo \<Rightarrow> ctask \<Rightarrow> (16 word \<times> ctask) option" where
  "cTaskSet_static k task_in st =
     (if \<not> k_suser k then Some (0, st)
      else
        (let ppid = ti_ppid task_in; p = unat ppid
         in if 1 \<le> p \<and> p \<le> MAX_FIXED_PPID
            then if \<not> ti_free (ct_taskInfo st p) \<and> taskInKernel k (ti_spid (ct_taskInfo st p)) then Some (0, st)
                 else do {
                   name \<leftarrow> strcpy_name (ti_name task_in);
                   Some (ppid, set_entry p (\<lambda>e. e\<lparr>ti_free := False, ti_ppid := ppid,
                       ti_pnid := ti_pnid task_in, ti_gid := ti_gid task_in, ti_spid := k_pid k,
                       ti_task := Some (k_task k), ti_name := name\<rparr>) st)
                 }
            else Some (0, st)))"

text \<open>The result is the code and the ppid that is copied to the user.\<close>

definition sys_apcb :: "kern \<Rightarrow> taskInfo \<Rightarrow> ctask \<Rightarrow> ((int \<times> 16 word option) \<times> ctask) option" where
  "sys_apcb k taskI st =
     (let answer = (\<lambda>(ppid, st'). Some (if ppid = 0 then (-1, None) else (0, Some ppid), st'))
      in if ti_ppid taskI = 0 then Option.bind (cTaskSet_dynamic k taskI st) answer
         else if 1 \<le> unat (ti_ppid taskI) \<and> unat (ti_ppid taskI) \<le> MAX_FIXED_PPID
         then Option.bind (cTaskSet_static k taskI st) answer
         else Some ((-1, None), st))"

section \<open>The map of ranks\<close>

text \<open>
  The values are those the copies from the user read.  The number of processes is the one
  the process registered with; the map has \<open>MAX_NODES\<close> elements.  The map of pids is
  copied four bytes at a time into a variable of two: the model keeps the two that are stored.
\<close>

definition set_nid_map :: "kern \<Rightarrow> (nat \<Rightarrow> int) \<Rightarrow> ctask \<Rightarrow> (int \<times> ctask) option" where
  "set_nid_map k vals st =
     (case cTaskGetCurrentEntry k st of
        None \<Rightarrow> Some (-1, st)
      | Some i \<Rightarrow>
          (let nb_elements = ti_nprocs (ct_taskInfo st i)
           in if nb_elements > int MAX_NODES then None
              else Some (0, st\<lparr>nidpid_nid := (\<lambda>c. if int c < nb_elements then vals c else nidpid_nid st c)\<rparr>)))"

definition set_pid_map :: "kern \<Rightarrow> (nat \<Rightarrow> 16 word) \<Rightarrow> ctask \<Rightarrow> (int \<times> ctask) option" where
  "set_pid_map k vals st =
     (case cTaskGetCurrentEntry k st of
        None \<Rightarrow> Some (-1, st)
      | Some i \<Rightarrow>
          (let nb_elements = ti_nprocs (ct_taskInfo st i)
           in if nb_elements > int MAX_NODES then None
              else Some (0, st\<lparr>nidpid_pid := (\<lambda>c. if int c < nb_elements then vals c else nidpid_pid st c),
                nidpid_map_spid := k_pid k\<rparr>)))"

section \<open>The device\<close>

datatype cpl_cmd =
    CPL_SET_PHYS_NID int
  | CPL_GET_PHYS_NID
  | CPL_SET_NETWORK "32 word"
  | CPL_COPY_NETWORK
  | CPL_SET_NETMASK "32 word"
  | CPL_COPY_NETMASK
  | CPL_SYS_APCB taskInfo
  | CPL_MLOCKALL
  | CPL_MLOCK
  | CPL_MUNLOCK
  | CPL_SET_NID_MAP "nat \<Rightarrow> int"
  | CPL_SET_PID_MAP "nat \<Rightarrow> 16 word"
  | CPL_GET_NUM_PHYS_NODES
  | CPL_SET_NUM_PHYS_NODES int
  | CPL_CLEAR_DEAD
  | CPL_UNKNOWN

text \<open>
  \<open>cTask_ioctl\<close>: the result is the code, the words copied to the user, the private data of
  the file (whether a process was registered through it) and the new state.
\<close>

type_synonym ct_result = "((int \<times> 32 word option) \<times> bool \<times> ctask) option"

definition plain :: "bool \<Rightarrow> int \<times> ctask \<Rightarrow> ct_result" where
  "plain file r = Some ((fst r, None), file, snd r)"

fun cTask_ioctl :: "kern \<Rightarrow> cpl_cmd \<Rightarrow> bool \<Rightarrow> ctask \<Rightarrow> ct_result" where
  "cTask_ioctl k (CPL_SET_PHYS_NID n) file st = plain file (cTaskSetPhysNid k n st)"
| "cTask_ioctl k CPL_GET_PHYS_NID file st = plain file (ct_physNid st, st)"
| "cTask_ioctl k (CPL_SET_NETWORK n) file st = plain file (cTaskSetNetwork k n st)"
| "cTask_ioctl k CPL_COPY_NETWORK file st = Some ((k_copy_to_user k, Some (ct_network st)), file, st)"
| "cTask_ioctl k (CPL_SET_NETMASK n) file st = plain file (cTaskSetNetmask k n st)"
| "cTask_ioctl k CPL_COPY_NETMASK file st = Some ((k_copy_to_user k, Some (ct_netmask st)), file, st)"
| "cTask_ioctl k (CPL_SYS_APCB info) file st =
     Option.bind (sys_apcb k info st) (\<lambda>((rc, ppid), st').
       Some ((rc, map_option ucast ppid), if rc = 0 then True else file, st'))"
| "cTask_ioctl k CPL_MLOCKALL file st = plain file (k_mlockall k, st)"
| "cTask_ioctl k CPL_MLOCK file st = plain file (k_mlock k, st)"
| "cTask_ioctl k CPL_MUNLOCK file st = plain file (k_munlock k, st)"
| "cTask_ioctl k (CPL_SET_NID_MAP vals) file st = Option.bind (set_nid_map k vals st) (plain file)"
| "cTask_ioctl k (CPL_SET_PID_MAP vals) file st = Option.bind (set_pid_map k vals st) (plain file)"
| "cTask_ioctl k CPL_GET_NUM_PHYS_NODES file st = plain file (ct_numPhysNodes st, st)"
| "cTask_ioctl k (CPL_SET_NUM_PHYS_NODES n) file st = plain file (cTaskSetNumPhysNodes k n st)"
| "cTask_ioctl k CPL_CLEAR_DEAD file st =
     plain file (if \<not> k_suser k then (- EPERM, st) else (0, clearTheDead k st))"
| "cTask_ioctl k CPL_UNKNOWN file st = plain file (- EINVAL, st)"

definition cTask_release :: "kern \<Rightarrow> bool \<Rightarrow> ctask \<Rightarrow> int \<times> ctask" where
  "cTask_release k file st =
     (if \<not> file then (0, st)
      else
        (let index = getSpidIndex (k_pid k) st
         in if index < 0 then (-1, st) else (0, set_entry (nat index) clear_entry st)))"

section \<open>Runs\<close>

text \<open>
  What can happen to the module: requests of any process through the device, the close of
  the device, and the calls of the other kernel modules.
\<close>

inductive ct_reach :: "ctask \<Rightarrow> bool" where
  boot: "ct_reach (cTaskInit ct_boot)"
| ioctl: "ct_reach st \<Longrightarrow> cTask_ioctl k cmd file st = Some (r, file', st') \<Longrightarrow> ct_reach st'"
| release: "ct_reach st \<Longrightarrow> cTask_release k file st = (rc, st') \<Longrightarrow> ct_reach st'"
| clear: "ct_reach st \<Longrightarrow> cTaskClear ppid st = (rc, st') \<Longrightarrow> ct_reach st'"
| reset: "ct_reach st \<Longrightarrow> cTaskReset i st = (rc, st') \<Longrightarrow> ct_reach st'"

lemmas task_sizes = MAX_PPID_def MAX_FIXED_PPID_def PPID_FLOATING_def NUM_PTL_TASKS_def

lemma set_entry_sel [simp]:
  "ct_taskInfo (set_entry i f st) j = (if j = i then f (ct_taskInfo st i) else ct_taskInfo st j)"
  "Global_ppid (set_entry i f st) = Global_ppid st"
  "nidpid_map_spid (set_entry i f st) = nidpid_map_spid st"
  by (simp_all add: set_entry_def)

lemma ct_taskInfo_cong: "(\<And>j. f j = g j) \<Longrightarrow> st\<lparr>ct_taskInfo := f\<rparr> = st\<lparr>ct_taskInfo := g\<rparr>"
  by (rule arg_cong [of f g "\<lambda>f. st\<lparr>ct_taskInfo := f\<rparr>"]) (rule ext)

lemma fold_set_entry:
  "distinct is \<Longrightarrow> fold (\<lambda>i. set_entry i f) is st =
     st\<lparr>ct_taskInfo := (\<lambda>j. if j \<in> set is then f (ct_taskInfo st j) else ct_taskInfo st j)\<rparr>"
proof (induction "is" arbitrary: st)
  case (Cons i "is")
  have upd: "(set_entry i f st)\<lparr>ct_taskInfo := g\<rparr> = st\<lparr>ct_taskInfo := g\<rparr>" for g by (simp add: set_entry_def)
  have "distinct is" using Cons.prems by simp
  from Cons.IH [OF this, of "set_entry i f st"] have "fold (\<lambda>i. set_entry i f) (i # is) st = st\<lparr>ct_taskInfo :=
      (\<lambda>j. if j \<in> set is then f (ct_taskInfo (set_entry i f st) j) else ct_taskInfo (set_entry i f st) j)\<rparr>"
    unfolding upd by simp
  also have "\<dots> = st\<lparr>ct_taskInfo := (\<lambda>j. if j \<in> set (i # is) then f (ct_taskInfo st j) else ct_taskInfo st j)\<rparr>"
    by (rule ct_taskInfo_cong) (use Cons.prems in auto)
  finally show ?case .
qed simp

lemma cTaskInit_eq:
  "cTaskInit st = st\<lparr>ct_taskInfo := (\<lambda>j. if 1 \<le> j \<and> j \<le> NUM_PTL_TASKS then reset_entry (ct_taskInfo st j)
     else ct_taskInfo st j)\<rparr>"
  unfolding cTaskInit_def fold_set_entry [OF distinct_upt] by (rule ct_taskInfo_cong) auto

lemma clearTheDead_eq:
  "clearTheDead k st = st\<lparr>ct_taskInfo := (\<lambda>j.
     if 1 \<le> j \<and> j \<le> NUM_PTL_TASKS \<and> \<not> taskInKernel k (ti_spid (ct_taskInfo st j))
     then clear_entry (ct_taskInfo st j) else ct_taskInfo st j)\<rparr>"
proof -
  have step: "(\<lambda>i s. if taskInKernel k (ti_spid (ct_taskInfo s i)) then s else set_entry i clear_entry s) =
      (\<lambda>i. set_entry i (\<lambda>e. if taskInKernel k (ti_spid e) then e else clear_entry e))"
    by (intro ext) (simp add: set_entry_def)
  show ?thesis unfolding clearTheDead_def step fold_set_entry [OF distinct_upt]
    by (rule ct_taskInfo_cong) auto
qed

text \<open>The loops that search the table give the first index with the property.\<close>

lemma find_range:
  "find P [a..<b] = Some i \<longleftrightarrow> a \<le> i \<and> i < b \<and> P i \<and> (\<forall>j. a \<le> j \<and> j < i \<longrightarrow> \<not> P j)"
  "find P [a..<b] = None \<longleftrightarrow> (\<forall>j. a \<le> j \<and> j < b \<longrightarrow> \<not> P j)"
proof -
  show "find P [a..<b] = None \<longleftrightarrow> (\<forall>j. a \<le> j \<and> j < b \<longrightarrow> \<not> P j)" by (auto simp: find_None_iff)
  show "find P [a..<b] = Some i \<longleftrightarrow> a \<le> i \<and> i < b \<and> P i \<and> (\<forall>j. a \<le> j \<and> j < i \<longrightarrow> \<not> P j)"
  proof
    assume "find P [a..<b] = Some i"
    then obtain n where n: "n < b - a" "P ([a..<b] ! n)" "i = [a..<b] ! n" "\<forall>j < n. \<not> P ([a..<b] ! j)"
      by (auto simp: find_Some_iff)
    then have i: "i = a + n" by simp
    have "\<not> P j" if "a \<le> j" "j < i" for j
      using n(1) n(4) [rule_format, of "j - a"] that i by simp
    with n i show "a \<le> i \<and> i < b \<and> P i \<and> (\<forall>j. a \<le> j \<and> j < i \<longrightarrow> \<not> P j)" by simp
  next
    assume i: "a \<le> i \<and> i < b \<and> P i \<and> (\<forall>j. a \<le> j \<and> j < i \<longrightarrow> \<not> P j)"
    then have "i - a < length [a..<b]" "[a..<b] ! (i - a) = i" by (simp_all add: diff_less_mono)
    moreover have "\<not> P ([a..<b] ! j)" if "j < i - a" for j
    proof -
      from that i have j: "a + j < b" "a \<le> a + j \<and> a + j < i" by linarith+
      with i have "\<not> P (a + j)" by blast
      then show ?thesis using nth_upt [OF j(1)] by simp
    qed
    ultimately show "find P [a..<b] = Some i" unfolding find_Some_iff using i by metis
  qed
qed

lemma findIndex_cases:
  obtains (bad) "findIndex ppid st = -1"
  | (fixed) "1 \<le> unat ppid" "unat ppid \<le> MAX_FIXED_PPID" "findIndex ppid st = int (unat ppid)"
  | (floating) i where "PPID_FLOATING \<le> unat ppid" "unat ppid \<le> MAX_PPID" "findIndex ppid st = int i"
      "PPID_FLOATING \<le> i" "i \<le> NUM_PTL_TASKS" "ti_ppid (ct_taskInfo st i) = ppid"
proof -
  let ?f = "find (\<lambda>i. ti_ppid (ct_taskInfo st i) = ppid) [PPID_FLOATING..<Suc NUM_PTL_TASKS]"
  consider "1 \<le> unat ppid \<and> unat ppid \<le> MAX_FIXED_PPID"
    | "\<not> (1 \<le> unat ppid \<and> unat ppid \<le> MAX_FIXED_PPID)" "PPID_FLOATING \<le> unat ppid" "unat ppid \<le> MAX_PPID"
    | "\<not> (1 \<le> unat ppid \<and> unat ppid \<le> MAX_FIXED_PPID)" "\<not> (PPID_FLOATING \<le> unat ppid \<and> unat ppid \<le> MAX_PPID)"
    by blast
  then show ?thesis
  proof cases
    case 1
    then have "findIndex ppid st = int (unat ppid)" by (simp add: findIndex_def Let_def)
    with 1 show ?thesis by (intro fixed) blast+
  next
    case 3
    then have "findIndex ppid st = -1" unfolding findIndex_def Let_def by (simp only: if_False)
    then show ?thesis by (rule bad)
  next
    case 2
    show ?thesis
    proof (cases ?f)
      case None
      with 2 have "findIndex ppid st = -1" unfolding findIndex_def Let_def by (simp only: if_False if_True option.case simp_thms)
      then show ?thesis by (rule bad)
    next
      case (Some i)
      with find_range(1) [of "\<lambda>i. ti_ppid (ct_taskInfo st i) = ppid" PPID_FLOATING "Suc NUM_PTL_TASKS" i]
      have i: "PPID_FLOATING \<le> i" "i < Suc NUM_PTL_TASKS" "ti_ppid (ct_taskInfo st i) = ppid" by blast+
      from Some 2 have "findIndex ppid st = int i"
        unfolding findIndex_def Let_def by (simp only: if_False if_True option.case simp_thms)
      from floating [OF 2(2,3) this i(1) _ i(3)] i(2) show ?thesis by simp
    qed
  qed
qed

lemma findIndex_range: "0 < findIndex ppid st \<Longrightarrow> 1 \<le> nat (findIndex ppid st) \<and> nat (findIndex ppid st) \<le> NUM_PTL_TASKS"
  by (cases rule: findIndex_cases [of ppid st]) (auto simp: task_sizes)

lemma cTask_findFree_cases:
  obtains (none) "cTask_findFree st = -1" "\<forall>i. PPID_FLOATING \<le> i \<and> i \<le> NUM_PTL_TASKS \<longrightarrow> \<not> ti_free (ct_taskInfo st i)"
  | (slot) i where "cTask_findFree st = int i" "PPID_FLOATING \<le> i" "i \<le> NUM_PTL_TASKS" "ti_free (ct_taskInfo st i)"
proof (cases "find (\<lambda>i. ti_free (ct_taskInfo st i)) [PPID_FLOATING..<Suc NUM_PTL_TASKS]")
  case None
  with find_range(2) [of "\<lambda>i. ti_free (ct_taskInfo st i)" PPID_FLOATING "Suc NUM_PTL_TASKS"]
  show ?thesis by (intro none) (auto simp: cTask_findFree_def simp del: upt_Suc)
next
  case (Some i)
  with find_range(1) [of "\<lambda>i. ti_free (ct_taskInfo st i)" PPID_FLOATING "Suc NUM_PTL_TASKS" i]
  show ?thesis by (intro slot [of i]) (auto simp: cTask_findFree_def simp del: upt_Suc)
qed

section \<open>The invariant\<close>

text \<open>
  A free entry is empty.  An entry in use names a process; a fixed one has the ppid that is
  its index, a floating one a ppid of the floating range.
\<close>

definition entry_ok :: "nat \<Rightarrow> taskInfo \<Rightarrow> bool" where
  "entry_ok i e \<longleftrightarrow>
     (if ti_free e then ti_ppid e = 0 \<and> ti_spid e = 0 \<and> ti_task e = None
      else ti_task e \<noteq> None \<and>
        (if i \<le> MAX_FIXED_PPID then unat (ti_ppid e) = i
         else PPID_FLOATING \<le> unat (ti_ppid e) \<and> unat (ti_ppid e) \<le> MAX_PPID))"

definition ct_inv :: "ctask \<Rightarrow> bool" where
  "ct_inv st \<longleftrightarrow> MAX_FIXED_PPID \<le> unat (Global_ppid st) \<and> unat (Global_ppid st) \<le> MAX_PPID \<and>
     (\<forall>i. 1 \<le> i \<and> i \<le> NUM_PTL_TASKS \<longrightarrow> entry_ok i (ct_taskInfo st i))"

lemma entry_ok_clear [simp]: "entry_ok i (clear_entry e)" "entry_ok i (reset_entry e)"
  by (simp_all add: entry_ok_def clear_entry_def reset_entry_def)

lemma ct_inv_set_entry: "ct_inv st \<Longrightarrow> entry_ok i (f (ct_taskInfo st i)) \<Longrightarrow> ct_inv (set_entry i f st)"
  by (auto simp: ct_inv_def)

lemma ct_inv_frame:
  "ct_taskInfo st' = ct_taskInfo st \<Longrightarrow> Global_ppid st' = Global_ppid st \<Longrightarrow> ct_inv st' = ct_inv st"
  by (simp add: ct_inv_def)

lemma ct_inv_boot: "ct_inv (cTaskInit ct_boot)"
  by (simp add: ct_inv_def cTaskInit_eq ct_boot_def task_sizes)

lemma ct_inv_clearTheDead: "ct_inv st \<Longrightarrow> ct_inv (clearTheDead k st)"
  by (auto simp: ct_inv_def clearTheDead_eq)

lemma next_ppid:
  assumes "MAX_FIXED_PPID \<le> unat (g :: 16 word)" "unat g \<le> MAX_PPID"
  defines "p \<equiv> (if g = of_nat MAX_PPID then of_nat (PPID_FLOATING - 1) else g) + 1"
  shows "unat p = (if unat g = MAX_PPID then PPID_FLOATING else Suc (unat g))"
    "PPID_FLOATING \<le> unat p" "unat p \<le> MAX_PPID" "p \<noteq> 0"
proof -
  have max: "g = of_nat MAX_PPID \<longleftrightarrow> unat g = MAX_PPID"
    by (simp add: word_unat_eq_iff unat_of_nat MAX_PPID_def)
  have suc: "unat (g + 1) = Suc (unat g)" using assms(2) by (simp add: unat_word_ariths MAX_PPID_def)
  show p: "unat p = (if unat g = MAX_PPID then PPID_FLOATING else Suc (unat g))"
    using max suc by (simp add: p_def task_sizes)
  show "PPID_FLOATING \<le> unat p" "unat p \<le> MAX_PPID"
    unfolding p using assms(1,2) by (auto simp: task_sizes)
  then show "p \<noteq> 0" by (auto simp: task_sizes)
qed

lemma register_dynamic_inv:
  assumes inv: "ct_inv st" and slot: "PPID_FLOATING \<le> slot"
    and reg: "register_dynamic k info slot st = Some (ppid, st')"
  shows "ct_inv st'" "PPID_FLOATING \<le> unat ppid" "unat ppid \<le> MAX_PPID"
proof -
  have g: "MAX_FIXED_PPID \<le> unat (Global_ppid st)" "unat (Global_ppid st) \<le> MAX_PPID"
    using inv by (simp_all add: ct_inv_def)
  note p = next_ppid [OF g]
  from reg obtain name where ppid: "ppid = (if Global_ppid st = of_nat MAX_PPID then of_nat (PPID_FLOATING - 1)
      else Global_ppid st) + 1"
    and st': "st' = set_entry slot (\<lambda>_. \<lparr>ti_free = False, ti_ppid = ppid, ti_pnid = ti_pnid info,
        ti_rid = ti_rid info, ti_nprocs = ti_nprocs info, ti_gid = ti_gid info,
        ti_spid = k_pid k, ti_task = Some (k_task k), ti_name = name\<rparr>) (st\<lparr>Global_ppid := ppid\<rparr>)"
    by (cases "strcpy_name (ti_name info)") (auto simp: register_dynamic_def Let_def)
  show r: "PPID_FLOATING \<le> unat ppid" "unat ppid \<le> MAX_PPID" unfolding ppid by (rule p)+
  have "ct_inv (st\<lparr>Global_ppid := ppid\<rparr>)" using inv r by (simp add: ct_inv_def task_sizes)
  then show "ct_inv st'" unfolding st'
    by (rule ct_inv_set_entry) (use slot r in \<open>simp add: entry_ok_def task_sizes\<close>)
qed

lemma cTaskSet_dynamic_cases:
  obtains (full) "cTaskSet_dynamic k info st = Some (0, clearTheDead k st)"
  | (reg) st1 slot where "st1 = st \<or> st1 = clearTheDead k st" "PPID_FLOATING \<le> slot" "slot \<le> NUM_PTL_TASKS"
      "ti_free (ct_taskInfo st1 slot)" "cTaskSet_dynamic k info st = register_dynamic k info slot st1"
proof (cases rule: cTask_findFree_cases [of st])
  case (slot i)
  then show ?thesis by (intro reg [of st i]) (simp_all add: cTaskSet_dynamic_def)
next
  case none
  then have 1: "cTask_findFree st < int PPID_FLOATING" by simp
  show ?thesis
  proof (cases rule: cTask_findFree_cases [of "clearTheDead k st"])
    case 2: none
    then show ?thesis using 1 by (intro full) (simp add: cTaskSet_dynamic_def)
  next
    case (slot i)
    then show ?thesis using 1 by (intro reg [of "clearTheDead k st" i]) (simp_all add: cTaskSet_dynamic_def)
  qed
qed

lemma cTaskSet_dynamic_inv:
  assumes "ct_inv st" "cTaskSet_dynamic k info st = Some (ppid, st')"
  shows "ct_inv st'"
proof (cases rule: cTaskSet_dynamic_cases [of k info st])
  case full
  then show ?thesis using assms ct_inv_clearTheDead by simp
next
  case (reg st1 slot)
  then have "ct_inv st1" using assms(1) ct_inv_clearTheDead by blast
  then show ?thesis using register_dynamic_inv(1) [of st1 slot k info ppid st'] reg assms(2) by simp
qed

lemma cTaskSet_static_inv:
  assumes inv: "ct_inv st" and op: "cTaskSet_static k info st = Some (ppid, st')"
  shows "ct_inv st'"
proof (cases "st' = st")
  case False
  with op obtain name where p: "1 \<le> unat (ti_ppid info)" "unat (ti_ppid info) \<le> MAX_FIXED_PPID"
    and st': "st' = set_entry (unat (ti_ppid info)) (\<lambda>e. e\<lparr>ti_free := False, ti_ppid := ti_ppid info,
       ti_pnid := ti_pnid info, ti_gid := ti_gid info, ti_spid := k_pid k, ti_task := Some (k_task k),
       ti_name := name\<rparr>) st"
    by (cases "strcpy_name (ti_name info)") (auto simp: cTaskSet_static_def Let_def split: if_splits)
  show ?thesis unfolding st' by (rule ct_inv_set_entry [OF inv]) (use p in \<open>simp add: entry_ok_def\<close>)
qed (use inv in simp)

lemma sys_apcb_inv: "ct_inv st \<Longrightarrow> sys_apcb k info st = Some (r, st') \<Longrightarrow> ct_inv st'"
  by (auto simp: sys_apcb_def Let_def bind_eq_Some_conv split: if_splits
    intro: cTaskSet_dynamic_inv cTaskSet_static_inv)

lemma cTask_ioctl_inv:
  assumes inv: "ct_inv st" and op: "cTask_ioctl k cmd file st = Some (r, file', st')"
  shows "ct_inv st'"
proof (cases cmd)
  case (CPL_SYS_APCB info)
  with op inv show ?thesis by (auto simp: bind_eq_Some_conv intro: sys_apcb_inv)
next
  case CPL_CLEAR_DEAD
  with op inv show ?thesis by (auto simp: plain_def ct_inv_clearTheDead)
next
  case (CPL_SET_NID_MAP vals)
  with op inv show ?thesis
    by (auto simp: bind_eq_Some_conv plain_def set_nid_map_def Let_def ct_inv_def split: option.splits if_splits)
next
  case (CPL_SET_PID_MAP vals)
  with op inv show ?thesis
    by (auto simp: bind_eq_Some_conv plain_def set_pid_map_def Let_def ct_inv_def split: option.splits if_splits)
qed (use op inv in \<open>auto simp: plain_def cTaskSetPhysNid_def cTaskSetNetwork_def cTaskSetNetmask_def
    cTaskSetNumPhysNodes_def ct_inv_def\<close>)

lemma ct_reach_inv: "ct_reach st \<Longrightarrow> ct_inv st"
proof (induction rule: ct_reach.induct)
  case (ioctl st k cmd fp r fp' st')
  then show ?case by (blast intro: cTask_ioctl_inv)
next
  case (release st k fp rc st')
  then show ?case
    by (auto simp: cTask_release_def Let_def split: if_splits intro: ct_inv_set_entry)
next
  case (clear st ppid rc st')
  then show ?case by (auto simp: cTaskClear_def Let_def split: if_splits intro: ct_inv_set_entry)
next
  case (reset st i rc st')
  then show ?case by (auto simp: cTaskReset_def split: if_splits intro: ct_inv_set_entry)
qed (rule ct_inv_boot)

end
