(* ===== verification/K_TaskProps.thy ===== *)
theory K_TaskProps
  imports K_Task
begin

text \<open>
  Properties of the task table: what a registration gives, when it fails, and where ppids and
  the map of ranks go wrong.
\<close>

section \<open>Lookups after a registration\<close>

lemma register_dynamic_eq:
  assumes "register_dynamic k info slot st = Some (ppid, st')"
  shows "\<exists>name. strcpy_name (ti_name info) = Some name \<and> st' = set_entry slot (\<lambda>_. \<lparr>ti_free = False, ti_ppid = ppid,
    ti_pnid = ti_pnid info, ti_rid = ti_rid info, ti_nprocs = ti_nprocs info, ti_gid = ti_gid info,
    ti_spid = k_pid k, ti_task = Some (k_task k), ti_name = name\<rparr>) (st\<lparr>Global_ppid := ppid\<rparr>)"
  using assms by (cases "strcpy_name (ti_name info)") (auto simp: register_dynamic_def Let_def)

text \<open>The entry of a process and its ppid after a successful registration.\<close>

lemma sys_apcb_registers:
  assumes inv: "ct_inv st" and op: "sys_apcb k info st = Some ((0, Some ppid), st')"
  shows "\<exists>i. 1 \<le> i \<and> i \<le> NUM_PTL_TASKS \<and> \<not> ti_free (ct_taskInfo st' i) \<and> ti_ppid (ct_taskInfo st' i) = ppid \<and>
    ti_spid (ct_taskInfo st' i) = k_pid k \<and> ti_task (ct_taskInfo st' i) = Some (k_task k) \<and>
    (ti_ppid info = 0 \<longrightarrow> ti_nprocs (ct_taskInfo st' i) = ti_nprocs info) \<and>
    (if i \<le> MAX_FIXED_PPID then unat ppid = i else PPID_FLOATING \<le> unat ppid \<and> unat ppid \<le> MAX_PPID) \<and>
    (\<forall>j. j \<noteq> i \<longrightarrow> ct_taskInfo st' j = ct_taskInfo st j \<or> ct_taskInfo st' j = clear_entry (ct_taskInfo st j))"
proof (cases "ti_ppid info = 0")
  case True
  with op have dyn: "cTaskSet_dynamic k info st = Some (ppid, st')" "ppid \<noteq> 0"
    by (auto simp: sys_apcb_def Let_def bind_eq_Some_conv split: if_splits)
  from dyn show ?thesis
  proof (cases rule: cTaskSet_dynamic_cases [of k info st])
    case (reg st1 slot)
    have inv1: "ct_inv st1" using reg(1) inv ct_inv_clearTheDead by blast
    have r: "register_dynamic k info slot st1 = Some (ppid, st')" using reg(5) dyn(1) by simp
    note p = register_dynamic_inv(2,3) [OF inv1 reg(2) r]
    have other: "\<forall>j. ct_taskInfo st1 j = ct_taskInfo st j \<or> ct_taskInfo st1 j = clear_entry (ct_taskInfo st j)"
      using reg(1) by (auto simp: clearTheDead_eq)
    from register_dynamic_eq [OF r] other p reg(2,3) show ?thesis
      by (intro exI [of _ slot]) (auto simp: task_sizes)
  qed simp
next
  case False
  with op have st: "cTaskSet_static k info st = Some (ppid, st')" "ppid \<noteq> 0"
    by (auto simp: sys_apcb_def Let_def bind_eq_Some_conv split: if_splits)
  then obtain name where "1 \<le> unat ppid" "unat ppid \<le> MAX_FIXED_PPID" "ppid = ti_ppid info"
    "st' = set_entry (unat ppid) (\<lambda>e. e\<lparr>ti_free := False, ti_ppid := ppid,
       ti_pnid := ti_pnid info, ti_gid := ti_gid info, ti_spid := k_pid k, ti_task := Some (k_task k),
       ti_name := name\<rparr>) st"
    by (cases "strcpy_name (ti_name info)") (auto simp: cTaskSet_static_def Let_def split: if_splits)
  then show ?thesis using False by (intro exI [of _ "unat ppid"]) (auto simp: task_sizes)
qed

lemma clear_entry_sel: "ti_ppid (clear_entry e) = 0" "ti_spid (clear_entry e) = 0"
  by (simp_all add: clear_entry_def)

lemma findIndex_unique:
  assumes "1 \<le> i" "i \<le> NUM_PTL_TASKS" "ti_ppid (ct_taskInfo st i) = ppid"
    and "if i \<le> MAX_FIXED_PPID then unat ppid = i else PPID_FLOATING \<le> unat ppid \<and> unat ppid \<le> MAX_PPID"
    and "\<forall>j. PPID_FLOATING \<le> j \<and> j \<le> NUM_PTL_TASKS \<and> j \<noteq> i \<longrightarrow> ti_ppid (ct_taskInfo st j) \<noteq> ppid"
  shows "findIndex ppid st = int i"
proof (cases "i \<le> MAX_FIXED_PPID")
  case True
  then show ?thesis using assms by (simp add: findIndex_def Let_def)
next
  case False
  then have "find (\<lambda>j. ti_ppid (ct_taskInfo st j) = ppid) [PPID_FLOATING..<Suc NUM_PTL_TASKS] = Some i"
    using assms unfolding find_range(1) by (auto simp: task_sizes)
  with False assms(4) show ?thesis unfolding findIndex_def Let_def by (simp add: task_sizes del: upt_Suc)
qed

lemma getSpidIndex_unique:
  assumes "1 \<le> i" "i \<le> NUM_PTL_TASKS" "ti_spid (ct_taskInfo st i) = s"
    and "\<forall>j. 1 \<le> j \<and> j \<le> NUM_PTL_TASKS \<and> j \<noteq> i \<longrightarrow> ti_spid (ct_taskInfo st j) \<noteq> s"
  shows "getSpidIndex s st = int i"
proof -
  have "find (\<lambda>j. ti_spid (ct_taskInfo st j) = s) [1..<Suc NUM_PTL_TASKS] = Some i"
    using assms unfolding find_range(1) by auto
  then show ?thesis by (simp add: getSpidIndex_def del: upt_Suc)
qed

section \<open>An example: one process stays, another comes and goes\<close>

definition kern_of :: "nat \<Rightarrow> kern" where
  "kern_of p = \<lparr>k_pid = of_nat p, k_task = p, k_suser = False, k_tasks = [1, 2], k_mlockall = 0, k_mlock = 0,
     k_munlock = 0, k_copy_to_user = 0\<rparr>"

definition request :: "int \<Rightarrow> taskInfo" where
  "request n = \<lparr>ti_free = False, ti_ppid = 0, ti_pnid = 0, ti_rid = 0, ti_nprocs = n, ti_gid = 0,
     ti_spid = 0, ti_task = None, ti_name = [CHR 0x00]\<rparr>"

definition entry_of :: "nat \<Rightarrow> 16 word \<Rightarrow> int \<Rightarrow> taskInfo" where
  "entry_of p ppid n = \<lparr>ti_free = False, ti_ppid = ppid, ti_pnid = 0, ti_rid = 0, ti_nprocs = n, ti_gid = 0,
     ti_spid = of_nat p, ti_task = Some p, ti_name = []\<rparr>"

text \<open>The table has process 1 in its first floating slot and nothing else.\<close>

definition one_task :: "ctask \<Rightarrow> bool" where
  "one_task st \<longleftrightarrow> ct_reach st \<and> ct_taskInfo st 101 = entry_of 1 101 1 \<and>
     (\<forall>i. 1 \<le> i \<and> i \<le> NUM_PTL_TASKS \<and> i \<noteq> 101 \<longrightarrow> ti_free (ct_taskInfo st i))"

text \<open>
  A run in which \<open>n\<close> processes have registered, one after the other, and never more than
  two are in the table at a time.
\<close>

definition live :: "ctask \<Rightarrow> nat set" where
  "live st = {i. 1 \<le> i \<and> i \<le> NUM_PTL_TASKS \<and> \<not> ti_free (ct_taskInfo st i)}"

inductive served :: "nat \<Rightarrow> ctask \<Rightarrow> bool" where
  boot: "served 0 (cTaskInit ct_boot)"
| register: "served n st \<Longrightarrow> sys_apcb k info st = Some ((0, Some ppid), st') \<Longrightarrow> card (live st') \<le> 2 \<Longrightarrow> served (Suc n) st'"
| release: "served n st \<Longrightarrow> cTask_release k True st = (0, st') \<Longrightarrow> card (live st') \<le> 2 \<Longrightarrow> served n st'"

lemma findFree_eq:
  assumes "PPID_FLOATING \<le> i" "i \<le> NUM_PTL_TASKS" "ti_free (ct_taskInfo st i)"
    "\<forall>j. PPID_FLOATING \<le> j \<and> j < i \<longrightarrow> \<not> ti_free (ct_taskInfo st j)"
  shows "cTask_findFree st = int i"
proof -
  have "find (\<lambda>j. ti_free (ct_taskInfo st j)) [PPID_FLOATING..<Suc NUM_PTL_TASKS] = Some i"
    using assms unfolding find_range(1) by auto
  then show ?thesis by (simp add: cTask_findFree_def del: upt_Suc)
qed

lemma register_first:
  assumes "cTask_findFree st = int slot" "PPID_FLOATING \<le> slot"
  shows "sys_apcb (kern_of p) (request n) st =
    (let ppid = (if Global_ppid st = of_nat MAX_PPID then of_nat (PPID_FLOATING - 1) else Global_ppid st) + 1
     in if ppid = 0 then Some ((-1, None), set_entry slot (\<lambda>_. entry_of p ppid n) (st\<lparr>Global_ppid := ppid\<rparr>))
        else Some ((0, Some ppid), set_entry slot (\<lambda>_. entry_of p ppid n) (st\<lparr>Global_ppid := ppid\<rparr>)))"
  using assms by (simp add: sys_apcb_def cTaskSet_dynamic_def register_dynamic_def strcpy_name_def request_def
      kern_of_def entry_of_def Let_def)

text \<open>A registration in a state whose counter has not turned over, as a step of a run.\<close>

lemma register_step:
  fixes p :: nat and n :: int
  assumes "ct_reach st" "cTask_findFree st = int slot" "PPID_FLOATING \<le> slot"
  defines "ppid \<equiv> (if Global_ppid st = of_nat MAX_PPID then of_nat (PPID_FLOATING - 1) else Global_ppid st) + 1"
  defines "st' \<equiv> set_entry slot (\<lambda>_. entry_of p ppid n) (st\<lparr>Global_ppid := ppid\<rparr>)"
  shows "ct_reach st'" "sys_apcb (kern_of p) (request n) st = Some ((0, Some ppid), st')"
proof -
  have g: "MAX_FIXED_PPID \<le> unat (Global_ppid st)" "unat (Global_ppid st) \<le> MAX_PPID"
    using ct_reach_inv [OF assms(1)] by (simp_all add: ct_inv_def)
  have "ppid \<noteq> 0" unfolding ppid_def by (rule next_ppid(4) [OF g])
  then show op: "sys_apcb (kern_of p) (request n) st = Some ((0, Some ppid), st')"
    using register_first [OF assms(2,3), of p n] unfolding ppid_def [symmetric] Let_def st'_def by simp
  show "ct_reach st'"
    by (rule ct_reach.ioctl [OF assms(1), of "kern_of p" "CPL_SYS_APCB (request n)" False]) (use op in simp)
qed

lemma one_task_free:
  assumes "one_task st"
  shows "cTask_findFree st = 102" "\<forall>j. 1 \<le> j \<and> j \<le> NUM_PTL_TASKS \<and> j \<noteq> 101 \<longrightarrow> ti_spid (ct_taskInfo st j) = 0"
proof -
  have "\<not> ti_free (ct_taskInfo st j)" if "PPID_FLOATING \<le> j \<and> j < 102" for j
  proof -
    have "j = 101" using that by (simp add: task_sizes)
    then show ?thesis using assms by (simp add: one_task_def entry_of_def)
  qed
  then have "cTask_findFree st = int 102"
    using assms by (intro findFree_eq) (auto simp: one_task_def task_sizes)
  then show "cTask_findFree st = 102" by simp
  show "\<forall>j. 1 \<le> j \<and> j \<le> NUM_PTL_TASKS \<and> j \<noteq> 101 \<longrightarrow> ti_spid (ct_taskInfo st j) = 0"
    using assms ct_reach_inv [of st] by (auto simp: one_task_def ct_inv_def entry_ok_def)
qed

lemma one_task_pids:
  assumes "one_task st" "1 \<le> j" "j \<le> NUM_PTL_TASKS"
  shows "ti_spid (ct_taskInfo st j) \<noteq> k_pid (kern_of 2)" "k_pid (kern_of 2) \<noteq> 0"
  using one_task_free(2) [OF assms(1)] assms
  by (cases "j = 101"; simp add: one_task_def entry_of_def kern_of_def)+

text \<open>The second process of a run registers.\<close>

lemma live_two:
  assumes "one_task st"
  shows "live st = {101}" "live (set_entry 102 (\<lambda>_. entry_of 2 ppid 1) (st\<lparr>Global_ppid := g\<rparr>)) = {101, 102}"
  using assms by (auto simp: live_def one_task_def entry_of_def task_sizes)

lemma served_two:
  assumes one: "one_task st" and run: "served m st"
    and op: "sys_apcb (kern_of 2) (request 1) st = Some ((0, Some ppid), set_entry 102 (\<lambda>_. entry_of 2 ppid 1) (st\<lparr>Global_ppid := ppid\<rparr>))"
  shows "served (Suc m) (set_entry 102 (\<lambda>_. entry_of 2 ppid 1) (st\<lparr>Global_ppid := ppid\<rparr>))"
  by (rule served.register [OF run op]) (simp add: live_two(2) [OF one])

lemma one_task_cycle:
  assumes one: "one_task st" and run: "served m st" and g: "unat (Global_ppid st) = 101 + n" "101 + n < MAX_PPID"
  shows "\<exists>st'. one_task st' \<and> served (Suc m) st' \<and> unat (Global_ppid st') = 101 + Suc n"
proof -
  have reach: "ct_reach st" using one by (simp add: one_task_def)
  have free: "cTask_findFree st = int 102" "PPID_FLOATING \<le> 102" using one_task_free [OF one] by (simp_all add: task_sizes)
  have ge: "MAX_FIXED_PPID \<le> unat (Global_ppid st)" "unat (Global_ppid st) \<le> MAX_PPID" using g by (simp_all add: task_sizes)
  define ppid where "ppid = (if Global_ppid st = of_nat MAX_PPID then of_nat (PPID_FLOATING - 1) else Global_ppid st) + 1"
  have ppid: "unat ppid = Suc (unat (Global_ppid st))"
    using next_ppid(1) [OF ge] g unfolding ppid_def [symmetric] by simp
  define st1 where "st1 = set_entry 102 (\<lambda>_. entry_of 2 ppid 1) (st\<lparr>Global_ppid := ppid\<rparr>)"
  have op1: "sys_apcb (kern_of 2) (request 1) st = Some ((0, Some ppid), st1)" and reach1: "ct_reach st1"
    using register_step [OF reach free, where p = 2 and n = 1] by (simp_all add: st1_def ppid_def)
  have run1: "served (Suc m) st1" using served_two [OF one run op1 [unfolded st1_def]] by (simp add: st1_def)
  have "getSpidIndex 2 st1 = int 102"
  proof (rule getSpidIndex_unique)
    show "\<forall>j. 1 \<le> j \<and> j \<le> NUM_PTL_TASKS \<and> j \<noteq> 102 \<longrightarrow> ti_spid (ct_taskInfo st1 j) \<noteq> 2"
      using one_task_free(2) [OF one] one by (auto simp: st1_def one_task_def entry_of_def)
  qed (simp_all add: task_sizes st1_def entry_of_def)
  then have rel: "cTask_release (kern_of 2) True st1 = (0, set_entry 102 clear_entry st1)"
    by (simp add: cTask_release_def kern_of_def)
  from ct_reach.release [OF reach1 this] have one': "one_task (set_entry 102 clear_entry st1)"
    using one by (simp add: one_task_def st1_def clear_entry_def)
  moreover have "served (Suc m) (set_entry 102 clear_entry st1)"
    by (rule served.release [OF run1 rel]) (simp add: live_two(1) [OF one'])
  moreover have "unat (Global_ppid (set_entry 102 clear_entry st1)) = 101 + Suc n"
    using ppid g by (simp add: st1_def)
  ultimately show ?thesis by blast
qed

lemma one_task_runs: "n \<le> 899 \<Longrightarrow> \<exists>st. one_task st \<and> served (Suc n) st \<and> unat (Global_ppid st) = 101 + n"
proof (induction n)
  case 0
  let ?st = "cTaskInit ct_boot"
  have free: "cTask_findFree ?st = int 101"
    by (rule findFree_eq) (auto simp: cTaskInit_eq reset_entry_def task_sizes)
  let ?st1 = "set_entry 101 (\<lambda>_. entry_of 1 101 1) (?st\<lparr>Global_ppid := 101\<rparr>)"
  have step: "ct_reach ?st1" "sys_apcb (kern_of 1) (request 1) ?st = Some ((0, Some 101), ?st1)"
    using register_step [OF ct_reach.boot free, where p = 1 and n = 1]
    by (simp_all add: task_sizes cTaskInit_eq ct_boot_def)
  then have one: "one_task ?st1"
    by (auto simp: one_task_def cTaskInit_eq reset_entry_def)
  moreover have "served (Suc 0) ?st1"
    by (rule served.register [OF served.boot step(2)]) (subst live_two(1) [OF one], simp)
  moreover have "unat (Global_ppid ?st1) = 101 + 0" by simp
  ultimately show ?case by blast
next
  case (Suc n)
  then obtain st where "one_task st" "served (Suc n) st" "unat (Global_ppid st) = 101 + n" by auto
  with Suc.prems one_task_cycle [of st "Suc n" n] show ?case by (simp add: MAX_PPID_def)
qed

section \<open>Properties\<close>

text \<open>
  C36: in every state of a run a process in the table can be looked up.  A process in a
  fixed slot has the number of the slot as its ppid and the lookup gives this slot; a process
  in a floating slot has a ppid from 101 to 1000 and the lookup gives the first slot with this
  ppid, whose process has a task.
\<close>

theorem registered_is_found:
  assumes "ct_reach st" "1 \<le> i" "i \<le> NUM_PTL_TASKS" "\<not> ti_free (ct_taskInfo st i)"
  defines "ppid \<equiv> ti_ppid (ct_taskInfo st i)"
  shows "(if i \<le> MAX_FIXED_PPID then unat ppid = i \<and> findIndex ppid st = int i
      else PPID_FLOATING \<le> unat ppid \<and> unat ppid \<le> MAX_PPID \<and> int PPID_FLOATING \<le> findIndex ppid st \<and>
        (\<forall>j. PPID_FLOATING \<le> j \<and> int j < findIndex ppid st \<longrightarrow> ti_ppid (ct_taskInfo st j) \<noteq> ppid)) \<and>
    1 \<le> unat ppid \<and> unat ppid \<le> MAX_PPID \<and> cTaskGetTask ppid st \<noteq> None \<and>
    0 < findIndex ppid st \<and> findIndex ppid st \<le> int i \<and> ti_ppid (ct_taskInfo st (nat (findIndex ppid st))) = ppid"
proof -
  have inv: "ct_inv st" by (rule ct_reach_inv [OF assms(1)])
  with assms have ok: "entry_ok i (ct_taskInfo st i)" by (simp add: ct_inv_def)
  have task: "ti_task (ct_taskInfo st j) \<noteq> None" if "1 \<le> j" "j \<le> NUM_PTL_TASKS" "ti_ppid (ct_taskInfo st j) \<noteq> 0" for j
    using inv that unfolding ct_inv_def entry_ok_def by metis
  show ?thesis
  proof (cases "i \<le> MAX_FIXED_PPID")
    case True
    with ok assms have p: "unat ppid = i" by (simp add: entry_ok_def)
    then have "findIndex ppid st = int i" using True assms(2) by (simp add: findIndex_def)
    moreover have "ppid \<noteq> 0" using p assms(2) by auto
    ultimately show ?thesis
      using p True assms task [of i] by (auto simp: cTaskGetTask_def ppid_def task_sizes)
  next
    case False
    with ok assms have p: "PPID_FLOATING \<le> unat ppid" "unat ppid \<le> MAX_PPID" by (simp_all add: entry_ok_def)
    let ?P = "\<lambda>j. ti_ppid (ct_taskInfo st j) = ppid"
    have "find ?P [PPID_FLOATING..<Suc NUM_PTL_TASKS] \<noteq> None"
      unfolding find_range(2) using False assms by (auto simp: task_sizes intro!: exI [of _ i])
    then obtain j where j: "find ?P [PPID_FLOATING..<Suc NUM_PTL_TASKS] = Some j" by blast
    then have "findIndex ppid st = int j" using p unfolding findIndex_def Let_def by (simp add: task_sizes del: upt_Suc)
    moreover have first: "\<forall>k. PPID_FLOATING \<le> k \<and> k < j \<longrightarrow> \<not> ?P k" and r: "PPID_FLOATING \<le> j" "j \<le> NUM_PTL_TASKS" "?P j"
      using j unfolding find_range(1) by (auto simp: ppid_def)
    moreover have "j \<le> i" using first [rule_format, of i] False by (force simp: task_sizes ppid_def)
    moreover have "ppid \<noteq> 0" using p(1) by (auto simp: task_sizes)
    ultimately show ?thesis
      using p False task [of j] by (auto simp: cTaskGetTask_def task_sizes)
  qed
qed

theorem registered_is_found_witness:
  "\<exists>st. ct_reach st \<and> \<not> ti_free (ct_taskInfo st 101) \<and> ti_ppid (ct_taskInfo st 101) = 101 \<and>
     cTaskGetTask 101 st = Some 1 \<and> findIndex 101 st = 101"
proof -
  obtain st where one: "one_task st" using one_task_runs [of 0] by auto
  then have "ct_reach st" "ct_taskInfo st 101 = entry_of 1 101 1" by (simp_all add: one_task_def)
  with registered_is_found [of st 101] have "findIndex 101 st \<le> 101" "0 < findIndex 101 st"
    by (simp_all add: entry_of_def task_sizes)
  then have "findIndex 101 st = 101"
    by (cases rule: findIndex_cases [of 101 st]) (auto simp: task_sizes)
  with \<open>ct_reach st\<close> \<open>ct_taskInfo st 101 = entry_of 1 101 1\<close> show ?thesis
    by (intro exI [of _ st]) (simp add: entry_of_def cTaskGetTask_def)
qed

text \<open>
  C37: after a process has registered, the ppid leads to this process and the process to
  the ppid: the lookups give its task and its system pid, and the module gives it its ppid
  back.  This holds when no floating entry has the ppid already and no entry has the pid of
  the process, which must not be zero; a second registration, or an entry left by a process
  whose pid has been used again, is found first by the lookup by process.
\<close>

theorem registration_round_trip:
  assumes "ct_reach st" and op: "sys_apcb k info st = Some ((0, Some ppid), st')"
    and fresh: "\<forall>j. PPID_FLOATING \<le> j \<and> j \<le> NUM_PTL_TASKS \<longrightarrow> ti_ppid (ct_taskInfo st j) \<noteq> ppid"
    and new: "\<forall>j. 1 \<le> j \<and> j \<le> NUM_PTL_TASKS \<longrightarrow> ti_spid (ct_taskInfo st j) \<noteq> k_pid k" "k_pid k \<noteq> 0"
  shows "cTaskGetTask ppid st' = Some (k_task k) \<and> ppid2spid ppid st' = k_pid k \<and> cTaskGetCurrentPPID k st' = ppid"
proof -
  from sys_apcb_registers [OF ct_reach_inv [OF assms(1)] op] obtain i where
    i: "1 \<le> i" "i \<le> NUM_PTL_TASKS" "ti_ppid (ct_taskInfo st' i) = ppid" "ti_spid (ct_taskInfo st' i) = k_pid k"
      "ti_task (ct_taskInfo st' i) = Some (k_task k)"
      "if i \<le> MAX_FIXED_PPID then unat ppid = i else PPID_FLOATING \<le> unat ppid \<and> unat ppid \<le> MAX_PPID"
    and other: "\<forall>j. j \<noteq> i \<longrightarrow> ct_taskInfo st' j = ct_taskInfo st j \<or> ct_taskInfo st' j = clear_entry (ct_taskInfo st j)"
    by blast
  have "ppid \<noteq> 0" using i(1,6) by (auto simp: task_sizes split: if_splits)
  then have "\<forall>j. PPID_FLOATING \<le> j \<and> j \<le> NUM_PTL_TASKS \<and> j \<noteq> i \<longrightarrow> ti_ppid (ct_taskInfo st' j) \<noteq> ppid"
    using other fresh by (metis (no_types, lifting) clear_entry_sel(1))
  from findIndex_unique [OF i(1-3,6) this] have 1: "findIndex ppid st' = int i" .
  have "\<forall>j. 1 \<le> j \<and> j \<le> NUM_PTL_TASKS \<and> j \<noteq> i \<longrightarrow> ti_spid (ct_taskInfo st' j) \<noteq> k_pid k"
    using other new by (metis (no_types, lifting) clear_entry_sel(2))
  from getSpidIndex_unique [OF i(1,2,4) this] have "getSpidIndex (k_pid k) st' = int i" .
  with 1 i show ?thesis by (simp add: cTaskGetTask_def ppid2spid_def cTaskGetCurrentPPID_def)
qed

theorem registration_round_trip_witness:
  "\<exists>st ppid st'. one_task st \<and> sys_apcb (kern_of 2) (request 1) st = Some ((0, Some ppid), st') \<and>
    cTaskGetTask ppid st' = Some 2 \<and> cTaskGetCurrentPPID (kern_of 2) st' = ppid"
proof -
  obtain st where one: "one_task st" and g: "unat (Global_ppid st) = 101" using one_task_runs [of 0] by auto
  have reach: "ct_reach st" using one by (simp add: one_task_def)
  have g': "Global_ppid st = 101" using g by (simp add: word_unat_eq_iff)
  have free: "cTask_findFree st = int 102" "PPID_FLOATING \<le> 102" using one_task_free [OF one] by (simp_all add: task_sizes)
  from register_step(2) [OF reach free, where p = 2 and n = 1] g' obtain st' where
    op: "sys_apcb (kern_of 2) (request 1) st = Some ((0, Some 102), st')" by (simp add: task_sizes)
  have pp: "\<forall>j. PPID_FLOATING \<le> j \<and> j \<le> NUM_PTL_TASKS \<longrightarrow> ti_ppid (ct_taskInfo st j) \<noteq> 102"
  proof (intro allI impI)
    fix j assume j: "PPID_FLOATING \<le> j \<and> j \<le> NUM_PTL_TASKS"
    show "ti_ppid (ct_taskInfo st j) \<noteq> 102"
    proof (cases "j = 101")
      case False
      then have "ti_free (ct_taskInfo st j)" using one j by (simp add: one_task_def task_sizes)
      then show ?thesis using ct_reach_inv [OF reach] j by (auto simp: ct_inv_def entry_ok_def task_sizes)
    qed (use one in \<open>simp add: one_task_def entry_of_def\<close>)
  qed
  have "\<forall>j. 1 \<le> j \<and> j \<le> NUM_PTL_TASKS \<longrightarrow> ti_spid (ct_taskInfo st j) \<noteq> k_pid (kern_of 2)"
    "k_pid (kern_of 2) \<noteq> 0" using one_task_pids [OF one] by (auto simp: kern_of_def)
  from registration_round_trip [OF reach op pp this] op one show ?thesis
    by (intro exI [of _ st] exI [of _ 102] exI [of _ st']) (simp add: kern_of_def)
qed

text \<open>
  Ppids are not unique.  The counter turns over at 1000 without looking at the table:
  in a run in which one process stays registered and others come and go, a second live process
  gets the ppid of the first, and looking that ppid up gives the first process.
\<close>

theorem ppid_handed_out_twice:
  "\<exists>st. ct_reach st \<and> \<not> ti_free (ct_taskInfo st 101) \<and> \<not> ti_free (ct_taskInfo st 102) \<and>
    ti_ppid (ct_taskInfo st 101) = ti_ppid (ct_taskInfo st 102) \<and>
    cTaskGetTask (ti_ppid (ct_taskInfo st 102)) st = ti_task (ct_taskInfo st 101) \<and>
    ti_task (ct_taskInfo st 101) \<noteq> ti_task (ct_taskInfo st 102)"
proof -
  obtain st where one: "one_task st" and g: "unat (Global_ppid st) = 1000" using one_task_runs [of 899] by auto
  have g': "Global_ppid st = 1000" using g by (simp add: word_unat_eq_iff)
  have reach: "ct_reach st" using one by (simp add: one_task_def)
  have free: "cTask_findFree st = int 102" "PPID_FLOATING \<le> 102" using one_task_free [OF one] by (simp_all add: task_sizes)
  define st' where "st' = set_entry 102 (\<lambda>_. entry_of 2 101 1) (st\<lparr>Global_ppid := 101\<rparr>)"
  have reach': "ct_reach st'"
    using register_step(1) [OF reach free, where p = 2 and n = 1] g' by (simp add: st'_def task_sizes)
  have "find (\<lambda>j. ti_ppid (ct_taskInfo st' j) = 101) [PPID_FLOATING..<Suc NUM_PTL_TASKS] = Some 101"
    unfolding find_range(1) using one by (auto simp: st'_def one_task_def entry_of_def task_sizes)
  then have "findIndex 101 st' = 101" by (simp add: findIndex_def task_sizes del: upt_Suc)
  with reach' one show ?thesis
    by (intro exI [of _ st']) (simp add: st'_def one_task_def entry_of_def cTaskGetTask_def)
qed

text \<open>
  The map of ranks can be overrun.  The number of processes of a registration is not
  checked; a process that registered with more than \<open>MAX_NODES\<close> makes the module write
  past the end of the map when it sets it.  No privilege is needed.
\<close>

theorem rank_map_overrun:
  assumes "ct_reach st" "ti_ppid info = 0" "ti_nprocs info > int MAX_NODES"
    and op: "sys_apcb k info st = Some ((0, Some ppid), st')"
    and new: "\<forall>j. 1 \<le> j \<and> j \<le> NUM_PTL_TASKS \<longrightarrow> ti_spid (ct_taskInfo st j) \<noteq> k_pid k" "k_pid k \<noteq> 0"
  shows "cTask_ioctl k (CPL_SET_NID_MAP vals) f st' = None \<and> cTask_ioctl k (CPL_SET_PID_MAP pvals) f st' = None"
proof -
  from sys_apcb_registers [OF ct_reach_inv [OF assms(1)] op] assms(2) obtain i where
    i: "1 \<le> i" "i \<le> NUM_PTL_TASKS" "ti_spid (ct_taskInfo st' i) = k_pid k" "ti_nprocs (ct_taskInfo st' i) = ti_nprocs info"
    and other: "\<forall>j. j \<noteq> i \<longrightarrow> ct_taskInfo st' j = ct_taskInfo st j \<or> ct_taskInfo st' j = clear_entry (ct_taskInfo st j)"
    by blast
  have "\<forall>j. 1 \<le> j \<and> j \<le> NUM_PTL_TASKS \<and> j \<noteq> i \<longrightarrow> ti_spid (ct_taskInfo st' j) \<noteq> k_pid k"
    using other new by (metis (no_types, lifting) clear_entry_sel(2))
  then have "cTaskGetCurrentEntry k st' = Some i"
    using i unfolding cTaskGetCurrentEntry_def find_range(1) by auto
  with i(4) assms(3) show ?thesis by (simp add: set_nid_map_def set_pid_map_def)
qed

theorem rank_map_overrun_witness:
  "\<exists>st'. sys_apcb (kern_of 1) (request 3000) (cTaskInit ct_boot) = Some ((0, Some 101), st') \<and>
    \<not> k_suser (kern_of 1) \<and> cTask_ioctl (kern_of 1) (CPL_SET_NID_MAP (\<lambda>_. 7)) True st' = None"
proof -
  have free: "cTask_findFree (cTaskInit ct_boot) = int 101" "PPID_FLOATING \<le> 101"
    by (rule findFree_eq) (auto simp: cTaskInit_eq reset_entry_def task_sizes)
  from register_step(2) [OF ct_reach.boot free, where p = 1 and n = 3000] obtain st' where
    op: "sys_apcb (kern_of 1) (request 3000) (cTaskInit ct_boot) = Some ((0, Some 101), st')"
    by (simp add: task_sizes cTaskInit_eq ct_boot_def)
  have "\<forall>j. 1 \<le> j \<and> j \<le> NUM_PTL_TASKS \<longrightarrow> ti_spid (ct_taskInfo (cTaskInit ct_boot) j) \<noteq> k_pid (kern_of 1)"
    "k_pid (kern_of 1) \<noteq> 0" by (simp_all add: cTaskInit_eq reset_entry_def kern_of_def)
  with rank_map_overrun [OF ct_reach.boot _ _ op] op show ?thesis
    by (auto simp: request_def MAX_NODES_def kern_of_def)
qed

end
