(* ===== verification/K_Cache.thy ===== *)
theory K_Cache
  imports K_Task
begin

text \<open>
  The address cache of the kernel (\<open>addrCache/cache.c\<close>): the translations of the regions
  that Portals has validated, kept in tables of three sizes, and the copies between the
  kernel and user memory that use them.  The model is that of the 64-bit Alpha nodes.
\<close>

section \<open>Translation of addresses\<close>

text \<open>
  \<open>PAGE_SHIFT\<close> is a parameter of the kernel.  The page tables of a process are a
  parameter too: the address of the frame of a virtual page that is present.
\<close>

type_synonym page_tables = "64 word \<Rightarrow> 64 word option"

definition page_size :: "nat \<Rightarrow> 64 word" where
  "page_size ps = push_bit ps 1"

definition page_off :: "nat \<Rightarrow> 64 word \<Rightarrow> 64 word" where
  "page_off ps v = v AND mask ps"

definition calcPhysAddress :: "nat \<Rightarrow> page_tables \<Rightarrow> 64 word \<Rightarrow> 64 word" where
  "calcPhysAddress ps frame virt_addr =
     (case frame (drop_bit ps virt_addr) of
        None \<Rightarrow> 0
      | Some base \<Rightarrow> base + page_off ps virt_addr)"

section \<open>State\<close>

datatype addr_cache_strategy = TBL_LOOKUP | TBL_REDO

text \<open>
  A pointer to a table is the index of the table in the array of its subcache: the code
  links only tables of the same subcache.  A key is a pointer into a table.
\<close>

record addr_tbl =
  at_start :: "64 word"
  at_length :: int
  at_chunk0 :: int
  at_chunkn :: int
  at_nchunks :: int
  at_valid :: bool
  at_slot :: nat
  at_cache_id :: nat
  at_table_id :: nat
  at_next :: "nat option"
  at_prev :: "nat option"

record addr_cache =
  ac_reg_sz :: int
  ac_num_reg :: nat
  ac_num_reg_used :: int
  ac_freeTables :: int
  ac_tbl_sz :: nat
  ac_strategy :: addr_cache_strategy
  ac_addr_tbl :: "nat option"
  ac_taskTbl :: "nat \<Rightarrow> nat option"
  ac_tbls :: "nat \<Rightarrow> addr_tbl"

record addr_summary =
  as_name :: string
  as_numvals :: "nat \<Rightarrow> int"

record cache_st =
  cs_cache :: "nat \<Rightarrow> addr_cache"
  cs_slot :: "nat \<Rightarrow> 64 word"
  cs_summary :: addr_summary
  cs_rank :: int
  cs_sent :: "addr_summary list"

type_synonym addr_key = "nat \<times> nat"

definition NUM_SUBCACHES :: nat where [ptl_const]: "NUM_SUBCACHES = 3"

definition ADDR_CACHE_REG_SZ :: "nat \<Rightarrow> nat \<Rightarrow> int" where
  "ADDR_CACHE_REG_SZ ps j = (if j = 0 then uint (page_size ps) else if j = 1 then 120 * 1024 else 4088 * 1024)"

definition ADDR_CACHE_NUM_REG :: "nat \<Rightarrow> nat" where
  "ADDR_CACHE_NUM_REG j = (if j = 0 then 4096 else if j = 1 then 1024 else 256)"

definition ADDR_CACHE_TBL_SZ :: "nat \<Rightarrow> nat" where
  "ADDR_CACHE_TBL_SZ j = (if j = 0 then 2 else if j = 1 then 16 else 512)"

text \<open>The size of \<open>addrSlot\<close>.\<close>

definition NUM_SLOTS :: nat where
  "NUM_SLOTS = ADDR_CACHE_TBL_SZ 0 * ADDR_CACHE_NUM_REG 0 + ADDR_CACHE_TBL_SZ 1 * ADDR_CACHE_NUM_REG 1 +
     ADDR_CACHE_TBL_SZ 2 * ADDR_CACHE_NUM_REG 2"

definition zero_tbl :: addr_tbl where
  "zero_tbl = \<lparr>at_start = 0, at_length = 0, at_chunk0 = 0, at_chunkn = 0, at_nchunks = 0, at_valid = False,
     at_slot = 0, at_cache_id = 0, at_table_id = 0, at_next = None, at_prev = None\<rparr>"

text \<open>The static initialiser of \<open>addrCache\<close> and the zeroed arrays.\<close>

definition cache_boot :: "nat \<Rightarrow> cache_st" where
  "cache_boot ps = \<lparr>cs_cache = (\<lambda>j. \<lparr>ac_reg_sz = ADDR_CACHE_REG_SZ ps j, ac_num_reg = ADDR_CACHE_NUM_REG j,
       ac_num_reg_used = 0, ac_freeTables = int (ADDR_CACHE_NUM_REG j), ac_tbl_sz = ADDR_CACHE_TBL_SZ j,
       ac_strategy = (if j = 2 then TBL_LOOKUP else TBL_REDO), ac_addr_tbl = None, ac_taskTbl = (\<lambda>_. None),
       ac_tbls = (\<lambda>_. zero_tbl)\<rparr>),
     cs_slot = (\<lambda>_. 0), cs_summary = \<lparr>as_name = [], as_numvals = (\<lambda>_. 0)\<rparr>, cs_rank = -1, cs_sent = []\<rparr>"

definition upd_cache :: "nat \<Rightarrow> (addr_cache \<Rightarrow> addr_cache) \<Rightarrow> cache_st \<Rightarrow> cache_st" where
  "upd_cache j f st = st\<lparr>cs_cache := (cs_cache st)(j := f (cs_cache st j))\<rparr>"

definition upd_tbl :: "nat \<Rightarrow> (addr_tbl \<Rightarrow> addr_tbl) \<Rightarrow> addr_cache \<Rightarrow> addr_cache" where
  "upd_tbl i f c = c\<lparr>ac_tbls := (ac_tbls c)(i := f (ac_tbls c i))\<rparr>"

definition tbl :: "cache_st \<Rightarrow> nat \<Rightarrow> nat \<Rightarrow> addr_tbl" where
  "tbl st j i = ac_tbls (cs_cache st j) i"

section \<open>Initialisation\<close>

definition init_slots :: "cache_st \<Rightarrow> cache_st" where
  "init_slots st = fst (fold (\<lambda>j (st, slotInd).
       fold (\<lambda>i (st, slotInd).
           (upd_cache j (upd_tbl i (\<lambda>t. t\<lparr>at_table_id := i, at_cache_id := j, at_slot := slotInd\<rparr>)) st,
            slotInd + ac_tbl_sz (cs_cache st j)))
         [0..<ac_num_reg (cs_cache st j)] (st, slotInd))
     [0..<NUM_SUBCACHES] (st, 0))"

definition init_list :: "addr_cache \<Rightarrow> addr_cache" where
  "init_list c =
     (let c1 = c\<lparr>ac_num_reg_used := 0, ac_addr_tbl := Some 0, ac_freeTables := int (ac_num_reg c)\<rparr>;
          c2 = fold (\<lambda>i. upd_tbl i (\<lambda>t. t\<lparr>at_next := Some (i + 1), at_prev := None\<rparr>)) [0..<ac_num_reg c - 1] c1
      in upd_tbl (ac_num_reg c - 1) (\<lambda>t. t\<lparr>at_next := None, at_prev := None\<rparr>) c2)"

definition EIO :: int where [ptl_const]: "EIO = 5"

text \<open>The registration of the device is the parameter.\<close>

definition init_module :: "bool \<Rightarrow> cache_st \<Rightarrow> int \<times> cache_st" where
  "init_module registered st =
     (if \<not> registered then (- EIO, st)
      else (0, fold (\<lambda>j. upd_cache j init_list) [0..<NUM_SUBCACHES] (init_slots st)))"

section \<open>Lists of tables\<close>

definition addrCache_tblUnlink :: "nat \<Rightarrow> cache_st \<Rightarrow> (int \<times> cache_st) option" where
  "addrCache_tblUnlink cache_id st =
     (let c = cs_cache st cache_id
      in if ac_freeTables c \<le> 0 then Some (-1, st)
         else
           (case ac_addr_tbl c of
              None \<Rightarrow> None
            | Some table \<Rightarrow>
                Some (int (at_table_id (ac_tbls c table)),
                  upd_cache cache_id (\<lambda>c. (upd_tbl table (\<lambda>t. t\<lparr>at_next := None\<rparr>)
                    (c\<lparr>ac_addr_tbl := at_next (ac_tbls c table)\<rparr>))\<lparr>ac_freeTables := ac_freeTables c - 1\<rparr>) st)))"

definition link_table :: "nat \<Rightarrow> nat \<Rightarrow> addr_cache \<Rightarrow> addr_cache" where
  "link_table ppid table c =
     (let c1 = (case at_next (ac_tbls c table) of
                  None \<Rightarrow> c
                | Some n \<Rightarrow> upd_tbl n (\<lambda>t. t\<lparr>at_prev := at_prev (ac_tbls c table)\<rparr>) c);
          c2 = (case at_prev (ac_tbls c1 table) of
                  Some p \<Rightarrow> upd_tbl table (\<lambda>t. t\<lparr>at_prev := None\<rparr>)
                    (upd_tbl p (\<lambda>t. t\<lparr>at_next := at_next (ac_tbls c1 table)\<rparr>) c1)
                | None \<Rightarrow> c1\<lparr>ac_taskTbl := (ac_taskTbl c1)(ppid := at_next (ac_tbls c1 table))\<rparr>);
          c3 = upd_tbl table (\<lambda>t. t\<lparr>at_next := ac_addr_tbl c2\<rparr>) c2
      in c3\<lparr>ac_addr_tbl := Some table, ac_freeTables := ac_freeTables c3 + 1\<rparr>)"

text \<open>
  The table of a key, when it is one; a process whose ppid has no element in
  \<open>taskTbl\<close>.
\<close>

definition key_table :: "addr_key \<Rightarrow> cache_st \<Rightarrow> addr_key option" where
  "key_table key st =
     (let t = tbl st (fst key) (snd key)
      in if at_cache_id t < NUM_SUBCACHES \<and> at_table_id t < ADDR_CACHE_NUM_REG (at_cache_id t)
         then Some (at_cache_id t, at_table_id t) else None)"

definition good_ppid :: "int \<Rightarrow> bool" where
  "good_ppid ppid \<longleftrightarrow> 0 \<le> ppid \<and> ppid < int NUM_PTL_TASKS"

definition addrCache_tblLink :: "addr_key option \<Rightarrow> int \<Rightarrow> cache_st \<Rightarrow> cache_st option" where
  "addrCache_tblLink addrkey ppid st =
     (case addrkey of
        None \<Rightarrow> Some st
      | Some key \<Rightarrow>
          do {
            (cache_id, table_id) \<leftarrow> key_table key st;
            (if ac_strategy (cs_cache st cache_id) = TBL_LOOKUP then Some st
             else if at_prev (tbl st cache_id table_id) = None \<and> \<not> good_ppid ppid then None
             else Some (upd_cache cache_id (link_table (nat ppid) table_id) st))
          })"

definition addrCache_tblInit :: "int \<Rightarrow> ctask \<Rightarrow> cache_st \<Rightarrow> cache_st option" where
  "addrCache_tblInit ppid ct st =
     (let rank = cTaskGetRank (of_int ppid) ct;
          st1 = (if ppid > int MAX_FIXED_PPID
                 then
                   (let st1 = st\<lparr>cs_rank := rank\<rparr>
                    in if rank = 1
                       then st1\<lparr>cs_summary := \<lparr>as_name = (case cTaskGetName (of_int ppid) ct of
                              Some name \<Rightarrow> name | None \<Rightarrow> ''unknown''),
                            as_numvals = (\<lambda>j. if j < NUM_SUBCACHES then 0 else as_numvals (cs_summary st1) j)\<rparr>\<rparr>
                       else st1)
                 else st)
      in if \<not> good_ppid ppid then None
         else Some (fold (\<lambda>j. upd_cache j (\<lambda>c. c\<lparr>ac_taskTbl := (ac_taskTbl c)(nat ppid := None)\<rparr>))
           [0..<NUM_SUBCACHES] st1))"

text \<open>The loop of \<open>addrCache_tblClear\<close> over the list of a process.\<close>

partial_function (option) clear_loop :: "nat option \<Rightarrow> addr_cache \<Rightarrow> addr_cache option" where
  "clear_loop table c =
     (case table of
        None \<Rightarrow> Some c
      | Some t \<Rightarrow>
          clear_loop (at_next (ac_tbls c t))
            ((upd_tbl t (\<lambda>e. e\<lparr>at_next := ac_addr_tbl c, at_start := 0, at_length := 0\<rparr>) c)
               \<lparr>ac_addr_tbl := Some t, ac_freeTables := ac_freeTables c + 1\<rparr>))"

definition clear_cache :: "nat \<Rightarrow> nat \<Rightarrow> cache_st \<Rightarrow> cache_st option" where
  "clear_cache ppid j st =
     map_option (\<lambda>c. upd_cache j (\<lambda>_. c\<lparr>ac_taskTbl := (ac_taskTbl c)(ppid := None)\<rparr>) st)
       (clear_loop (ac_taskTbl (cs_cache st j) ppid) (cs_cache st j))"

text \<open>\<open>send_fn\<close>, which another module has registered, gets the summary.\<close>

definition addrCache_tblClear :: "int \<Rightarrow> cache_st \<Rightarrow> cache_st option" where
  "addrCache_tblClear ppid st =
     (let st1 = (if cs_rank st = 1 then st\<lparr>cs_sent := cs_sent st @ [cs_summary st]\<rparr> else st)\<lparr>cs_rank := -1\<rparr>
      in if \<not> good_ppid ppid then None
         else do {
           st2 \<leftarrow> clear_cache (nat ppid) 0 st1;
           st3 \<leftarrow> clear_cache (nat ppid) 1 st2;
           clear_cache (nat ppid) 2 st3
         })"

text \<open>The loop of \<open>addrCache_invalidate\<close>.\<close>

partial_function (option) invalidate_loop :: "nat option \<Rightarrow> addr_cache \<Rightarrow> addr_cache option" where
  "invalidate_loop table c =
     (case table of
        None \<Rightarrow> Some c
      | Some t \<Rightarrow>
          invalidate_loop (at_next (ac_tbls c t)) (upd_tbl t (\<lambda>e. e\<lparr>at_valid := False\<rparr>) c))"

definition invalidate_cache :: "nat \<Rightarrow> nat \<Rightarrow> cache_st \<Rightarrow> cache_st option" where
  "invalidate_cache ppid j st =
     map_option (\<lambda>c. upd_cache j (\<lambda>_. c) st)
       (invalidate_loop (ac_taskTbl (cs_cache st j) ppid) (cs_cache st j))"

definition addrCache_invalidate :: "kern \<Rightarrow> ctask \<Rightarrow> cache_st \<Rightarrow> cache_st option" where
  "addrCache_invalidate k ct st =
     (let ppid = uint (cTaskGetCurrentPPID k ct)
      in if \<not> good_ppid ppid then None
         else do {
           st1 \<leftarrow> invalidate_cache (nat ppid) 0 st;
           st2 \<leftarrow> invalidate_cache (nat ppid) 1 st1;
           invalidate_cache (nat ppid) 2 st2
         })"

section \<open>Filling a table\<close>

text \<open>\<open>nbytes -= chunk\<close>, of an \<open>int\<close> and an \<open>unsigned long\<close>.\<close>

definition sub_chunk :: "int \<Rightarrow> 64 word \<Rightarrow> int" where
  "sub_chunk nbytes chunk = s32 (uint (of_int nbytes - chunk))"

definition first_chunk :: "nat \<Rightarrow> 64 word \<Rightarrow> int \<Rightarrow> 64 word" where
  "first_chunk ps phys_addr nbytes =
     (if page_off ps phys_addr \<noteq> 0
      then
        (let chunk = page_size ps - page_off ps phys_addr
         in if of_int nbytes < chunk then of_int nbytes else chunk)
      else if of_int nbytes \<ge> page_size ps then page_size ps else of_int nbytes)"

definition next_chunk :: "nat \<Rightarrow> int \<Rightarrow> 64 word" where
  "next_chunk ps nbytes = (if of_int nbytes \<ge> page_size ps then page_size ps else of_int nbytes)"

text \<open>
  The loop over the pages after the first: the result is the number of chunks and the last
  chunk, or none when an address has no translation, and the slots.
\<close>

function translate_loop ::
  "nat \<Rightarrow> page_tables \<Rightarrow> int \<Rightarrow> nat \<Rightarrow> 64 word \<Rightarrow> 64 word \<Rightarrow> int \<Rightarrow> (nat \<Rightarrow> 64 word) \<Rightarrow>
     ((int \<times> 64 word) option \<times> (nat \<Rightarrow> 64 word)) option" where
  "translate_loop ps frame i index vaddr chunk nbytes slots =
     (if nbytes = 0 then Some (Some (i, chunk), slots)
      else
        (let vaddr' = vaddr + chunk; phys_addr = calcPhysAddress ps frame vaddr'
         in if phys_addr = 0 then Some (None, slots)
            else if index \<ge> NUM_SLOTS then None
            else
              (let chunk' = next_chunk ps nbytes
               in translate_loop ps frame (s32 (i + 1)) (index + 1) vaddr' chunk' (sub_chunk nbytes chunk')
                    (slots(index := phys_addr)))))"
  by pat_completeness auto
termination by (relation "measure (\<lambda>(ps, frame, i, index, vaddr, chunk, nbytes, slots). NUM_SLOTS - index)") auto

text \<open>
  The part that \<open>addrCache_populate\<close> and \<open>addrCache_revalidate\<close> share; the result is
  whether every address has a translation.
\<close>

definition fill_table ::
  "nat \<Rightarrow> page_tables \<Rightarrow> 64 word \<Rightarrow> int \<Rightarrow> nat \<Rightarrow> nat \<Rightarrow> cache_st \<Rightarrow> (bool \<times> cache_st) option" where
  "fill_table ps frame vaddr nbytes j i st =
     (let put = (\<lambda>f st. upd_cache j (upd_tbl i f) st);
          st1 = put (\<lambda>t. t\<lparr>at_start := vaddr, at_length := nbytes\<rparr>) st;
          phys_addr = calcPhysAddress ps frame vaddr;
          index = at_slot (tbl st j i)
      in if phys_addr = 0 then Some (False, put (\<lambda>t. t\<lparr>at_length := 0\<rparr>) st1)
         else if index \<ge> NUM_SLOTS then None
         else
           (let chunk = first_chunk ps phys_addr nbytes;
                st2 = put (\<lambda>t. t\<lparr>at_chunk0 := s32 (uint chunk)\<rparr>) st1
            in do {
              (r, slots) \<leftarrow> translate_loop ps frame 0 (index + 1) vaddr chunk (sub_chunk nbytes chunk)
                ((cs_slot st)(index := phys_addr));
              let st3 = st2\<lparr>cs_slot := slots\<rparr>;
              Some (case r of
                 None \<Rightarrow> (False, put (\<lambda>t. t\<lparr>at_length := 0\<rparr>) st3)
               | Some (n, chunkn) \<Rightarrow>
                   (True, put (\<lambda>t. t\<lparr>at_chunkn := s32 (uint chunkn), at_nchunks := n, at_valid := True\<rparr>) st3))
            }))"

definition addrCache_revalidate ::
  "nat \<Rightarrow> page_tables \<Rightarrow> nat \<Rightarrow> nat \<Rightarrow> 64 word \<Rightarrow> int \<Rightarrow> cache_st \<Rightarrow> (int \<times> cache_st) option" where
  "addrCache_revalidate ps frame j i vaddr nbytes st =
     (if vaddr = 0 \<or> nbytes = 0 then Some (0, upd_cache j (upd_tbl i (\<lambda>t. t\<lparr>at_valid := True\<rparr>)) st)
      else map_option (\<lambda>(ok, st'). (if ok then 0 else -1, st')) (fill_table ps frame vaddr nbytes j i st))"

section \<open>Validating a region\<close>

text \<open>The search in the list of a process.\<close>

partial_function (option) search_loop :: "64 word \<Rightarrow> nat option \<Rightarrow> addr_cache \<Rightarrow> nat option option" where
  "search_loop vaddr table c =
     (case table of
        None \<Rightarrow> Some None
      | Some t \<Rightarrow>
          if at_start (ac_tbls c t) = vaddr then Some (Some t)
          else search_loop vaddr (at_next (ac_tbls c t)) c)"

definition pick_cache :: "int \<Rightarrow> cache_st \<Rightarrow> nat" where
  "pick_cache nbytes st =
     (if nbytes \<le> ac_reg_sz (cs_cache st 0) then 0
      else if nbytes \<le> ac_reg_sz (cs_cache st 1) then 1 else 2)"

text \<open>Putting a table in front of the list of a process.\<close>

definition push_redo :: "nat \<Rightarrow> nat \<Rightarrow> addr_cache \<Rightarrow> addr_cache" where
  "push_redo ppid i c =
     (let c1 = upd_tbl i (\<lambda>t. t\<lparr>at_next := ac_taskTbl c ppid\<rparr>) c;
          c2 = (case at_next (ac_tbls c1 i) of
                  None \<Rightarrow> c1
                | Some n \<Rightarrow> upd_tbl n (\<lambda>t. t\<lparr>at_prev := Some i\<rparr>) c1)
      in c2\<lparr>ac_taskTbl := (ac_taskTbl c2)(ppid := Some i)\<rparr>)"

definition push_lookup :: "nat \<Rightarrow> nat \<Rightarrow> addr_cache \<Rightarrow> addr_cache" where
  "push_lookup ppid i c =
     (upd_tbl i (\<lambda>t. t\<lparr>at_next := ac_taskTbl c ppid\<rparr>) c)\<lparr>ac_taskTbl := (ac_taskTbl c)(ppid := Some i)\<rparr>"

definition count_validation :: "int \<Rightarrow> nat \<Rightarrow> cache_st \<Rightarrow> cache_st" where
  "count_validation ppid j st =
     (if ppid > int MAX_FIXED_PPID
      then st\<lparr>cs_summary := (cs_summary st)\<lparr>as_numvals :=
        (as_numvals (cs_summary st))(j := s32 (as_numvals (cs_summary st) j + 1))\<rparr>\<rparr>
      else st)"

text \<open>
  The selection of a table: the table and whether the region is validated already, or none
  when there is no table left.
\<close>

definition pick_table ::
  "64 word \<Rightarrow> int \<Rightarrow> int \<Rightarrow> nat \<Rightarrow> cache_st \<Rightarrow> ((nat \<times> bool) option \<times> cache_st) option" where
  "pick_table vaddr nbytes ppid j st =
     (case ac_strategy (cs_cache st j) of
        TBL_REDO \<Rightarrow>
          do {
            (i, st1) \<leftarrow> addrCache_tblUnlink j st;
            (if i < 0 then Some (None, st1)
             else if \<not> good_ppid ppid then None
             else Some (Some (nat i, False), upd_cache j (push_redo (nat ppid) (nat i)) st1))
          }
      | TBL_LOOKUP \<Rightarrow>
          (if \<not> good_ppid ppid then None
           else do {
             found \<leftarrow> search_loop vaddr (ac_taskTbl (cs_cache st j) (nat ppid)) (cs_cache st j);
             (case found of
                Some t \<Rightarrow>
                  Some (Some (t, at_length (tbl st j t) \<ge> nbytes \<and> at_valid (tbl st j t)), st)
              | None \<Rightarrow>
                  do {
                    (i, st1) \<leftarrow> addrCache_tblUnlink j st;
                    (if i < 0 then Some (None, st1)
                     else Some (Some (nat i, False),
                       count_validation ppid j (upd_cache j (push_lookup (nat ppid) (nat i)) st1)))
                  })
           }))"

definition addrCache_populate ::
  "nat \<Rightarrow> page_tables \<Rightarrow> 64 word \<Rightarrow> int \<Rightarrow> int \<Rightarrow> cache_st \<Rightarrow> ((int \<times> addr_key option) \<times> cache_st) option" where
  "addrCache_populate ps frame vaddr nbytes ppid st =
     (if vaddr = 0 \<or> nbytes = 0 then Some ((0, None), st)
      else
        (let j = pick_cache nbytes st
         in do {
           (picked, st1) \<leftarrow> pick_table vaddr nbytes ppid j st;
           (case picked of
              None \<Rightarrow> Some ((-1, None), st1)
            | Some (i, validated) \<Rightarrow>
                if validated then Some ((0, Some (j, i)), st1)
                else map_option (\<lambda>(ok, st2). (if ok then (0, Some (j, i)) else (-1, None), st2))
                  (fill_table ps frame vaddr nbytes j i st1))
         }))"

section \<open>Copies\<close>

type_synonym memory = "64 word \<Rightarrow> 8 word"

definition memcpy :: "64 word \<Rightarrow> 64 word \<Rightarrow> 64 word \<Rightarrow> memory \<Rightarrow> memory" where
  "memcpy dst src n mem = (\<lambda>a. if a - dst < n then mem (src + (a - dst)) else mem a)"

text \<open>A block of a copy: the slot, the offset into the page and the length.\<close>

type_synonym block = "nat \<times> 64 word \<times> 64 word"

function copy_loop :: "nat \<Rightarrow> nat \<Rightarrow> int \<Rightarrow> block list option" where
  "copy_loop ps index nbytes =
     (if nbytes = 0 then Some []
      else if index \<ge> NUM_SLOTS then None
      else
        (let block = (if of_int nbytes < page_size ps then of_int nbytes else page_size ps)
         in map_option ((#) (index, 0, block)) (copy_loop ps (index + 1) (sub_chunk nbytes block))))"
  by pat_completeness auto
termination by (relation "measure (\<lambda>(ps, index, nbytes). NUM_SLOTS - index)") auto

text \<open>
  The blocks of a copy at an offset that is not negative: \<open>offset\<close> is an \<open>int\<close>, and
  the division and the mask are those of \<open>unsigned long\<close>.
\<close>

definition copy_blocks :: "nat \<Rightarrow> addr_tbl \<Rightarrow> int \<Rightarrow> int \<Rightarrow> block list option" where
  "copy_blocks ps t offset nbytes =
     (let (index, off, block) =
            (if offset - at_chunk0 t \<ge> 0
             then
               (let o1 = (of_int (offset - at_chunk0 t) :: 64 word)
                in (unat (o1 div page_size ps) + 1, page_off ps o1, page_size ps - page_off ps o1))
             else (0, of_int offset, of_int (at_chunk0 t - offset)));
          block = (if of_int nbytes < block then of_int nbytes else block);
          index = index + at_slot t
      in if index \<ge> NUM_SLOTS then None
         else map_option ((#) (index, off, block)) (copy_loop ps (index + 1) (sub_chunk nbytes block)))"

text \<open>
  The tests and the revalidation at the start of both copies: the offset, or none when the
  copy is refused.
\<close>

definition copy_check ::
  "nat \<Rightarrow> page_tables \<Rightarrow> 64 word \<Rightarrow> int \<Rightarrow> addr_key \<Rightarrow> cache_st \<Rightarrow> (int option \<times> cache_st) option" where
  "copy_check ps frame vaddr nbytes key st =
     (let (j, i) = key
      in if at_length (tbl st j i) < nbytes then Some (None, st)
         else do {
           (rc, st1) \<leftarrow> (if at_valid (tbl st j i) then Some (0, st)
             else addrCache_revalidate ps frame j i (at_start (tbl st j i)) (at_length (tbl st j i)) st);
           (if rc < 0 then Some (None, st1)
            else
              (let offset = s32 (uint (vaddr - at_start (tbl st1 j i)))
               in if offset < 0 then Some (None, st1)
                  else if s32 (offset + nbytes) > at_length (tbl st1 j i) then Some (None, st1)
                  else Some (Some offset, st1)))
         })"

fun run_to :: "(nat \<Rightarrow> 64 word) \<Rightarrow> block list \<Rightarrow> 64 word \<Rightarrow> memory \<Rightarrow> memory" where
  "run_to slots [] from mem = mem"
| "run_to slots ((index, off, block) # bs) from mem =
     run_to slots bs (from + block) (memcpy (slots index + off) from block mem)"

fun run_from :: "(nat \<Rightarrow> 64 word) \<Rightarrow> block list \<Rightarrow> 64 word \<Rightarrow> memory \<Rightarrow> memory" where
  "run_from slots [] to mem = mem"
| "run_from slots ((index, off, block) # bs) to mem =
     run_from slots bs (to + block) (memcpy to (slots index + off) block mem)"

definition memcpy3_to_user ::
  "nat \<Rightarrow> page_tables \<Rightarrow> 64 word \<Rightarrow> 64 word \<Rightarrow> int \<Rightarrow> addr_key option \<Rightarrow> memory \<Rightarrow> cache_st \<Rightarrow>
     (int \<times> memory \<times> cache_st) option" where
  "memcpy3_to_user ps frame vaddr from nbytes addrkey mem st =
     do {
       ptr \<leftarrow> addrkey;
       (j, i) \<leftarrow> key_table ptr st;
       (checked, st1) \<leftarrow> copy_check ps frame vaddr nbytes (j, i) st;
       (case checked of
          None \<Rightarrow> Some (-1, mem, st1)
        | Some offset \<Rightarrow>
            map_option (\<lambda>bs. (0, run_to (cs_slot st1) bs from mem, st1)) (copy_blocks ps (tbl st1 j i) offset nbytes))
     }"

definition memcpy3_from_user ::
  "nat \<Rightarrow> page_tables \<Rightarrow> 64 word \<Rightarrow> 64 word \<Rightarrow> int \<Rightarrow> addr_key option \<Rightarrow> memory \<Rightarrow> cache_st \<Rightarrow>
     (int \<times> memory \<times> cache_st) option" where
  "memcpy3_from_user ps frame to vaddr nbytes addrkey mem st =
     do {
       ptr \<leftarrow> addrkey;
       (j, i) \<leftarrow> key_table ptr st;
       (checked, st1) \<leftarrow> copy_check ps frame vaddr nbytes (j, i) st;
       (case checked of
          None \<Rightarrow> Some (-1, mem, st1)
        | Some offset \<Rightarrow>
            map_option (\<lambda>bs. (0, run_from (cs_slot st1) bs to mem, st1)) (copy_blocks ps (tbl st1 j i) offset nbytes))
     }"

section \<open>The device\<close>

text \<open>
  The display of the tables of a process, as the list of what it prints: the key, the start
  and the length.
\<close>

partial_function (option) display_loop ::
  "nat option \<Rightarrow> addr_cache \<Rightarrow> (nat \<times> nat \<times> 64 word \<times> int) list option" where
  "display_loop table c =
     (case table of
        None \<Rightarrow> Some []
      | Some t \<Rightarrow>
          do {
            rest \<leftarrow> display_loop (at_next (ac_tbls c t)) c;
            Some ((at_cache_id (ac_tbls c t), at_table_id (ac_tbls c t), at_start (ac_tbls c t), at_length (ac_tbls c t)) # rest)
          })"

definition addrCache_display :: "int \<Rightarrow> cache_st \<Rightarrow> (nat \<times> nat \<times> 64 word \<times> int) list option" where
  "addrCache_display ppid st =
     (if \<not> good_ppid ppid then None
      else do {
        l0 \<leftarrow> display_loop (ac_taskTbl (cs_cache st 0) (nat ppid)) (cs_cache st 0);
        l1 \<leftarrow> display_loop (ac_taskTbl (cs_cache st 1) (nat ppid)) (cs_cache st 1);
        l2 \<leftarrow> display_loop (ac_taskTbl (cs_cache st 2) (nat ppid)) (cs_cache st 2);
        Some (l0 @ l1 @ l2)
      })"

text \<open>
  \<open>addrCache_ioctl\<close>: the result of the copy to the user and the memory area of an address
  (whether it is writable) are those of the kernel.
\<close>

datatype cache_cmd =
    CACHE_GET_ADDR_LIST int
  | CACHE_GET_VAL int
  | CACHE_INVALIDATE
  | CACHE_USER_PAGE_IS_RDONLY "bool option"
  | CACHE_UNKNOWN

fun addrCache_ioctl :: "kern \<Rightarrow> ctask \<Rightarrow> cache_cmd \<Rightarrow> cache_st \<Rightarrow> (int \<times> cache_st) option" where
  "addrCache_ioctl k ct (CACHE_GET_ADDR_LIST rc) st = Some (if rc < 0 then -1 else 0, st)"
| "addrCache_ioctl k ct (CACHE_GET_VAL arg) st = map_option (\<lambda>_. (0, st)) (addrCache_display arg st)"
| "addrCache_ioctl k ct CACHE_INVALIDATE st = map_option (\<lambda>st'. (0, st')) (addrCache_invalidate k ct st)"
| "addrCache_ioctl k ct (CACHE_USER_PAGE_IS_RDONLY vma) st =
     Some (case vma of None \<Rightarrow> -1 | Some writable \<Rightarrow> if writable then 0 else 1, st)"
| "addrCache_ioctl k ct CACHE_UNKNOWN st = Some (- EINVAL, st)"

declare translate_loop.simps [simp del] copy_loop.simps [simp del]

end
