(* ===== verification/K_CacheCopy.thy ===== *)
theory K_CacheCopy
  imports K_Cache
begin

text \<open>
  Translations and copies of the address cache: a table that was filled describes the region
  it was filled for, and a copy through it moves exactly the bytes of the user's addresses.
\<close>

section \<open>Words\<close>

lemma unat_less_64: "unat (v :: 64 word) < 2 ^ 64"
  by (rule order_less_le_trans [OF unsigned_less]) simp

lemma page_size_of_nat: "page_size ps = of_nat (2 ^ ps)"
  by (simp add: page_size_def push_bit_eq_mult)

lemma page_size_unat: "ps < 64 \<Longrightarrow> unat (page_size ps) = 2 ^ ps"
  unfolding page_size_of_nat unat_of_nat
  using power_strict_increasing [of ps 64 "2 :: nat"] by (simp add: take_bit_nat_eq_self)

lemma page_off_unat: "unat (page_off ps v) = unat v mod 2 ^ ps"
  unfolding page_off_def take_bit_eq_mask [symmetric] unsigned_take_bit_eq by (rule take_bit_eq_mod)

lemma drop_bit_unat: "unat (drop_bit ps (v :: 64 word)) = unat v div 2 ^ ps"
  unfolding unat_drop_bit_eq by (rule drop_bit_eq_div)

lemma unat_of_int_nat: "n < 2 ^ 31 \<Longrightarrow> unat (of_int (int n) :: 64 word) = n"
  by (simp add: unat_of_nat)

lemma sub_chunk_nat:
  assumes "unat c \<le> n" "n < 2 ^ 31"
  shows "sub_chunk (int n) c = int (n - unat c)"
proof -
  have "(of_int (int n) :: 64 word) - c = of_nat (n - unat c)"
    using assms by (simp add: of_nat_diff)
  then have "uint ((of_int (int n) :: 64 word) - c) = uint (of_nat (n - unat c) :: 64 word)" by (simp only:)
  also have "\<dots> = int (n - unat c)" using assms by (simp only: uint_nat unat_of_nat) (simp add: take_bit_nat_eq_self)
  finally have "uint ((of_int (int n) :: 64 word) - c) = int (n - unat c)" .
  moreover have "n - unat c < 2 ^ 31" using assms(2) by linarith
  then have "s32 (int (n - unat c)) = int (n - unat c)" by (intro s32_id) (simp add: c_int_def del: of_nat_diff)
  ultimately show ?thesis by (simp only: sub_chunk_def)
qed

lemma next_chunk_unat: "n < 2 ^ 31 \<Longrightarrow> ps < 31 \<Longrightarrow> unat (next_chunk ps (int n)) = min n (2 ^ ps)"
  using page_size_unat [of ps] unat_of_int_nat [of n]
  by (auto simp: next_chunk_def word_le_nat_alt min_def simp del: of_int_of_nat_eq)

section \<open>Page tables\<close>

text \<open>Frames lie on page boundaries, and no frame is at address 0.\<close>

definition frames_ok :: "nat \<Rightarrow> page_tables \<Rightarrow> bool" where
  "frames_ok ps frame \<longleftrightarrow> (\<forall>p b. frame p = Some b \<longrightarrow> page_off ps b = 0 \<and> b \<noteq> 0)"

lemma div_mod_page: "(x :: nat) < p \<Longrightarrow> (x + q * p) div p = q" "x < p \<Longrightarrow> (x + q * p) mod p = x"
  by simp_all

lemma page_off_linear:
  assumes "unat (page_off ps v) + d < 2 ^ ps" "ps < 64"
  shows "drop_bit ps (v + of_nat d) = drop_bit ps v" "page_off ps (v + of_nat d) = page_off ps v + of_nat d"
proof -
  have m: "unat v mod 2 ^ ps + d < 2 ^ ps" using assms(1) by (simp add: page_off_unat)
  have v: "unat v = 2 ^ ps * (unat v div 2 ^ ps) + unat v mod 2 ^ ps" by simp
  have "2 ^ ps * (unat v div 2 ^ ps) + 2 ^ ps \<le> 2 ^ 64"
  proof -
    have "unat v div 2 ^ ps < 2 ^ (64 - ps)"
      using unat_less_64 [of v] assms(2) by (intro less_mult_imp_div_less) (simp flip: power_add)
    then have "2 ^ ps * Suc (unat v div 2 ^ ps) \<le> 2 ^ ps * 2 ^ (64 - ps)" by (intro mult_le_mono2) simp
    with assms(2) show ?thesis by (simp flip: power_add)
  qed
  then have lt: "unat v + d < 2 ^ 64" using m v by linarith
  then have sum: "unat (v + of_nat d) = unat v + d" by (simp add: unat_word_ariths unat_of_nat)
  have "unat v + d = (unat v mod 2 ^ ps + d) + unat v div 2 ^ ps * 2 ^ ps"
    using mod_div_mult_eq [of "unat v" "2 ^ ps"] by linarith
  then have "(unat v + d) div 2 ^ ps = unat v div 2 ^ ps" "(unat v + d) mod 2 ^ ps = unat v mod 2 ^ ps + d"
    using div_mod_page [OF m, of "unat v div 2 ^ ps"] by (simp_all only:)
  moreover have "unat v mod 2 ^ ps + d < 2 ^ 64" using lt mod_less_eq_dividend [of "unat v" "2 ^ ps"] by linarith
  ultimately show "drop_bit ps (v + of_nat d) = drop_bit ps v" "page_off ps (v + of_nat d) = page_off ps v + of_nat d"
    using sum lt m by (simp_all add: word_unat_eq_iff drop_bit_unat page_off_unat unat_word_ariths unat_of_nat)
qed

lemma page_off_add:
  assumes "page_off ps b = 0" "ps < 64"
  shows "page_off ps (b + page_off ps v) = page_off ps v"
proof -
  have "unat (page_off ps b) + unat (page_off ps v) < 2 ^ ps"
    using assms(1) by (simp add: page_off_unat [of ps v])
  from page_off_linear(2) [OF this assms(2)] assms(1) show ?thesis by simp
qed

text \<open>Within a page the translation is an offset.\<close>

lemma calcPhys_page_off:
  assumes "frames_ok ps frame" "calcPhysAddress ps frame v \<noteq> 0" "ps < 64"
  shows "page_off ps (calcPhysAddress ps frame v) = page_off ps v"
  using assms by (auto simp: calcPhysAddress_def frames_ok_def page_off_add split: option.splits)

lemma calcPhys_linear:
  assumes "calcPhysAddress ps frame v \<noteq> 0" "unat (page_off ps v) + d < 2 ^ ps" "ps < 64"
  shows "calcPhysAddress ps frame (v + of_nat d) = calcPhysAddress ps frame v + of_nat d"
  using assms(1) page_off_linear [OF assms(2,3)] by (auto simp: calcPhysAddress_def split: option.splits)

lemma page_aligned_step:
  assumes "page_off ps v = 0" "ps < 64"
  shows "page_off ps (v + of_nat (k * 2 ^ ps)) = 0"
proof -
  have p: "(2 :: nat) ^ ps dvd 2 ^ 64" using assms(2) by (intro le_imp_power_dvd) simp
  have "2 ^ ps dvd unat v" using assms(1) page_off_unat [of ps v] by (simp add: dvd_eq_mod_eq_0)
  moreover have "2 ^ ps dvd unat (of_nat (k * 2 ^ ps) :: 64 word)"
    unfolding unat_of_nat take_bit_eq_mod using p by (intro dvd_mod) simp_all
  ultimately have "2 ^ ps dvd unat (v + of_nat (k * 2 ^ ps))"
    unfolding unat_word_ariths using p by (intro dvd_mod dvd_add) simp_all
  then have "unat (page_off ps (v + of_nat (k * 2 ^ ps))) = 0"
    by (simp only: page_off_unat dvd_eq_mod_eq_0)
  then show ?thesis by (simp only: unat_eq_zero)
qed

text \<open>The first chunk ends at a page boundary or with the region.\<close>

lemma first_chunk_unat:
  assumes "frames_ok ps frame" "calcPhysAddress ps frame v \<noteq> 0" "n < 2 ^ 31" "ps < 31"
  shows "unat (first_chunk ps (calcPhysAddress ps frame v) (int n)) = min n (2 ^ ps - unat (page_off ps v))"
proof -
  let ?o = "page_off ps v"
  have o: "page_off ps (calcPhysAddress ps frame v) = ?o" using assms by (intro calcPhys_page_off) simp_all
  have P: "unat (page_size ps) = 2 ^ ps" using assms(4) by (intro page_size_unat) simp
  have "unat ?o < 2 ^ ps" by (simp add: page_off_unat)
  then have sub: "unat (page_size ps - ?o) = 2 ^ ps - unat ?o"
    using P by (simp add: unat_sub word_le_nat_alt)
  show ?thesis
    using unat_of_int_nat [OF assms(3)] P sub unfolding first_chunk_def o Let_def
    by (auto simp: word_less_nat_alt word_le_nat_alt min_def unat_eq_zero simp del: of_int_of_nat_eq)
qed

section \<open>A filled table describes its region\<close>

definition pages :: "nat \<Rightarrow> nat \<Rightarrow> nat" where
  "pages ps n = (n + 2 ^ ps - 1) div 2 ^ ps"

lemma pages_0 [simp]: "pages ps 0 = 0"
  by (simp add: pages_def)

lemma div_ceil_step:
  assumes "0 < (n :: nat)" "0 < p"
  shows "(n + p - 1) div p = Suc ((n - min n p + p - 1) div p)"
proof (cases "p \<le> n")
  case True
  then obtain m where n: "n = p + m" using le_Suc_ex by blast
  have "n + p - 1 = (m + p - 1) + p" using assms(2) n by linarith
  then have "(n + p - 1) div p = Suc ((m + p - 1) div p)" using assms(2) by (simp only: div_add_self2)
  then show ?thesis using n by simp
next
  case False
  then have "n + p - 1 = (n - 1) + 1 * p" "n - 1 < p" using assms by linarith+
  then have "(n + p - 1) div p = 1" using div_mod_page(1) [of "n - 1" p 1] by (simp only:)
  then show ?thesis using False assms by simp
qed

lemma pages_pos: "0 < n \<Longrightarrow> pages ps n = Suc (pages ps (n - min n (2 ^ ps)))"
  unfolding pages_def by (rule div_ceil_step) simp_all

lemma pages_mono: "m \<le> n \<Longrightarrow> pages ps m \<le> pages ps n"
  by (simp add: pages_def div_le_mono)

text \<open>The pages after the first chunk have their translations in the slots.\<close>

definition slot_has :: "(nat \<Rightarrow> 64 word) \<Rightarrow> nat \<Rightarrow> 64 word \<Rightarrow> bool" where
  "slot_has slots x a \<longleftrightarrow> x < NUM_SLOTS \<and> slots x = a \<and> a \<noteq> 0"

lemma translate_loop_ok:
  assumes "translate_loop ps frame i index vaddr chunk (int n) slots = Some (Some r, slots')"
    and "n < 2 ^ 31" "ps < 31"
  shows "(\<forall>k < pages ps n. slot_has slots' (index + k) (calcPhysAddress ps frame (vaddr + chunk + of_nat (k * 2 ^ ps)))) \<and>
    (\<forall>x. x < index \<or> index + pages ps n \<le> x \<longrightarrow> slots' x = slots x)"
  using assms
proof (induction n arbitrary: i index vaddr chunk slots rule: less_induct)
  case (less n)
  let ?v = "vaddr + chunk" and ?c = "next_chunk ps (int n)"
  show ?case
  proof (cases "n = 0")
    case True
    with less.prems show ?thesis by (simp add: translate_loop.simps)
  next
    case False
    have c: "unat ?c = min n (2 ^ ps)" using less.prems by (intro next_chunk_unat)
    have rest: "sub_chunk (int n) ?c = int (n - min n (2 ^ ps))" using c less.prems by (subst sub_chunk_nat) simp_all
    have step: "calcPhysAddress ps frame ?v \<noteq> 0" "index < NUM_SLOTS"
      "translate_loop ps frame (s32 (i + 1)) (index + 1) ?v ?c (int (n - min n (2 ^ ps)))
         (slots(index := calcPhysAddress ps frame ?v)) = Some (Some r, slots')"
      using less.prems(1) False rest translate_loop.simps [of ps frame i index vaddr chunk "int n" slots]
      by (simp_all add: Let_def not_le split: if_splits)
    let ?m = "n - min n (2 ^ ps)"
    have m: "?m < n" "?m < 2 ^ 31" using False less.prems(2) by auto
    note IH = less.IH [OF m(1) step(3) m(2) less.prems(3)]
    have next_page: "?v + ?c + of_nat (k * 2 ^ ps) = ?v + of_nat (Suc k * 2 ^ ps)" if "k < pages ps ?m" for k
    proof -
      have "0 < ?m" using that by (cases "?m = 0") simp_all
      then have "unat ?c = 2 ^ ps" using c by linarith
      then have "?c = of_nat (2 ^ ps)"
        unfolding page_size_of_nat [symmetric] word_unat_eq_iff using less.prems(3) by (simp add: page_size_unat)
      then show ?thesis by (simp add: algebra_simps)
    qed
    have pg: "pages ps n = Suc (pages ps ?m)" using False by (intro pages_pos) simp
    have "slot_has slots' (index + k) (calcPhysAddress ps frame (?v + of_nat (k * 2 ^ ps)))" if k: "k < pages ps n" for k
    proof (cases k)
      case 0
      then show ?thesis using conjunct2 [OF IH, rule_format, of index] step(1,2) by (simp add: slot_has_def)
    next
      case (Suc l)
      then have l: "l < pages ps ?m" using k pg by simp
      from conjunct1 [OF IH, rule_format, OF l] show ?thesis unfolding next_page [OF l] Suc by simp
    qed
    moreover have "slots' x = slots x" if "x < index \<or> index + pages ps n \<le> x" for x
      using that conjunct2 [OF IH, rule_format, of x] by (auto simp: pg)
    ultimately show ?thesis by blast
  qed
qed

text \<open>Only the slots of the region are written, whether the translation succeeds or not.\<close>

lemma translate_loop_frame:
  assumes "translate_loop ps frame i index vaddr chunk (int n) slots = Some (r, slots')" "n < 2 ^ 31" "ps < 31"
  shows "\<forall>x. x < index \<or> index + pages ps n \<le> x \<longrightarrow> slots' x = slots x"
  using assms
proof (induction n arbitrary: i index vaddr chunk slots rule: less_induct)
  case (less n)
  let ?v = "vaddr + chunk" and ?c = "next_chunk ps (int n)" and ?m = "n - min n (2 ^ ps)"
  show ?case
  proof (cases "n = 0 \<or> calcPhysAddress ps frame ?v = 0")
    case True
    with less.prems(1) show ?thesis
      by (auto simp: Let_def translate_loop.simps [of ps frame i index vaddr chunk "int n" slots] split: if_splits)
  next
    case False
    have c: "unat ?c = min n (2 ^ ps)" using less.prems by (intro next_chunk_unat)
    have rest: "sub_chunk (int n) ?c = int ?m" using c less.prems by (subst sub_chunk_nat) simp_all
    have step: "translate_loop ps frame (s32 (i + 1)) (index + 1) ?v ?c (int ?m)
         (slots(index := calcPhysAddress ps frame ?v)) = Some (r, slots')"
      using less.prems(1) False rest translate_loop.simps [of ps frame i index vaddr chunk "int n" slots]
      by (simp add: Let_def split: if_splits)
    have m: "?m < n" "?m < 2 ^ 31" using False less.prems(2) by auto
    have pg: "pages ps n = Suc (pages ps ?m)" using False by (intro pages_pos) simp
    from less.IH [OF m(1) step m(2) less.prems(3)] show ?thesis by (auto simp: pg)
  qed
qed

text \<open>
  The table describes the region of its start and length: the first slot has the
  translation of the start, the others those of the page boundaries after it.
\<close>

definition region_ok :: "nat \<Rightarrow> page_tables \<Rightarrow> (nat \<Rightarrow> 64 word) \<Rightarrow> addr_tbl \<Rightarrow> 64 word \<Rightarrow> nat \<Rightarrow> bool" where
  "region_ok ps frame slots t start len \<longleftrightarrow>
     at_start t = start \<and> at_length t = int len \<and> at_valid t \<and>
     at_chunk0 t = int (min len (2 ^ ps - unat (page_off ps start))) \<and>
     slot_has slots (at_slot t) (calcPhysAddress ps frame start) \<and>
     (\<forall>k < pages ps (len - nat (at_chunk0 t)).
        slot_has slots (at_slot t + 1 + k) (calcPhysAddress ps frame (start + of_nat (nat (at_chunk0 t) + k * 2 ^ ps))))"

lemma upd_cache_sel [simp]:
  "cs_cache (upd_cache j f st) = (cs_cache st)(j := f (cs_cache st j))"
  "cs_slot (upd_cache j f st) = cs_slot st"
  "cs_summary (upd_cache j f st) = cs_summary st"
  "cs_rank (upd_cache j f st) = cs_rank st"
  by (simp_all add: upd_cache_def)

lemma upd_tbl_sel [simp]:
  "ac_tbls (upd_tbl i f c) = (ac_tbls c)(i := f (ac_tbls c i))"
  "ac_reg_sz (upd_tbl i f c) = ac_reg_sz c" "ac_num_reg (upd_tbl i f c) = ac_num_reg c"
  "ac_freeTables (upd_tbl i f c) = ac_freeTables c" "ac_tbl_sz (upd_tbl i f c) = ac_tbl_sz c"
  "ac_strategy (upd_tbl i f c) = ac_strategy c" "ac_addr_tbl (upd_tbl i f c) = ac_addr_tbl c"
  "ac_taskTbl (upd_tbl i f c) = ac_taskTbl c" "ac_num_reg_used (upd_tbl i f c) = ac_num_reg_used c"
  by (simp_all add: upd_tbl_def)

lemma fill_table_ok:
  assumes fill: "fill_table ps frame vaddr (int n) j i st = Some (True, st')"
    and n: "0 < n" "n < 2 ^ 31" "ps < 31" and fr: "frames_ok ps frame"
  shows "region_ok ps frame (cs_slot st') (tbl st' j i) vaddr n"
    "\<forall>x. x < at_slot (tbl st j i) \<or> at_slot (tbl st j i) + 1 + pages ps (n - min n (2 ^ ps - unat (page_off ps vaddr))) \<le> x \<longrightarrow>
       cs_slot st' x = cs_slot st x"
proof -
  let ?p = "calcPhysAddress ps frame vaddr" and ?s = "at_slot (tbl st j i)"
  let ?c = "first_chunk ps ?p (int n)" and ?m = "min n (2 ^ ps - unat (page_off ps vaddr))"
  from fill have p: "?p \<noteq> 0" and s: "?s < NUM_SLOTS" by (auto simp: fill_table_def Let_def not_le split: if_splits)
  have c: "unat ?c = ?m" by (rule first_chunk_unat [OF fr p n(2,3)])
  have rest: "sub_chunk (int n) ?c = int (n - ?m)" using c n(2) by (subst sub_chunk_nat) simp_all
  have uc: "s32 (uint ?c) = int ?m"
    using n(2) by (simp only: uint_nat c) (intro s32_id, simp add: c_int_def)
  from fill p s rest obtain k cn slots' where
    loop: "translate_loop ps frame 0 (?s + 1) vaddr ?c (int (n - ?m)) ((cs_slot st)(?s := ?p)) = Some (Some (k, cn), slots')"
    and st': "cs_slot st' = slots'" "tbl st' j i = (tbl st j i)\<lparr>at_start := vaddr, at_length := int n, at_chunk0 := int ?m,
      at_chunkn := s32 (uint cn), at_nchunks := k, at_valid := True\<rparr>"
    by (auto simp: fill_table_def Let_def not_le uc bind_eq_Some_conv tbl_def split: if_splits option.splits)
  have m: "n - ?m < 2 ^ 31" using n(2) by linarith
  note L = translate_loop_ok [OF loop m n(3)]
  have "?c = of_nat ?m" using c n(2) by (simp add: word_unat_eq_iff unat_of_nat take_bit_nat_eq_self)
  moreover have "slot_has slots' ?s ?p" using L p s by (simp add: slot_has_def)
  ultimately show "region_ok ps frame (cs_slot st') (tbl st' j i) vaddr n"
    using L by (simp add: region_ok_def st' add.assoc)
  show "\<forall>x. x < ?s \<or> ?s + 1 + pages ps (n - ?m) \<le> x \<longrightarrow> cs_slot st' x = cs_slot st x"
    using L by (simp add: st')
qed

section \<open>The blocks of a copy\<close>

text \<open>The addresses a list of blocks goes through, byte by byte.\<close>

definition block_addrs :: "(nat \<Rightarrow> 64 word) \<Rightarrow> block list \<Rightarrow> 64 word list" where
  "block_addrs slots bs = concat (map (\<lambda>(ix, off, b). map (\<lambda>d. slots ix + off + of_nat d) [0..<unat b]) bs)"

lemma block_addrs_Nil [simp]: "block_addrs slots [] = []"
  by (simp add: block_addrs_def)

lemma block_addrs_Cons [simp]:
  "block_addrs slots ((ix, off, b) # bs) = map (\<lambda>d. slots ix + off + of_nat d) [0..<unat b] @ block_addrs slots bs"
  by (simp add: block_addrs_def)

lemma map_upt_shift: "map f [b..<b + m] = map (\<lambda>d. f (b + d)) [0..<m]"
  by (rule nth_equalityI) simp_all

lemma map_upt_split: "b \<le> n \<Longrightarrow> map f [0..<n] = map f [0..<b] @ map (\<lambda>d. f (b + d)) [0..<n - b]"
  using map_upt_shift [of f b "n - b"] upt_add_eq_append [of 0 b "n - b"] by simp

lemma page_chunk_addrs:
  assumes "calcPhysAddress ps frame v \<noteq> 0" "unat (page_off ps v) + b \<le> 2 ^ ps" "ps < 31"
  shows "map (\<lambda>d. calcPhysAddress ps frame v + of_nat d) [0..<b] = map (\<lambda>d. calcPhysAddress ps frame (v + of_nat d)) [0..<b]"
  using assms by (auto intro!: calcPhys_linear [symmetric])

lemma copy_loop_addrs:
  assumes "n < 2 ^ 31" "ps < 31" "page_off ps v = 0"
    and "\<forall>k < pages ps n. slot_has slots (index + k) (calcPhysAddress ps frame (v + of_nat (k * 2 ^ ps)))"
  shows "\<exists>bs. copy_loop ps index (int n) = Some bs \<and> block_addrs slots bs = map (\<lambda>d. calcPhysAddress ps frame (v + of_nat d)) [0..<n]"
  using assms
proof (induction n arbitrary: index v rule: less_induct)
  case (less n)
  show ?case
  proof (cases "n = 0")
    case True
    then show ?thesis by (simp add: copy_loop.simps)
  next
    case False
    let ?b = "min n (2 ^ ps)" and ?B = "if of_int (int n) < page_size ps then of_int (int n) else page_size ps"
    have B: "unat ?B = ?b"
      using unat_of_int_nat [OF less.prems(1)] page_size_unat [of ps] less.prems(2)
      by (auto simp: word_less_nat_alt min_def simp del: of_int_of_nat_eq)
    have rest: "sub_chunk (int n) ?B = int (n - ?b)" using B less.prems(1) by (subst sub_chunk_nat) simp_all
    have pg: "pages ps n = Suc (pages ps (n - ?b))" using False by (intro pages_pos) simp
    have slot: "index < NUM_SLOTS" "slots index = calcPhysAddress ps frame v" "calcPhysAddress ps frame v \<noteq> 0"
      using less.prems(4) [rule_format, of 0] pg by (simp_all add: slot_has_def)
    have m: "n - ?b < n" "n - ?b < 2 ^ 31" using False less.prems(1) by auto
    have v': "v + of_nat ?b + of_nat (k * 2 ^ ps) = v + of_nat (Suc k * 2 ^ ps)" if "k < pages ps (n - ?b)" for k
    proof -
      have "0 < n - ?b" using that by (cases "n - ?b = 0") simp_all
      then have "?b = 2 ^ ps" by linarith
      then show ?thesis by (simp add: algebra_simps)
    qed
    have "\<exists>bs. copy_loop ps (index + 1) (int (n - ?b)) = Some bs \<and>
        block_addrs slots bs = map (\<lambda>d. calcPhysAddress ps frame (v + of_nat ?b + of_nat d)) [0..<n - ?b]"
    proof (cases "n - ?b = 0")
      case False
      then have b: "?b = 1 * 2 ^ ps" by linarith
      have "page_off ps (v + of_nat ?b) = 0"
        unfolding b using less.prems(2,3) by (intro page_aligned_step) simp_all
      moreover have "\<forall>k < pages ps (n - ?b).
          slot_has slots (index + 1 + k) (calcPhysAddress ps frame (v + of_nat ?b + of_nat (k * 2 ^ ps)))"
      proof (intro allI impI)
        fix k assume k: "k < pages ps (n - ?b)"
        then have "Suc k < pages ps n" using pg by simp
        from less.prems(4) [rule_format, OF this]
        show "slot_has slots (index + 1 + k) (calcPhysAddress ps frame (v + of_nat ?b + of_nat (k * 2 ^ ps)))"
          unfolding v' [OF k] by simp
      qed
      ultimately show ?thesis using less.IH [OF m(1,2) less.prems(2)] by blast
    qed (simp add: copy_loop.simps)
    then obtain bs where bs: "copy_loop ps (index + 1) (int (n - ?b)) = Some bs"
      "block_addrs slots bs = map (\<lambda>d. calcPhysAddress ps frame (v + of_nat ?b + of_nat d)) [0..<n - ?b]" by blast
    have "copy_loop ps index (int n) = Some ((index, 0, ?B) # bs)"
      using False slot(1) rest bs(1) copy_loop.simps [of ps index "int n"] by (simp add: Let_def not_le)
    moreover have "block_addrs slots ((index, 0, ?B) # bs) = map (\<lambda>d. calcPhysAddress ps frame (v + of_nat d)) [0..<n]"
    proof -
      have "unat (page_off ps v) + ?b \<le> 2 ^ ps" using less.prems(3) by simp
      from page_chunk_addrs [OF slot(3) this less.prems(2)] show ?thesis
        unfolding block_addrs_Cons B slot(2) bs(2) map_upt_split [of ?b n "\<lambda>d. calcPhysAddress ps frame (v + of_nat d)", OF min.cobounded1]
        by (simp add: add.assoc)
    qed
    ultimately show ?thesis by blast
  qed
qed

lemma pages_add: "pages ps (q * 2 ^ ps + n) = q + pages ps n"
proof -
  have "(0 :: nat) < 2 ^ ps" by simp
  then have "q * 2 ^ ps + n + 2 ^ ps - 1 = (n + 2 ^ ps - 1) + q * 2 ^ ps" by linarith
  then show ?thesis unfolding pages_def by (simp only: div_mult_self1 power_not_zero zero_neq_numeral) simp
qed

lemma pages_gt: "q * 2 ^ ps < n \<Longrightarrow> q < pages ps n"
proof -
  assume q: "q * 2 ^ ps < n"
  then have "pages ps n = q + pages ps (n - q * 2 ^ ps)" using pages_add [of ps q "n - q * 2 ^ ps"] by simp
  then show ?thesis using q pages_pos [of "n - q * 2 ^ ps" ps] by simp
qed

lemma pos_mod_page: "(x :: nat) mod 2 ^ ps < 2 ^ ps"
  by simp

lemma page_end_aligned:
  assumes "ps < 64"
  shows "page_off ps (v + of_nat (2 ^ ps - unat (page_off ps v))) = 0"
proof -
  let ?c = "2 ^ ps - unat (page_off ps v)"
  have p: "(2 :: nat) ^ ps dvd 2 ^ 64" using assms by (intro le_imp_power_dvd) simp
  have c: "?c < 2 ^ 64"
    using power_strict_increasing [of ps 64 "2 :: nat"] assms by (simp add: less_imp_diff_less)
  have "unat v + ?c = unat v div 2 ^ ps * 2 ^ ps + 2 ^ ps"
    using div_mult_mod_eq [of "unat v" "2 ^ ps"] pos_mod_page [of "unat v" ps] unfolding page_off_unat by linarith
  then have "2 ^ ps dvd unat v + ?c" by simp
  then have "2 ^ ps dvd unat (v + of_nat ?c)"
    unfolding unat_word_ariths unat_of_nat using p c by (intro dvd_mod) (simp_all add: take_bit_nat_eq_self)
  then have "unat (page_off ps (v + of_nat ?c)) = 0" by (simp only: page_off_unat dvd_eq_mod_eq_0)
  then show ?thesis by (simp only: unat_eq_zero)
qed

text \<open>
  The rest of a copy, from a page boundary of the region: \<open>c\<close> is the length of the first
  chunk, \<open>q\<close> the number of pages after it.
\<close>

lemma copy_rest_addrs:
  assumes slots: "\<forall>q < pages ps (len - c). slot_has slots (s + 1 + q) (calcPhysAddress ps frame (start + of_nat (c + q * 2 ^ ps)))"
    and c: "c = min len (2 ^ ps - unat (page_off ps start))"
    and n: "c + q * 2 ^ ps + n \<le> len" "len < 2 ^ 31" "ps < 31"
  shows "\<exists>bs. copy_loop ps (s + 1 + q) (int n) = Some bs \<and>
    block_addrs slots bs = map (\<lambda>d. calcPhysAddress ps frame (start + of_nat (c + q * 2 ^ ps + d))) [0..<n]"
proof (cases "n = 0")
  case True
  then show ?thesis by (simp add: copy_loop.simps)
next
  case False
  let ?v = "start + of_nat c + of_nat (q * 2 ^ ps)"
  have "c = 2 ^ ps - unat (page_off ps start)" using c n(1) False by linarith
  then have "page_off ps (start + of_nat c) = 0" using page_end_aligned [of ps start] n(3) by simp
  then have v: "page_off ps ?v = 0" using n(3) by (intro page_aligned_step) simp_all
  have pg: "q + pages ps n \<le> pages ps (len - c)"
    using pages_add [of ps q n] pages_mono [of "q * 2 ^ ps + n" "len - c" ps] n(1) by linarith
  have "\<forall>k < pages ps n. slot_has slots (s + 1 + q + k) (calcPhysAddress ps frame (?v + of_nat (k * 2 ^ ps)))"
  proof (intro allI impI)
    fix k assume "k < pages ps n"
    then have qk: "q + k < pages ps (len - c)" using pg by linarith
    have "?v + of_nat (k * 2 ^ ps) = start + of_nat (c + (q + k) * 2 ^ ps)" by (simp add: algebra_simps)
    with slots [rule_format, OF qk] show "slot_has slots (s + 1 + q + k) (calcPhysAddress ps frame (?v + of_nat (k * 2 ^ ps)))"
      by (simp only: add.assoc)
  qed
  from copy_loop_addrs [OF _ n(3) v this] n(1,2) show ?thesis by (simp add: add.assoc)
qed

text \<open>A copy inside the region of a table goes through the translations of its addresses.\<close>

definition in_region :: "nat \<Rightarrow> page_tables \<Rightarrow> (nat \<Rightarrow> 64 word) \<Rightarrow> block list \<Rightarrow> 64 word \<Rightarrow> nat \<Rightarrow> nat \<Rightarrow> bool" where
  "in_region ps frame slots bs start k n \<longleftrightarrow>
     block_addrs slots bs = map (\<lambda>d. calcPhysAddress ps frame (start + of_nat (k + d))) [0..<n]"

lemma in_region_Cons:
  assumes slot: "slot_has slots ix (calcPhysAddress ps frame (start + of_nat a))" "k = a + x"
    and off: "unat off = x" "unat blk = b" "unat (page_off ps (start + of_nat a)) + x + b \<le> 2 ^ ps" "ps < 31"
    and bs: "b \<le> n" "in_region ps frame slots bs start (k + b) (n - b)"
  shows "in_region ps frame slots ((ix, off, blk) # bs) start k n"
proof -
  let ?v = "start + of_nat a"
  have o: "off = of_nat x" using off(1) by (metis of_nat_unat ucast_id)
  have "calcPhysAddress ps frame ?v + off + of_nat d = calcPhysAddress ps frame (start + of_nat (k + d))" if "d < b" for d
  proof -
    have "unat (page_off ps ?v) + (x + d) < 2 ^ ps" using off(3) that by linarith
    from calcPhys_linear [OF _ this] slot off(4) show ?thesis by (simp add: slot_has_def o add.assoc)
  qed
  then have first: "map (\<lambda>d. slots ix + off + of_nat d) [0..<b] =
      map (\<lambda>d. calcPhysAddress ps frame (start + of_nat (k + d))) [0..<b]"
    using slot(1) by (simp add: slot_has_def del: of_nat_add)
  show ?thesis
    using bs(2) unfolding in_region_def block_addrs_Cons off(2) first map_upt_split [OF bs(1), of "\<lambda>d. calcPhysAddress ps frame (start + of_nat (k + d))"]
    by (simp only: add.assoc)
qed

lemma copy_blocks_first:
  "offset < at_chunk0 t \<Longrightarrow> copy_blocks ps t offset nbytes =
    (let blk = (if of_int nbytes < (of_int (at_chunk0 t - offset) :: 64 word) then of_int nbytes else of_int (at_chunk0 t - offset))
     in if at_slot t \<ge> NUM_SLOTS then None
        else map_option ((#) (at_slot t, of_int offset, blk)) (copy_loop ps (at_slot t + 1) (sub_chunk nbytes blk)))"
  by (simp add: copy_blocks_def Let_def)

lemma copy_blocks_later:
  "at_chunk0 t \<le> offset \<Longrightarrow> copy_blocks ps t offset nbytes =
    (let o1 = of_int (offset - at_chunk0 t) :: 64 word; ix = unat (o1 div page_size ps) + 1 + at_slot t;
         blk = (if of_int nbytes < page_size ps - page_off ps o1 then of_int nbytes else page_size ps - page_off ps o1)
     in if ix \<ge> NUM_SLOTS then None
        else map_option ((#) (ix, page_off ps o1, blk)) (copy_loop ps (ix + 1) (sub_chunk nbytes blk)))"
  by (simp add: copy_blocks_def Let_def)

text \<open>What a described region says of its chunks.\<close>

definition first_len :: "nat \<Rightarrow> 64 word \<Rightarrow> nat \<Rightarrow> nat" where
  "first_len ps start len = min len (2 ^ ps - unat (page_off ps start))"

lemma region_okD:
  assumes "region_ok ps frame slots t start len"
  defines "c \<equiv> first_len ps start len"
  shows "at_chunk0 t = int c" "slot_has slots (at_slot t) (calcPhysAddress ps frame start)"
    "\<forall>q < pages ps (len - c). slot_has slots (at_slot t + 1 + q) (calcPhysAddress ps frame (start + of_nat (c + q * 2 ^ ps)))"
  using assms unfolding region_ok_def c_def first_len_def by auto

lemma copy_blocks_addrs_first:
  assumes reg: "region_ok ps frame slots t start len" and n: "0 < n" "k + n \<le> len" "len < 2 ^ 31" "ps < 31"
    and True: "k < first_len ps start len"
  shows "\<exists>bs. copy_blocks ps t (int k) (int n) = Some bs \<and> in_region ps frame slots bs start k n"
proof -
  define c where "c = first_len ps start len"
  note c0 = region_okD(1) [OF reg, folded c_def] and slot0 = region_okD(2) [OF reg]
    and slots = region_okD(3) [OF reg, folded c_def] and True = True [folded c_def]
  have off: "unat (page_off ps start) < 2 ^ ps" by (simp add: page_off_unat)
  have small: "k < 2 ^ 31" "n < 2 ^ 31" "c \<le> len" "c < 2 ^ 31" using n by (auto simp: c_def first_len_def)
  note rest = copy_rest_addrs [OF slots c_def [unfolded first_len_def] _ n(3,4), folded in_region_def]
  let ?b = "min n (c - k)" and ?B = "if of_int (int n) < (of_int (int c - int k) :: 64 word) then of_int (int n) else of_int (int c - int k) :: 64 word"
  have "unat (of_int (int c - int k) :: 64 word) = c - k"
    using True small unat_of_int_nat [of "c - k"] by (simp add: of_nat_diff)
  then have B: "unat ?B = ?b"
    using unat_of_int_nat [OF small(2)] by (auto simp: word_less_nat_alt min_def simp del: of_int_of_nat_eq)
  have sub: "sub_chunk (int n) ?B = int (n - ?b)" using B small(2) by (subst sub_chunk_nat) simp_all
  have "\<exists>bs. copy_loop ps (at_slot t + 1) (int (n - ?b)) = Some bs \<and> in_region ps frame slots bs start (k + ?b) (n - ?b)"
  proof (cases "n - ?b = 0")
    case True
    then show ?thesis by (simp add: copy_loop.simps in_region_def)
  next
    case False
    then have "k + ?b = c" using True by linarith
    then show ?thesis using rest [of 0 "n - ?b"] n(2) False by (simp add: in_region_def)
  qed
  then obtain bs where bs: "copy_loop ps (at_slot t + 1) (int (n - ?b)) = Some bs"
    "in_region ps frame slots bs start (k + ?b) (n - ?b)" by blast
  have "copy_blocks ps t (int k) (int n) = Some ((at_slot t, of_int (int k), ?B) # bs)"
    using copy_blocks_first [of "int k" t ps "int n"] True slot0 unfolding c0 Let_def sub bs(1)
    by (simp add: slot_has_def not_le del: of_int_of_nat_eq of_int_diff)
  moreover have "in_region ps frame slots ((at_slot t, of_int (int k), ?B) # bs) start k n"
  proof (rule in_region_Cons [OF _ _ _ B _ n(4) _ bs(2)])
    show "slot_has slots (at_slot t) (calcPhysAddress ps frame (start + of_nat 0))" "k = 0 + k" using slot0 by simp_all
    show "unat (of_int (int k) :: 64 word) = k" by (rule unat_of_int_nat [OF small(1)])
    have "c \<le> 2 ^ ps - unat (page_off ps start)" by (simp add: c_def first_len_def)
    then show "unat (page_off ps (start + of_nat 0)) + k + ?b \<le> 2 ^ ps" using True off by auto
  qed simp
  ultimately show ?thesis by blast
qed

lemma copy_blocks_addrs_later:
  assumes reg: "region_ok ps frame slots t start len" and n: "0 < n" "k + n \<le> len" "len < 2 ^ 31" "ps < 31"
    and False: "\<not> k < first_len ps start len"
  shows "\<exists>bs. copy_blocks ps t (int k) (int n) = Some bs \<and> in_region ps frame slots bs start k n"
proof -
  define c where "c = first_len ps start len"
  note c0 = region_okD(1) [OF reg, folded c_def] and slots = region_okD(3) [OF reg, folded c_def]
    and False = False [folded c_def]
  have small: "k < 2 ^ 31" "n < 2 ^ 31" "c \<le> len" "c < 2 ^ 31" using n by (auto simp: c_def first_len_def)
  note rest = copy_rest_addrs [OF slots c_def [unfolded first_len_def] _ n(3,4), folded in_region_def]
  define q r where "q = (k - c) div 2 ^ ps" and "r = (k - c) mod 2 ^ ps"
  have kc: "k = c + q * 2 ^ ps + r"
    using False div_mult_mod_eq [of "k - c" "2 ^ ps"] unfolding q_def r_def by linarith
  have r: "r < 2 ^ ps" by (simp add: r_def)
  have q: "q < pages ps (len - c)" using kc n(1,2) by (intro pages_gt) linarith
  let ?o = "of_int (int k - int c) :: 64 word"
  have o: "unat ?o = k - c" using False small unat_of_int_nat [of "k - c"] by (simp add: of_nat_diff)
  have P: "unat (page_size ps) = 2 ^ ps" using n(4) by (intro page_size_unat) simp
  have uq: "unat (?o div page_size ps) = q" and ur: "unat (page_off ps ?o) = r"
    by (simp_all only: unat_div o P q_def r_def page_off_unat)
  let ?b = "min n (2 ^ ps - r)"
  let ?B = "if of_int (int n) < page_size ps - page_off ps ?o then of_int (int n) else page_size ps - page_off ps ?o"
  have "unat (page_size ps - page_off ps ?o) = 2 ^ ps - r" using r P ur by (simp add: unat_sub word_le_nat_alt)
  then have B: "unat ?B = ?b"
    using unat_of_int_nat [OF small(2)] by (auto simp: word_less_nat_alt min_def simp del: of_int_of_nat_eq)
  have sub: "sub_chunk (int n) ?B = int (n - ?b)" using B small(2) by (subst sub_chunk_nat) simp_all
  have "\<exists>bs. copy_loop ps (at_slot t + 1 + q + 1) (int (n - ?b)) = Some bs \<and> in_region ps frame slots bs start (k + ?b) (n - ?b)"
  proof (cases "n - ?b = 0")
    case True
    then show ?thesis by (simp add: copy_loop.simps in_region_def)
  next
    case False
    then have kb: "k + ?b = c + (q + 1) * 2 ^ ps" using r by (simp add: kc)
    then have "c + (q + 1) * 2 ^ ps + (n - ?b) \<le> len" using n(2) False by linarith
    from rest [OF this] show ?thesis unfolding kb in_region_def by (simp only: add.assoc)
  qed
  then obtain bs where bs: "copy_loop ps (at_slot t + 1 + q + 1) (int (n - ?b)) = Some bs"
    "in_region ps frame slots bs start (k + ?b) (n - ?b)" by blast
  note s = slots [rule_format, OF q]
  have slots_idx: "q + 1 + at_slot t = at_slot t + 1 + q" by simp
  have "copy_blocks ps t (int k) (int n) = Some ((at_slot t + 1 + q, page_off ps ?o, ?B) # bs)"
    using copy_blocks_later [of t "int k" ps "int n"] False s unfolding c0 uq Let_def sub slots_idx bs(1)
    by (simp add: slot_has_def not_le del: of_int_of_nat_eq of_int_diff)
  moreover have "in_region ps frame slots ((at_slot t + 1 + q, page_off ps ?o, ?B) # bs) start k n"
  proof (rule in_region_Cons [OF s kc ur B _ n(4) _ bs(2)])
    have "c = 2 ^ ps - unat (page_off ps start)" using c_def [unfolded first_len_def] False n(1,2) by linarith
    then have "page_off ps (start + of_nat c + of_nat (q * 2 ^ ps)) = 0"
      using page_end_aligned [of ps start] n(4) by (intro page_aligned_step) simp_all
    then show "unat (page_off ps (start + of_nat (c + q * 2 ^ ps))) + r + ?b \<le> 2 ^ ps" using r by (simp add: add.assoc)
  qed simp
  ultimately show ?thesis by blast
qed

lemma copy_blocks_addrs:
  assumes "region_ok ps frame slots t start len" "0 < n" "k + n \<le> len" "len < 2 ^ 31" "ps < 31"
  shows "\<exists>bs. copy_blocks ps t (int k) (int n) = Some bs \<and> in_region ps frame slots bs start k n"
  using copy_blocks_addrs_first [OF assms] copy_blocks_addrs_later [OF assms] by blast

section \<open>Copies\<close>

lemma memcpy_in: "d < unat n \<Longrightarrow> memcpy dst src n mem (dst + of_nat d) = mem (src + of_nat d)"
proof -
  assume d: "d < unat n"
  have "d < 2 ^ 64" using d unat_less_64 [of n] by linarith
  then have "unat (of_nat d :: 64 word) = d" by (simp add: unat_of_nat take_bit_nat_eq_self)
  then show ?thesis using d by (simp add: memcpy_def word_less_nat_alt)
qed

lemma memcpy_out: "(\<And>d. d < unat n \<Longrightarrow> a \<noteq> dst + of_nat d) \<Longrightarrow> memcpy dst src n mem a = mem a"
proof -
  assume out: "\<And>d. d < unat n \<Longrightarrow> a \<noteq> dst + of_nat d"
  have "a = dst + of_nat (unat (a - dst))" by simp
  with out [of "unat (a - dst)"] show ?thesis by (auto simp: memcpy_def word_less_nat_alt)
qed

lemma of_nat_64_inj: "d < 2 ^ 63 \<Longrightarrow> e < 2 ^ 63 \<Longrightarrow> (of_nat d :: 64 word) = of_nat e \<Longrightarrow> d = e"
  by (simp add: word_unat_eq_iff unat_of_nat take_bit_nat_eq_self)

text \<open>
  A copy from the user's memory puts the bytes at the addresses of the blocks, in order, at the
  destination; a copy to it does the reverse.
\<close>

lemma run_from_bytes:
  assumes "length A < 2 ^ 63" "\<forall>d < length A. to + of_nat d \<notin> set A" "A = block_addrs slots bs"
  shows "(\<forall>d < length A. run_from slots bs to mem (to + of_nat d) = mem (A ! d)) \<and>
    (\<forall>a. (\<forall>d < length A. a \<noteq> to + of_nat d) \<longrightarrow> run_from slots bs to mem a = mem a)"
  using assms
proof (induction bs arbitrary: A to mem)
  case (Cons blk bs)
  obtain ix off b where blk: "blk = (ix, off, b)" by (cases blk)
  define A1 A2 where "A1 = map (\<lambda>d. slots ix + off + of_nat d) [0..<unat b]" and "A2 = block_addrs slots bs"
  have A: "A = A1 @ A2" "length A1 = unat b" using Cons.prems(3) by (simp_all add: blk A1_def A2_def)
  define mem1 where "mem1 = memcpy to (slots ix + off) b mem"
  have at: "to + b + of_nat e = to + of_nat (unat b + e)" for e by (simp add: add.assoc)
  have "length A2 < 2 ^ 63" "\<forall>d < length A2. to + b + of_nat d \<notin> set A2"
    using Cons.prems(1,2) A by (auto simp: at simp del: of_nat_add)
  note IH = Cons.IH [OF this A2_def, of mem1]
  have run: "run_from slots (blk # bs) to mem = run_from slots bs (to + b) mem1" by (simp add: blk mem1_def)
  have "run_from slots bs (to + b) mem1 (to + of_nat d) = mem (A ! d)" if d: "d < length A" for d
  proof (cases "d < unat b")
    case True
    have "to + of_nat d \<noteq> to + b + of_nat e" if "e < length A2" for e
      unfolding at using of_nat_64_inj [of d "unat b + e"] True d that Cons.prems(1) A by auto
    then have "run_from slots bs (to + b) mem1 (to + of_nat d) = mem1 (to + of_nat d)" using IH by blast
    then show ?thesis using memcpy_in [OF True, of to "slots ix + off" mem] True A
      by (simp add: mem1_def A1_def nth_append)
  next
    case False
    then have e: "d - unat b < length A2" "unat b + (d - unat b) = d" using d A by simp_all
    have "run_from slots bs (to + b) mem1 (to + of_nat d) = mem1 (A2 ! (d - unat b))"
      using conjunct1 [OF IH, rule_format, OF e(1)] at [of "d - unat b"] unfolding e(2) by (simp only:)
    also have "\<dots> = mem (A2 ! (d - unat b))"
      unfolding mem1_def
    proof (rule memcpy_out)
      fix x assume "x < unat b"
      then have "to + of_nat x \<notin> set A" using Cons.prems(2) A by simp
      with nth_mem [OF e(1)] A(1) show "A2 ! (d - unat b) \<noteq> to + of_nat x" by (metis Un_iff set_append)
    qed
    finally show ?thesis using False A by (simp add: nth_append)
  qed
  moreover have "run_from slots bs (to + b) mem1 a = mem a" if "\<forall>d < length A. a \<noteq> to + of_nat d" for a
  proof -
    have "run_from slots bs (to + b) mem1 a = mem1 a" using IH that A by (simp add: at del: of_nat_add)
    also have "\<dots> = mem a" unfolding mem1_def using that A by (intro memcpy_out) simp
    finally show ?thesis .
  qed
  ultimately show ?case unfolding run by blast
qed simp

lemma run_to_bytes:
  assumes "length A < 2 ^ 63" "\<forall>d < length A. from + of_nat d \<notin> set A" "distinct A" "A = block_addrs slots bs"
  shows "(\<forall>d < length A. run_to slots bs from mem (A ! d) = mem (from + of_nat d)) \<and>
    (\<forall>a. a \<notin> set A \<longrightarrow> run_to slots bs from mem a = mem a)"
  using assms
proof (induction bs arbitrary: A "from" mem)
  case (Cons blk bs)
  obtain ix off b where blk: "blk = (ix, off, b)" by (cases blk)
  define A1 A2 where "A1 = map (\<lambda>d. slots ix + off + of_nat d) [0..<unat b]" and "A2 = block_addrs slots bs"
  have A: "A = A1 @ A2" "length A1 = unat b" using Cons.prems(4) by (simp_all add: blk A1_def A2_def)
  define mem1 where "mem1 = memcpy (slots ix + off) from b mem"
  have at: "from + b + of_nat e = from + of_nat (unat b + e)" for e by (simp add: add.assoc)
  have A2: "length A2 < 2 ^ 63" "\<forall>d < length A2. from + b + of_nat d \<notin> set A2" "distinct A2"
    using Cons.prems(1-3) A by (auto simp: at simp del: of_nat_add)
  note IH = Cons.IH [OF A2 A2_def, of mem1]
  have run: "run_to slots (blk # bs) from mem = run_to slots bs (from + b) mem1" by (simp add: blk mem1_def)
  have same: "mem1 a = mem a" if "a \<notin> set A1" for a
    unfolding mem1_def using that by (intro memcpy_out) (auto simp: A1_def)
  have "run_to slots bs (from + b) mem1 (A ! d) = mem (from + of_nat d)" if d: "d < length A" for d
  proof (cases "d < unat b")
    case True
    then have "A ! d = A1 ! d" "A1 ! d \<in> set A1" using A by (simp_all add: nth_append)
    then have "run_to slots bs (from + b) mem1 (A ! d) = mem1 (A1 ! d)" using IH Cons.prems(3) A by auto
    then show ?thesis using memcpy_in [OF True, of "slots ix + off" "from" mem] True by (simp add: mem1_def A1_def)
  next
    case False
    then have e: "d - unat b < length A2" "unat b + (d - unat b) = d" using d A by simp_all
    then have "run_to slots bs (from + b) mem1 (A ! d) = mem1 (from + of_nat d)"
      using IH False A at [of "d - unat b"] by (simp add: nth_append)
    also have "\<dots> = mem (from + of_nat d)" using Cons.prems(2) d A by (intro same) auto
    finally show ?thesis .
  qed
  moreover have "run_to slots bs (from + b) mem1 a = mem a" if "a \<notin> set A" for a
    using IH that A same by simp
  ultimately show ?case unfolding run by blast
qed simp

end
