(* ===== verification/K_CacheRuns.thy ===== *)
theory K_CacheRuns
  imports K_CacheCopy
begin

text \<open>
  Runs of the address cache: the layout of the slots, and the invariant that every valid table
  describes its region, which no operation on another table disturbs.
\<close>

section \<open>The layout of the slots\<close>

definition slot_base :: "nat \<Rightarrow> nat" where
  "slot_base j = (\<Sum>k < j. ADDR_CACHE_NUM_REG k * ADDR_CACHE_TBL_SZ k)"

definition slot_of :: "nat \<Rightarrow> nat \<Rightarrow> nat" where
  "slot_of j i = slot_base j + i * ADDR_CACHE_TBL_SZ j"

lemma slot_base_Suc: "slot_base (Suc j) = slot_base j + ADDR_CACHE_NUM_REG j * ADDR_CACHE_TBL_SZ j"
  by (simp add: slot_base_def)

lemma slot_base_mono: "j \<le> j' \<Longrightarrow> slot_base j \<le> slot_base j'"
  unfolding slot_base_def by (rule sum_mono2) auto

lemma slot_of_end: "i < ADDR_CACHE_NUM_REG j \<Longrightarrow> slot_of j i + ADDR_CACHE_TBL_SZ j \<le> slot_base (Suc j)"
proof -
  assume "i < ADDR_CACHE_NUM_REG j"
  then have "Suc i * ADDR_CACHE_TBL_SZ j \<le> ADDR_CACHE_NUM_REG j * ADDR_CACHE_TBL_SZ j" by (intro mult_le_mono1) simp
  then show ?thesis by (simp add: slot_of_def slot_base_Suc)
qed

lemma slot_ranges_disjoint:
  assumes "i < ADDR_CACHE_NUM_REG j" "i' < ADDR_CACHE_NUM_REG j'" "(j, i) \<noteq> (j', i')"
  shows "slot_of j i + ADDR_CACHE_TBL_SZ j \<le> slot_of j' i' \<or> slot_of j' i' + ADDR_CACHE_TBL_SZ j' \<le> slot_of j i"
proof (cases j j' rule: linorder_cases)
  case less
  with slot_of_end [OF assms(1)] slot_base_mono [of "Suc j" j'] show ?thesis by (simp add: slot_of_def)
next
  case greater
  with slot_of_end [OF assms(2)] slot_base_mono [of "Suc j'" j] show ?thesis by (simp add: slot_of_def)
next
  case equal
  then have "i < i' \<or> i' < i" using assms(3) by auto
  then have "Suc i * ADDR_CACHE_TBL_SZ j \<le> i' * ADDR_CACHE_TBL_SZ j \<or> Suc i' * ADDR_CACHE_TBL_SZ j \<le> i * ADDR_CACHE_TBL_SZ j"
    using mult_le_mono1 [of "Suc i" i'] mult_le_mono1 [of "Suc i'" i] by auto
  then show ?thesis using equal by (auto simp: slot_of_def)
qed

lemma NUM_SLOTS_base: "NUM_SLOTS = slot_base 3"
  by (simp add: NUM_SLOTS_def slot_base_def numeral_3_eq_3 numeral_2_eq_2 mult.commute)

lemma slot_of_bound: "j < 3 \<Longrightarrow> i < ADDR_CACHE_NUM_REG j \<Longrightarrow> slot_of j i + ADDR_CACHE_TBL_SZ j \<le> NUM_SLOTS"
  using slot_of_end [of i j] slot_base_mono [of "Suc j" 3] by (simp add: NUM_SLOTS_base)

text \<open>With pages of 8 KB a table has room for the translations of its largest region.\<close>

definition reg_max :: "nat \<Rightarrow> nat" where
  "reg_max j = (ADDR_CACHE_TBL_SZ j - 1) * 2 ^ 13"

lemma reg_max_eq: "ADDR_CACHE_REG_SZ 13 j = int (reg_max j)"
  using page_size_unat [of 13] by (simp add: ADDR_CACHE_REG_SZ_def reg_max_def ADDR_CACHE_TBL_SZ_def uint_nat)

lemma chunks_fit:
  assumes "0 < n" "n \<le> reg_max j"
  shows "1 + pages 13 (n - first_len 13 start n) \<le> ADDR_CACHE_TBL_SZ j"
proof -
  have "unat (page_off 13 start) < 2 ^ 13" by (simp add: page_off_unat)
  then have "n - first_len 13 start n \<le> reg_max j - 1" using assms by (simp add: first_len_def)
  then have "pages 13 (n - first_len 13 start n) \<le> pages 13 (reg_max j - 1)" by (rule pages_mono)
  also have "\<dots> \<le> ADDR_CACHE_TBL_SZ j - 1"
    by (simp add: pages_def reg_max_def ADDR_CACHE_TBL_SZ_def)
  finally show ?thesis by (auto simp: ADDR_CACHE_TBL_SZ_def split: if_splits)
qed

section \<open>The invariant\<close>

definition ptr_ok :: "nat \<Rightarrow> nat option \<Rightarrow> bool" where
  "ptr_ok n p \<longleftrightarrow> (\<forall>x. p = Some x \<longrightarrow> x < n)"

definition tbl_ok :: "page_tables \<Rightarrow> (nat \<Rightarrow> 64 word) \<Rightarrow> nat \<Rightarrow> nat \<Rightarrow> addr_tbl \<Rightarrow> bool" where
  "tbl_ok frame slots j i t \<longleftrightarrow>
     at_cache_id t = j \<and> at_table_id t = i \<and> at_slot t = slot_of j i \<and>
     0 \<le> at_length t \<and> at_length t \<le> int (reg_max j) \<and> (at_length t > 0 \<longrightarrow> at_start t \<noteq> 0) \<and>
     (at_valid t \<and> at_length t > 0 \<longrightarrow> region_ok 13 frame slots t (at_start t) (nat (at_length t))) \<and>
     ptr_ok (ADDR_CACHE_NUM_REG j) (at_next t) \<and> ptr_ok (ADDR_CACHE_NUM_REG j) (at_prev t)"

definition sub_ok :: "page_tables \<Rightarrow> (nat \<Rightarrow> 64 word) \<Rightarrow> nat \<Rightarrow> addr_cache \<Rightarrow> bool" where
  "sub_ok frame slots j c \<longleftrightarrow>
     ac_reg_sz c = ADDR_CACHE_REG_SZ 13 j \<and> ac_num_reg c = ADDR_CACHE_NUM_REG j \<and>
     ac_strategy c = (if j = 2 then TBL_LOOKUP else TBL_REDO) \<and>
     ptr_ok (ADDR_CACHE_NUM_REG j) (ac_addr_tbl c) \<and> (\<forall>p. ptr_ok (ADDR_CACHE_NUM_REG j) (ac_taskTbl c p)) \<and>
     (\<forall>i < ADDR_CACHE_NUM_REG j. tbl_ok frame slots j i (ac_tbls c i))"

definition cache_inv :: "page_tables \<Rightarrow> cache_st \<Rightarrow> bool" where
  "cache_inv frame st \<longleftrightarrow> (\<forall>j < 3. sub_ok frame (cs_slot st) j (cs_cache st j))"

lemma ptr_ok_simps [simp]: "ptr_ok n None" "ptr_ok n (Some x) \<longleftrightarrow> x < n"
  by (simp_all add: ptr_ok_def)

lemma region_ok_links [simp]:
  "region_ok ps frame slots (t\<lparr>at_next := p\<rparr>) start len = region_ok ps frame slots t start len"
  "region_ok ps frame slots (t\<lparr>at_prev := p\<rparr>) start len = region_ok ps frame slots t start len"
  by (simp_all add: region_ok_def)

lemma tbl_ok_links:
  assumes "tbl_ok frame slots j i t" "ptr_ok (ADDR_CACHE_NUM_REG j) p"
  shows "tbl_ok frame slots j i (t\<lparr>at_next := p\<rparr>)" "tbl_ok frame slots j i (t\<lparr>at_prev := p\<rparr>)"
  using assms by (simp_all add: tbl_ok_def)

lemma tbl_ok_invalid: "tbl_ok frame slots j i t \<Longrightarrow> tbl_ok frame slots j i (t\<lparr>at_valid := False\<rparr>)"
  by (simp add: tbl_ok_def)

lemma tbl_ok_empty:
  "tbl_ok frame slots j i t \<Longrightarrow> tbl_ok frame slots j i (t\<lparr>at_start := v, at_length := 0\<rparr>)"
  by (simp add: tbl_ok_def)

lemma sub_ok_upd_tbl:
  assumes "sub_ok frame slots j c" "i < ADDR_CACHE_NUM_REG j \<Longrightarrow> tbl_ok frame slots j i (f (ac_tbls c i))"
  shows "sub_ok frame slots j (upd_tbl i f c)"
  using assms by (simp add: sub_ok_def)

lemma sub_okD:
  assumes "sub_ok frame slots j c"
  shows "ptr_ok (ADDR_CACHE_NUM_REG j) (ac_addr_tbl c)" "ptr_ok (ADDR_CACHE_NUM_REG j) (ac_taskTbl c p)"
    "i < ADDR_CACHE_NUM_REG j \<Longrightarrow> tbl_ok frame slots j i (ac_tbls c i)"
    "i < ADDR_CACHE_NUM_REG j \<Longrightarrow> ptr_ok (ADDR_CACHE_NUM_REG j) (at_next (ac_tbls c i))"
    "i < ADDR_CACHE_NUM_REG j \<Longrightarrow> ptr_ok (ADDR_CACHE_NUM_REG j) (at_prev (ac_tbls c i))"
  using assms by (auto simp: sub_ok_def tbl_ok_def)

lemma sub_ok_heads:
  assumes "sub_ok frame slots j c"
  shows "ptr_ok (ADDR_CACHE_NUM_REG j) p \<Longrightarrow> sub_ok frame slots j (c\<lparr>ac_addr_tbl := p\<rparr>)"
    "ptr_ok (ADDR_CACHE_NUM_REG j) p \<Longrightarrow> sub_ok frame slots j (c\<lparr>ac_taskTbl := (ac_taskTbl c)(q := p)\<rparr>)"
    "sub_ok frame slots j (c\<lparr>ac_freeTables := m\<rparr>)"
  using assms by (simp_all add: sub_ok_def)

lemmas sub_ok_steps = sub_ok_upd_tbl sub_ok_heads tbl_ok_links sub_okD

lemma cache_inv_upd:
  assumes "cache_inv frame st" "\<And>c. j < 3 \<Longrightarrow> sub_ok frame (cs_slot st) j c \<Longrightarrow> sub_ok frame (cs_slot st) j (f c)"
  shows "cache_inv frame (upd_cache j f st)"
  using assms by (simp add: cache_inv_def)

lemma cache_inv_frame [simp]:
  "cache_inv frame (st\<lparr>cs_summary := s\<rparr>) = cache_inv frame st" "cache_inv frame (st\<lparr>cs_rank := r\<rparr>) = cache_inv frame st"
  "cache_inv frame (st\<lparr>cs_sent := ss\<rparr>) = cache_inv frame st"
  by (simp_all add: cache_inv_def)

section \<open>The lists\<close>

lemma tblUnlink_inv:
  assumes inv: "cache_inv frame st" and j: "j < 3" and op: "addrCache_tblUnlink j st = Some (i, st')"
  shows "cache_inv frame st'" "0 \<le> i \<Longrightarrow> nat i < ADDR_CACHE_NUM_REG j" "i < 0 \<or> at_slot (tbl st' j (nat i)) = slot_of j (nat i)"
proof -
  let ?c = "cs_cache st j"
  have sub: "sub_ok frame (cs_slot st) j ?c" using inv j by (simp add: cache_inv_def)
  show inv': "cache_inv frame st'"
  proof (cases "ac_freeTables ?c \<le> 0")
    case False
    then obtain t where t: "ac_addr_tbl ?c = Some t" "st' = upd_cache j (\<lambda>c. (upd_tbl t (\<lambda>t. t\<lparr>at_next := None\<rparr>)
        (c\<lparr>ac_addr_tbl := at_next (ac_tbls c t)\<rparr>))\<lparr>ac_freeTables := ac_freeTables c - 1\<rparr>) st"
      using op by (auto simp: addrCache_tblUnlink_def Let_def split: option.splits)
    have lt: "t < ADDR_CACHE_NUM_REG j" using sub_okD(1) [OF sub] t(1) by simp
    show ?thesis unfolding t(2)
      by (rule cache_inv_upd [OF inv]) (intro sub_ok_steps(1) sub_ok_heads tbl_ok_links sub_okD ptr_ok_simps; use lt in \<open>simp add: sub_okD tbl_ok_links sub_ok_heads\<close>)
  qed (use inv op in \<open>simp add: addrCache_tblUnlink_def\<close>)
  show lt: "nat i < ADDR_CACHE_NUM_REG j" if "0 \<le> i"
  proof -
    from op that obtain t where t: "ac_addr_tbl ?c = Some t" "i = int (at_table_id (ac_tbls ?c t))"
      by (auto simp: addrCache_tblUnlink_def Let_def split: option.splits if_splits)
    have lt: "t < ADDR_CACHE_NUM_REG j" using sub_okD(1) [OF sub] t(1) by simp
    with sub_okD(3) [OF sub lt] t(2) show ?thesis by (simp add: tbl_ok_def)
  qed
  show "i < 0 \<or> at_slot (tbl st' j (nat i)) = slot_of j (nat i)"
    using inv' j lt by (cases "i < 0") (simp_all add: cache_inv_def sub_ok_def tbl_ok_def tbl_def)
qed

lemma link_table_ok:
  assumes sub: "sub_ok frame slots j c" and t: "t < ADDR_CACHE_NUM_REG j"
  shows "sub_ok frame slots j (link_table p t c)"
proof -
  define c1 where "c1 = (case at_next (ac_tbls c t) of None \<Rightarrow> c
    | Some n \<Rightarrow> upd_tbl n (\<lambda>e. e\<lparr>at_prev := at_prev (ac_tbls c t)\<rparr>) c)"
  have 1: "sub_ok frame slots j c1"
    using sub sub_okD(3,5) [OF sub] t unfolding c1_def
    by (cases "at_next (ac_tbls c t)") (auto intro!: sub_ok_upd_tbl tbl_ok_links)
  define c2 where "c2 = (case at_prev (ac_tbls c1 t) of
      Some p \<Rightarrow> upd_tbl t (\<lambda>t. t\<lparr>at_prev := None\<rparr>) (upd_tbl p (\<lambda>e. e\<lparr>at_next := at_next (ac_tbls c1 t)\<rparr>) c1)
    | None \<Rightarrow> c1\<lparr>ac_taskTbl := (ac_taskTbl c1)(p := at_next (ac_tbls c1 t))\<rparr>)"
  have 2: "sub_ok frame slots j c2"
  proof (cases "at_prev (ac_tbls c1 t)")
    case None
    then show ?thesis using 1 sub_okD(4) [OF 1 t] by (simp add: c2_def sub_ok_heads(2))
  next
    case (Some q)
    have u: "sub_ok frame slots j (upd_tbl q (\<lambda>e. e\<lparr>at_next := at_next (ac_tbls c1 t)\<rparr>) c1)"
      using 1 sub_okD(3,4) [OF 1] t by (intro sub_ok_upd_tbl tbl_ok_links)
    have "sub_ok frame slots j (upd_tbl t (\<lambda>t. t\<lparr>at_prev := None\<rparr>)
        (upd_tbl q (\<lambda>e. e\<lparr>at_next := at_next (ac_tbls c1 t)\<rparr>) c1))"
      by (rule sub_ok_upd_tbl [OF u]) (rule tbl_ok_links(2) [OF sub_okD(3) [OF u]], simp_all)
    then show ?thesis by (simp add: c2_def Some)
  qed
  define c3 where "c3 = upd_tbl t (\<lambda>e. e\<lparr>at_next := ac_addr_tbl c2\<rparr>) c2"
  have 3: "sub_ok frame slots j c3"
    unfolding c3_def using 2 sub_okD(1,3) [OF 2] by (intro sub_ok_upd_tbl tbl_ok_links)
  have "link_table p t c = c3\<lparr>ac_addr_tbl := Some t, ac_freeTables := ac_freeTables c3 + 1\<rparr>"
    unfolding link_table_def Let_def c1_def [symmetric] c2_def [symmetric] c3_def [symmetric] ..
  then show ?thesis using 3 t by (simp add: sub_ok_def)
qed

lemma push_ok:
  assumes sub: "sub_ok frame slots j c" and i: "i < ADDR_CACHE_NUM_REG j"
  shows "sub_ok frame slots j (push_redo p i c)" "sub_ok frame slots j (push_lookup p i c)"
proof -
  define c1 where "c1 = upd_tbl i (\<lambda>t. t\<lparr>at_next := ac_taskTbl c p\<rparr>) c"
  have 1: "sub_ok frame slots j c1"
    unfolding c1_def using sub sub_okD(2,3) [OF sub] by (intro sub_ok_upd_tbl tbl_ok_links)
  have "sub_ok frame slots j (upd_tbl n (\<lambda>t. t\<lparr>at_prev := Some i\<rparr>) c1)" for n
    using 1 sub_okD(3) [OF 1] i by (intro sub_ok_upd_tbl tbl_ok_links) simp_all
  then have "sub_ok frame slots j ((upd_tbl n (\<lambda>t. t\<lparr>at_prev := Some i\<rparr>) c1)\<lparr>ac_taskTbl := (ac_taskTbl c1)(p := Some i)\<rparr>)" for n
    using i by (simp add: sub_ok_def)
  with 1 i show "sub_ok frame slots j (push_redo p i c)"
    unfolding push_redo_def Let_def c1_def [symmetric]
    by (cases "at_next (ac_tbls c1 i)") (simp_all add: sub_ok_heads(2))
  show "sub_ok frame slots j (push_lookup p i c)"
    using sub_ok_heads(2) [OF 1, of "Some i" p] i by (simp add: push_lookup_def c1_def)
qed

text \<open>The loops over the list of a process.\<close>

lemma clear_loop_ok:
  assumes "clear_loop table c = Some c'" "sub_ok frame slots j c" "ptr_ok (ADDR_CACHE_NUM_REG j) table"
  shows "sub_ok frame slots j c'"
proof -
  have "sub_ok frame slots j c \<longrightarrow> ptr_ok (ADDR_CACHE_NUM_REG j) table \<longrightarrow> sub_ok frame slots j c'"
  proof (rule clear_loop.raw_induct [OF _ assms(1)], intro impI)
    fix loop table c c'
    assume IH: "\<And>t c c'. loop t c = Some c' \<Longrightarrow>
        sub_ok frame slots j c \<longrightarrow> ptr_ok (ADDR_CACHE_NUM_REG j) t \<longrightarrow> sub_ok frame slots j c'"
      and body: "(case table of None \<Rightarrow> Some c | Some t \<Rightarrow> loop (at_next (ac_tbls c t))
        ((upd_tbl t (\<lambda>e. e\<lparr>at_next := ac_addr_tbl c, at_start := 0, at_length := 0\<rparr>) c)
          \<lparr>ac_addr_tbl := Some t, ac_freeTables := ac_freeTables c + 1\<rparr>)) = Some c'"
      and sub: "sub_ok frame slots j c" and ptr: "ptr_ok (ADDR_CACHE_NUM_REG j) table"
    show "sub_ok frame slots j c'"
    proof (cases table)
      case (Some t)
      then have t: "t < ADDR_CACHE_NUM_REG j" using ptr by simp
      let ?u = "upd_tbl t (\<lambda>e. e\<lparr>at_next := ac_addr_tbl c, at_start := 0, at_length := 0\<rparr>) c"
      have "sub_ok frame slots j ?u"
        using sub sub_okD(1,3) [OF sub] by (intro sub_ok_upd_tbl tbl_ok_links tbl_ok_empty)
      then have "sub_ok frame slots j (?u\<lparr>ac_addr_tbl := Some t, ac_freeTables := ac_freeTables c + 1\<rparr>)"
        using t by (simp add: sub_ok_def)
      with IH [of "at_next (ac_tbls c t)" _ c'] body Some sub_okD(4) [OF sub t] show ?thesis by simp
    qed (use body sub in simp)
  qed
  with assms show ?thesis by blast
qed

lemma invalidate_loop_ok:
  assumes "invalidate_loop table c = Some c'" "sub_ok frame slots j c" "ptr_ok (ADDR_CACHE_NUM_REG j) table"
  shows "sub_ok frame slots j c'"
proof -
  have "sub_ok frame slots j c \<longrightarrow> ptr_ok (ADDR_CACHE_NUM_REG j) table \<longrightarrow> sub_ok frame slots j c'"
  proof (rule invalidate_loop.raw_induct [OF _ assms(1)], intro impI)
    fix loop table c c'
    assume IH: "\<And>t c c'. loop t c = Some c' \<Longrightarrow>
        sub_ok frame slots j c \<longrightarrow> ptr_ok (ADDR_CACHE_NUM_REG j) t \<longrightarrow> sub_ok frame slots j c'"
      and body: "(case table of None \<Rightarrow> Some c | Some t \<Rightarrow> loop (at_next (ac_tbls c t))
        (upd_tbl t (\<lambda>e. e\<lparr>at_valid := False\<rparr>) c)) = Some c'"
      and sub: "sub_ok frame slots j c" and ptr: "ptr_ok (ADDR_CACHE_NUM_REG j) table"
    show "sub_ok frame slots j c'"
    proof (cases table)
      case (Some t)
      then have t: "t < ADDR_CACHE_NUM_REG j" using ptr by simp
      have "sub_ok frame slots j (upd_tbl t (\<lambda>e. e\<lparr>at_valid := False\<rparr>) c)"
        using sub sub_okD(3) [OF sub] by (intro sub_ok_upd_tbl tbl_ok_invalid)
      with IH [of "at_next (ac_tbls c t)" _ c'] body Some sub_okD(4) [OF sub t] show ?thesis by simp
    qed (use body sub in simp)
  qed
  with assms show ?thesis by blast
qed

lemma search_loop_ok:
  assumes "search_loop v table c = Some r" "sub_ok frame slots j c" "ptr_ok (ADDR_CACHE_NUM_REG j) table"
  shows "ptr_ok (ADDR_CACHE_NUM_REG j) r \<and> (\<forall>t. r = Some t \<longrightarrow> at_start (ac_tbls c t) = v)"
proof -
  have "sub_ok frame slots j c \<longrightarrow> ptr_ok (ADDR_CACHE_NUM_REG j) table \<longrightarrow>
    ptr_ok (ADDR_CACHE_NUM_REG j) r \<and> (\<forall>t. r = Some t \<longrightarrow> at_start (ac_tbls c t) = v)"
  proof (rule search_loop.raw_induct [OF _ assms(1)], intro impI)
    fix loop v table c r
    assume IH: "\<And>v t c r. loop v t c = Some r \<Longrightarrow> sub_ok frame slots j c \<longrightarrow> ptr_ok (ADDR_CACHE_NUM_REG j) t \<longrightarrow>
        ptr_ok (ADDR_CACHE_NUM_REG j) r \<and> (\<forall>t. r = Some t \<longrightarrow> at_start (ac_tbls c t) = v)"
      and body: "(case table of None \<Rightarrow> Some None | Some t \<Rightarrow> if at_start (ac_tbls c t) = v then Some (Some t)
        else loop v (at_next (ac_tbls c t)) c) = Some r"
      and sub: "sub_ok frame slots j c" and ptr: "ptr_ok (ADDR_CACHE_NUM_REG j) table"
    show "ptr_ok (ADDR_CACHE_NUM_REG j) r \<and> (\<forall>t. r = Some t \<longrightarrow> at_start (ac_tbls c t) = v)"
      using IH [of v _ c r] body sub ptr sub_okD(4) [OF sub] by (cases table) (auto split: if_splits)
  qed
  with assms show ?thesis by blast
qed

section \<open>Filling a table\<close>

lemma reg_max_small: "reg_max j < 2 ^ 31"
  by (simp add: reg_max_def ADDR_CACHE_TBL_SZ_def)

text \<open>Filling a table changes this table and the slots of its region.\<close>

lemma fill_table_shape:
  assumes fill: "fill_table ps frame v (int n) j i st = Some (ok, st')"
    and n: "0 < n" "n < 2 ^ 31" "ps < 31" and fr: "frames_ok ps frame"
  shows "\<exists>t'. cs_cache st' = (cs_cache st)(j := upd_tbl i (\<lambda>_. t') (cs_cache st j)) \<and>
    at_slot t' = at_slot (tbl st j i) \<and> at_next t' = at_next (tbl st j i) \<and> at_prev t' = at_prev (tbl st j i) \<and>
    at_cache_id t' = at_cache_id (tbl st j i) \<and> at_table_id t' = at_table_id (tbl st j i) \<and>
    at_start t' = v \<and> at_length t' = (if ok then int n else 0) \<and>
    (\<forall>x. x < at_slot t' \<or> at_slot t' + 1 + pages ps (n - first_len ps v n) \<le> x \<longrightarrow> cs_slot st' x = cs_slot st x)"
proof -
  let ?p = "calcPhysAddress ps frame v" and ?s = "at_slot (tbl st j i)"
  let ?c = "first_chunk ps ?p (int n)"
  have upd: "upd_tbl i f (upd_tbl i g c) = upd_tbl i (\<lambda>t. f (g t)) c" for f g c
    by (simp add: upd_tbl_def)
  show ?thesis
  proof (cases "?p = 0")
    case True
    with fill show ?thesis
      by (intro exI [of _ "(tbl st j i)\<lparr>at_start := v, at_length := 0\<rparr>"])
        (auto simp: fill_table_def Let_def upd tbl_def upd_tbl_def)
  next
    case False
    have c: "unat ?c = first_len ps v n" unfolding first_len_def by (rule first_chunk_unat [OF fr False n(2,3)])
    have rest: "sub_chunk (int n) ?c = int (n - first_len ps v n)"
      using c n(2) by (subst sub_chunk_nat) (simp_all add: first_len_def)
    from fill False rest obtain r slots' where
      loop: "translate_loop ps frame 0 (?s + 1) v ?c (int (n - first_len ps v n)) ((cs_slot st)(?s := ?p)) = Some (r, slots')"
      and res: "(ok, st') = (case r of None \<Rightarrow> (False, upd_cache j (upd_tbl i (\<lambda>t. t\<lparr>at_length := 0\<rparr>))
          ((upd_cache j (upd_tbl i (\<lambda>t. t\<lparr>at_chunk0 := s32 (uint ?c)\<rparr>)) (upd_cache j (upd_tbl i (\<lambda>t. t\<lparr>at_start := v, at_length := int n\<rparr>)) st))\<lparr>cs_slot := slots'\<rparr>))
        | Some (k, cn) \<Rightarrow> (True, upd_cache j (upd_tbl i (\<lambda>t. t\<lparr>at_chunkn := s32 (uint cn), at_nchunks := k, at_valid := True\<rparr>))
          ((upd_cache j (upd_tbl i (\<lambda>t. t\<lparr>at_chunk0 := s32 (uint ?c)\<rparr>)) (upd_cache j (upd_tbl i (\<lambda>t. t\<lparr>at_start := v, at_length := int n\<rparr>)) st))\<lparr>cs_slot := slots'\<rparr>)))"
      by (auto simp: fill_table_def Let_def bind_eq_Some_conv split: if_splits)
    have "n - first_len ps v n < 2 ^ 31" using n(2) by linarith
    note frame = translate_loop_frame [OF loop this n(3)]
    have slot: "cs_slot st' = slots'" using res by (auto split: option.splits prod.splits)
    have f: "\<forall>x. x < ?s \<or> ?s + 1 + pages ps (n - first_len ps v n) \<le> x \<longrightarrow> slots' x = cs_slot st x"
      using frame by simp
    show ?thesis
    proof (cases r)
      case None
      with res f show ?thesis
        by (intro exI [of _ "(tbl st j i)\<lparr>at_start := v, at_chunk0 := s32 (uint ?c), at_length := 0\<rparr>"])
          (simp add: slot upd tbl_def upd_tbl_def)
    next
      case (Some kc)
      obtain k cn where kc: "kc = (k, cn)" by (cases kc)
      from Some kc res f show ?thesis
        by (intro exI [of _ "(tbl st j i)\<lparr>at_start := v, at_length := int n, at_chunk0 := s32 (uint ?c),
            at_chunkn := s32 (uint cn), at_nchunks := k, at_valid := True\<rparr>"])
          (simp add: slot upd tbl_def upd_tbl_def)
    qed
  qed
qed

text \<open>A table describes its region by its own slots.\<close>

lemma region_ok_cong:
  assumes "region_ok 13 frame slots t start len" "0 < len" "len \<le> reg_max j"
    and "\<forall>x. at_slot t \<le> x \<and> x < at_slot t + ADDR_CACHE_TBL_SZ j \<longrightarrow> slots' x = slots x"
  shows "region_ok 13 frame slots' t start len"
proof -
  have c: "nat (at_chunk0 t) = first_len 13 start len" using region_okD(1) [OF assms(1)] by simp
  note fit = chunks_fit [OF assms(2,3), of start]
  have "slot_has slots' x a" if "slot_has slots x a" "at_slot t \<le> x" "x < at_slot t + ADDR_CACHE_TBL_SZ j" for x a
    using that assms(4) by (simp add: slot_has_def)
  with assms(1) fit show ?thesis unfolding region_ok_def c by simp
qed

lemma fill_table_inv:
  assumes inv: "cache_inv frame st" and ji: "j < 3" "i < ADDR_CACHE_NUM_REG j"
    and n: "0 < n" "n \<le> reg_max j" and v: "v \<noteq> 0" and fr: "frames_ok 13 frame"
    and fill: "fill_table 13 frame v (int n) j i st = Some (ok, st')"
  shows "cache_inv frame st'" "ok \<Longrightarrow> region_ok 13 frame (cs_slot st') (tbl st' j i) v n"
proof -
  have n31: "n < 2 ^ 31" "(13 :: nat) < 31" using n(2) reg_max_small [of j] by linarith+
  show reg: "region_ok 13 frame (cs_slot st') (tbl st' j i) v n" if ok
    using fill_table_ok(1) [OF _ n(1) n31 fr] fill that by simp
  from fill_table_shape [OF fill n(1) n31 fr] obtain t' where
    c': "cs_cache st' = (cs_cache st)(j := upd_tbl i (\<lambda>_. t') (cs_cache st j))"
    and t': "at_slot t' = at_slot (tbl st j i)" "at_next t' = at_next (tbl st j i)" "at_prev t' = at_prev (tbl st j i)"
      "at_cache_id t' = at_cache_id (tbl st j i)" "at_table_id t' = at_table_id (tbl st j i)"
      "at_start t' = v" "at_length t' = (if ok then int n else 0)"
    and slots: "\<forall>x. x < at_slot t' \<or> at_slot t' + 1 + pages 13 (n - first_len 13 v n) \<le> x \<longrightarrow> cs_slot st' x = cs_slot st x"
    by blast
  have old: "tbl_ok frame (cs_slot st) j i (tbl st j i)" using inv ji by (simp add: cache_inv_def sub_ok_def tbl_def)
  have tij: "tbl st' j i = t'" by (simp add: tbl_def c')
  have new: "tbl_ok frame (cs_slot st') j i t'"
    using old reg n v unfolding tbl_ok_def tij t' by (cases ok) simp_all
  have other: "tbl_ok frame (cs_slot st') j' i' t" if "tbl_ok frame (cs_slot st) j' i' t" "j' < 3" "i' < ADDR_CACHE_NUM_REG j'" "(j', i') \<noteq> (j, i)" for j' i' t
  proof -
    have "at_slot t' = slot_of j i" "at_slot t = slot_of j' i'" using old that(1) by (simp_all add: t'(1) tbl_ok_def)
    then have "\<forall>x. at_slot t \<le> x \<and> x < at_slot t + ADDR_CACHE_TBL_SZ j' \<longrightarrow> cs_slot st' x = cs_slot st x"
      using slot_ranges_disjoint [OF that(3) ji(2) that(4)] slots chunks_fit [OF n, of v] by auto
    then have "region_ok 13 frame (cs_slot st') t (at_start t) (nat (at_length t))"
      if "at_valid t" "at_length t > 0"
      using region_ok_cong [of frame "cs_slot st" t "at_start t" "nat (at_length t)" j' "cs_slot st'"]
        \<open>tbl_ok frame (cs_slot st) j' i' t\<close> that by (auto simp: tbl_ok_def)
    with that(1) show ?thesis by (simp add: tbl_ok_def)
  qed
  show "cache_inv frame st'"
    using inv new other unfolding cache_inv_def sub_ok_def c' by (auto simp: tbl_def)
qed

text \<open>Picking a table for a region.\<close>

lemma pick_cache_lt: "pick_cache n st < 3"
  by (simp add: pick_cache_def)

lemma pick_cache_fits:
  assumes "cache_inv frame st" "n \<le> reg_max 2"
  shows "n \<le> reg_max (pick_cache (int n) st)"
proof -
  have "ac_reg_sz (cs_cache st j) = int (reg_max j)" if "j < 3" for j
    using assms(1) that by (simp add: cache_inv_def sub_ok_def reg_max_eq)
  from this [of 0] this [of 1] assms(2) show ?thesis by (simp add: pick_cache_def)
qed

lemma pick_table_inv:
  assumes inv: "cache_inv frame st" and j: "j < 3" and op: "pick_table v n p j st = Some (r, st')"
  shows "cache_inv frame st' \<and> (\<forall>i b. r = Some (i, b) \<longrightarrow> i < ADDR_CACHE_NUM_REG j \<and>
    (b \<longrightarrow> st' = st \<and> at_start (tbl st j i) = v \<and> at_length (tbl st j i) \<ge> n \<and> at_valid (tbl st j i)))"
proof -
  have sub: "sub_ok frame (cs_slot st) j (cs_cache st j)" using inv j by (simp add: cache_inv_def)
  show ?thesis
  proof (cases "ac_strategy (cs_cache st j)")
    case TBL_REDO
    with op obtain i st1 where i: "addrCache_tblUnlink j st = Some (i, st1)"
      "(if i < 0 then Some (None, st1) else if \<not> good_ppid p then None
        else Some (Some (nat i, False), upd_cache j (push_redo (nat p) (nat i)) st1)) = Some (r, st')"
      by (auto simp: pick_table_def bind_eq_Some_conv)
    note u = tblUnlink_inv [OF inv j i(1)]
    have "cache_inv frame (upd_cache j (push_redo (nat p) (nat i)) st1)" if "\<not> i < 0"
      using u(2) that by (intro cache_inv_upd [OF u(1)] push_ok) simp_all
    with i(2) u(1,2) show ?thesis by (auto split: if_splits)
  next
    case TBL_LOOKUP
    with op obtain f where f: "search_loop v (ac_taskTbl (cs_cache st j) (nat p)) (cs_cache st j) = Some f"
      and r: "(case f of Some t \<Rightarrow> Some (Some (t, at_length (tbl st j t) \<ge> n \<and> at_valid (tbl st j t)), st)
        | None \<Rightarrow> Option.bind (addrCache_tblUnlink j st) (\<lambda>(i, st1).
            if i < 0 then Some (None, st1)
            else Some (Some (nat i, False), count_validation p j (upd_cache j (push_lookup (nat p) (nat i)) st1)))) = Some (r, st')"
      by (auto simp: pick_table_def bind_eq_Some_conv split: if_splits)
    note s = search_loop_ok [OF f sub sub_okD(2) [OF sub]]
    show ?thesis
    proof (cases f)
      case (Some t)
      with r s inv show ?thesis by (auto simp: tbl_def)
    next
      case None
      with r obtain i st1 where i: "addrCache_tblUnlink j st = Some (i, st1)"
        "(if i < 0 then Some (None, st1)
          else Some (Some (nat i, False), count_validation p j (upd_cache j (push_lookup (nat p) (nat i)) st1))) = Some (r, st')"
        by (auto simp: bind_eq_Some_conv)
      note u = tblUnlink_inv [OF inv j i(1)]
      have "cache_inv frame (upd_cache j (push_lookup (nat p) (nat i)) st1)" if "\<not> i < 0"
        using u(2) that by (intro cache_inv_upd [OF u(1)] push_ok) simp_all
      then have "cache_inv frame (count_validation p j (upd_cache j (push_lookup (nat p) (nat i)) st1))" if "\<not> i < 0"
        using that by (simp add: count_validation_def)
      with i(2) u(1,2) show ?thesis by (auto split: if_splits)
    qed
  qed
qed

section \<open>The operations keep the invariant\<close>

lemma populate_inv:
  assumes inv: "cache_inv frame st" and fr: "frames_ok 13 frame" and n: "n \<le> reg_max 2"
    and op: "addrCache_populate 13 frame v (int n) p st = Some ((rc, key), st')"
  shows "cache_inv frame st' \<and> (\<forall>j i. key = Some (j, i) \<longrightarrow> j < 3 \<and> i < ADDR_CACHE_NUM_REG j \<and> at_valid (tbl st' j i) \<and>
    (\<exists>len \<ge> n. at_length (tbl st' j i) = int len \<and> region_ok 13 frame (cs_slot st') (tbl st' j i) v len))"
proof (cases "v = 0 \<or> n = 0")
  case True
  with op inv show ?thesis by (auto simp: addrCache_populate_def)
next
  case False
  define j where "j = pick_cache (int n) st"
  have j: "j < 3" and nj: "n \<le> reg_max j" using pick_cache_lt pick_cache_fits [OF inv n] by (simp_all add: j_def)
  from False op obtain r st1 where r: "pick_table v (int n) p j st = Some (r, st1)"
    and res: "(case r of None \<Rightarrow> Some ((-1, None), st1)
      | Some (i, validated) \<Rightarrow> if validated then Some ((0, Some (j, i)), st1)
          else map_option (\<lambda>(ok, st2). (if ok then (0, Some (j, i)) else (-1, None), st2)) (fill_table 13 frame v (int n) j i st1)) =
      Some ((rc, key), st')"
    unfolding addrCache_populate_def Let_def j_def [symmetric] by (auto simp: bind_eq_Some_conv)
  note pick = pick_table_inv [OF inv j r]
  show ?thesis
  proof (cases r)
    case None
    with res pick show ?thesis by auto
  next
    case (Some ib)
    obtain i b where ib: "ib = (i, b)" by (cases ib)
    have i: "i < ADDR_CACHE_NUM_REG j" using pick Some ib by simp
    show ?thesis
    proof (cases b)
      case True
      with pick Some ib res have st': "st' = st" "key = Some (j, i)"
        and old: "at_start (tbl st j i) = v" "at_length (tbl st j i) \<ge> int n" "at_valid (tbl st j i)" by auto
      have "tbl_ok frame (cs_slot st) j i (tbl st j i)" using inv j i by (simp add: cache_inv_def sub_ok_def tbl_def)
      then have "region_ok 13 frame (cs_slot st) (tbl st j i) v (nat (at_length (tbl st j i)))"
        using old False by (simp add: tbl_ok_def)
      moreover have "n \<le> nat (at_length (tbl st j i))" "at_length (tbl st j i) = int (nat (at_length (tbl st j i)))"
        using old(2) by simp_all
      ultimately show ?thesis using st' inv j i old(3) by blast
    next
      case False
      with res Some ib obtain ok where fill: "fill_table 13 frame v (int n) j i st1 = Some (ok, st')"
        and key: "(rc, key) = (if ok then (0, Some (j, i)) else (-1, None))" by auto
      have n0: "0 < n" and v: "v \<noteq> 0" using \<open>\<not> (v = 0 \<or> n = 0)\<close> by simp_all
      note f = fill_table_inv [OF conjunct1 [OF pick] j i n0 nj v fr fill]
      then have "at_valid (tbl st' j i) \<and> at_length (tbl st' j i) = int n" if ok using that by (simp add: region_ok_def)
      with f key j i show ?thesis by (auto split: if_splits)
    qed
  qed
qed

lemma key_table_inv:
  assumes "cache_inv frame st" "fst key < 3" "snd key < ADDR_CACHE_NUM_REG (fst key)"
  shows "key_table key st = Some key"
proof -
  have "tbl_ok frame (cs_slot st) (fst key) (snd key) (tbl st (fst key) (snd key))"
    using assms by (simp add: cache_inv_def sub_ok_def tbl_def)
  then show ?thesis using assms(2,3) by (simp add: key_table_def tbl_ok_def NUM_SUBCACHES_def)
qed

lemma key_table_range: "key_table key st = Some (j, i) \<Longrightarrow> j < 3 \<and> i < ADDR_CACHE_NUM_REG j"
  by (auto simp: key_table_def Let_def NUM_SUBCACHES_def split: if_splits)

lemma tblLink_inv:
  assumes "cache_inv frame st" "addrCache_tblLink key p st = Some st'"
  shows "cache_inv frame st'"
proof (cases key)
  case None
  with assms show ?thesis by (simp add: addrCache_tblLink_def)
next
  case (Some k)
  with assms(2) obtain j i where ji: "key_table k st = Some (j, i)"
    "st' = st \<or> st' = upd_cache j (link_table (nat p) i) st"
    by (auto simp: addrCache_tblLink_def bind_eq_Some_conv split: if_splits)
  have "cache_inv frame (upd_cache j (link_table (nat p) i) st)"
    using key_table_range [OF ji(1)] by (intro cache_inv_upd [OF assms(1)] link_table_ok) simp_all
  with ji(2) assms(1) show ?thesis by blast
qed

lemma clear_cache_inv:
  assumes "cache_inv frame st" "j < 3" "clear_cache p j st = Some st'"
  shows "cache_inv frame st'"
proof -
  from assms(3) obtain c where c: "clear_loop (ac_taskTbl (cs_cache st j) p) (cs_cache st j) = Some c"
    "st' = upd_cache j (\<lambda>_. c\<lparr>ac_taskTbl := (ac_taskTbl c)(p := None)\<rparr>) st" by (auto simp: clear_cache_def)
  have sub: "sub_ok frame (cs_slot st) j (cs_cache st j)" using assms by (simp add: cache_inv_def)
  have "sub_ok frame (cs_slot st) j (c\<lparr>ac_taskTbl := (ac_taskTbl c)(p := None)\<rparr>)"
    by (rule sub_ok_heads(2) [OF clear_loop_ok [OF c(1) sub sub_okD(2) [OF sub]]]) simp
  then show ?thesis unfolding c(2) by (intro cache_inv_upd [OF assms(1)])
qed

lemma three_steps:
  assumes "Option.bind (f s) (\<lambda>x. Option.bind (g x) h) = Some s'" "P s"
    and "\<And>s s'. P s \<Longrightarrow> f s = Some s' \<Longrightarrow> P s'" "\<And>s s'. P s \<Longrightarrow> g s = Some s' \<Longrightarrow> P s'"
    and "\<And>s s'. P s \<Longrightarrow> h s = Some s' \<Longrightarrow> P s'"
  shows "P s'"
proof -
  from assms(1) obtain a b where "f s = Some a" "g a = Some b" "h b = Some s'"
    unfolding bind_eq_Some_conv by (elim exE conjE)
  from assms(5) [OF assms(4) [OF assms(3) [OF assms(2) this(1)] this(2)] this(3)] show ?thesis .
qed

lemma tblClear_inv:
  assumes "cache_inv frame st" "addrCache_tblClear p st = Some st'"
  shows "cache_inv frame st'"
proof -
  define st1 where "st1 = (if cs_rank st = 1 then st\<lparr>cs_sent := cs_sent st @ [cs_summary st]\<rparr> else st)\<lparr>cs_rank := -1\<rparr>"
  have inv: "cache_inv frame st1" using assms(1) by (simp add: st1_def)
  have b: "Option.bind (clear_cache (nat p) 0 st1) (\<lambda>st2. Option.bind (clear_cache (nat p) 1 st2) (clear_cache (nat p) 2)) = Some st'"
    using assms(2) unfolding addrCache_tblClear_def Let_def st1_def [symmetric] by (simp split: if_splits)
  show ?thesis
    by (rule three_steps [where P = "cache_inv frame" and s = st1 and f = "clear_cache (nat p) 0"
        and g = "clear_cache (nat p) 1" and h = "clear_cache (nat p) 2", OF b inv]; erule clear_cache_inv [rotated 2]; simp)
qed

lemma tblInit_inv:
  assumes "cache_inv frame st" "addrCache_tblInit p ct st = Some st'"
  shows "cache_inv frame st'"
proof -
  have upd: "cache_inv frame (upd_cache j (\<lambda>c. c\<lparr>ac_taskTbl := (ac_taskTbl c)(q := None)\<rparr>) s)" if "cache_inv frame s" for j q s
    by (rule cache_inv_upd [OF that]) (rule sub_ok_heads(2), simp_all)
  have "cache_inv frame (fold (\<lambda>j. upd_cache j (\<lambda>c. c\<lparr>ac_taskTbl := (ac_taskTbl c)(q := None)\<rparr>)) js s)"
    if "cache_inv frame s" for js q s
    using that by (induction js arbitrary: s) (simp_all add: upd)
  with assms show ?thesis by (auto simp: addrCache_tblInit_def Let_def split: if_splits)
qed

lemma invalidate_cache_inv:
  assumes "cache_inv frame st" "j < 3" "invalidate_cache p j st = Some st'"
  shows "cache_inv frame st'"
proof -
  from assms(3) obtain c where c: "invalidate_loop (ac_taskTbl (cs_cache st j) p) (cs_cache st j) = Some c"
    "st' = upd_cache j (\<lambda>_. c) st" by (auto simp: invalidate_cache_def)
  have sub: "sub_ok frame (cs_slot st) j (cs_cache st j)" using assms by (simp add: cache_inv_def)
  from invalidate_loop_ok [OF c(1) sub sub_okD(2) [OF sub]] show ?thesis
    unfolding c(2) by (intro cache_inv_upd [OF assms(1)])
qed

lemma invalidate_inv:
  assumes "cache_inv frame st" "addrCache_invalidate k ct st = Some st'"
  shows "cache_inv frame st'"
proof -
  from assms(2) obtain p where b: "Option.bind (invalidate_cache p 0 st)
      (\<lambda>st1. Option.bind (invalidate_cache p 1 st1) (invalidate_cache p 2)) = Some st'"
    by (simp add: addrCache_invalidate_def Let_def split: if_splits)
  show ?thesis
    by (rule three_steps [where P = "cache_inv frame" and s = st and f = "invalidate_cache p 0"
        and g = "invalidate_cache p 1" and h = "invalidate_cache p 2", OF b assms(1)]; erule invalidate_cache_inv [rotated 2]; simp)
qed

lemma revalidate_inv:
  assumes inv: "cache_inv frame st" and fr: "frames_ok 13 frame" and ji: "j < 3" "i < ADDR_CACHE_NUM_REG j"
    and op: "addrCache_revalidate 13 frame j i (at_start (tbl st j i)) (at_length (tbl st j i)) st = Some (rc, st')"
  shows "cache_inv frame st' \<and> (rc \<ge> 0 \<longrightarrow> at_valid (tbl st' j i) \<and> at_start (tbl st' j i) = at_start (tbl st j i) \<and>
    at_length (tbl st' j i) = at_length (tbl st j i))"
proof -
  let ?t = "tbl st j i"
  have ok: "tbl_ok frame (cs_slot st) j i ?t" using inv ji by (simp add: cache_inv_def sub_ok_def tbl_def)
  show ?thesis
  proof (cases "at_length ?t = 0")
    case True
    then have st': "rc = 0" "st' = upd_cache j (upd_tbl i (\<lambda>t. t\<lparr>at_valid := True\<rparr>)) st"
      using op by (auto simp: addrCache_revalidate_def)
    have "tbl_ok frame (cs_slot st) j i (?t\<lparr>at_valid := True\<rparr>)" using ok True by (simp add: tbl_ok_def)
    then have "sub_ok frame (cs_slot st) j (upd_tbl i (\<lambda>t. t\<lparr>at_valid := True\<rparr>) (cs_cache st j))"
      using inv ji by (intro sub_ok_upd_tbl) (simp_all add: cache_inv_def tbl_def)
    then have "cache_inv frame st'" using inv unfolding st'(2) cache_inv_def by simp
    then show ?thesis by (simp add: st' tbl_def)
  next
    case False
    define n where "n = nat (at_length ?t)"
    have n: "at_length ?t = int n" "0 < n" "n \<le> reg_max j" "at_start ?t \<noteq> 0"
      using ok False by (simp_all add: n_def tbl_ok_def nat_le_iff)
    from op n obtain b where fill: "fill_table 13 frame (at_start ?t) (int n) j i st = Some (b, st')" "rc = (if b then 0 else -1)"
      by (auto simp: addrCache_revalidate_def)
    note f = fill_table_inv [OF inv ji n(2,3,4) fr fill(1)]
    from f fill(2) n(1) show ?thesis by (auto simp: region_ok_def)
  qed
qed

lemma copy_check_inv:
  assumes "cache_inv frame st" "frames_ok 13 frame" "j < 3" "i < ADDR_CACHE_NUM_REG j"
    and "copy_check 13 frame v n (j, i) st = Some (r, st')"
  shows "cache_inv frame st'"
proof -
  from assms(5) obtain rc where "st' = st \<or>
      addrCache_revalidate 13 frame j i (at_start (tbl st j i)) (at_length (tbl st j i)) st = Some (rc, st')"
    by (auto simp: copy_check_def Let_def bind_eq_Some_conv split: if_splits)
  with assms(1) revalidate_inv [OF assms(1-4)] show ?thesis by blast
qed

section \<open>Initialisation\<close>

lemma fold_upd_tbl:
  "fold (\<lambda>i. upd_tbl i (f i)) [0..<m] c = c\<lparr>ac_tbls := (\<lambda>i. if i < m then f i (ac_tbls c i) else ac_tbls c i)\<rparr>"
proof (induction m)
  case (Suc m)
  have "(\<lambda>i. if i < m then f i (ac_tbls c i) else ac_tbls c i)(m := f m (ac_tbls c m)) =
      (\<lambda>i. if i < Suc m then f i (ac_tbls c i) else ac_tbls c i)" by (auto simp: less_Suc_eq)
  then show ?case unfolding upt_Suc_append [OF le0] fold_append o_apply Suc.IH by (simp add: upd_tbl_def)
qed simp

lemma init_list_tbls:
  assumes "0 < ac_num_reg c"
  shows "init_list c = c\<lparr>ac_num_reg_used := 0, ac_addr_tbl := Some 0, ac_freeTables := int (ac_num_reg c),
    ac_tbls := (\<lambda>i. if i < ac_num_reg c then (ac_tbls c i)\<lparr>at_next := if i + 1 < ac_num_reg c then Some (i + 1) else None,
      at_prev := None\<rparr> else ac_tbls c i)\<rparr>"
proof -
  let ?n = "ac_num_reg c"
  have "(\<lambda>i. if i < ?n - 1 then (ac_tbls c i)\<lparr>at_next := Some (i + 1), at_prev := None\<rparr> else ac_tbls c i)
      (?n - 1 := (ac_tbls c (?n - 1))\<lparr>at_next := None, at_prev := None\<rparr>) =
    (\<lambda>i. if i < ?n then (ac_tbls c i)\<lparr>at_next := if i + 1 < ?n then Some (i + 1) else None, at_prev := None\<rparr> else ac_tbls c i)"
    using assms by (auto simp: fun_eq_iff)
  then show ?thesis unfolding init_list_def Let_def fold_upd_tbl by (simp add: upd_tbl_def cong: if_cong)
qed

text \<open>The inner loop of the assignment of slots.\<close>

definition slotted :: "nat \<Rightarrow> nat \<Rightarrow> nat \<Rightarrow> addr_cache \<Rightarrow> addr_cache" where
  "slotted j s m c = c\<lparr>ac_tbls := (\<lambda>i. if i < m then (ac_tbls c i)\<lparr>at_table_id := i, at_cache_id := j,
     at_slot := s + i * ac_tbl_sz c\<rparr> else ac_tbls c i)\<rparr>"

lemma init_slots_inner:
  "fold (\<lambda>i (st, slotInd). (upd_cache j (upd_tbl i (\<lambda>t. t\<lparr>at_table_id := i, at_cache_id := j, at_slot := slotInd\<rparr>)) st,
       slotInd + ac_tbl_sz (cs_cache st j))) [0..<m] (st, s) =
   (upd_cache j (slotted j s m) st, s + m * ac_tbl_sz (cs_cache st j))"
proof (induction m)
  case 0
  have "slotted j s 0 c = c" for c by (simp add: slotted_def)
  then show ?case by (simp add: upd_cache_def)
next
  case (Suc m)
  have "upd_tbl m (\<lambda>t. t\<lparr>at_table_id := m, at_cache_id := j, at_slot := s + m * ac_tbl_sz c\<rparr>) (slotted j s m c) =
      slotted j s (Suc m) c" for c
  proof -
    have "(\<lambda>i. if i < m then (ac_tbls c i)\<lparr>at_table_id := i, at_cache_id := j, at_slot := s + i * ac_tbl_sz c\<rparr> else ac_tbls c i)
        (m := (ac_tbls c m)\<lparr>at_table_id := m, at_cache_id := j, at_slot := s + m * ac_tbl_sz c\<rparr>) =
      (\<lambda>i. if i < Suc m then (ac_tbls c i)\<lparr>at_table_id := i, at_cache_id := j, at_slot := s + i * ac_tbl_sz c\<rparr> else ac_tbls c i)"
      by (auto simp: less_Suc_eq)
    then show ?thesis by (simp add: upd_tbl_def slotted_def)
  qed
  moreover have "ac_tbl_sz (slotted j s m c) = ac_tbl_sz c" for c by (simp add: slotted_def)
  ultimately show ?case
    unfolding upt_Suc_append [OF le0] fold_append o_apply Suc.IH by (simp add: upd_cache_def)
qed

lemma slotted_sel [simp]:
  "ac_num_reg (slotted j s m c) = ac_num_reg c" "ac_tbl_sz (slotted j s m c) = ac_tbl_sz c"
  by (simp_all add: slotted_def)

text \<open>The state after initialisation.\<close>

definition booted :: "nat \<Rightarrow> cache_st" where
  "booted ps = snd (init_module True (cache_boot ps))"

lemma init_slots_eq:
  "cs_cache (init_slots (cache_boot ps)) j = (if j < 3 then slotted j (slot_base j) (ADDR_CACHE_NUM_REG j) (cs_cache (cache_boot ps) j)
     else cs_cache (cache_boot ps) j)"
proof -
  have sz: "ac_tbl_sz (cs_cache (cache_boot ps) j) = ADDR_CACHE_TBL_SZ j"
    "ac_num_reg (cs_cache (cache_boot ps) j) = ADDR_CACHE_NUM_REG j" for j by (simp_all add: cache_boot_def)
  have three: "[0..<NUM_SUBCACHES] = [0, 1, 2]" by (simp add: NUM_SUBCACHES_def numeral_3_eq_3 numeral_2_eq_2)
  have base: "slot_base 0 = 0" "slot_base 1 = ADDR_CACHE_NUM_REG 0 * ADDR_CACHE_TBL_SZ 0"
    "slot_base 2 = ADDR_CACHE_NUM_REG 0 * ADDR_CACHE_TBL_SZ 0 + ADDR_CACHE_NUM_REG 1 * ADDR_CACHE_TBL_SZ 1"
    by (simp_all add: slot_base_def numeral_2_eq_2)
  have "j = 0 \<or> j = 1 \<or> j = 2 \<or> 3 \<le> j" by linarith
  then show ?thesis
    unfolding init_slots_def three fold_simps init_slots_inner prod.case o_apply id_apply
    by (auto simp: sz base base(2) [unfolded One_nat_def])
qed

lemma init_lists_eq:
  "cs_cache (fold (\<lambda>j. upd_cache j init_list) [0..<NUM_SUBCACHES] st) j = (if j < 3 then init_list (cs_cache st j) else cs_cache st j)"
proof -
  have three: "[0..<NUM_SUBCACHES] = [0, 1, 2]" by (simp add: NUM_SUBCACHES_def numeral_3_eq_3 numeral_2_eq_2)
  have "j = 0 \<or> j = 1 \<or> j = 2 \<or> 3 \<le> j" by linarith
  then show ?thesis unfolding three by auto
qed

text \<open>The tables and the heads after initialisation.\<close>

lemma booted_cache:
  assumes "j < 3"
  shows "cs_cache (booted ps) j = (cs_cache (cache_boot ps) j)\<lparr>ac_addr_tbl := Some 0,
      ac_tbls := (\<lambda>i. if i < ADDR_CACHE_NUM_REG j then zero_tbl\<lparr>at_table_id := i, at_cache_id := j, at_slot := slot_of j i,
        at_next := if i + 1 < ADDR_CACHE_NUM_REG j then Some (i + 1) else None\<rparr> else zero_tbl)\<rparr>"
proof -
  have n: "0 < ADDR_CACHE_NUM_REG j" by (simp add: ADDR_CACHE_NUM_REG_def)
  have "cs_cache (booted ps) j = init_list (slotted j (slot_base j) (ADDR_CACHE_NUM_REG j) (cs_cache (cache_boot ps) j))"
    using assms by (simp add: booted_def init_module_def init_lists_eq init_slots_eq)
  also have "\<dots> = (cs_cache (cache_boot ps) j)\<lparr>ac_addr_tbl := Some 0,
      ac_tbls := (\<lambda>i. if i < ADDR_CACHE_NUM_REG j then zero_tbl\<lparr>at_table_id := i, at_cache_id := j, at_slot := slot_of j i,
        at_next := if i + 1 < ADDR_CACHE_NUM_REG j then Some (i + 1) else None\<rparr> else zero_tbl)\<rparr>"
    using n by (subst init_list_tbls) (auto simp: slotted_def cache_boot_def slot_of_def zero_tbl_def fun_eq_iff cong: if_cong)
  finally show ?thesis .
qed

lemma booted_inv: "cache_inv frame (booted 13)"
  unfolding cache_inv_def sub_ok_def
  by (auto simp: booted_cache cache_boot_def tbl_ok_def zero_tbl_def ADDR_CACHE_NUM_REG_def)

section \<open>Runs\<close>

text \<open>
  The runs on the 8 KB pages of the Alpha nodes, of processes with the page tables
  \<open>frame\<close>, that validate regions of at most the largest size.
\<close>

inductive cache_run :: "page_tables \<Rightarrow> cache_st \<Rightarrow> bool" for frame where
  boot: "cache_run frame (booted 13)"
| populate: "cache_run frame st \<Longrightarrow> n \<le> reg_max 2 \<Longrightarrow>
    addrCache_populate 13 frame v (int n) p st = Some (r, st') \<Longrightarrow> cache_run frame st'"
| tblLink: "cache_run frame st \<Longrightarrow> addrCache_tblLink key p st = Some st' \<Longrightarrow> cache_run frame st'"
| tblInit: "cache_run frame st \<Longrightarrow> addrCache_tblInit p ct st = Some st' \<Longrightarrow> cache_run frame st'"
| tblClear: "cache_run frame st \<Longrightarrow> addrCache_tblClear p st = Some st' \<Longrightarrow> cache_run frame st'"
| ioctl: "cache_run frame st \<Longrightarrow> addrCache_ioctl k ct cmd st = Some (rc, st') \<Longrightarrow> cache_run frame st'"
| to_user: "cache_run frame st \<Longrightarrow>
    memcpy3_to_user 13 frame v src n key mem st = Some (rc, mem', st') \<Longrightarrow> cache_run frame st'"
| from_user: "cache_run frame st \<Longrightarrow>
    memcpy3_from_user 13 frame dst v n key mem st = Some (rc, mem', st') \<Longrightarrow> cache_run frame st'"

lemma memcpy3_to_check:
  assumes "memcpy3_to_user 13 frame v src n key mem st = Some (rc, mem', st')"
  shows "\<exists>j i r. j < 3 \<and> i < ADDR_CACHE_NUM_REG j \<and> copy_check 13 frame v n (j, i) st = Some (r, st')"
proof -
  from assms obtain k j i r where "key_table k st = Some (j, i)" "copy_check 13 frame v n (j, i) st = Some (r, st')"
    by (auto simp: memcpy3_to_user_def bind_eq_Some_conv split: option.splits)
  with key_table_range show ?thesis by blast
qed

lemma memcpy3_from_check:
  assumes "memcpy3_from_user 13 frame dst v n key mem st = Some (rc, mem', st')"
  shows "\<exists>j i r. j < 3 \<and> i < ADDR_CACHE_NUM_REG j \<and> copy_check 13 frame v n (j, i) st = Some (r, st')"
proof -
  from assms obtain k j i r where "key_table k st = Some (j, i)" "copy_check 13 frame v n (j, i) st = Some (r, st')"
    by (auto simp: memcpy3_from_user_def bind_eq_Some_conv split: option.splits)
  with key_table_range show ?thesis by blast
qed

lemma cache_run_inv: "cache_run frame st \<Longrightarrow> frames_ok 13 frame \<Longrightarrow> cache_inv frame st"
proof (induction rule: cache_run.induct)
  case boot
  show ?case by (rule booted_inv)
next
  case (populate st n v p r st')
  then show ?case using populate_inv [of frame st n v p "fst r" "snd r" st'] by simp
next
  case (tblLink st key p st')
  then show ?case by (blast intro: tblLink_inv)
next
  case (tblInit st p ct st')
  then show ?case by (blast intro: tblInit_inv)
next
  case (tblClear st p st')
  then show ?case by (blast intro: tblClear_inv)
next
  case (ioctl st k ct cmd rc st')
  then show ?case by (cases cmd) (auto dest: invalidate_inv)
next
  case (to_user st v src n key mem rc mem' st')
  then show ?case using memcpy3_to_check [OF to_user.hyps(2)] copy_check_inv [of frame st] by blast
next
  case (from_user st dst v n key mem rc mem' st')
  then show ?case using memcpy3_from_check [OF from_user.hyps(2)] copy_check_inv [of frame st] by blast
qed

end
