(* ===== verification/K_CacheLists.thy ===== *)
theory K_CacheLists
  imports K_CacheRuns "HOL-Library.Multiset"
begin

text \<open>
  The lists of the address cache: the free tables of a subcache and the tables of every
  process.  The abstract state of a subcache is the list of its free tables and a list of
  tables for every process.
\<close>

section \<open>Chains\<close>

fun lseg :: "(nat \<Rightarrow> nat option) \<Rightarrow> nat option \<Rightarrow> nat list \<Rightarrow> nat option \<Rightarrow> bool" where
  "lseg nx p [] q \<longleftrightarrow> p = q"
| "lseg nx p (x # xs) q \<longleftrightarrow> p = Some x \<and> lseg nx (nx x) xs q"

fun backs :: "(nat \<Rightarrow> nat option) \<Rightarrow> nat option \<Rightarrow> nat list \<Rightarrow> bool" where
  "backs pv a [] \<longleftrightarrow> True"
| "backs pv a (x # xs) \<longleftrightarrow> pv x = a \<and> backs pv (Some x) xs"

abbreviation chain :: "(nat \<Rightarrow> nat option) \<Rightarrow> nat option \<Rightarrow> nat list \<Rightarrow> bool" where
  "chain nx p xs \<equiv> lseg nx p xs None"

lemma lseg_append: "lseg nx p (xs @ ys) q \<longleftrightarrow> (\<exists>r. lseg nx p xs r \<and> lseg nx r ys q)"
  by (induction xs arbitrary: p) auto

lemma backs_append: "backs pv a (xs @ ys) \<longleftrightarrow> backs pv a xs \<and> backs pv (if xs = [] then a else Some (last xs)) ys"
  by (induction xs arbitrary: a) auto

lemma lseg_upd [simp]: "x \<notin> set xs \<Longrightarrow> lseg (nx(x := v)) p xs q = lseg nx p xs q"
  by (induction xs arbitrary: p) auto

lemma backs_upd [simp]: "x \<notin> set xs \<Longrightarrow> backs (pv(x := v)) a xs = backs pv a xs"
  by (induction xs arbitrary: a) auto

lemma lseg_snoc_upd:
  "distinct xs \<Longrightarrow> xs \<noteq> [] \<Longrightarrow> lseg nx p xs r \<Longrightarrow> lseg (nx(last xs := q)) p xs q"
  by (induction xs arbitrary: p) auto

lemma lseg_det: "lseg nx p xs None \<Longrightarrow> lseg nx p ys None \<Longrightarrow> xs = ys"
proof (induction xs arbitrary: p ys)
  case Nil
  then show ?case by (cases ys) auto
next
  case (Cons x xs)
  then show ?case by (cases ys) auto
qed

section \<open>The lists of a subcache\<close>

abbreviation nexts :: "addr_cache \<Rightarrow> nat \<Rightarrow> nat option" where
  "nexts c \<equiv> (\<lambda>i. at_next (ac_tbls c i))"

abbreviation prevs :: "addr_cache \<Rightarrow> nat \<Rightarrow> nat option" where
  "prevs c \<equiv> (\<lambda>i. at_prev (ac_tbls c i))"

text \<open>Every table is on exactly one list, once.\<close>

definition parts_ok :: "nat \<Rightarrow> nat list \<Rightarrow> (nat \<Rightarrow> nat list) \<Rightarrow> bool" where
  "parts_ok n fl held \<longleftrightarrow> mset fl + (\<Sum>p < NUM_PTL_TASKS. mset (held p)) = mset [0..<n]"

definition links_ok :: "addr_cache \<Rightarrow> nat list \<Rightarrow> (nat \<Rightarrow> nat list) \<Rightarrow> bool" where
  "links_ok c fl held \<longleftrightarrow>
     chain (nexts c) (ac_addr_tbl c) fl \<and> (\<forall>p < NUM_PTL_TASKS. chain (nexts c) (ac_taskTbl c p) (held p)) \<and>
     ac_freeTables c = int (length fl)"

definition prevs_ok :: "addr_cache \<Rightarrow> nat list \<Rightarrow> (nat \<Rightarrow> nat list) \<Rightarrow> bool" where
  "prevs_ok c fl held \<longleftrightarrow> (ac_strategy c = TBL_REDO \<longrightarrow>
     (\<forall>x \<in> set fl. prevs c x = None) \<and> (\<forall>p < NUM_PTL_TASKS. backs (prevs c) None (held p)))"

definition lists_ok :: "nat \<Rightarrow> addr_cache \<Rightarrow> nat list \<Rightarrow> (nat \<Rightarrow> nat list) \<Rightarrow> bool" where
  "lists_ok n c fl held \<longleftrightarrow> parts_ok n fl held \<and> links_ok c fl held \<and> prevs_ok c fl held"

lemma sum_mset_upd:
  fixes held :: "nat \<Rightarrow> nat list"
  assumes "p < NUM_PTL_TASKS"
  shows "(\<Sum>q < NUM_PTL_TASKS. mset ((held(p := ys)) q)) + mset (held p) = (\<Sum>q < NUM_PTL_TASKS. mset (held q)) + mset ys"
proof -
  have "(\<Sum>q < NUM_PTL_TASKS. mset (h q)) = mset (h p) + (\<Sum>q \<in> {..<NUM_PTL_TASKS} - {p}. mset (h q))" for h :: "nat \<Rightarrow> nat list"
    using assms by (simp add: sum.remove)
  moreover have "(\<Sum>q \<in> {..<NUM_PTL_TASKS} - {p}. mset ((held(p := ys)) q)) = (\<Sum>q \<in> {..<NUM_PTL_TASKS} - {p}. mset (held q))"
    by (rule sum.cong) auto
  ultimately show ?thesis by (simp only: fun_upd_same ac_simps)
qed

lemma parts_take:
  assumes "parts_ok n (x # fl) held" "p < NUM_PTL_TASKS"
  shows "parts_ok n fl (held(p := x # held p))"
  using assms sum_mset_upd [OF assms(2), of held "x # held p"] by (simp add: parts_ok_def)

lemma parts_give:
  assumes "parts_ok n fl held" "p < NUM_PTL_TASKS" "held p = xs @ x # ys"
  shows "parts_ok n (x # fl) (held(p := xs @ ys))"
proof -
  have "(\<Sum>q < NUM_PTL_TASKS. mset ((held(p := xs @ ys)) q)) + {#x#} + mset (xs @ ys) =
      (\<Sum>q < NUM_PTL_TASKS. mset (held q)) + mset (xs @ ys)"
    using sum_mset_upd [OF assms(2), of held "xs @ ys"] assms(3) by (simp add: ac_simps)
  then have "(\<Sum>q < NUM_PTL_TASKS. mset ((held(p := xs @ ys)) q)) + {#x#} = (\<Sum>q < NUM_PTL_TASKS. mset (held q))"
    by (rule add_right_imp_eq)
  moreover have "mset (x # fl) + S = mset fl + (S + {#x#})" for S by simp
  ultimately show ?thesis using assms(1) by (simp only: parts_ok_def)
qed

lemma parts_clear:
  assumes "parts_ok n fl held" "p < NUM_PTL_TASKS"
  shows "parts_ok n (rev (held p) @ fl) (held(p := []))"
  using assms sum_mset_upd [OF assms(2), of held "[]"] by (simp add: parts_ok_def ac_simps)

lemma size_sum_lessThan:
  fixes f :: "nat \<Rightarrow> 'a multiset"
  shows "size (\<Sum>p < m. f p) = (\<Sum>p < m. size (f p))"
  by (induction m) simp_all

lemma parts_okD:
  assumes "parts_ok n fl held"
  shows "distinct fl" "p < NUM_PTL_TASKS \<Longrightarrow> distinct (held p)"
    "p < NUM_PTL_TASKS \<Longrightarrow> x \<in> set (held p) \<Longrightarrow> x \<notin> set fl"
    "p < NUM_PTL_TASKS \<Longrightarrow> q < NUM_PTL_TASKS \<Longrightarrow> x \<in> set (held p) \<Longrightarrow> x \<in> set (held q) \<Longrightarrow> p = q"
    "x \<in> set fl \<Longrightarrow> x < n" "p < NUM_PTL_TASKS \<Longrightarrow> x \<in> set (held p) \<Longrightarrow> x < n"
    "length fl + (\<Sum>p < NUM_PTL_TASKS. length (held p)) = n"
proof -
  have c: "count (mset fl) x + (\<Sum>p < NUM_PTL_TASKS. count (mset (held p)) x) = (if x < n then 1 else 0)" for x
  proof -
    have "count (mset fl + (\<Sum>p < NUM_PTL_TASKS. mset (held p))) x = count (mset [0..<n]) x"
      using assms by (simp only: parts_ok_def)
    moreover have "count (mset [0..<n]) x = (if x < n then 1 else 0)"
      using distinct_count_atmost_1 [of "[0..<n]"] by simp
    ultimately show ?thesis by (simp only: count_union count_sum)
  qed
  have le: "count (mset (held p)) x \<le> (\<Sum>p < NUM_PTL_TASKS. count (mset (held p)) x)" if "p < NUM_PTL_TASKS" for p x
    using that by (intro member_le_sum) simp_all
  have two: "count (mset (held p)) x + count (mset (held q)) x \<le> (\<Sum>p < NUM_PTL_TASKS. count (mset (held p)) x)"
    if "p < NUM_PTL_TASKS" "q < NUM_PTL_TASKS" "p \<noteq> q" for p q x
    using that sum_mono2 [of "{..<NUM_PTL_TASKS}" "{p, q}" "\<lambda>p. count (mset (held p)) x"] by simp
  have c1: "count (mset fl) x + (\<Sum>p < NUM_PTL_TASKS. count (mset (held p)) x) \<le> 1"
    "x < n \<or> count (mset fl) x + (\<Sum>p < NUM_PTL_TASKS. count (mset (held p)) x) = 0" for x
    unfolding c by simp_all
  have one: "count (mset (held p)) x \<le> 1" "count (mset fl) x \<le> 1" if "p < NUM_PTL_TASKS" for p x
    using c1(1) [of x] le [OF that, of x] by linarith+
  have pos: "x \<in> set xs \<Longrightarrow> 1 \<le> count (mset xs) x" for x and xs :: "nat list" by (simp add: Suc_le_eq)
  have once: "distinct xs" if "\<And>x. count (mset xs) x \<le> 1" for xs :: "nat list"
    using that pos unfolding distinct_count_atmost_1 by (metis count_mset_0_iff le_antisym)
  have "0 < NUM_PTL_TASKS" by (simp add: task_sizes)
  then show "distinct fl" using one(2) by (intro once)
  show "p < NUM_PTL_TASKS \<Longrightarrow> distinct (held p)" using one(1) by (intro once)
  show "p < NUM_PTL_TASKS \<Longrightarrow> x \<in> set (held p) \<Longrightarrow> x \<notin> set fl"
    using c1(1) [of x] le [of p x] pos [of x fl] pos [of x "held p"] by linarith
  show "p < NUM_PTL_TASKS \<Longrightarrow> q < NUM_PTL_TASKS \<Longrightarrow> x \<in> set (held p) \<Longrightarrow> x \<in> set (held q) \<Longrightarrow> p = q"
    using c1(1) [of x] two [of p q x] pos [of x "held p"] pos [of x "held q"] by linarith
  show "x \<in> set fl \<Longrightarrow> x < n" using c1(2) [of x] pos [of x fl] by linarith
  show "p < NUM_PTL_TASKS \<Longrightarrow> x \<in> set (held p) \<Longrightarrow> x < n"
    using c1(2) [of x] le [of p x] pos [of x "held p"] by linarith
  have "size (mset fl + (\<Sum>p < NUM_PTL_TASKS. mset (held p))) = size (mset [0..<n])" using assms by (simp only: parts_ok_def)
  then show "length fl + (\<Sum>p < NUM_PTL_TASKS. length (held p)) = n" by (simp add: size_sum_lessThan)
qed

lemma nexts_upd:
  "nexts (upd_tbl i (\<lambda>t. t\<lparr>at_next := v\<rparr>) c) = (nexts c)(i := v)" "prevs (upd_tbl i (\<lambda>t. t\<lparr>at_next := v\<rparr>) c) = prevs c"
  "nexts (upd_tbl i (\<lambda>t. t\<lparr>at_prev := v\<rparr>) c) = nexts c" "prevs (upd_tbl i (\<lambda>t. t\<lparr>at_prev := v\<rparr>) c) = (prevs c)(i := v)"
  by auto

text \<open>Taking a table from the free list for a process.\<close>

definition take_redo :: "nat \<Rightarrow> nat \<Rightarrow> addr_cache \<Rightarrow> addr_cache" where
  "take_redo p x c = push_redo p x ((upd_tbl x (\<lambda>t. t\<lparr>at_next := None\<rparr>)
     (c\<lparr>ac_addr_tbl := at_next (ac_tbls c x)\<rparr>))\<lparr>ac_freeTables := ac_freeTables c - 1\<rparr>)"

definition take_lookup :: "nat \<Rightarrow> nat \<Rightarrow> addr_cache \<Rightarrow> addr_cache" where
  "take_lookup p x c = push_lookup p x ((upd_tbl x (\<lambda>t. t\<lparr>at_next := None\<rparr>)
     (c\<lparr>ac_addr_tbl := at_next (ac_tbls c x)\<rparr>))\<lparr>ac_freeTables := ac_freeTables c - 1\<rparr>)"

lemma take_lookup_sel:
  "nexts (take_lookup p x c) = (nexts c)(x := ac_taskTbl c p)" "prevs (take_lookup p x c) = prevs c"
  "ac_addr_tbl (take_lookup p x c) = at_next (ac_tbls c x)" "ac_taskTbl (take_lookup p x c) = (ac_taskTbl c)(p := Some x)"
  "ac_freeTables (take_lookup p x c) = ac_freeTables c - 1" "ac_strategy (take_lookup p x c) = ac_strategy c"
  by (auto simp: take_lookup_def push_lookup_def)

lemma take_redo_sel:
  assumes "ac_taskTbl c p \<noteq> Some x"
  shows "nexts (take_redo p x c) = (nexts c)(x := ac_taskTbl c p)"
    "prevs (take_redo p x c) = (case ac_taskTbl c p of None \<Rightarrow> prevs c | Some y \<Rightarrow> (prevs c)(y := Some x))"
    "ac_addr_tbl (take_redo p x c) = at_next (ac_tbls c x)" "ac_taskTbl (take_redo p x c) = (ac_taskTbl c)(p := Some x)"
    "ac_freeTables (take_redo p x c) = ac_freeTables c - 1" "ac_strategy (take_redo p x c) = ac_strategy c"
  using assms by (auto simp: take_redo_def push_redo_def Let_def split: option.splits)

lemma lists_okD:
  assumes "lists_ok n c fl held"
  shows "parts_ok n fl held" "chain (nexts c) (ac_addr_tbl c) fl" "ac_freeTables c = int (length fl)"
    "p < NUM_PTL_TASKS \<Longrightarrow> chain (nexts c) (ac_taskTbl c p) (held p)"
    "ac_strategy c = TBL_REDO \<Longrightarrow> x \<in> set fl \<Longrightarrow> prevs c x = None"
    "ac_strategy c = TBL_REDO \<Longrightarrow> p < NUM_PTL_TASKS \<Longrightarrow> backs (prevs c) None (held p)"
  using assms by (auto simp: lists_ok_def links_ok_def prevs_ok_def)

lemma prevs_okI:
  assumes "prevs c = pv" "ac_strategy c = TBL_REDO \<Longrightarrow> \<forall>x \<in> set fl. pv x = None"
    "ac_strategy c = TBL_REDO \<Longrightarrow> \<forall>p < NUM_PTL_TASKS. backs pv None (held p)"
  shows "prevs_ok c fl held"
  using assms by (auto simp: prevs_ok_def)

lemma take_links:
  assumes ok: "lists_ok n c (x # fl) held" and p: "p < NUM_PTL_TASKS"
    and c': "nexts c' = (nexts c)(x := ac_taskTbl c p)" "ac_addr_tbl c' = at_next (ac_tbls c x)"
      "ac_taskTbl c' = (ac_taskTbl c)(p := Some x)" "ac_freeTables c' = ac_freeTables c - 1"
  shows "parts_ok n fl (held(p := x # held p))" "links_ok c' fl (held(p := x # held p))"
proof -
  note parts = lists_okD(1) [OF ok]
  show "parts_ok n fl (held(p := x # held p))" by (rule parts_take [OF parts p])
  have x: "x \<notin> set fl" "q < NUM_PTL_TASKS \<Longrightarrow> x \<notin> set (held q)" for q
    using parts_okD(1,3) [OF parts] by auto
  have "chain (nexts c) (at_next (ac_tbls c x)) fl" using lists_okD(2) [OF ok] by simp
  then show "links_ok c' fl (held(p := x # held p))"
    using x p lists_okD(3,4) [OF ok] unfolding links_ok_def c' by auto
qed

lemma lists_take_redo:
  assumes ok: "lists_ok n c (x # fl) held" and p: "p < NUM_PTL_TASKS" and redo: "ac_strategy c = TBL_REDO"
  shows "lists_ok n (take_redo p x c) fl (held(p := x # held p))"
proof -
  note parts = lists_okD(1) [OF ok] and chain = lists_okD(4) [OF ok p]
  have x: "x \<notin> set fl" "q < NUM_PTL_TASKS \<Longrightarrow> x \<notin> set (held q)" for q
    using parts_okD(1,3) [OF parts] by auto
  have "ac_taskTbl c p \<noteq> Some x" using chain x(2) [OF p] by (cases "held p") auto
  note sel = take_redo_sel [OF this]
  have "prevs_ok (take_redo p x c) fl (held(p := x # held p))"
  proof (cases "held p")
    case Nil
    with chain have "ac_taskTbl c p = None" by simp
    then show ?thesis
      using lists_okD(5,6) [OF ok redo] Nil by (intro prevs_okI [OF sel(2)]) (simp_all add: sel(6))
  next
    case (Cons y ys)
    with chain have y: "ac_taskTbl c p = Some y" by simp
    have "y \<notin> set fl" "y \<notin> set ys" "y \<noteq> x" "q < NUM_PTL_TASKS \<Longrightarrow> q \<noteq> p \<Longrightarrow> y \<notin> set (held q)" for q
      using parts_okD(2) [OF parts p] parts_okD(3,4) [OF parts] p Cons x(2) [OF p] by auto
    then show ?thesis
      using lists_okD(5,6) [OF ok redo] lists_okD(6) [OF ok redo p] Cons
      by (intro prevs_okI [OF sel(2)]) (auto simp: y)
  qed
  with take_links [OF ok p sel(1,3,4,5)] show ?thesis by (simp add: lists_ok_def)
qed

lemma lists_take_lookup:
  assumes ok: "lists_ok n c (x # fl) held" and p: "p < NUM_PTL_TASKS" and "ac_strategy c = TBL_LOOKUP"
  shows "lists_ok n (take_lookup p x c) fl (held(p := x # held p))"
  using take_links [OF ok p take_lookup_sel(1,3,4,5)] assms(3) by (simp add: lists_ok_def prevs_ok_def take_lookup_sel)

text \<open>Giving a table of a process back.\<close>

lemma link_table_sel:
  assumes "at_next (ac_tbls c x) \<noteq> Some x" "at_prev (ac_tbls c x) \<noteq> Some x"
  shows "nexts (link_table p x c) =
      (case at_prev (ac_tbls c x) of Some l \<Rightarrow> (nexts c)(l := at_next (ac_tbls c x)) | None \<Rightarrow> nexts c)(x := ac_addr_tbl c)"
    "prevs (link_table p x c) =
      (case at_next (ac_tbls c x) of Some z \<Rightarrow> (prevs c)(z := at_prev (ac_tbls c x)) | None \<Rightarrow> prevs c)(x := None)"
    "ac_addr_tbl (link_table p x c) = Some x" "ac_freeTables (link_table p x c) = ac_freeTables c + 1"
    "ac_taskTbl (link_table p x c) = (case at_prev (ac_tbls c x) of Some l \<Rightarrow> ac_taskTbl c
       | None \<Rightarrow> (ac_taskTbl c)(p := at_next (ac_tbls c x)))"
    "ac_strategy (link_table p x c) = ac_strategy c"
  using assms by (auto simp: link_table_def Let_def fun_eq_iff split: option.splits)

lemma give_links:
  assumes "distinct (xs @ x # ys)" "lseg nx a xs (Some x)" "chain nx (nx x) ys"
    "l = (if xs = [] then None else Some (last xs))"
  shows "chain ((case l of Some k \<Rightarrow> nx(k := nx x) | None \<Rightarrow> nx)(x := v)) (case l of Some k \<Rightarrow> a | None \<Rightarrow> nx x) (xs @ ys)"
proof (cases "xs = []")
  case True
  with assms show ?thesis by simp
next
  case False
  then have k: "last xs \<in> set xs" by simp
  have "lseg (nx(last xs := nx x)) a xs (nx x)" using assms(1,2) False by (intro lseg_snoc_upd) auto
  moreover have "chain (nx(last xs := nx x)) (nx x) ys" using assms(1,3) k by (subst lseg_upd) auto
  ultimately have "chain (nx(last xs := nx x)) a (xs @ ys)" by (auto simp: lseg_append)
  then show ?thesis using assms(1,4) False by simp
qed

lemma give_backs:
  assumes "distinct (xs @ x # ys)" "backs pv None xs" "pv x = (if xs = [] then None else Some (last xs))"
    "backs pv (Some x) ys" "z = (case ys of [] \<Rightarrow> None | y # zs \<Rightarrow> Some y)"
  shows "backs ((case z of Some y \<Rightarrow> pv(y := pv x) | None \<Rightarrow> pv)(x := None)) None (xs @ ys)"
  using assms by (cases ys) (auto simp: backs_append)

lemma lists_give:
  assumes ok: "lists_ok n c fl held" and p: "p < NUM_PTL_TASKS" and redo: "ac_strategy c = TBL_REDO"
    and held: "held p = xs @ x # ys"
  shows "lists_ok n (link_table p x c) (x # fl) (held(p := xs @ ys))"
proof -
  note parts = lists_okD(1) [OF ok]
  have d: "distinct (xs @ x # ys)" using parts_okD(2) [OF parts p] by (simp add: held)
  have ch: "lseg (nexts c) (ac_taskTbl c p) xs (Some x)" "chain (nexts c) (at_next (ac_tbls c x)) ys"
    using lists_okD(4) [OF ok p] by (auto simp: held lseg_append)
  have bk: "backs (prevs c) None xs" "at_prev (ac_tbls c x) = (if xs = [] then None else Some (last xs))" "backs (prevs c) (Some x) ys"
    using lists_okD(6) [OF ok redo p] by (auto simp: held backs_append)
  have nx: "at_next (ac_tbls c x) = (case ys of [] \<Rightarrow> None | z # zs \<Rightarrow> Some z)" using ch(2) by (cases ys) auto
  have mem: "y \<notin> set fl" "q < NUM_PTL_TASKS \<Longrightarrow> q \<noteq> p \<Longrightarrow> y \<notin> set (held q)" if "y \<in> set (xs @ x # ys)" for y q
    using that parts_okD(3,4) [OF parts] p held by metis+
  have "at_next (ac_tbls c x) \<noteq> Some x" "at_prev (ac_tbls c x) \<noteq> Some x"
    using d by (auto simp: nx bk(2) dest: last_in_set split: list.splits)
  note sel = link_table_sel [OF this, of p]
  have l: "k \<in> set (xs @ x # ys)" if "at_prev (ac_tbls c x) = Some k \<or> at_next (ac_tbls c x) = Some k" for k
    using that by (auto simp: bk(2) nx split: if_splits list.splits)
  have f: "lseg (nexts (link_table p x c)) a zs b = lseg (nexts c) a zs b" "backs (prevs (link_table p x c)) u zs = backs (prevs c) u zs"
    if "\<And>y. y \<in> set (xs @ x # ys) \<Longrightarrow> y \<notin> set zs" for a zs b u
    using that l unfolding sel(1,2) by (auto split: option.split)
  have "chain (nexts (link_table p x c)) (ac_taskTbl (link_table p x c) p) (xs @ ys)"
    using give_links [OF d ch(1) _ bk(2)] ch(2) unfolding sel(1,5) by (auto split: option.splits)
  moreover have "ac_taskTbl (link_table p x c) q = ac_taskTbl c q" if "q \<noteq> p" for q
    using that by (simp add: sel(5) split: option.split)
  moreover have "at_next (ac_tbls (link_table p x c) x) = ac_addr_tbl c" using fun_cong [OF sel(1), of x] by simp
  ultimately have "links_ok (link_table p x c) (x # fl) (held(p := xs @ ys))"
    using lists_okD(2,3,4) [OF ok] mem f(1) by (simp add: links_ok_def sel(3,4))
  moreover have "prevs_ok (link_table p x c) (x # fl) (held(p := xs @ ys))"
  proof (rule prevs_okI [OF refl])
    have "at_prev (ac_tbls (link_table p x c) y) = None" if "y \<in> set fl" for y
      using lists_okD(5) [OF ok redo that] mem(1) l that fun_cong [OF sel(2), of y] by (auto split: option.splits)
    moreover have "at_prev (ac_tbls (link_table p x c) x) = None" using fun_cong [OF sel(2), of x] by simp
    ultimately show "\<forall>y \<in> set (x # fl). at_prev (ac_tbls (link_table p x c) y) = None" by simp
    have "backs (prevs (link_table p x c)) None (xs @ ys)"
      using give_backs [OF d bk nx] unfolding sel(2) .
    then show "\<forall>q < NUM_PTL_TASKS. backs (prevs (link_table p x c)) None ((held(p := xs @ ys)) q)"
      using lists_okD(6) [OF ok redo] mem(2) f(2) by simp
  qed
  ultimately show ?thesis using parts_give [OF parts p held] by (simp add: lists_ok_def)
qed

end
