(* ===== verification/K_CacheOrder.thy ===== *)
theory K_CacheOrder
  imports K_CacheLists
begin

text \<open>
  The operations of the address cache on its lists: every operation of an orderly run takes
  the lists of the subcaches to lists, with every table on one list.
\<close>

section \<open>Picking a table\<close>

lemma lists_ok_cong:
  assumes "nexts c' = nexts c" "prevs c' = prevs c" "ac_addr_tbl c' = ac_addr_tbl c" "ac_taskTbl c' = ac_taskTbl c"
    "ac_freeTables c' = ac_freeTables c" "ac_strategy c' = ac_strategy c"
  shows "lists_ok n c' fl held = lists_ok n c fl held"
  unfolding lists_ok_def links_ok_def prevs_ok_def assms using fun_cong [OF assms(2)] by simp

lemma search_loop_find:
  "chain (nexts c) a xs \<Longrightarrow> search_loop v a c = Some (find (\<lambda>t. at_start (ac_tbls c t) = v) xs)"
  by (induction xs arbitrary: a) (simp_all add: search_loop.simps)

lemma upd_cache_twice: "upd_cache j f (upd_cache j g st) = upd_cache j (\<lambda>c. f (g c)) st"
  by (simp add: upd_cache_def)

lemma upd_cache_eqI: "f (cs_cache st j) = g (cs_cache st j) \<Longrightarrow> upd_cache j f st = upd_cache j g st"
  by (simp add: upd_cache_def)

text \<open>Every branch of the selection of a table, from the lists.\<close>

lemma pick_table_redo:
  assumes inv: "cache_inv frame st" and j: "j < 3" "j \<noteq> 2"
    and ok: "lists_ok (ADDR_CACHE_NUM_REG j) (cs_cache st j) fl held" and p: "good_ppid p"
  shows "pick_table v n p j st = (case fl of [] \<Rightarrow> Some (None, st)
    | x # fl' \<Rightarrow> Some (Some (x, False), upd_cache j (take_redo (nat p) x) st))"
proof -
  let ?c = "cs_cache st j"
  have sub: "sub_ok frame (cs_slot st) j ?c" using inv j by (simp add: cache_inv_def)
  have s: "ac_strategy ?c = TBL_REDO" using sub j by (simp add: sub_ok_def)
  show ?thesis
  proof (cases fl)
    case Nil
    then show ?thesis using lists_okD(3) [OF ok] by (simp add: pick_table_def s addrCache_tblUnlink_def)
  next
    case (Cons x fl')
    have x: "ac_addr_tbl ?c = Some x" "x < ADDR_CACHE_NUM_REG j"
      using lists_okD(2) [OF ok] parts_okD(5) [OF lists_okD(1) [OF ok]] Cons by simp_all
    have "at_table_id (ac_tbls ?c x) = x" using sub_okD(3) [OF sub x(2)] by (simp add: tbl_ok_def)
    then show ?thesis using lists_okD(3) [OF ok] x(1) p Cons
      by (simp add: pick_table_def s addrCache_tblUnlink_def upd_cache_twice take_redo_def [abs_def])
  qed
qed

lemma pick_table_lookup:
  assumes inv: "cache_inv frame st" and ok: "lists_ok (ADDR_CACHE_NUM_REG 2) (cs_cache st 2) fl held" and p: "good_ppid p"
  shows "pick_table v n p 2 st = (case find (\<lambda>t. at_start (tbl st 2 t) = v) (held (nat p)) of
      Some t \<Rightarrow> Some (Some (t, at_length (tbl st 2 t) \<ge> n \<and> at_valid (tbl st 2 t)), st)
    | None \<Rightarrow> (case fl of [] \<Rightarrow> Some (None, st)
        | x # fl' \<Rightarrow> Some (Some (x, False), count_validation p 2 (upd_cache 2 (take_lookup (nat p) x) st))))"
proof -
  let ?c = "cs_cache st 2"
  have sub: "sub_ok frame (cs_slot st) 2 ?c" using inv by (simp add: cache_inv_def)
  have s: "ac_strategy ?c = TBL_LOOKUP" using sub by (simp add: sub_ok_def)
  have "nat p < NUM_PTL_TASKS" using p by (auto simp: good_ppid_def)
  note search = search_loop_find [OF lists_okD(4) [OF ok this], of v, folded tbl_def]
  show ?thesis
  proof (cases fl)
    case Nil
    then show ?thesis using lists_okD(3) [OF ok] p
      by (simp add: pick_table_def s search addrCache_tblUnlink_def split: option.split)
  next
    case (Cons x fl')
    have x: "ac_addr_tbl ?c = Some x" "x < ADDR_CACHE_NUM_REG 2"
      using lists_okD(2) [OF ok] parts_okD(5) [OF lists_okD(1) [OF ok]] Cons by simp_all
    have "at_table_id (ac_tbls ?c x) = x" using sub_okD(3) [OF sub x(2)] by (simp add: tbl_ok_def)
    then show ?thesis using lists_okD(3) [OF ok] x(1) p Cons
      by (simp add: pick_table_def s search addrCache_tblUnlink_def upd_cache_twice take_lookup_def [abs_def] split: option.split)
  qed
qed

section \<open>The lists of the cache\<close>

definition cache_lists :: "cache_st \<Rightarrow> (nat \<Rightarrow> nat list) \<Rightarrow> (nat \<Rightarrow> nat \<Rightarrow> nat list) \<Rightarrow> bool" where
  "cache_lists st free held \<longleftrightarrow> (\<forall>j < 3. lists_ok (ADDR_CACHE_NUM_REG j) (cs_cache st j) (free j) (held j))"

lemma cache_listsD: "cache_lists st free held \<Longrightarrow> j < 3 \<Longrightarrow> lists_ok (ADDR_CACHE_NUM_REG j) (cs_cache st j) (free j) (held j)"
  by (simp add: cache_lists_def)

lemma cache_lists_upd:
  assumes "cache_lists st free held" "lists_ok (ADDR_CACHE_NUM_REG j) (f (cs_cache st j)) fl h"
  shows "cache_lists (upd_cache j f st) (free(j := fl)) (held(j := h))"
  using assms by (simp add: cache_lists_def)

text \<open>A state with the same links has the same lists.\<close>

definition same_links :: "cache_st \<Rightarrow> cache_st \<Rightarrow> bool" where
  "same_links st st' \<longleftrightarrow> (\<forall>j. nexts (cs_cache st' j) = nexts (cs_cache st j) \<and> prevs (cs_cache st' j) = prevs (cs_cache st j) \<and>
     ac_addr_tbl (cs_cache st' j) = ac_addr_tbl (cs_cache st j) \<and> ac_taskTbl (cs_cache st' j) = ac_taskTbl (cs_cache st j) \<and>
     ac_freeTables (cs_cache st' j) = ac_freeTables (cs_cache st j) \<and> ac_strategy (cs_cache st' j) = ac_strategy (cs_cache st j))"

lemma same_links_refl [simp]: "same_links st st" "cs_cache st' = cs_cache st \<Longrightarrow> same_links st st'"
  by (simp_all add: same_links_def)

lemma same_links_trans: "same_links a b \<Longrightarrow> same_links b c \<Longrightarrow> same_links a c"
  by (simp add: same_links_def)

lemma same_links_lists: "same_links st st' \<Longrightarrow> cache_lists st' free held = cache_lists st free held"
  unfolding same_links_def cache_lists_def by (intro all_cong) (rule lists_ok_cong, simp_all)

lemma same_links_upd:
  assumes "at_next t = at_next (tbl st j i)" "at_prev t = at_prev (tbl st j i)"
    "cs_cache st' = (cs_cache st)(j := upd_tbl i (\<lambda>_. t) (cs_cache st j))"
  shows "same_links st st'"
  using assms by (auto simp: same_links_def fun_eq_iff tbl_def)

lemma fill_table_links:
  assumes "fill_table ps frame v (int n) j i st = Some (ok, st')" "0 < n" "n < 2 ^ 31" "ps < 31" "frames_ok ps frame"
  shows "same_links st st'"
proof -
  from fill_table_shape [OF assms] obtain t where
    "cs_cache st' = (cs_cache st)(j := upd_tbl i (\<lambda>_. t) (cs_cache st j))"
    "at_next t = at_next (tbl st j i)" "at_prev t = at_prev (tbl st j i)" by blast
  then show ?thesis by (intro same_links_upd)
qed

lemma take_lists:
  assumes inv: "cache_inv frame st" and L: "cache_lists st free held" and p: "p < NUM_PTL_TASKS" and j: "j < 3"
    and x: "free j = x # fl"
  shows "j \<noteq> 2 \<Longrightarrow> cache_lists (upd_cache j (take_redo p x) st) (free(j := fl)) (held(j := (held j)(p := x # held j p)))"
    "j = 2 \<Longrightarrow> cache_lists (upd_cache j (take_lookup p x) st) (free(j := fl)) (held(j := (held j)(p := x # held j p)))"
proof -
  have s: "ac_strategy (cs_cache st j) = (if j = 2 then TBL_LOOKUP else TBL_REDO)"
    using inv j by (simp add: cache_inv_def sub_ok_def)
  note ok = cache_listsD [OF L j, unfolded x]
  show "j \<noteq> 2 \<Longrightarrow> cache_lists (upd_cache j (take_redo p x) st) (free(j := fl)) (held(j := (held j)(p := x # held j p)))"
    using s by (intro cache_lists_upd [OF L] lists_take_redo [OF ok p]) simp
  show "j = 2 \<Longrightarrow> cache_lists (upd_cache j (take_lookup p x) st) (free(j := fl)) (held(j := (held j)(p := x # held j p)))"
    using s by (intro cache_lists_upd [OF L] lists_take_lookup [OF ok p]) simp
qed

text \<open>Picking a table takes the first free one, or leaves the lists alone.\<close>

lemma pick_table_lists:
  assumes inv: "cache_inv frame st" and L: "cache_lists st free held" and p: "good_ppid p" and j: "j < 3"
    and op: "pick_table v n p j st = Some (r, st')"
  shows "st' = st \<or> (\<exists>x fl. free j = x # fl \<and> r = Some (x, False) \<and>
    cache_lists st' (free(j := fl)) (held(j := (held j)(nat p := x # held j (nat p)))))"
proof -
  have q: "nat p < NUM_PTL_TASKS" using p by (auto simp: good_ppid_def)
  note ok = cache_listsD [OF L j] and take = take_lists [OF inv L q j]
  have cv: "cache_lists (count_validation p j s) F H = cache_lists s F H" for s F H
    by (simp add: count_validation_def cache_lists_def)
  show ?thesis
  proof (cases "j = 2")
    case False
    from op show ?thesis using take(1) False
      by (auto simp: pick_table_redo [OF inv j False ok p] split: list.splits)
  next
    case True
    from op [unfolded True] show ?thesis using take(2) True cv
      by (auto simp: pick_table_lookup [OF inv ok [unfolded True] p] split: option.splits list.splits)
  qed
qed

lemma populate_lists:
  assumes inv: "cache_inv frame st" and fr: "frames_ok 13 frame" and n: "n \<le> reg_max 2"
    and L: "cache_lists st free held" and p: "good_ppid p"
    and op: "addrCache_populate 13 frame v (int n) p st = Some (r, st')"
  shows "same_links st st' \<or> (\<exists>x fl. let j = pick_cache (int n) st in free j = x # fl \<and>
    cache_lists st' (free(j := fl)) (held(j := (held j)(nat p := x # held j (nat p)))))"
proof (cases "v = 0 \<or> n = 0")
  case True
  with op show ?thesis by (auto simp: addrCache_populate_def)
next
  case False
  let ?j = "pick_cache (int n) st"
  from op False obtain r1 st1 where pick: "pick_table v (int n) p ?j st = Some (r1, st1)"
    and res: "(case r1 of None \<Rightarrow> Some ((-1, None), st1)
      | Some (i, validated) \<Rightarrow> if validated then Some ((0, Some (?j, i)), st1)
          else map_option (\<lambda>(ok, st2). (if ok then (0, Some (?j, i)) else (-1, None), st2))
            (fill_table 13 frame v (int n) ?j i st1)) = Some (r, st')"
    unfolding addrCache_populate_def Let_def by (auto simp: bind_eq_Some_conv)
  have rest: "st' = st1 \<or> (\<exists>i ok. fill_table 13 frame v (int n) ?j i st1 = Some (ok, st'))"
    using res by (cases r1) (auto split: if_splits)
  have "n < 2 ^ 31" using n reg_max_small [of 2] by linarith
  then have "same_links st1 st'" using rest fill_table_links [of 13 frame v n] fr False by auto
  with pick_table_lists [OF inv L p pick_cache_lt pick] show ?thesis
    by (auto simp: Let_def same_links_lists)
qed

section \<open>The other operations\<close>

lemma clear_loop_lists:
  assumes "chain (nexts c) a xs" "chain (nexts c) (ac_addr_tbl c) fl" "distinct xs" "set xs \<inter> set fl = {}"
  shows "\<exists>c'. clear_loop a c = Some c' \<and> chain (nexts c') (ac_addr_tbl c') (rev xs @ fl) \<and>
    ac_freeTables c' = ac_freeTables c + int (length xs) \<and> prevs c' = prevs c \<and> ac_taskTbl c' = ac_taskTbl c \<and>
    ac_strategy c' = ac_strategy c \<and> (\<forall>i. i \<notin> set xs \<longrightarrow> nexts c' i = nexts c i)"
  using assms
proof (induction xs arbitrary: a c fl)
  case Nil
  then show ?case by (simp add: clear_loop.simps)
next
  case (Cons x xs)
  define c1 where "c1 = (upd_tbl x (\<lambda>e. e\<lparr>at_next := ac_addr_tbl c, at_start := 0, at_length := 0\<rparr>) c)
    \<lparr>ac_addr_tbl := Some x, ac_freeTables := ac_freeTables c + 1\<rparr>"
  have c1: "nexts c1 = (nexts c)(x := ac_addr_tbl c)" "prevs c1 = prevs c" "ac_addr_tbl c1 = Some x"
    "ac_freeTables c1 = ac_freeTables c + 1" "ac_taskTbl c1 = ac_taskTbl c" "ac_strategy c1 = ac_strategy c"
    by (auto simp: c1_def fun_eq_iff)
  have loop: "clear_loop a c = clear_loop (at_next (ac_tbls c x)) c1"
    using Cons.prems(1) by (subst clear_loop.simps) (simp add: c1_def)
  have "\<exists>c'. clear_loop (at_next (ac_tbls c x)) c1 = Some c' \<and> chain (nexts c') (ac_addr_tbl c') (rev xs @ x # fl) \<and>
    ac_freeTables c' = ac_freeTables c1 + int (length xs) \<and> prevs c' = prevs c1 \<and> ac_taskTbl c' = ac_taskTbl c1 \<and>
    ac_strategy c' = ac_strategy c1 \<and> (\<forall>i. i \<notin> set xs \<longrightarrow> nexts c' i = nexts c1 i)"
    using Cons.prems by (intro Cons.IH) (auto simp: c1)
  then obtain c' where "clear_loop (at_next (ac_tbls c x)) c1 = Some c'" "chain (nexts c') (ac_addr_tbl c') (rev xs @ x # fl)"
    "ac_freeTables c' = ac_freeTables c1 + int (length xs)" "prevs c' = prevs c1" "ac_taskTbl c' = ac_taskTbl c1"
    "ac_strategy c' = ac_strategy c1" "\<forall>i. i \<notin> set xs \<longrightarrow> nexts c' i = nexts c1 i" by blast
  then show ?case using fun_cong [OF c1(1)] by (intro exI [of _ c']) (simp add: loop c1)
qed

lemma lseg_same: "(\<And>i. i \<in> set xs \<Longrightarrow> nx' i = nx i) \<Longrightarrow> lseg nx' p xs q = lseg nx p xs q"
  by (induction xs arbitrary: p) auto

text \<open>
  The list of a process becomes free in reverse.  The links back are not reset: with two
  tables on the list of a subcache that uses them the result would not be a state of lists.
\<close>

lemma lists_clear:
  assumes ok: "lists_ok n c fl held" and p: "p < NUM_PTL_TASKS"
    and short: "ac_strategy c = TBL_REDO \<Longrightarrow> length (held p) \<le> 1"
  shows "\<exists>c'. clear_loop (ac_taskTbl c p) c = Some c' \<and>
    lists_ok n (c'\<lparr>ac_taskTbl := (ac_taskTbl c')(p := None)\<rparr>) (rev (held p) @ fl) (held(p := []))"
proof -
  note parts = lists_okD(1) [OF ok]
  have d: "set (held p) \<inter> set fl = {}" using parts_okD(3) [OF parts p] by auto
  from clear_loop_lists [OF lists_okD(4) [OF ok p] lists_okD(2) [OF ok] parts_okD(2) [OF parts p] d] obtain c' where
    c': "clear_loop (ac_taskTbl c p) c = Some c'" "chain (nexts c') (ac_addr_tbl c') (rev (held p) @ fl)"
    "ac_freeTables c' = ac_freeTables c + int (length (held p))" "prevs c' = prevs c" "ac_taskTbl c' = ac_taskTbl c"
    "ac_strategy c' = ac_strategy c" and same: "\<forall>i. i \<notin> set (held p) \<longrightarrow> nexts c' i = nexts c i" by blast
  have others: "chain (nexts c') (ac_taskTbl c q) (held q)" if q: "q < NUM_PTL_TASKS" "q \<noteq> p" for q
  proof -
    have "nexts c' i = nexts c i" if "i \<in> set (held q)" for i using same parts_okD(4) [OF parts p q(1)] q(2) that by blast
    then show ?thesis using lists_okD(4) [OF ok q(1)] by (subst lseg_same [of _ _ "nexts c"]) auto
  qed
  have "links_ok (c'\<lparr>ac_taskTbl := (ac_taskTbl c')(p := None)\<rparr>) (rev (held p) @ fl) (held(p := []))"
    using c'(2,3) lists_okD(3) [OF ok] others by (simp add: links_ok_def c'(5))
  moreover have "prevs_ok (c'\<lparr>ac_taskTbl := (ac_taskTbl c')(p := None)\<rparr>) (rev (held p) @ fl) (held(p := []))"
  proof (rule prevs_okI [where pv = "prevs c"])
    assume "ac_strategy (c'\<lparr>ac_taskTbl := (ac_taskTbl c')(p := None)\<rparr>) = TBL_REDO"
    then have redo: "ac_strategy c = TBL_REDO" by (simp add: c'(6))
    have "prevs c x = None" if "x \<in> set (held p)" for x
      using short [OF redo] lists_okD(6) [OF ok redo p] that by (cases "held p") auto
    then show "\<forall>x \<in> set (rev (held p) @ fl). prevs c x = None" using lists_okD(5) [OF ok redo] by auto
    show "\<forall>q < NUM_PTL_TASKS. backs (prevs c) None ((held(p := [])) q)" using lists_okD(6) [OF ok redo] by simp
  qed (simp add: c'(4))
  ultimately show ?thesis using c'(1) parts_clear [OF parts p] by (auto simp: lists_ok_def)
qed

text \<open>A process has at most one table in each subcache that links back.\<close>

definition short_lists :: "nat \<Rightarrow> cache_st \<Rightarrow> bool" where
  "short_lists p st \<longleftrightarrow> (\<forall>j < 2. case ac_taskTbl (cs_cache st j) p of None \<Rightarrow> True | Some t \<Rightarrow> at_next (tbl st j t) = None)"

lemma short_length:
  assumes "chain (nexts c) a xs" "case a of None \<Rightarrow> True | Some t \<Rightarrow> at_next (ac_tbls c t) = None"
  shows "length xs \<le> 1"
proof (cases xs)
  case (Cons x ys)
  with assms show ?thesis by (cases ys) auto
qed simp

lemma clear_cache_lists:
  assumes L: "cache_lists st free held" and j: "j < 3" and p: "p < NUM_PTL_TASKS"
    and short: "ac_strategy (cs_cache st j) = TBL_REDO \<Longrightarrow> length (held j p) \<le> 1"
  shows "\<exists>st'. clear_cache p j st = Some st' \<and> (\<forall>k. k \<noteq> j \<longrightarrow> cs_cache st' k = cs_cache st k) \<and>
    cache_lists st' (free(j := rev (held j p) @ free j)) (held(j := (held j)(p := [])))"
proof -
  from lists_clear [OF cache_listsD [OF L j] p short] obtain c' where
    c': "clear_loop (ac_taskTbl (cs_cache st j) p) (cs_cache st j) = Some c'"
    "lists_ok (ADDR_CACHE_NUM_REG j) (c'\<lparr>ac_taskTbl := (ac_taskTbl c')(p := None)\<rparr>) (rev (held j p) @ free j) ((held j)(p := []))"
    by blast
  from cache_lists_upd [OF L, of j "\<lambda>_. c'\<lparr>ac_taskTbl := (ac_taskTbl c')(p := None)\<rparr>"] c' show ?thesis
    by (auto simp: clear_cache_def)
qed

text \<open>Clearing a process gives all its tables back, and returns.\<close>

lemma tblClear_lists:
  assumes inv: "cache_inv frame st" and L: "cache_lists st free held" and p: "good_ppid p" and short: "short_lists (nat p) st"
  shows "\<exists>st'. addrCache_tblClear p st = Some st' \<and>
    cache_lists st' (\<lambda>j. if j < 3 then rev (held j (nat p)) @ free j else free j)
      (\<lambda>j. if j < 3 then (held j)(nat p := []) else held j)"
proof -
  let ?p = "nat p"
  have q: "?p < NUM_PTL_TASKS" using p by (auto simp: good_ppid_def)
  have s: "j < 3 \<Longrightarrow> ac_strategy (cs_cache st j) = (if j = 2 then TBL_LOOKUP else TBL_REDO)" for j
    using inv by (simp add: cache_inv_def sub_ok_def)
  have len: "length (held j ?p) \<le> 1" if "j < 2" for j
    using short [unfolded short_lists_def tbl_def] that lists_okD(4) [OF cache_listsD [OF L] q]
    by (intro short_length [of "cs_cache st j" "ac_taskTbl (cs_cache st j) ?p"]) simp_all
  define st1 where "st1 = (if cs_rank st = 1 then st\<lparr>cs_sent := cs_sent st @ [cs_summary st]\<rparr> else st)\<lparr>cs_rank := -1\<rparr>"
  have st1: "cs_cache st1 = cs_cache st" by (simp add: st1_def)
  then have L1: "cache_lists st1 free held" using L by (simp add: cache_lists_def)
  from clear_cache_lists [OF L1 _ q, of 0] len [of 0] obtain st2 where st2: "clear_cache ?p 0 st1 = Some st2"
    "\<forall>k. k \<noteq> 0 \<longrightarrow> cs_cache st2 k = cs_cache st1 k"
    "cache_lists st2 (free(0 := rev (held 0 ?p) @ free 0)) (held(0 := (held 0)(?p := [])))" by auto
  from clear_cache_lists [OF st2(3) _ q, of 1] len [of 1] obtain st3 where st3: "clear_cache ?p 1 st2 = Some st3"
    "\<forall>k. k \<noteq> 1 \<longrightarrow> cs_cache st3 k = cs_cache st2 k"
    "cache_lists st3 (free(0 := rev (held 0 ?p) @ free 0, 1 := rev (held 1 ?p) @ free 1))
      (held(0 := (held 0)(?p := []), 1 := (held 1)(?p := [])))" by auto
  have "ac_strategy (cs_cache st3 2) = TBL_LOOKUP" using st3(2) st2(2) st1 s [of 2] by simp
  with clear_cache_lists [OF st3(3) _ q, of 2] obtain st4 where st4: "clear_cache ?p 2 st3 = Some st4"
    "cache_lists st4 (free(0 := rev (held 0 ?p) @ free 0, 1 := rev (held 1 ?p) @ free 1, 2 := rev (held 2 ?p) @ free 2))
      (held(0 := (held 0)(?p := []), 1 := (held 1)(?p := []), 2 := (held 2)(?p := [])))" by auto
  have three: "j < 3 \<longleftrightarrow> j = 0 \<or> j = 1 \<or> j = 2" for j :: nat by auto
  have "addrCache_tblClear p st = Some st4"
    using p st2(1) st3(1) st4(1) unfolding addrCache_tblClear_def Let_def st1_def [symmetric] by simp
  with st4(2) show ?thesis by (simp add: cache_lists_def three)
qed

lemma tblInit_links:
  assumes "\<forall>j < 3. ac_taskTbl (cs_cache st j) (nat p) = None" "addrCache_tblInit p ct st = Some st'"
  shows "same_links st st'"
proof -
  have three: "[0..<NUM_SUBCACHES] = [0, 1, 2]" by (simp add: NUM_SUBCACHES_def numeral_3_eq_3 numeral_2_eq_2)
  have "(ac_taskTbl (cs_cache st j))(nat p := None) = ac_taskTbl (cs_cache st j)" if "j < 3" for j
    using assms(1) that by (simp add: fun_upd_idem)
  from this [of 0] this [of 1] this [of 2] show ?thesis
    using assms(2) unfolding addrCache_tblInit_def Let_def three by (auto simp: same_links_def split: if_splits)
qed

text \<open>Giving back a table that is on the list of the process.\<close>

definition on_list :: "cache_st \<Rightarrow> nat \<Rightarrow> nat \<Rightarrow> nat \<Rightarrow> bool" where
  "on_list st j p i \<longleftrightarrow> (\<exists>xs. chain (nexts (cs_cache st j)) (ac_taskTbl (cs_cache st j) p) xs \<and> i \<in> set xs)"

lemma tblLink_lists:
  assumes inv: "cache_inv frame st" and L: "cache_lists st free held" and p: "good_ppid p" and j: "j < 3"
    and i: "on_list st j (nat p) i"
  shows "\<exists>xs ys. held j (nat p) = xs @ i # ys \<and>
    (if j = 2 then addrCache_tblLink (Some (j, i)) p st = Some st
     else \<exists>st'. addrCache_tblLink (Some (j, i)) p st = Some st' \<and>
       cache_lists st' (free(j := i # free j)) (held(j := (held j)(nat p := xs @ ys))))"
proof -
  have q: "nat p < NUM_PTL_TASKS" using p by (auto simp: good_ppid_def)
  note ok = cache_listsD [OF L j]
  have s: "ac_strategy (cs_cache st j) = (if j = 2 then TBL_LOOKUP else TBL_REDO)"
    using inv j by (simp add: cache_inv_def sub_ok_def)
  have "i \<in> set (held j (nat p))" using i lseg_det [OF lists_okD(4) [OF ok q]] by (auto simp: on_list_def)
  then obtain xs ys where xs: "held j (nat p) = xs @ i # ys" by (auto simp: in_set_conv_decomp)
  then have "i < ADDR_CACHE_NUM_REG j" using parts_okD(6) [OF lists_okD(1) [OF ok] q] by simp
  then have key: "key_table (j, i) st = Some (j, i)" using j by (intro key_table_inv [OF inv]) simp_all
  show ?thesis
  proof (intro exI conjI)
    show "held j (nat p) = xs @ i # ys" by (rule xs)
    show "if j = 2 then addrCache_tblLink (Some (j, i)) p st = Some st
      else \<exists>st'. addrCache_tblLink (Some (j, i)) p st = Some st' \<and>
        cache_lists st' (free(j := i # free j)) (held(j := (held j)(nat p := xs @ ys)))"
      using s p key cache_lists_upd [OF L, of j "link_table (nat p) i"] lists_give [OF ok q _ xs]
      by (auto simp: addrCache_tblLink_def)
  qed
qed

lemma invalidate_loop_links:
  assumes "invalidate_loop a c = Some c'"
  shows "nexts c' = nexts c \<and> prevs c' = prevs c \<and> ac_addr_tbl c' = ac_addr_tbl c \<and> ac_taskTbl c' = ac_taskTbl c \<and>
    ac_freeTables c' = ac_freeTables c \<and> ac_strategy c' = ac_strategy c"
proof (rule invalidate_loop.raw_induct [OF _ assms])
  fix loop table c c'
  assume IH: "\<And>t c c'. loop t c = Some c' \<Longrightarrow> nexts c' = nexts c \<and> prevs c' = prevs c \<and> ac_addr_tbl c' = ac_addr_tbl c \<and>
      ac_taskTbl c' = ac_taskTbl c \<and> ac_freeTables c' = ac_freeTables c \<and> ac_strategy c' = ac_strategy c"
    and body: "(case table of None \<Rightarrow> Some c | Some t \<Rightarrow> loop (at_next (ac_tbls c t))
      (upd_tbl t (\<lambda>e. e\<lparr>at_valid := False\<rparr>) c)) = Some c'"
  have "nexts (upd_tbl t (\<lambda>e. e\<lparr>at_valid := False\<rparr>) c) = nexts c" "prevs (upd_tbl t (\<lambda>e. e\<lparr>at_valid := False\<rparr>) c) = prevs c"
    for t by (auto simp: fun_eq_iff)
  then show "nexts c' = nexts c \<and> prevs c' = prevs c \<and> ac_addr_tbl c' = ac_addr_tbl c \<and> ac_taskTbl c' = ac_taskTbl c \<and>
      ac_freeTables c' = ac_freeTables c \<and> ac_strategy c' = ac_strategy c"
    using body IH [of _ "upd_tbl (the table) (\<lambda>e. e\<lparr>at_valid := False\<rparr>) c" c'] by (cases table) simp_all
qed

lemma invalidate_cache_links: "invalidate_cache p j st = Some st' \<Longrightarrow> same_links st st'"
  using invalidate_loop_links [of "ac_taskTbl (cs_cache st j) p" "cs_cache st j"]
  by (auto simp: invalidate_cache_def same_links_def)

lemma invalidate_links:
  assumes "addrCache_invalidate k ct st = Some st'"
  shows "same_links st st'"
proof -
  from assms obtain p where b: "Option.bind (invalidate_cache p 0 st)
      (\<lambda>st1. Option.bind (invalidate_cache p 1 st1) (invalidate_cache p 2)) = Some st'"
    by (simp add: addrCache_invalidate_def Let_def split: if_splits)
  then show ?thesis by (rule three_steps) (auto intro: invalidate_cache_links same_links_trans)
qed

lemma copy_check_links:
  assumes inv: "cache_inv frame st" and fr: "frames_ok 13 frame" and ji: "j < 3" "i < ADDR_CACHE_NUM_REG j"
    and op: "copy_check 13 frame v n (j, i) st = Some (r, st')"
  shows "same_links st st'"
proof -
  let ?t = "tbl st j i"
  have ok: "tbl_ok frame (cs_slot st) j i ?t" using inv ji by (simp add: cache_inv_def sub_ok_def tbl_def)
  from op obtain rc where st': "st' = st \<or>
      addrCache_revalidate 13 frame j i (at_start ?t) (at_length ?t) st = Some (rc, st')"
    by (auto simp: copy_check_def Let_def bind_eq_Some_conv split: if_splits)
  have valid: "same_links st (upd_cache j (upd_tbl i (\<lambda>t. t\<lparr>at_valid := True\<rparr>)) st)"
    by (rule same_links_upd [of "?t\<lparr>at_valid := True\<rparr>"]) (simp_all add: tbl_def upd_tbl_def)
  have "nat (at_length ?t) \<le> reg_max j" using ok by (simp add: tbl_ok_def nat_le_iff)
  then have len: "at_length ?t = int (nat (at_length ?t))" "nat (at_length ?t) < 2 ^ 31"
    using ok reg_max_small [of j] by (simp_all add: tbl_ok_def)
  have "same_links st st'" if "addrCache_revalidate 13 frame j i (at_start ?t) (int (nat (at_length ?t))) st = Some (rc, st')"
    using that valid fill_table_links [OF _ _ len(2) _ fr] by (auto simp: addrCache_revalidate_def split: if_splits)
  with st' len(1) show ?thesis by auto
qed

end
