(* ===== verification/K_CacheProps.thy ===== *)
theory K_CacheProps
  imports K_CacheRuns
begin

text \<open>
  Properties of the address cache: the layout of the slots, the copies, and the regions that
  are too large for a table.
\<close>

section \<open>Copies through a valid table\<close>

lemma copy_check_valid:
  assumes "at_valid (tbl st j i)" "at_start (tbl st j i) = v" "at_length (tbl st j i) = int len" "len < 2 ^ 31"
    and "k + m \<le> len"
  shows "copy_check 13 frame (v + of_nat k) (int m) (j, i) st = Some (Some (int k), st)"
proof -
  have k: "k < 2 ^ 31" "k + m < 2 ^ 31" using assms(4,5) by linarith+
  then have "unat (of_nat k :: 64 word) = k" by (simp add: unat_of_nat take_bit_nat_eq_self)
  then have "s32 (uint (v + of_nat k - v)) = int k"
    using k by (simp only: add_diff_cancel_left' uint_nat) (intro s32_id, simp add: c_int_def)
  moreover have "s32 (int k + int m) = int k + int m" using k by (intro s32_id) (simp add: c_int_def)
  ultimately show ?thesis using assms by (simp add: copy_check_def)
qed

lemma copy_valid:
  assumes inv: "cache_inv frame st" and ji: "j < 3" "i < ADDR_CACHE_NUM_REG j"
    and reg: "at_valid (tbl st j i)" "at_length (tbl st j i) = int len" "region_ok 13 frame (cs_slot st) (tbl st j i) v len"
    and m: "0 < m" "k + m \<le> len"
  defines "A \<equiv> map (\<lambda>d. calcPhysAddress 13 frame (v + of_nat (k + d))) [0..<m]"
  shows "\<exists>bs. block_addrs (cs_slot st) bs = A \<and>
    memcpy3_from_user 13 frame dst (v + of_nat k) (int m) (Some (j, i)) mem st = Some (0, run_from (cs_slot st) bs dst mem, st) \<and>
    memcpy3_to_user 13 frame (v + of_nat k) src (int m) (Some (j, i)) mem st = Some (0, run_to (cs_slot st) bs src mem, st)"
proof -
  have len: "len < 2 ^ 31"
    using inv ji reg(2) reg_max_small [of j] by (force simp: cache_inv_def sub_ok_def tbl_ok_def tbl_def)
  have start: "at_start (tbl st j i) = v" using reg(3) by (simp add: region_ok_def)
  have key: "key_table (j, i) st = Some (j, i)" using key_table_inv [OF inv, of "(j, i)"] ji by simp
  note check = copy_check_valid [OF reg(1) start reg(2) len m(2)]
  obtain bs where "copy_blocks 13 (tbl st j i) (int k) (int m) = Some bs" "in_region 13 frame (cs_slot st) bs v k m"
    using copy_blocks_addrs [OF reg(3) m len] by auto
  with key check show ?thesis
    unfolding memcpy3_from_user_def memcpy3_to_user_def in_region_def A_def by (intro exI [of _ bs]) simp
qed

section \<open>An example\<close>

definition demo_frame :: page_tables where
  "demo_frame p = (if p = 1 then Some 0x40000 else None)"

lemma demo_off: "page_off 13 0x40000 = 0" "page_off 13 0x2000 = 0"
  by (simp_all add: page_off_def mask_eq_exp_minus_1)

lemma demo_frames_ok: "frames_ok 13 demo_frame"
  by (simp add: frames_ok_def demo_frame_def demo_off)

lemma demo_phys: "d < 8192 \<Longrightarrow> calcPhysAddress 13 demo_frame (0x2000 + of_nat d) = 0x40000 + of_nat d"
proof -
  assume d: "d < 8192"
  have "unat (page_off 13 0x2000) + d < 2 ^ 13" using d by (simp add: demo_off)
  from calcPhys_linear [OF _ this, of demo_frame] show ?thesis
    by (simp add: calcPhysAddress_def demo_frame_def demo_off)
qed

lemma demo_populate:
  "\<exists>st'. addrCache_populate 13 demo_frame 0x2000 16 5 (booted 13) = Some ((0, Some (0, 0)), st')"
proof -
  have P: "page_size 13 = 8192" by (simp add: page_size_def)
  have "calcPhysAddress 13 demo_frame 0x2000 = 0x40000" using demo_phys [of 0] by simp
  moreover have "first_chunk 13 0x40000 16 = 16" by (simp add: first_chunk_def demo_off P)
  moreover have "sub_chunk 16 16 = 0" by (simp add: sub_chunk_def s32_def)
  moreover have "pick_cache 16 (booted 13) = 0"
    by (simp add: pick_cache_def booted_cache cache_boot_def ADDR_CACHE_REG_SZ_def P)
  ultimately show ?thesis
    by (simp add: addrCache_populate_def pick_table_def addrCache_tblUnlink_def booted_cache cache_boot_def zero_tbl_def
        fill_table_def Let_def good_ppid_def task_sizes push_redo_def tbl_def ADDR_CACHE_NUM_REG_def slot_of_def slot_base_def
        NUM_SLOTS_def ADDR_CACHE_TBL_SZ_def translate_loop.simps upd_cache_def upd_tbl_def)
qed

lemma demo_apart: "d < 8 \<Longrightarrow> e < 8 \<Longrightarrow> 0x100 + of_nat d \<noteq> (0x40004 + of_nat e :: 64 word)"
proof
  assume de: "d < 8" "e < 8" "0x100 + of_nat d = (0x40004 + of_nat e :: 64 word)"
  then have "unat (of_nat (0x100 + d) :: 64 word) = unat (of_nat (0x40004 + e) :: 64 word)" by simp
  then show False using de(1,2) by (simp only: unat_of_nat) (simp add: take_bit_nat_eq_self)
qed

section \<open>Properties\<close>

text \<open>
  C35: initialisation gives every table its own slots: they lie in the array, and those of
  different tables are disjoint.
\<close>

theorem init_slots_disjoint:
  assumes "init_module True (cache_boot ps) = (rc, st)" "j < NUM_SUBCACHES" "i < ac_num_reg (cs_cache st j)"
    and "j' < NUM_SUBCACHES" "i' < ac_num_reg (cs_cache st j')" "(j, i) \<noteq> (j', i')"
  shows "at_slot (tbl st j i) + ac_tbl_sz (cs_cache st j) \<le> NUM_SLOTS \<and>
    (at_slot (tbl st j i) + ac_tbl_sz (cs_cache st j) \<le> at_slot (tbl st j' i') \<or>
     at_slot (tbl st j' i') + ac_tbl_sz (cs_cache st j') \<le> at_slot (tbl st j i))"
proof -
  have st: "st = booted ps" using assms(1) by (simp add: booted_def)
  have "ac_num_reg (cs_cache st x) = ADDR_CACHE_NUM_REG x" "ac_tbl_sz (cs_cache st x) = ADDR_CACHE_TBL_SZ x"
    "y < ADDR_CACHE_NUM_REG x \<Longrightarrow> at_slot (tbl st x y) = slot_of x y" if "x < 3" for x y
    using that by (simp_all add: st booted_cache cache_boot_def tbl_def)
  with slot_ranges_disjoint [of i j i' j'] slot_of_bound [of j i] assms(2-) show ?thesis by (simp add: NUM_SUBCACHES_def)
qed

theorem init_slots_disjoint_witness:
  "at_slot (tbl (booted 13) 0 4095) + 2 \<le> at_slot (tbl (booted 13) 1 0) \<or>
   at_slot (tbl (booted 13) 1 0) + 16 \<le> at_slot (tbl (booted 13) 0 4095)"
proof -
  have "init_module True (cache_boot 13) = (0, booted 13)" by (simp add: booted_def init_module_def)
  from init_slots_disjoint [OF this, of 0 4095 1 0] show ?thesis
    by (simp add: NUM_SUBCACHES_def booted_cache cache_boot_def ADDR_CACHE_NUM_REG_def ADDR_CACHE_TBL_SZ_def)
qed

text \<open>
  C30: a copy from the user's memory inside a validated region succeeds and puts exactly the
  bytes of the user's addresses, translated by the page tables, at the destination; no other
  byte of the memory changes.
\<close>

theorem copy_from_user_exact:
  assumes run: "cache_run frame st" and fr: "frames_ok 13 frame"
    and val: "addrCache_populate 13 frame v (int n) p st = Some ((0, Some key), st')" "n \<le> reg_max 2"
    and m: "0 < m" "k + m \<le> n"
    and sep: "\<forall>d < m. \<forall>e < m. dst + of_nat d \<noteq> calcPhysAddress 13 frame (v + of_nat (k + e))"
  shows "\<exists>mem'. memcpy3_from_user 13 frame dst (v + of_nat k) (int m) (Some key) mem st' = Some (0, mem', st') \<and>
    (\<forall>d < m. mem' (dst + of_nat d) = mem (calcPhysAddress 13 frame (v + of_nat (k + d)))) \<and>
    (\<forall>a. (\<forall>d < m. a \<noteq> dst + of_nat d) \<longrightarrow> mem' a = mem a)"
proof -
  obtain j i where key: "key = (j, i)" by (cases key)
  from populate_inv [OF cache_run_inv [OF run fr] fr val(2,1)] key obtain len where
    inv: "cache_inv frame st'" and ji: "j < 3" "i < ADDR_CACHE_NUM_REG j" and valid: "at_valid (tbl st' j i)"
    and len: "n \<le> len" "at_length (tbl st' j i) = int len" "region_ok 13 frame (cs_slot st') (tbl st' j i) v len"
    by blast
  have km: "k + m \<le> len" using m(2) len(1) by linarith
  let ?A = "map (\<lambda>d. calcPhysAddress 13 frame (v + of_nat (k + d))) [0..<m]"
  from copy_valid [OF inv ji valid len(2,3) m(1) km] obtain bs where bs: "?A = block_addrs (cs_slot st') bs"
    "memcpy3_from_user 13 frame dst (v + of_nat k) (int m) (Some key) mem st' = Some (0, run_from (cs_slot st') bs dst mem, st')"
    unfolding key by metis
  have "len < 2 ^ 31"
    using inv ji len(2) reg_max_small [of j] by (force simp: cache_inv_def sub_ok_def tbl_ok_def tbl_def)
  then have "length ?A < 2 ^ 63" using km by simp
  moreover have "\<forall>d < length ?A. dst + of_nat d \<notin> set ?A" using sep by (auto simp del: of_nat_add)
  ultimately show ?thesis using run_from_bytes [OF _ _ bs(1), of dst mem] bs(2) by (auto simp del: of_nat_add)
qed

theorem copy_from_user_exact_witness:
  "\<exists>st' mem'. addrCache_populate 13 demo_frame 0x2000 16 5 (booted 13) = Some ((0, Some (0, 0)), st') \<and>
    memcpy3_from_user 13 demo_frame 0x100 0x2004 8 (Some (0, 0)) (\<lambda>a. ucast a) st' = Some (0, mem', st') \<and>
    (\<forall>d < 8. mem' (0x100 + of_nat d) = ucast (0x40004 + of_nat d :: 64 word))"
proof -
  obtain st' where st': "addrCache_populate 13 demo_frame 0x2000 (int 16) 5 (booted 13) = Some ((0, Some (0, 0)), st')"
    using demo_populate by auto
  have phys: "calcPhysAddress 13 demo_frame (0x2000 + of_nat (4 + d)) = 0x40004 + of_nat d" if "d < 8" for d
    using demo_phys [of "4 + d"] that by simp
  with demo_apart have "\<forall>d < 8. \<forall>e < 8. 0x100 + of_nat d \<noteq> calcPhysAddress 13 demo_frame (0x2000 + of_nat (4 + e))" by simp
  from copy_from_user_exact [OF cache_run.boot demo_frames_ok st' _ _ _ this, of "\<lambda>a. ucast a"] st' phys show ?thesis
    by (auto simp: reg_max_def ADDR_CACHE_TBL_SZ_def simp del: of_nat_add)
qed

text \<open>
  C31: a copy to the user's memory inside a validated region whose pages have different frames
  succeeds and puts exactly the bytes of the source at the user's addresses, translated by the
  page tables; no other byte of the memory changes.
\<close>

theorem copy_to_user_exact:
  assumes run: "cache_run frame st" and fr: "frames_ok 13 frame"
    and val: "addrCache_populate 13 frame v (int n) p st = Some ((0, Some key), st')" "n \<le> reg_max 2"
    and m: "0 < m" "k + m \<le> n"
    and sep: "\<forall>d < m. \<forall>e < m. src + of_nat d \<noteq> calcPhysAddress 13 frame (v + of_nat (k + e))"
    and inj: "inj_on (\<lambda>d. calcPhysAddress 13 frame (v + of_nat (k + d))) {0..<m}"
  shows "\<exists>mem'. memcpy3_to_user 13 frame (v + of_nat k) src (int m) (Some key) mem st' = Some (0, mem', st') \<and>
    (\<forall>d < m. mem' (calcPhysAddress 13 frame (v + of_nat (k + d))) = mem (src + of_nat d)) \<and>
    (\<forall>a. (\<forall>d < m. a \<noteq> calcPhysAddress 13 frame (v + of_nat (k + d))) \<longrightarrow> mem' a = mem a)"
proof -
  obtain j i where key: "key = (j, i)" by (cases key)
  from populate_inv [OF cache_run_inv [OF run fr] fr val(2,1)] key obtain len where
    inv: "cache_inv frame st'" and ji: "j < 3" "i < ADDR_CACHE_NUM_REG j" and valid: "at_valid (tbl st' j i)"
    and len: "n \<le> len" "at_length (tbl st' j i) = int len" "region_ok 13 frame (cs_slot st') (tbl st' j i) v len"
    by blast
  have km: "k + m \<le> len" using m(2) len(1) by linarith
  let ?A = "map (\<lambda>d. calcPhysAddress 13 frame (v + of_nat (k + d))) [0..<m]"
  from copy_valid [OF inv ji valid len(2,3) m(1) km] obtain bs where bs: "?A = block_addrs (cs_slot st') bs"
    "memcpy3_to_user 13 frame (v + of_nat k) src (int m) (Some key) mem st' = Some (0, run_to (cs_slot st') bs src mem, st')"
    unfolding key by metis
  have "len < 2 ^ 31"
    using inv ji len(2) reg_max_small [of j] by (force simp: cache_inv_def sub_ok_def tbl_ok_def tbl_def)
  then have "length ?A < 2 ^ 63" using km by simp
  moreover have "\<forall>d < length ?A. src + of_nat d \<notin> set ?A" using sep by (auto simp del: of_nat_add)
  moreover have "distinct ?A" using inj by (simp add: distinct_map del: of_nat_add)
  ultimately have run: "(\<forall>d < length ?A. run_to (cs_slot st') bs src mem (?A ! d) = mem (src + of_nat d)) \<and>
      (\<forall>a. a \<notin> set ?A \<longrightarrow> run_to (cs_slot st') bs src mem a = mem a)"
    using run_to_bytes [OF _ _ _ bs(1)] by blast
  have "a \<notin> set ?A" if "\<forall>d < m. a \<noteq> calcPhysAddress 13 frame (v + of_nat (k + d))" for a
    using that by (auto simp del: of_nat_add)
  with run bs(2) show ?thesis by (intro exI [of _ "run_to (cs_slot st') bs src mem"]) (simp del: of_nat_add)
qed

theorem copy_to_user_exact_witness:
  "\<exists>st' mem'. addrCache_populate 13 demo_frame 0x2000 16 5 (booted 13) = Some ((0, Some (0, 0)), st') \<and>
    memcpy3_to_user 13 demo_frame 0x2004 0x100 8 (Some (0, 0)) (\<lambda>a. ucast a) st' = Some (0, mem', st') \<and>
    (\<forall>d < 8. mem' (0x40004 + of_nat d) = ucast (0x100 + of_nat d :: 64 word))"
proof -
  obtain st' where st': "addrCache_populate 13 demo_frame 0x2000 (int 16) 5 (booted 13) = Some ((0, Some (0, 0)), st')"
    using demo_populate by auto
  have phys: "calcPhysAddress 13 demo_frame (0x2000 + of_nat (4 + d)) = 0x40004 + of_nat d" if "d < 8" for d
    using demo_phys [of "4 + d"] that by simp
  with demo_apart have sep: "\<forall>d < 8. \<forall>e < 8. 0x100 + of_nat d \<noteq> calcPhysAddress 13 demo_frame (0x2000 + of_nat (4 + e))" by simp
  have "inj_on (\<lambda>d. 0x40004 + of_nat d :: 64 word) {0..<8}"
    by (rule inj_onI) (auto intro: of_nat_64_inj)
  then have "inj_on (\<lambda>d. calcPhysAddress 13 demo_frame (0x2000 + of_nat (4 + d))) {0..<8}"
    by (subst inj_on_cong [where g = "\<lambda>d. 0x40004 + of_nat d :: 64 word"]) (use phys in simp_all)
  from copy_to_user_exact [OF cache_run.boot demo_frames_ok st' _ _ _ sep this, of "\<lambda>a. ucast a"] st' phys show ?thesis
    by (auto simp: reg_max_def ADDR_CACHE_TBL_SZ_def simp del: of_nat_add)
qed

end
