(* ===== verification/K_CacheOrderly.thy ===== *)
theory K_CacheOrderly
  imports K_CacheOrder K_CacheProps
begin

text \<open>
  Orderly runs of the address cache, their lists, and when a validation succeeds.
\<close>

section \<open>A validation whose pages are present succeeds\<close>

lemma pages_lt: "k < pages ps m \<Longrightarrow> k * 2 ^ ps < m"
proof -
  assume "k < pages ps m"
  then have "Suc k * 2 ^ ps \<le> m + 2 ^ ps - 1"
    unfolding pages_def using div_times_less_eq_dividend [of "m + 2 ^ ps - 1" "2 ^ ps"]
    by (meson Suc_leI dual_order.trans mult_le_mono1)
  moreover have "(0 :: nat) < 2 ^ ps" by simp
  ultimately show ?thesis unfolding mult_Suc by linarith
qed

lemma translate_loop_total:
  assumes "n < 2 ^ 31" "ps < 31" "index + pages ps n \<le> NUM_SLOTS"
    and "\<forall>k < pages ps n. calcPhysAddress ps frame (vaddr + chunk + of_nat (k * 2 ^ ps)) \<noteq> 0"
  shows "\<exists>r slots'. translate_loop ps frame i index vaddr chunk (int n) slots = Some (Some r, slots')"
  using assms
proof (induction n arbitrary: i index vaddr chunk slots rule: less_induct)
  case (less n)
  let ?v = "vaddr + chunk" and ?c = "next_chunk ps (int n)" and ?m = "n - min n (2 ^ ps)"
  show ?case
  proof (cases "n = 0")
    case True
    then show ?thesis by (simp add: translate_loop.simps)
  next
    case False
    have c: "unat ?c = min n (2 ^ ps)" using less.prems by (intro next_chunk_unat)
    have rest: "sub_chunk (int n) ?c = int ?m" using c less.prems by (subst sub_chunk_nat) simp_all
    have pg: "pages ps n = Suc (pages ps ?m)" using False by (intro pages_pos) simp
    have next_page: "?v + ?c + of_nat (k * 2 ^ ps) = ?v + of_nat (Suc k * 2 ^ ps)" if "k < pages ps ?m" for k
    proof -
      have "0 < ?m" using that by (cases "?m = 0") simp_all
      then have "unat ?c = 2 ^ ps" using c by linarith
      then have "?c = of_nat (2 ^ ps)"
        unfolding page_size_of_nat [symmetric] word_unat_eq_iff using less.prems(2) by (simp add: page_size_unat)
      then show ?thesis by (simp add: algebra_simps)
    qed
    have "calcPhysAddress ps frame (?v + ?c + of_nat (k * 2 ^ ps)) \<noteq> 0" if "k < pages ps ?m" for k
      using less.prems(4) [rule_format, of "Suc k"] that pg unfolding next_page [OF that] by simp
    moreover have "?m < n" "?m < 2 ^ 31" "index + 1 + pages ps ?m \<le> NUM_SLOTS"
      using False less.prems(1,3) pg by auto
    ultimately have "\<exists>r slots'. translate_loop ps frame (s32 (i + 1)) (index + 1) ?v ?c (int ?m)
        (slots(index := calcPhysAddress ps frame ?v)) = Some (Some r, slots')"
      using less.prems(2) by (intro less.IH) simp_all
    moreover have "calcPhysAddress ps frame ?v \<noteq> 0" "index < NUM_SLOTS" using less.prems(3,4) pg by auto
    ultimately show ?thesis using False rest translate_loop.simps [of ps frame i index vaddr chunk "int n" slots]
      by (simp add: Let_def)
  qed
qed

lemma fill_table_fits:
  assumes n: "0 < n" "n < 2 ^ 31" and fr: "frames_ok 13 frame"
    and fit: "at_slot (tbl st j i) + 1 + pages 13 (n - first_len 13 v n) \<le> NUM_SLOTS"
    and present: "\<forall>k < n. calcPhysAddress 13 frame (v + of_nat k) \<noteq> 0"
  shows "\<exists>st'. fill_table 13 frame v (int n) j i st = Some (True, st')"
proof -
  let ?p = "calcPhysAddress 13 frame v" and ?s = "at_slot (tbl st j i)" and ?f = "first_len 13 v n"
  let ?c = "first_chunk 13 ?p (int n)"
  have p: "?p \<noteq> 0" using present [rule_format, of 0] n by simp
  have c: "unat ?c = ?f" using first_chunk_unat [OF fr p n(2)] by (simp add: first_len_def)
  have f: "?f \<le> n" by (simp add: first_len_def)
  have rest: "sub_chunk (int n) ?c = int (n - ?f)" using c f n(2) by (subst sub_chunk_nat) simp_all
  have "?c = of_nat ?f" using c f n(2) by (simp add: word_unat_eq_iff unat_of_nat take_bit_nat_eq_self)
  moreover have "calcPhysAddress 13 frame (v + of_nat ?f + of_nat (k * 2 ^ 13)) \<noteq> 0" if "k < pages 13 (n - ?f)" for k
    using present [rule_format, of "?f + k * 2 ^ 13"] pages_lt [OF that] by (simp add: add.assoc)
  ultimately have pres: "\<forall>k < pages 13 (n - ?f). calcPhysAddress 13 frame (v + ?c + of_nat (k * 2 ^ 13)) \<noteq> 0" by simp
  have "n - ?f < 2 ^ 31" using n(2) by linarith
  then obtain r slots' where
    "translate_loop 13 frame 0 (?s + 1) v ?c (int (n - ?f)) ((cs_slot st)(?s := ?p)) = Some (Some r, slots')"
    using translate_loop_total [OF _ _ fit pres, of 0 "(cs_slot st)(?s := ?p)"] by auto
  then show ?thesis using p rest fit by (cases r) (simp add: fill_table_def Let_def)
qed

lemma fill_table_total:
  assumes "cache_inv frame st" "0 < n" "n \<le> reg_max j" "frames_ok 13 frame" "j < 3" "i < ADDR_CACHE_NUM_REG j"
    and "\<forall>k < n. calcPhysAddress 13 frame (v + of_nat k) \<noteq> 0"
  shows "\<exists>st'. fill_table 13 frame v (int n) j i st = Some (True, st')"
proof (rule fill_table_fits)
  have "at_slot (tbl st j i) = slot_of j i" using assms(1,5,6) by (simp add: cache_inv_def sub_ok_def tbl_ok_def tbl_def)
  then show "at_slot (tbl st j i) + 1 + pages 13 (n - first_len 13 v n) \<le> NUM_SLOTS"
    using chunks_fit [OF assms(2,3), of v] slot_of_bound [OF assms(5,6)] by linarith
  show "n < 2 ^ 31" using assms(3) reg_max_small [of j] by linarith
qed (use assms in simp_all)

lemma fill_table_missing:
  assumes "calcPhysAddress ps frame v = 0"
  shows "fill_table ps frame v n j i st = Some (False, upd_cache j (upd_tbl i (\<lambda>t. t\<lparr>at_start := v, at_length := 0\<rparr>)) st)"
  using assms by (simp add: fill_table_def upd_cache_def upd_tbl_def)

section \<open>One validation\<close>

text \<open>A validation of a small region, from the head of the free list.\<close>

lemma unlink_redo:
  assumes inv: "cache_inv frame st" and j: "j < 3" "j \<noteq> 2" and p: "good_ppid p"
  shows "ac_freeTables (cs_cache st j) \<le> 0 \<Longrightarrow> pick_table v n p j st = Some (None, st)"
    "0 < ac_freeTables (cs_cache st j) \<Longrightarrow> ac_addr_tbl (cs_cache st j) = None \<Longrightarrow> pick_table v n p j st = None"
    "0 < ac_freeTables (cs_cache st j) \<Longrightarrow> ac_addr_tbl (cs_cache st j) = Some x \<Longrightarrow>
      pick_table v n p j st = Some (Some (x, False), upd_cache j (take_redo (nat p) x) st) \<and> x < ADDR_CACHE_NUM_REG j"
proof -
  let ?c = "cs_cache st j"
  have sub: "sub_ok frame (cs_slot st) j ?c" using inv j by (simp add: cache_inv_def)
  have s: "ac_strategy ?c = TBL_REDO" using sub j by (simp add: sub_ok_def)
  show "ac_freeTables ?c \<le> 0 \<Longrightarrow> pick_table v n p j st = Some (None, st)"
    "0 < ac_freeTables ?c \<Longrightarrow> ac_addr_tbl ?c = None \<Longrightarrow> pick_table v n p j st = None"
    by (simp_all add: pick_table_def s addrCache_tblUnlink_def)
  assume x: "0 < ac_freeTables ?c" "ac_addr_tbl ?c = Some x"
  then have lt: "x < ADDR_CACHE_NUM_REG j" using sub_okD(1) [OF sub] by simp
  then have "at_table_id (ac_tbls ?c x) = x" using sub_okD(3) [OF sub] by (simp add: tbl_ok_def)
  then show "pick_table v n p j st = Some (Some (x, False), upd_cache j (take_redo (nat p) x) st) \<and> x < ADDR_CACHE_NUM_REG j"
    using x p lt by (simp add: pick_table_def s addrCache_tblUnlink_def upd_cache_twice take_redo_def [abs_def])
qed

lemma populate_redo:
  assumes inv: "cache_inv frame st" and fr: "frames_ok 13 frame" and p: "good_ppid p" and v: "v \<noteq> 0"
    and n: "0 < n" "n \<le> reg_max 1" and x: "0 < ac_freeTables (cs_cache st (pick_cache (int n) st))"
      "ac_addr_tbl (cs_cache st (pick_cache (int n) st)) = Some x"
  defines "j \<equiv> pick_cache (int n) st" and "st1 \<equiv> upd_cache (pick_cache (int n) st) (take_redo (nat p) x) st"
  shows "calcPhysAddress 13 frame v = 0 \<Longrightarrow> \<exists>st'. addrCache_populate 13 frame v (int n) p st = Some ((-1, None), st') \<and>
      same_links st1 st' \<and> cache_inv frame st'"
    "\<forall>k < n. calcPhysAddress 13 frame (v + of_nat k) \<noteq> 0 \<Longrightarrow>
      \<exists>st'. addrCache_populate 13 frame v (int n) p st = Some ((0, Some (j, x)), st') \<and> same_links st1 st' \<and> cache_inv frame st' \<and>
        region_ok 13 frame (cs_slot st') (tbl st' j x) v n"
proof -
  have "ac_reg_sz (cs_cache st 1) = int (reg_max 1)" using inv by (simp add: cache_inv_def sub_ok_def reg_max_eq)
  then have j: "j < 3" "j \<noteq> 2" using n(2) by (auto simp: j_def pick_cache_def)
  have n2: "n \<le> reg_max 2" using n(2) by (simp add: reg_max_def ADDR_CACHE_TBL_SZ_def)
  have nj: "n \<le> reg_max j" using pick_cache_fits [OF inv n2] by (simp add: j_def)
  have n31: "n < 2 ^ 31" using nj reg_max_small [of j] by linarith
  note pick = unlink_redo(3) [OF inv j p x [folded j_def], of v "int n", folded st1_def [folded j_def]]
  have inv1: "cache_inv frame st1" using pick_table_inv [OF inv j(1) conjunct1 [OF pick]] by simp
  have inv': "cache_inv frame st'" if "addrCache_populate 13 frame v (int n) p st = Some (r, st')" for r st'
    using populate_inv [OF inv fr n2, of v p "fst r" "snd r" st'] that by simp
  have pop: "addrCache_populate 13 frame v (int n) p st =
      map_option (\<lambda>(ok, st2). (if ok then (0, Some (j, x)) else (-1, None), st2)) (fill_table 13 frame v (int n) j x st1)"
    using v n pick unfolding addrCache_populate_def j_def [symmetric] Let_def by simp
  have links: "same_links st1 st'" if "fill_table 13 frame v (int n) j x st1 = Some (ok, st')" for ok st'
    by (rule fill_table_links [OF that n(1) n31 _ fr]) simp
  show "\<exists>st'. addrCache_populate 13 frame v (int n) p st = Some ((-1, None), st') \<and> same_links st1 st' \<and> cache_inv frame st'"
    if "calcPhysAddress 13 frame v = 0"
    using fill_table_missing [OF that, of "int n" j x st1] links [of False] inv' by (simp add: pop)
  assume present: "\<forall>k < n. calcPhysAddress 13 frame (v + of_nat k) \<noteq> 0"
  obtain st' where fill: "fill_table 13 frame v (int n) j x st1 = Some (True, st')"
    using fill_table_total [OF inv1 n(1) nj fr j(1) conjunct2 [OF pick] present] by blast
  then have "addrCache_populate 13 frame v (int n) p st = Some ((0, Some (j, x)), st')" by (simp add: pop)
  then show "\<exists>st'. addrCache_populate 13 frame v (int n) p st = Some ((0, Some (j, x)), st') \<and> same_links st1 st' \<and>
      cache_inv frame st' \<and> region_ok 13 frame (cs_slot st') (tbl st' j x) v n"
    using links [OF fill] inv' fill_table_inv(2) [OF inv1 j(1) conjunct2 [OF pick] n(1) nj v fr fill] by blast
qed

section \<open>Orderly runs\<close>

text \<open>
  In an orderly run the ppids are in range, a table is given back by the process that holds
  it, a process has at most one small region left when it is cleared, and it has none when it
  is initialised.
\<close>

inductive lists_run :: "page_tables \<Rightarrow> cache_st \<Rightarrow> bool" for frame where
  boot: "lists_run frame (booted 13)"
| populate: "lists_run frame st \<Longrightarrow> n \<le> reg_max 2 \<Longrightarrow> good_ppid p \<Longrightarrow>
    addrCache_populate 13 frame v (int n) p st = Some (r, st') \<Longrightarrow> lists_run frame st'"
| tblLink: "lists_run frame st \<Longrightarrow> good_ppid p \<Longrightarrow> (\<And>j i. key = Some (j, i) \<Longrightarrow> j < 3 \<and> on_list st j (nat p) i) \<Longrightarrow>
    addrCache_tblLink key p st = Some st' \<Longrightarrow> lists_run frame st'"
| tblInit: "lists_run frame st \<Longrightarrow> \<forall>j < 3. ac_taskTbl (cs_cache st j) (nat p) = None \<Longrightarrow>
    addrCache_tblInit p ct st = Some st' \<Longrightarrow> lists_run frame st'"
| tblClear: "lists_run frame st \<Longrightarrow> short_lists (nat p) st \<Longrightarrow> addrCache_tblClear p st = Some st' \<Longrightarrow> lists_run frame st'"
| ioctl: "lists_run frame st \<Longrightarrow> addrCache_ioctl k ct cmd st = Some (rc, st') \<Longrightarrow> lists_run frame st'"
| to_user: "lists_run frame st \<Longrightarrow>
    memcpy3_to_user 13 frame v src n key mem st = Some (rc, mem', st') \<Longrightarrow> lists_run frame st'"
| from_user: "lists_run frame st \<Longrightarrow>
    memcpy3_from_user 13 frame dst v n key mem st = Some (rc, mem', st') \<Longrightarrow> lists_run frame st'"

lemma lists_run_run: "lists_run frame st \<Longrightarrow> cache_run frame st"
  by (induction rule: lists_run.induct) (blast intro: cache_run.intros)+

lemma lists_run_inv: "lists_run frame st \<Longrightarrow> frames_ok 13 frame \<Longrightarrow> cache_inv frame st"
  using cache_run_inv lists_run_run by blast

lemma booted_links:
  assumes "j < 3"
  shows "nexts (cs_cache (booted 13) j) = (\<lambda>i. if i + 1 < ADDR_CACHE_NUM_REG j then Some (i + 1) else None)"
    "prevs (cs_cache (booted 13) j) = (\<lambda>i. None)"
    "ac_addr_tbl (cs_cache (booted 13) j) = Some 0" "ac_taskTbl (cs_cache (booted 13) j) = (\<lambda>p. None)"
    "ac_freeTables (cs_cache (booted 13) j) = int (ADDR_CACHE_NUM_REG j)"
  using assms by (auto simp: booted_cache cache_boot_def zero_tbl_def fun_eq_iff)

lemma chain_upt: "a \<le> n \<Longrightarrow> chain (\<lambda>i. if i + 1 < n then Some (i + 1) else None) (if a < n then Some a else None) [a..<n]"
proof (induction rule: inc_induct)
  case (step m)
  then show ?case by (cases "Suc m < n") (simp_all add: upt_conv_Cons [OF step.hyps(2)])
qed simp

lemma booted_lists: "cache_lists (booted 13) (\<lambda>j. [0..<ADDR_CACHE_NUM_REG j]) (\<lambda>j p. [])"
proof -
  have "lists_ok (ADDR_CACHE_NUM_REG j) (cs_cache (booted 13) j) [0..<ADDR_CACHE_NUM_REG j] (\<lambda>p. [])" if "j < 3" for j
  proof -
    have "chain (nexts (cs_cache (booted 13) j)) (Some 0) [0..<ADDR_CACHE_NUM_REG j]"
    proof -
      have "0 < ADDR_CACHE_NUM_REG j" by (simp add: ADDR_CACHE_NUM_REG_def)
      with chain_upt [of 0 "ADDR_CACHE_NUM_REG j"] show ?thesis unfolding booted_links(1) [OF that] by simp
    qed
    then show ?thesis using fun_cong [OF booted_links(2) [OF that]]
      by (simp add: lists_ok_def parts_ok_def links_ok_def prevs_ok_def booted_links(3,4,5) [OF that])
  qed
  then show ?thesis by (simp add: cache_lists_def)
qed

lemma lists_run_lists: "lists_run frame st \<Longrightarrow> frames_ok 13 frame \<Longrightarrow> \<exists>free held. cache_lists st free held"
proof (induction rule: lists_run.induct)
  case boot
  show ?case using booted_lists by blast
next
  case (populate st n p v r st')
  then obtain free held where L: "cache_lists st free held" by blast
  from populate_lists [OF lists_run_inv [OF populate.hyps(1)] _ populate.hyps(2) L populate.hyps(3,4)] populate.prems
  show ?case using L same_links_lists by (metis (no_types))
next
  case (tblLink st p key st')
  then obtain free held where L: "cache_lists st free held" by blast
  show ?case
  proof (cases key)
    case None
    with tblLink.hyps(4) L show ?thesis by (auto simp: addrCache_tblLink_def)
  next
    case (Some ji)
    obtain j i where ji: "key = Some (j, i)" using Some by (cases ji) simp
    with tblLink.hyps(3) have "j < 3" "on_list st j (nat p) i" by blast+
    from tblLink_lists [OF lists_run_inv [OF tblLink.hyps(1) tblLink.prems] L tblLink.hyps(2) this] tblLink.hyps(4) L ji
    show ?thesis by (auto split: if_splits)
  qed
next
  case (tblInit st p ct st')
  then show ?case using same_links_lists [OF tblInit_links] by blast
next
  case (tblClear st p st')
  then obtain free held where L: "cache_lists st free held" by blast
  have "good_ppid p" using tblClear.hyps(3) by (simp add: addrCache_tblClear_def Let_def split: if_splits)
  from tblClear_lists [OF lists_run_inv [OF tblClear.hyps(1) tblClear.prems] L this tblClear.hyps(2)] tblClear.hyps(3)
  show ?case by auto
next
  case (ioctl st k ct cmd rc st')
  then show ?case by (cases cmd) (auto dest: same_links_lists [OF invalidate_links])
next
  case (to_user st v src n key mem rc mem' st')
  from memcpy3_to_check [OF to_user.hyps(2)] copy_check_links [OF lists_run_inv [OF to_user.hyps(1) to_user.prems] to_user.prems]
  show ?case using to_user.IH [OF to_user.prems] same_links_lists by blast
next
  case (from_user st dst v n key mem rc mem' st')
  from memcpy3_from_check [OF from_user.hyps(2)] copy_check_links [OF lists_run_inv [OF from_user.hyps(1) from_user.prems] from_user.prems]
  show ?case using from_user.IH [OF from_user.prems] same_links_lists by blast
qed

section \<open>Round trip\<close>

lemma populate_link_lists:
  assumes inv: "cache_inv frame st" and fr: "frames_ok 13 frame" and p: "good_ppid p" and n: "n \<le> reg_max 1"
    and op: "addrCache_populate 13 frame v (int n) p st = Some ((0, Some key), st')" and L: "cache_lists st free held"
  shows "\<exists>st''. addrCache_tblLink (Some key) p st' = Some st'' \<and> cache_lists st'' free held"
proof -
  define j where "j = pick_cache (int n) st"
  have vn: "\<not> (v = 0 \<or> n = 0)" using op by (cases "v = 0 \<or> n = 0") (simp_all add: addrCache_populate_def)
  have n2: "n \<le> reg_max 2" using n by (simp add: reg_max_def ADDR_CACHE_TBL_SZ_def)
  have "ac_reg_sz (cs_cache st 1) = int (reg_max 1)" using inv by (simp add: cache_inv_def sub_ok_def reg_max_eq)
  then have j: "j < 3" "j \<noteq> 2" using n by (auto simp: j_def pick_cache_def)
  have q: "nat p < NUM_PTL_TASKS" using p by (auto simp: good_ppid_def)
  note ok = cache_listsD [OF L j(1)]
  obtain x fl where x: "free j = x # fl"
    using op vn by (cases "free j") (auto simp: addrCache_populate_def pick_table_redo [OF inv j ok p] simp flip: j_def)
  let ?st1 = "upd_cache j (take_redo (nat p) x) st"
  from op vn obtain b where key: "key = (j, x)" and fill: "fill_table 13 frame v (int n) j x ?st1 = Some (b, st')"
    by (auto simp: addrCache_populate_def pick_table_redo [OF inv j ok p] x simp flip: j_def split: if_splits)
  have n31: "n < 2 ^ 31" using n2 reg_max_small [of 2] by linarith
  have "same_links ?st1 st'" using vn n31 by (intro fill_table_links [OF fill _ _ _ fr]) simp_all
  with take_lists(1) [OF inv L q j(1) x j(2)] have
    L': "cache_lists st' (free(j := fl)) (held(j := (held j)(nat p := x # held j (nat p))))" by (simp add: same_links_lists)
  note ok' = cache_listsD [OF L' j(1)]
  have "on_list st' j (nat p) x"
    using lists_okD(4) [OF ok' q] unfolding on_list_def by (intro exI [of _ "x # held j (nat p)"]) simp
  moreover have "cache_inv frame st'" using populate_inv [OF inv fr n2 op] by simp
  ultimately have "\<exists>xs ys. x # held j (nat p) = xs @ x # ys \<and> (\<exists>st''. addrCache_tblLink (Some (j, x)) p st' = Some st'' \<and>
      cache_lists st'' (free(j := x # fl)) (held(j := (held j)(nat p := xs @ ys))))"
    using tblLink_lists [OF _ L' p j(1), of frame x] by (simp add: j(2))
  then obtain xs ys st'' where xs: "x # held j (nat p) = xs @ x # ys"
    and st'': "addrCache_tblLink (Some (j, x)) p st' = Some st''"
      "cache_lists st'' (free(j := x # fl)) (held(j := (held j)(nat p := xs @ ys)))" by blast
  have "distinct (xs @ x # ys)" using parts_okD(2) [OF lists_okD(1) [OF ok'] q] xs by simp
  then have "xs = []" using xs by (cases xs) auto
  then have "(held j)(nat p := xs @ ys) = held j" using xs by auto
  with st'' key x show ?thesis by (metis fun_upd_triv)
qed

lemma demo_present: "d < 8192 \<Longrightarrow> 0x40000 + of_nat d \<noteq> (0 :: 64 word)"
proof
  assume d: "d < 8192" "0x40000 + of_nat d = (0 :: 64 word)"
  then have "unat (of_nat (0x40000 + d) :: 64 word) = 0" by simp
  then show False using d(1) by (simp only: unat_of_nat) (simp add: take_bit_nat_eq_self)
qed

section \<open>Properties\<close>

text \<open>
  C32: in an orderly run every table of every subcache is on exactly one list, the free
  list or the list of one process, and the counter of free tables is the length of the free
  list.
\<close>

theorem tables_accounted:
  assumes "lists_run frame st" "frames_ok 13 frame" "j < NUM_SUBCACHES"
  shows "\<exists>fl held. chain (nexts (cs_cache st j)) (ac_addr_tbl (cs_cache st j)) fl \<and>
    (\<forall>p < NUM_PTL_TASKS. chain (nexts (cs_cache st j)) (ac_taskTbl (cs_cache st j) p) (held p)) \<and>
    mset fl + (\<Sum>p < NUM_PTL_TASKS. mset (held p)) = mset [0..<ac_num_reg (cs_cache st j)] \<and>
    ac_freeTables (cs_cache st j) = int (length fl)"
proof -
  obtain free held where L: "cache_lists st free held" using lists_run_lists [OF assms(1,2)] by blast
  have j: "j < 3" using assms(3) by (simp add: NUM_SUBCACHES_def)
  have "ac_num_reg (cs_cache st j) = ADDR_CACHE_NUM_REG j"
    using lists_run_inv [OF assms(1,2)] j by (simp add: cache_inv_def sub_ok_def)
  then show ?thesis using cache_listsD [OF L j] unfolding lists_ok_def links_ok_def parts_ok_def by metis
qed

theorem tables_accounted_witness:
  "\<exists>st' fl held. addrCache_populate 13 demo_frame 0x2000 16 5 (booted 13) = Some ((0, Some (0, 0)), st') \<and>
    chain (nexts (cs_cache st' 0)) (ac_addr_tbl (cs_cache st' 0)) fl \<and>
    mset fl + (\<Sum>p < NUM_PTL_TASKS. mset (held p)) = mset [0..<ac_num_reg (cs_cache st' 0)]"
proof -
  obtain st' where st': "addrCache_populate 13 demo_frame 0x2000 (int 16) 5 (booted 13) = Some ((0, Some (0, 0)), st')"
    using demo_populate by auto
  have "lists_run demo_frame st'"
    by (rule lists_run.populate [OF lists_run.boot _ _ st']) (simp_all add: reg_max_def ADDR_CACHE_TBL_SZ_def good_ppid_def task_sizes)
  from tables_accounted [OF this demo_frames_ok, of 0] st' show ?thesis by (auto simp: NUM_SUBCACHES_def)
qed

text \<open>
  C34: in an orderly run, and for a process whose ppid is an index of the lists, the
  validation of a small region at an address that is not null and whose pages are all present
  succeeds exactly when a table is free, and reports that there is none without changing the
  state otherwise.
\<close>

theorem populate_small_succeeds:
  assumes run: "lists_run frame st" and fr: "frames_ok 13 frame" and p: "good_ppid p" and v: "v \<noteq> 0"
    and n: "0 < n" "n \<le> reg_max 1" and present: "\<forall>k < n. calcPhysAddress 13 frame (v + of_nat k) \<noteq> 0"
  shows "if 0 < ac_freeTables (cs_cache st (pick_cache (int n) st))
    then \<exists>i st'. addrCache_populate 13 frame v (int n) p st = Some ((0, Some (pick_cache (int n) st, i)), st') \<and>
      region_ok 13 frame (cs_slot st') (tbl st' (pick_cache (int n) st) i) v n
    else addrCache_populate 13 frame v (int n) p st = Some ((-1, None), st)"
proof -
  define j where "j = pick_cache (int n) st"
  note inv = lists_run_inv [OF run fr]
  have "ac_reg_sz (cs_cache st 1) = int (reg_max 1)" using inv by (simp add: cache_inv_def sub_ok_def reg_max_eq)
  then have j: "j < 3" "j \<noteq> 2" using n by (auto simp: j_def pick_cache_def)
  show ?thesis
  proof (cases "0 < ac_freeTables (cs_cache st j)")
    case False
    then have "pick_table v (int n) p j st = Some (None, st)" using unlink_redo(1) [OF inv j p] by simp
    then show ?thesis using False v n by (simp add: addrCache_populate_def Let_def flip: j_def)
  next
    case True
    obtain free held where L: "cache_lists st free held" using lists_run_lists [OF run fr] by blast
    obtain x where x: "ac_addr_tbl (cs_cache st j) = Some x"
      using True lists_okD(2,3) [OF cache_listsD [OF L j(1)]] by (cases "free j") auto
    obtain st' where st': "addrCache_populate 13 frame v (int n) p st = Some ((0, Some (j, x)), st')"
      "region_ok 13 frame (cs_slot st') (tbl st' j x) v n"
      using populate_redo(2) [OF inv fr p v n, folded j_def, OF True x present] by blast
    with st' True show ?thesis by (auto simp flip: j_def)
  qed
qed

theorem populate_small_succeeds_witness:
  "\<exists>i st'. addrCache_populate 13 demo_frame 0x2000 16 5 (booted 13) = Some ((0, Some (0, i)), st') \<and>
    region_ok 13 demo_frame (cs_slot st') (tbl st' 0 i) 0x2000 16"
proof -
  have "\<forall>k < 16. calcPhysAddress 13 demo_frame (0x2000 + of_nat k) \<noteq> 0"
    using demo_phys demo_present by auto
  moreover have "pick_cache 16 (booted 13) = 0"
    by (simp add: pick_cache_def booted_cache cache_boot_def ADDR_CACHE_REG_SZ_def page_size_def)
  ultimately show ?thesis
    using populate_small_succeeds [OF lists_run.boot demo_frames_ok, where p = 5 and v = "0x2000" and n = 16] booted_links(5) [of 0]
    by (simp add: good_ppid_def task_sizes reg_max_def ADDR_CACHE_TBL_SZ_def ADDR_CACHE_NUM_REG_def)
qed

text \<open>
  C33: in an orderly run, and for a process whose ppid is an index of the lists, giving a
  small region back right after its validation succeeds and restores every list of the
  cache.
\<close>

theorem populate_link_round_trip:
  assumes run: "lists_run frame st" and fr: "frames_ok 13 frame" and p: "good_ppid p" and n: "n \<le> reg_max 1"
    and op: "addrCache_populate 13 frame v (int n) p st = Some ((0, Some key), st')"
  shows "\<exists>st''. addrCache_tblLink (Some key) p st' = Some st'' \<and>
    (\<forall>free held. cache_lists st free held \<longrightarrow> cache_lists st'' free held)"
proof -
  note rt = populate_link_lists [OF lists_run_inv [OF run fr] fr p n op]
  obtain free held where "cache_lists st free held" using lists_run_lists [OF run fr] by blast
  then obtain st'' where st'': "addrCache_tblLink (Some key) p st' = Some st''" using rt by blast
  moreover have "\<forall>free held. cache_lists st free held \<longrightarrow> cache_lists st'' free held" using rt st'' by fastforce
  ultimately show ?thesis by blast
qed

theorem populate_link_round_trip_witness:
  "\<exists>st' st''. addrCache_populate 13 demo_frame 0x2000 16 5 (booted 13) = Some ((0, Some (0, 0)), st') \<and>
    addrCache_tblLink (Some (0, 0)) 5 st' = Some st'' \<and> cache_lists st'' (\<lambda>j. [0..<ADDR_CACHE_NUM_REG j]) (\<lambda>j p. [])"
proof -
  obtain st' where st': "addrCache_populate 13 demo_frame 0x2000 (int 16) 5 (booted 13) = Some ((0, Some (0, 0)), st')"
    using demo_populate by auto
  from populate_link_round_trip [OF lists_run.boot demo_frames_ok _ _ st'] booted_lists st' show ?thesis
    by (auto simp: good_ppid_def task_sizes reg_max_def ADDR_CACHE_TBL_SZ_def)
qed

end
