(* ===== verification/K_CacheFaults.thy ===== *)
theory K_CacheFaults
  imports K_CacheOrderly
begin

text \<open>
  Two runs of the address cache that are not orderly: processes that are cleared with tables
  of failed validations on their lists, and regions that need more slots than a table has.
\<close>

section \<open>Links back that are not reset\<close>

lemma demo_missing: "calcPhysAddress 13 demo_frame 0x4000 = 0"
  by (simp add: calcPhysAddress_def demo_frame_def)

lemma demo_16: "\<forall>k < 16. calcPhysAddress 13 demo_frame (0x2000 + of_nat k) \<noteq> 0"
  using demo_phys demo_present by auto

text \<open>The links of a subcache.\<close>

definition links_of :: "cache_st \<Rightarrow> nat \<Rightarrow> (nat \<Rightarrow> nat option) \<times> (nat \<Rightarrow> nat option) \<times> nat option \<times> (nat \<Rightarrow> nat option) \<times> int" where
  "links_of st j = (nexts (cs_cache st j), prevs (cs_cache st j), ac_addr_tbl (cs_cache st j),
     ac_taskTbl (cs_cache st j), ac_freeTables (cs_cache st j))"

lemma same_links_of: "same_links st st' \<Longrightarrow> links_of st' j = links_of st j"
  by (simp add: same_links_def links_of_def)

lemma pick_16: "cache_inv frame st \<Longrightarrow> pick_cache 16 st = 0"
  by (auto simp: pick_cache_def cache_inv_def sub_ok_def reg_max_eq reg_max_def ADDR_CACHE_TBL_SZ_def)

text \<open>One validation of 16 bytes on the links of the first subcache.\<close>

lemma demo_validation:
  assumes inv: "cache_inv demo_frame st" and p: "good_ppid p"
    and l: "links_of st 0 = (nx, pv, Some x, tt, f)" "0 < f" "tt (nat p) \<noteq> Some x"
  defines "l' \<equiv> (nx(x := tt (nat p)), (case tt (nat p) of None \<Rightarrow> pv | Some y \<Rightarrow> pv(y := Some x)), nx x, tt(nat p := Some x), f - 1)"
  shows "\<exists>st'. addrCache_populate 13 demo_frame 0x4000 16 p st = Some ((-1, None), st') \<and> links_of st' 0 = l' \<and>
      cache_inv demo_frame st' \<and> (\<forall>j. j \<noteq> 0 \<longrightarrow> links_of st' j = links_of st j)"
    "\<exists>st'. addrCache_populate 13 demo_frame 0x2000 16 p st = Some ((0, Some (0, x)), st') \<and> links_of st' 0 = l' \<and>
      cache_inv demo_frame st'"
proof -
  let ?st1 = "upd_cache 0 (take_redo (nat p) x) st"
  have c: "nexts (cs_cache st 0) = nx" "prevs (cs_cache st 0) = pv" "ac_addr_tbl (cs_cache st 0) = Some x"
    "ac_taskTbl (cs_cache st 0) = tt" "ac_freeTables (cs_cache st 0) = f" using l(1) by (simp_all add: links_of_def)
  have "ac_taskTbl (cs_cache st 0) (nat p) \<noteq> Some x" using l(3) c(4) by simp
  note sel = take_redo_sel [OF this]
  have l': "links_of ?st1 0 = l'"
    unfolding links_of_def upd_cache_sel fun_upd_same sel l'_def c(1,2,4,5) using fun_cong [OF c(1), of x] by simp
  have others: "links_of ?st1 j = links_of st j" if "j \<noteq> 0" for j using that by (simp add: links_of_def)
  note j = pick_16 [OF inv]
  have n: "16 \<le> reg_max 1" by (simp add: reg_max_def ADDR_CACHE_TBL_SZ_def)
  have "(0 :: nat) < 16" by simp
  note pop = populate_redo [OF inv demo_frames_ok p _ this n, where x = x, unfolded of_nat_numeral j c(3,5), OF _ l(2) refl]
  have "(0x4000 :: 64 word) \<noteq> 0" "(0x2000 :: 64 word) \<noteq> 0" by simp_all
  from pop(1) [OF this(1) demo_missing] obtain st' where
    "addrCache_populate 13 demo_frame 0x4000 16 p st = Some ((-1, None), st')" "same_links ?st1 st'" "cache_inv demo_frame st'" by blast
  then show "\<exists>st'. addrCache_populate 13 demo_frame 0x4000 16 p st = Some ((-1, None), st') \<and> links_of st' 0 = l' \<and>
      cache_inv demo_frame st' \<and> (\<forall>j. j \<noteq> 0 \<longrightarrow> links_of st' j = links_of st j)"
    using same_links_of [of ?st1 st'] l' others by metis
  from pop(2) [OF \<open>0x2000 \<noteq> 0\<close> demo_16] obtain st' where
    "addrCache_populate 13 demo_frame 0x2000 16 p st = Some ((0, Some (0, x)), st')" "same_links ?st1 st'" "cache_inv demo_frame st'" by blast
  then show "\<exists>st'. addrCache_populate 13 demo_frame 0x2000 16 p st = Some ((0, Some (0, x)), st') \<and> links_of st' 0 = l' \<and>
      cache_inv demo_frame st'"
    using same_links_of [of ?st1 st'] l' by metis
qed

text \<open>Clearing a process with two tables in the first subcache.\<close>

lemma clear_two:
  assumes "at_next (ac_tbls c 1) = Some 0" "at_next (ac_tbls c 0) = None"
  shows "\<exists>c'. clear_loop (Some 1) c = Some c' \<and> nexts c' = (nexts c)(1 := ac_addr_tbl c, 0 := Some 1) \<and> prevs c' = prevs c \<and>
    ac_addr_tbl c' = Some 0 \<and> ac_taskTbl c' = ac_taskTbl c \<and> ac_freeTables c' = ac_freeTables c + 2"
  using assms by (simp add: clear_loop.simps fun_eq_iff)

lemma clear_cache_none:
  assumes "ac_taskTbl (cs_cache st j) p = None"
  shows "clear_cache p j st = Some st"
proof -
  have "(ac_taskTbl (cs_cache st j))(p := None) = ac_taskTbl (cs_cache st j)" using assms by (simp add: fun_upd_idem)
  then show ?thesis using assms by (simp add: clear_cache_def clear_loop.simps upd_cache_def)
qed

lemma demo_clear:
  assumes l: "links_of st 0 = (nx, pv, a, tt, f)" "tt 5 = Some 1" "nx 1 = Some 0" "nx 0 = None"
    and others: "ac_taskTbl (cs_cache st 1) 5 = None" "ac_taskTbl (cs_cache st 2) 5 = None"
  shows "\<exists>st'. addrCache_tblClear 5 st = Some st' \<and> links_of st' 0 = (nx(1 := a, 0 := Some 1), pv, Some 0, tt(5 := None), f + 2)"
proof -
  let ?c = "cs_cache st 0"
  have c: "nexts ?c = nx" "prevs ?c = pv" "ac_addr_tbl ?c = a" "ac_taskTbl ?c = tt" "ac_freeTables ?c = f"
    using l(1) by (simp_all add: links_of_def)
  have "at_next (ac_tbls ?c 1) = Some 0" "at_next (ac_tbls ?c 0) = None"
    using fun_cong [OF c(1), of 1] fun_cong [OF c(1), of 0] l(3,4) by simp_all
  from clear_two [OF this] obtain c' where c': "clear_loop (Some 1) ?c = Some c'" "nexts c' = nx(1 := a, 0 := Some 1)" "prevs c' = pv"
    "ac_addr_tbl c' = Some 0" "ac_taskTbl c' = tt" "ac_freeTables c' = f + 2" unfolding c by blast
  define st1 where "st1 = (if cs_rank st = 1 then st\<lparr>cs_sent := cs_sent st @ [cs_summary st]\<rparr> else st)\<lparr>cs_rank := -1\<rparr>"
  have st1: "cs_cache st1 = cs_cache st" by (simp add: st1_def)
  let ?st2 = "upd_cache 0 (\<lambda>_. c'\<lparr>ac_taskTbl := (ac_taskTbl c')(5 := None)\<rparr>) st1"
  have "clear_cache 5 0 st1 = Some ?st2" using c'(1) l(2) c(4) by (simp add: clear_cache_def st1)
  moreover have "clear_cache 5 1 ?st2 = Some ?st2" "clear_cache 5 2 ?st2 = Some ?st2"
    using others by (simp_all add: clear_cache_none st1)
  ultimately have "addrCache_tblClear 5 st = Some ?st2"
    unfolding addrCache_tblClear_def Let_def st1_def [symmetric] by (simp add: good_ppid_def task_sizes)
  moreover have "links_of ?st2 0 = (nx(1 := a, 0 := Some 1), pv, Some 0, tt(5 := None), f + 2)"
    using c'(2-) by (simp add: links_of_def)
  ultimately show ?thesis by blast
qed

text \<open>Giving back the first table of the first subcache, with a link back to the second.\<close>

lemma demo_link:
  assumes inv: "cache_inv frame st" and l: "links_of st 0 = (nx, pv, a, tt, f)" "nx 0 = None" "pv 0 = Some 1"
  shows "\<exists>st'. addrCache_tblLink (Some (0, 0)) p st = Some st' \<and>
    links_of st' 0 = (nx(1 := None, 0 := a), pv(0 := None), Some 0, tt, f + 1) \<and> cache_inv frame st'"
proof -
  let ?c = "cs_cache st 0"
  have c: "nexts ?c = nx" "prevs ?c = pv" "ac_addr_tbl ?c = a" "ac_taskTbl ?c = tt" "ac_freeTables ?c = f"
    using l(1) by (simp_all add: links_of_def)
  have n: "at_next (ac_tbls ?c 0) = None" "at_prev (ac_tbls ?c 0) = Some 1"
    using fun_cong [OF c(1), of 0] fun_cong [OF c(2), of 0] l(2,3) by simp_all
  have "at_next (ac_tbls ?c 0) \<noteq> Some 0" "at_prev (ac_tbls ?c 0) \<noteq> Some 0" using n by simp_all
  note sel = link_table_sel [OF this, of "nat p", unfolded n option.case c]
  have key: "key_table (0, 0) st = Some (0, 0)" using key_table_inv [OF inv, of "(0, 0)"] by (simp add: ADDR_CACHE_NUM_REG_def)
  have "ac_strategy ?c = TBL_REDO" using inv by (simp add: cache_inv_def sub_ok_def)
  with key n(2) have op: "addrCache_tblLink (Some (0, 0)) p st = Some (upd_cache 0 (link_table (nat p) 0) st)"
    by (simp add: addrCache_tblLink_def tbl_def)
  have "links_of (upd_cache 0 (link_table (nat p) 0) st) 0 = (nx(1 := None, 0 := a), pv(0 := None), Some 0, tt, f + 1)"
    unfolding links_of_def upd_cache_sel fun_upd_same sel by simp
  with op tblLink_inv [OF inv op] show ?thesis by blast
qed

lemma demo_cleared:
  assumes "nx = (\<lambda>i. if i + 1 < ADDR_CACHE_NUM_REG 0 then Some (i + 1) else None)"
  shows "\<exists>s1 s2 s3. addrCache_populate 13 demo_frame 0x4000 16 5 (booted 13) = Some ((-1, None), s1) \<and>
    addrCache_populate 13 demo_frame 0x4000 16 5 s1 = Some ((-1, None), s2) \<and> addrCache_tblClear 5 s2 = Some s3 \<and>
    links_of s3 0 = (nx(0 := Some 1, 1 := Some 2), (\<lambda>i. None)(0 := Some 1), Some 0, \<lambda>p. None, 4096) \<and> cache_inv demo_frame s3"
proof -
  have nx: "nx 0 = Some 1" "nx 1 = Some 2" by (simp_all add: assms ADDR_CACHE_NUM_REG_def)
  have ppid: "good_ppid 5" by (simp add: good_ppid_def task_sizes)
  have "links_of (booted 13) 0 = (nx, \<lambda>i. None, Some 0, \<lambda>p. None, 4096)"
    using booted_links [of 0] by (simp add: links_of_def assms ADDR_CACHE_NUM_REG_def)
  from demo_validation(1) [OF booted_inv ppid this] nx obtain s1 where
    s1: "addrCache_populate 13 demo_frame 0x4000 16 5 (booted 13) = Some ((-1, None), s1)" "cache_inv demo_frame s1"
    "links_of s1 0 = (nx(0 := None), \<lambda>i. None, Some 1, (\<lambda>p. None)(5 := Some 0), 4095)"
    "\<forall>j. j \<noteq> 0 \<longrightarrow> links_of s1 j = links_of (booted 13) j" by auto
  from demo_validation(1) [OF s1(2) ppid s1(3)] nx obtain s2 where
    s2: "addrCache_populate 13 demo_frame 0x4000 16 5 s1 = Some ((-1, None), s2)" "cache_inv demo_frame s2"
    "links_of s2 0 = (nx(0 := None, 1 := Some 0), (\<lambda>i. None)(0 := Some 1), Some 2, (\<lambda>p. None)(5 := Some 1), 4094)"
    "\<forall>j. j \<noteq> 0 \<longrightarrow> links_of s2 j = links_of s1 j" by auto
  have "ac_taskTbl (cs_cache s2 j) 5 = None" if "j \<noteq> 0" "j < 3" for j
    using s1(4) s2(4) booted_links(4) [OF that(2)] that(1) by (simp add: links_of_def)
  from this [of 1] this [of 2] obtain s3 where s3: "addrCache_tblClear 5 s2 = Some s3"
    "links_of s3 0 = (nx(0 := Some 1, 1 := Some 2), (\<lambda>i. None)(0 := Some 1), Some 0, \<lambda>p. None, 4096)"
    using demo_clear [OF s2(3)] by (auto simp: fun_upd_twist)
  with s1(1) s2(1) tblClear_inv [OF s2(2) s3(1)] show ?thesis by blast
qed

text \<open>
  C39: when a process exits with two tables of failed validations on its list, clearing
  it leaves a link back in a free table.  The next process that validates a region with this
  table and gives it back loses all free tables but two, although all are counted as free,
  and the third validation after that follows a null pointer.
\<close>

theorem stale_link_loses_tables:
  "\<exists>s1 s2 s3 s4 s5 s6 s7.
     addrCache_populate 13 demo_frame 0x4000 16 5 (booted 13) = Some ((-1, None), s1) \<and>
     addrCache_populate 13 demo_frame 0x4000 16 5 s1 = Some ((-1, None), s2) \<and>
     addrCache_tblClear 5 s2 = Some s3 \<and>
     addrCache_populate 13 demo_frame 0x2000 16 7 s3 = Some ((0, Some (0, 0)), s4) \<and>
     addrCache_tblLink (Some (0, 0)) 7 s4 = Some s5 \<and> ac_freeTables (cs_cache s5 0) = 4096 \<and>
     addrCache_populate 13 demo_frame 0x2000 16 8 s5 = Some ((0, Some (0, 0)), s6) \<and>
     addrCache_populate 13 demo_frame 0x2000 16 8 s6 = Some ((0, Some (0, 1)), s7) \<and>
     ac_freeTables (cs_cache s7 0) = 4094 \<and> addrCache_populate 13 demo_frame 0x2000 16 8 s7 = None"
proof -
  define nx where "nx = (\<lambda>i. if i + 1 < ADDR_CACHE_NUM_REG 0 then Some (i + 1) else None)"
  have ppid: "good_ppid 7" "good_ppid 8" by (simp_all add: good_ppid_def task_sizes)
  from demo_cleared [OF nx_def] obtain s1 s2 s3 where
    s1: "addrCache_populate 13 demo_frame 0x4000 16 5 (booted 13) = Some ((-1, None), s1)"
    and s2: "addrCache_populate 13 demo_frame 0x4000 16 5 s1 = Some ((-1, None), s2)"
    and s3: "addrCache_tblClear 5 s2 = Some s3" "cache_inv demo_frame s3"
      "links_of s3 0 = (nx(0 := Some 1, 1 := Some 2), (\<lambda>i. None)(0 := Some 1), Some 0, \<lambda>p. None, 4096)" by blast
  from demo_validation(2) [OF s3(2) ppid(1) s3(3)] obtain s4 where
    s4: "addrCache_populate 13 demo_frame 0x2000 16 7 s3 = Some ((0, Some (0, 0)), s4)" "cache_inv demo_frame s4"
    "links_of s4 0 = (nx(1 := Some 2, 0 := None), (\<lambda>i. None)(0 := Some 1), Some 1, (\<lambda>p. None)(7 := Some 0), 4095)"
    by (auto simp: fun_upd_twist)
  from demo_link [OF s4(2,3), of 7] obtain s5 where
    s5: "addrCache_tblLink (Some (0, 0)) 7 s4 = Some s5" "cache_inv demo_frame s5"
    "links_of s5 0 = (nx(1 := None, 0 := Some 1), \<lambda>i. None, Some 0, (\<lambda>p. None)(7 := Some 0), 4096)"
    by (auto simp: fun_upd_twist)
  from demo_validation(2) [OF s5(2) ppid(2) s5(3)] obtain s6 where
    s6: "addrCache_populate 13 demo_frame 0x2000 16 8 s5 = Some ((0, Some (0, 0)), s6)" "cache_inv demo_frame s6"
    "links_of s6 0 = (nx(1 := None, 0 := None), \<lambda>i. None, Some 1, (\<lambda>p. None)(7 := Some 0, 8 := Some 0), 4095)" by auto
  from demo_validation(2) [OF s6(2) ppid(2) s6(3)] obtain s7 where
    s7: "addrCache_populate 13 demo_frame 0x2000 16 8 s6 = Some ((0, Some (0, 1)), s7)" "cache_inv demo_frame s7"
    "ac_addr_tbl (cs_cache s7 0) = None" "ac_freeTables (cs_cache s7 0) = 4094" by (auto simp: links_of_def)
  have "pick_table 0x2000 16 8 0 s7 = None" using unlink_redo(2) [OF s7(2) _ _ ppid(2)] s7(3,4) by simp
  then have "addrCache_populate 13 demo_frame 0x2000 16 8 s7 = None"
    by (simp add: addrCache_populate_def pick_16 [OF s7(2)])
  moreover have "ac_freeTables (cs_cache s5 0) = 4096" using s5(3) by (simp add: links_of_def)
  ultimately show ?thesis using s1 s2 s3(1) s4(1) s5(1) s6(1) s7(1,4) by blast
qed

section \<open>Regions that are too large\<close>

lemma unlink_lookup:
  assumes inv: "cache_inv frame st" and p: "good_ppid p" and fresh: "ac_taskTbl (cs_cache st 2) (nat p) = None"
    and op: "pick_table v n p 2 st = Some (Some (i, b), st')"
  shows "\<not> b" "st' = count_validation p 2 (upd_cache 2 (take_lookup (nat p) i) st)"
proof -
  let ?c = "cs_cache st 2"
  have sub: "sub_ok frame (cs_slot st) 2 ?c" using inv by (simp add: cache_inv_def)
  have s: "ac_strategy ?c = TBL_LOOKUP" using sub by (simp add: sub_ok_def)
  from op obtain x where x: "ac_addr_tbl ?c = Some x" "i = at_table_id (ac_tbls ?c x)" "\<not> b"
    "st' = count_validation p 2 (upd_cache 2 (push_lookup (nat p) i) (upd_cache 2 (\<lambda>c. (upd_tbl x (\<lambda>t. t\<lparr>at_next := None\<rparr>)
       (c\<lparr>ac_addr_tbl := at_next (ac_tbls c x)\<rparr>))\<lparr>ac_freeTables := ac_freeTables c - 1\<rparr>) st))"
    by (auto simp: pick_table_def s fresh p search_loop.simps addrCache_tblUnlink_def Let_def split: if_splits option.splits)
  then have "x < ADDR_CACHE_NUM_REG 2" using sub_okD(1) [OF sub] by simp
  then have "i = x" using sub_okD(3) [OF sub] x(2) by (simp add: tbl_ok_def)
  with x show "\<not> b" "st' = count_validation p 2 (upd_cache 2 (take_lookup (nat p) i) st)"
    by (simp_all add: upd_cache_twice take_lookup_def [abs_def])
qed

lemma take_lookup_tbls:
  "at_slot (ac_tbls (take_lookup p x c) i) = at_slot (ac_tbls c i)" "i \<noteq> x \<Longrightarrow> ac_tbls (take_lookup p x c) i = ac_tbls c i"
  by (simp_all add: take_lookup_def push_lookup_def upd_tbl_def)

lemma lookup_picks:
  assumes inv: "cache_inv frame st" and p: "good_ppid p" and fresh: "ac_taskTbl (cs_cache st 2) (nat p) = None"
    and free: "0 < ac_freeTables (cs_cache st 2)" "ac_addr_tbl (cs_cache st 2) = Some i"
  shows "\<exists>st1. pick_table v n p 2 st = Some (Some (i, False), st1)"
proof -
  have sub: "sub_ok frame (cs_slot st) 2 (cs_cache st 2)" using inv by (simp add: cache_inv_def)
  have s: "ac_strategy (cs_cache st 2) = TBL_LOOKUP" using sub by (simp add: sub_ok_def)
  have "i < ADDR_CACHE_NUM_REG 2" using sub_okD(1) [OF sub] free(2) by simp
  then have "at_table_id (ac_tbls (cs_cache st 2) i) = i" using sub_okD(3) [OF sub] by (simp add: tbl_ok_def)
  then show ?thesis
    using free by (simp add: pick_table_def s fresh p search_loop.simps addrCache_tblUnlink_def)
qed

text \<open>
  C40: the validation of a region of more than 512 pages is not refused.  For a
  process whose ppid is an index of the lists and that has no large region yet, a region of
  more than 512 and at most 1023 pages that are all present is validated successfully when a
  table is free and the first free one is not the last of its subcache.  The translation of the
  513th page is then in the first slot of the next table, whose record stays as it was: this
  table now leads to memory of this process.
\<close>

theorem large_region_overwrites_next:
  assumes run: "cache_run frame st" and fr: "frames_ok 13 frame" and p: "good_ppid p"
    and fresh: "ac_taskTbl (cs_cache st 2) (nat p) = None"
    and n: "512 * 8192 < n" "n \<le> 1023 * 8192" and v: "v \<noteq> 0"
    and present: "\<forall>k < n. calcPhysAddress 13 frame (v + of_nat k) \<noteq> 0"
    and free: "0 < ac_freeTables (cs_cache st 2)" "ac_addr_tbl (cs_cache st 2) = Some i" and i: "Suc i < ADDR_CACHE_NUM_REG 2"
  shows "\<exists>st'. addrCache_populate 13 frame v (int n) p st = Some ((0, Some (2, i)), st') \<and>
    tbl st' 2 (Suc i) = tbl st 2 (Suc i) \<and>
    cs_slot st' (at_slot (tbl st 2 (Suc i))) = calcPhysAddress 13 frame (v + of_nat (first_len 13 v n + 511 * 8192))"
proof -
  note inv = cache_run_inv [OF run fr]
  have sz: "ac_reg_sz (cs_cache st j) = int (reg_max j)" if "j < 3" for j
    using inv that by (simp add: cache_inv_def sub_ok_def reg_max_eq)
  have j: "pick_cache (int n) st = 2"
    using n(1) sz [of 0] sz [of 1] by (simp add: pick_cache_def reg_max_def ADDR_CACHE_TBL_SZ_def)
  have n': "0 < n" "n < 2 ^ 31" using n by simp_all
  obtain st1 where pick: "pick_table v (int n) p 2 st = Some (Some (i, False), st1)"
    using lookup_picks [OF inv p fresh free] by blast
  note u = unlink_lookup(2) [OF inv p fresh pick]
  have st1: "tbl st1 2 (Suc i) = tbl st 2 (Suc i)" "at_slot (tbl st1 2 i) = at_slot (tbl st 2 i)"
    by (simp_all add: u tbl_def count_validation_def take_lookup_tbls)
  have slot: "at_slot (tbl st 2 k) = slot_of 2 k" if "k < ADDR_CACHE_NUM_REG 2" for k
    using inv that by (simp add: cache_inv_def sub_ok_def tbl_ok_def tbl_def)
  have "pages 13 (n - first_len 13 v n) \<le> 1023" using n(2) by (simp add: pages_def)
  then have fit: "at_slot (tbl st1 2 i) + 1 + pages 13 (n - first_len 13 v n) \<le> NUM_SLOTS"
    using i slot [of i] st1(2)
    by (simp add: slot_of_def slot_base_def numeral_2_eq_2 NUM_SLOTS_def ADDR_CACHE_NUM_REG_def ADDR_CACHE_TBL_SZ_def)
  then obtain st' where fill: "fill_table 13 frame v (int n) 2 i st1 = Some (True, st')"
    using fill_table_fits [OF n' fr fit present] by blast
  have op: "addrCache_populate 13 frame v (int n) p st = Some ((0, Some (2, i)), st')"
    using v n'(1) j pick fill by (simp add: addrCache_populate_def)
  from fill_table_shape [OF fill n' _ fr] have same: "tbl st' 2 (Suc i) = tbl st1 2 (Suc i)" "at_slot (tbl st' 2 i) = slot_of 2 i"
    using st1(2) slot [of i] i by (auto simp: tbl_def)
  have "region_ok 13 frame (cs_slot st') (tbl st' 2 i) v n" using fill_table_ok(1) [OF fill n' _ fr] by simp
  note reg = region_okD(3) [OF this, rule_format, of 511]
  have "first_len 13 v n \<le> 8192" by (simp add: first_len_def)
  then have "511 < pages 13 (n - first_len 13 v n)" using n(1) by (intro pages_gt) simp
  with reg have "slot_has (cs_slot st') (slot_of 2 i + 512) (calcPhysAddress 13 frame (v + of_nat (first_len 13 v n + 511 * 8192)))"
    by (simp add: same add.commute)
  moreover have "slot_of 2 (Suc i) = slot_of 2 i + 512" by (simp add: slot_of_def ADDR_CACHE_TBL_SZ_def)
  ultimately show ?thesis using slot [OF i] st1 same op by (simp add: slot_has_def)
qed

text \<open>A process all whose pages are in one frame.\<close>

definition flat_frame :: page_tables where
  "flat_frame p = Some 0x40000"

lemma flat_phys: "calcPhysAddress 13 flat_frame v \<noteq> 0"
proof -
  have "unat (page_off 13 v) < 2 ^ 13" by (simp add: page_off_unat)
  then have "0x40000 + of_nat (unat (page_off 13 v)) \<noteq> (0 :: 64 word)" by (intro demo_present) simp
  then show ?thesis by (simp add: calcPhysAddress_def flat_frame_def)
qed

theorem large_region_overwrites_next_witness:
  "\<exists>st'. addrCache_populate 13 flat_frame 0x2000 4194305 5 (booted 13) = Some ((0, Some (2, 0)), st') \<and>
    tbl st' 2 1 = tbl (booted 13) 2 1 \<and> cs_slot st' (at_slot (tbl (booted 13) 2 1)) = calcPhysAddress 13 flat_frame 0x402000"
proof -
  have fr: "frames_ok 13 flat_frame" by (simp add: frames_ok_def flat_frame_def demo_off)
  have p: "good_ppid 5" by (simp add: good_ppid_def task_sizes)
  have f: "first_len 13 0x2000 4194305 = 8192" by (simp add: first_len_def demo_off)
  have "ac_taskTbl (cs_cache (booted 13) 2) (nat 5) = None" using booted_links(4) [of 2] by simp
  from large_region_overwrites_next [OF cache_run.boot fr p this, of 4194305 "0x2000" 0] flat_phys f
    booted_links(3) [of 2] booted_links(5) [of 2] show ?thesis
    by (simp add: ADDR_CACHE_NUM_REG_def)
qed

end
