(* ===== verification/K_System.thy ===== *)
theory K_System
  imports K_TaskProps K_CacheFaults
begin

text \<open>
  The task table and the address cache together: the ppids that the one hands out are the
  indices of the other.
\<close>

lemma bad_ppid:
  assumes "\<not> good_ppid p"
  shows "addrCache_tblInit p ct st = None" "addrCache_tblClear p st = None"
    "v \<noteq> 0 \<Longrightarrow> n \<noteq> 0 \<Longrightarrow> 0 < ac_freeTables (cs_cache st (pick_cache n st)) \<Longrightarrow> addrCache_populate ps frame v n p st = None"
  using assms
  by (auto simp: addrCache_tblInit_def addrCache_tblClear_def addrCache_populate_def pick_table_def addrCache_tblUnlink_def
      Let_def bind_eq_None_conv split: addr_cache_strategy.split option.split)

text \<open>
  C38: the lists of the address cache have an element for every process of the task table
  but are indexed by ppid, which goes on to 1000.  There is a run in which 79 processes have
  registered, never more than two in the table at a time, and in which the 80th gets the ppid
  180; opening the interface for it, validating a region or closing it reads past the end of
  the array.
\<close>

theorem ppid_outside_cache:
  "\<exists>st st'. ct_reach st \<and> served 79 st \<and> sys_apcb (kern_of 2) (request 1) st = Some ((0, Some 180), st') \<and>
    ct_reach st' \<and> served 80 st' \<and> card (live st') \<le> 2 \<and> cTaskGetCurrentPPID (kern_of 2) st' = 180 \<and>
    addrCache_tblInit 180 st' (booted 13) = None \<and> addrCache_tblClear 180 (booted 13) = None \<and>
    addrCache_populate 13 demo_frame 0x2000 16 180 (booted 13) = None"
proof -
  obtain st where one: "one_task st" and run: "served 79 st" and g: "unat (Global_ppid st) = 179"
    using one_task_runs [of 78] by auto
  have g': "Global_ppid st = 179" using g by (simp add: word_unat_eq_iff)
  have reach: "ct_reach st" using one by (simp add: one_task_def)
  have free: "cTask_findFree st = int 102" "PPID_FLOATING \<le> 102" using one_task_free [OF one] by (simp_all add: task_sizes)
  define st' where "st' = set_entry 102 (\<lambda>_. entry_of 2 180 1) (st\<lparr>Global_ppid := 180\<rparr>)"
  have op: "ct_reach st'" "sys_apcb (kern_of 2) (request 1) st = Some ((0, Some 180), st')"
    using register_step [OF reach free, where p = 2 and n = 1] g' by (simp_all add: st'_def task_sizes)
  moreover have "served 80 st'" using served_two [OF one run op(2) [unfolded st'_def]] by (simp add: st'_def)
  moreover have "card (live st') \<le> 2" by (simp add: st'_def live_two(2) [OF one])
  moreover have "getSpidIndex 2 st' = int 102"
  proof (rule getSpidIndex_unique)
    show "\<forall>j. 1 \<le> j \<and> j \<le> NUM_PTL_TASKS \<and> j \<noteq> 102 \<longrightarrow> ti_spid (ct_taskInfo st' j) \<noteq> 2"
      using one_task_pids(1) [OF one] by (auto simp: st'_def kern_of_def)
  qed (simp_all add: task_sizes st'_def entry_of_def)
  then have "cTaskGetCurrentPPID (kern_of 2) st' = 180"
    by (simp add: cTaskGetCurrentPPID_def kern_of_def st'_def entry_of_def)
  moreover have "\<not> good_ppid 180" by (simp add: good_ppid_def task_sizes)
  moreover have "0 < ac_freeTables (cs_cache (booted 13) (pick_cache 16 (booted 13)))"
    using pick_16 [OF booted_inv] booted_links(5) [of 0] by (simp add: ADDR_CACHE_NUM_REG_def)
  ultimately show ?thesis using reach run bad_ppid [of 180] by (intro exI [of _ st] exI [of _ st']) simp
qed

end
