(* ===== verification/R_Types.thy ===== *)
theory R_Types
  imports P30_Types K_Cache
begin

text \<open>
  The data of the RTS/CTS module (\<open>Myrinet/rtscts\<close>), which carries Portals messages over
  the packets of the Myrinet card: packet types and headers (\<open>RTSCTS_protocol.h\<close>,
  \<open>RTSCTS_pkthdr.h\<close>), the contents of a packet page, and the sizes of the headers.  The
  configuration is that of \<open>Makefile-common\<close>: the module for the card with
  \<open>RTSCTS_ERROR_CORRECTION\<close> and \<open>EXTENDED_P3_RTSCTS\<close>, without the
  address cache, on the Alpha nodes.
\<close>

section \<open>Packets\<close>

text \<open>
  The type of a packet that arrives is any \<open>short\<close>: \<open>PKT_OTHER\<close> stands for the
  values that the enumeration does not have.
\<close>

datatype pkt_type_t =
    CTS | DATA | STOP_DATA | LAST_DATA | MSGEND | MSGDROP | PING | PINGA | PINGR | IP
  | ROUTE_STAT | ROUTE_ACK | P3_RTS | P3_LAST_RTS | ROUTE_REQ | ROUTE_REQ_REPLY | P3_RESEND
  | GCH | INFO_REQ | INFO_DATA | CACHE_REQ | CACHE_DATA | P3_PING_REQ | P3_PING_ACK
  | P3_NULL | P3_SYNC | PKT_OTHER int

datatype entry_event_t =
    E_CREATE | E_SENT_LAST_DATA | E_SENT_STOP_DATA | E_SENT_DATA | E_SENT_CTS | E_RCVD_CTS
  | E_RCVD_DATA | E_RCVD_STOP_DATA | E_RCVD_LAST_DATA | E_SENT_P3_RTS | E_SENT_P3_LAST_RTS
  | E_RCVD_P3_RTS | E_RCVD_P3_LAST_RTS | E_SENT_P3_PING_REQ | E_RCVD_P3_PING_REQ
  | E_SENT_P3_PING_ACK | E_RCVD_P3_PING_ACK | E_SENT_P3_NULL | E_SENT_P3_SYNC
  | E_RCVD_P3_NULL | E_RCVD_P3_SYNC | E_SENT_MSGDROP | E_SENT_MSGEND | E_INVALID

text \<open>
  The header of a packet.  The version, the lengths \<open>len1\<close> and \<open>len2\<close>, and the
  second and third copies of the type, the source and the message id, which only the receive
  interrupt compares, are left out.
\<close>

record pkthdr_t =
  ph_type :: pkt_type_t
  ph_src_nid :: "16 word"
  ph_msgID :: "32 word"
  ph_len :: int
  ph_seq :: "32 word"
  ph_info :: "32 word"
  ph_info2 :: "32 word"
  ph_msgNum :: "32 word"

text \<open>
  What a page holds: the packet header, the Portals header when the packet has one, and the
  data behind them.
\<close>

record page_t =
  pg_hdr :: pkthdr_t
  pg_phdr :: "ptl_hdr option"
  pg_data :: "nat \<Rightarrow> 8 word"

text \<open>A packet on the network.\<close>

record packet =
  pk_dest :: int
  pk_hdr :: pkthdr_t
  pk_phdr :: "ptl_hdr option"
  pk_data :: "8 word list"

section \<open>Constants\<close>

definition sizeof_pkthdr :: nat where [ptl_const]: "sizeof_pkthdr = 56"
definition sizeof_ptl_hdr :: nat where [ptl_const]: "sizeof_ptl_hdr = 64"
definition PAGE_SHIFT :: nat where [ptl_const]: "PAGE_SHIFT = 13"
definition MYRPKT_MTU :: nat where [ptl_const]: "MYRPKT_MTU = 2 ^ PAGE_SHIFT - 32"
definition MAX_SND_PKT_ENTRIES :: nat where [ptl_const]: "MAX_SND_PKT_ENTRIES = 2048"
definition MAX_RCV_PKT_ENTRIES :: int where [ptl_const]: "MAX_RCV_PKT_ENTRIES = 2048"
definition MAX_NUM_ROUTES :: nat where [ptl_const]: "MAX_NUM_ROUTES = 2048"
definition TEST_ROUTE_ID :: int where [ptl_const]: "TEST_ROUTE_ID = 54321"
definition OTHER_NODES :: int where [ptl_const]: "OTHER_NODES = 512"
definition MAX_DATA_PKTS :: int where [ptl_const]: "MAX_DATA_PKTS = 16"

text \<open>The bytes of the headers in front of the data of a page.\<close>

definition headers_of :: "ptl_hdr option \<Rightarrow> nat" where
  "headers_of phdr = (case phdr of None \<Rightarrow> sizeof_pkthdr | Some _ \<Rightarrow> sizeof_pkthdr + sizeof_ptl_hdr)"

text \<open>What the card sends of a page: \<open>len\<close> bytes of it.\<close>

definition packet_of :: "int \<Rightarrow> int \<Rightarrow> page_t \<Rightarrow> packet" where
  "packet_of dest len pg =
     \<lparr>pk_dest = dest, pk_hdr = pg_hdr pg, pk_phdr = pg_phdr pg,
      pk_data = map (pg_data pg) [0..<nat len - headers_of (pg_phdr pg)]\<rparr>"

end
