(* ===== verification/R_Pages.thy ===== *)
theory R_Pages
  imports R_Types
begin

text \<open>
  The send pages of the module (\<open>Pkt_send.c\<close>) and the send side of the card's control
  program (\<open>snd_statem\<close> of \<open>MCP/Pkt_statem.c\<close>).  The host takes a page with
  \<open>get_snd_page\<close>, fills it, and submits it with \<open>myrPkt_xmit\<close> in the next slot of a
  ring that it shares with the card; the card takes the slots in order, reads the page by DMA
  and clears the slot.  The two run concurrently.
\<close>

section \<open>State\<close>

datatype pg_status_t = pg_avail | pg_checked_out | pg_sending | pg_empty

record snd_page_t =
  sp_page :: "64 word"
  sp_stat :: pg_status_t
  sp_slot :: int

text \<open>A slot of the ring.  The card's memory holds these in network order.\<close>

record snd_slot_t =
  sl_phys_addr :: "32 word"
  sl_len :: int
  sl_dest :: int
  sl_page_idx :: int

datatype snd_states_t = S0 | S1 | S2

text \<open>
  The static variables of the host, the ring, the contents of the frames by their bus
  address, the static variables of the card (\<open>snd_buf\<close> is the packet when its DMA is
  complete), and the packets that have left the card, oldest first.
\<close>

record snd_st =
  snd_page_list :: "nat \<Rightarrow> snd_page_t"
  last_pkt :: nat
  next_avail :: nat
  rdy_to_snd :: bool
  my_pnid :: int
  snd_pkt_list :: "nat \<Rightarrow> snd_slot_t"
  frames :: "32 word \<Rightarrow> page_t"
  SndState :: snd_states_t
  last_snd_pkt :: nat
  cur_len :: int
  cur_dest :: int
  hst_addr :: "32 word"
  snd_buf :: "page_t option"
  wire :: "packet list"

definition upd_page :: "nat \<Rightarrow> (snd_page_t \<Rightarrow> snd_page_t) \<Rightarrow> snd_st \<Rightarrow> snd_st" where
  "upd_page i f st = st\<lparr>snd_page_list := (snd_page_list st)(i := f (snd_page_list st i))\<rparr>"

definition upd_slot :: "nat \<Rightarrow> (snd_slot_t \<Rightarrow> snd_slot_t) \<Rightarrow> snd_st \<Rightarrow> snd_st" where
  "upd_slot i f st = st\<lparr>snd_pkt_list := (snd_pkt_list st)(i := f (snd_pkt_list st i))\<rparr>"

definition set_stat :: "nat \<Rightarrow> pg_status_t \<Rightarrow> snd_st \<Rightarrow> snd_st" where
  "set_stat i s = upd_page i (\<lambda>p. p\<lparr>sp_stat := s\<rparr>)"

definition in_ring :: "int \<Rightarrow> bool" where
  "in_ring i \<longleftrightarrow> 0 \<le> i \<and> i < int MAX_SND_PKT_ENTRIES"

section \<open>The host\<close>

text \<open>
  \<open>get_free_page\<close> is the kernel's: the address it gives for the i-th request, zero when
  there is none.  \<open>pkt_free_snd_pages\<close> is called with the card's memory mapped.
\<close>

definition pkt_free_snd_pages :: "snd_st \<Rightarrow> snd_st" where
  "pkt_free_snd_pages st =
     fold (\<lambda>i st.
         (let st1 = upd_slot i (\<lambda>_. \<lparr>sl_phys_addr = 0, sl_len = 0, sl_dest = 0, sl_page_idx = -1\<rparr>) st
          in if sp_page (snd_page_list st1 i) \<noteq> 0
             then upd_page i (\<lambda>_. \<lparr>sp_page = 0, sp_stat = pg_empty, sp_slot = -1\<rparr>) st1 else st1))
       [0..<MAX_SND_PKT_ENTRIES] st"

fun init_send_loop :: "(nat \<Rightarrow> 64 word) \<Rightarrow> nat list \<Rightarrow> snd_st \<Rightarrow> bool \<times> snd_st" where
  "init_send_loop get_free_page [] st = (True, st)"
| "init_send_loop get_free_page (i # is) st =
     (let st1 = (if sp_page (snd_page_list st i) \<noteq> 0 then st
                 else upd_page i (\<lambda>p. p\<lparr>sp_page := get_free_page i\<rparr>) st)
      in if sp_page (snd_page_list st1 i) = 0 then (False, pkt_free_snd_pages st1)
         else init_send_loop get_free_page is
           (upd_page i (\<lambda>p. p\<lparr>sp_stat := pg_avail, sp_slot := -1\<rparr>) st1))"

definition pkt_init_send :: "(nat \<Rightarrow> 64 word) \<Rightarrow> snd_st \<Rightarrow> int \<times> snd_st" where
  "pkt_init_send get_free_page st =
     (case init_send_loop get_free_page [0..<MAX_SND_PKT_ENTRIES] st of
        (False, st1) \<Rightarrow> (-1, st1)
      | (True, st1) \<Rightarrow> (0, st1\<lparr>last_pkt := 0, next_avail := 0\<rparr>))"

definition page_addr :: "int \<Rightarrow> snd_st \<Rightarrow> 64 word" where
  "page_addr page_idx st =
     (if in_ring page_idx
      then if sp_stat (snd_page_list st (nat page_idx)) \<noteq> pg_checked_out then 0
           else sp_page (snd_page_list st (nat page_idx))
      else 0)"

definition take_next :: "snd_st \<Rightarrow> int \<times> snd_st" where
  "take_next st =
     (int (next_avail st),
      (set_stat (next_avail st) pg_checked_out st)
        \<lparr>next_avail := (next_avail st + 1) mod MAX_SND_PKT_ENTRIES\<rparr>)"

text \<open>The last branch is the one the code calls an internal usage error.\<close>

definition get_snd_page :: "snd_st \<Rightarrow> (int \<times> snd_st) option" where
  "get_snd_page st =
     (let p = snd_page_list st (next_avail st)
      in if sp_stat p = pg_avail then Some (take_next st)
         else if sp_stat p = pg_sending then
           (if \<not> in_ring (sp_slot p) then None
            else
              (let slot = nat (sp_slot p); s = snd_pkt_list st slot
               in if sl_phys_addr s = 0
                  then if sl_page_idx s \<noteq> int (next_avail st) then Some (-1, st)
                       else Some (take_next (upd_slot slot (\<lambda>s. s\<lparr>sl_page_idx := -1\<rparr>) st))
                  else Some (-1, st)))
         else Some (take_next st))"

definition free_snd_page :: "int \<Rightarrow> snd_st \<Rightarrow> snd_st" where
  "free_snd_page index st = (if in_ring index then set_stat (nat index) pg_avail st else st)"

text \<open>\<open>virt_to_bus\<close> is the kernel's.\<close>

definition pkt_send :: "(64 word \<Rightarrow> 32 word) \<Rightarrow> int \<Rightarrow> 64 word \<Rightarrow> int \<Rightarrow> nat \<Rightarrow> snd_st \<Rightarrow> snd_st" where
  "pkt_send virt_to_bus dest buf len page_idx st =
     (let slot = last_pkt st;
          st1 = upd_slot slot (\<lambda>_. \<lparr>sl_phys_addr = virt_to_bus buf, sl_len = len, sl_dest = dest,
                  sl_page_idx = int page_idx\<rparr>) st
      in (upd_page page_idx (\<lambda>p. p\<lparr>sp_slot := int slot\<rparr>) st1)
           \<lparr>last_pkt := (slot + 1) mod MAX_SND_PKT_ENTRIES\<rparr>)"

definition write_page :: "(64 word \<Rightarrow> 32 word) \<Rightarrow> nat \<Rightarrow> (page_t \<Rightarrow> page_t) \<Rightarrow> snd_st \<Rightarrow> snd_st" where
  "write_page virt_to_bus i f st =
     (let b = virt_to_bus (sp_page (snd_page_list st i))
      in st\<lparr>frames := (frames st)(b := f (frames st b))\<rparr>)"

text \<open>The tests after the slot is known to be free, on a page whose header is complete.\<close>

definition xmit_submit ::
  "(64 word \<Rightarrow> 32 word) \<Rightarrow> 16 word \<Rightarrow> nat \<Rightarrow> int \<Rightarrow> snd_st \<Rightarrow> int \<times> snd_st" where
  "xmit_submit virt_to_bus dst_nid i len st =
     (if len \<le> 0 \<or> len > int MYRPKT_MTU \<or> uint dst_nid > int MAX_NODES \<and> uint dst_nid \<noteq> TEST_ROUTE_ID
      then (-1, set_stat i pg_avail st)
      else (0, set_stat i pg_sending
                 (pkt_send virt_to_bus (uint dst_nid) (sp_page (snd_page_list st i)) len i st)))"

text \<open>
  The code writes to the element \<open>page_idx\<close>, or through the address of its page, before it
  compares the index with the size of the array.
\<close>

definition myrPkt_xmit ::
  "(64 word \<Rightarrow> 32 word) \<Rightarrow> 16 word \<Rightarrow> int \<Rightarrow> int \<Rightarrow> snd_st \<Rightarrow> (int \<times> snd_st) option" where
  "myrPkt_xmit virt_to_bus dst_nid page_idx len st =
     (let i = nat page_idx; slot = snd_pkt_list st (last_pkt st)
      in if \<not> in_ring page_idx then None
         else if \<not> rdy_to_snd st then Some (-1, set_stat i pg_avail st)
         else if sl_phys_addr slot \<noteq> 0 then Some (-1, set_stat i pg_avail st)
         else if page_addr page_idx st = 0 then None
         else
           (let st1 = write_page virt_to_bus i (\<lambda>pg. pg\<lparr>pg_hdr := (pg_hdr pg)
                        \<lparr>ph_len := len, ph_src_nid := of_int (my_pnid st)\<rparr>\<rparr>) st;
                idx = sl_page_idx slot
            in if idx = -1 then Some (xmit_submit virt_to_bus dst_nid i len st1)
               else if \<not> in_ring idx then None
               else if sp_stat (snd_page_list st1 (nat idx)) \<noteq> pg_sending
               then Some (-1, set_stat i pg_avail st1)
               else Some (xmit_submit virt_to_bus dst_nid i len
                 (upd_slot (last_pkt st) (\<lambda>s. s\<lparr>sl_page_idx := -1\<rparr>)
                   (set_stat (nat idx) pg_avail st1)))))"

section \<open>The card\<close>

text \<open>
  One call of \<open>snd_statem\<close>.  What the card reads of its registers is the input: the bus is
  available, the network interface can start a message (\<open>SEND_RDY_BIT\<close>), and it has taken
  the message (\<open>SEND_INT_BIT\<close>).  Each state falls through to the next.
\<close>

definition snd_S2 :: "bool \<Rightarrow> snd_st \<Rightarrow> snd_st" where
  "snd_S2 send_int st =
     (case snd_buf st of
        Some pg \<Rightarrow>
          (if send_int
           then (upd_slot (last_snd_pkt st) (\<lambda>s. s\<lparr>sl_phys_addr := 0\<rparr>) st)
                  \<lparr>wire := wire st @ [packet_of (cur_dest st) (cur_len st) pg],
                   last_snd_pkt := (last_snd_pkt st + 1) mod MAX_SND_PKT_ENTRIES,
                   SndState := S0\<rparr>
           else st)
      | None \<Rightarrow> st)"

definition snd_S1 :: "bool \<Rightarrow> bool \<Rightarrow> snd_st \<Rightarrow> snd_st" where
  "snd_S1 send_rdy send_int st = (if send_rdy then snd_S2 send_int (st\<lparr>SndState := S2\<rparr>) else st)"

definition snd_S0 :: "bool \<Rightarrow> bool \<Rightarrow> bool \<Rightarrow> snd_st \<Rightarrow> snd_st" where
  "snd_S0 bus_avail send_rdy send_int st =
     (let s = snd_pkt_list st (last_snd_pkt st)
      in if bus_avail \<and> sl_phys_addr s \<noteq> 0
         then snd_S1 send_rdy send_int
           (st\<lparr>cur_len := sl_len s, hst_addr := sl_phys_addr s, cur_dest := sl_dest s,
               snd_buf := None, SndState := S1\<rparr>)
         else st)"

definition snd_statem :: "bool \<Rightarrow> bool \<Rightarrow> bool \<Rightarrow> snd_st \<Rightarrow> snd_st" where
  "snd_statem bus_avail send_rdy send_int st =
     (case SndState st of
        S0 \<Rightarrow> snd_S0 bus_avail send_rdy send_int st
      | S1 \<Rightarrow> snd_S1 send_rdy send_int st
      | S2 \<Rightarrow> snd_S2 send_int st)"

text \<open>
  The DMA of the page that \<open>e2l_dma_start\<close> began completes: the card holds what the frame
  holds at this moment.
\<close>

definition e2l_dma_done :: "snd_st \<Rightarrow> snd_st" where
  "e2l_dma_done st =
     (if SndState st \<noteq> S0 \<and> snd_buf st = None then st\<lparr>snd_buf := Some (frames st (hst_addr st))\<rparr> else st)"

end
