(* ===== verification/R_Queue.thy ===== *)
theory R_Queue
  imports R_Types
begin

text \<open>
  The message queues of the module (\<open>queue.c\<close>): three singly linked lists of entries from
  \<open>kmalloc\<close>, with a head and a tail pointer each.  A pointer is the address of an entry or
  null; an access through a null pointer or to an entry that is not allocated is \<open>None\<close>.
  The functions run with interrupts off.  The counters of \<open>rtscts_stat\<close> are left out,
  except \<open>outstanding_pkts\<close>, which the code reads.
\<close>

section \<open>State\<close>

datatype Q_t = Qsnd_pending | Qsending | Qreceiving

record Qentry_t =
  q_phdr :: ptl_hdr
  q_pktlen :: int
  q_buf :: "64 word"
  q_msgID :: "32 word"
  q_msgNum :: "32 word"
  q_len :: "32 word"
  q_datasent :: "32 word"
  q_seq :: "32 word"
  q_src_nid :: "16 word"
  q_dst_nid :: "16 word"
  q_event :: entry_event_t
  q_idle :: "64 word"
  q_nal :: "nat option"
  q_cookie :: "nat option"
  q_task :: "nat option"
  q_next :: "nat option"
  q_granted_pkts :: int
  q_lib_finalize_called :: bool
  q_retries :: int
  q_p3msg_retries :: int

type_synonym qheap = "nat \<Rightarrow> Qentry_t option"

record queues =
  Qhead :: "Q_t \<Rightarrow> nat option"
  Qtail :: "Q_t \<Rightarrow> nat option"
  qheap :: qheap
  jiffies :: "64 word"
  outstanding_pkts :: int

text \<open>
  \<open>kmalloc\<close> is the kernel's: the address and the old contents of a block that is not in
  use, or none.
\<close>

type_synonym kmalloc = "qheap \<Rightarrow> (nat \<times> Qentry_t) option"

definition BOOTMSGNUM :: "32 word" where [ptl_const]: "BOOTMSGNUM = 0"
definition ILLMSGNUM :: "32 word" where [ptl_const]: "ILLMSGNUM = 1"

text \<open>An assignment to a field of an entry.\<close>

definition upd_entry :: "nat \<Rightarrow> (Qentry_t \<Rightarrow> Qentry_t) \<Rightarrow> 'a queues_scheme \<Rightarrow> 'a queues_scheme option" where
  "upd_entry a f st = map_option (\<lambda>e. st\<lparr>qheap := (qheap st)(a \<mapsto> f e)\<rparr>) (qheap st a)"

definition set_head :: "Q_t \<Rightarrow> nat option \<Rightarrow> 'a queues_scheme \<Rightarrow> 'a queues_scheme" where
  "set_head Q p st = st\<lparr>Qhead := (Qhead st)(Q := p)\<rparr>"

definition set_tail :: "Q_t \<Rightarrow> nat option \<Rightarrow> 'a queues_scheme \<Rightarrow> 'a queues_scheme" where
  "set_tail Q p st = st\<lparr>Qtail := (Qtail st)(Q := p)\<rparr>"

section \<open>Adding and removing\<close>

text \<open>The links of \<open>enqueue\<close> and \<open>enqueue_entry\<close>.\<close>

definition link_tail :: "Q_t \<Rightarrow> nat \<Rightarrow> 'a queues_scheme \<Rightarrow> 'a queues_scheme option" where
  "link_tail Q a st =
     do {
       let st1 = (if Qhead st Q = None then set_head Q (Some a) st else st);
       st2 \<leftarrow> (case Qtail st1 Q of
                 None \<Rightarrow> Some st1
               | Some t \<Rightarrow> upd_entry t (\<lambda>e. e\<lparr>q_next := Some a\<rparr>) st1);
       Some (set_tail Q (Some a) st2)
     }"

definition new_entry :: "32 word \<Rightarrow> 64 word \<Rightarrow> Qentry_t \<Rightarrow> Qentry_t" where
  "new_entry msgID now junk =
     junk\<lparr>q_msgID := msgID, q_msgNum := ILLMSGNUM, q_next := None, q_event := E_CREATE,
          q_granted_pkts := 0, q_lib_finalize_called := False, q_idle := now, q_retries := 0,
          q_p3msg_retries := 0, q_task := None\<rparr>"

definition enqueue ::
  "kmalloc \<Rightarrow> Q_t \<Rightarrow> 32 word \<Rightarrow> 'a queues_scheme \<Rightarrow> (nat option \<times> 'a queues_scheme) option" where
  "enqueue km Q msgID st =
     (case km (qheap st) of
        None \<Rightarrow> Some (None, st)
      | Some (a, junk) \<Rightarrow>
          do {
            st1 \<leftarrow> link_tail Q a (st\<lparr>qheap := (qheap st)(a \<mapsto> new_entry msgID (jiffies st) junk)\<rparr>);
            Some (Some a, st1)
          })"

definition free_entry :: "nat option \<Rightarrow> 'a queues_scheme \<Rightarrow> 'a queues_scheme option" where
  "free_entry entry st =
     do {
       a \<leftarrow> entry;
       e \<leftarrow> qheap st a;
       Some (st\<lparr>outstanding_pkts := outstanding_pkts st - q_granted_pkts e,
                qheap := (qheap st)(a := None)\<rparr>)
     }"

definition enqueue_entry :: "Q_t \<Rightarrow> nat \<Rightarrow> 'a queues_scheme \<Rightarrow> 'a queues_scheme option" where
  "enqueue_entry Q a st =
     do { st1 \<leftarrow> link_tail Q a st; upd_entry a (\<lambda>e. e\<lparr>q_next := None\<rparr>) st1 }"

text \<open>The loop of \<open>dequeue\<close>: the entry it stops at and the one before it.\<close>

partial_function (option) dequeue_loop ::
  "qheap \<Rightarrow> 32 word \<Rightarrow> nat option \<Rightarrow> nat option \<Rightarrow> (nat option \<times> nat option) option" where
  "dequeue_loop h msgID prev entry =
     (case entry of
        None \<Rightarrow> Some (prev, None)
      | Some a \<Rightarrow>
          Option.bind (h a) (\<lambda>e.
               (if q_msgID e = msgID then Some (prev, Some a)
                else dequeue_loop h msgID entry (q_next e))))"

text \<open>The assignments after the loop, which are also those of \<open>clean_queue\<close>.\<close>

definition unlink_entry :: "Q_t \<Rightarrow> nat option \<Rightarrow> nat \<Rightarrow> 'a queues_scheme \<Rightarrow> 'a queues_scheme option" where
  "unlink_entry Q prev a st =
     do {
       e \<leftarrow> qheap st a;
       st1 \<leftarrow> (case prev of
                 None \<Rightarrow> Some st
               | Some p \<Rightarrow> upd_entry p (\<lambda>x. x\<lparr>q_next := q_next e\<rparr>) st);
       let st2 = (if Some a = Qtail st1 Q then set_tail Q prev st1 else st1);
       let st3 = (if Some a = Qhead st2 Q then set_head Q (q_next e) st2 else st2);
       upd_entry a (\<lambda>x. x\<lparr>q_next := None\<rparr>) st3
     }"

definition dequeue ::
  "Q_t \<Rightarrow> 32 word \<Rightarrow> 'a queues_scheme \<Rightarrow> (nat option \<times> 'a queues_scheme) option" where
  "dequeue Q msgID st =
     do {
       (prev, entry) \<leftarrow> dequeue_loop (qheap st) msgID None (Qhead st Q);
       (case entry of
          None \<Rightarrow> Some (None, if Qtail st Q = None then set_tail Q prev st else st)
        | Some a \<Rightarrow> do { st1 \<leftarrow> unlink_entry Q prev a st; Some (Some a, st1) })
     }"

definition dequeue_first :: "Q_t \<Rightarrow> 'a queues_scheme \<Rightarrow> (nat option \<times> 'a queues_scheme) option" where
  "dequeue_first Q st =
     do {
       let entry = Qhead st Q;
       st1 \<leftarrow> (case entry of
                 None \<Rightarrow> Some st
               | Some a \<Rightarrow>
                   do { e \<leftarrow> qheap st a;
                        upd_entry a (\<lambda>x. x\<lparr>q_next := None\<rparr>) (set_head Q (q_next e) st) });
       Some (entry, if entry = Qtail st1 Q then set_tail Q None st1 else st1)
     }"

partial_function (option) find_loop :: "qheap \<Rightarrow> 32 word \<Rightarrow> nat option \<Rightarrow> nat option option" where
  "find_loop h msgID entry =
     (case entry of
        None \<Rightarrow> Some None
      | Some a \<Rightarrow>
          Option.bind (h a) (\<lambda>e. (if q_msgID e = msgID then Some (Some a) else find_loop h msgID (q_next e))))"

definition find_queue :: "Q_t \<Rightarrow> 32 word \<Rightarrow> 'a queues_scheme \<Rightarrow> nat option option" where
  "find_queue Q msgID st = find_loop (qheap st) msgID (Qhead st Q)"

section \<open>The entries of a process\<close>

text \<open>
  \<open>clean_queue\<close> on \<open>Qsnd_pending\<close> turns the messages of the process into
  \<open>P3_NULL\<close> packets; on the other queues it removes them.
\<close>

definition clean_event :: "entry_event_t \<Rightarrow> bool" where
  "clean_event ev \<longleftrightarrow>
     ev = E_SENT_P3_RTS \<or> ev = E_SENT_P3_LAST_RTS \<or> ev = E_SENT_P3_PING_REQ \<or> ev = E_SENT_P3_PING_ACK"

definition clean_entry :: "nat option \<Rightarrow> Qentry_t \<Rightarrow> Qentry_t" where
  "clean_entry task e =
     (if q_task e = task \<and> clean_event (q_event e)
      then e\<lparr>q_event := E_SENT_P3_NULL, q_nal := None, q_task := None\<rparr> else e)"

partial_function (option) clean_pending_loop ::
  "nat option \<Rightarrow> nat option \<Rightarrow> 'a queues_scheme \<Rightarrow> 'a queues_scheme option" where
  "clean_pending_loop task entry st =
     (case entry of
        None \<Rightarrow> Some st
      | Some a \<Rightarrow>
          Option.bind (qheap st a) (\<lambda>e.
               Option.bind (upd_entry a (clean_entry task) st) (clean_pending_loop task (q_next e))))"

partial_function (option) clean_loop ::
  "Q_t \<Rightarrow> nat option \<Rightarrow> nat option \<Rightarrow> nat option \<Rightarrow> 'a queues_scheme \<Rightarrow> 'a queues_scheme option" where
  "clean_loop Q task prev entry st =
     (case entry of
        None \<Rightarrow> Some st
      | Some a \<Rightarrow>
          Option.bind (qheap st a) (\<lambda>e.
               (if q_task e = task
                then Option.bind (Option.bind (unlink_entry Q prev a st) (free_entry (Some a)))
                  (clean_loop Q task prev (q_next e))
                else clean_loop Q task entry (q_next e) st)))"

definition clean_queue :: "Q_t \<Rightarrow> nat option \<Rightarrow> 'a queues_scheme \<Rightarrow> 'a queues_scheme option" where
  "clean_queue Q task st =
     (if Q = Qsnd_pending then clean_pending_loop task (Qhead st Q) st
      else clean_loop Q task None (Qhead st Q) st)"

section \<open>Timeouts\<close>

text \<open>
  \<open>check_idle\<close> steps to position \<open>pos\<close> and looks from there for an entry that has been
  idle; the result is the entry and the new position.
\<close>

partial_function (option) skip_loop :: "qheap \<Rightarrow> nat \<Rightarrow> nat option \<Rightarrow> nat option option" where
  "skip_loop h i entry =
     (case entry of
        None \<Rightarrow> Some None
      | Some a \<Rightarrow>
          (if i = 0 then Some (Some a)
           else Option.bind (h a) (\<lambda>e. skip_loop h (i - 1) (q_next e))))"

partial_function (option) idle_loop ::
  "qheap \<Rightarrow> 64 word \<Rightarrow> 64 word \<Rightarrow> nat \<Rightarrow> nat option \<Rightarrow> (nat option \<times> nat) option" where
  "idle_loop h now idle pos entry =
     (case entry of
        None \<Rightarrow> Some (None, pos)
      | Some a \<Rightarrow>
          Option.bind (h a) (\<lambda>e.
               (if now - q_idle e > idle then Some (Some a, pos)
                else idle_loop h now idle (pos + 1) (q_next e))))"

definition check_idle :: "Q_t \<Rightarrow> nat \<Rightarrow> 64 word \<Rightarrow> 'a queues_scheme \<Rightarrow> (nat option \<times> nat) option" where
  "check_idle Q pos idle st =
     do {
       entry \<leftarrow> skip_loop (qheap st) pos (Qhead st Q);
       idle_loop (qheap st) (jiffies st) idle pos entry
     }"

text \<open>One turn of the loop of \<open>find_oldest_msgNum\<close>: the candidate and its number.\<close>

definition older :: "int \<Rightarrow> nat option \<Rightarrow> Qentry_t \<Rightarrow> 32 word \<times> nat option \<Rightarrow> 32 word \<times> nat option" where
  "older dest entry e old =
     (let (old_msgNum, old_entry) = old
      in if uint (q_dst_nid e) \<noteq> dest then old
         else if q_msgNum e < old_msgNum
         then if old_msgNum = - 1 \<or> old_msgNum - q_msgNum e < 50000 then (q_msgNum e, entry) else old
         else if old_msgNum \<noteq> - 1 \<and> q_msgNum e - old_msgNum > 50000 then (q_msgNum e, entry)
         else old)"

partial_function (option) oldest_loop ::
  "qheap \<Rightarrow> int \<Rightarrow> 32 word \<times> nat option \<Rightarrow> nat option \<Rightarrow> (32 word \<times> nat option) option" where
  "oldest_loop h dest old entry =
     (case entry of
        None \<Rightarrow> Some old
      | Some a \<Rightarrow>
          Option.bind (h a) (\<lambda>e. oldest_loop h dest (older dest entry e old) (q_next e)))"

definition find_oldest_msgNum :: "Q_t \<Rightarrow> int \<Rightarrow> 64 word \<Rightarrow> 'a queues_scheme \<Rightarrow> nat option option" where
  "find_oldest_msgNum Q dest idle st =
     do {
       (old_msgNum, old_entry) \<leftarrow> oldest_loop (qheap st) dest (- 1, None) (Qhead st Q);
       (case old_entry of
          None \<Rightarrow> Some None
        | Some a \<Rightarrow>
            do { e \<leftarrow> qheap st a; Some (if jiffies st - q_idle e > idle then Some a else None) })
     }"

section \<open>Emptying\<close>

partial_function (option) reset_queue :: "Q_t \<Rightarrow> 'a queues_scheme \<Rightarrow> 'a queues_scheme option" where
  "reset_queue Q st =
     Option.bind (dequeue_first Q st) (\<lambda>(entry, st1).
       (case entry of
          None \<Rightarrow> Some st1
        | Some a \<Rightarrow> Option.bind (free_entry (Some a) st1) (reset_queue Q)))"

definition reset_all_queues :: "'a queues_scheme \<Rightarrow> 'a queues_scheme option" where
  "reset_all_queues st =
     do { st1 \<leftarrow> reset_queue Qsnd_pending st; st2 \<leftarrow> reset_queue Qsending st1; reset_queue Qreceiving st2 }"

end
