(* ===== verification/R_Proto.thy ===== *)
theory R_Proto
  imports R_Pages R_Queue K_CacheCopy
begin

text \<open>
  The state of the RTS/CTS module on a node, the numbering of messages
  (\<open>RTSCTS_protocol.c\<close>, \<open>RTSCTS_send.c\<close>), and \<open>memcpy2\<close>
  (\<open>include/portals/base/alpha.h\<close>), which copies between a packet page and the memory of
  a process through its page tables.
\<close>

section \<open>State\<close>

record remote_status_t =
  rs_last_update :: "64 word"
  rs_status :: "32 word"
  rs_first_ack :: bool

text \<open>
  The calls into the Portals library and the signals sent, oldest first.  A control block
  (\<open>nal_cb_t\<close>), a message of the library and a task are numbers, or null.
\<close>

datatype k_call =
    LIB_PARSE nat ptl_hdr
  | LIB_FINALIZE "nat option" int "nat option"
  | SEND_SIG int "nat option"

datatype route_status_t =
    ROUTE_UNTESTED | ROUTE_NO_ANSWER | ROUTE_BAD_DNID | ROUTE_NOT_SET | ROUTE_OK | ROUTE_CONFUSING_REPLY

record route_test =
  pINgFO :: "nat \<Rightarrow> int"
  route_status :: "nat \<Rightarrow> route_status_t"
  route_request :: "32 word"
  route_requestor :: int
  rte_nid0 :: int
  test_route :: "8 word list"
  ping_stat :: int
  route_stat :: int

record rts = queues +
  pkt :: snd_st
  lastMsgNum :: "nat \<Rightarrow> 32 word"
  send_msgNum :: "nat \<Rightarrow> 32 word"
  remote_status :: "nat \<Rightarrow> remote_status_t"
  cur_msgID :: "32 word"
  mcpshmem :: bool
  p3_ping_done :: bool
  p3_ping_nid :: "64 word"
  rtest :: route_test
  umem :: memory
  k_calls :: "k_call list"

text \<open>
  What the module takes from outside: the kernel's allocator and bus addresses, the page
  tables of the tasks (none for a task without memory), the table of control blocks of the
  Portals module, what \<open>lib_parse\<close> does with a header (its result, and the buffer, the
  lengths and the message with which it calls \<open>p3_recvBody\<close>), what \<open>lib_finalize\<close>
  returns, and what is left in a local variable that is never assigned.  The results of the
  library may depend on all calls so far.
\<close>

type_synonym recv_args = "64 word \<times> 64 word \<times> 64 word \<times> nat option"

record cb_entry =
  cb_nid :: int
  cb_pid :: int
  cb_task :: "nat option"
  cb_cb :: "nat option"

record rts_env =
  kmalloc :: kmalloc
  virt_to_bus :: "64 word \<Rightarrow> 32 word"
  task_mm :: "nat \<Rightarrow> page_tables option"
  cb_table :: "cb_entry list"
  lib_parse_of :: "k_call list \<Rightarrow> nat \<Rightarrow> ptl_hdr \<Rightarrow> int \<times> recv_args option"
  lib_finalize_of :: "k_call list \<Rightarrow> nat option \<Rightarrow> nat option \<Rightarrow> int"
  junk_task :: "nat option"
  junk_hdr :: ptl_hdr

definition SIGPIPE :: int where [ptl_const]: "SIGPIPE = 13"
definition SIGUSR2 :: int where [ptl_const]: "SIGUSR2 = 31"

definition kcall :: "k_call \<Rightarrow> rts \<Rightarrow> rts" where
  "kcall c st = st\<lparr>k_calls := k_calls st @ [c]\<rparr>"

definition send_sig :: "int \<Rightarrow> nat option \<Rightarrow> rts \<Rightarrow> rts" where
  "send_sig sig task = kcall (SEND_SIG sig task)"

definition finalize :: "rts_env \<Rightarrow> nat option \<Rightarrow> int \<Rightarrow> nat option \<Rightarrow> rts \<Rightarrow> int \<times> rts" where
  "finalize env nal tag cookie st =
     (lib_finalize_of env (k_calls st) nal cookie, kcall (LIB_FINALIZE nal tag cookie) st)"

text \<open>\<open>get_cb\<close>: the control block of a Portals process, and its task.\<close>

definition get_cb :: "rts_env \<Rightarrow> int \<Rightarrow> int \<Rightarrow> (nat option \<times> nat option) option" where
  "get_cb env nid pid =
     map_option (\<lambda>c. (cb_cb c, cb_task c)) (find (\<lambda>c. cb_nid c = nid \<and> cb_pid c = pid) (cb_table env))"

text \<open>An element of the arrays of \<open>MAX_NUM_ROUTES\<close> elements.\<close>

definition route :: "int \<Rightarrow> nat option" where
  "route nid = (if 0 \<le> nid \<and> nid < int MAX_NUM_ROUTES then Some (nat nid) else None)"

section \<open>Message ids\<close>

definition msgID_MASK :: "32 word" where [ptl_const]: "msgID_MASK = 0x001fffff"
definition msgID_SHIFT :: nat where [ptl_const]: "msgID_SHIFT = 21"

definition msgID2pnid :: "32 word \<Rightarrow> int" where
  "msgID2pnid msgID = s32 (uint (drop_bit msgID_SHIFT msgID - 1))"

definition msgID2msgNUM :: "32 word \<Rightarrow> int" where
  "msgID2msgNUM msgID = s32 (uint (msgID AND msgID_MASK))"

definition next_msgID :: "rts \<Rightarrow> 32 word \<times> rts" where
  "next_msgID st =
     (let msgID = cur_msgID st;
          new = (if msgID = 0 then of_int (s32 (s32 (my_pnid (pkt st) + 1) * 2 ^ msgID_SHIFT))
                 else (let cnt = msgID AND msgID_MASK; cnt = (cnt + 1) AND msgID_MASK
                       in (msgID AND NOT msgID_MASK) OR cnt))
      in (new, st\<lparr>cur_msgID := new\<rparr>))"

section \<open>Message numbers\<close>

definition incMsgNum :: "32 word \<Rightarrow> 32 word" where
  "incMsgNum num =
     (let num = num + 1;
          num = (if num = BOOTMSGNUM \<or> num = ILLMSGNUM then num + 1 else num)
      in if num = BOOTMSGNUM \<or> num = ILLMSGNUM then num + 1 else num)"

definition next_msgNum :: "int \<Rightarrow> bool \<Rightarrow> rts \<Rightarrow> (32 word \<times> rts) option" where
  "next_msgNum dest_nid read_only st =
     map_option (\<lambda>n.
         (send_msgNum st n,
          if read_only then st
          else st\<lparr>send_msgNum := (send_msgNum st)(n := incMsgNum (send_msgNum st n))\<rparr>))
       (route dest_nid)"

section \<open>Remote nodes\<close>

definition RMT_BOOT :: "32 word" where [ptl_const]: "RMT_BOOT = 0x01"
definition RMT_OK :: "32 word" where [ptl_const]: "RMT_OK = 0x02"
definition RMT_PENDING :: "32 word" where [ptl_const]: "RMT_PENDING = 0x04"
definition RMT_LOST :: "32 word" where [ptl_const]: "RMT_LOST = 0x08"
definition RMT_TALKING :: "32 word" where [ptl_const]: "RMT_TALKING = 0x40"

definition upd_remote :: "nat \<Rightarrow> (remote_status_t \<Rightarrow> remote_status_t) \<Rightarrow> rts \<Rightarrow> rts" where
  "upd_remote n f st =
     st\<lparr>remote_status := (remote_status st)(n := (f (remote_status st n))\<lparr>rs_last_update := jiffies st\<rparr>)\<rparr>"

text \<open>The status with a new state, keeping \<open>RMT_TALKING\<close>.\<close>

definition set_status :: "32 word \<Rightarrow> remote_status_t \<Rightarrow> remote_status_t" where
  "set_status s r = r\<lparr>rs_status := s OR (rs_status r AND RMT_TALKING)\<rparr>"

definition init_protocol :: "rts \<Rightarrow> rts" where
  "init_protocol st =
     st\<lparr>lastMsgNum := (\<lambda>i. if i < MAX_NUM_ROUTES then BOOTMSGNUM else lastMsgNum st i),
        send_msgNum := (\<lambda>i. if i < MAX_NUM_ROUTES then BOOTMSGNUM else send_msgNum st i),
        remote_status := (\<lambda>i. if i < MAX_NUM_ROUTES
          then \<lparr>rs_last_update = jiffies st, rs_status = RMT_BOOT, rs_first_ack = False\<rparr> else remote_status st i)\<rparr>"

section \<open>Copies to and from a process\<close>

text \<open>The bytes of the chunk at a physical address: to the end of the page.\<close>

definition copy_chunk :: "64 word \<Rightarrow> nat \<Rightarrow> nat" where
  "copy_chunk addr nbytes =
     (if page_off PAGE_SHIFT addr \<noteq> 0
      then (let chunk = 2 ^ PAGE_SHIFT - unat (page_off PAGE_SHIFT addr) in if nbytes < chunk then nbytes else chunk)
      else if nbytes \<ge> 2 ^ PAGE_SHIFT then 2 ^ PAGE_SHIFT else nbytes)"

lemma copy_chunk_pos: "0 < nbytes \<Longrightarrow> 0 < copy_chunk addr nbytes"
proof -
  have "unat (page_off PAGE_SHIFT addr) < 2 ^ PAGE_SHIFT"
    by (simp add: page_off_unat)
  then show "0 < nbytes \<Longrightarrow> 0 < copy_chunk addr nbytes" by (simp add: copy_chunk_def Let_def)
qed

text \<open>The loop of \<open>memcpy2(FROM_USER, ...)\<close>: the bytes read, or none when an
  address is not mapped (what is then left in the page, which is given back, does not matter).\<close>

function from_user_loop :: "page_tables \<Rightarrow> 64 word \<Rightarrow> nat \<Rightarrow> memory \<Rightarrow> 8 word list option" where
  "from_user_loop frame vaddr nbytes mem =
     (if nbytes = 0 then Some []
      else
        (let addr = calcPhysAddress PAGE_SHIFT frame vaddr
         in if addr = 0 then None
            else
              (let chunk = copy_chunk addr nbytes
               in map_option ((@) (map (\<lambda>i. mem (addr + of_nat i)) [0..<chunk]))
                    (from_user_loop frame (vaddr + of_nat chunk) (nbytes - chunk) mem))))"
  by pat_completeness auto
termination by (relation "measure (\<lambda>(frame, vaddr, nbytes, mem). nbytes)") (auto simp: copy_chunk_pos)

text \<open>The bytes of a chunk written at a physical address.\<close>

definition put_bytes :: "64 word \<Rightarrow> 8 word list \<Rightarrow> memory \<Rightarrow> memory" where
  "put_bytes addr bs mem = (\<lambda>a. if unat (a - addr) < length bs then bs ! unat (a - addr) else mem a)"

text \<open>The loop of \<open>memcpy2(TO_USER, ...)\<close>: what was copied before an address that is not mapped stays.\<close>

function to_user_loop :: "page_tables \<Rightarrow> 64 word \<Rightarrow> 8 word list \<Rightarrow> memory \<Rightarrow> int \<times> memory" where
  "to_user_loop frame vaddr bs mem =
     (if bs = [] then (0, mem)
      else
        (let addr = calcPhysAddress PAGE_SHIFT frame vaddr
         in if addr = 0 then (-1, mem)
            else
              (let chunk = copy_chunk addr (length bs)
               in to_user_loop frame (vaddr + of_nat chunk) (drop chunk bs) (put_bytes addr (take chunk bs) mem))))"
  by pat_completeness auto
termination by (relation "measure (\<lambda>(frame, vaddr, bs, mem). length bs)") (auto simp: copy_chunk_pos)

declare from_user_loop.simps [simp del] to_user_loop.simps [simp del]

text \<open>A task that is null or has no memory is not an error: nothing is copied.\<close>

definition mm_of :: "rts_env \<Rightarrow> nat option \<Rightarrow> page_tables option" where
  "mm_of env task = Option.bind task (task_mm env)"

definition memcpy2_from_user ::
  "rts_env \<Rightarrow> nat option \<Rightarrow> (nat \<Rightarrow> 8 word) \<Rightarrow> 64 word \<Rightarrow> nat \<Rightarrow> memory \<Rightarrow> int \<times> (nat \<Rightarrow> 8 word)" where
  "memcpy2_from_user env task to vaddr nbytes mem =
     (case mm_of env task of
        None \<Rightarrow> (0, to)
      | Some frame \<Rightarrow>
          (case from_user_loop frame vaddr nbytes mem of
             None \<Rightarrow> (-1, to)
           | Some bs \<Rightarrow> (0, \<lambda>i. if i < length bs then bs ! i else to i)))"

definition memcpy2_to_user ::
  "rts_env \<Rightarrow> nat option \<Rightarrow> 64 word \<Rightarrow> 8 word list \<Rightarrow> memory \<Rightarrow> int \<times> memory" where
  "memcpy2_to_user env task vaddr bs mem =
     (case mm_of env task of None \<Rightarrow> (0, mem) | Some frame \<Rightarrow> to_user_loop frame vaddr bs mem)"

end
