(* ===== verification/R_Send.thy ===== *)
theory R_Send
  imports R_Proto
begin

text \<open>
  Sending packets (\<open>RTSCTS_send.c\<close>): \<open>build_page\<close>, the packets of the protocol
  (\<open>sendProtoMSG\<close>), and the data of a message (\<open>sendDATA\<close>).  Each function runs with
  interrupts off; \<open>None\<close> is a fault of the kernel.
\<close>

section \<open>Pages\<close>

definition fill_page :: "rts_env \<Rightarrow> int \<Rightarrow> (page_t \<Rightarrow> page_t) \<Rightarrow> rts \<Rightarrow> rts" where
  "fill_page env page_idx f st = st\<lparr>pkt := write_page (virt_to_bus env) (nat page_idx) f (pkt st)\<rparr>"

definition page_of :: "rts_env \<Rightarrow> int \<Rightarrow> rts \<Rightarrow> page_t" where
  "page_of env page_idx st = frames (pkt st) (virt_to_bus env (sp_page (snd_page_list (pkt st) (nat page_idx))))"

definition xmit :: "rts_env \<Rightarrow> 16 word \<Rightarrow> int \<Rightarrow> nat \<Rightarrow> rts \<Rightarrow> (int \<times> rts) option" where
  "xmit env dst_nid page_idx len st =
     map_option (\<lambda>(rc, s). (rc, st\<lparr>pkt := s\<rparr>)) (myrPkt_xmit (virt_to_bus env) dst_nid page_idx (int len) (pkt st))"

definition new_hdr :: "pkt_type_t \<Rightarrow> 32 word \<Rightarrow> 32 word \<Rightarrow> pkthdr_t \<Rightarrow> pkthdr_t" where
  "new_hdr type msgID msgNum h =
     h\<lparr>ph_type := type, ph_seq := 0, ph_msgID := msgID, ph_info := 0x01234567, ph_info2 := 0x98765432,
       ph_msgNum := msgNum\<rparr>"

definition build_page ::
  "rts_env \<Rightarrow> pkt_type_t \<Rightarrow> 32 word \<Rightarrow> ptl_hdr option \<Rightarrow> nat \<Rightarrow> 32 word \<Rightarrow> rts \<Rightarrow> (int \<times> rts) option" where
  "build_page env type msgID phdr payload msgNum st =
     (if payload + headers_of phdr > MYRPKT_MTU then Some (-1, st)
      else do {
        (page_idx, s) \<leftarrow> get_snd_page (pkt st);
        let st1 = st\<lparr>pkt := s\<rparr>;
        (if page_idx < 0 then Some (-1, st1)
         else if page_addr page_idx s = 0 then None
         else Some (page_idx, fill_page env page_idx
           (\<lambda>pg. pg\<lparr>pg_hdr := new_hdr type msgID msgNum (pg_hdr pg), pg_phdr := phdr\<rparr>) st1))
      })"

text \<open>The data of a page, from a buffer of the kernel and from a process.\<close>

definition put_data :: "8 word list \<Rightarrow> page_t \<Rightarrow> page_t" where
  "put_data bs pg = pg\<lparr>pg_data := (\<lambda>i. if i < length bs then bs ! i else pg_data pg i)\<rparr>"

definition user_to_page ::
  "rts_env \<Rightarrow> nat option \<Rightarrow> int \<Rightarrow> 64 word \<Rightarrow> nat \<Rightarrow> rts \<Rightarrow> int \<times> rts" where
  "user_to_page env task page_idx vaddr nbytes st =
     (let (rc, to) = memcpy2_from_user env task (pg_data (page_of env page_idx st)) vaddr nbytes (umem st)
      in (rc, fill_page env page_idx (\<lambda>pg. pg\<lparr>pg_data := to\<rparr>) st))"

section \<open>Protocol packets\<close>

definition sendProtoMSG ::
  "rts_env \<Rightarrow> pkt_type_t \<Rightarrow> 32 word \<Rightarrow> 16 word \<Rightarrow> 32 word \<Rightarrow> 16 word \<Rightarrow> 8 word list \<Rightarrow> rts \<Rightarrow> rts option" where
  "sendProtoMSG env type msgID dst_nid info info2 buf st =
     (if length buf > MYRPKT_MTU - sizeof_pkthdr then Some st
      else do {
        (page_idx, st1) \<leftarrow> build_page env type msgID None (length buf) ILLMSGNUM st;
        (if page_idx < 0 then Some st1
         else do {
           let st2 = fill_page env page_idx (\<lambda>pg. (put_data buf pg)\<lparr>pg_hdr := (pg_hdr pg)
                       \<lparr>ph_info := info, ph_info2 := ucast info2\<rparr>\<rparr>) st1;
           (rc, st3) \<leftarrow> xmit env dst_nid page_idx (sizeof_pkthdr + length buf) st2;
           Some st3
         })
      })"

section \<open>Data packets\<close>

text \<open>The type of a data packet: \<open>n\<close> is how many packets may still be sent, this one included.\<close>

definition data_type :: "32 word \<Rightarrow> 32 word \<Rightarrow> nat \<Rightarrow> pkt_type_t \<times> entry_event_t" where
  "data_type payload remain n =
     (if payload = remain then (LAST_DATA, E_SENT_LAST_DATA)
      else if n \<le> 1 then (STOP_DATA, E_SENT_STOP_DATA)
      else (DATA, E_SENT_DATA))"

definition data_payload :: "32 word \<Rightarrow> 32 word" where
  "data_payload remain = min (of_nat (MYRPKT_MTU - sizeof_pkthdr)) remain"

text \<open>The end of the loop: the offset and the event to store, or none when the entry was freed.\<close>

fun sendDATA_loop ::
  "rts_env \<Rightarrow> nat \<Rightarrow> int \<Rightarrow> nat \<Rightarrow> 32 word \<Rightarrow> 32 word \<Rightarrow> entry_event_t \<Rightarrow> rts \<Rightarrow>
     ((32 word \<times> entry_event_t) option \<times> rts) option" where
  "sendDATA_loop env a num_pkts 0 remain offset last_event st = Some (Some (offset, last_event), st)"
| "sendDATA_loop env a num_pkts (Suc n) remain offset last_event st =
     do {
       e \<leftarrow> qheap st a;
       let payload = data_payload remain;
       let (pkttype, last_event) = data_type payload remain (Suc n);
       (page_idx, st1) \<leftarrow> build_page env pkttype (q_msgID e) None (unat payload) (q_msgNum e) st;
       (if page_idx < 0 then Some (Some (offset, E_SENT_STOP_DATA), st1)
        else
          (let (rc, st2) = user_to_page env (q_task e) page_idx (q_buf e + ucast offset) (unat payload) st1
           in if rc \<noteq> 0
              then do {
                let st3 = send_sig SIGPIPE (q_task e) st2;
                let st4 = st3\<lparr>pkt := free_snd_page page_idx (pkt st3)\<rparr>;
                (_, st5) \<leftarrow> dequeue Qsending (q_msgID e) st4;
                st6 \<leftarrow> free_entry (Some a) st5;
                Some (None, st6)
              }
              else do {
                st3 \<leftarrow> upd_entry a (\<lambda>e. e\<lparr>q_seq := q_seq e + 1\<rparr>) st2;
                let st4 = fill_page env page_idx (\<lambda>pg. pg\<lparr>pg_hdr := (pg_hdr pg)
                            \<lparr>ph_seq := q_seq e + 1, ph_info := of_int num_pkts,
                             ph_info2 := of_int (q_retries e)\<rparr>\<rparr>) st3;
                (rc, st5) \<leftarrow> xmit env (q_dst_nid e) page_idx (sizeof_pkthdr + unat payload) st4;
                (if rc < 0 then Some (Some (offset, E_SENT_STOP_DATA), st5)
                 else if remain - payload = 0 then Some (Some (offset + payload, last_event), st5)
                 else sendDATA_loop env a num_pkts n (remain - payload) (offset + payload) last_event st5)
              }))
     }"

definition sendDATA :: "rts_env \<Rightarrow> nat \<Rightarrow> int \<Rightarrow> rts \<Rightarrow> rts option" where
  "sendDATA env a num_pkts st =
     do {
       e \<leftarrow> qheap st a;
       st1 \<leftarrow> upd_entry a (\<lambda>e. e\<lparr>q_idle := jiffies st\<rparr>) st;
       (r, st2) \<leftarrow> sendDATA_loop env a num_pkts (nat num_pkts) (q_len e - q_datasent e) (q_datasent e) (q_event e) st1;
       (case r of
          None \<Rightarrow> Some st2
        | Some (offset, last_event) \<Rightarrow> upd_entry a (\<lambda>e. e\<lparr>q_datasent := offset, q_event := last_event\<rparr>) st2)
     }"

section \<open>Old messages\<close>

definition abort_old_msg :: "32 word \<Rightarrow> rts \<Rightarrow> rts option" where
  "abort_old_msg msgID st =
     do {
       (old_entry, st1) \<leftarrow> dequeue Qsnd_pending msgID st;
       (if old_entry = None then Some st1 else free_entry old_entry st1)
     }"

end
