(* ===== verification/R_Ring.thy ===== *)
theory R_Ring
  imports R_Pages
begin

text \<open>
  The ring between the host and the card is a queue: the packets leave the card in the order
  in which \<open>myrPkt_xmit\<close> accepted them, each with the contents its page had then, however
  the steps of the host and of the card are interleaved; and a page that is checked out is
  not one the card still reads.
\<close>

section \<open>The abstract queue\<close>

abbreviation phys_at :: "snd_st \<Rightarrow> nat \<Rightarrow> 32 word" where
  "phys_at st i \<equiv> sl_phys_addr (snd_pkt_list st i)"

abbreviation idx_at :: "snd_st \<Rightarrow> nat \<Rightarrow> int" where
  "idx_at st i \<equiv> sl_page_idx (snd_pkt_list st i)"

abbreviation stat_at :: "snd_st \<Rightarrow> nat \<Rightarrow> pg_status_t" where
  "stat_at st p \<equiv> sp_stat (snd_page_list st p)"

abbreviation bus_at :: "(64 word \<Rightarrow> 32 word) \<Rightarrow> snd_st \<Rightarrow> nat \<Rightarrow> 32 word" where
  "bus_at vtb st p \<equiv> vtb (sp_page (snd_page_list st p))"

definition ring_pos :: "snd_st \<Rightarrow> nat \<Rightarrow> nat" where
  "ring_pos st j = (last_snd_pkt st + j) mod MAX_SND_PKT_ENTRIES"

definition slot_packet :: "snd_st \<Rightarrow> nat \<Rightarrow> packet" where
  "slot_packet st i =
     packet_of (sl_dest (snd_pkt_list st i)) (sl_len (snd_pkt_list st i)) (frames st (phys_at st i))"

text \<open>The packets the card has not finished, oldest first.\<close>

definition queued :: "snd_st \<Rightarrow> packet list" where
  "queued st = map (slot_packet st)
     (takeWhile (\<lambda>i. phys_at st i \<noteq> 0) (map (ring_pos st) [0..<MAX_SND_PKT_ENTRIES]))"

section \<open>Invariant\<close>

text \<open>The slots that are taken are \<open>k\<close> consecutive ones from the card's position.\<close>

definition ring_span :: "nat \<Rightarrow> snd_st \<Rightarrow> bool" where
  "ring_span k st \<longleftrightarrow>
     last_pkt st < MAX_SND_PKT_ENTRIES \<and> next_avail st < MAX_SND_PKT_ENTRIES \<and>
     last_snd_pkt st < MAX_SND_PKT_ENTRIES \<and> k \<le> MAX_SND_PKT_ENTRIES \<and> last_pkt st = ring_pos st k \<and>
     (\<forall>j < MAX_SND_PKT_ENTRIES. phys_at st (ring_pos st j) \<noteq> 0 \<longleftrightarrow> j < k)"

text \<open>A slot and the page it names point at each other.\<close>

definition ring_pages :: "(64 word \<Rightarrow> 32 word) \<Rightarrow> snd_st \<Rightarrow> bool" where
  "ring_pages vtb st \<longleftrightarrow>
     (\<forall>i < MAX_SND_PKT_ENTRIES. idx_at st i \<noteq> -1 \<longrightarrow>
        in_ring (idx_at st i) \<and> stat_at st (nat (idx_at st i)) = pg_sending \<and>
        sp_slot (snd_page_list st (nat (idx_at st i))) = int i) \<and>
     (\<forall>p < MAX_SND_PKT_ENTRIES. stat_at st p = pg_sending \<longrightarrow>
        in_ring (sp_slot (snd_page_list st p)) \<and> idx_at st (nat (sp_slot (snd_page_list st p))) = int p) \<and>
     (\<forall>i < MAX_SND_PKT_ENTRIES. phys_at st i \<noteq> 0 \<longrightarrow>
        idx_at st i \<noteq> -1 \<and> phys_at st i = bus_at vtb st (nat (idx_at st i)))"

definition ring_frames :: "(64 word \<Rightarrow> 32 word) \<Rightarrow> snd_st \<Rightarrow> bool" where
  "ring_frames vtb st \<longleftrightarrow>
     (\<forall>p < MAX_SND_PKT_ENTRIES. sp_page (snd_page_list st p) \<noteq> 0 \<and> bus_at vtb st p \<noteq> 0 \<and>
        stat_at st p \<noteq> pg_empty) \<and>
     inj_on (bus_at vtb st) {..<MAX_SND_PKT_ENTRIES}"

text \<open>What the card holds of the slot it works on.\<close>

definition ring_card :: "nat \<Rightarrow> snd_st \<Rightarrow> bool" where
  "ring_card k st \<longleftrightarrow> SndState st \<noteq> S0 \<longrightarrow>
     (let s = snd_pkt_list st (last_snd_pkt st)
      in 0 < k \<and> hst_addr st = sl_phys_addr s \<and> cur_len st = sl_len s \<and> cur_dest st = sl_dest s \<and>
         (\<forall>pg. snd_buf st = Some pg \<longrightarrow> pg = frames st (sl_phys_addr s)))"

definition ring_inv :: "(64 word \<Rightarrow> 32 word) \<Rightarrow> nat \<Rightarrow> snd_st \<Rightarrow> bool" where
  "ring_inv vtb k st \<longleftrightarrow> ring_span k st \<and> ring_pages vtb st \<and> ring_frames vtb st \<and> ring_card k st"

lemma ring_size_pos [simp]: "0 < MAX_SND_PKT_ENTRIES" "MAX_SND_PKT_ENTRIES \<noteq> 0"
  by (simp_all add: MAX_SND_PKT_ENTRIES_def)

lemma ring_pos_less [simp]: "ring_pos st j < MAX_SND_PKT_ENTRIES"
  by (simp add: ring_pos_def)

lemma mod_add_cancel:
  assumes "(a + i) mod n = (a + j) mod n" "i < n" "j < n"
  shows "i = (j :: nat)"
proof -
  have "(int a + int i) mod int n = (int a + int j) mod int n"
    using assms(1) by (metis of_nat_add of_nat_mod)
  then have "int n dvd int i - int j"
    by (simp add: mod_eq_dvd_iff)
  moreover have "\<bar>int i - int j\<bar> < int n" using assms(2,3) by linarith
  ultimately have "int i - int j = 0" using dvd_imp_le_int [of "int i - int j" "int n"] by fastforce
  then show ?thesis by simp
qed

lemma ring_pos_inj: "ring_pos st i = ring_pos st j \<Longrightarrow> i < MAX_SND_PKT_ENTRIES \<Longrightarrow> j < MAX_SND_PKT_ENTRIES \<Longrightarrow> i = j"
  unfolding ring_pos_def by (rule mod_add_cancel)

lemma ring_pos_cover:
  assumes "i < MAX_SND_PKT_ENTRIES" "last_snd_pkt st < MAX_SND_PKT_ENTRIES"
  obtains j where "j < MAX_SND_PKT_ENTRIES" "ring_pos st j = i"
proof -
  let ?j = "(i + MAX_SND_PKT_ENTRIES - last_snd_pkt st) mod MAX_SND_PKT_ENTRIES"
  have "ring_pos st ?j = i" using assms by (simp add: ring_pos_def mod_add_right_eq)
  then show ?thesis by (rule that [rotated]) simp
qed

lemma in_ring_nat [simp]: "in_ring (int i) \<longleftrightarrow> i < MAX_SND_PKT_ENTRIES"
  by (simp add: in_ring_def)

lemma in_ring_less: "in_ring i \<Longrightarrow> nat i < MAX_SND_PKT_ENTRIES"
  by (simp add: in_ring_def nat_less_iff)

lemma in_ring_neg [simp]: "\<not> in_ring (-1)"
  by (simp add: in_ring_def)

lemma takeWhile_upt:
  assumes "k \<le> n" "\<And>j. j < n \<Longrightarrow> P (f j) \<longleftrightarrow> j < k"
  shows "takeWhile P (map f [0..<n]) = map f [0..<k]"
proof -
  have "[0..<n] = [0..<k] @ [k..<n]" using assms(1) by (metis le_add_diff_inverse upt_add_eq_append zero_le)
  moreover have "takeWhile P (map f [0..<k] @ map f [k..<n]) = map f [0..<k] @ takeWhile P (map f [k..<n])"
    using assms by (intro takeWhile_append2) auto
  moreover have "takeWhile P (map f [k..<n]) = []"
    using assms(2) [of k] by (cases "k < n") (simp_all add: upt_conv_Cons)
  ultimately show ?thesis by simp
qed

lemma span_idle: "ring_span 0 st \<Longrightarrow> i < MAX_SND_PKT_ENTRIES \<Longrightarrow> phys_at st i = 0"
  using ring_pos_cover [of i st] by (auto simp: ring_span_def)

lemma queued_span: "ring_span k st \<Longrightarrow> queued st = map (\<lambda>j. slot_packet st (ring_pos st j)) [0..<k]"
  unfolding queued_def ring_span_def by (subst takeWhile_upt [where k = k]) auto

lemma upd_page_sel [simp]:
  "snd_page_list (upd_page i f st) = (snd_page_list st)(i := f (snd_page_list st i))"
  "last_pkt (upd_page i f st) = last_pkt st" "next_avail (upd_page i f st) = next_avail st"
  "rdy_to_snd (upd_page i f st) = rdy_to_snd st" "my_pnid (upd_page i f st) = my_pnid st"
  "snd_pkt_list (upd_page i f st) = snd_pkt_list st" "frames (upd_page i f st) = frames st"
  "SndState (upd_page i f st) = SndState st" "last_snd_pkt (upd_page i f st) = last_snd_pkt st"
  "cur_len (upd_page i f st) = cur_len st" "cur_dest (upd_page i f st) = cur_dest st"
  "hst_addr (upd_page i f st) = hst_addr st" "snd_buf (upd_page i f st) = snd_buf st"
  "wire (upd_page i f st) = wire st"
  by (simp_all add: upd_page_def)

lemma upd_slot_sel [simp]:
  "snd_pkt_list (upd_slot i f st) = (snd_pkt_list st)(i := f (snd_pkt_list st i))"
  "last_pkt (upd_slot i f st) = last_pkt st" "next_avail (upd_slot i f st) = next_avail st"
  "rdy_to_snd (upd_slot i f st) = rdy_to_snd st" "my_pnid (upd_slot i f st) = my_pnid st"
  "snd_page_list (upd_slot i f st) = snd_page_list st" "frames (upd_slot i f st) = frames st"
  "SndState (upd_slot i f st) = SndState st" "last_snd_pkt (upd_slot i f st) = last_snd_pkt st"
  "cur_len (upd_slot i f st) = cur_len st" "cur_dest (upd_slot i f st) = cur_dest st"
  "hst_addr (upd_slot i f st) = hst_addr st" "snd_buf (upd_slot i f st) = snd_buf st"
  "wire (upd_slot i f st) = wire st"
  by (simp_all add: upd_slot_def)

lemma set_stat_sel [simp]:
  "snd_page_list (set_stat i x st) = (snd_page_list st)(i := (snd_page_list st i)\<lparr>sp_stat := x\<rparr>)"
  "last_pkt (set_stat i x st) = last_pkt st" "next_avail (set_stat i x st) = next_avail st"
  "rdy_to_snd (set_stat i x st) = rdy_to_snd st" "my_pnid (set_stat i x st) = my_pnid st"
  "snd_pkt_list (set_stat i x st) = snd_pkt_list st" "frames (set_stat i x st) = frames st"
  "wire (set_stat i x st) = wire st"
  by (simp_all add: set_stat_def)

lemma snd_pos_upd [simp]:
  "ring_pos (upd_page i f st) = ring_pos st" "ring_pos (upd_slot i g st) = ring_pos st"
  "ring_pos (st\<lparr>next_avail := n\<rparr>) = ring_pos st" "ring_pos (st\<lparr>last_pkt := n\<rparr>) = ring_pos st"
  "ring_pos (st\<lparr>frames := h\<rparr>) = ring_pos st"
  by (simp_all add: ring_pos_def fun_eq_iff)

lemmas ring_parts = ring_inv_def ring_pages_def ring_frames_def ring_card_def

section \<open>The host's steps\<close>

text \<open>A slot that is free can lose its page; a page no slot names can change its status.\<close>

lemma idx_sending: "ring_pages vtb st \<Longrightarrow> s < MAX_SND_PKT_ENTRIES \<Longrightarrow> idx_at st s = int p \<Longrightarrow>
    p < MAX_SND_PKT_ENTRIES \<and> stat_at st p = pg_sending \<and> sp_slot (snd_page_list st p) = int s"
  unfolding ring_pages_def by (drule conjunct1, drule spec [of _ s]) simp

lemma set_stat_inv:
  assumes inv: "ring_inv vtb k st" and i: "i < MAX_SND_PKT_ENTRIES" and old: "stat_at st i \<noteq> pg_sending"
    and x: "x \<noteq> pg_sending" "x \<noteq> pg_empty"
  shows "ring_inv vtb k (set_stat i x st)"
proof -
  have span: "ring_span k (set_stat i x st)"
    using inv by (simp add: ring_inv_def ring_span_def set_stat_def)
  have pages: "ring_pages vtb (set_stat i x st)"
    using inv old x unfolding ring_inv_def ring_pages_def set_stat_def by auto
  have "bus_at vtb (set_stat i x st) = bus_at vtb st" by (auto simp: set_stat_def fun_eq_iff)
  then have frames: "ring_frames vtb (set_stat i x st)"
    using inv x by (auto simp: ring_inv_def ring_frames_def set_stat_def)
  have "ring_card k (set_stat i x st)"
    using inv by (auto simp: ring_inv_def ring_card_def set_stat_def Let_def)
  then show ?thesis using span pages frames by (simp add: ring_inv_def)
qed

lemma set_stat_queued [simp]: "queued (set_stat i x st) = queued st"
  by (simp add: queued_def set_stat_def slot_packet_def cong: map_cong)

lemma clear_idx_inv:
  assumes inv: "ring_inv vtb k st" and s: "s < MAX_SND_PKT_ENTRIES" "phys_at st s = 0" "idx_at st s = int p"
    and x: "x \<noteq> pg_sending" "x \<noteq> pg_empty"
  shows "ring_inv vtb k (set_stat p x (upd_slot s (\<lambda>s. s\<lparr>sl_page_idx := -1\<rparr>) st))" (is "ring_inv vtb k ?st")
proof -
  have p: "p < MAX_SND_PKT_ENTRIES" "stat_at st p = pg_sending" "sp_slot (snd_page_list st p) = int s"
    using idx_sending [OF _ s(1,3), of vtb] inv by (simp_all add: ring_inv_def)
  have other: "sp_slot (snd_page_list st q) \<noteq> int s"
    if "q < MAX_SND_PKT_ENTRIES" "stat_at st q = pg_sending" "q \<noteq> p" for q
    using inv that s(3) unfolding ring_inv_def ring_pages_def by (metis nat_int of_nat_eq_iff)
  have span: "ring_span k ?st"
    using inv by (auto simp: ring_inv_def ring_span_def set_stat_def)
  have pages: "ring_pages vtb ?st"
    using inv s p other x unfolding ring_inv_def ring_pages_def set_stat_def
    by (auto simp: nat_eq_iff in_ring_def)
  have "bus_at vtb ?st = bus_at vtb st" by (auto simp: set_stat_def fun_eq_iff)
  then have frames: "ring_frames vtb ?st"
    using inv x by (auto simp: ring_inv_def ring_frames_def set_stat_def)
  have "ring_card k ?st"
    using inv by (auto simp: ring_inv_def ring_card_def set_stat_def Let_def)
  then show ?thesis using span pages frames by (simp add: ring_inv_def)
qed

lemma clear_idx_queued [simp]:
  "queued (upd_slot s (\<lambda>s. s\<lparr>sl_page_idx := x\<rparr>) st) = queued st"
proof -
  have "slot_packet (upd_slot s (\<lambda>s. s\<lparr>sl_page_idx := x\<rparr>) st) = slot_packet st"
    by (simp add: slot_packet_def fun_eq_iff)
  moreover have "(\<lambda>i. phys_at (upd_slot s (\<lambda>s. s\<lparr>sl_page_idx := x\<rparr>) st) i \<noteq> 0) = (\<lambda>i. phys_at st i \<noteq> 0)"
    by (simp add: fun_eq_iff)
  ultimately show ?thesis unfolding queued_def by simp
qed

lemma next_avail_inv: "ring_inv vtb k st \<Longrightarrow> n < MAX_SND_PKT_ENTRIES \<Longrightarrow> ring_inv vtb k (st\<lparr>next_avail := n\<rparr>)"
  unfolding ring_inv_def ring_span_def ring_pages_def ring_frames_def ring_card_def by (simp add: Let_def)

lemma next_avail_queued [simp]: "queued (st\<lparr>next_avail := n\<rparr>) = queued st"
  by (simp add: queued_def slot_packet_def cong: map_cong)

text \<open>
  A page that \<open>get_snd_page\<close> gives is checked out; it refuses only a page the card has not
  finished with.
\<close>

lemma get_snd_page_inv:
  assumes inv: "ring_inv vtb k st"
  obtains (refused) "get_snd_page st = Some (-1, st)" "stat_at st (next_avail st) = pg_sending"
      "phys_at st (nat (sp_slot (snd_page_list st (next_avail st)))) \<noteq> 0"
  | (given) i st' where "get_snd_page st = Some (int i, st')" "i = next_avail st" "i < MAX_SND_PKT_ENTRIES"
      "ring_inv vtb k st'" "queued st' = queued st" "wire st' = wire st" "stat_at st' i = pg_checked_out"
      "frames st' = frames st" "\<And>p. sp_page (snd_page_list st' p) = sp_page (snd_page_list st p)"
      "\<And>p. p \<noteq> i \<Longrightarrow> snd_page_list st' p = snd_page_list st p"
      "rdy_to_snd st' = rdy_to_snd st" "my_pnid st' = my_pnid st"
proof -
  let ?i = "next_avail st"
  have i: "?i < MAX_SND_PKT_ENTRIES" using inv by (simp add: ring_inv_def ring_span_def)
  have n: "(?i + 1) mod MAX_SND_PKT_ENTRIES < MAX_SND_PKT_ENTRIES" by simp
  show thesis
  proof (cases "stat_at st ?i = pg_sending")
    case False
    then have "get_snd_page st = Some (take_next st)" by (simp add: get_snd_page_def Let_def)
    then show thesis
      using next_avail_inv [OF set_stat_inv [OF inv i False, of pg_checked_out] n] i
      by (intro given [of ?i "snd (take_next st)"]) (simp_all add: take_next_def)
  next
    case True
    let ?s = "nat (sp_slot (snd_page_list st ?i))"
    have s: "in_ring (sp_slot (snd_page_list st ?i))" "idx_at st ?s = int ?i"
      using inv i True by (auto simp: ring_inv_def ring_pages_def)
    show thesis
    proof (cases "phys_at st ?s = 0")
      case False
      with True s show thesis by (intro refused) (simp_all add: get_snd_page_def Let_def)
    next
      case free: True
      let ?st = "upd_slot ?s (\<lambda>s. s\<lparr>sl_page_idx := -1\<rparr>) st"
      have "get_snd_page st = Some (take_next ?st)" using True s free by (simp add: get_snd_page_def Let_def)
      then show thesis
        using next_avail_inv [OF clear_idx_inv [OF inv in_ring_less [OF s(1)] free s(2), of pg_checked_out] n] i
        by (intro given [of ?i "snd (take_next ?st)"]) (simp_all add: take_next_def)
    qed
  qed
qed

text \<open>Writing a page that is checked out does not touch a frame the card will read.\<close>

lemma pending_frame:
  assumes inv: "ring_inv vtb k st" and i: "i < MAX_SND_PKT_ENTRIES" "stat_at st i \<noteq> pg_sending"
    and s: "s < MAX_SND_PKT_ENTRIES" "phys_at st s \<noteq> 0"
  shows "phys_at st s \<noteq> bus_at vtb st i"
proof -
  from inv s have p: "in_ring (idx_at st s)" "stat_at st (nat (idx_at st s)) = pg_sending"
    and eq: "phys_at st s = bus_at vtb st (nat (idx_at st s))"
    by (auto simp: ring_inv_def ring_pages_def)
  have "nat (idx_at st s) \<noteq> i" using p(2) i(2) by auto
  moreover have "inj_on (bus_at vtb st) {..<MAX_SND_PKT_ENTRIES}" using inv by (simp add: ring_inv_def ring_frames_def)
  ultimately show ?thesis
    unfolding eq using in_ring_less [OF p(1)] i(1) by (auto dest: inj_onD)
qed

lemma span_busy: "ring_span k st \<Longrightarrow> j < k \<Longrightarrow> phys_at st (ring_pos st j) \<noteq> 0"
  by (auto simp: ring_span_def)

lemma write_page_sel [simp]:
  "snd_page_list (write_page vtb i f st) = snd_page_list st" "last_pkt (write_page vtb i f st) = last_pkt st"
  "next_avail (write_page vtb i f st) = next_avail st" "rdy_to_snd (write_page vtb i f st) = rdy_to_snd st"
  "my_pnid (write_page vtb i f st) = my_pnid st" "snd_pkt_list (write_page vtb i f st) = snd_pkt_list st"
  "frames (write_page vtb i f st) = (frames st)(bus_at vtb st i := f (frames st (bus_at vtb st i)))"
  "wire (write_page vtb i f st) = wire st" "ring_pos (write_page vtb i f st) = ring_pos st"
  by (simp_all add: write_page_def Let_def)

lemma write_page_inv:
  assumes inv: "ring_inv vtb k st" and i: "i < MAX_SND_PKT_ENTRIES" "stat_at st i \<noteq> pg_sending"
  shows "ring_inv vtb k (write_page vtb i f st)" "queued (write_page vtb i f st) = queued st"
proof -
  let ?st = "write_page vtb i f st"
  have span: "ring_span k st" using inv by (simp add: ring_inv_def)
  have span': "ring_span k ?st" using span by (simp add: ring_span_def write_page_def Let_def)
  have same: "frames ?st (phys_at st s) = frames st (phys_at st s)"
    if "s < MAX_SND_PKT_ENTRIES" "phys_at st s \<noteq> 0" for s
    using pending_frame [OF inv i that] by simp
  have "ring_card k ?st"
  proof (cases "SndState st = S0")
    case False
    then have card: "0 < k" "hst_addr st = phys_at st (last_snd_pkt st)"
      "\<forall>pg. snd_buf st = Some pg \<longrightarrow> pg = frames st (phys_at st (last_snd_pkt st))"
      "cur_len st = sl_len (snd_pkt_list st (last_snd_pkt st))"
      "cur_dest st = sl_dest (snd_pkt_list st (last_snd_pkt st))"
      using inv by (simp_all add: ring_inv_def ring_card_def Let_def)
    have "ring_pos st 0 = last_snd_pkt st" "last_snd_pkt st < MAX_SND_PKT_ENTRIES"
      using span by (simp_all add: ring_pos_def ring_span_def)
    with span_busy [OF span card(1)] same [of "last_snd_pkt st"] card
    show ?thesis by (simp add: ring_card_def write_page_def Let_def)
  qed (simp add: ring_card_def write_page_def Let_def)
  with inv span' show "ring_inv vtb k ?st"
    by (simp add: ring_inv_def ring_pages_def ring_frames_def)
  show "queued ?st = queued st"
    unfolding queued_span [OF span] queued_span [OF span'] using span_busy [OF span] same
    by (simp add: slot_packet_def)
qed

lemma span_room:
  assumes "ring_span k st" "phys_at st (last_pkt st) = 0"
  shows "k < MAX_SND_PKT_ENTRIES"
proof (rule ccontr)
  assume "\<not> k < MAX_SND_PKT_ENTRIES"
  then have "k = MAX_SND_PKT_ENTRIES" "last_pkt st = ring_pos st k" using assms(1) by (simp_all add: ring_span_def)
  then have "last_pkt st = ring_pos st 0" by (simp add: ring_pos_def)
  with assms(2) span_busy [OF assms(1), of 0] \<open>k = _\<close> show False by simp
qed

text \<open>A submission adds the packet at the end.\<close>

lemma submit_inv:
  fixes dest len :: int
  assumes inv: "ring_inv vtb k st" and i: "i < MAX_SND_PKT_ENTRIES" "stat_at st i \<noteq> pg_sending"
    and free: "phys_at st (last_pkt st) = 0" "idx_at st (last_pkt st) = -1"
  defines "st' \<equiv> set_stat i pg_sending (pkt_send vtb dest (sp_page (snd_page_list st i)) len i st)"
  shows "ring_inv vtb (Suc k) st'" "queued st' = queued st @ [packet_of dest len (frames st (bus_at vtb st i))]"
proof -
  let ?l = "last_pkt st"
  have span: "ring_span k st" and pages: "ring_pages vtb st" and frames: "ring_frames vtb st"
    and card: "ring_card k st" using inv by (simp_all add: ring_inv_def)
  have l: "?l < MAX_SND_PKT_ENTRIES" "?l = ring_pos st k" "last_snd_pkt st < MAX_SND_PKT_ENTRIES"
    using span by (simp_all add: ring_span_def)
  have k: "k < MAX_SND_PKT_ENTRIES" by (rule span_room [OF span free(1)])
  have pos: "ring_pos st' = ring_pos st"
    by (simp add: st'_def pkt_send_def Let_def ring_pos_def set_stat_def fun_eq_iff)
  have slots: "snd_pkt_list st' = (snd_pkt_list st)(?l := \<lparr>sl_phys_addr = bus_at vtb st i, sl_len = len,
      sl_dest = dest, sl_page_idx = int i\<rparr>)"
    by (simp add: st'_def pkt_send_def Let_def)
  have list: "snd_page_list st' = (snd_page_list st)(i := (snd_page_list st i)\<lparr>sp_slot := int ?l, sp_stat := pg_sending\<rparr>)"
    by (simp add: st'_def pkt_send_def Let_def)
  have bus: "bus_at vtb st' = bus_at vtb st" by (simp add: list fun_eq_iff)
  have nz: "bus_at vtb st i \<noteq> 0" using frames i(1) by (simp add: ring_frames_def)
  have rest: "frames st' = frames st" "last_snd_pkt st' = last_snd_pkt st" "next_avail st' = next_avail st"
    "last_pkt st' = (?l + 1) mod MAX_SND_PKT_ENTRIES" "SndState st' = SndState st" "hst_addr st' = hst_addr st"
    "cur_len st' = cur_len st" "cur_dest st' = cur_dest st" "snd_buf st' = snd_buf st"
    by (simp_all add: st'_def pkt_send_def Let_def set_stat_def)
  have at_l: "ring_pos st j = ?l \<longleftrightarrow> j = k" if "j < MAX_SND_PKT_ENTRIES" for j
    using that k l(2) ring_pos_inj by metis
  have "last_pkt st' = ring_pos st' (Suc k)"
    unfolding rest pos l(2) by (simp add: ring_pos_def mod_Suc_eq)
  then have span': "ring_span (Suc k) st'"
    using span k nz at_l unfolding ring_span_def rest(2,3) pos slots by (auto simp: less_Suc_eq rest l(2))
  have ne: "p \<noteq> i" if "stat_at st p = pg_sending" for p using that i(2) by auto
  have "idx_at st s \<noteq> int i" if "s < MAX_SND_PKT_ENTRIES" for s
    using idx_sending [OF pages that] i(2) by blast
  then have pages': "ring_pages vtb st'"
    using pages ne free(2) l(1) i(1) unfolding ring_pages_def bus slots list
    by (auto simp: nat_eq_iff in_ring_def)
  have frames': "ring_frames vtb st'"
    using frames unfolding ring_frames_def bus by (auto simp: list)
  have "last_snd_pkt st \<noteq> ?l" if "0 < k"
    using at_l [of 0] that l(3) by (simp add: ring_pos_def)
  then have card': "ring_card (Suc k) st'"
    using card unfolding ring_card_def rest slots Let_def by auto
  show "ring_inv vtb (Suc k) st'"
    using span' pages' frames' card' by (simp add: ring_inv_def)
  show "queued st' = queued st @ [packet_of dest len (frames st (bus_at vtb st i))]"
    unfolding queued_span [OF span] queued_span [OF span'] pos
    using at_l k l(2) by (auto simp: slot_packet_def slots rest(1))
qed

lemma upd_slot_set_stat: "upd_slot s f (set_stat p x st) = set_stat p x (upd_slot s f st)"
  by (simp add: upd_slot_def set_stat_def upd_page_def)

text \<open>The header that \<open>myrPkt_xmit\<close> completes.\<close>

definition sent_page :: "int \<Rightarrow> int \<Rightarrow> page_t \<Rightarrow> page_t" where
  "sent_page len pnid pg = pg\<lparr>pg_hdr := (pg_hdr pg)\<lparr>ph_len := len, ph_src_nid := of_int pnid\<rparr>\<rparr>"

text \<open>The arguments that the last test of \<open>myrPkt_xmit\<close> lets pass.\<close>

definition sendable :: "16 word \<Rightarrow> int \<Rightarrow> bool" where
  "sendable dst len \<longleftrightarrow> 0 < len \<and> len \<le> int MYRPKT_MTU \<and> (uint dst \<le> int MAX_NODES \<or> uint dst = TEST_ROUTE_ID)"

lemma xmit_submit_inv:
  assumes inv: "ring_inv vtb k st" and i: "i < MAX_SND_PKT_ENTRIES" "stat_at st i = pg_checked_out"
    and free: "phys_at st (last_pkt st) = 0" "idx_at st (last_pkt st) = -1"
  obtains (refused) st' where "xmit_submit vtb dst i len st = (-1, st')" "ring_inv vtb k st'"
      "queued st' = queued st" "wire st' = wire st" "\<not> sendable dst len"
  | (sent) st' where "xmit_submit vtb dst i len st = (0, st')" "ring_inv vtb (Suc k) st'"
      "queued st' = queued st @ [packet_of (uint dst) len (frames st (bus_at vtb st i))]" "wire st' = wire st"
proof (cases "sendable dst len")
  case False
  then show thesis
    using set_stat_inv [OF inv i(1), of pg_avail] i(2) by (intro refused [of "set_stat i pg_avail st"]) (auto simp: xmit_submit_def sendable_def)
next
  case True
  note out = submit_inv [OF inv i(1) _ free, where len = len and dest = "uint dst"]
  show thesis
    by (rule sent [OF _ out(1) out(2)]) (use True i(2) in \<open>auto simp: xmit_submit_def sendable_def pkt_send_def Let_def\<close>)
qed

lemma myrPkt_xmit_inv:
  assumes inv: "ring_inv vtb k st" and i: "i < MAX_SND_PKT_ENTRIES" "stat_at st i = pg_checked_out"
  obtains (refused) st' where "myrPkt_xmit vtb dst (int i) len st = Some (-1, st')" "ring_inv vtb k st'"
      "queued st' = queued st" "wire st' = wire st" "\<not> rdy_to_snd st \<or> phys_at st (last_pkt st) \<noteq> 0 \<or> \<not> sendable dst len"
  | (sent) st' where "myrPkt_xmit vtb dst (int i) len st = Some (0, st')" "ring_inv vtb (Suc k) st'"
      "queued st' = queued st @ [packet_of (uint dst) len (sent_page len (my_pnid st) (frames st (bus_at vtb st i)))]"
      "wire st' = wire st"
proof -
  let ?l = "last_pkt st" let ?idx = "idx_at st ?l" and ?st = "write_page vtb i (sent_page len (my_pnid st)) st"
  have l: "?l < MAX_SND_PKT_ENTRIES" using inv by (simp add: ring_inv_def ring_span_def)
  have addr: "page_addr (int i) st \<noteq> 0"
    using inv i by (simp add: page_addr_def ring_inv_def ring_frames_def)
  have w: "ring_inv vtb k ?st" "queued ?st = queued st" using write_page_inv [OF inv i(1)] i(2) by simp_all
  have sp: "(\<lambda>pg. pg\<lparr>pg_hdr := (pg_hdr pg)\<lparr>ph_len := len, ph_src_nid := of_int (my_pnid st)\<rparr>\<rparr>) =
      sent_page len (my_pnid st)" by (simp add: sent_page_def fun_eq_iff)
  consider (bad) "\<not> rdy_to_snd st \<or> phys_at st ?l \<noteq> 0"
    | (idle) "rdy_to_snd st" "phys_at st ?l = 0" "?idx = -1"
    | (old) "rdy_to_snd st" "phys_at st ?l = 0" "?idx \<noteq> -1" by blast
  then show thesis
  proof cases
    case bad
    then show thesis
      using set_stat_inv [OF inv i(1), of pg_avail] i by (intro refused [of "set_stat i pg_avail st"]) (auto simp: myrPkt_xmit_def Let_def)
  next
    case idle
    then have eq: "myrPkt_xmit vtb dst (int i) len st = Some (xmit_submit vtb dst i len ?st)"
      using i addr by (simp add: myrPkt_xmit_def Let_def sp)
    show thesis
      by (rule xmit_submit_inv [OF w(1) i(1), of dst len])
        (use i idle eq w in \<open>auto intro: refused sent\<close>)
  next
    case old
    let ?p = "nat ?idx"
    let ?st' = "set_stat ?p pg_avail (upd_slot ?l (\<lambda>s. s\<lparr>sl_page_idx := -1\<rparr>) ?st)"
    have p: "in_ring ?idx" "stat_at st ?p = pg_sending" using inv l old by (auto simp: ring_inv_def ring_pages_def)
    then have idx: "idx_at ?st ?l = int ?p" "?p \<noteq> i" using i by (auto simp: in_ring_def)
    have eq: "myrPkt_xmit vtb dst (int i) len st = Some (xmit_submit vtb dst i len ?st')"
      using i addr old p by (simp add: myrPkt_xmit_def Let_def sp upd_slot_set_stat)
    have "ring_inv vtb k ?st'" by (rule clear_idx_inv [OF w(1) _ _ idx(1)]) (use l old in simp_all)
    then show thesis
      by (rule xmit_submit_inv [OF _ i(1), of vtb k ?st' dst len])
        (use i idx old eq w in \<open>auto intro: refused sent\<close>)
  qed
qed

section \<open>The card's steps\<close>

lemma card_pos0: "ring_span k st \<Longrightarrow> ring_pos st 0 = last_snd_pkt st"
  by (simp add: ring_span_def ring_pos_def)

lemma card_queued:
  assumes "ring_span k st" "0 < k"
  shows "queued st = slot_packet st (last_snd_pkt st) # map (\<lambda>j. slot_packet st (ring_pos st (Suc j))) [0..<k - 1]"
proof -
  obtain m where k: "k = Suc m" using assms(2) by (cases k) auto
  show ?thesis
    unfolding queued_span [OF assms(1)] k
    by (simp add: upt_conv_Cons card_pos0 [OF assms(1)] map_Suc_upt [symmetric] del: upt_Suc)
qed

text \<open>In state \<open>S2\<close> the packet leaves when it is on the card and the network has taken it.\<close>

lemma snd_S2_inv:
  assumes inv: "ring_inv vtb k st" and busy: "SndState st \<noteq> S0"
  shows "\<exists>k'. ring_inv vtb k' (snd_S2 b st) \<and> wire (snd_S2 b st) @ queued (snd_S2 b st) = wire st @ queued st"
proof (cases "snd_buf st = None \<or> \<not> b")
  case True
  then have "snd_S2 b st = st" by (auto simp: snd_S2_def split: option.splits)
  then show ?thesis using inv by auto
next
  case False
  let ?st = "snd_S2 b st" and ?l = "last_snd_pkt st"
  from False obtain pg where buf: "snd_buf st = Some pg" "b" by auto
  have span: "ring_span k st" using inv by (simp add: ring_inv_def)
  have card: "0 < k" "cur_len st = sl_len (snd_pkt_list st ?l)" "cur_dest st = sl_dest (snd_pkt_list st ?l)"
    "pg = frames st (phys_at st ?l)"
    using inv busy buf by (simp_all add: ring_inv_def ring_card_def Let_def)
  obtain m where k: "k = Suc m" using card(1) by (cases k) auto
  have m: "m < MAX_SND_PKT_ENTRIES" using span k by (simp add: ring_span_def)
  have eq: "?st = (upd_slot ?l (\<lambda>s. s\<lparr>sl_phys_addr := 0\<rparr>) st)\<lparr>wire := wire st @ [slot_packet st ?l],
      last_snd_pkt := (?l + 1) mod MAX_SND_PKT_ENTRIES, SndState := S0\<rparr>"
    using buf card by (simp add: snd_S2_def slot_packet_def)
  have pos: "ring_pos ?st j = ring_pos st (Suc j)" for j
    by (simp add: eq ring_pos_def mod_simps)
  have at_l: "ring_pos st (Suc j) = ?l \<longleftrightarrow> Suc j = MAX_SND_PKT_ENTRIES" if "j < MAX_SND_PKT_ENTRIES" for j
    using that ring_pos_inj [of st "Suc j" 0] card_pos0 [OF span]
    by (cases "Suc j = MAX_SND_PKT_ENTRIES") (auto simp: ring_pos_def less_Suc_eq)
  have span': "ring_span m ?st"
    using span m at_l unfolding ring_span_def pos k by (auto simp: eq Suc_lessI)
  have "ring_pages vtb ?st" "ring_frames vtb ?st" "ring_card m ?st"
    using inv by (auto simp: eq ring_inv_def ring_pages_def ring_frames_def ring_card_def)
  with span' have "ring_inv vtb m ?st" by (simp add: ring_inv_def)
  moreover have "slot_packet ?st (ring_pos st (Suc j)) = slot_packet st (ring_pos st (Suc j))" if "j < m" for j
    using at_l [of j] that m by (simp add: eq slot_packet_def)
  then have "wire ?st @ queued ?st = wire st @ queued st"
    unfolding queued_span [OF span'] card_queued [OF span card(1)] pos k by (simp add: eq)
  ultimately show ?thesis by blast
qed

definition card_ok :: "(64 word \<Rightarrow> 32 word) \<Rightarrow> packet list \<Rightarrow> snd_st \<Rightarrow> bool" where
  "card_ok vtb sent st \<longleftrightarrow> (\<exists>k. ring_inv vtb k st) \<and> wire st @ queued st = sent"

lemma card_okI: "ring_inv vtb k st \<Longrightarrow> wire st @ queued st = sent \<Longrightarrow> card_ok vtb sent st"
  by (auto simp: card_ok_def)

lemma snd_state_inv:
  assumes "ring_inv vtb k st" "SndState st \<noteq> S0" "s \<noteq> S0"
  shows "ring_inv vtb k (st\<lparr>SndState := s\<rparr>)" "queued (st\<lparr>SndState := s\<rparr>) = queued st"
proof -
  show "ring_inv vtb k (st\<lparr>SndState := s\<rparr>)"
    using assms by (simp add: ring_inv_def ring_span_def ring_pages_def ring_frames_def ring_card_def ring_pos_def Let_def)
  show "queued (st\<lparr>SndState := s\<rparr>) = queued st"
    by (simp add: queued_def slot_packet_def ring_pos_def cong: map_cong)
qed

lemma snd_S2_ok:
  assumes "card_ok vtb sent st" "SndState st \<noteq> S0" shows "card_ok vtb sent (snd_S2 b st)"
  using assms snd_S2_inv unfolding card_ok_def by metis

lemma snd_S1_ok:
  assumes "card_ok vtb sent st" "SndState st \<noteq> S0" shows "card_ok vtb sent (snd_S1 a b st)"
proof -
  from assms(1) obtain k where "ring_inv vtb k st" "wire st @ queued st = sent" by (auto simp: card_ok_def)
  then have "card_ok vtb sent (st\<lparr>SndState := S2\<rparr>)"
    using snd_state_inv [of vtb k st S2] assms(2) by (intro card_okI) simp_all
  then show ?thesis using assms by (simp add: snd_S1_def snd_S2_ok)
qed

lemma snd_S0_ok:
  assumes "card_ok vtb sent st" "SndState st = S0" shows "card_ok vtb sent (snd_S0 c a b st)"
proof -
  let ?s = "snd_pkt_list st (last_snd_pkt st)"
  let ?st = "st\<lparr>cur_len := sl_len ?s, hst_addr := sl_phys_addr ?s, cur_dest := sl_dest ?s, snd_buf := None, SndState := S1\<rparr>"
  from assms(1) obtain k where inv: "ring_inv vtb k st" and eq: "wire st @ queued st = sent" by (auto simp: card_ok_def)
  have "card_ok vtb sent ?st" if "sl_phys_addr ?s \<noteq> 0"
  proof (rule card_okI)
    have "0 < k"
      using that inv card_pos0 [of k st] unfolding ring_inv_def ring_span_def by (metis ring_size_pos(1) neq0_conv)
    then show "ring_inv vtb k ?st"
      using inv by (simp add: ring_inv_def ring_span_def ring_pages_def ring_frames_def ring_card_def ring_pos_def Let_def)
    show "wire ?st @ queued ?st = sent"
      using eq by (simp add: queued_def slot_packet_def ring_pos_def cong: map_cong)
  qed
  then show ?thesis using assms(1) by (simp add: snd_S0_def Let_def snd_S1_ok)
qed

lemma snd_statem_ok: "card_ok vtb sent st \<Longrightarrow> card_ok vtb sent (snd_statem c a b st)"
  by (simp add: snd_statem_def snd_S0_ok snd_S1_ok snd_S2_ok split: snd_states_t.split)

lemma e2l_dma_done_ok:
  assumes "card_ok vtb sent st" shows "card_ok vtb sent (e2l_dma_done st)"
proof -
  from assms obtain k where inv: "ring_inv vtb k st" and eq: "wire st @ queued st = sent" by (auto simp: card_ok_def)
  have "ring_inv vtb k (e2l_dma_done st)"
    using inv by (auto simp: e2l_dma_done_def ring_inv_def ring_span_def ring_pages_def ring_frames_def ring_card_def ring_pos_def Let_def)
  moreover have "wire (e2l_dma_done st) @ queued (e2l_dma_done st) = sent"
    using eq by (simp add: e2l_dma_done_def queued_def slot_packet_def ring_pos_def cong: map_cong)
  ultimately show ?thesis by (rule card_okI)
qed

section \<open>Runs\<close>

text \<open>
  The module is loaded, and the card has just been initialised (\<open>MCP/init.c\<close>).  The pages
  that the kernel gives are different frames, none of them at bus address zero.
\<close>

definition fresh_card :: "snd_st \<Rightarrow> bool" where
  "fresh_card st \<longleftrightarrow>
     (\<forall>i. sp_page (snd_page_list st i) = 0) \<and>
     (\<forall>i. snd_pkt_list st i = \<lparr>sl_phys_addr = 0, sl_len = 0, sl_dest = -1, sl_page_idx = -1\<rparr>) \<and>
     last_snd_pkt st = 0 \<and> SndState st = S0 \<and> wire st = []"

definition kernel_pages :: "(64 word \<Rightarrow> 32 word) \<Rightarrow> (nat \<Rightarrow> 64 word) \<Rightarrow> bool" where
  "kernel_pages vtb pgs \<longleftrightarrow>
     inj_on (\<lambda>i. vtb (pgs i)) {..<MAX_SND_PKT_ENTRIES} \<and> (\<forall>i < MAX_SND_PKT_ENTRIES. vtb (pgs i) \<noteq> 0)"

text \<open>
  The steps of the host on the pages it has checked out, with the packets that
  \<open>myrPkt_xmit\<close> has accepted, and the steps of the card.
\<close>

inductive ring_run :: "(64 word \<Rightarrow> 32 word) \<Rightarrow> (nat \<Rightarrow> 64 word) \<Rightarrow> snd_st \<Rightarrow> packet list \<Rightarrow> bool"
  for vtb pgs where
  load: "fresh_card st \<Longrightarrow> pkt_init_send pgs st = (0, st') \<Longrightarrow> ring_run vtb pgs st' []"
| get: "ring_run vtb pgs st sent \<Longrightarrow> get_snd_page st = Some (rc, st') \<Longrightarrow> ring_run vtb pgs st' sent"
| fill: "ring_run vtb pgs st sent \<Longrightarrow> i < MAX_SND_PKT_ENTRIES \<Longrightarrow> stat_at st i = pg_checked_out \<Longrightarrow>
    ring_run vtb pgs (write_page vtb i f st) sent"
| free: "ring_run vtb pgs st sent \<Longrightarrow> i < MAX_SND_PKT_ENTRIES \<Longrightarrow> stat_at st i = pg_checked_out \<Longrightarrow>
    ring_run vtb pgs (free_snd_page (int i) st) sent"
| xmit: "ring_run vtb pgs st sent \<Longrightarrow> i < MAX_SND_PKT_ENTRIES \<Longrightarrow> stat_at st i = pg_checked_out \<Longrightarrow>
    myrPkt_xmit vtb dst (int i) len st = Some (rc, st') \<Longrightarrow>
    ring_run vtb pgs st' (if rc = 0
      then sent @ [packet_of (uint dst) len (sent_page len (my_pnid st) (frames st (bus_at vtb st i)))] else sent)"
| ready: "ring_run vtb pgs st sent \<Longrightarrow> ring_run vtb pgs (st\<lparr>rdy_to_snd := b\<rparr>) sent"
| card: "ring_run vtb pgs st sent \<Longrightarrow> ring_run vtb pgs (snd_statem bus rdy taken st) sent"
| dma: "ring_run vtb pgs st sent \<Longrightarrow> ring_run vtb pgs (e2l_dma_done st) sent"

text \<open>What the loop of \<open>pkt_init_send\<close> leaves when it gets all its pages.\<close>

definition pages_of :: "(nat \<Rightarrow> 64 word) \<Rightarrow> nat set \<Rightarrow> (nat \<Rightarrow> snd_page_t) \<Rightarrow> nat \<Rightarrow> snd_page_t" where
  "pages_of pgs I old i =
     (if i \<in> I then \<lparr>sp_page = (if sp_page (old i) \<noteq> 0 then sp_page (old i) else pgs i),
        sp_stat = pg_avail, sp_slot = -1\<rparr> else old i)"

lemma init_send_loop_ok:
  assumes "init_send_loop pgs is st = (True, st')" "distinct is"
  shows "st' = st\<lparr>snd_page_list := pages_of pgs (set is) (snd_page_list st)\<rparr> \<and>
    (\<forall>i \<in> set is. sp_page (snd_page_list st' i) \<noteq> 0)"
  using assms
proof (induction "is" arbitrary: st)
  case Nil
  then show ?case by (simp add: pages_of_def)
next
  case (Cons i "is")
  let ?new = "if sp_page (snd_page_list st i) \<noteq> 0 then st else upd_page i (\<lambda>p. p\<lparr>sp_page := pgs i\<rparr>) st"
  let ?st = "upd_page i (\<lambda>p. p\<lparr>sp_stat := pg_avail, sp_slot := -1\<rparr>) ?new"
  from Cons.prems have nz: "sp_page (snd_page_list ?new i) \<noteq> 0" and rest: "init_send_loop pgs is ?st = (True, st')"
    by (auto simp: Let_def split: if_splits)
  have "distinct is" using Cons.prems(2) by simp
  note IH = conjunct1 [OF Cons.IH [OF rest this]] conjunct2 [OF Cons.IH [OF rest this]]
  have list: "pages_of pgs (set is) (snd_page_list ?st) = pages_of pgs (set (i # is)) (snd_page_list st)"
    using Cons.prems(2) by (auto simp: pages_of_def fun_eq_iff)
  have "st' = st\<lparr>snd_page_list := pages_of pgs (set (i # is)) (snd_page_list st)\<rparr>"
    unfolding IH(1) list by (simp add: upd_page_def)
  moreover from this nz have "sp_page (snd_page_list st' i) \<noteq> 0" by (auto simp: pages_of_def split: if_splits)
  ultimately show ?case using IH(2) by simp
qed

lemma load_ok:
  assumes fresh: "fresh_card st" and init: "pkt_init_send pgs st = (0, st')" and kp: "kernel_pages vtb pgs"
  shows "card_ok vtb [] st'"
proof -
  obtain st1 where loop: "init_send_loop pgs [0..<MAX_SND_PKT_ENTRIES] st = (True, st1)"
    and st': "st' = st1\<lparr>last_pkt := 0, next_avail := 0\<rparr>"
    using init by (auto simp: pkt_init_send_def split: prod.splits bool.splits)
  have st1: "st1 = st\<lparr>snd_page_list := pages_of pgs {..<MAX_SND_PKT_ENTRIES} (snd_page_list st)\<rparr>"
    and nz: "\<forall>i < MAX_SND_PKT_ENTRIES. sp_page (snd_page_list st1 i) \<noteq> 0"
    using init_send_loop_ok [OF loop] by (auto simp: atLeast0LessThan)
  have page: "sp_page (snd_page_list st' i) = pgs i" "stat_at st' i = pg_avail" if "i < MAX_SND_PKT_ENTRIES" for i
    using that fresh by (simp_all add: st' st1 pages_of_def fresh_card_def)
  have slot: "phys_at st' i = 0" "idx_at st' i = -1" for i
    using fresh by (simp_all add: st' st1 fresh_card_def)
  have span: "ring_span 0 st'" using slot fresh by (simp add: ring_span_def st' st1 fresh_card_def ring_pos_def)
  have "inj_on (bus_at vtb st') {..<MAX_SND_PKT_ENTRIES} = inj_on (\<lambda>i. vtb (pgs i)) {..<MAX_SND_PKT_ENTRIES}"
    by (rule inj_on_cong) (simp add: page)
  then have "ring_frames vtb st'" using kp nz page by (simp add: ring_frames_def kernel_pages_def st')
  moreover have "ring_pages vtb st'" using slot page by (simp add: ring_pages_def)
  moreover have "ring_card 0 st'" using fresh by (simp add: ring_card_def st' st1 fresh_card_def)
  ultimately have "ring_inv vtb 0 st'" using span by (simp add: ring_inv_def)
  moreover have "wire st' @ queued st' = []"
    using fresh queued_span [OF span] by (simp add: st' st1 fresh_card_def)
  ultimately show ?thesis by (rule card_okI)
qed

lemma ring_run_ok:
  assumes "ring_run vtb pgs st sent" "kernel_pages vtb pgs"
  shows "card_ok vtb sent st"
  using assms
proof (induction rule: ring_run.induct)
  case (get st sent rc st')
  then obtain k where k: "ring_inv vtb k st" "wire st @ queued st = sent" by (auto simp: card_ok_def)
  show ?case
    by (rule get_snd_page_inv [OF k(1)]) (use get.hyps k in \<open>auto intro: card_okI\<close>)
next
  case (fill st sent i f)
  then obtain k where k: "ring_inv vtb k st" "wire st @ queued st = sent" by (auto simp: card_ok_def)
  then show ?case using write_page_inv [OF k(1) fill.hyps(2)] fill.hyps(3) by (intro card_okI [of vtb k]) simp_all
next
  case (free st sent i)
  then obtain k where k: "ring_inv vtb k st" "wire st @ queued st = sent" by (auto simp: card_ok_def)
  then show ?case using set_stat_inv [OF k(1) free.hyps(2), of pg_avail] free.hyps by (auto simp: free_snd_page_def intro: card_okI)
next
  case (xmit st sent i dst len rc st')
  then obtain k where k: "ring_inv vtb k st" "wire st @ queued st = sent" by (auto simp: card_ok_def)
  show ?case
    by (rule myrPkt_xmit_inv [OF k(1) xmit.hyps(2,3), of dst len]) (use xmit.hyps k in \<open>auto intro: card_okI\<close>)
next
  case (ready st sent b)
  then obtain k where k: "ring_inv vtb k st" "wire st @ queued st = sent" by (auto simp: card_ok_def)
  have "ring_inv vtb k (st\<lparr>rdy_to_snd := b\<rparr>)"
    using k(1) by (simp add: ring_inv_def ring_span_def ring_pages_def ring_frames_def ring_card_def ring_pos_def Let_def)
  moreover have "queued (st\<lparr>rdy_to_snd := b\<rparr>) = queued st"
    by (simp add: queued_def slot_packet_def ring_pos_def cong: map_cong)
  ultimately show ?case using k(2) by (auto intro: card_okI)
qed (simp_all add: load_ok snd_statem_ok e2l_dma_done_ok)

lemma init_send_loop_total: "\<forall>i \<in> set is. pgs i \<noteq> 0 \<Longrightarrow> fst (init_send_loop pgs is st)"
  by (induction "is" arbitrary: st) (simp_all add: Let_def)

text \<open>A card, its pages, and the state after the module is loaded and one packet is submitted.\<close>

definition demo_pages :: "nat \<Rightarrow> 64 word" where
  "demo_pages i = of_nat ((i + 1) * 8192)"

definition demo_bus :: "64 word \<Rightarrow> 32 word" where
  "demo_bus v = ucast v"

definition demo_page :: page_t where
  "demo_page = \<lparr>pg_hdr = \<lparr>ph_type = CTS, ph_src_nid = 0, ph_msgID = 1, ph_len = 0, ph_seq = 0,
     ph_info = 0, ph_info2 = 0, ph_msgNum = 1\<rparr>, pg_phdr = None, pg_data = (\<lambda>_. 0)\<rparr>"

definition demo_card :: snd_st where
  "demo_card = \<lparr>snd_page_list = (\<lambda>_. \<lparr>sp_page = 0, sp_stat = pg_empty, sp_slot = -1\<rparr>), last_pkt = 0,
     next_avail = 0, rdy_to_snd = True, my_pnid = 3,
     snd_pkt_list = (\<lambda>_. \<lparr>sl_phys_addr = 0, sl_len = 0, sl_dest = -1, sl_page_idx = -1\<rparr>),
     frames = (\<lambda>_. demo_page), SndState = S0, last_snd_pkt = 0, cur_len = 0, cur_dest = 0, hst_addr = 0,
     snd_buf = None, wire = []\<rparr>"

definition demo_load :: snd_st where
  "demo_load = snd (pkt_init_send demo_pages demo_card)"

definition demo_got :: snd_st where
  "demo_got = snd (the (get_snd_page demo_load))"

definition demo_sent :: snd_st where
  "demo_sent = snd (the (myrPkt_xmit demo_bus 5 0 100 demo_got))"

lemma demo_bus_pages: "demo_bus (demo_pages i) = of_nat ((i + 1) * 8192)"
  unfolding demo_bus_def demo_pages_def by (transfer, simp)

lemma unat_demo: "i < MAX_SND_PKT_ENTRIES \<Longrightarrow> unat (of_nat ((i + 1) * 8192) :: 32 word) = (i + 1) * 8192"
  by (simp add: unat_of_nat take_bit_nat_eq_self MAX_SND_PKT_ENTRIES_def del: of_nat_mult of_nat_add)

lemma demo_kernel_pages: "kernel_pages demo_bus demo_pages"
proof -
  have "inj_on (\<lambda>i. demo_bus (demo_pages i)) {..<MAX_SND_PKT_ENTRIES}"
  proof (rule inj_onI)
    fix i j assume "i \<in> {..<MAX_SND_PKT_ENTRIES}" "j \<in> {..<MAX_SND_PKT_ENTRIES}" "demo_bus (demo_pages i) = demo_bus (demo_pages j)"
    then show "i = j" unfolding demo_bus_pages using unat_demo [of i] unat_demo [of j] by simp
  qed
  moreover have "demo_bus (demo_pages i) \<noteq> 0" if "i < MAX_SND_PKT_ENTRIES" for i
    unfolding demo_bus_pages using unat_demo [OF that] by (metis add_is_0 mult_is_0 one_neq_zero unat_0 zero_neq_numeral)
  ultimately show ?thesis by (simp add: kernel_pages_def)
qed

lemma demo_pages_nz: "i < MAX_SND_PKT_ENTRIES \<Longrightarrow> demo_pages i \<noteq> 0"
  using demo_kernel_pages by (auto simp: kernel_pages_def demo_bus_def)

lemma demo_load_eq:
  "pkt_init_send demo_pages demo_card = (0, demo_load)"
  "demo_load = demo_card\<lparr>snd_page_list := pages_of demo_pages {..<MAX_SND_PKT_ENTRIES} (snd_page_list demo_card)\<rparr>"
proof -
  let ?loop = "init_send_loop demo_pages [0..<MAX_SND_PKT_ENTRIES] demo_card"
  have "fst ?loop" by (rule init_send_loop_total) (simp add: demo_pages_nz)
  then obtain st where loop: "?loop = (True, st)" by (cases ?loop) auto
  have "st = demo_card\<lparr>snd_page_list := pages_of demo_pages {..<MAX_SND_PKT_ENTRIES} (snd_page_list demo_card)\<rparr>"
    using init_send_loop_ok [OF loop] by (simp add: atLeast0LessThan)
  moreover have init: "pkt_init_send demo_pages demo_card = (0, st\<lparr>last_pkt := 0, next_avail := 0\<rparr>)"
    by (simp add: pkt_init_send_def loop)
  ultimately show "pkt_init_send demo_pages demo_card = (0, demo_load)"
    "demo_load = demo_card\<lparr>snd_page_list := pages_of demo_pages {..<MAX_SND_PKT_ENTRIES} (snd_page_list demo_card)\<rparr>"
    by (simp_all add: demo_load_def demo_card_def)
qed

lemma demo_run_load: "ring_run demo_bus demo_pages demo_load []"
  by (rule ring_run.load [OF _ demo_load_eq(1)]) (simp add: fresh_card_def demo_card_def)

lemma demo_got_eq: "get_snd_page demo_load = Some (0, demo_got)" "sp_stat (snd_page_list demo_got 0) = pg_checked_out"
  by (simp_all add: demo_got_def get_snd_page_def demo_load_eq(2) demo_card_def pages_of_def take_next_def Let_def)

lemma demo_sent_eq: "myrPkt_xmit demo_bus 5 0 100 demo_got = Some (0, demo_sent)"
proof -
  have "sp_page (snd_page_list demo_got 0) \<noteq> 0"
    using demo_pages_nz [of 0]
    by (simp add: demo_got_def get_snd_page_def demo_load_eq(2) demo_card_def pages_of_def take_next_def Let_def)
  then show ?thesis
    unfolding demo_sent_def
    by (simp add: myrPkt_xmit_def xmit_submit_def in_ring_def page_addr_def demo_got_eq(2) Let_def)
      (simp add: demo_got_def get_snd_page_def demo_load_eq(2) demo_card_def pages_of_def take_next_def Let_def
        MYRPKT_MTU_def PAGE_SHIFT_def MAX_NODES_def)
qed

section \<open>Properties\<close>

text \<open>
  C28: the packets that have left the card, followed by those still in the ring,
  are exactly the packets that \<open>myrPkt_xmit\<close> has accepted, in the order of acceptance and
  with the contents the page had then, after any interleaving of host and card steps.
\<close>

theorem send_ring_fifo:
  assumes "kernel_pages virt_to_bus pgs" "ring_run virt_to_bus pgs st sent"
  shows "wire st @ queued st = sent"
  using ring_run_ok [OF assms(2,1)] by (simp add: card_ok_def)

theorem send_ring_fifo_witness:
  "wire demo_sent @ queued demo_sent = [packet_of 5 100 (sent_page 100 3 demo_page)]"
proof -
  have run: "ring_run demo_bus demo_pages demo_got []" by (rule ring_run.get [OF demo_run_load demo_got_eq(1)])
  have "my_pnid demo_got = 3" "frames demo_got = (\<lambda>_. demo_page)"
    by (simp_all add: demo_got_def get_snd_page_def demo_load_eq(2) demo_card_def pages_of_def take_next_def Let_def)
  then have "ring_run demo_bus demo_pages demo_sent [packet_of 5 100 (sent_page 100 3 demo_page)]"
    using ring_run.xmit [OF run _ demo_got_eq(2), of 5 100 0 demo_sent] demo_sent_eq by simp
  then show ?thesis by (rule send_ring_fifo [OF demo_kernel_pages])
qed

text \<open>
  C29: \<open>get_snd_page\<close> never faults; it refuses only while the card has yet to
  send the next page; the page it gives is not the frame of any packet the card has still to
  read.
\<close>

theorem page_private:
  assumes "kernel_pages virt_to_bus pgs" "ring_run virt_to_bus pgs st sent"
  shows "\<exists>rc st'. get_snd_page st = Some (rc, st') \<and>
    (rc = -1 \<and> st' = st \<and> phys_at st (nat (sp_slot (snd_page_list st (next_avail st)))) \<noteq> 0 \<or>
     in_ring rc \<and> sp_stat (snd_page_list st' (nat rc)) = pg_checked_out \<and>
     (\<forall>s < MAX_SND_PKT_ENTRIES. phys_at st' s \<noteq> 0 \<longrightarrow> phys_at st' s \<noteq> bus_at virt_to_bus st' (nat rc)))"
proof -
  obtain k where inv: "ring_inv virt_to_bus k st" using ring_run_ok [OF assms(2,1)] by (auto simp: card_ok_def)
  then show ?thesis
  proof (cases rule: get_snd_page_inv)
    case (given i st')
    then show ?thesis using pending_frame [OF given(4,3)] by simp
  qed simp
qed

theorem page_private_witness:
  "\<exists>rc st'. get_snd_page demo_load = Some (rc, st') \<and>
    (rc = -1 \<and> st' = demo_load \<and> phys_at demo_load (nat (sp_slot (snd_page_list demo_load (next_avail demo_load)))) \<noteq> 0 \<or>
     in_ring rc \<and> sp_stat (snd_page_list st' (nat rc)) = pg_checked_out \<and>
     (\<forall>s < MAX_SND_PKT_ENTRIES. phys_at st' s \<noteq> 0 \<longrightarrow> phys_at st' s \<noteq> bus_at demo_bus st' (nat rc)))"
  by (rule page_private [OF demo_kernel_pages demo_run_load])

end
