(* ===== verification/R_Copy.thy ===== *)
theory R_Copy
  imports R_Proto
begin

text \<open>
  \<open>memcpy2\<close> moves exactly the bytes a process sees at its addresses, page by page, when
  they are mapped.
\<close>

section \<open>The memory of a process\<close>

definition phys :: "page_tables \<Rightarrow> 64 word \<Rightarrow> nat \<Rightarrow> 64 word" where
  "phys frame v i = calcPhysAddress PAGE_SHIFT frame (v + of_nat i)"

definition user_bytes :: "page_tables \<Rightarrow> 64 word \<Rightarrow> nat \<Rightarrow> memory \<Rightarrow> 8 word list" where
  "user_bytes frame v n mem = map (\<lambda>i. mem (phys frame v i)) [0..<n]"

definition mapped :: "page_tables \<Rightarrow> 64 word \<Rightarrow> nat \<Rightarrow> bool" where
  "mapped frame v n \<longleftrightarrow> frames_ok PAGE_SHIFT frame \<and> (\<forall>i < n. phys frame v i \<noteq> 0)"

text \<open>No two addresses of the buffer share a byte of memory.\<close>

definition writable :: "page_tables \<Rightarrow> 64 word \<Rightarrow> nat \<Rightarrow> bool" where
  "writable frame v n \<longleftrightarrow> mapped frame v n \<and> inj_on (phys frame v) {..<n}"

lemma phys_shift: "phys frame (v + of_nat c) i = phys frame v (c + i)"
  by (simp add: phys_def add.assoc)

lemma phys_0: "phys frame v 0 = calcPhysAddress PAGE_SHIFT frame v"
  by (simp add: phys_def)

lemma mapped_shift: "mapped frame v n \<Longrightarrow> c + m \<le> n \<Longrightarrow> mapped frame (v + of_nat c) m"
  unfolding mapped_def phys_shift by auto

lemma writable_shift: "writable frame v n \<Longrightarrow> c + m \<le> n \<Longrightarrow> writable frame (v + of_nat c) m"
  unfolding writable_def inj_on_def phys_shift using mapped_shift by (fastforce simp: phys_shift)

lemma user_bytes_length [simp]: "length (user_bytes frame v n mem) = n"
  by (simp add: user_bytes_def)

lemma user_bytes_nth [simp]: "i < n \<Longrightarrow> user_bytes frame v n mem ! i = mem (phys frame v i)"
  by (simp add: user_bytes_def)

lemma user_bytes_split:
  "c \<le> n \<Longrightarrow> user_bytes frame v n mem = user_bytes frame v c mem @ user_bytes frame (v + of_nat c) (n - c) mem"
  unfolding user_bytes_def phys_shift by (rule map_upt_split)

lemma user_bytes_slice:
  "off + m \<le> n \<Longrightarrow> user_bytes frame (v + of_nat off) m mem = take m (drop off (user_bytes frame v n mem))"
  by (rule nth_equalityI) (simp_all add: phys_shift)

section \<open>The loops\<close>

lemma chunk_ok:
  assumes "mapped frame v n" "0 < n"
  defines "c \<equiv> copy_chunk (phys frame v 0) n"
  shows "0 < c" "c \<le> n" "\<And>i. i < c \<Longrightarrow> phys frame v i = phys frame v 0 + of_nat i" "c \<le> 2 ^ PAGE_SHIFT"
proof -
  have nz: "phys frame v 0 \<noteq> 0" using assms(1,2) unfolding mapped_def by blast
  have o: "page_off PAGE_SHIFT (phys frame v 0) = page_off PAGE_SHIFT v"
    using assms(1) nz unfolding phys_0 by (intro calcPhys_page_off) (simp_all add: mapped_def PAGE_SHIFT_def)
  show "0 < c" using assms(2) copy_chunk_pos unfolding c_def by blast
  show "c \<le> n" by (simp add: c_def copy_chunk_def Let_def)
  have lt: "unat (page_off PAGE_SHIFT v) + c \<le> 2 ^ PAGE_SHIFT"
    using page_off_unat [of PAGE_SHIFT v] unfolding c_def copy_chunk_def Let_def o by auto
  then show "c \<le> 2 ^ PAGE_SHIFT" by simp
  show "phys frame v i = phys frame v 0 + of_nat i" if "i < c" for i
    using calcPhys_linear [of PAGE_SHIFT frame v i] nz lt that by (simp add: PAGE_SHIFT_def phys_def)
qed

lemma from_user_loop_ok:
  assumes "mapped frame v n"
  shows "from_user_loop frame v n mem = Some (user_bytes frame v n mem)"
  using assms
proof (induction n arbitrary: v rule: less_induct)
  case (less n)
  show ?case
  proof (cases "n = 0")
    case True
    then show ?thesis by (simp add: user_bytes_def from_user_loop.simps)
  next
    case False
    let ?c = "copy_chunk (phys frame v 0) n"
    have pos: "0 < n" using False by simp
    note c = chunk_ok [OF less.prems pos]
    have nz: "phys frame v 0 \<noteq> 0" using less.prems pos unfolding mapped_def by blast
    have "mapped frame (v + of_nat ?c) (n - ?c)" using mapped_shift [OF less.prems, of ?c "n - ?c"] c(2) by simp
    then have "from_user_loop frame (v + of_nat ?c) (n - ?c) mem = Some (user_bytes frame (v + of_nat ?c) (n - ?c) mem)"
      using less.IH [of "n - ?c"] c(1) pos by simp
    moreover have "map (\<lambda>i. mem (phys frame v 0 + of_nat i)) [0..<?c] = user_bytes frame v ?c mem"
      unfolding user_bytes_def by (rule map_cong) (auto simp: c(3) [symmetric])
    ultimately have "from_user_loop frame v n mem = Some (user_bytes frame v ?c mem @ user_bytes frame (v + of_nat ?c) (n - ?c) mem)"
      using nz False by (subst from_user_loop.simps) (simp add: Let_def phys_0)
    then show ?thesis using user_bytes_split [OF c(2)] by simp
  qed
qed

lemma put_bytes_in:
  assumes "i < length bs" "length bs \<le> 2 ^ PAGE_SHIFT"
  shows "put_bytes a bs mem (a + of_nat i) = bs ! i"
proof -
  have "unat (of_nat i :: 64 word) = i"
    using assms by (simp add: unat_of_nat take_bit_nat_eq_self PAGE_SHIFT_def)
  then show ?thesis using assms(1) by (simp add: put_bytes_def)
qed

lemma put_bytes_out:
  assumes "\<And>i. i < length bs \<Longrightarrow> p \<noteq> a + of_nat i"
  shows "put_bytes a bs mem p = mem p"
proof -
  have "\<not> unat (p - a) < length bs"
  proof
    assume "unat (p - a) < length bs"
    then have "p \<noteq> a + of_nat (unat (p - a))" by (rule assms)
    then show False by simp
  qed
  then show ?thesis by (simp add: put_bytes_def)
qed

text \<open>The memory after a copy to a buffer.\<close>

definition stored :: "page_tables \<Rightarrow> 64 word \<Rightarrow> 8 word list \<Rightarrow> memory \<Rightarrow> memory \<Rightarrow> bool" where
  "stored frame v bs mem mem' \<longleftrightarrow>
     (\<forall>i < length bs. mem' (phys frame v i) = bs ! i) \<and>
     (\<forall>p. (\<forall>i < length bs. p \<noteq> phys frame v i) \<longrightarrow> mem' p = mem p)"

lemma stored_step:
  assumes w: "writable frame v (length bs)" and c: "c \<le> length bs" "c \<le> 2 ^ PAGE_SHIFT"
    and lin: "\<And>i. i < c \<Longrightarrow> phys frame v i = a + of_nat i"
    and rest: "stored frame (v + of_nat c) (drop c bs) (put_bytes a (take c bs) mem) mem'"
  shows "stored frame v bs mem mem'"
proof -
  have inj: "phys frame v i = phys frame v j \<longleftrightarrow> i = j" if "i < length bs" "j < length bs" for i j
    using w that unfolding writable_def by (auto dest: inj_onD)
  have old: "mem' p = put_bytes a (take c bs) mem p" if "\<And>i. c \<le> i \<Longrightarrow> i < length bs \<Longrightarrow> p \<noteq> phys frame v i" for p
  proof -
    have "\<forall>i < length (drop c bs). p \<noteq> phys frame (v + of_nat c) i"
      using that by (simp add: phys_shift)
    then show ?thesis using rest unfolding stored_def by blast
  qed
  have "mem' (phys frame v i) = bs ! i" if i: "i < length bs" for i
  proof (cases "i < c")
    case True
    have "mem' (phys frame v i) = put_bytes a (take c bs) mem (phys frame v i)"
      using inj i True by (intro old) auto
    then show ?thesis using lin [OF True] True c put_bytes_in [of i "take c bs" a mem] by simp
  next
    case False
    then have "i - c < length (drop c bs)" using i by simp
    then have "mem' (phys frame (v + of_nat c) (i - c)) = drop c bs ! (i - c)" using rest unfolding stored_def by blast
    then show ?thesis unfolding phys_shift using False i by simp
  qed
  moreover have "mem' p = mem p" if p: "\<forall>i < length bs. p \<noteq> phys frame v i" for p
  proof -
    have "mem' p = put_bytes a (take c bs) mem p" using p by (intro old) auto
    also have "\<dots> = mem p" using p c(1) by (intro put_bytes_out) (simp add: lin [symmetric])
    finally show ?thesis .
  qed
  ultimately show ?thesis unfolding stored_def by blast
qed

lemma to_user_loop_ok:
  assumes "writable frame v (length bs)"
  shows "\<exists>mem'. to_user_loop frame v bs mem = (0, mem') \<and> stored frame v bs mem mem'"
  using assms
proof (induction "length bs" arbitrary: v bs mem rule: less_induct)
  case less
  show ?case
  proof (cases "bs = []")
    case True
    then show ?thesis by (simp add: stored_def to_user_loop.simps)
  next
    case False
    let ?c = "copy_chunk (phys frame v 0) (length bs)"
    have pos: "0 < length bs" and m: "mapped frame v (length bs)" using False less.prems by (simp_all add: writable_def)
    note c = chunk_ok [OF m pos]
    have nz: "phys frame v 0 \<noteq> 0" using m pos unfolding mapped_def by blast
    let ?mem = "put_bytes (phys frame v 0) (take ?c bs) mem"
    have "writable frame (v + of_nat ?c) (length (drop ?c bs))"
      using writable_shift [OF less.prems, of ?c "length bs - ?c"] c(2) by simp
    then obtain mem' where m': "to_user_loop frame (v + of_nat ?c) (drop ?c bs) ?mem = (0, mem')"
        "stored frame (v + of_nat ?c) (drop ?c bs) ?mem mem'"
      using less.hyps [of "drop ?c bs" "v + of_nat ?c" ?mem] c(1,2) pos by auto
    have "to_user_loop frame v bs mem = (0, mem')"
      using m'(1) nz False by (subst to_user_loop.simps) (simp add: Let_def phys_0)
    moreover have "stored frame v bs mem mem'"
      using stored_step [OF less.prems c(2,4) c(3) m'(2)] by simp
    ultimately show ?thesis by blast
  qed
qed

text \<open>What the process sees afterwards of a larger buffer.\<close>

lemma stored_slice:
  assumes w: "writable frame v n" and le: "off + length bs \<le> n"
    and st: "stored frame (v + of_nat off) bs mem mem'"
  shows "user_bytes frame v n mem' =
    take off (user_bytes frame v n mem) @ bs @ drop (off + length bs) (user_bytes frame v n mem)" (is "?l = ?r")
proof (rule nth_equalityI)
  show "length ?l = length ?r" using le by simp
  fix i assume "i < length ?l"
  then have i: "i < n" by simp
  have keep: "mem' (phys frame v i) = mem (phys frame v i)" if "i < off \<or> off + length bs \<le> i"
  proof -
    have "phys frame v i \<noteq> phys frame (v + of_nat off) j" if "j < length bs" for j
      using w i le that \<open>i < off \<or> off + length bs \<le> i\<close> unfolding phys_shift writable_def by (auto dest!: inj_onD)
    then show ?thesis using st unfolding stored_def by blast
  qed
  have new: "mem' (phys frame v i) = bs ! (i - off)" if "off \<le> i" "i < off + length bs"
  proof -
    have "mem' (phys frame (v + of_nat off) (i - off)) = bs ! (i - off)"
      using st that unfolding stored_def by auto
    then show ?thesis unfolding phys_shift using that by simp
  qed
  show "?l ! i = ?r ! i"
    using i le keep new by (auto simp: nth_append min_def)
qed

section \<open>memcpy2\<close>

lemma memcpy2_from_user_ok:
  assumes "mm_of env task = Some frame" "mapped frame v n"
  shows "memcpy2_from_user env task to v n mem =
    (0, \<lambda>i. if i < n then user_bytes frame v n mem ! i else to i)"
  using assms from_user_loop_ok [OF assms(2), of mem] by (simp add: memcpy2_from_user_def fun_eq_iff)

lemma memcpy2_to_user_ok:
  assumes "mm_of env task = Some frame" "writable frame v (length bs)"
  obtains mem' where "memcpy2_to_user env task v bs mem = (0, mem')" "stored frame v bs mem mem'"
  using assms to_user_loop_ok [OF assms(2), of mem] by (auto simp: memcpy2_to_user_def)

end
