(* ===== verification/R_QueueProps.thy ===== *)
theory R_QueueProps
  imports R_Queue P30_Links
begin

text \<open>
  The queues refine lists: while the links are sound, every operation of \<open>queue.c\<close>
  returns, and does to the list of the entries what its comment says.
\<close>

section \<open>The lists\<close>

definition qn :: "qheap \<Rightarrow> nat \<Rightarrow> nat option" where
  "qn h a = Option.bind (h a) q_next"

definition on_queue :: "'a queues_scheme \<Rightarrow> Q_t \<Rightarrow> nat list \<Rightarrow> bool" where
  "on_queue st Q as \<longleftrightarrow>
     seg (qn (qheap st)) (Qhead st Q) as None \<and> Qtail st Q = (if as = [] then None else Some (last as)) \<and>
     set as \<subseteq> dom (qheap st)"

definition queues_ok :: "'a queues_scheme \<Rightarrow> (Q_t \<Rightarrow> nat list) \<Rightarrow> bool" where
  "queues_ok st qs \<longleftrightarrow>
     (\<forall>Q. on_queue st Q (qs Q)) \<and> (\<forall>Q R. Q \<noteq> R \<longrightarrow> set (qs Q) \<inter> set (qs R) = {})"

text \<open>An entry without its link, which only the queue functions read.\<close>

definition unlinked :: "Qentry_t \<Rightarrow> Qentry_t" where
  "unlinked e = e\<lparr>q_next := None\<rparr>"

definition ent :: "'a queues_scheme \<Rightarrow> nat \<Rightarrow> Qentry_t option" where
  "ent st a = map_option unlinked (qheap st a)"

text \<open>What the queue functions leave alone.\<close>

definition frame_eq :: "'a queues_scheme \<Rightarrow> 'a queues_scheme \<Rightarrow> bool" where
  "frame_eq st st' \<longleftrightarrow>
     jiffies st' = jiffies st \<and> outstanding_pkts st' = outstanding_pkts st \<and> queues.more st' = queues.more st"

lemma unlinked_sel [simp]:
  "q_msgID (unlinked e) = q_msgID e" "q_task (unlinked e) = q_task e" "q_event (unlinked e) = q_event e"
  "q_granted_pkts (unlinked e) = q_granted_pkts e" "q_idle (unlinked e) = q_idle e"
  "q_dst_nid (unlinked e) = q_dst_nid e" "q_msgNum (unlinked e) = q_msgNum e"
  by (simp_all add: unlinked_def)

lemma unlinked_next [simp]: "unlinked (e\<lparr>q_next := p\<rparr>) = unlinked e"
  by (simp add: unlinked_def)

lemma qn_upd [simp]: "qn (h(a \<mapsto> e)) = (qn h)(a := q_next e)"
  by (auto simp: qn_def fun_eq_iff)

lemma seg_cong: "(\<And>a. a \<in> set as \<Longrightarrow> f a = g a) \<Longrightarrow> seg f p as q = seg g p as q"
  by (induction as arbitrary: p) auto

lemma on_queueD:
  assumes "on_queue st Q as"
  shows "distinct as" "set as \<subseteq> dom (qheap st)" "Qhead st Q = (if as = [] then None else Some (hd as))"
    "Qtail st Q = (if as = [] then None else Some (last as))"
  using assms seg_distinct by (auto simp: on_queue_def neq_Nil_conv)

lemma on_queue_frame:
  assumes "on_queue st Q as" "Qhead st' Q = Qhead st Q" "Qtail st' Q = Qtail st Q"
    "\<And>a. a \<in> set as \<Longrightarrow> qheap st' a = qheap st a"
  shows "on_queue st' Q as"
proof -
  have "seg (qn (qheap st')) (Qhead st Q) as None = seg (qn (qheap st)) (Qhead st Q) as None"
    by (rule seg_cong) (simp add: qn_def assms(4))
  then show ?thesis using assms by (auto simp: on_queue_def)
qed

lemma queues_okD:
  assumes "queues_ok st qs"
  shows "on_queue st Q (qs Q)" "Q \<noteq> R \<Longrightarrow> a \<in> set (qs Q) \<Longrightarrow> a \<notin> set (qs R)"
  using assms by (auto simp: queues_ok_def)

lemma queues_ok_frame:
  assumes ok: "queues_ok st qs" and Q: "on_queue st' Q as"
    and rest: "\<And>R. R \<noteq> Q \<Longrightarrow> Qhead st' R = Qhead st R \<and> Qtail st' R = Qtail st R"
    and heap: "\<And>R a. R \<noteq> Q \<Longrightarrow> a \<in> set (qs R) \<Longrightarrow> qheap st' a = qheap st a \<and> a \<notin> set as"
  shows "queues_ok st' (qs(Q := as))"
proof -
  have on: "on_queue st' R (qs R)" if "R \<noteq> Q" for R
    using on_queue_frame [OF queues_okD(1) [OF ok]] rest [OF that] heap [OF that] by blast
  have disj: "set (qs R) \<inter> set as = {}" if "R \<noteq> Q" for R using heap [OF that] by auto
  have "set ((qs(Q := as)) R) \<inter> set ((qs(Q := as)) S) = {}" if "R \<noteq> S" for R S
    using that disj [of R] disj [of S] ok by (cases "R = Q"; cases "S = Q") (auto simp: queues_ok_def)
  moreover have "on_queue st' R ((qs(Q := as)) R)" for R using Q on by simp
  ultimately show ?thesis by (simp add: queues_ok_def del: fun_upd_apply)
qed

section \<open>Updates of an entry\<close>

lemma upd_entry_Some: "qheap st a = Some e \<Longrightarrow> upd_entry a f st = Some (st\<lparr>qheap := (qheap st)(a \<mapsto> f e)\<rparr>)"
  by (simp add: upd_entry_def)

lemma upd_entry_ok:
  assumes ok: "queues_ok st qs" and a: "qheap st a = Some e" and f: "q_next (f e) = q_next e"
  shows "queues_ok (st\<lparr>qheap := (qheap st)(a \<mapsto> f e)\<rparr>) qs"
proof -
  have "qn ((qheap st)(a \<mapsto> f e)) = qn (qheap st)" using a f by (auto simp: qn_def fun_eq_iff)
  then show ?thesis using ok by (auto simp: queues_ok_def on_queue_def)
qed

section \<open>Adding\<close>

lemma link_tail_ok:
  assumes ok: "queues_ok st qs" and a: "qheap st a = Some e" and new: "\<And>R. a \<notin> set (qs R)"
  obtains st' where "link_tail Q a st = Some st'" "frame_eq st st'" "Qhead st' = (Qhead st)(Q := Some (hd (qs Q @ [a])))"
    "Qtail st' = (Qtail st)(Q := Some a)" "qheap st' a = Some e" "ent st' = ent st"
    "\<And>b. b \<notin> set (qs Q) \<Longrightarrow> qheap st' b = qheap st b"
    "seg (qn (qheap st')) (Qhead st' Q) (qs Q @ [a]) (q_next e)" "set (qs Q @ [a]) \<subseteq> dom (qheap st')"
proof (cases "qs Q = []")
  case True
  note q = on_queueD [OF queues_okD(1) [OF ok, of Q], unfolded True, simplified]
  show thesis
    by (rule that [of "set_tail Q (Some a) (set_head Q (Some a) st)"])
      (use q a True in \<open>simp_all add: link_tail_def set_head_def set_tail_def frame_eq_def ent_def qn_def fun_eq_iff domIff\<close>)
next
  case False
  note on = queues_okD(1) [OF ok, of Q] and q = on_queueD [OF queues_okD(1) [OF ok, of Q]]
  obtain bs t where bs: "qs Q = bs @ [t]" using False by (metis rev_exhaust)
  obtain x where t: "qheap st t = Some x" using q(2) bs by auto
  let ?st = "set_tail Q (Some a) (st\<lparr>qheap := (qheap st)(t \<mapsto> x\<lparr>q_next := Some a\<rparr>)\<rparr>)"
  have ne: "t \<noteq> a" "t \<notin> set bs" using new [of Q] q(1) bs by auto
  have seg: "seg (qn (qheap st)) (Qhead st Q) bs (Some t)" using on bs by (auto simp: on_queue_def)
  show thesis
    by (rule that [of ?st])
      (use q bs t ne a seg in \<open>auto simp: link_tail_def upd_entry_Some set_tail_def frame_eq_def ent_def fun_eq_iff qn_def hd_append\<close>)
qed

lemma appended:
  assumes ok: "queues_ok st qs" and new: "\<And>R. a \<notin> set (qs R)"
    and seg: "seg (qn (qheap st')) (Qhead st' Q) (qs Q @ [a]) None" "set (qs Q @ [a]) \<subseteq> dom (qheap st')"
    and ptr: "Qhead st' = (Qhead st)(Q := p)" "Qtail st' = (Qtail st)(Q := Some a)"
    and heap: "\<And>b. b \<notin> set (qs Q) \<Longrightarrow> b \<noteq> a \<Longrightarrow> qheap st' b = qheap st b"
  shows "queues_ok st' (qs(Q := qs Q @ [a]))"
proof (rule queues_ok_frame [OF ok])
  show "on_queue st' Q (qs Q @ [a])" using seg ptr by (simp add: on_queue_def)
  fix R b assume R: "R \<noteq> Q"
  then show "Qhead st' R = Qhead st R \<and> Qtail st' R = Qtail st R" using ptr by simp
  assume b: "b \<in> set (qs R)"
  then have "b \<notin> set (qs Q)" "b \<noteq> a" using queues_okD(2) [OF ok R b] new [of R] by auto
  then show "qheap st' b = qheap st b \<and> b \<notin> set (qs Q @ [a])" using heap by simp
qed

text \<open>\<open>enqueue\<close> adds a new entry at the end, or nothing when there is no memory.\<close>

lemma enqueue_ok:
  assumes ok: "queues_ok st qs" and km: "km (qheap st) = Some (a, junk)" "qheap st a = None"
  obtains st' where "enqueue km Q msgID st = Some (Some a, st')" "queues_ok st' (qs(Q := qs Q @ [a]))" "frame_eq st st'"
    "ent st' = (ent st)(a \<mapsto> unlinked (new_entry msgID (jiffies st) junk))"
proof -
  let ?e = "new_entry msgID (jiffies st) junk" and ?st = "st\<lparr>qheap := (qheap st)(a \<mapsto> new_entry msgID (jiffies st) junk)\<rparr>"
  have new: "a \<notin> set (qs R)" for R using on_queueD(2) [OF queues_okD(1) [OF ok, of R]] km(2) by auto
  have ok1: "queues_ok ?st qs"
  proof -
    have "on_queue ?st R (qs R)" for R
      by (rule on_queue_frame [OF queues_okD(1) [OF ok, of R]]) (use new [of R] in auto)
    then show ?thesis using ok by (simp add: queues_ok_def)
  qed
  obtain st' where link: "link_tail Q a ?st = Some st'" "frame_eq ?st st'"
      "Qhead st' = (Qhead ?st)(Q := Some (hd (qs Q @ [a])))" "Qtail st' = (Qtail ?st)(Q := Some a)" "qheap st' a = Some ?e"
      "ent st' = ent ?st" "\<And>b. b \<notin> set (qs Q) \<Longrightarrow> qheap st' b = qheap ?st b"
      "seg (qn (qheap st')) (Qhead st' Q) (qs Q @ [a]) (q_next ?e)" "set (qs Q @ [a]) \<subseteq> dom (qheap st')"
    by (rule link_tail_ok [OF ok1 _ new, where Q = Q and e = ?e]) auto
  have "q_next ?e = None" by (simp add: new_entry_def)
  then have "queues_ok st' (qs(Q := qs Q @ [a]))"
    using link by (intro appended [OF ok new]) auto
  moreover have "frame_eq st st'" using link(2) by (simp add: frame_eq_def)
  moreover have "ent st' = (ent st)(a \<mapsto> unlinked ?e)" unfolding link(6) by (simp add: ent_def fun_eq_iff)
  moreover have "enqueue km Q msgID st = Some (Some a, st')" using km link(1) by (simp add: enqueue_def)
  ultimately show thesis by (blast intro: that)
qed

lemma enqueue_none: "km (qheap st) = None \<Longrightarrow> enqueue km Q msgID st = Some (None, st)"
  by (simp add: enqueue_def)

lemma enqueue_entry_ok:
  assumes ok: "queues_ok st qs" and a: "qheap st a = Some e" and new: "\<And>R. a \<notin> set (qs R)"
  obtains st' where "enqueue_entry Q a st = Some st'" "queues_ok st' (qs(Q := qs Q @ [a]))" "frame_eq st st'" "ent st' = ent st"
proof -
  obtain st1 where link: "link_tail Q a st = Some st1" "frame_eq st st1"
      "Qhead st1 = (Qhead st)(Q := Some (hd (qs Q @ [a])))" "Qtail st1 = (Qtail st)(Q := Some a)" "qheap st1 a = Some e"
      "ent st1 = ent st" "\<And>b. b \<notin> set (qs Q) \<Longrightarrow> qheap st1 b = qheap st b"
      "seg (qn (qheap st1)) (Qhead st1 Q) (qs Q @ [a]) (q_next e)" "set (qs Q @ [a]) \<subseteq> dom (qheap st1)"
    by (rule link_tail_ok [OF ok a new, where Q = Q]) auto
  let ?st = "st1\<lparr>qheap := (qheap st1)(a \<mapsto> e\<lparr>q_next := None\<rparr>)\<rparr>"
  have "seg (qn (qheap ?st)) (Qhead ?st Q) (qs Q @ [a]) None"
    using link(8) new [of Q] by auto
  then have "queues_ok ?st (qs(Q := qs Q @ [a]))"
    using link by (intro appended [OF ok new]) auto
  moreover have "frame_eq st ?st" using link(2) by (simp add: frame_eq_def)
  moreover have "ent ?st = ent st" unfolding link(6) [symmetric] using link(5) by (simp add: ent_def fun_eq_iff)
  moreover have "enqueue_entry Q a st = Some ?st" using link(1,5) by (simp add: enqueue_entry_def upd_entry_Some)
  ultimately show thesis by (blast intro: that)
qed

section \<open>Finding and removing\<close>

definition msgid :: "'a queues_scheme \<Rightarrow> nat \<Rightarrow> 32 word" where
  "msgid st a = q_msgID (the (ent st a))"

lemma msgid_heap: "qheap st a = Some e \<Longrightarrow> msgid st a = q_msgID e"
  by (simp add: msgid_def ent_def)

lemma find_split:
  obtains (none) "find P xs = None" "\<forall>x \<in> set xs. \<not> P x"
  | (found) ys x zs where "xs = ys @ x # zs" "find P xs = Some x" "\<forall>y \<in> set ys. \<not> P y" "P x" "remove1 x xs = ys @ zs"
proof (cases "find P xs")
  case None
  then show thesis by (intro none) (simp_all add: find_None_iff)
next
  case (Some x)
  then obtain i where i: "i < length xs" "P (xs ! i)" "x = xs ! i" "\<forall>j<i. \<not> P (xs ! j)"
    by (auto simp: find_Some_iff)
  have split: "xs = take i xs @ x # drop (Suc i) xs" using i by (simp add: id_take_nth_drop)
  have first: "\<forall>y \<in> set (take i xs). \<not> P y" using i(1,4) by (auto simp: in_set_conv_nth)
  have "remove1 x xs = take i xs @ drop (Suc i) xs"
    using first i(2,3) by (subst split) (auto simp: remove1_append)
  with split Some first i show thesis by (intro found) auto
qed

lemma find_loop_seg:
  assumes "seg (qn h) p as None" "set as \<subseteq> dom h"
  shows "find_loop h m p = Some (find (\<lambda>a. q_msgID (the (h a)) = m) as)"
  using assms
proof (induction as arbitrary: p)
  case Nil
  then show ?case by (subst find_loop.simps) simp
next
  case (Cons a as)
  then obtain e where e: "h a = Some e" by auto
  with Cons have "find_loop h m (q_next e) = Some (find (\<lambda>a. q_msgID (the (h a)) = m) as)"
    by (simp add: qn_def)
  with Cons.prems e show ?case by (subst find_loop.simps) simp
qed

lemma find_cong_msgid:
  assumes "set as \<subseteq> dom (qheap st)"
  shows "find (\<lambda>a. q_msgID (the (qheap st a)) = m) as = find (\<lambda>a. msgid st a = m) as"
proof -
  have "(q_msgID (the (qheap st a)) = m) = (msgid st a = m)" if "a \<in> set as" for a
    using assms that by (auto simp: msgid_heap)
  then show ?thesis by (simp cong: find_cong)
qed

lemma find_queue_ok:
  assumes "queues_ok st qs"
  shows "find_queue Q m st = Some (find (\<lambda>a. msgid st a = m) (qs Q))"
  using queues_okD(1) [OF assms, of Q] find_loop_seg find_cong_msgid
  by (fastforce simp: find_queue_def on_queue_def)

lemma dequeue_loop_seg:
  assumes "seg (qn h) p (bs @ as) None" "set (bs @ as) \<subseteq> dom h" "\<forall>b \<in> set bs. q_msgID (the (h b)) \<noteq> m"
    "as = [] \<or> q_msgID (the (h (hd as))) = m"
  shows "dequeue_loop h m prev p =
    Some (if bs = [] then prev else Some (last bs), if as = [] then None else Some (hd as))"
  using assms
proof (induction bs arbitrary: p prev)
  case Nil
  then show ?case by (cases as) (subst dequeue_loop.simps; force)+
next
  case (Cons b bs)
  then obtain e where e: "h b = Some e" by auto
  with Cons have "dequeue_loop h m p (q_next e) =
      Some (if bs = [] then p else Some (last bs), if as = [] then None else Some (hd as))"
    by (simp add: qn_def)
  with Cons.prems e show ?case by (subst dequeue_loop.simps) simp
qed

text \<open>Unlinking the entry behind \<open>bs\<close> leaves the rest in order.\<close>

lemma unlink_entry_ok:
  assumes ok: "queues_ok st qs" and split: "qs Q = bs @ a # cs"
  obtains st' where "unlink_entry Q (if bs = [] then None else Some (last bs)) a st = Some st'"
    "queues_ok st' (qs(Q := bs @ cs))" "frame_eq st st'" "ent st' = ent st"
proof -
  note on = queues_okD(1) [OF ok, of Q] and q = on_queueD [OF queues_okD(1) [OF ok, of Q]]
  obtain e where e: "qheap st a = Some e" using q(2) split by auto
  have d: "distinct (bs @ a # cs)" using q(1) split by simp
  have seg: "seg (qn (qheap st)) (Qhead st Q) bs (Some a)" "seg (qn (qheap st)) (q_next e) cs None"
    using on e unfolding on_queue_def split by (auto simp: qn_def)
  have tail: "Qtail st Q = Some (last (a # cs))" using q(4) split by simp
  show thesis
  proof (cases "bs = []")
    case True
    let ?st = "(if cs = [] then set_tail Q None else id) (set_head Q (q_next e) st)"
    let ?st' = "?st\<lparr>qheap := (qheap st)(a \<mapsto> e\<lparr>q_next := None\<rparr>)\<rparr>"
    have eq: "unlink_entry Q (if bs = [] then None else Some (last bs)) a st = Some ?st'"
      using True tail d e q(3) split
      by (auto simp: unlink_entry_def upd_entry_def set_head_def set_tail_def)
    have "queues_ok ?st' (qs(Q := bs @ cs))"
    proof (rule queues_ok_frame [OF ok])
      show "on_queue ?st' Q (bs @ cs)"
        using True seg tail d q(2) split by (auto simp: on_queue_def set_head_def set_tail_def)
      fix R b assume R: "R \<noteq> Q"
      then show "Qhead ?st' R = Qhead st R \<and> Qtail ?st' R = Qtail st R" by (simp add: set_head_def set_tail_def)
      assume "b \<in> set (qs R)"
      then show "qheap ?st' b = qheap st b \<and> b \<notin> set (bs @ cs)" using queues_okD(2) [OF ok R, of b] split by auto
    qed
    then show thesis
      by (rule that [OF eq]) (use e in \<open>auto simp: frame_eq_def ent_def fun_eq_iff set_head_def set_tail_def\<close>)
  next
    case False
    then obtain ds p where ds: "bs = ds @ [p]" by (metis rev_exhaust)
    obtain x where x: "qheap st p = Some x" using q(2) split ds by auto
    have ne: "p \<noteq> a" "p \<notin> set ds" "a \<notin> set ds" "p \<notin> set cs" "a \<notin> set cs" using d ds by auto
    let ?st = "(if cs = [] then set_tail Q (Some p) else id) st"
    let ?st' = "?st\<lparr>qheap := (qheap st)(p \<mapsto> x\<lparr>q_next := q_next e\<rparr>, a \<mapsto> e\<lparr>q_next := None\<rparr>)\<rparr>"
    have head: "Qhead st Q \<noteq> Some a" using q(3) split ds d by (cases ds) auto
    have eq: "unlink_entry Q (if bs = [] then None else Some (last bs)) a st = Some ?st'"
      using ds tail d e x head ne
      by (auto simp: unlink_entry_def upd_entry_def set_head_def set_tail_def)
    have "queues_ok ?st' (qs(Q := bs @ cs))"
    proof (rule queues_ok_frame [OF ok])
      show "on_queue ?st' Q (bs @ cs)"
        using ds seg tail ne q(2) split by (auto simp: on_queue_def set_tail_def)
      fix R b assume R: "R \<noteq> Q"
      then show "Qhead ?st' R = Qhead st R \<and> Qtail ?st' R = Qtail st R" by (simp add: set_tail_def)
      assume "b \<in> set (qs R)"
      then show "qheap ?st' b = qheap st b \<and> b \<notin> set (bs @ cs)" using queues_okD(2) [OF ok R, of b] split ds by auto
    qed
    then show thesis
      by (rule that [OF eq]) (use e x ne in \<open>auto simp: frame_eq_def ent_def fun_eq_iff set_tail_def\<close>)
  qed
qed

text \<open>\<open>dequeue\<close> takes the first entry with the message number out of the queue.\<close>

lemma dequeue_ok:
  assumes ok: "queues_ok st qs"
  obtains (none) "dequeue Q m st = Some (None, st)" "find (\<lambda>a. msgid st a = m) (qs Q) = None"
  | (found) a st' where "dequeue Q m st = Some (Some a, st')" "find (\<lambda>a. msgid st a = m) (qs Q) = Some a"
      "a \<in> set (qs Q)" "queues_ok st' (qs(Q := remove1 a (qs Q)))" "frame_eq st st'" "ent st' = ent st"
proof -
  note on = queues_okD(1) [OF ok, of Q] and q = on_queueD [OF queues_okD(1) [OF ok, of Q]]
  have id: "q_msgID (the (qheap st a)) = msgid st a" if "a \<in> set (qs Q)" for a
    using q(2) that by (auto simp: msgid_heap)
  show thesis
  proof (cases rule: find_split [of "\<lambda>a. msgid st a = m" "qs Q"])
    case 1: none
    have "dequeue_loop (qheap st) m None (Qhead st Q) =
        Some (if qs Q = [] then None else Some (last (qs Q)), None)"
      using dequeue_loop_seg [of "qheap st" "Qhead st Q" "qs Q" "[]" m None] on 1 id
      by (auto simp: on_queue_def)
    moreover have "set_tail Q None st = st" if "Qtail st Q = None"
      using that by (simp add: set_tail_def fun_upd_idem)
    ultimately show thesis using q(4) 1 by (intro none) (auto simp: dequeue_def)
  next
    case 2: (found bs a cs)
    have "dequeue_loop (qheap st) m None (Qhead st Q) = Some (if bs = [] then None else Some (last bs), Some a)"
      using dequeue_loop_seg [of "qheap st" "Qhead st Q" bs "a # cs" m None] on 2 id
      by (auto simp: on_queue_def)
    then have eq: "dequeue Q m st = Option.bind (unlink_entry Q (if bs = [] then None else Some (last bs)) a st) (\<lambda>st1. Some (Some a, st1))"
      by (simp add: dequeue_def)
    obtain st' where "unlink_entry Q (if bs = [] then None else Some (last bs)) a st = Some st'"
      "queues_ok st' (qs(Q := bs @ cs))" "frame_eq st st'" "ent st' = ent st"
      by (rule unlink_entry_ok [OF ok 2(1)])
    with eq 2 show thesis by (intro found [of a st']) simp_all
  qed
qed

lemma dequeue_first_ok:
  assumes ok: "queues_ok st qs"
  obtains (none) "dequeue_first Q st = Some (None, st)" "qs Q = []"
  | (found) a as st' where "dequeue_first Q st = Some (Some a, st')" "qs Q = a # as"
      "queues_ok st' (qs(Q := as))" "frame_eq st st'" "ent st' = ent st"
proof (cases "qs Q")
  case Nil
  then have "Qhead st Q = None" "Qtail st Q = None" using on_queueD [OF queues_okD(1) [OF ok, of Q]] by simp_all
  then show thesis using Nil by (intro none) (simp_all add: dequeue_first_def set_tail_def fun_upd_idem)
next
  case (Cons a as)
  have head: "Qhead st Q = Some a" using on_queueD [OF queues_okD(1) [OF ok, of Q]] Cons by simp
  obtain st' where un: "unlink_entry Q None a st = Some st'" "queues_ok st' (qs(Q := as))" "frame_eq st st'" "ent st' = ent st"
    using unlink_entry_ok [OF ok, of Q "[]" a as] Cons by auto
  obtain e where "qheap st a = Some e" using on_queueD(2) [OF queues_okD(1) [OF ok, of Q]] Cons by auto
  then have "dequeue_first Q st = Some (Some a, st')"
    using un(1) head
    by (auto simp: dequeue_first_def unlink_entry_def upd_entry_def set_tail_def set_head_def Let_def split: if_splits)
  then show thesis using un(2-4) Cons by (intro found)
qed

text \<open>Freeing an entry that is on no queue.\<close>

lemma free_entry_ok:
  assumes ok: "queues_ok st qs" and a: "qheap st a = Some e" and new: "\<And>R. a \<notin> set (qs R)"
  obtains st' where "free_entry (Some a) st = Some st'" "queues_ok st' qs" "ent st' = (ent st)(a := None)"
    "jiffies st' = jiffies st" "outstanding_pkts st' = outstanding_pkts st - q_granted_pkts e"
    "queues.more st' = queues.more st"
proof -
  let ?st = "st\<lparr>outstanding_pkts := outstanding_pkts st - q_granted_pkts e, qheap := (qheap st)(a := None)\<rparr>"
  have "on_queue ?st R (qs R)" for R
    by (rule on_queue_frame [OF queues_okD(1) [OF ok, of R]]) (use new [of R] in auto)
  then have "queues_ok ?st qs" using ok by (simp add: queues_ok_def)
  then show thesis by (intro that [of ?st]) (use a in \<open>auto simp: free_entry_def ent_def fun_eq_iff\<close>)
qed

section \<open>Removing the entries of a process\<close>

lemma clean_entry_unlinked: "unlinked (clean_entry task e) = clean_entry task (unlinked e)"
  by (simp add: clean_entry_def unlinked_def)

lemma clean_entry_next [simp]: "q_next (clean_entry task e) = q_next e"
  by (simp add: clean_entry_def)

lemma clean_pending_seg:
  assumes "queues_ok st qs" "seg (qn (qheap st)) p as None" "set as \<subseteq> dom (qheap st)" "distinct as"
  shows "\<exists>st'. clean_pending_loop task p st = Some st' \<and> queues_ok st' qs \<and> frame_eq st st' \<and>
    ent st' = (\<lambda>a. if a \<in> set as then map_option (clean_entry task) (ent st a) else ent st a)"
  using assms
proof (induction as arbitrary: p st)
  case Nil
  then show ?case by (subst clean_pending_loop.simps) (simp add: frame_eq_def)
next
  case (Cons a as)
  then obtain e where e: "qheap st a = Some e" and p: "p = Some a" by auto
  let ?st = "st\<lparr>qheap := (qheap st)(a \<mapsto> clean_entry task e)\<rparr>"
  have ok: "queues_ok ?st qs" using upd_entry_ok [OF Cons.prems(1) e] by simp
  have n: "qn (qheap ?st) = qn (qheap st)" using e by (auto simp: qn_def fun_eq_iff)
  have "seg (qn (qheap ?st)) (q_next e) as None" "set as \<subseteq> dom (qheap ?st)" "distinct as"
    using Cons.prems e unfolding n by (auto simp: qn_def [of _ a])
  from Cons.IH [OF ok this] obtain st' where st': "clean_pending_loop task (q_next e) ?st = Some st'" "queues_ok st' qs"
    "frame_eq ?st st'" "ent st' = (\<lambda>b. if b \<in> set as then map_option (clean_entry task) (ent ?st b) else ent ?st b)" by blast
  have "clean_pending_loop task p st = Some st'"
    using st'(1) e p by (subst clean_pending_loop.simps) (simp add: upd_entry_Some)
  moreover have "ent st' = (\<lambda>b. if b \<in> set (a # as) then map_option (clean_entry task) (ent st b) else ent st b)"
    using e Cons.prems(4) unfolding st'(4) by (auto simp: ent_def fun_eq_iff clean_entry_unlinked)
  ultimately show ?case using st' by (auto simp: frame_eq_def)
qed

text \<open>On the queue of pending sends, the messages of the process become \<open>P3_NULL\<close>.\<close>

lemma clean_pending_ok:
  assumes "queues_ok st qs"
  obtains st' where "clean_queue Qsnd_pending task st = Some st'" "queues_ok st' qs" "frame_eq st st'"
    "ent st' = (\<lambda>a. if a \<in> set (qs Qsnd_pending) then map_option (clean_entry task) (ent st a) else ent st a)"
  using clean_pending_seg [OF assms, of "Qhead st Qsnd_pending" "qs Qsnd_pending" task]
    queues_okD(1) [OF assms, of Qsnd_pending] on_queueD(1) [OF queues_okD(1) [OF assms, of Qsnd_pending]]
  by (auto simp: clean_queue_def on_queue_def)

definition taskof :: "'a queues_scheme \<Rightarrow> nat \<Rightarrow> nat option" where
  "taskof st a = q_task (the (ent st a))"

definition granted :: "'a queues_scheme \<Rightarrow> nat \<Rightarrow> int" where
  "granted st a = q_granted_pkts (the (ent st a))"

definition drop_entries :: "nat set \<Rightarrow> (nat \<Rightarrow> Qentry_t option) \<Rightarrow> nat \<Rightarrow> Qentry_t option" where
  "drop_entries A f a = (if a \<in> A then None else f a)"

lemma unlink_free_ok:
  assumes ok: "queues_ok st qs" and split: "qs Q = bs @ a # cs"
  obtains st' where "Option.bind (unlink_entry Q (if bs = [] then None else Some (last bs)) a st) (free_entry (Some a)) = Some st'"
    "queues_ok st' (qs(Q := bs @ cs))" "ent st' = (ent st)(a := None)" "jiffies st' = jiffies st"
    "outstanding_pkts st' = outstanding_pkts st - granted st a" "queues.more st' = queues.more st"
proof -
  have q: "distinct (bs @ a # cs)" "a \<in> dom (qheap st)"
    using on_queueD [OF queues_okD(1) [OF ok, of Q]] split by auto
  obtain st1 where un: "unlink_entry Q (if bs = [] then None else Some (last bs)) a st = Some st1"
    "queues_ok st1 (qs(Q := bs @ cs))" "frame_eq st st1" "ent st1 = ent st"
    by (rule unlink_entry_ok [OF assms])
  obtain e where e: "ent st a = Some e" using q(2) by (auto simp: ent_def)
  then obtain e1 where e1: "qheap st1 a = Some e1" "q_granted_pkts e1 = granted st a"
    using un(4) by (auto simp: granted_def ent_def dest!: fun_cong [of _ _ a]) (metis unlinked_sel(4))
  have "a \<notin> set ((qs(Q := bs @ cs)) R)" for R
    using q(1) queues_okD(2) [OF ok, of Q R a] split by auto
  then obtain st2 where "free_entry (Some a) st1 = Some st2" "queues_ok st2 (qs(Q := bs @ cs))"
    "ent st2 = (ent st1)(a := None)" "jiffies st2 = jiffies st1" "outstanding_pkts st2 = outstanding_pkts st1 - q_granted_pkts e1"
    "queues.more st2 = queues.more st1" by (rule free_entry_ok [OF un(2) e1(1)])
  with un e1 show thesis by (intro that [of st2]) (auto simp: frame_eq_def)
qed

text \<open>The entries of \<open>as\<close> that belong to the process are gone, and their grants are given back.\<close>

definition cleaned :: "'a queues_scheme \<Rightarrow> nat option \<Rightarrow> nat list \<Rightarrow> 'a queues_scheme \<Rightarrow> bool" where
  "cleaned st task as st' \<longleftrightarrow>
     ent st' = drop_entries {a \<in> set as. taskof st a = task} (ent st) \<and>
     jiffies st' = jiffies st \<and> queues.more st' = queues.more st \<and>
     outstanding_pkts st' = outstanding_pkts st - (\<Sum>a\<leftarrow>filter (\<lambda>a. taskof st a = task) as. granted st a)"

lemma cleaned_step:
  assumes "cleaned st2 task as st'" "ent st2 = (ent st)(a := None)" "jiffies st2 = jiffies st" "queues.more st2 = queues.more st"
    "outstanding_pkts st2 = outstanding_pkts st - granted st a" "taskof st a = task" "a \<notin> set as"
  shows "cleaned st task (a # as) st'" "filter (\<lambda>b. taskof st2 b \<noteq> task) as = filter (\<lambda>b. taskof st b \<noteq> task) as"
proof -
  have same: "taskof st2 b = taskof st b" "granted st2 b = granted st b" if "b \<in> set as" for b
    using that assms(7) by (auto simp: taskof_def granted_def assms(2))
  then show "filter (\<lambda>b. taskof st2 b \<noteq> task) as = filter (\<lambda>b. taskof st b \<noteq> task) as" by (auto intro!: filter_cong)
  have fil: "filter (\<lambda>b. taskof st2 b = task) as = filter (\<lambda>b. taskof st b = task) as"
    using same by (auto intro!: filter_cong)
  have "(\<Sum>b\<leftarrow>filter (\<lambda>b. taskof st2 b = task) as. granted st2 b) = (\<Sum>b\<leftarrow>filter (\<lambda>b. taskof st b = task) as. granted st b)"
    unfolding fil using same by (intro arg_cong [where f = sum_list] map_cong) auto
  moreover have "{b \<in> set as. taskof st2 b = task} = {b \<in> set as. taskof st b = task}" using same by auto
  ultimately show "cleaned st task (a # as) st'"
    using assms by (auto simp: cleaned_def drop_entries_def fun_eq_iff)
qed

lemma clean_loop_seg:
  assumes "queues_ok st qs" "qs Q = bs @ as"
  shows "\<exists>st'. clean_loop Q task (if bs = [] then None else Some (last bs)) (if as = [] then None else Some (hd as)) st = Some st' \<and>
    queues_ok st' (qs(Q := bs @ filter (\<lambda>a. taskof st a \<noteq> task) as)) \<and> cleaned st task as st'"
  using assms
proof (induction as arbitrary: st qs bs)
  case Nil
  then show ?case by (subst clean_loop.simps) (simp add: fun_upd_idem drop_entries_def fun_eq_iff cleaned_def)
next
  case (Cons a as)
  note on = queues_okD(1) [OF Cons.prems(1), of Q] and q = on_queueD [OF queues_okD(1) [OF Cons.prems(1), of Q]]
  obtain e where e: "qheap st a = Some e" using q(2) Cons.prems(2) by auto
  have nx: "q_next e = (if as = [] then None else Some (hd as))"
    using on Cons.prems(2) e by (cases as) (auto simp: on_queue_def qn_def)
  have task: "taskof st a = q_task e" using e by (simp add: taskof_def ent_def)
  have d: "a \<notin> set as" using q(1) Cons.prems(2) by auto
  show ?case
  proof (cases "q_task e = task")
    case False
    have "\<exists>st'. clean_loop Q task (Some a) (q_next e) st = Some st' \<and>
      queues_ok st' (qs(Q := bs @ a # filter (\<lambda>a. taskof st a \<noteq> task) as)) \<and> cleaned st task as st'"
      using Cons.IH [OF Cons.prems(1), of "bs @ [a]"] Cons.prems(2) by (simp add: nx del: fun_upd_apply)
    then obtain st' where "clean_loop Q task (Some a) (q_next e) st = Some st'"
      "queues_ok st' (qs(Q := bs @ a # filter (\<lambda>a. taskof st a \<noteq> task) as))" "cleaned st task as st'" by blast
    moreover have "{b \<in> set (a # as). taskof st b = task} = {b \<in> set as. taskof st b = task}"
      using False task by auto
    then have "cleaned st task (a # as) st' = cleaned st task as st'"
      using False task unfolding cleaned_def by simp
    moreover from calculation(1) have "clean_loop Q task (if bs = [] then None else Some (last bs)) (Some a) st = Some st'"
      using False e by (subst clean_loop.simps) simp
    ultimately show ?thesis using False task by (simp del: fun_upd_apply)
  next
    case True
    obtain st2 where rm: "Option.bind (unlink_entry Q (if bs = [] then None else Some (last bs)) a st) (free_entry (Some a)) = Some st2"
      "queues_ok st2 (qs(Q := bs @ as))" "ent st2 = (ent st)(a := None)" "jiffies st2 = jiffies st"
      "outstanding_pkts st2 = outstanding_pkts st - granted st a" "queues.more st2 = queues.more st"
      by (rule unlink_free_ok [OF Cons.prems])
    have "\<exists>st'. clean_loop Q task (if bs = [] then None else Some (last bs)) (q_next e) st2 = Some st' \<and>
      queues_ok st' (qs(Q := bs @ filter (\<lambda>b. taskof st2 b \<noteq> task) as)) \<and> cleaned st2 task as st'"
      using Cons.IH [OF rm(2), of bs] by (simp only: fun_upd_same fun_upd_upd nx simp_thms)
    then obtain st' where
      st': "clean_loop Q task (if bs = [] then None else Some (last bs)) (q_next e) st2 = Some st'"
      "queues_ok st' (qs(Q := bs @ filter (\<lambda>b. taskof st2 b \<noteq> task) as))" "cleaned st2 task as st'" by blast
    note step = cleaned_step [OF st'(3) rm(3,4,6,5) _ d]
    have "clean_loop Q task (if bs = [] then None else Some (last bs)) (Some a) st = Some st'"
      using True e st'(1) rm(1) by (subst clean_loop.simps) simp
    then show ?thesis using st'(2) step True task by (simp del: fun_upd_apply)
  qed
qed

text \<open>On the other queues, the entries of the process are removed and freed.\<close>

lemma clean_queue_ok:
  assumes ok: "queues_ok st qs" and Q: "Q \<noteq> Qsnd_pending"
  obtains st' where "clean_queue Q task st = Some st'"
    "queues_ok st' (qs(Q := filter (\<lambda>a. taskof st a \<noteq> task) (qs Q)))" "cleaned st task (qs Q) st'"
proof -
  have "clean_queue Q task st = clean_loop Q task None (if qs Q = [] then None else Some (hd (qs Q))) st"
    using Q on_queueD(3) [OF queues_okD(1) [OF ok, of Q]] by (simp add: clean_queue_def)
  then show thesis using clean_loop_seg [OF ok, of Q "[]" "qs Q" task] that by auto
qed

section \<open>Looking for idle entries\<close>

definition idle_for :: "'a queues_scheme \<Rightarrow> 64 word \<Rightarrow> nat \<Rightarrow> bool" where
  "idle_for st idle a \<longleftrightarrow> jiffies st - q_idle (the (ent st a)) > idle"

lemma skip_loop_seg:
  assumes "seg (qn h) p as None" "set as \<subseteq> dom h"
  shows "skip_loop h i p = Some (if drop i as = [] then None else Some (hd (drop i as)))"
  using assms
proof (induction as arbitrary: p i)
  case Nil
  then show ?case by (subst skip_loop.simps) simp
next
  case (Cons a as)
  then obtain e where e: "h a = Some e" by auto
  show ?case
  proof (cases i)
    case 0
    with Cons.prems show ?thesis by (subst skip_loop.simps) simp
  next
    case (Suc j)
    have "skip_loop h j (q_next e) = Some (if drop j as = [] then None else Some (hd (drop j as)))"
      using Cons e by (simp add: qn_def [of _ a])
    with Suc Cons.prems e show ?thesis by (subst skip_loop.simps) simp
  qed
qed

lemma idle_loop_seg:
  fixes now idle :: "64 word"
  assumes "seg (qn h) p as None" "set as \<subseteq> dom h"
  defines "P \<equiv> (\<lambda>a. now - q_idle (the (h a)) > idle)"
  shows "idle_loop h now idle pos p = Some (find P as, pos + length (takeWhile (\<lambda>a. \<not> P a) as))"
  using assms(1,2)
proof (induction as arbitrary: p pos)
  case Nil
  then show ?case by (subst idle_loop.simps) simp
next
  case (Cons a as)
  then obtain e where e: "h a = Some e" by auto
  have "idle_loop h now idle (pos + 1) (q_next e) = Some (find P as, pos + 1 + length (takeWhile (\<lambda>a. \<not> P a) as))"
    using Cons e by (simp add: qn_def [of _ a])
  with Cons.prems e show ?case by (subst idle_loop.simps) (simp add: P_def)
qed

lemma seg_drop: "seg f p as None \<Longrightarrow> seg f (if drop i as = [] then None else Some (hd (drop i as))) (drop i as) None"
proof (induction as arbitrary: p i)
  case (Cons a as)
  then show ?case using Cons.IH [of "f a" "i - 1"] by (cases i) auto
qed simp

text \<open>\<open>check_idle\<close> gives the first idle entry from the position on, and its position.\<close>

lemma check_idle_ok:
  fixes pos :: nat and Q :: Q_t
  assumes ok: "queues_ok st qs"
  defines "as \<equiv> drop pos (qs Q)"
  shows "check_idle Q pos idle st =
    Some (find (idle_for st idle) as, pos + length (takeWhile (\<lambda>a. \<not> idle_for st idle a) as))"
proof -
  have seg: "seg (qn (qheap st)) (Qhead st Q) (qs Q) None" and dom: "set (qs Q) \<subseteq> dom (qheap st)"
    using queues_okD(1) [OF ok, of Q] by (simp_all add: on_queue_def)
  have sub: "set as \<subseteq> dom (qheap st)" using dom set_drop_subset [of pos "qs Q"] by (auto simp: as_def)
  have P: "(jiffies st - q_idle (the (qheap st a)) > idle) = idle_for st idle a" if "a \<in> set as" for a
    using sub that by (auto simp: idle_for_def ent_def)
  have "find (\<lambda>a. jiffies st - q_idle (the (qheap st a)) > idle) as = find (idle_for st idle) as"
    using P by (simp cong: find_cong)
  moreover have "takeWhile (\<lambda>a. \<not> jiffies st - q_idle (the (qheap st a)) > idle) as = takeWhile (\<lambda>a. \<not> idle_for st idle a) as"
    using P by (intro takeWhile_cong) auto
  ultimately show ?thesis
    using skip_loop_seg [OF seg dom, of pos] idle_loop_seg [OF seg_drop [OF seg, of pos], of "jiffies st" idle pos] sub
    by (simp add: check_idle_def as_def)
qed

section \<open>Emptying a queue\<close>

lemma reset_queue_ok:
  assumes "queues_ok st qs"
  shows "\<exists>st'. reset_queue Q st = Some st' \<and> queues_ok st' (qs(Q := [])) \<and>
    ent st' = drop_entries (set (qs Q)) (ent st) \<and> jiffies st' = jiffies st \<and> queues.more st' = queues.more st \<and>
    outstanding_pkts st' = outstanding_pkts st - (\<Sum>a\<leftarrow>qs Q. granted st a)"
  using assms
proof (induction "qs Q" arbitrary: st qs)
  case Nil
  have "dequeue_first Q st = Some (None, st)"
    by (rule dequeue_first_ok [OF Nil.prems, of Q]) (use Nil.hyps in auto)
  then have "reset_queue Q st = Some st" by (subst reset_queue.simps) simp
  with Nil show ?case by (auto simp: fun_upd_idem drop_entries_def fun_eq_iff)
next
  case (Cons a as)
  have split: "qs Q = [] @ a # as" using Cons.hyps(2) by simp
  obtain st1 where d: "dequeue_first Q st = Some (Some a, st1)" and st1: "queues_ok st1 (qs(Q := as))" "frame_eq st st1" "ent st1 = ent st"
    by (rule dequeue_first_ok [OF Cons.prems, of Q]) (use Cons.hyps(2) in auto)
  have q: "distinct (a # as)" "a \<in> dom (qheap st)"
    using on_queueD [OF queues_okD(1) [OF Cons.prems, of Q]] split by auto
  then obtain e1 where e1: "qheap st1 a = Some e1" "q_granted_pkts e1 = granted st a"
    using st1(3) by (auto simp: granted_def ent_def dest!: fun_cong [of _ _ a]) (metis unlinked_sel(4))
  have "a \<notin> set ((qs(Q := as)) R)" for R
    using q(1) queues_okD(2) [OF Cons.prems, of Q R a] split by auto
  then obtain st2 where fr: "free_entry (Some a) st1 = Some st2" "queues_ok st2 (qs(Q := as))"
    "ent st2 = (ent st1)(a := None)" "jiffies st2 = jiffies st1" "outstanding_pkts st2 = outstanding_pkts st1 - q_granted_pkts e1"
    "queues.more st2 = queues.more st1" by (rule free_entry_ok [OF st1(1) e1(1)])
  obtain st' where st': "reset_queue Q st2 = Some st'" "queues_ok st' ((qs(Q := as))(Q := []))"
    "ent st' = drop_entries (set as) (ent st2)" "jiffies st' = jiffies st2" "queues.more st' = queues.more st2"
    "outstanding_pkts st' = outstanding_pkts st2 - (\<Sum>a\<leftarrow>as. granted st2 a)"
    using Cons.hyps(1) [OF _ fr(2)] by auto
  have "(\<Sum>b\<leftarrow>as. granted st2 b) = (\<Sum>b\<leftarrow>as. granted st b)"
    using q(1) by (intro arg_cong [where f = sum_list] map_cong) (auto simp: granted_def fr(3) st1(3))
  moreover have "drop_entries (set as) (ent st2) = drop_entries (set (qs Q)) (ent st)"
    unfolding fr(3) st1(3) split by (auto simp: drop_entries_def fun_eq_iff)
  moreover have "reset_queue Q st = Some st'" using d fr(1) st'(1) by (subst reset_queue.simps) simp
  ultimately show ?case using st' st1(2) fr e1(2) split by (auto simp: frame_eq_def)
qed

end
