(* ===== verification/R_SendProps.thy ===== *)
theory R_SendProps
  imports R_Send R_Ring R_Copy R_QueueProps
begin

text \<open>
  What the functions of \<open>RTSCTS_send.c\<close> hand to the card: packets are appended to the
  sequence the card sends, one per accepted page, with the contents built by the caller; a
  page that cannot be had, or is refused, sends nothing.
\<close>

section \<open>Submitted packets\<close>

text \<open>All packets the card has accepted so far: those sent, then those in the ring.\<close>

definition sent :: "snd_st \<Rightarrow> packet list" where
  "sent s = wire s @ queued s"

definition ring_ok :: "rts_env \<Rightarrow> snd_st \<Rightarrow> bool" where
  "ring_ok env s \<longleftrightarrow> (\<exists>k. ring_inv (virt_to_bus env) k s)"

text \<open>The card accepts packets and has none to send.\<close>

definition idle :: "rts_env \<Rightarrow> snd_st \<Rightarrow> bool" where
  "idle env s \<longleftrightarrow> rdy_to_snd s \<and> ring_inv (virt_to_bus env) 0 s"

lemma ring_cases:
  assumes "ring_ok env s"
  obtains k where "ring_inv (virt_to_bus env) k s" "idle env s \<Longrightarrow> k = 0"
  using assms by (cases "idle env s") (auto simp: ring_ok_def idle_def)

section \<open>Room for several packets\<close>

text \<open>A page that the card has not finished with.\<close>

definition busy :: "snd_st \<Rightarrow> nat \<Rightarrow> bool" where
  "busy s p \<longleftrightarrow> stat_at s p = pg_sending \<and> phys_at s (nat (sp_slot (snd_page_list s p))) \<noteq> 0"

text \<open>The next \<open>n\<close> pages that \<open>get_snd_page\<close> looks at.\<close>

definition window :: "nat \<Rightarrow> snd_st \<Rightarrow> nat set" where
  "window n s = (\<lambda>j. (next_avail s + j) mod MAX_SND_PKT_ENTRIES) ` {..<n}"

text \<open>The ring has \<open>m\<close> free slots and the host can get \<open>n\<close> pages.\<close>

definition space :: "rts_env \<Rightarrow> nat \<Rightarrow> nat \<Rightarrow> snd_st \<Rightarrow> bool" where
  "space env m n s \<longleftrightarrow>
     rdy_to_snd s \<and> n \<le> MAX_SND_PKT_ENTRIES \<and> (\<forall>p \<in> window n s. \<not> busy s p) \<and>
     (\<exists>k. ring_inv (virt_to_bus env) k s \<and> k + m \<le> MAX_SND_PKT_ENTRIES)"

text \<open>The same while the host fills page \<open>i\<close>.\<close>

definition ready :: "rts_env \<Rightarrow> nat \<Rightarrow> nat \<Rightarrow> nat \<Rightarrow> snd_st \<Rightarrow> bool" where
  "ready env i m n s \<longleftrightarrow> space env m n s \<and> i \<notin> window n s"

lemma ring_length: "ring_inv vtb k s \<Longrightarrow> length (queued s) = k"
  using queued_span [of k s] by (simp add: ring_inv_def)

lemma window_less: "p \<in> window n s \<Longrightarrow> p < MAX_SND_PKT_ENTRIES"
  by (auto simp: window_def)

lemma window_Suc: "next_avail s < MAX_SND_PKT_ENTRIES \<Longrightarrow> next_avail s \<in> window (Suc n) s"
  by (auto simp: window_def intro!: image_eqI [of _ _ 0])

lemma window_next:
  assumes "next_avail s' = (next_avail s + 1) mod MAX_SND_PKT_ENTRIES" "next_avail s < MAX_SND_PKT_ENTRIES" "Suc n \<le> MAX_SND_PKT_ENTRIES"
  shows "window n s' \<subseteq> window (Suc n) s" "next_avail s \<notin> window n s'"
proof -
  have eq: "(next_avail s' + j) mod MAX_SND_PKT_ENTRIES = (next_avail s + Suc j) mod MAX_SND_PKT_ENTRIES" for j
    unfolding assms(1) by (simp add: mod_simps)
  then show "window n s' \<subseteq> window (Suc n) s" by (auto simp: window_def intro!: image_eqI [of _ _ "Suc _"])
  show "next_avail s \<notin> window n s'"
  proof
    assume "next_avail s \<in> window n s'"
    then obtain j where j: "j < n" "next_avail s = (next_avail s' + j) mod MAX_SND_PKT_ENTRIES" by (auto simp: window_def)
    then have "(next_avail s + Suc j) mod MAX_SND_PKT_ENTRIES = (next_avail s + 0) mod MAX_SND_PKT_ENTRIES" using eq [of j] assms(2) by simp
    then show False using mod_add_cancel [of "next_avail s" "Suc j" MAX_SND_PKT_ENTRIES 0] j(1) assms(3) by simp
  qed
qed

lemma idle_space:
  assumes "idle env s" "m \<le> MAX_SND_PKT_ENTRIES" "n \<le> MAX_SND_PKT_ENTRIES"
  shows "space env m n s"
proof -
  have inv: "ring_inv (virt_to_bus env) 0 s" "rdy_to_snd s" using assms(1) by (simp_all add: idle_def)
  have "\<not> busy s p" if "p < MAX_SND_PKT_ENTRIES" for p
    using inv(1) that span_idle [of s] in_ring_less by (auto simp: busy_def ring_inv_def ring_pages_def)
  then show ?thesis using inv assms(2,3) window_less unfolding space_def by (metis add_0)
qed

lemma space_slot:
  assumes "space env (Suc m) n s"
  shows "phys_at s (last_pkt s) = 0" "rdy_to_snd s"
proof -
  obtain k where k: "ring_inv (virt_to_bus env) k s" "k + Suc m \<le> MAX_SND_PKT_ENTRIES" using assms by (auto simp: space_def)
  then have "ring_span k s" "k < MAX_SND_PKT_ENTRIES" by (simp_all add: ring_inv_def)
  then show "phys_at s (last_pkt s) = 0" by (auto simp: ring_span_def)
  show "rdy_to_snd s" using assms by (simp add: space_def)
qed

lemma get_page_space:
  assumes g: "get_snd_page s = Some (int i, s')" and inv: "ring_inv (virt_to_bus env) k s'" "i = next_avail s" and sp: "space env m (Suc n) s"
    and q: "queued s' = queued s"
  shows "ready env i m n s'"
proof -
  obtain k0 where k: "ring_inv (virt_to_bus env) k0 s" "k0 + m \<le> MAX_SND_PKT_ENTRIES" using sp by (auto simp: space_def)
  have "k0 = k" using ring_length [OF k(1)] ring_length [OF inv(1)] q by simp
  have i: "next_avail s < MAX_SND_PKT_ENTRIES" using k(1) by (simp add: ring_inv_def ring_span_def)
  have s': "next_avail s' = (next_avail s + 1) mod MAX_SND_PKT_ENTRIES" "rdy_to_snd s' = rdy_to_snd s"
      "\<And>p. p \<noteq> i \<Longrightarrow> snd_page_list s' p = snd_page_list s p" "\<And>j. phys_at s' j = phys_at s j"
    using g inv(2) by (auto simp: get_snd_page_def take_next_def Let_def split: if_splits)
  note w = window_next [OF s'(1) i, of n]
  have n: "Suc n \<le> MAX_SND_PKT_ENTRIES" "\<forall>p \<in> window (Suc n) s. \<not> busy s p" "rdy_to_snd s" using sp by (simp_all add: space_def)
  have "busy s' p = busy s p" if "p \<noteq> i" for p using s'(3,4) that by (simp add: busy_def)
  moreover have "p \<noteq> i" "p \<in> window (Suc n) s" if "p \<in> window n s'" for p using that w [OF n(1)] inv(2) by auto
  ultimately have "\<forall>p \<in> window n s'. \<not> busy s' p" using n(2) by simp
  then show ?thesis using inv(1) k(2) w(2) [OF n(1)] n s'(2) inv(2) \<open>k0 = k\<close> by (auto simp: ready_def space_def)
qed

lemma xmit_busy:
  assumes inv: "ring_inv vtb k s" and i: "i < MAX_SND_PKT_ENTRIES" "stat_at s i = pg_checked_out"
    and x: "myrPkt_xmit vtb dst (int i) len s = Some (0, s')" and p: "p \<noteq> i" "p < MAX_SND_PKT_ENTRIES" "busy s' p"
  shows "busy s p"
proof -
  let ?l = "last_pkt s"
  have l: "?l < MAX_SND_PKT_ENTRIES" "phys_at s ?l = 0" using inv x by (auto simp: ring_inv_def ring_span_def myrPkt_xmit_def Let_def split: if_splits)
  have pg: "snd_page_list s' p = snd_page_list s p" "idx_at s ?l \<noteq> int p" "\<And>j. j \<noteq> ?l \<Longrightarrow> phys_at s' j = phys_at s j"
    using x p i by (auto simp: myrPkt_xmit_def xmit_submit_def pkt_send_def Let_def busy_def split: if_splits)
  have st: "stat_at s p = pg_sending" "phys_at s' (nat (sp_slot (snd_page_list s p))) \<noteq> 0" using p(3) pg(1) by (simp_all add: busy_def)
  have "idx_at s (nat (sp_slot (snd_page_list s p))) = int p" using inv p(2) st(1) by (auto simp: ring_inv_def ring_pages_def)
  then have "nat (sp_slot (snd_page_list s p)) \<noteq> ?l" using pg(2) by auto
  then show ?thesis using st pg(3) by (simp add: busy_def)
qed

lemma xmit_space:
  assumes inv: "ring_inv (virt_to_bus env) (Suc k) s'" "ring_inv (virt_to_bus env) k s" and i: "i < MAX_SND_PKT_ENTRIES" "stat_at s i = pg_checked_out"
    and x: "myrPkt_xmit (virt_to_bus env) dst (int i) len s = Some (0, s')" and r: "ready env i (Suc m) n s"
  shows "space env m n s'"
proof -
  obtain k0 where k: "ring_inv (virt_to_bus env) k0 s" "k0 + Suc m \<le> MAX_SND_PKT_ENTRIES" using r by (auto simp: ready_def space_def)
  have "k0 = k" using ring_length [OF k(1)] ring_length [OF inv(2)] by simp
  have s': "next_avail s' = next_avail s" "rdy_to_snd s' = rdy_to_snd s"
    using x by (auto simp: myrPkt_xmit_def xmit_submit_def pkt_send_def Let_def split: if_splits)
  have w: "window n s' = window n s" using s'(1) by (simp add: window_def)
  have "\<not> busy s' p" if "p \<in> window n s" for p
    using xmit_busy [OF inv(2) i x _ window_less [OF that]] that r by (auto simp: ready_def space_def)
  moreover have "Suc k + m \<le> MAX_SND_PKT_ENTRIES" using k(2) \<open>k0 = k\<close> by simp
  ultimately show ?thesis using r inv(1) s'(2) w by (auto simp: ready_def space_def)
qed

section \<open>Pages\<close>

text \<open>A page in the hands of the host.\<close>

definition holds :: "nat \<Rightarrow> snd_st \<Rightarrow> bool" where
  "holds i s \<longleftrightarrow> i < MAX_SND_PKT_ENTRIES \<and> stat_at s i = pg_checked_out"

definition page_at :: "rts_env \<Rightarrow> nat \<Rightarrow> snd_st \<Rightarrow> page_t" where
  "page_at env i s = frames s (bus_at (virt_to_bus env) s i)"

lemma page_of_at [simp]: "page_of env (int i) st = page_at env i (pkt st)"
  by (simp add: page_of_def page_at_def)

lemma write_page_at:
  assumes "ring_ok env s" "holds i s"
  shows "ring_ok env (write_page (virt_to_bus env) i f s)" "holds i (write_page (virt_to_bus env) i f s)"
    "sent (write_page (virt_to_bus env) i f s) = sent s"
    "page_at env i (write_page (virt_to_bus env) i f s) = f (page_at env i s)"
    "my_pnid (write_page (virt_to_bus env) i f s) = my_pnid s"
    "idle env s \<Longrightarrow> idle env (write_page (virt_to_bus env) i f s)"
    "ready env j m n s \<Longrightarrow> ready env j m n (write_page (virt_to_bus env) i f s)"
proof -
  obtain k where k: "ring_inv (virt_to_bus env) k s" using assms(1) by (auto simp: ring_ok_def)
  have i: "i < MAX_SND_PKT_ENTRIES" "stat_at s i \<noteq> pg_sending" using assms(2) by (simp_all add: holds_def)
  show "ring_ok env (write_page (virt_to_bus env) i f s)" using write_page_inv(1) [OF k i] by (auto simp: ring_ok_def)
  show "sent (write_page (virt_to_bus env) i f s) = sent s" using write_page_inv(2) [OF k i] by (simp add: sent_def)
  show "holds i (write_page (virt_to_bus env) i f s)" using assms(2) by (simp add: holds_def)
  show "page_at env i (write_page (virt_to_bus env) i f s) = f (page_at env i s)"
    by (simp add: page_at_def write_page_def Let_def)
  show "my_pnid (write_page (virt_to_bus env) i f s) = my_pnid s" by simp
  show "idle env s \<Longrightarrow> idle env (write_page (virt_to_bus env) i f s)"
    using write_page_inv(1) [OF _ i] by (auto simp: idle_def)
  show "ready env j m n s \<Longrightarrow> ready env j m n (write_page (virt_to_bus env) i f s)"
    using write_page_inv(1) [OF _ i] by (auto simp: ready_def space_def window_def busy_def)
qed

lemma build_page_ok:
  assumes "ring_ok env (pkt st)"
  obtains (refused) "build_page env type msgID phdr payload msgNum st = Some (-1, st)"
      "MYRPKT_MTU < payload + headers_of phdr \<or> \<not> idle env (pkt st)"
      "payload + headers_of phdr \<le> MYRPKT_MTU \<longrightarrow> (\<forall>m n. \<not> space env m (Suc n) (pkt st))"
  | (given) i s where "build_page env type msgID phdr payload msgNum st = Some (int i, st\<lparr>pkt := s\<rparr>)"
      "ring_ok env s" "holds i s" "sent s = sent (pkt st)" "my_pnid s = my_pnid (pkt st)"
      "page_at env i s = (page_at env i (pkt st))\<lparr>pg_hdr := new_hdr type msgID msgNum (pg_hdr (page_at env i (pkt st))), pg_phdr := phdr\<rparr>"
      "payload + headers_of phdr \<le> MYRPKT_MTU" "idle env (pkt st) \<Longrightarrow> idle env s"
      "\<forall>m n. space env m (Suc n) (pkt st) \<longrightarrow> ready env i m n s"
proof (cases "payload + headers_of phdr > MYRPKT_MTU")
  case True
  then show thesis by (intro refused) (simp_all add: build_page_def)
next
  case False
  obtain k where k: "ring_inv (virt_to_bus env) k (pkt st)" "idle env (pkt st) \<Longrightarrow> k = 0" using ring_cases [OF assms] by blast
  from k(1) show thesis
  proof (cases rule: get_snd_page_inv)
    case 1: refused
    have "\<not> idle env (pkt st)"
      using 1(2,3) k span_idle [of "pkt st"] by (auto simp: ring_inv_def ring_pages_def ring_span_def in_ring_less)
    moreover have "\<not> space env m (Suc n) (pkt st)" for m n
    proof -
      have "next_avail (pkt st) < MAX_SND_PKT_ENTRIES" using k(1) by (simp add: ring_inv_def ring_span_def)
      then show ?thesis using 1(2,3) window_Suc [of "pkt st" n] by (auto simp: space_def busy_def)
    qed
    ultimately show thesis using False 1(1) by (intro refused) (simp_all add: build_page_def)
  next
    case 2: (given i s)
    let ?f = "\<lambda>pg. pg\<lparr>pg_hdr := new_hdr type msgID msgNum (pg_hdr pg), pg_phdr := phdr\<rparr>"
    have ok: "ring_ok env s" and h: "holds i s" using 2 by (auto simp: ring_ok_def holds_def)
    note w = write_page_at [OF ok h, where f = ?f]
    have nz: "page_addr (int i) s \<noteq> 0"
      using 2(3,4,7) by (simp add: page_addr_def ring_inv_def ring_frames_def)
    have at: "page_at env i s = page_at env i (pkt st)" using 2(8,9) by (simp add: page_at_def)
    have sent: "sent s = sent (pkt st)" using 2(5,6) by (simp add: sent_def)
    have "build_page env type msgID phdr payload msgNum st =
        Some (int i, st\<lparr>pkt := write_page (virt_to_bus env) i ?f s\<rparr>)"
      using False 2(1) nz by (simp add: build_page_def fill_page_def)
    moreover have "idle env s" if "idle env (pkt st)" using that k(2) 2(4,11) by (auto simp: idle_def)
    moreover have "ready env i m n (write_page (virt_to_bus env) i ?f s)" if "space env m (Suc n) (pkt st)" for m n
      by (rule w(7)) (rule get_page_space [OF 2(1,4,2) that 2(5)])
    ultimately show thesis using given [of i "write_page (virt_to_bus env) i ?f s"] w(1-6) at sent 2(12) False by simp
  qed
qed

lemma fill_page_ok:
  assumes "ring_ok env (pkt st)" "holds i (pkt st)"
  obtains s where "fill_page env (int i) f st = st\<lparr>pkt := s\<rparr>" "ring_ok env s" "holds i s" "sent s = sent (pkt st)"
    "my_pnid s = my_pnid (pkt st)" "page_at env i s = f (page_at env i (pkt st))" "idle env (pkt st) \<Longrightarrow> idle env s"
    "\<forall>m n. ready env i m n (pkt st) \<longrightarrow> ready env i m n s"
  using write_page_at(1-6) [OF assms, where f = f] write_page_at(7) [OF assms]
  by (intro that [of "write_page (virt_to_bus env) i f (pkt st)"]) (simp_all add: fill_page_def)

lemma xmit_submit_pnid: "xmit_submit vtb dst i len s = (rc, s') \<Longrightarrow> my_pnid s' = my_pnid s"
  by (auto simp: xmit_submit_def pkt_send_def Let_def split: if_splits)

lemma myrPkt_xmit_pnid: "myrPkt_xmit vtb dst i len s = Some (rc, s') \<Longrightarrow> my_pnid s' = my_pnid s"
  by (auto simp: myrPkt_xmit_def Let_def split: if_splits dest!: xmit_submit_pnid)

lemma xmit_ok:
  assumes "ring_ok env (pkt st)" "holds i (pkt st)"
  obtains (refused) s where "xmit env dst (int i) len st = Some (-1, st\<lparr>pkt := s\<rparr>)" "ring_ok env s"
      "sent s = sent (pkt st)" "my_pnid s = my_pnid (pkt st)" "\<not> idle env (pkt st) \<or> \<not> sendable dst (int len)"
      "sendable dst (int len) \<longrightarrow> (\<forall>m n. \<not> ready env i (Suc m) n (pkt st))"
  | (sent) s where "xmit env dst (int i) len st = Some (0, st\<lparr>pkt := s\<rparr>)" "ring_ok env s"
      "sent s = sent (pkt st) @ [packet_of (uint dst) (int len) (sent_page (int len) (my_pnid (pkt st)) (page_at env i (pkt st)))]"
      "my_pnid s = my_pnid (pkt st)" "\<forall>m n. ready env i (Suc m) n (pkt st) \<longrightarrow> space env m n s"
proof -
  obtain k where k: "ring_inv (virt_to_bus env) k (pkt st)" using assms by (auto simp: ring_ok_def)
  have i: "i < MAX_SND_PKT_ENTRIES" "stat_at (pkt st) i = pg_checked_out" using assms(2) by (simp_all add: holds_def)
  have free: "phys_at (pkt st) (last_pkt (pkt st)) = 0" if "idle env (pkt st)"
    using that span_idle [of "pkt st" "last_pkt (pkt st)"] by (simp add: idle_def ring_inv_def ring_span_def)
  show thesis
    using k i
  proof (cases rule: myrPkt_xmit_inv [where dst = dst and len = "int len"])
    case 1: (refused s)
    have "\<not> ready env i (Suc m) n (pkt st)" if "sendable dst (int len)" for m n
      using 1(5) that space_slot [of env m n "pkt st"] by (auto simp: ready_def)
    then show thesis
      using 1 myrPkt_xmit_pnid [OF 1(1)] free by (intro refused [of s]) (auto simp: xmit_def ring_ok_def sent_def idle_def)
  next
    case 2: (sent s)
    show thesis
      using 2 myrPkt_xmit_pnid [OF 2(1)] xmit_space [OF 2(2) k i 2(1)] by (intro sent [of s]) (auto simp: xmit_def ring_ok_def sent_def page_at_def)
  qed
qed

section \<open>Protocol packets\<close>

text \<open>The parts of a packet that a receiver looks at.\<close>

definition proto_pkt :: "pkt_type_t \<Rightarrow> 32 word \<Rightarrow> 16 word \<Rightarrow> 32 word \<Rightarrow> 16 word \<Rightarrow> 8 word list \<Rightarrow> int \<Rightarrow> packet \<Rightarrow> bool" where
  "proto_pkt type msgID dst info info2 buf pnid p \<longleftrightarrow>
     pk_dest p = uint dst \<and> ph_type (pk_hdr p) = type \<and> ph_msgID (pk_hdr p) = msgID \<and> ph_info (pk_hdr p) = info \<and>
     ph_info2 (pk_hdr p) = ucast info2 \<and> ph_src_nid (pk_hdr p) = of_int pnid \<and> pk_phdr p = None \<and> pk_data p = buf"

lemma sendProtoMSG_ok:
  assumes "ring_ok env (pkt st)"
  obtains s ps where "sendProtoMSG env type msgID dst info info2 buf st = Some (st\<lparr>pkt := s\<rparr>)" "ring_ok env s"
    "my_pnid s = my_pnid (pkt st)" "sent s = sent (pkt st) @ ps"
    "ps = [] \<or> (\<exists>p. ps = [p] \<and> proto_pkt type msgID dst info info2 buf (my_pnid (pkt st)) p)"
    "buf = [] \<Longrightarrow> idle env (pkt st) \<Longrightarrow> sendable dst (int sizeof_pkthdr) \<Longrightarrow> ps \<noteq> []"
proof (cases "length buf > MYRPKT_MTU - sizeof_pkthdr")
  case True
  then show thesis using assms by (intro that [of "pkt st" "[]"]) (simp_all add: sendProtoMSG_def)
next
  case long: False
  show thesis
    using assms
  proof (cases rule: build_page_ok [where type = type and msgID = msgID and phdr = None and payload = "length buf" and msgNum = ILLMSGNUM])
    case refused
    then show thesis using assms long
      by (intro that [of "pkt st" "[]"]) (auto simp: sendProtoMSG_def headers_of_def sizeof_pkthdr_def MYRPKT_MTU_def PAGE_SHIFT_def)
  next
    case b: (given i s1)
    let ?st1 = "st\<lparr>pkt := s1\<rparr>"
    let ?f = "\<lambda>pg. (put_data buf pg)\<lparr>pg_hdr := (pg_hdr pg)\<lparr>ph_info := info, ph_info2 := ucast info2\<rparr>\<rparr>"
    have "ring_ok env (pkt ?st1)" "holds i (pkt ?st1)" using b(2,3) by simp_all
    then obtain s2 where f: "fill_page env (int i) ?f ?st1 = ?st1\<lparr>pkt := s2\<rparr>" "ring_ok env s2" "holds i s2" "sent s2 = sent (pkt ?st1)"
        "my_pnid s2 = my_pnid (pkt ?st1)" "page_at env i s2 = ?f (page_at env i (pkt ?st1))" "idle env (pkt ?st1) \<Longrightarrow> idle env s2"
      by (rule fill_page_ok) (rule that)
    let ?st2 = "st\<lparr>pkt := s2\<rparr>" and ?len = "sizeof_pkthdr + length buf"
    have "ring_ok env (pkt ?st2)" "holds i (pkt ?st2)" using f by simp_all
    then show thesis
    proof (cases rule: xmit_ok [where dst = dst and len = ?len])
      case 1: (refused s)
      then show thesis using b f long by (intro that [of s "[]"]) (simp_all add: sendProtoMSG_def)
    next
      case 2: (sent s)
      let ?p = "packet_of (uint dst) (int ?len) (sent_page (int ?len) (my_pnid s2) (page_at env i s2))"
      have "proto_pkt type msgID dst info info2 buf (my_pnid (pkt st)) ?p"
        using b f by (auto simp: proto_pkt_def packet_of_def sent_page_def new_hdr_def put_data_def headers_of_def intro!: nth_equalityI)
      then show thesis using 2 b f long by (intro that [of s "[?p]"]) (simp_all add: sendProtoMSG_def)
    qed
  qed
qed

end
