(* ===== verification/R_Burst.thy ===== *)
theory R_Burst
  imports R_SendProps
begin

text \<open>
  What \<open>sendDATA\<close> puts on the network: consecutive pieces of the message, numbered
  consecutively.  A packet the card refuses uses up its number without being sent.
\<close>

abbreviation data_max :: nat where
  "data_max \<equiv> MYRPKT_MTU - sizeof_pkthdr"

text \<open>
  A data packet of the message \<open>msg\<close> with the bytes at \<open>off\<close>, number \<open>k\<close> of the round
  \<open>r\<close>.
\<close>

definition data_packet :: "32 word \<Rightarrow> int \<Rightarrow> 8 word list \<Rightarrow> int \<Rightarrow> 32 word \<Rightarrow> nat \<Rightarrow> packet \<Rightarrow> bool" where
  "data_packet msgID pnid msg r k off p \<longleftrightarrow>
     ph_msgID (pk_hdr p) = msgID \<and> ph_src_nid (pk_hdr p) = of_int pnid \<and> ph_info2 (pk_hdr p) = of_int r \<and>
     ph_seq (pk_hdr p) = k \<and> ph_type (pk_hdr p) \<in> {DATA, STOP_DATA, LAST_DATA} \<and>
     (ph_type (pk_hdr p) = LAST_DATA \<longleftrightarrow> length msg \<le> off + data_max) \<and> pk_data p = take data_max (drop off msg)"

fun burst :: "32 word \<Rightarrow> int \<Rightarrow> 8 word list \<Rightarrow> int \<Rightarrow> 32 word \<Rightarrow> nat \<Rightarrow> packet list \<Rightarrow> bool" where
  "burst msgID pnid msg r k off [] = True"
| "burst msgID pnid msg r k off (p # ps) =
     (data_packet msgID pnid msg r (k + 1) off p \<and>
      burst msgID pnid msg r (k + 1) (min (length msg) (off + data_max)) ps)"

lemma burst_nth:
  assumes "burst msgID pnid msg r k off ps" "off \<le> length msg" "j < length ps"
  shows "data_packet msgID pnid msg r (k + of_nat (Suc j)) (min (length msg) (off + j * data_max)) (ps ! j)"
  using assms
proof (induction ps arbitrary: k off j)
  case (Cons p ps)
  show ?case
  proof (cases j)
    case 0
    then show ?thesis using Cons.prems by (simp add: min_absorb2)
  next
    case (Suc i)
    have "data_packet msgID pnid msg r (k + 1 + of_nat (Suc i))
        (min (length msg) (min (length msg) (off + data_max) + i * data_max)) (ps ! i)"
      using Cons.IH [of "k + 1" "min (length msg) (off + data_max)" i] Cons.prems Suc by simp
    moreover have "min (length msg) (min (length msg) (off + data_max) + i * data_max) =
        min (length msg) (off + Suc i * data_max)" by (auto simp: min_def)
    ultimately show ?thesis using Suc by (simp add: add.assoc)
  qed
qed simp

text \<open>What the process of an entry has in its buffer, from the byte \<open>off\<close> on.\<close>

definition entry_msg :: "rts_env \<Rightarrow> Qentry_t \<Rightarrow> memory \<Rightarrow> 8 word list \<Rightarrow> bool" where
  "entry_msg env e mem msg \<longleftrightarrow>
     (\<exists>frame. mm_of env (q_task e) = Some frame \<and> mapped frame (q_buf e) (length msg) \<and>
        user_bytes frame (q_buf e) (length msg) mem = msg)"

lemma ucast_off: "n < 2 ^ 32 \<Longrightarrow> ucast (of_nat n :: 32 word) = (of_nat n :: 64 word)"
  by (transfer, simp add: take_bit_int_eq_self)

lemma unat_32: "n < 2 ^ 32 \<Longrightarrow> unat (of_nat n :: 32 word) = n"
  by (simp add: unat_of_nat take_bit_nat_eq_self)

lemma data_payload_nat: "n < 2 ^ 32 \<Longrightarrow> unat (data_payload (of_nat n)) = min data_max n"
  using unat_32 [of n] by (simp add: data_payload_def min_def word_le_nat_alt MYRPKT_MTU_def sizeof_pkthdr_def PAGE_SHIFT_def)

lemma user_to_page_ok:
  assumes msg: "entry_msg env e (umem st) msg" and off: "off + m \<le> length msg" "length msg < 2 ^ 32"
    and ok: "ring_ok env (pkt st)" "holds i (pkt st)"
  obtains s where "user_to_page env (q_task e) (int i) (q_buf e + ucast (of_nat off :: 32 word)) m st = (0, st\<lparr>pkt := s\<rparr>)"
    "ring_ok env s" "holds i s" "sent s = sent (pkt st)" "my_pnid s = my_pnid (pkt st)"
    "pg_hdr (page_at env i s) = pg_hdr (page_at env i (pkt st))" "pg_phdr (page_at env i s) = pg_phdr (page_at env i (pkt st))"
    "map (pg_data (page_at env i s)) [0..<m] = take m (drop off msg)" "idle env (pkt st) \<Longrightarrow> idle env s"
    "\<forall>m n. ready env i m n (pkt st) \<longrightarrow> ready env i m n s"
proof -
  obtain frame where f: "mm_of env (q_task e) = Some frame" "mapped frame (q_buf e) (length msg)"
      "user_bytes frame (q_buf e) (length msg) (umem st) = msg" using msg by (auto simp: entry_msg_def)
  let ?v = "q_buf e + of_nat off"
  let ?to = "\<lambda>j. if j < m then user_bytes frame ?v m (umem st) ! j else pg_data (page_at env i (pkt st)) j"
  have u: "ucast (of_nat off :: 32 word) = (of_nat off :: 64 word)" using off by (intro ucast_off) simp
  have "memcpy2_from_user env (q_task e) (pg_data (page_at env i (pkt st))) ?v m (umem st) = (0, ?to)"
    using f(1) mapped_shift [OF f(2) off(1)] by (rule memcpy2_from_user_ok)
  then have eq: "user_to_page env (q_task e) (int i) (q_buf e + ucast (of_nat off :: 32 word)) m st =
      (0, fill_page env (int i) (\<lambda>pg. pg\<lparr>pg_data := ?to\<rparr>) st)" by (simp add: user_to_page_def u)
  obtain s where s: "fill_page env (int i) (\<lambda>pg. pg\<lparr>pg_data := ?to\<rparr>) st = st\<lparr>pkt := s\<rparr>" "ring_ok env s" "holds i s"
      "sent s = sent (pkt st)" "my_pnid s = my_pnid (pkt st)" "page_at env i s = (page_at env i (pkt st))\<lparr>pg_data := ?to\<rparr>"
      "idle env (pkt st) \<Longrightarrow> idle env s" "\<forall>m n. ready env i m n (pkt st) \<longrightarrow> ready env i m n s"
    by (rule fill_page_ok [OF ok]) (rule that)
  have "map (pg_data (page_at env i s)) [0..<m] = user_bytes frame ?v m (umem st)"
    using s(6) by (intro nth_equalityI) simp_all
  also have "\<dots> = take m (drop off msg)" using user_bytes_slice [OF off(1)] f(3) by metis
  finally show thesis using that [of s] eq s by simp
qed

definition dst_ok :: "Qentry_t \<Rightarrow> bool" where
  "dst_ok e \<longleftrightarrow> uint (q_dst_nid e) \<le> int MAX_NODES \<or> uint (q_dst_nid e) = TEST_ROUTE_ID"

lemma dst_ok_sendable: "dst_ok e \<Longrightarrow> sendable (q_dst_nid e) (int (sizeof_pkthdr + min data_max n))"
  by (simp add: dst_ok_def sendable_def sizeof_pkthdr_def MYRPKT_MTU_def PAGE_SHIFT_def)

text \<open>One turn of the loop that reaches \<open>myrPkt_xmit\<close>.\<close>

lemma data_turn:
  assumes msg: "entry_msg env e (umem st) msg" and off: "off \<le> length msg" "length msg < 2 ^ 32"
    and ok: "ring_ok env (pkt st)" and e: "qheap st a = Some e"
  defines "m \<equiv> min data_max (length msg - off)" and "remain \<equiv> of_nat (length msg - off) :: 32 word"
    and "e' \<equiv> e\<lparr>q_seq := q_seq e + 1\<rparr>"
  obtains (no_page) "sendDATA_loop env a num_pkts (Suc n) remain (of_nat off) ev st =
        Some (Some (of_nat off, E_SENT_STOP_DATA), st)" "\<not> idle env (pkt st)" "\<forall>m n. \<not> space env m (Suc n) (pkt st)"
  | (refused) s where "sendDATA_loop env a num_pkts (Suc n) remain (of_nat off) ev st =
        Some (Some (of_nat off, E_SENT_STOP_DATA), st\<lparr>qheap := (qheap st)(a \<mapsto> e'), pkt := s\<rparr>)"
        "ring_ok env s" "sent s = sent (pkt st)" "my_pnid s = my_pnid (pkt st)" "\<not> idle env (pkt st) \<or> \<not> dst_ok e"
        "dst_ok e \<longrightarrow> (\<forall>m n. \<not> space env (Suc m) (Suc n) (pkt st))"
  | (sent) s p ev' where "ring_ok env s" "sent s = sent (pkt st) @ [p]" "my_pnid s = my_pnid (pkt st)"
        "data_packet (q_msgID e) (my_pnid (pkt st)) msg (q_retries e) (q_seq e + 1) off p"
        "sendDATA_loop env a num_pkts (Suc n) remain (of_nat off) ev st =
           (if length msg \<le> off + data_max
            then Some (Some (of_nat (length msg), ev'), st\<lparr>qheap := (qheap st)(a \<mapsto> e'), pkt := s\<rparr>)
            else sendDATA_loop env a num_pkts n (of_nat (length msg - (off + data_max))) (of_nat (off + data_max)) ev'
                   (st\<lparr>qheap := (qheap st)(a \<mapsto> e'), pkt := s\<rparr>))"
        "\<forall>m n. space env (Suc m) (Suc n) (pkt st) \<longrightarrow> space env m n s" "n = 0 \<longrightarrow> ph_type (pk_hdr p) \<noteq> DATA"
proof -
  have len: "length msg - off < 2 ^ 32" using off by simp
  let ?pl = "data_payload remain"
  have pl: "unat ?pl = m" using data_payload_nat [OF len] by (simp add: m_def remain_def)
  have rem: "unat remain = length msg - off" using unat_32 [OF len] by (simp add: remain_def)
  obtain ty ev' where ty: "data_type ?pl remain (Suc n) = (ty, ev')" by (cases "data_type ?pl remain (Suc n)")
  show thesis
    using ok
  proof (cases rule: build_page_ok [where type = ty and msgID = "q_msgID e" and phdr = None and payload = m and msgNum = "q_msgNum e"])
    case refused
    have "m + headers_of None \<le> MYRPKT_MTU"
      by (simp add: m_def headers_of_def sizeof_pkthdr_def MYRPKT_MTU_def PAGE_SHIFT_def)
    then show thesis using refused e ty pl by (intro no_page) simp_all
  next
    case b: (given i s1)
    have le: "off + m \<le> length msg" using off by (simp add: m_def)
    let ?st1 = "st\<lparr>pkt := s1\<rparr>"
    have pre: "entry_msg env e (umem ?st1) msg" "ring_ok env (pkt ?st1)" "holds i (pkt ?st1)" using msg b(2,3) by simp_all
    obtain s2 where u: "user_to_page env (q_task e) (int i) (q_buf e + ucast (of_nat off :: 32 word)) m ?st1 = (0, ?st1\<lparr>pkt := s2\<rparr>)"
        "ring_ok env s2" "holds i s2" "sent s2 = sent (pkt ?st1)" "my_pnid s2 = my_pnid (pkt ?st1)"
        "pg_hdr (page_at env i s2) = pg_hdr (page_at env i (pkt ?st1))" "pg_phdr (page_at env i s2) = pg_phdr (page_at env i (pkt ?st1))"
        "map (pg_data (page_at env i s2)) [0..<m] = take m (drop off msg)" "idle env (pkt ?st1) \<Longrightarrow> idle env s2"
        "\<forall>m n. ready env i m n (pkt ?st1) \<longrightarrow> ready env i m n s2"
      by (rule user_to_page_ok [OF pre(1) le off(2) pre(2,3)]) (rule that)
    let ?st3 = "st\<lparr>pkt := s2, qheap := (qheap st)(a \<mapsto> e')\<rparr>"
    let ?f = "\<lambda>pg. pg\<lparr>pg_hdr := (pg_hdr pg)\<lparr>ph_seq := q_seq e + 1, ph_info := of_int num_pkts, ph_info2 := of_int (q_retries e)\<rparr>\<rparr>"
    have up: "upd_entry a (\<lambda>e. e\<lparr>q_seq := q_seq e + 1\<rparr>) (st\<lparr>pkt := s2\<rparr>) = Some ?st3"
      using e by (simp add: upd_entry_def e'_def)
    have pre3: "ring_ok env (pkt ?st3)" "holds i (pkt ?st3)" using u(2,3) by simp_all
    obtain s3 where f: "fill_page env (int i) ?f ?st3 = ?st3\<lparr>pkt := s3\<rparr>" "ring_ok env s3" "holds i s3" "sent s3 = sent (pkt ?st3)"
        "my_pnid s3 = my_pnid (pkt ?st3)" "page_at env i s3 = ?f (page_at env i (pkt ?st3))" "idle env (pkt ?st3) \<Longrightarrow> idle env s3"
        "\<forall>m n. ready env i m n (pkt ?st3) \<longrightarrow> ready env i m n s3"
      by (rule fill_page_ok [OF pre3]) (rule that)
    let ?st4 = "?st3\<lparr>pkt := s3\<rparr>"
    have "ring_ok env (pkt ?st4)" "holds i (pkt ?st4)" using f by simp_all
    then show thesis
    proof (cases rule: xmit_ok [where dst = "q_dst_nid e" and len = "sizeof_pkthdr + m"])
      case x: (refused s)
      have "\<forall>m n. space env (Suc m) (Suc n) (pkt st) \<longrightarrow> ready env i (Suc m) n s3" using f(8) u(10) b(9) by simp
      then have "dst_ok e \<longrightarrow> (\<forall>m n. \<not> space env (Suc m) (Suc n) (pkt st))"
        using x(6) dst_ok_sendable [of e "length msg - off"] by (auto simp: m_def)
      then show thesis
        using x(1-5) b(1-8) u(1-9) f(1-7) up e ty pl dst_ok_sendable [of e "length msg - off"] by (intro refused [of s]) (auto simp: m_def)
    next
      case x: (sent s)
      let ?p = "packet_of (uint (q_dst_nid e)) (int (sizeof_pkthdr + m))
        (sent_page (int (sizeof_pkthdr + m)) (my_pnid s3) (page_at env i s3))"
      have eqr: "?pl = remain \<longleftrightarrow> length msg \<le> off + data_max"
        using off pl rem by (auto simp: word_unat_eq_iff m_def)
      have "pk_data ?p = map (pg_data (page_at env i s2)) [0..<m]"
        using b(6) u(7) f(6) by (simp add: packet_of_def sent_page_def headers_of_def nat_add_distrib)
      also have "\<dots> = take data_max (drop off msg)" using u(8) by (simp add: m_def min_def)
      finally have "data_packet (q_msgID e) (my_pnid (pkt st)) msg (q_retries e) (q_seq e + 1) off ?p"
        using b(5,6) u(5,6) f(5,6) ty eqr unfolding data_packet_def
        by (auto simp: packet_of_def sent_page_def new_hdr_def data_type_def split: if_splits)
      note data = this
      let ?st = "st\<lparr>qheap := (qheap st)(a \<mapsto> e'), pkt := s\<rparr>"
      have loop: "sendDATA_loop env a num_pkts (Suc n) remain (of_nat off) ev st =
          (if remain - ?pl = 0 then Some (Some (of_nat off + ?pl, ev'), ?st)
           else sendDATA_loop env a num_pkts n (remain - ?pl) (of_nat off + ?pl) ev' ?st)"
        using x(1) b(1) u(1) f(1) up e ty pl by (simp add: Let_def)
      have o: "of_nat off + ?pl = of_nat (off + m)" using pl [symmetric] by simp
      have r: "remain - ?pl = of_nat (length msg - (off + m))"
        using pl [symmetric] le off(1) by (simp add: remain_def of_nat_diff)
      have "remain - ?pl = 0 \<longleftrightarrow> length msg \<le> off + data_max" using eqr by auto
      then have "sendDATA_loop env a num_pkts (Suc n) remain (of_nat off) ev st =
           (if length msg \<le> off + data_max then Some (Some (of_nat (length msg), ev'), ?st)
            else sendDATA_loop env a num_pkts n (of_nat (length msg - (off + data_max))) (of_nat (off + data_max)) ev' ?st)"
        using loop off(1) unfolding o r by (cases "length msg \<le> off + data_max") (simp_all add: m_def)
      moreover have "n = 0 \<longrightarrow> ph_type (pk_hdr ?p) \<noteq> DATA"
        using b(6) u(6) f(6) ty by (auto simp: packet_of_def sent_page_def new_hdr_def data_type_def split: if_splits)
      moreover have "\<forall>m n. space env (Suc m) (Suc n) (pkt st) \<longrightarrow> space env m n s" using x(5) f(8) u(10) b(9) by simp
      ultimately show thesis using sent [of s ?p ev'] x(2,3,4) f(4,5) u(4,5) b(4,5) data by simp
    qed
  qed
qed

text \<open>
  The packets \<open>ps\<close> of an entry, \<open>g\<close> numbers used up by a refused packet at the end, and
  the offset reached.
\<close>

definition sends ::
  "rts_env \<Rightarrow> Qentry_t \<Rightarrow> 8 word list \<Rightarrow> nat \<Rightarrow> snd_st \<Rightarrow> snd_st \<Rightarrow> packet list \<Rightarrow> nat \<Rightarrow> nat \<Rightarrow> nat \<Rightarrow> bool" where
  "sends env e msg n s s' ps g off off' \<longleftrightarrow>
     ring_ok env s' \<and> my_pnid s' = my_pnid s \<and> sent s' = sent s @ ps \<and>
     burst (q_msgID e) (my_pnid s) msg (q_retries e) (q_seq e) off ps \<and>
     off' = min (length msg) (off + length ps * data_max) \<and> g \<le> 1 \<and> length ps + g \<le> n \<and>
     (0 < n \<and> idle env s \<and> dst_ok e \<longrightarrow> ps \<noteq> [])"

lemma sends_none:
  "n = 0 \<or> \<not> idle env s \<or> \<not> dst_ok e \<Longrightarrow> ring_ok env s' \<Longrightarrow> my_pnid s' = my_pnid s \<Longrightarrow> sent s' = sent s \<Longrightarrow> off \<le> length msg \<Longrightarrow> g \<le> 1 \<Longrightarrow> g \<le> n \<Longrightarrow>
    sends env e msg n s s' [] g off off"
  by (simp add: sends_def)

lemma sends_Cons:
  assumes p: "data_packet (q_msgID e) (my_pnid s) msg (q_retries e) (q_seq e + 1) off p"
    and s1: "my_pnid s1 = my_pnid s" "sent s1 = sent s @ [p]"
    and rest: "sends env (e\<lparr>q_seq := q_seq e + 1\<rparr>) msg n' s1 s' ps g (min (length msg) (off + data_max)) off'" "n' \<le> n"
  shows "sends env e msg (Suc n) s s' (p # ps) g off off'"
proof -
  have "min (length msg) (min (length msg) (off + data_max) + length ps * data_max) =
      min (length msg) (off + length (p # ps) * data_max)" by (auto simp: min_def)
  then show ?thesis using p s1 rest unfolding sends_def by simp
qed

text \<open>When there is room for all the packets, none is refused, and the last one asks for more or is the end.\<close>

definition full :: "rts_env \<Rightarrow> Qentry_t \<Rightarrow> nat \<Rightarrow> snd_st \<Rightarrow> packet list \<Rightarrow> nat \<Rightarrow> bool" where
  "full env e n s ps g \<longleftrightarrow> 0 < n \<and> space env n n s \<and> dst_ok e \<longrightarrow> ps \<noteq> [] \<and> g = 0 \<and> ph_type (pk_hdr (last ps)) \<noteq> DATA"

lemma full_Cons:
  assumes "full env (e\<lparr>q_seq := x\<rparr>) n s1 ps g" "length ps + g \<le> n" "\<forall>m n. space env (Suc m) (Suc n) s \<longrightarrow> space env m n s1"
    "n = 0 \<longrightarrow> ph_type (pk_hdr p) \<noteq> DATA"
  shows "full env e (Suc n) s (p # ps) g"
  using assms by (cases "n = 0") (auto simp: full_def dst_ok_def)

text \<open>The result of the loop for those packets.\<close>

abbreviation data_result ::
  "nat \<Rightarrow> Qentry_t \<Rightarrow> rts \<Rightarrow> snd_st \<Rightarrow> packet list \<Rightarrow> nat \<Rightarrow> nat \<Rightarrow> entry_event_t \<Rightarrow> ((32 word \<times> entry_event_t) option \<times> rts) option" where
  "data_result a e st s ps g off' ev' \<equiv>
     Some (Some (of_nat off', ev'), st\<lparr>qheap := (qheap st)(a \<mapsto> e\<lparr>q_seq := q_seq e + of_nat (length ps + g)\<rparr>), pkt := s\<rparr>)"

lemma data_result_none: "qheap st a = Some e \<Longrightarrow> data_result a e st (pkt st) [] 0 off ev = Some (Some (of_nat off, ev), st)"
  by (simp add: fun_upd_idem)

lemma sendDATA_loop_ok:
  assumes "entry_msg env e (umem st) msg" "off \<le> length msg" "length msg < 2 ^ 32" "ring_ok env (pkt st)" "qheap st a = Some e"
  shows "\<exists>s ps g off' ev'. sendDATA_loop env a num_pkts n (of_nat (length msg - off)) (of_nat off) ev st =
      data_result a e st s ps g off' ev' \<and> sends env e msg n (pkt st) s ps g off off' \<and> full env e n (pkt st) ps g"
  using assms
proof (induction n arbitrary: st off e ev)
  case 0
  then have "sends env e msg 0 (pkt st) (pkt st) [] 0 off off" by (intro sends_none) simp_all
  moreover have "sendDATA_loop env a num_pkts 0 (of_nat (length msg - off)) (of_nat off) ev st = data_result a e st (pkt st) [] 0 off ev"
    unfolding data_result_none [OF "0.prems"(5)] by simp
  moreover have "full env e 0 (pkt st) [] 0" by (simp add: full_def)
  ultimately show ?case by blast
next
  case (Suc n)
  let ?l = "sendDATA_loop env a num_pkts (Suc n) (of_nat (length msg - off)) (of_nat off) ev st"
  show ?case
    using Suc.prems
  proof (cases rule: data_turn [where num_pkts = num_pkts and n = n and ev = ev])
    case no_page
    have "?l = data_result a e st (pkt st) [] 0 off E_SENT_STOP_DATA"
      unfolding data_result_none [OF Suc.prems(5)] by (rule no_page(1))
    moreover have "sends env e msg (Suc n) (pkt st) (pkt st) [] 0 off off" using Suc.prems no_page(2) by (intro sends_none) simp_all
    moreover have "full env e (Suc n) (pkt st) [] 0" using no_page(3) by (simp add: full_def)
    ultimately show ?thesis by blast
  next
    case r: (refused s)
    have "?l = data_result a e st s [] 1 off E_SENT_STOP_DATA" unfolding r(1) by simp
    moreover have "sends env e msg (Suc n) (pkt st) s [] 1 off off" using Suc.prems r by (intro sends_none) simp_all
    moreover have "full env e (Suc n) (pkt st) [] 1" using r(6) by (auto simp: full_def)
    ultimately show ?thesis by blast
  next
    case t: (sent s1 p ev1)
    let ?e = "e\<lparr>q_seq := q_seq e + 1\<rparr>" let ?st = "st\<lparr>qheap := (qheap st)(a \<mapsto> ?e), pkt := s1\<rparr>"
    show ?thesis
    proof (cases "length msg \<le> off + data_max")
      case True
      have "sends env ?e msg 0 s1 s1 [] 0 (min (length msg) (off + data_max)) (min (length msg) (off + data_max))"
        using t by (intro sends_none) simp_all
      then have "sends env e msg (Suc n) (pkt st) s1 [p] 0 off (length msg)"
        using sends_Cons [OF t(4) t(3,2), of env 0 s1 "[]" 0] True by (simp add: min_absorb1)
      moreover have "?l = data_result a e st s1 [p] 0 (length msg) ev1" unfolding t(5) using True by simp
      moreover have "full env e (Suc n) (pkt st) [p] 0" using t(4) True by (simp add: full_def data_packet_def)
      ultimately show ?thesis by blast
    next
      case False
      have "entry_msg env ?e (umem ?st) msg" "off + data_max \<le> length msg" "ring_ok env (pkt ?st)" "qheap ?st a = Some ?e"
        using Suc.prems(1) t(1) False by (simp_all add: entry_msg_def)
      from Suc.IH [OF this(1,2) Suc.prems(3) this(3,4), of ev1] obtain s ps g off' ev' where ih: "sendDATA_loop env a num_pkts n (of_nat (length msg - (off + data_max))) (of_nat (off + data_max)) ev1 ?st =
          data_result a ?e ?st s ps g off' ev'" "sends env ?e msg n (pkt ?st) s ps g (off + data_max) off'" "full env ?e n (pkt ?st) ps g"
        by blast
      have "sends env e msg (Suc n) (pkt st) s (p # ps) g off off'"
        using sends_Cons [OF t(4) t(3,2), of env n s ps g off'] ih(2) False by (simp add: min_absorb2)
      moreover have "?l = data_result a e st s (p # ps) g off' ev'" unfolding t(5) using False ih(1) by (simp add: add.assoc)
      moreover have "full env e (Suc n) (pkt st) (p # ps) g" using ih(2,3) t(6,7) by (intro full_Cons) (simp_all add: sends_def)
      ultimately show ?thesis by blast
    qed
  qed
qed

lemma sendDATA_ok:
  assumes msg: "entry_msg env e (umem st) msg" and off: "off \<le> length msg" "length msg < 2 ^ 32"
    and ok: "ring_ok env (pkt st)" "qheap st a = Some e"
    and e: "q_len e = of_nat (length msg)" "q_datasent e = of_nat off"
  obtains s ps g off' ev' where "sendDATA env a num_pkts st = Some (st\<lparr>qheap := (qheap st)(a \<mapsto>
      e\<lparr>q_idle := jiffies st, q_seq := q_seq e + of_nat (length ps + g), q_datasent := of_nat off', q_event := ev'\<rparr>), pkt := s\<rparr>)"
    "sends env e msg (nat num_pkts) (pkt st) s ps g off off'" "full env e (nat num_pkts) (pkt st) ps g"
proof -
  let ?e = "e\<lparr>q_idle := jiffies st\<rparr>" let ?st = "st\<lparr>qheap := (qheap st)(a \<mapsto> ?e)\<rparr>"
  have "entry_msg env ?e (umem ?st) msg" "ring_ok env (pkt ?st)" "qheap ?st a = Some ?e"
    using msg ok by (simp_all add: entry_msg_def)
  from sendDATA_loop_ok [OF this(1) off this(2,3), of num_pkts "nat num_pkts" "q_event e"] obtain s ps g off' ev' where l: "sendDATA_loop env a num_pkts (nat num_pkts) (of_nat (length msg - off)) (of_nat off) (q_event e) ?st =
      data_result a ?e ?st s ps g off' ev'" "sends env ?e msg (nat num_pkts) (pkt ?st) s ps g off off'"
      "full env ?e (nat num_pkts) (pkt ?st) ps g"
    by blast
  have r: "q_len e - q_datasent e = of_nat (length msg - off)" using e off(1) by (simp add: of_nat_diff)
  have "sendDATA env a num_pkts st = Some (st\<lparr>qheap := (qheap st)(a \<mapsto>
      e\<lparr>q_idle := jiffies st, q_seq := q_seq e + of_nat (length ps + g), q_datasent := of_nat off', q_event := ev'\<rparr>), pkt := s\<rparr>)"
    using l(1) ok(2) e(2) r by (simp add: sendDATA_def upd_entry_def)
  moreover have "sends env e msg (nat num_pkts) (pkt st) s ps g off off'" using l(2) by (simp add: sends_def dst_ok_def)
  moreover have "full env e (nat num_pkts) (pkt st) ps g" using l(3) by (simp add: full_def dst_ok_def)
  ultimately show thesis by (rule that)
qed

end
