(* ===== verification/R_Recv.thy ===== *)
theory R_Recv
  imports R_Send
begin

text \<open>
  The handlers of incoming packets (\<open>RTSCTS_recv.c\<close>): the answers to a send
  (\<open>CTS\<close>, \<open>MSGEND\<close>, \<open>MSGDROP\<close>), the hint that lets a receiver forget a
  message (\<open>GCH\<close>), and the data packets.
\<close>

section \<open>Answers\<close>

text \<open>The search of the two send queues that the answers have in common.\<close>

definition dequeue_send :: "32 word \<Rightarrow> rts \<Rightarrow> (nat option \<times> rts) option" where
  "dequeue_send msgID st =
     do {
       (entry, st1) \<leftarrow> dequeue Qsnd_pending msgID st;
       (case entry of None \<Rightarrow> dequeue Qsending msgID st1 | Some a \<Rightarrow> Some (Some a, st1))
     }"

text \<open>
  The event for the sender (\<open>RTSCTS_recv.c:424-457\<close> and \<open>514-542\<close>): the library is called
  once, and the process gets a signal when that fails.
\<close>

definition finish_send :: "rts_env \<Rightarrow> int \<Rightarrow> nat \<Rightarrow> rts \<Rightarrow> rts option" where
  "finish_send env tag a st =
     do {
       e \<leftarrow> qheap st a;
       (if q_nal e = None \<or> q_lib_finalize_called e then Some st
        else do {
          let (rc, st1) = finalize env (q_nal e) tag (q_cookie e) st;
          st2 \<leftarrow> upd_entry a (\<lambda>e. e\<lparr>q_lib_finalize_called := True\<rparr>) st1;
          Some (if rc \<noteq> 0 then send_sig SIGPIPE (q_task e) st2 else st2)
        })
     }"

definition handleMSGEND :: "rts_env \<Rightarrow> 32 word \<Rightarrow> rts \<Rightarrow> rts option" where
  "handleMSGEND env msgID st =
     do {
       (entry, st1) \<leftarrow> dequeue_send msgID st;
       (case entry of
          None \<Rightarrow> Some st1
        | Some a \<Rightarrow>
            do {
              st2 \<leftarrow> finish_send env 3 a st1;
              e \<leftarrow> qheap st2 a;
              st3 \<leftarrow> sendProtoMSG env GCH (q_msgID e) (q_dst_nid e) 0x0011 0x2233 [] st2;
              free_entry (Some a) st3
            })
     }"

definition handleMSGDROP :: "rts_env \<Rightarrow> 32 word \<Rightarrow> 32 word \<Rightarrow> rts \<Rightarrow> rts option" where
  "handleMSGDROP env msgID info2 st =
     do {
       (entry, st1) \<leftarrow> dequeue_send msgID st;
       (case entry of
          None \<Rightarrow> Some st1
        | Some a \<Rightarrow>
            do {
              st2 \<leftarrow> finish_send env 4 a st1;
              e \<leftarrow> qheap st2 a;
              st3 \<leftarrow> (if info2 \<noteq> 0xd5d5
                      then sendProtoMSG env GCH (q_msgID e) (q_dst_nid e) 0x0011 0x2233 [] st2
                      else Some st2);
              free_entry (Some a) st3
            })
     }"

definition handleCTS :: "rts_env \<Rightarrow> 32 word \<Rightarrow> 32 word \<Rightarrow> 32 word \<Rightarrow> rts \<Rightarrow> rts option" where
  "handleCTS env msgID msglen num_pkts st =
     do {
       (entry, st1) \<leftarrow> dequeue_send msgID st;
       (case entry of
          None \<Rightarrow> Some st1
        | Some a \<Rightarrow>
            do {
              st2 \<leftarrow> upd_entry a (\<lambda>e. if msglen < q_len e then e\<lparr>q_len := msglen\<rparr> else e) st1;
              st3 \<leftarrow> enqueue_entry Qsending a st2;
              st4 \<leftarrow> upd_entry a (\<lambda>e. e\<lparr>q_event := E_RCVD_CTS, q_idle := jiffies st3\<rparr>) st3;
              sendDATA env a (s32 (uint num_pkts)) st4
            })
     }"

definition handleGCH :: "32 word \<Rightarrow> rts \<Rightarrow> rts option" where
  "handleGCH msgID st =
     do {
       (entry, st1) \<leftarrow> dequeue Qreceiving msgID st;
       (if entry = None then Some st1 else free_entry entry st1)
     }"

section \<open>Data\<close>

text \<open>
  \<open>msgDone\<close>: a complete message is acknowledged and given to the library, once; the other
  case does nothing here.
\<close>

definition msgDone :: "rts_env \<Rightarrow> pkt_type_t \<Rightarrow> nat \<Rightarrow> rts \<Rightarrow> rts option" where
  "msgDone env ptype a st =
     do {
       e \<leftarrow> qheap st a;
       (if ptype = MSGEND
        then do {
          st1 \<leftarrow> sendProtoMSG env MSGEND (q_msgID e) (q_src_nid e) 0 0 [] st;
          st2 \<leftarrow> upd_entry a (\<lambda>e. e\<lparr>q_event := E_SENT_MSGEND\<rparr>) st1;
          (if q_lib_finalize_called e then Some st2
           else do {
             let (rc, st3) = finalize env (q_nal e) 7 (q_cookie e) st2;
             st4 \<leftarrow> upd_entry a (\<lambda>e. e\<lparr>q_lib_finalize_called := True\<rparr>) st3;
             Some (if rc \<noteq> 0 then send_sig SIGPIPE (q_task e) st4 else st4)
           })
        }
        else if ptype = MSGDROP then Some st
        else upd_entry a (\<lambda>e. e\<lparr>q_event := E_INVALID\<rparr>) st)
     }"

text \<open>
  What a data packet does to its entry before the data is looked at (lines 783-875): the
  sender starts over, the packet is dropped, or it is the one expected.  The second component
  is the number of granted packets taken back.
\<close>

datatype seq_verdict = SEQ_DROP | SEQ_TAKE

definition check_seq :: "pkthdr_t \<Rightarrow> int \<Rightarrow> Qentry_t \<Rightarrow> seq_verdict \<times> int \<times> Qentry_t" where
  "check_seq pkthdr retries e =
     (if (ph_seq pkthdr < q_seq e \<or> retries > q_retries e) \<and> ph_seq pkthdr = 1
      then (SEQ_TAKE, q_granted_pkts e,
            e\<lparr>q_seq := 1, q_datasent := 0, q_retries := retries, q_granted_pkts := 0\<rparr>)
      else if ph_seq pkthdr < q_seq e then (SEQ_DROP, 0, e\<lparr>q_seq := 0x7fffffff\<rparr>)
      else if ph_seq pkthdr > q_seq e \<or> retries > q_retries e then (SEQ_DROP, 0, e\<lparr>q_seq := 0x7fffffff\<rparr>)
      else if ph_type pkthdr = STOP_DATA \<or> ph_type pkthdr = LAST_DATA
      then (SEQ_TAKE, q_granted_pkts e, e\<lparr>q_granted_pkts := 0\<rparr>)
      else (SEQ_TAKE, 0, e))"

text \<open>How many packets the receiver allows the sender.\<close>

definition grant_pkts :: "int \<Rightarrow> int" where
  "grant_pkts outstanding =
     (let num_pkts = s32 (MAX_RCV_PKT_ENTRIES - OTHER_NODES - outstanding)
      in if num_pkts > MAX_DATA_PKTS then MAX_DATA_PKTS else if num_pkts < 1 then 1 else num_pkts)"

definition rcvd_event :: "pkt_type_t \<Rightarrow> entry_event_t" where
  "rcvd_event type =
     (if type = DATA then E_RCVD_DATA else if type = STOP_DATA then E_RCVD_STOP_DATA else E_RCVD_LAST_DATA)"

text \<open>The answer to \<open>STOP_DATA\<close> (lines 955-983).\<close>

definition ask_more :: "rts_env \<Rightarrow> 32 word \<Rightarrow> nat \<Rightarrow> rts \<Rightarrow> rts option" where
  "ask_more env msgID a st =
     do {
       e \<leftarrow> qheap st a;
       let num_pkts = grant_pkts (outstanding_pkts st);
       st1 \<leftarrow> sendProtoMSG env CTS msgID (q_src_nid e) (q_len e) (of_int num_pkts) [] st;
       upd_entry a (\<lambda>e. e\<lparr>q_event := E_SENT_CTS, q_granted_pkts := num_pkts\<rparr>)
         (st1\<lparr>outstanding_pkts := outstanding_pkts st1 + num_pkts\<rparr>)
     }"

text \<open>The end of a message (lines 990-1013).\<close>

definition check_done :: "rts_env \<Rightarrow> 32 word \<Rightarrow> pkt_type_t \<Rightarrow> nat \<Rightarrow> rts \<Rightarrow> rts option" where
  "check_done env msgID type a st =
     do {
       e \<leftarrow> qheap st a;
       (if q_datasent e \<ge> q_len e \<or> type = LAST_DATA
        then if type \<noteq> LAST_DATA
             then do {
               st1 \<leftarrow> msgDone env MSGDROP a st;
               st2 \<leftarrow> sendProtoMSG env MSGDROP msgID (q_src_nid e) 1 0 [] (send_sig SIGUSR2 (q_task e) st1);
               upd_entry a (\<lambda>e. e\<lparr>q_event := E_SENT_MSGEND\<rparr>) st2
             }
             else msgDone env MSGEND a st
        else Some st)
     }"

text \<open>The copy to the process (lines 897-938), once the library has not been called yet.\<close>

definition copy_data :: "rts_env \<Rightarrow> Qentry_t \<Rightarrow> 8 word list \<Rightarrow> memory \<Rightarrow> int \<times> memory" where
  "copy_data env e data mem =
     (if data \<noteq> [] \<and> \<not> q_lib_finalize_called e
      then memcpy2_to_user env (q_task e) (q_buf e + ucast (q_datasent e)) data mem
      else (0, mem))"

text \<open>
  \<open>handleDATA\<close>: \<open>buf\<close> is the data of the packet.  The retries are the \<open>int\<close> of the
  field \<open>info2\<close>.
\<close>

definition handleDATA :: "rts_env \<Rightarrow> 32 word \<Rightarrow> pkthdr_t \<Rightarrow> 8 word list \<Rightarrow> rts \<Rightarrow> rts option" where
  "handleDATA env msgID pkthdr buf st =
     do {
       entry \<leftarrow> find_queue Qreceiving msgID st;
       (case entry of
          None \<Rightarrow> Some st
        | Some a \<Rightarrow>
            do {
              e \<leftarrow> qheap st a;
              let (verdict, back, e1) = check_seq pkthdr (s32 (uint (ph_info2 pkthdr))) e;
              st1 \<leftarrow> upd_entry a (\<lambda>_. e1) (st\<lparr>outstanding_pkts := outstanding_pkts st - back\<rparr>);
              (case verdict of
                 SEQ_DROP \<Rightarrow> Some st1
               | SEQ_TAKE \<Rightarrow>
                   do {
                     let remain = unat (q_len e1 - q_datasent e1);
                     let data = take remain buf;
                     let (rc, mem) = copy_data env e1 data (umem st1);
                     let st2 = st1\<lparr>umem := mem\<rparr>;
                     (if rc \<noteq> 0
                      then do {
                        st3 \<leftarrow> msgDone env MSGDROP a st2;
                        Some (send_sig SIGPIPE (q_task e1) st3)
                      }
                      else do {
                        st3 \<leftarrow> upd_entry a (\<lambda>e. e\<lparr>q_datasent := q_datasent e + of_nat (length data),
                                 q_seq := q_seq e + 1, q_event := rcvd_event (ph_type pkthdr),
                                 q_idle := jiffies st2\<rparr>) st2;
                        st4 \<leftarrow> (if ph_type pkthdr = STOP_DATA then ask_more env msgID a st3 else Some st3);
                        check_done env msgID (ph_type pkthdr) a st4
                      })
                   })
            })
     }"

text \<open>Starting over (\<open>handleDataResend\<close>).\<close>

definition handleDataResend :: "rts_env \<Rightarrow> 32 word \<Rightarrow> rts \<Rightarrow> rts option" where
  "handleDataResend env msgID st =
     do {
       entry \<leftarrow> find_queue Qsending msgID st;
       (case entry of
          None \<Rightarrow> Some st
        | Some a \<Rightarrow>
            do {
              st1 \<leftarrow> upd_entry a (\<lambda>e. e\<lparr>q_idle := jiffies st, q_datasent := 0, q_seq := 0,
                       q_retries := s32 (q_retries e + 1)\<rparr>) st;
              sendDATA env a 1 st1
            })
     }"

end
