(* ===== verification/R_P3.thy ===== *)
theory R_P3
  imports R_Recv
begin

text \<open>
  Portals messages (\<open>RTSCTS_p3.c\<close>): a message is announced by a packet with its header and
  its first bytes (\<open>p3_send\<close>), numbered per destination; \<open>handleP3\<close> takes it only in
  order and hands it to the Portals library, which answers through \<open>p3_recvBody\<close>.
\<close>

section \<open>Return codes and options\<close>

definition P3_OK :: int where [ptl_const]: "P3_OK = 0"
definition P3_DEST_NOT_ACKED :: int where [ptl_const]: "P3_DEST_NOT_ACKED = -1"
definition P3_MCPSHMEM_ERROR :: int where [ptl_const]: "P3_MCPSHMEM_ERROR = -2"
definition P3_NAL_ERROR :: int where [ptl_const]: "P3_NAL_ERROR = -4"
definition P3_FAILED_BUF_MEMCPY :: int where [ptl_const]: "P3_FAILED_BUF_MEMCPY = -5"
definition P3_ENQUEUE_FAILED :: int where [ptl_const]: "P3_ENQUEUE_FAILED = -8"
definition P3_INVALID_DEST :: int where [ptl_const]: "P3_INVALID_DEST = -9"

datatype p3_opt = NOOP | SEND_P3_PING_REQ | SEND_P3_PING_ACK | SEND_P3_NULL | SEND_P3_SYNC

section \<open>Sending\<close>

text \<open>What is sent, per option (lines 927-994): the payload, the type and the event.\<close>

definition p3_kind :: "p3_opt \<Rightarrow> 64 word \<Rightarrow> nat \<times> pkt_type_t \<times> entry_event_t" where
  "p3_kind opt len =
     (let payload = min (MYRPKT_MTU - (sizeof_pkthdr + sizeof_ptl_hdr)) (unat len)
      in case opt of
           SEND_P3_NULL \<Rightarrow> (0, P3_NULL, E_SENT_P3_NULL)
         | SEND_P3_SYNC \<Rightarrow> (0, P3_SYNC, E_INVALID)
         | SEND_P3_PING_REQ \<Rightarrow> (payload, P3_PING_REQ, E_SENT_P3_PING_REQ)
         | SEND_P3_PING_ACK \<Rightarrow> (payload, P3_PING_ACK, E_SENT_P3_PING_ACK)
         | NOOP \<Rightarrow> if payload = unat len then (payload, P3_LAST_RTS, E_SENT_P3_LAST_RTS)
                   else (payload, P3_RTS, E_SENT_P3_RTS))"

text \<open>
  The number of the message and whether it may be sent now (lines 845-890).  \<open>None\<close> is an
  access outside of an array; the third component is \<open>True\<close> when the message must wait for
  the first answer of its destination.
\<close>

definition p3_number ::
  "int \<Rightarrow> 32 word \<Rightarrow> 32 word \<Rightarrow> rts \<Rightarrow> (32 word \<times> 32 word \<times> bool \<times> rts) option" where
  "p3_number dst_nid msgID msgNum st =
     do {
       n \<leftarrow> route dst_nid;
       (if msgID \<noteq> 0
        then Some (if msgNum = BOOTMSGNUM
          then (msgID, msgNum, False, upd_remote n (set_status RMT_PENDING) st)
          else (msgID, msgNum, \<not> rs_first_ack (remote_status st n), st))
        else do {
          let (sendmsgID, st1) = next_msgID st;
          (sendmsgNum, st2) \<leftarrow> next_msgNum dst_nid True st1;
          Some (if sendmsgNum = BOOTMSGNUM
            then (sendmsgID, sendmsgNum, False,
                  upd_remote n (\<lambda>r. (set_status RMT_PENDING r)\<lparr>rs_first_ack := False\<rparr>) st2)
            else (sendmsgID, sendmsgNum, \<not> rs_first_ack (remote_status st2 n), st2))
        })
     }"

text \<open>
  The packet of the message (lines 997-1123): the page and what is in it, or the return code
  when the send is given up.  The page is -1 when there is none, and the payload then 0.
\<close>

definition cb_of :: "rts_env \<Rightarrow> ptl_hdr \<Rightarrow> nat option \<times> nat option" where
  "cb_of env hdr =
     (case get_cb env (src_nid (hdr_src hdr)) (src_pid (hdr_src hdr)) of
        None \<Rightarrow> (None, junk_task env) | Some (cb, task) \<Rightarrow> (cb, task))"

definition p3_page ::
  "rts_env \<Rightarrow> nat option \<Rightarrow> 64 word \<Rightarrow> ptl_hdr \<Rightarrow> nat option \<Rightarrow> bool \<Rightarrow> p3_opt \<Rightarrow> pkt_type_t \<Rightarrow> 32 word \<Rightarrow>
     32 word \<Rightarrow> nat \<Rightarrow> rts \<Rightarrow> ((int + int \<times> nat \<times> nat option) \<times> rts) option" where
  "p3_page env nal buf hdr cookie new opt type sendmsgID sendmsgNum payload st =
     do {
       (page_idx, st1) \<leftarrow> build_page env type sendmsgID (Some hdr) payload sendmsgNum st;
       let payload = (if page_idx < 0 then 0 else payload);
       let (cb, send_task) = (if opt = NOOP then cb_of env hdr else (nal, junk_task env));
       (if cb \<noteq> nal
        then (let st2 = (if new then snd (finalize env nal 24 cookie st1) else st1)
              in Some (Inl P3_NAL_ERROR, st2\<lparr>pkt := free_snd_page page_idx (pkt st2)\<rparr>))
        else if payload > 0
        then (let (rc, st2) = user_to_page env send_task page_idx buf payload st1
              in if rc \<noteq> 0
                 then (let st3 = (if new then send_sig SIGPIPE send_task st2 else st2)
                       in Some (Inl P3_FAILED_BUF_MEMCPY, st3\<lparr>pkt := free_snd_page page_idx (pkt st3)\<rparr>))
                 else Some (Inr (page_idx, payload, send_task), st2))
        else Some (Inr (page_idx, payload, send_task), st1))
     }"

text \<open>The entry of a new message, and the task of an old one (lines 1176-1265).\<close>

definition p3_enqueue ::
  "rts_env \<Rightarrow> nat option \<Rightarrow> 64 word \<Rightarrow> 64 word \<Rightarrow> int \<Rightarrow> ptl_hdr \<Rightarrow> nat option \<Rightarrow> entry_event_t \<Rightarrow> 32 word \<Rightarrow>
     nat \<Rightarrow> nat option \<Rightarrow> rts \<Rightarrow> (nat option \<times> rts) option" where
  "p3_enqueue env nal buf len dst_nid hdr cookie last_event sendmsgID payload send_task st =
     do {
       (entry, st1) \<leftarrow> enqueue (kmalloc env) Qsnd_pending sendmsgID st;
       (case entry of
          None \<Rightarrow> Some (None, st1)
        | Some a \<Rightarrow>
            do {
              (num, st2) \<leftarrow> next_msgNum dst_nid False st1;
              st3 \<leftarrow> upd_entry a (\<lambda>e. e\<lparr>q_msgNum := num, q_event := last_event, q_nal := nal,
                       q_task := send_task, q_cookie := cookie, q_len := ucast len,
                       q_datasent := of_nat payload, q_dst_nid := of_int dst_nid, q_buf := buf,
                       q_seq := 0, q_phdr := hdr\<rparr>) st2;
              Some (Some a, st3)
            })
     }"

text \<open>The entry is found or made, and the page goes to the card (lines 1125-1275).\<close>

definition p3_submit ::
  "rts_env \<Rightarrow> nat option \<Rightarrow> 64 word \<Rightarrow> 64 word \<Rightarrow> int \<Rightarrow> ptl_hdr \<Rightarrow> nat option \<Rightarrow> bool \<Rightarrow> entry_event_t \<Rightarrow> 32 word \<Rightarrow>
     nat \<Rightarrow> int + int \<times> nat \<times> nat option \<Rightarrow> rts \<Rightarrow> (int \<times> rts) option" where
  "p3_submit env nal buf len dst_nid hdr cookie new last_event sendmsgID payload r st =
     (case r of
        Inl rc \<Rightarrow> Some (rc, st)
      | Inr (page_idx, sent, send_task) \<Rightarrow>
          do {
            (entry, st1) \<leftarrow>
              (if new
               then p3_enqueue env nal buf len dst_nid hdr cookie last_event sendmsgID sent send_task st
               else do {
                 entry \<leftarrow> find_queue Qsnd_pending sendmsgID st;
                 a \<leftarrow> entry;
                 st1 \<leftarrow> upd_entry a (\<lambda>e. e\<lparr>q_task := send_task\<rparr>) st;
                 Some (entry, st1)
               });
            (if entry = None
             then (let st2 = snd (finalize env nal 27 cookie st1)
                   in Some (P3_ENQUEUE_FAILED, st2\<lparr>pkt := free_snd_page page_idx (pkt st2)\<rparr>))
             else if page_idx < 0 then Some (P3_OK, st1)
             else do {
               (rc, st2) \<leftarrow> xmit env (of_int dst_nid) page_idx (sizeof_pkthdr + sizeof_ptl_hdr + payload) st1;
               Some (P3_OK, st2)
             })
          })"

text \<open>
  \<open>p3_send\<close>: a \<open>msgID\<close> of 0 is a new message.  The length is unsigned, so the test for a
  negative one never holds and is left out.
\<close>

definition p3_send ::
  "rts_env \<Rightarrow> nat option \<Rightarrow> 64 word \<Rightarrow> 64 word \<Rightarrow> int \<Rightarrow> ptl_hdr \<Rightarrow> nat option \<Rightarrow> 32 word \<Rightarrow> 32 word \<Rightarrow>
     p3_opt \<Rightarrow> rts \<Rightarrow> (int \<times> rts) option" where
  "p3_send env nal buf len dst_nid hdr cookie msgID msgNum opt st =
     (if dst_nid > int MAX_NODES \<and> dst_nid \<noteq> TEST_ROUTE_ID
      then Some (P3_INVALID_DEST, snd (finalize env nal 24 cookie st))
      else do {
        (sendmsgID, sendmsgNum, queue_only, st1) \<leftarrow> p3_number dst_nid msgID msgNum st;
        (if msgID \<noteq> 0 \<and> queue_only then Some (P3_DEST_NOT_ACKED, st1)
         else if \<not> mcpshmem st1
         then Some (P3_MCPSHMEM_ERROR, if msgID = 0 then snd (finalize env nal 20 cookie st1) else st1)
         else do {
           let (payload, type, last_event) = p3_kind opt len;
           (r, st2) \<leftarrow> (if queue_only then Some (Inr (-1, payload, junk_task env), st1)
              else p3_page env nal buf hdr cookie (msgID = 0) opt type sendmsgID sendmsgNum payload st1);
           p3_submit env nal buf len dst_nid hdr cookie (msgID = 0) last_event sendmsgID payload r st2
         })
      })"

text \<open>Pings.  The headers are built on the stack: only the fields assigned are known.\<close>

definition p3_send_ping :: "rts_env \<Rightarrow> 64 word \<Rightarrow> rts \<Rightarrow> (int \<times> rts) option" where
  "p3_send_ping env nid st =
     (let hdr = (junk_hdr env)\<lparr>hdr_src := (hdr_src (junk_hdr env))\<lparr>src_nid := my_pnid (pkt st)\<rparr>\<rparr>
      in p3_send env None 0 0 (s32 (uint nid)) hdr None 0 0 SEND_P3_PING_REQ
           (st\<lparr>p3_ping_done := False, p3_ping_nid := nid\<rparr>))"

definition p3_send_ping_ack :: "rts_env \<Rightarrow> int \<Rightarrow> 32 word \<Rightarrow> rts \<Rightarrow> (int \<times> rts) option" where
  "p3_send_ping_ack env nid msgID st =
     (let hdr = (junk_hdr env)\<lparr>hdr_src := (hdr_src (junk_hdr env))
            \<lparr>src_nid := my_pnid (pkt st), src_pid := s32 (uint msgID)\<rparr>\<rparr>
      in p3_send env None 0 0 nid hdr None 0 0 SEND_P3_PING_ACK st)"

definition p3_get_ping :: "64 word \<Rightarrow> rts \<Rightarrow> int" where
  "p3_get_ping nid st =
     (if p3_ping_done st \<and> nid = p3_ping_nid st then 0
      else if \<not> p3_ping_done st \<and> nid = p3_ping_nid st then -1
      else -2)"

section \<open>Receiving\<close>

record xfer_t =
  xf_msgID :: "32 word"
  xf_msgNum :: "32 word"
  xf_pkt :: "8 word list"
  xf_type :: pkt_type_t
  xf_hdr :: ptl_hdr
  xf_task :: "nat option"

text \<open>The grant and the copy of the first bytes (lines 389-463): the grant, the event, the state.\<close>

definition recv_first ::
  "rts_env \<Rightarrow> xfer_t \<Rightarrow> 64 word \<Rightarrow> 64 word \<Rightarrow> rts \<Rightarrow> (int \<times> entry_event_t \<times> rts) option" where
  "recv_first env xfer buf mlen st =
     do {
       let xlen = length (xf_pkt xfer);
       let src = of_int (src_nid (hdr_src (xf_hdr xfer)));
       let data = take (unat mlen) (xf_pkt xfer);
       let ev = (if xf_type xfer = P3_RTS then E_RCVD_P3_RTS else E_RCVD_P3_LAST_RTS);
       (num_pkts, ev, st1) \<leftarrow>
         (if xlen < unat mlen \<and> xf_type xfer \<noteq> P3_LAST_RTS
          then do {
            let num_pkts = grant_pkts (outstanding_pkts st);
            st1 \<leftarrow> sendProtoMSG env CTS (xf_msgID xfer) src (ucast mlen) (of_int num_pkts) [] st;
            Some (num_pkts, E_SENT_CTS, st1\<lparr>outstanding_pkts := outstanding_pkts st1 + num_pkts\<rparr>)
          }
          else Some (0, ev, st));
       let (rc, mem) = (if data \<noteq> [] then memcpy2_to_user env (xf_task xfer) buf data (umem st1) else (0, umem st1));
       let st2 = st1\<lparr>umem := mem\<rparr>;
       Some (if rc \<noteq> 0 then (num_pkts, E_SENT_MSGDROP, send_sig SIGPIPE (xf_task xfer) st2)
             else (num_pkts, ev, st2))
     }"

text \<open>The end of a message that is complete with its first packet (lines 465-501).\<close>

definition recv_short ::
  "rts_env \<Rightarrow> nat option \<Rightarrow> xfer_t \<Rightarrow> 64 word \<Rightarrow> nat option \<Rightarrow> entry_event_t \<Rightarrow> rts \<Rightarrow>
     (entry_event_t \<times> rts) option" where
  "recv_short env nal xfer mlen cookie ev st =
     (if length (xf_pkt xfer) \<ge> unat mlen \<or> xf_type xfer = P3_LAST_RTS
      then do {
        st1 \<leftarrow> sendProtoMSG env MSGEND (xf_msgID xfer) (of_int (src_nid (hdr_src (xf_hdr xfer)))) 0xc333 0xd333 [] st;
        let (rc, st2) = finalize env nal 15 cookie st1;
        Some (E_SENT_MSGEND, if rc \<noteq> 0 then send_sig SIGPIPE (xf_task xfer) st2 else st2)
      }
      else Some (ev, st))"

text \<open>
  \<open>p3_recvBody\<close>.  The flag that \<open>lib_finalize\<close> was called is a local variable of the
  function: the entry starts with it false.
\<close>

definition p3_recvBody ::
  "rts_env \<Rightarrow> nat option \<Rightarrow> xfer_t \<Rightarrow> 64 word \<Rightarrow> 64 word \<Rightarrow> 64 word \<Rightarrow> nat option \<Rightarrow> rts \<Rightarrow> (int \<times> rts) option" where
  "p3_recvBody env nal xfer buf mlen rlen cookie st =
     (if xf_type xfer \<noteq> P3_RTS \<and> xf_type xfer \<noteq> P3_LAST_RTS then Some (-1, st)
      else do {
        (num_pkts, ev, st1) \<leftarrow> recv_first env xfer buf mlen st;
        (last_event, st2) \<leftarrow> recv_short env nal xfer mlen cookie ev st1;
        (entry, st3) \<leftarrow> enqueue (kmalloc env) Qreceiving (xf_msgID xfer) st2;
        (case entry of
           None \<Rightarrow> Some (-1, st3)
         | Some a \<Rightarrow>
             do {
               st4 \<leftarrow> upd_entry a (\<lambda>e. e\<lparr>q_phdr := xf_hdr xfer, q_event := last_event, q_buf := buf,
                        q_len := ucast mlen, q_pktlen := int (length (xf_pkt xfer)),
                        q_datasent := of_nat (min (unat mlen) (length (xf_pkt xfer))), q_seq := 1,
                        q_task := xf_task xfer, q_src_nid := of_int (src_nid (hdr_src (xf_hdr xfer))),
                        q_nal := nal, q_msgNum := xf_msgNum xfer, q_cookie := cookie,
                        q_granted_pkts := num_pkts\<rparr>) st3;
               Some (s32 (uint rlen), st4)
             })
      })"

text \<open>A duplicate: the last answer is sent again (lines 105-160).\<close>

definition handle_dup :: "rts_env \<Rightarrow> nat \<Rightarrow> rts \<Rightarrow> rts option" where
  "handle_dup env a st =
     do {
       e \<leftarrow> qheap st a;
       (if q_event e = E_SENT_MSGDROP
        then sendProtoMSG env MSGDROP (q_msgID e) (q_src_nid e) 0 0xbbb2 [] st
        else if q_event e = E_SENT_MSGEND
        then sendProtoMSG env MSGEND (q_msgID e) (q_src_nid e) 0xccc2 0xddd2 [] st
        else if q_event e = E_SENT_CTS
        then do {
          st1 \<leftarrow> sendProtoMSG env CTS (q_msgID e) (q_src_nid e) (q_len e) 1 [] st;
          upd_entry a (\<lambda>e. e\<lparr>q_granted_pkts := 1\<rparr>)
            (st1\<lparr>outstanding_pkts := outstanding_pkts st1 + 1 - q_granted_pkts e\<rparr>)
        }
        else Some st)
     }"

text \<open>The order of messages (lines 163-205): none when the message is dropped.\<close>

definition take_number :: "32 word \<Rightarrow> 32 word \<Rightarrow> 32 word option" where
  "take_number msgNum last_num =
     (if last_num = BOOTMSGNUM \<or> msgNum = BOOTMSGNUM
      then Some (if msgNum = BOOTMSGNUM then ILLMSGNUM else msgNum)
      else if msgNum = incMsgNum last_num then Some msgNum else None)"

definition set_last :: "nat \<Rightarrow> 32 word \<Rightarrow> rts \<Rightarrow> rts" where
  "set_last n num st = st\<lparr>lastMsgNum := (lastMsgNum st)(n := num)\<rparr>"

text \<open>
  A message for a process (lines 259-317).  What \<open>lib_parse\<close> does with the header is
  given by the environment; it calls \<open>p3_recvBody\<close> at most once.
\<close>

definition deliver ::
  "rts_env \<Rightarrow> nat \<Rightarrow> 32 word \<Rightarrow> xfer_t \<Rightarrow> rts \<Rightarrow> rts option" where
  "deliver env n orig_msgNum xfer st =
     (case get_cb env (hdr_nid (xf_hdr xfer)) (hdr_pid (xf_hdr xfer)) of
        Some (Some nal, task) \<Rightarrow>
          do {
            let (rc, recv) = lib_parse_of env (k_calls st) nal (xf_hdr xfer);
            let st1 = kcall (LIB_PARSE nal (xf_hdr xfer)) st;
            st2 \<leftarrow> (case recv of
                       None \<Rightarrow> Some st1
                     | Some (buf, mlen, rlen, cookie) \<Rightarrow>
                         map_option snd (p3_recvBody env (Some nal) (xfer\<lparr>xf_task := task\<rparr>) buf mlen rlen cookie st1));
            Some (if rc = 1 then set_last n orig_msgNum st2 else st2)
          }
      | _ \<Rightarrow> sendProtoMSG env MSGDROP (xf_msgID xfer) (of_int (src_nid (hdr_src (xf_hdr xfer)))) 0 0xc3c3 [] st)"

definition handleP3 ::
  "rts_env \<Rightarrow> 32 word \<Rightarrow> 32 word \<Rightarrow> ptl_hdr \<Rightarrow> 8 word list \<Rightarrow> pkt_type_t \<Rightarrow> rts \<Rightarrow> rts option" where
  "handleP3 env msgID msgNum hdr body type st =
     do {
       entry \<leftarrow> find_queue Qreceiving msgID st;
       (case entry of
          Some a \<Rightarrow> handle_dup env a st
        | None \<Rightarrow>
            do {
              let src = src_nid (hdr_src hdr);
              n \<leftarrow> route src;
              (case take_number msgNum (lastMsgNum st n) of
                 None \<Rightarrow> Some st
               | Some num \<Rightarrow>
                   do {
                     let st1 = set_last n num st;
                     (if type = P3_PING_REQ then map_option snd (p3_send_ping_ack env src msgID st1)
                      else if type = P3_PING_ACK \<and> word_of_int src = p3_ping_nid st1
                      then do {
                        (entry, st2) \<leftarrow> dequeue Qsnd_pending (of_int (src_pid (hdr_src hdr))) (st1\<lparr>p3_ping_done := True\<rparr>);
                        st3 \<leftarrow> free_entry entry st2;
                        sendProtoMSG env MSGEND msgID (of_int src) 0xc555 0xd555 [] st3
                      }
                      else if type = P3_NULL
                      then sendProtoMSG env MSGDROP msgID (of_int src) 0 0xd5d5 [] st1
                      else deliver env n (lastMsgNum st n)
                             \<lparr>xf_msgID = msgID, xf_msgNum = msgNum, xf_pkt = body, xf_type = type, xf_hdr = hdr,
                              xf_task = junk_task env\<rparr> st1)
                   })
            })
     }"

section \<open>Sending again\<close>

text \<open>The common end of \<open>handleP3resend\<close> and \<open>handleP3sync\<close>.\<close>

definition resend_done :: "32 word \<Rightarrow> nat \<Rightarrow> int \<Rightarrow> rts \<Rightarrow> rts option" where
  "resend_done msgID a rc st =
     (if rc = P3_NAL_ERROR \<or> rc = P3_FAILED_BUF_MEMCPY \<or> rc = P3_INVALID_DEST
      then do { (entry, st1) \<leftarrow> dequeue Qsnd_pending msgID st; free_entry entry st1 }
      else upd_entry a (\<lambda>e. e\<lparr>q_idle := jiffies st\<rparr>) st)"

definition resend_with :: "(Qentry_t \<Rightarrow> p3_opt) \<Rightarrow> rts_env \<Rightarrow> 32 word \<Rightarrow> 32 word \<Rightarrow> rts \<Rightarrow> rts option" where
  "resend_with opt_of env msgID msgNum st =
     do {
       entry \<leftarrow> find_queue Qsnd_pending msgID st;
       (case entry of
          None \<Rightarrow> Some st
        | Some a \<Rightarrow>
            do {
              st1 \<leftarrow> upd_entry a (\<lambda>e. e\<lparr>q_p3msg_retries := s32 (q_p3msg_retries e + 1)\<rparr>) st;
              e \<leftarrow> qheap st1 a;
              (rc, st2) \<leftarrow> p3_send env (q_nal e) (q_buf e) (ucast (q_len e)) (uint (q_dst_nid e)) (q_phdr e)
                             (q_cookie e) msgID msgNum (opt_of e) st1;
              resend_done msgID a rc st2
            })
     }"

definition handleP3resend :: "rts_env \<Rightarrow> 32 word \<Rightarrow> 32 word \<Rightarrow> rts \<Rightarrow> rts option" where
  "handleP3resend = resend_with (\<lambda>e. if q_event e = E_SENT_P3_NULL then SEND_P3_NULL else NOOP)"

definition handleP3sync :: "rts_env \<Rightarrow> 32 word \<Rightarrow> 32 word \<Rightarrow> rts \<Rightarrow> rts option" where
  "handleP3sync = resend_with (\<lambda>_. SEND_P3_SYNC)"

section \<open>The end of a process\<close>

definition p3_exit :: "nat option \<Rightarrow> rts \<Rightarrow> rts option" where
  "p3_exit task st =
     do { st1 \<leftarrow> clean_queue Qsnd_pending task st; st2 \<leftarrow> clean_queue Qsending task st1; clean_queue Qreceiving task st2 }"

end
