(* ===== verification/R_Time.thy ===== *)
theory R_Time
  imports R_P3
begin

text \<open>
  Tests of routes (\<open>RTSCTS_route.c\<close>), the dispatch of incoming packets
  (\<open>rtscts_recv\<close>), and what the timer does (\<open>RTSCTS_protocol.c\<close>).
\<close>

section \<open>Route tests\<close>

definition upd_rtest :: "(route_test \<Rightarrow> route_test) \<Rightarrow> rts \<Rightarrow> rts" where
  "upd_rtest f st = st\<lparr>rtest := f (rtest st)\<rparr>"

definition MAX_TEST_ROUTE_LEN :: nat where [ptl_const]: "MAX_TEST_ROUTE_LEN = 256"

definition handlePING :: "int \<Rightarrow> rts \<Rightarrow> rts option" where
  "handlePING pnid st =
     do {
       n \<leftarrow> route pnid;
       (if mcpshmem st
        then Some (upd_rtest (\<lambda>r. r\<lparr>pINgFO := (pINgFO r)(n := s32 (1 - pINgFO r n)), ping_stat := pnid\<rparr>) st)
        else None)
     }"

definition handlePINGA :: "rts_env \<Rightarrow> int \<Rightarrow> rts \<Rightarrow> rts option" where
  "handlePINGA env pnid st =
     do {
       st1 \<leftarrow> handlePING pnid st;
       let (msgID, st2) = next_msgID st1;
       sendProtoMSG env PING msgID (of_int pnid) 0 0 [] st2
     }"

text \<open>The route in the packet is copied to an array of \<open>MAX_TEST_ROUTE_LEN\<close> bytes.\<close>

definition handlePINGR :: "rts_env \<Rightarrow> int \<Rightarrow> 8 word list \<Rightarrow> rts \<Rightarrow> rts option" where
  "handlePINGR env pnid buf st =
     do {
       st1 \<leftarrow> handlePING pnid st;
       (if length buf > MAX_TEST_ROUTE_LEN then None
        else do {
          let (msgID, st2) = next_msgID (upd_rtest (\<lambda>r. r\<lparr>test_route := buf\<rparr>) st1);
          sendProtoMSG env PING msgID (of_int TEST_ROUTE_ID) 0 0 [] st2
        })
     }"

definition route_num :: "route_status_t \<Rightarrow> 32 word" where
  "route_num s =
     (case s of ROUTE_UNTESTED \<Rightarrow> 0 | ROUTE_NO_ANSWER \<Rightarrow> 1 | ROUTE_BAD_DNID \<Rightarrow> 2 | ROUTE_NOT_SET \<Rightarrow> 3
      | ROUTE_OK \<Rightarrow> 4 | ROUTE_CONFUSING_REPLY \<Rightarrow> 5)"

definition handleROUTE_REQ_REPLY :: "int \<Rightarrow> 32 word \<Rightarrow> rts \<Rightarrow> rts option" where
  "handleROUTE_REQ_REPLY nid status st =
     (if mcpshmem st
      then Some (upd_rtest (\<lambda>r. r\<lparr>route_request := if nid \<noteq> rte_nid0 r then route_num ROUTE_CONFUSING_REPLY else status\<rparr>) st)
      else None)"

text \<open>A packet with the node's own number and another one (\<open>sendRouteStat\<close>, \<open>sendRouteAck\<close>).\<close>

definition send_route ::
  "rts_env \<Rightarrow> pkt_type_t \<Rightarrow> 16 word \<Rightarrow> 16 word \<Rightarrow> (rts \<Rightarrow> rts) \<Rightarrow> rts \<Rightarrow> (int \<times> rts) option" where
  "send_route env type dst_nid info2 mark st =
     do {
       let (msgID, st1) = next_msgID st;
       (page_idx, st2) \<leftarrow> build_page env type msgID None 0 ILLMSGNUM st1;
       (if page_idx < 0 then Some (-1, st2)
        else do {
          let st3 = fill_page env page_idx (\<lambda>pg. pg\<lparr>pg_hdr := (pg_hdr pg)
                      \<lparr>ph_info := of_int (my_pnid (pkt st2)), ph_info2 := ucast info2\<rparr>\<rparr>) st2;
          (_, st4) \<leftarrow> xmit env dst_nid page_idx sizeof_pkthdr (mark st3);
          Some (0, st4)
        })
     }"

definition sendRouteStat :: "rts_env \<Rightarrow> 16 word \<Rightarrow> int \<Rightarrow> rts \<Rightarrow> (int \<times> rts) option" where
  "sendRouteStat env dst_nid src_pnid st =
     (let st1 = (if src_pnid \<noteq> -1 then upd_rtest (\<lambda>r. r\<lparr>route_requestor := src_pnid\<rparr>) st else st)
      in if unat dst_nid \<ge> MAX_NUM_ROUTES then Some (-1, st1)
         else send_route env ROUTE_STAT dst_nid dst_nid
           (upd_rtest (\<lambda>r. r\<lparr>route_status := (route_status r)(unat dst_nid := ROUTE_NO_ANSWER), route_stat := -1\<rparr>)) st1)"

definition sendRouteAck :: "rts_env \<Rightarrow> 16 word \<Rightarrow> 16 word \<Rightarrow> rts \<Rightarrow> rts option" where
  "sendRouteAck env dst_nid expected_pnid st =
     map_option snd (send_route env ROUTE_ACK dst_nid expected_pnid id st)"

definition set_route :: "16 word \<Rightarrow> route_status_t \<Rightarrow> rts \<Rightarrow> rts" where
  "set_route nid s st =
     (if unat nid < MAX_NUM_ROUTES then upd_rtest (\<lambda>r. r\<lparr>route_status := (route_status r)(unat nid := s)\<rparr>) st else st)"

text \<open>The reply reads the status of \<open>expected_pnid\<close> with no test of its range.\<close>

definition handleRouteAck :: "rts_env \<Rightarrow> 16 word \<Rightarrow> 16 word \<Rightarrow> rts \<Rightarrow> rts option" where
  "handleRouteAck env src expected_pnid st =
     do {
       let st1 =
         (if src = expected_pnid then set_route expected_pnid ROUTE_OK st
          else if uint src = my_pnid (pkt st) then set_route expected_pnid ROUTE_NOT_SET st
          else if unat expected_pnid < MAX_NUM_ROUTES then set_route expected_pnid ROUTE_BAD_DNID st
          else set_route src ROUTE_BAD_DNID st);
       (if \<not> mcpshmem st then None
        else do {
          let st2 = upd_rtest (\<lambda>r. r\<lparr>route_stat := uint src\<rparr>) st1;
          (if route_requestor (rtest st2) = -1 then Some st2
           else do {
             let (msgID, st3) = next_msgID st2;
             n \<leftarrow> route (uint expected_pnid);
             st4 \<leftarrow> sendProtoMSG env ROUTE_REQ_REPLY msgID (of_int (route_requestor (rtest st3)))
                      (route_num (route_status (rtest st3) n)) 0 [] st3;
             Some (upd_rtest (\<lambda>r. r\<lparr>route_requestor := -1\<rparr>) st4)
           })
        })
     }"

section \<open>Dispatch\<close>

text \<open>
  \<open>other\<close> stands for the handlers of the packets of other services: IP, the statistics
  (\<open>INFO_REQ\<close>, \<open>INFO_DATA\<close>) and the address cache (\<open>CACHE_REQ\<close>, \<open>CACHE_DATA\<close>).
  The length field of a packet is the length of what arrived.
\<close>

definition remote_ok :: "remote_status_t \<Rightarrow> remote_status_t" where
  "remote_ok r = (set_status RMT_OK r)\<lparr>rs_first_ack := True\<rparr>"

definition remote_talking :: "remote_status_t \<Rightarrow> remote_status_t" where
  "remote_talking r = r\<lparr>rs_status := rs_status r OR RMT_TALKING\<rparr>"

definition handle_sync :: "nat \<Rightarrow> 32 word \<Rightarrow> rts \<Rightarrow> rts" where
  "handle_sync n msgNum st =
     (if lastMsgNum st n = BOOTMSGNUM \<or> msgNum = BOOTMSGNUM then st else set_last n (msgNum - 1) st)"

definition unknown_pkt :: "pkt_type_t \<Rightarrow> bool" where
  "unknown_pkt type = (case type of PKT_OTHER _ \<Rightarrow> True | P3_RESEND \<Rightarrow> True | _ \<Rightarrow> False)"

definition rtscts_recv :: "rts_env \<Rightarrow> (packet \<Rightarrow> rts \<Rightarrow> rts option) \<Rightarrow> packet \<Rightarrow> rts \<Rightarrow> rts option" where
  "rtscts_recv env other p st =
     do {
       let h = pk_hdr p;
       let type = ph_type h;
       let msgID = ph_msgID h;
       let src = uint (ph_src_nid h);
       (if unknown_pkt type then Some st
        else do {
          n \<leftarrow> route src;
          let ok = upd_remote n remote_ok st;
          let talking = upd_remote n remote_talking st;
          (case type of
             CTS \<Rightarrow> handleCTS env msgID (ph_info h) (ph_info2 h) ok
           | DATA \<Rightarrow> handleDATA env msgID h (pk_data p) ok
           | STOP_DATA \<Rightarrow> handleDATA env msgID h (pk_data p) ok
           | LAST_DATA \<Rightarrow> handleDATA env msgID h (pk_data p) ok
           | MSGEND \<Rightarrow> handleMSGEND env msgID ok
           | MSGDROP \<Rightarrow> handleMSGDROP env msgID (ph_info2 h) ok
           | PING \<Rightarrow> handlePING (msgID2pnid msgID) talking
           | PINGA \<Rightarrow> handlePINGA env (msgID2pnid msgID) talking
           | PINGR \<Rightarrow> handlePINGR env (msgID2pnid msgID) (pk_data p) talking
           | ROUTE_REQ \<Rightarrow> map_option snd (sendRouteStat env (ucast (ph_info h)) (msgID2pnid msgID) talking)
           | ROUTE_REQ_REPLY \<Rightarrow> handleROUTE_REQ_REPLY (msgID2pnid msgID) (ph_info h) talking
           | ROUTE_STAT \<Rightarrow> sendRouteAck env (ucast (ph_info h)) (ucast (ph_info2 h)) talking
           | ROUTE_ACK \<Rightarrow> handleRouteAck env (ucast (ph_info h)) (ucast (ph_info2 h)) talking
           | P3_RTS \<Rightarrow> do { hdr \<leftarrow> pk_phdr p; handleP3 env msgID (ph_msgNum h) hdr (pk_data p) P3_RTS talking }
           | P3_LAST_RTS \<Rightarrow> do { hdr \<leftarrow> pk_phdr p; handleP3 env msgID (ph_msgNum h) hdr (pk_data p) P3_LAST_RTS talking }
           | P3_PING_REQ \<Rightarrow> do { hdr \<leftarrow> pk_phdr p; handleP3 env msgID (ph_msgNum h) hdr (pk_data p) type
               (upd_remote n (\<lambda>r. (remote_talking r)\<lparr>rs_first_ack := True\<rparr>) st) }
           | P3_PING_ACK \<Rightarrow> do { hdr \<leftarrow> pk_phdr p; handleP3 env msgID (ph_msgNum h) hdr (pk_data p) type
               (upd_remote n (\<lambda>r. (remote_talking r)\<lparr>rs_first_ack := True\<rparr>) st) }
           | P3_NULL \<Rightarrow> do { hdr \<leftarrow> pk_phdr p; handleP3 env msgID (ph_msgNum h) hdr (pk_data p) type talking }
           | P3_SYNC \<Rightarrow> Some (handle_sync n (ph_msgNum h) talking)
           | GCH \<Rightarrow> handleGCH msgID talking
           | _ \<Rightarrow> other p talking)
        })
     }"

section \<open>The timer\<close>

definition HZ :: "64 word" where [ptl_const]: "HZ = 1024"
definition PKT_TIMEOUT :: "64 word" where [ptl_const]: "PKT_TIMEOUT = 5 * HZ div 4"
definition GCH_TIMEOUT :: "64 word" where [ptl_const]: "GCH_TIMEOUT = 2 * 60 * HZ"
definition P3_MSG_RETRIES :: int where [ptl_const]: "P3_MSG_RETRIES = 4"

text \<open>One destination (lines 246-287).\<close>

definition resend_event :: "entry_event_t \<Rightarrow> bool" where
  "resend_event ev \<longleftrightarrow>
     ev = E_SENT_P3_RTS \<or> ev = E_SENT_P3_LAST_RTS \<or> ev = E_SENT_P3_PING_REQ \<or> ev = E_SENT_P3_PING_ACK \<or>
     ev = E_SENT_P3_NULL"

definition remote_lost :: "16 word \<Rightarrow> rts \<Rightarrow> rts option" where
  "remote_lost nid st = map_option (\<lambda>n. upd_remote n (set_status RMT_LOST) st) (route (uint nid))"

definition timeout_dest :: "rts_env \<Rightarrow> nat \<Rightarrow> rts \<Rightarrow> rts option" where
  "timeout_dest env i st =
     do {
       entry \<leftarrow> find_oldest_msgNum Qsnd_pending (int i) PKT_TIMEOUT st;
       (case entry of
          None \<Rightarrow> Some st
        | Some a \<Rightarrow>
            do {
              e \<leftarrow> qheap st a;
              (if resend_event (q_event e)
               then do {
                 st1 \<leftarrow> remote_lost (q_dst_nid e) st;
                 (if q_p3msg_retries e \<noteq> 0 \<and> q_p3msg_retries e mod P3_MSG_RETRIES = 0
                  then handleP3sync env (q_msgID e) (q_msgNum e) st1
                  else handleP3resend env (q_msgID e) (q_msgNum e) st1)
               }
               else Some st)
            })
     }"

fun timeout_pending :: "rts_env \<Rightarrow> nat list \<Rightarrow> rts \<Rightarrow> rts option" where
  "timeout_pending env [] st = Some st"
| "timeout_pending env (i # is) st = do { st1 \<leftarrow> timeout_dest env i st; timeout_pending env is st1 }"

text \<open>One entry of \<open>Qsending\<close> (lines 341-380), and the loop over them.\<close>

definition timeout_entry :: "rts_env \<Rightarrow> nat \<Rightarrow> rts \<Rightarrow> rts option" where
  "timeout_entry env a st =
     do {
       e \<leftarrow> qheap st a;
       (if q_event e = E_RCVD_CTS \<or> q_event e = E_SENT_DATA \<or> q_event e = E_SENT_STOP_DATA \<or> q_event e = E_SENT_LAST_DATA
        then do { st1 \<leftarrow> remote_lost (q_dst_nid e) st; handleDataResend env (q_msgID e) st1 }
        else Some st)
     }"

partial_function (option) timeout_sending :: "rts_env \<Rightarrow> nat \<Rightarrow> rts \<Rightarrow> rts option" where
  "timeout_sending env pos st =
     Option.bind (check_idle Qsending pos PKT_TIMEOUT st) (\<lambda>(entry, pos1).
       (case entry of
          None \<Rightarrow> Some st
        | Some a \<Rightarrow> Option.bind (timeout_entry env a st) (timeout_sending env (pos1 + 1))))"

definition timeout_send_queues :: "rts_env \<Rightarrow> rts \<Rightarrow> rts option" where
  "timeout_send_queues env st =
     do { st1 \<leftarrow> timeout_pending env [0..<MAX_NUM_ROUTES] st; timeout_sending env 0 st1 }"

text \<open>Old entries of \<open>Qreceiving\<close>.\<close>

definition clean_one :: "nat \<Rightarrow> rts \<Rightarrow> rts option" where
  "clean_one a st =
     do {
       e \<leftarrow> qheap st a;
       (if q_event e = E_SENT_MSGEND \<or> q_event e = E_SENT_MSGDROP
        then do { (entry, st1) \<leftarrow> dequeue Qreceiving (q_msgID e) st; free_entry entry st1 }
        else Some st)
     }"

partial_function (option) clean_recv_loop :: "nat \<Rightarrow> rts \<Rightarrow> rts option" where
  "clean_recv_loop pos st =
     Option.bind (check_idle Qreceiving pos GCH_TIMEOUT st) (\<lambda>(entry, pos1).
       (case entry of
          None \<Rightarrow> Some st
        | Some a \<Rightarrow> Option.bind (clean_one a st) (clean_recv_loop (pos1 + 1))))"

definition clean_recv_queues :: "rts \<Rightarrow> rts option" where
  "clean_recv_queues st = clean_recv_loop 0 st"

end
