(* ===== verification/R_Moves.thy ===== *)
theory R_Moves
  imports R_Burst R_Time
begin

text \<open>
  The effect of a handler on one message: its entry changes, some packets are submitted, and
  everything else that matters to other messages stays.
\<close>

lemma unlinked_more [simp]:
  "q_lib_finalize_called (unlinked e) = q_lib_finalize_called e" "q_len (unlinked e) = q_len e"
  "q_datasent (unlinked e) = q_datasent e" "q_seq (unlinked e) = q_seq e" "q_buf (unlinked e) = q_buf e"
  "q_retries (unlinked e) = q_retries e" "q_src_nid (unlinked e) = q_src_nid e" "q_nal (unlinked e) = q_nal e"
  "q_cookie (unlinked e) = q_cookie e" "q_phdr (unlinked e) = q_phdr e" "q_p3msg_retries (unlinked e) = q_p3msg_retries e"
  by (simp_all add: unlinked_def)

definition moves :: "rts_env \<Rightarrow> (Q_t \<Rightarrow> nat list) \<Rightarrow> nat \<Rightarrow> Qentry_t \<Rightarrow> packet list \<Rightarrow> rts \<Rightarrow> rts \<Rightarrow> bool" where
  "moves env qs a e ps st st' \<longleftrightarrow>
     ring_ok env (pkt st') \<and> queues_ok st' qs \<and> ent st' = (ent st)(a \<mapsto> e) \<and> sent (pkt st') = sent (pkt st) @ ps \<and>
     my_pnid (pkt st') = my_pnid (pkt st) \<and> umem st' = umem st \<and> jiffies st' = jiffies st"

text \<open>A state with an entry that the queues account for.\<close>

definition has :: "rts_env \<Rightarrow> (Q_t \<Rightarrow> nat list) \<Rightarrow> nat \<Rightarrow> Qentry_t \<Rightarrow> rts \<Rightarrow> bool" where
  "has env qs a e st \<longleftrightarrow> ring_ok env (pkt st) \<and> queues_ok st qs \<and> ent st a = Some e"

lemma moves_has: "moves env qs a e ps st st' \<Longrightarrow> has env qs a e st'"
  by (simp add: moves_def has_def)

lemma moves_refl: "has env qs a e st \<Longrightarrow> moves env qs a e [] st st"
  by (auto simp: moves_def has_def)

lemma moves_trans:
  "moves env qs a e1 ps st st1 \<Longrightarrow> moves env qs' a e2 ps' st1 st2 \<Longrightarrow> moves env qs' a e2 (ps @ ps') st st2"
  by (simp add: moves_def)

lemma moves_trans0: "moves env qs a e1 [] st st1 \<Longrightarrow> moves env qs' a e2 ps' st1 st2 \<Longrightarrow> moves env qs' a e2 ps' st st2"
  using moves_trans [of env qs a e1 "[]"] by simp

lemma has_heap: "has env qs a e st \<Longrightarrow> \<exists>e0. qheap st a = Some e0 \<and> e = unlinked e0"
  by (auto simp: has_def ent_def)

text \<open>An assignment that leaves the link alone.\<close>

definition plain_upd :: "(Qentry_t \<Rightarrow> Qentry_t) \<Rightarrow> bool" where
  "plain_upd f \<longleftrightarrow> (\<forall>e. q_next (f e) = q_next e \<and> unlinked (f e) = f (unlinked e))"

lemma plain_updI: "(\<And>e. q_next (f e) = q_next e) \<Longrightarrow> (\<And>e. unlinked (f e) = f (unlinked e)) \<Longrightarrow> plain_upd f"
  by (simp add: plain_upd_def)

lemma ent_heap: "ent st = map_option unlinked \<circ> qheap st"
  by (simp add: fun_eq_iff ent_def)

lemma upd_moves:
  assumes h: "has env qs a e st" and f: "plain_upd f"
  obtains st' where "upd_entry a f st = Some st'" "moves env qs a (f e) [] st st'" "outstanding_pkts st' = outstanding_pkts st"
    "k_calls st' = k_calls st" "pkt st' = pkt st"
proof -
  obtain e0 where e: "qheap st a = Some e0" "e = unlinked e0" using has_heap [OF h] by blast
  let ?st = "st\<lparr>qheap := (qheap st)(a \<mapsto> f e0)\<rparr>"
  have "queues_ok ?st qs" using h f e(1) by (intro upd_entry_ok) (simp_all add: has_def plain_upd_def)
  moreover have "ent ?st = (ent st)(a \<mapsto> f e)" using f e(2) by (auto simp: ent_def fun_eq_iff plain_upd_def)
  ultimately have "moves env qs a (f e) [] st ?st" using h by (simp add: moves_def has_def)
  then show thesis using that [of ?st] e(1) by (simp add: upd_entry_def)
qed

text \<open>Changes outside of the queues.\<close>

lemma ent_cong: "qheap st' = qheap st \<Longrightarrow> ent st' = ent st"
  by (simp add: ent_def fun_eq_iff)

lemma queues_ok_cong:
  assumes "queues_ok st qs" "Qhead st' = Qhead st" "Qtail st' = Qtail st" "qheap st' = qheap st"
  shows "queues_ok st' qs"
  using assms by (simp add: queues_ok_def on_queue_def)

lemma same_moves:
  assumes "has env qs a e st" "Qhead st' = Qhead st" "Qtail st' = Qtail st" "qheap st' = qheap st" "umem st' = umem st"
    "jiffies st' = jiffies st" "ring_ok env (pkt st')" "sent (pkt st') = sent (pkt st) @ ps" "my_pnid (pkt st') = my_pnid (pkt st)"
  shows "moves env qs a e ps st st'"
proof -
  have "queues_ok st' qs" using assms(1-4) unfolding has_def by (blast intro: queues_ok_cong)
  moreover have "ent st' = (ent st)(a \<mapsto> e)"
    using ent_cong [OF assms(4)] assms(1) by (simp add: has_def fun_upd_idem)
  ultimately show ?thesis using assms(5-9) by (simp only: moves_def)
qed

lemma proto_moves:
  assumes h: "has env qs a e st"
  obtains st' ps where "sendProtoMSG env type msgID dst info info2 buf st = Some st'" "moves env qs a e ps st st'"
    "\<forall>p \<in> set ps. ph_type (pk_hdr p) = type \<and> ph_msgID (pk_hdr p) = msgID" "outstanding_pkts st' = outstanding_pkts st" "k_calls st' = k_calls st"
    "buf = [] \<and> idle env (pkt st) \<and> sendable dst (int sizeof_pkthdr) \<longrightarrow>
       (\<exists>p \<in> set ps. proto_pkt type msgID dst info info2 [] (my_pnid (pkt st)) p)"
proof -
  have "ring_ok env (pkt st)" using h by (simp add: has_def)
  then obtain s ps where s: "sendProtoMSG env type msgID dst info info2 buf st = Some (st\<lparr>pkt := s\<rparr>)" "ring_ok env s"
      "my_pnid s = my_pnid (pkt st)" "sent s = sent (pkt st) @ ps"
      "ps = [] \<or> (\<exists>p. ps = [p] \<and> proto_pkt type msgID dst info info2 buf (my_pnid (pkt st)) p)"
      "buf = [] \<Longrightarrow> idle env (pkt st) \<Longrightarrow> sendable dst (int sizeof_pkthdr) \<Longrightarrow> ps \<noteq> []"
    by (rule sendProtoMSG_ok) (rule that)
  have "moves env qs a e ps st (st\<lparr>pkt := s\<rparr>)" using s by (intro same_moves [OF h]) simp_all
  moreover have "\<exists>p \<in> set ps. proto_pkt type msgID dst info info2 [] (my_pnid (pkt st)) p"
    if "buf = [] \<and> idle env (pkt st) \<and> sendable dst (int sizeof_pkthdr)" using s(5,6) that by auto
  ultimately show thesis using s(1,5) by (intro that [of "st\<lparr>pkt := s\<rparr>" ps]) (auto simp: proto_pkt_def)
qed

lemma kcall_moves [simp]: "has env qs a e st \<Longrightarrow> moves env qs a e [] st (kcall c st)"
  by (rule same_moves) (simp_all add: kcall_def has_def)

lemma outstanding_moves: "has env qs a e st \<Longrightarrow> moves env qs a e [] st (st\<lparr>outstanding_pkts := n\<rparr>)"
  by (rule same_moves) (simp_all add: has_def)

lemma remote_moves: "has env qs a e st \<Longrightarrow> moves env qs a e [] st (upd_remote n f st)"
  by (rule same_moves) (simp_all add: upd_remote_def has_def)

section \<open>The receiver's answers\<close>

text \<open>What a handler leaves of an entry.\<close>

definition same_data :: "Qentry_t \<Rightarrow> Qentry_t \<Rightarrow> bool" where
  "same_data e e' \<longleftrightarrow>
     q_msgID e' = q_msgID e \<and> q_buf e' = q_buf e \<and> q_len e' = q_len e \<and> q_task e' = q_task e \<and>
     q_datasent e' = q_datasent e \<and> q_seq e' = q_seq e \<and> q_retries e' = q_retries e \<and> q_dst_nid e' = q_dst_nid e \<and>
     q_src_nid e' = q_src_nid e"

text \<open>A clear-to-send packet of the receiver, for one to sixteen packets.\<close>

definition grants :: "32 word \<Rightarrow> 16 word \<Rightarrow> 32 word \<Rightarrow> int \<Rightarrow> packet \<Rightarrow> bool" where
  "grants msgID dst len pnid c \<longleftrightarrow>
     (\<exists>n. 1 \<le> n \<and> n \<le> MAX_DATA_PKTS \<and> proto_pkt CTS msgID dst len (of_int n) [] pnid c)"

lemma grant_range: "1 \<le> grant_pkts n \<and> grant_pkts n \<le> MAX_DATA_PKTS"
  by (simp add: grant_pkts_def MAX_DATA_PKTS_def Let_def)

lemma ask_more_moves:
  assumes h: "has env qs a e st"
  obtains st' ps e' where "ask_more env msgID a st = Some st'" "moves env qs a e' ps st st'" "same_data e e'"
    "q_lib_finalize_called e' = q_lib_finalize_called e" "\<forall>p \<in> set ps. ph_type (pk_hdr p) = CTS"
    "idle env (pkt st) \<and> sendable (q_src_nid e) (int sizeof_pkthdr) \<longrightarrow> (\<exists>c \<in> set ps. grants msgID (q_src_nid e) (q_len e) (my_pnid (pkt st)) c)"
proof -
  obtain e0 where e: "qheap st a = Some e0" "e = unlinked e0" using has_heap [OF h] by blast
  let ?n = "grant_pkts (outstanding_pkts st)"
  let ?f = "\<lambda>e. e\<lparr>q_event := E_SENT_CTS, q_granted_pkts := ?n\<rparr>"
  obtain st1 ps where s1: "sendProtoMSG env CTS msgID (q_src_nid e0) (q_len e0) (of_int ?n) [] st = Some st1"
      "moves env qs a e ps st st1" "\<forall>p \<in> set ps. ph_type (pk_hdr p) = CTS \<and> ph_msgID (pk_hdr p) = msgID"
      "([] :: 8 word list) = [] \<and> idle env (pkt st) \<and> sendable (q_src_nid e0) (int sizeof_pkthdr) \<longrightarrow>
         (\<exists>p \<in> set ps. proto_pkt CTS msgID (q_src_nid e0) (q_len e0) (of_int ?n) [] (my_pnid (pkt st)) p)"
    by (rule proto_moves [OF h]) (rule that)
  let ?st2 = "st1\<lparr>outstanding_pkts := outstanding_pkts st1 + ?n\<rparr>"
  have m2: "moves env qs a e [] st1 ?st2" using moves_has [OF s1(2)] by (rule outstanding_moves)
  have "plain_upd ?f" by (rule plain_updI) (simp_all add: unlinked_def)
  then obtain st3 where s3: "upd_entry a ?f ?st2 = Some st3" "moves env qs a (?f e) [] ?st2 st3"
    using upd_moves [OF moves_has [OF m2]] by metis
  have "moves env qs a (?f e) ps st st3" using moves_trans [OF s1(2) moves_trans [OF m2 s3(2)]] by simp
  moreover have "ask_more env msgID a st = Some st3" using e(1) s1(1) s3(1) by (simp add: ask_more_def Let_def)
  moreover have "\<exists>c \<in> set ps. grants msgID (q_src_nid e) (q_len e) (my_pnid (pkt st)) c"
    if "idle env (pkt st)" "sendable (q_src_nid e) (int sizeof_pkthdr)"
    using s1(4) that e(2) grant_range [of "outstanding_pkts st"] by (auto simp: grants_def)
  ultimately show thesis using s1(3) by (intro that [of st3 "?f e" ps]) (simp_all add: same_data_def)
qed

lemma send_sig_moves: "has env qs a e st \<Longrightarrow> moves env qs a e [] st (send_sig sig task st)"
  by (simp add: send_sig_def)

lemma sig_if_moves: "has env qs a e st \<Longrightarrow> moves env qs a e [] st (if c then send_sig sig task st else st)"
  by (simp add: send_sig_moves moves_refl)

lemma msgDone_moves:
  assumes h: "has env qs a e st"
  obtains st' ps e' where "msgDone env MSGEND a st = Some st'" "moves env qs a e' ps st st'" "same_data e e'"
    "q_lib_finalize_called e'"
proof -
  obtain e0 where e: "qheap st a = Some e0" "e = unlinked e0" using has_heap [OF h] by blast
  let ?f = "\<lambda>e. e\<lparr>q_event := E_SENT_MSGEND\<rparr>" and ?g = "\<lambda>e. e\<lparr>q_lib_finalize_called := True\<rparr>"
  have f: "plain_upd ?f" and g: "plain_upd ?g" by (rule plain_updI; simp add: unlinked_def)+
  obtain st1 ps where s1: "sendProtoMSG env MSGEND (q_msgID e0) (q_src_nid e0) 0 0 [] st = Some st1" "moves env qs a e ps st st1"
    using proto_moves [OF h] by metis
  obtain st2 where s2: "upd_entry a ?f st1 = Some st2" "moves env qs a (?f e) [] st1 st2"
    using upd_moves [OF moves_has [OF s1(2)] f] by metis
  have m2: "moves env qs a (?f e) ps st st2" using moves_trans [OF s1(2) s2(2)] by simp
  show thesis
  proof (cases "q_lib_finalize_called e0")
    case True
    then have "msgDone env MSGEND a st = Some st2" using e(1) s1(1) s2(1) by (simp add: msgDone_def)
    then show thesis using that [OF _ m2] True e(2) by (simp add: same_data_def)
  next
    case False
    obtain rc st3 where s3: "finalize env (q_nal e0) 7 (q_cookie e0) st2 = (rc, st3)" by fastforce
    have m3: "moves env qs a (?f e) [] st2 st3" using s3 moves_has [OF s2(2)] by (auto simp: finalize_def)
    obtain st4 where s4: "upd_entry a ?g st3 = Some st4" "moves env qs a (?g (?f e)) [] st3 st4"
      using upd_moves [OF moves_has [OF m3] g] by metis
    let ?st = "if rc \<noteq> 0 then send_sig SIGPIPE (q_task e0) st4 else st4"
    have m5: "moves env qs a (?g (?f e)) [] st4 ?st" using moves_has [OF s4(2)] by (rule sig_if_moves)
    have "moves env qs a (?g (?f e)) ps st ?st"
      using moves_trans [OF m2 moves_trans [OF m3 moves_trans [OF s4(2) m5]]] by simp
    moreover have "msgDone env MSGEND a st = Some ?st" using e(1) s1(1) s2(1) s3 s4(1) False by (simp add: msgDone_def)
    ultimately show thesis using that [of ?st "?g (?f e)" ps] by (simp add: same_data_def)
  qed
qed

lemma check_done_moves:
  assumes h: "has env qs a e st"
  obtains st' ps e' where "check_done env msgID type a st = Some st'" "moves env qs a e' ps st st'" "same_data e e'"
    "q_lib_finalize_called e' \<longleftrightarrow> q_lib_finalize_called e \<or> type = LAST_DATA"
    "(\<exists>p \<in> set ps. ph_type (pk_hdr p) = MSGEND) \<Longrightarrow> type = LAST_DATA"
proof -
  obtain e0 where e: "qheap st a = Some e0" "e = unlinked e0" using has_heap [OF h] by blast
  consider (last) "type = LAST_DATA" | (over) "type \<noteq> LAST_DATA" "q_datasent e0 \<ge> q_len e0"
    | (more) "type \<noteq> LAST_DATA" "\<not> q_datasent e0 \<ge> q_len e0" by blast
  then show thesis
  proof cases
    case last
    obtain st' ps e' where m: "msgDone env MSGEND a st = Some st'" "moves env qs a e' ps st st'" "same_data e e'" "q_lib_finalize_called e'"
      using msgDone_moves [OF h] by metis
    then show thesis using that [OF _ m(2,3)] e(1) last by (simp add: check_done_def)
  next
    case over
    let ?f = "\<lambda>e. e\<lparr>q_event := E_SENT_MSGEND\<rparr>" and ?st1 = "send_sig SIGUSR2 (q_task e0) st"
    have f: "plain_upd ?f" by (rule plain_updI) (simp_all add: unlinked_def)
    have m1: "moves env qs a e [] st ?st1" using h by (rule send_sig_moves)
    obtain st2 ps where s2: "sendProtoMSG env MSGDROP msgID (q_src_nid e0) 1 0 [] ?st1 = Some st2" "moves env qs a e ps ?st1 st2"
        "\<forall>p \<in> set ps. ph_type (pk_hdr p) = MSGDROP \<and> ph_msgID (pk_hdr p) = msgID"
      using proto_moves [OF moves_has [OF m1]] by metis
    obtain st3 where s3: "upd_entry a ?f st2 = Some st3" "moves env qs a (?f e) [] st2 st3"
      using upd_moves [OF moves_has [OF s2(2)] f] by metis
    have "check_done env msgID type a st = Some st3"
      using e(1) over s2(1) s3(1) by (simp add: check_done_def msgDone_def)
    moreover have "moves env qs a (?f e) ps st st3" using moves_trans [OF m1 moves_trans [OF s2(2) s3(2)]] by simp
    ultimately show thesis using that [of st3 "?f e" ps] s2(3) over(1) by (simp add: same_data_def)
  next
    case more
    then have "check_done env msgID type a st = Some st" using e(1) by (simp add: check_done_def)
    then show thesis using that [OF _ moves_refl [OF h]] more(1) by (simp add: same_data_def)
  qed
qed

section \<open>Data packets\<close>

lemma upd_moves_at:
  assumes h: "has env qs a (unlinked e0) st" and e: "qheap st a = Some e0" and n: "q_next e1 = q_next e0"
  obtains st' where "upd_entry a (\<lambda>_. e1) st = Some st'" "moves env qs a (unlinked e1) [] st st'" "qheap st' a = Some e1"
    "outstanding_pkts st' = outstanding_pkts st" "pkt st' = pkt st"
proof -
  let ?st = "st\<lparr>qheap := (qheap st)(a \<mapsto> e1)\<rparr>"
  have "queues_ok st qs" using h by (simp add: has_def)
  from upd_entry_ok [OF this e, of "\<lambda>_. e1"] n have "queues_ok ?st qs" by simp
  moreover have "ent ?st = (ent st)(a \<mapsto> unlinked e1)" by (auto simp: ent_def fun_eq_iff)
  ultimately have "moves env qs a (unlinked e1) [] st ?st" using h by (simp add: moves_def has_def)
  then show thesis using that [of ?st] e by (simp add: upd_entry_def)
qed

text \<open>The check of the sequence number as a function of the fields it uses.\<close>

lemma check_seq_unlinked:
  "check_seq h r e = (v, n, e1) \<Longrightarrow> check_seq h r (unlinked e) = (v, n, unlinked e1) \<and> q_next e1 = q_next e"
  by (auto simp: check_seq_def unlinked_def split: if_splits)

text \<open>The bytes that are copied to the process.\<close>

definition copied :: "rts_env \<Rightarrow> Qentry_t \<Rightarrow> 8 word list \<Rightarrow> memory \<Rightarrow> memory \<Rightarrow> bool" where
  "copied env e bs mem mem' \<longleftrightarrow>
     (if bs = [] \<or> q_lib_finalize_called e then mem' = mem
      else \<exists>frame. mm_of env (q_task e) = Some frame \<and> stored frame (q_buf e + ucast (q_datasent e)) bs mem mem')"

definition room :: "rts_env \<Rightarrow> Qentry_t \<Rightarrow> bool" where
  "room env e \<longleftrightarrow> (\<exists>frame. mm_of env (q_task e) = Some frame \<and> writable frame (q_buf e) (unat (q_len e)))"

lemma copy_step:
  fixes buf :: "8 word list"
  assumes "room env e" "q_datasent e \<le> q_len e"
  defines "bs \<equiv> take (unat (q_len e - q_datasent e)) buf"
  obtains mem' where "copy_data env e bs mem = (0, mem')" "copied env e bs mem mem'"
proof (cases "bs \<noteq> [] \<and> \<not> q_lib_finalize_called e")
  case True
  obtain frame where f: "mm_of env (q_task e) = Some frame" "writable frame (q_buf e) (unat (q_len e))"
    using assms(1) by (auto simp: room_def)
  have "unat (q_datasent e) + length bs \<le> unat (q_len e)"
    using assms(2) by (simp add: bs_def unat_sub word_le_nat_alt)
  then have "writable frame (q_buf e + of_nat (unat (q_datasent e))) (length bs)" by (rule writable_shift [OF f(2)])
  then have "writable frame (q_buf e + ucast (q_datasent e)) (length bs)" by simp
  from memcpy2_to_user_ok [OF f(1) this, of mem] obtain mem' where
      "memcpy2_to_user env (q_task e) (q_buf e + ucast (q_datasent e)) bs mem = (0, mem')"
      "stored frame (q_buf e + ucast (q_datasent e)) bs mem mem'" .
  then show thesis using that [of mem'] True f(1) by (auto simp: copied_def copy_data_def)
next
  case False
  then show thesis using that [of mem] by (auto simp: copied_def copy_data_def)
qed

lemma handleDATA_moves:
  assumes h: "has env qs a e st" and fnd: "find (\<lambda>a. msgid st a = msgID) (qs Qreceiving) = Some a"
    and chk: "check_seq pkthdr (s32 (uint (ph_info2 pkthdr))) e = (verdict, back, e1)"
    and room: "verdict = SEQ_TAKE \<Longrightarrow> room env e1 \<and> q_datasent e1 \<le> q_len e1"
  obtains (dropped) st' where "verdict = SEQ_DROP" "handleDATA env msgID pkthdr buf st = Some st'" "moves env qs a e1 [] st st'"
  | (taken) st' ps e' mem where "verdict = SEQ_TAKE" "handleDATA env msgID pkthdr buf st = Some st'"
      "moves env qs a e' ps (st\<lparr>umem := mem\<rparr>) st'" "copied env e1 (take (unat (q_len e1 - q_datasent e1)) buf) (umem st) mem"
      "same_data (e1\<lparr>q_datasent := q_datasent e1 + of_nat (length (take (unat (q_len e1 - q_datasent e1)) buf)), q_seq := q_seq e1 + 1\<rparr>) e'"
      "q_lib_finalize_called e' \<longleftrightarrow> q_lib_finalize_called e1 \<or> ph_type pkthdr = LAST_DATA"
      "(\<exists>p \<in> set ps. ph_type (pk_hdr p) = MSGEND) \<Longrightarrow> ph_type pkthdr = LAST_DATA"
      "ph_type pkthdr = STOP_DATA \<and> idle env (pkt st) \<and> sendable (q_src_nid e1) (int sizeof_pkthdr) \<longrightarrow>
         (\<exists>c \<in> set ps. grants msgID (q_src_nid e1) (q_len e1) (my_pnid (pkt st)) c)"
proof -
  obtain e0 where e: "qheap st a = Some e0" "e = unlinked e0" using has_heap [OF h] by blast
  obtain v n e2 where c: "check_seq pkthdr (s32 (uint (ph_info2 pkthdr))) e0 = (v, n, e2)" by (metis prod_cases3)
  have e2: "v = verdict" "n = back" "unlinked e2 = e1" "q_next e2 = q_next e0"
    using check_seq_unlinked [OF c] chk e(2) by simp_all
  have fq: "find_queue Qreceiving msgID st = Some (Some a)"
    using find_queue_ok [of st qs] h fnd by (simp add: has_def)
  let ?st0 = "st\<lparr>outstanding_pkts := outstanding_pkts st - n\<rparr>"
  have m0: "moves env qs a e [] st ?st0" using h by (rule outstanding_moves)
  obtain st1 where s1: "upd_entry a (\<lambda>_. e2) ?st0 = Some st1" "moves env qs a e1 [] ?st0 st1" "qheap st1 a = Some e2" "pkt st1 = pkt ?st0"
    using upd_moves_at [of env qs a e0 ?st0 e2] moves_has [OF m0] e e2(3,4) by auto
  have m1: "moves env qs a e1 [] st st1" using moves_trans [OF m0 s1(2)] by simp
  have f2: "q_len e2 = q_len e1" "q_datasent e2 = q_datasent e1" "q_task e2 = q_task e1" "q_buf e2 = q_buf e1"
    "q_lib_finalize_called e2 = q_lib_finalize_called e1" using e2(3) by auto
  show thesis
  proof (cases verdict)
    case SEQ_DROP
    then show thesis using dropped [OF _ _ m1] fq e(1) c e2(1) s1(1) by (simp add: handleDATA_def)
  next
    case SEQ_TAKE
    let ?bs = "take (unat (q_len e2 - q_datasent e2)) buf"
    have r2: "room env e2" "q_datasent e2 \<le> q_len e2" using room [OF SEQ_TAKE] f2 by (simp_all add: room_def)
    obtain mem where cp: "copy_data env e2 ?bs (umem st1) = (0, mem)" "copied env e2 ?bs (umem st1) mem"
      by (rule copy_step [OF r2]) (rule that)
    have um: "umem st1 = umem st" using m1 by (simp add: moves_def)
    let ?st2 = "st1\<lparr>umem := mem\<rparr>"
    let ?f = "\<lambda>e. e\<lparr>q_datasent := q_datasent e + of_nat (length ?bs), q_seq := q_seq e + 1,
        q_event := rcvd_event (ph_type pkthdr), q_idle := jiffies ?st2\<rparr>"
    have m2: "moves env qs a e1 [] (st\<lparr>umem := mem\<rparr>) ?st2"
      using m1 queues_ok_cong [of st1 qs ?st2] ent_cong [of ?st2 st1] ent_cong [of "st\<lparr>umem := mem\<rparr>" st] by (simp add: moves_def)
    have f3: "plain_upd ?f" by (rule plain_updI) (simp_all add: unlinked_def)
    obtain st3 where s3: "upd_entry a ?f ?st2 = Some st3" "moves env qs a (?f e1) [] ?st2 st3" "pkt st3 = pkt ?st2"
      by (rule upd_moves [OF moves_has [OF m2] f3]) (rule that)
    obtain st4 ps4 e4 where s4: "(if ph_type pkthdr = STOP_DATA then ask_more env msgID a st3 else Some st3) = Some st4"
        "moves env qs a e4 ps4 st3 st4" "same_data (?f e1) e4" "q_lib_finalize_called e4 = q_lib_finalize_called e1"
        "\<forall>p \<in> set ps4. ph_type (pk_hdr p) = CTS"
        "ph_type pkthdr = STOP_DATA \<and> idle env (pkt st) \<and> sendable (q_src_nid e1) (int sizeof_pkthdr) \<longrightarrow>
           (\<exists>c \<in> set ps4. grants msgID (q_src_nid e1) (q_len e1) (my_pnid (pkt st)) c)"
    proof (cases "ph_type pkthdr = STOP_DATA")
      case True
      obtain st' ps e' where "ask_more env msgID a st3 = Some st'" "moves env qs a e' ps st3 st'" "same_data (?f e1) e'"
          "q_lib_finalize_called e' = q_lib_finalize_called (?f e1)" "\<forall>p \<in> set ps. ph_type (pk_hdr p) = CTS"
          "idle env (pkt st3) \<and> sendable (q_src_nid (?f e1)) (int sizeof_pkthdr) \<longrightarrow>
             (\<exists>c \<in> set ps. grants msgID (q_src_nid (?f e1)) (q_len (?f e1)) (my_pnid (pkt st3)) c)"
        by (rule ask_more_moves [OF moves_has [OF s3(2)]]) (rule that)
      then show thesis using that [of st' e' ps] True s1(4) s3(3) by simp
    next
      case False
      then show thesis using that [OF _ moves_refl [OF moves_has [OF s3(2)]]] by (simp add: same_data_def)
    qed
    obtain st5 ps5 e5 where s5: "check_done env msgID (ph_type pkthdr) a st4 = Some st5" "moves env qs a e5 ps5 st4 st5"
        "same_data e4 e5" "q_lib_finalize_called e5 \<longleftrightarrow> q_lib_finalize_called e4 \<or> ph_type pkthdr = LAST_DATA"
        "(\<exists>p \<in> set ps5. ph_type (pk_hdr p) = MSGEND) \<Longrightarrow> ph_type pkthdr = LAST_DATA"
      using check_done_moves [OF moves_has [OF s4(2)]] by metis
    have "moves env qs a e5 (ps4 @ ps5) (st\<lparr>umem := mem\<rparr>) st5"
      using moves_trans [OF m2 moves_trans [OF s3(2) moves_trans [OF s4(2) s5(2)]]] by simp
    moreover have "handleDATA env msgID pkthdr buf st = Some st5"
      using fq e(1) c e2(1) s1(1) SEQ_TAKE cp(1) s3(1) s4(1) s5(1)
      by (simp add: handleDATA_def Let_def del: length_take)
    moreover have "copied env e1 ?bs (umem st) mem" using cp(2) unfolding copied_def f2 um .
    moreover have "same_data (e1\<lparr>q_datasent := q_datasent e1 + of_nat (length ?bs), q_seq := q_seq e1 + 1\<rparr>) e5"
      using s4(3) s5(3) by (simp add: same_data_def)
    moreover have "q_lib_finalize_called e5 \<longleftrightarrow> q_lib_finalize_called e1 \<or> ph_type pkthdr = LAST_DATA" using s4(4) s5(4) by simp
    moreover have "ph_type pkthdr = LAST_DATA" if "\<exists>p \<in> set (ps4 @ ps5). ph_type (pk_hdr p) = MSGEND"
      using s4(5) that by (intro s5(5)) auto
    moreover have "ph_type pkthdr = STOP_DATA \<and> idle env (pkt st) \<and> sendable (q_src_nid e1) (int sizeof_pkthdr) \<longrightarrow>
        (\<exists>c \<in> set (ps4 @ ps5). grants msgID (q_src_nid e1) (q_len e1) (my_pnid (pkt st)) c)" using s4(6) by auto
    ultimately show thesis using taken [OF SEQ_TAKE, of st5 e5 "ps4 @ ps5" mem] unfolding f2 by blast
  qed
qed

end
