(* ===== verification/R_Sender.thy ===== *)
theory R_Sender
  imports R_Moves
begin

text \<open>
  The sender's handlers for one message: \<open>handleCTS\<close> and \<open>handleDataResend\<close> send
  the next packets of the message, or start over from its beginning.
\<close>

lemma frame_eq_more:
  assumes "frame_eq st (st' :: rts)"
  shows "pkt st' = pkt st" "umem st' = umem st" "jiffies st' = jiffies st" "k_calls st' = k_calls st"
    "lastMsgNum st' = lastMsgNum st" "send_msgNum st' = send_msgNum st" "remote_status st' = remote_status st"
    "cur_msgID st' = cur_msgID st" "mcpshmem st' = mcpshmem st" "p3_ping_nid st' = p3_ping_nid st"
    "outstanding_pkts st' = outstanding_pkts st"
  using assms by (cases st, cases st', simp add: frame_eq_def)+

lemma frame_moves:
  assumes "has env qs a e st" "frame_eq st st'" "queues_ok st' qs'" "ent st' = ent st"
  shows "moves env qs' a e [] st st'"
  using assms frame_eq_more [OF assms(2)] by (simp add: moves_def has_def fun_upd_idem)

section \<open>Where the message is\<close>

text \<open>The entry is on one of the send queues, and the only one there with its id.\<close>

definition sending :: "(Q_t \<Rightarrow> nat list) \<Rightarrow> 32 word \<Rightarrow> nat \<Rightarrow> rts \<Rightarrow> bool" where
  "sending qs msgID a st \<longleftrightarrow>
     (a \<in> set (qs Qsnd_pending) \<or> a \<in> set (qs Qsending)) \<and> msgid st a = msgID \<and>
     (\<forall>Q \<in> {Qsnd_pending, Qsending}. \<forall>x \<in> set (qs Q). msgid st x = msgID \<longrightarrow> x = a)"

lemma find_only:
  assumes "\<forall>x \<in> set xs. P x \<longrightarrow> x = a" "P a"
  shows "find P xs = (if a \<in> set xs then Some a else None)"
proof (cases rule: find_split [where P = P and xs = xs])
  case none
  then show ?thesis using assms(2) by auto
next
  case (found ys x zs)
  then have "x = a" using assms(1) by auto
  then show ?thesis using found by simp
qed

lemma sending_find:
  assumes "sending qs msgID a st" "Q \<in> {Qsnd_pending, Qsending}"
  shows "find (\<lambda>x. msgid st x = msgID) (qs Q) = (if a \<in> set (qs Q) then Some a else None)"
  using assms by (intro find_only) (auto simp: sending_def)

lemma moves_msgid: "moves env qs a e ps st st' \<Longrightarrow> q_msgID e = msgid st a \<Longrightarrow> msgid st' = msgid st"
  by (auto simp: moves_def msgid_def fun_eq_iff)

lemma sending_cong: "msgid st' = msgid st \<Longrightarrow> sending qs m a st' = sending qs m a st"
  by (simp add: sending_def)

lemma has_distinct: "has env qs a e st \<Longrightarrow> distinct (qs Q)"
  using on_queueD(1) [OF queues_okD(1)] unfolding has_def by blast

lemma dequeue_send_moves:
  assumes h: "has env qs a e st" and s: "sending qs msgID a st"
  obtains st' qs' where "dequeue_send msgID st = Some (Some a, st')" "moves env qs' a e [] st st'"
    "\<And>Q. set (qs' Q) = set (qs Q) - {a}" "pkt st' = pkt st"
proof -
  have ok: "queues_ok st qs" using h by (simp add: has_def)
  have one: "\<And>Q R. a \<in> set (qs Q) \<Longrightarrow> R \<noteq> Q \<Longrightarrow> a \<notin> set (qs R)" using queues_okD(2) [OF ok] by blast
  show thesis
  proof (cases "a \<in> set (qs Qsnd_pending)")
    case True
    from ok show thesis
    proof (cases rule: dequeue_ok [where Q = Qsnd_pending and m = msgID])
      case none
      then show thesis using sending_find [OF s, of Qsnd_pending] True by simp
    next
      case d: (found b st')
      have b: "b = a" using d(2) sending_find [OF s, of Qsnd_pending] True by simp
      have m: "moves env (qs(Qsnd_pending := remove1 a (qs Qsnd_pending))) a e [] st st'"
        using frame_moves [OF h d(5) _ d(6)] d(4) b by blast
      have "set ((qs(Qsnd_pending := remove1 a (qs Qsnd_pending))) Q) = set (qs Q) - {a}" for Q
        using one [OF True, of Q] has_distinct [OF h, of Qsnd_pending] by auto
      then show thesis using that [OF _ m] d(1) b frame_eq_more(1) [OF d(5)] by (simp add: dequeue_send_def)
    qed
  next
    case False
    then have Q: "a \<in> set (qs Qsending)" using s by (auto simp: sending_def)
    have p: "dequeue Qsnd_pending msgID st = Some (None, st)"
      using dequeue_ok [OF ok, of Qsnd_pending msgID] sending_find [OF s, of Qsnd_pending] False by fastforce
    from ok show thesis
    proof (cases rule: dequeue_ok [where Q = Qsending and m = msgID])
      case none
      then show thesis using sending_find [OF s, of Qsending] Q by simp
    next
      case d: (found b st')
      have b: "b = a" using d(2) sending_find [OF s, of Qsending] Q by simp
      have m: "moves env (qs(Qsending := remove1 a (qs Qsending))) a e [] st st'"
        using frame_moves [OF h d(5) _ d(6)] d(4) b by blast
      have "set ((qs(Qsending := remove1 a (qs Qsending))) R) = set (qs R) - {a}" for R
        using one [OF Q, of R] has_distinct [OF h, of Qsending] by auto
      then show thesis using that [OF _ m] p d(1) b frame_eq_more(1) [OF d(5)] by (simp add: dequeue_send_def)
    qed
  qed
qed

section \<open>Sending data\<close>

lemma entry_msg_unlinked [simp]: "entry_msg env (unlinked e) mem msg = entry_msg env e mem msg"
  by (simp add: entry_msg_def)

lemma dst_ok_unlinked [simp]: "dst_ok (unlinked e) = dst_ok e"
  by (simp add: dst_ok_def)

lemma sends_unlinked [simp]: "sends env (unlinked e) = sends env e"
  by (simp add: sends_def fun_eq_iff)

lemma full_unlinked [simp]: "full env (unlinked e) = full env e"
  by (simp add: full_def fun_eq_iff)

lemma full_cong: "full env e n s ps g \<Longrightarrow> q_dst_nid e' = q_dst_nid e \<Longrightarrow> full env e' n s ps g"
  by (simp add: full_def dst_ok_def)

lemma sendDATA_moves:
  assumes h: "has env qs a e st" and msg: "entry_msg env e (umem st) msg" and off: "off \<le> length msg" "length msg < 2 ^ 32"
    and e: "q_len e = of_nat (length msg)" "q_datasent e = of_nat off"
  obtains st' ps g off' e' where "sendDATA env a num_pkts st = Some st'" "moves env qs a e' ps st st'"
    "same_data (e\<lparr>q_seq := q_seq e + of_nat (length ps + g), q_datasent := of_nat off'\<rparr>) e'"
    "burst (q_msgID e) (my_pnid (pkt st)) msg (q_retries e) (q_seq e) off ps"
    "off' = min (length msg) (off + length ps * data_max)" "g \<le> 1" "length ps + g \<le> nat num_pkts"
    "0 < num_pkts \<Longrightarrow> idle env (pkt st) \<Longrightarrow> dst_ok e \<Longrightarrow> ps \<noteq> []" "full env e (nat num_pkts) (pkt st) ps g"
proof -
  obtain e0 where e0: "qheap st a = Some e0" "e = unlinked e0" using has_heap [OF h] by blast
  have pre: "entry_msg env e0 (umem st) msg" "q_len e0 = of_nat (length msg)" "q_datasent e0 = of_nat off" "ring_ok env (pkt st)"
    using msg e e0(2) h by (simp_all add: has_def)
  obtain s ps g off' ev' where r: "sendDATA env a num_pkts st = Some (st\<lparr>qheap := (qheap st)(a \<mapsto>
      e0\<lparr>q_idle := jiffies st, q_seq := q_seq e0 + of_nat (length ps + g), q_datasent := of_nat off', q_event := ev'\<rparr>), pkt := s\<rparr>)"
    and sn: "sends env e0 msg (nat num_pkts) (pkt st) s ps g off off'" "full env e0 (nat num_pkts) (pkt st) ps g"
    by (rule sendDATA_ok [OF pre(1) off pre(4) e0(1) pre(2,3)]) (rule that)
  let ?f = "\<lambda>e. e\<lparr>q_idle := jiffies st, q_seq := q_seq e + of_nat (length ps + g), q_datasent := of_nat off', q_event := ev'\<rparr>"
  let ?st1 = "st\<lparr>qheap := (qheap st)(a \<mapsto> ?f e0)\<rparr>"
  have "queues_ok ?st1 qs" using h e0(1) by (intro upd_entry_ok) (simp_all add: has_def)
  then have "queues_ok (?st1\<lparr>pkt := s\<rparr>) qs" by (rule queues_ok_cong) simp_all
  moreover have "ent (?st1\<lparr>pkt := s\<rparr>) = (ent st)(a \<mapsto> ?f e)" using e0(2) by (auto simp: ent_def fun_eq_iff unlinked_def)
  ultimately have m: "moves env qs a (?f e) ps st (?st1\<lparr>pkt := s\<rparr>)" using sn(1) by (simp add: moves_def sends_def)
  have sd: "same_data (e\<lparr>q_seq := q_seq e + of_nat (length ps + g), q_datasent := of_nat off'\<rparr>) (?f e)"
    by (simp add: same_data_def)
  have eq: "sendDATA env a num_pkts st = Some (?st1\<lparr>pkt := s\<rparr>)" unfolding r by (rule refl)
  show thesis
    using sn by (intro that [OF eq m sd]) (simp_all add: sends_def e0(2))
qed

section \<open>Clear to send\<close>

lemma handleCTS_moves:
  assumes h: "has env qs a e st" and s: "sending qs msgID a st" and msg: "entry_msg env e (umem st) msg"
    and off: "off \<le> length msg" "length msg < 2 ^ 32"
    and e: "of_nat (length msg) \<le> q_len e" "q_datasent e = of_nat off" "q_msgID e = msgID"
  obtains st' qs' ps g off' e' where "handleCTS env msgID (of_nat (length msg)) num_pkts st = Some st'"
    "moves env qs' a e' ps st st'" "sending qs' msgID a st'" "a \<in> set (qs' Qsending)"
    "same_data (e\<lparr>q_len := of_nat (length msg), q_seq := q_seq e + of_nat (length ps + g), q_datasent := of_nat off'\<rparr>) e'"
    "burst msgID (my_pnid (pkt st)) msg (q_retries e) (q_seq e) off ps"
    "off' = min (length msg) (off + length ps * data_max)" "g \<le> 1" "length ps + g \<le> nat (s32 (uint num_pkts))"
    "0 < s32 (uint num_pkts) \<Longrightarrow> idle env (pkt st) \<Longrightarrow> dst_ok e \<Longrightarrow> ps \<noteq> []"
    "full env e (nat (s32 (uint num_pkts))) (pkt st) ps g"
proof -
  obtain st1 qs1 where d: "dequeue_send msgID st = Some (Some a, st1)" "moves env qs1 a e [] st st1"
      "\<And>Q. set (qs1 Q) = set (qs Q) - {a}" "pkt st1 = pkt st" using dequeue_send_moves [OF h s] by metis
  let ?L = "of_nat (length msg) :: 32 word"
  let ?f = "\<lambda>e. if ?L < q_len e then e\<lparr>q_len := ?L\<rparr> else e"
  have f: "plain_upd ?f" by (rule plain_updI) (simp_all add: unlinked_def)
  obtain st2 where u: "upd_entry a ?f st1 = Some st2" "moves env qs1 a (?f e) [] st1 st2" "pkt st2 = pkt st1"
    by (rule upd_moves [OF moves_has [OF d(2)] f]) (rule that)
  have fe: "?f e = e\<lparr>q_len := ?L\<rparr>" using e(1) by (cases e) auto
  obtain e2 where e2: "qheap st2 a = Some e2" "e\<lparr>q_len := ?L\<rparr> = unlinked e2" using has_heap [OF moves_has [OF u(2)]] fe by metis
  have "queues_ok st2 qs1" "\<And>R. a \<notin> set (qs1 R)" using moves_has [OF u(2)] d(3) by (simp_all add: has_def)
  from enqueue_entry_ok [OF this(1) e2(1) this(2), of Qsending] obtain st3 where q: "enqueue_entry Qsending a st2 = Some st3"
      "queues_ok st3 (qs1(Qsending := qs1 Qsending @ [a]))" "frame_eq st2 st3" "ent st3 = ent st2" by metis
  let ?qs = "qs1(Qsending := qs1 Qsending @ [a])"
  have m3: "moves env ?qs a (e\<lparr>q_len := ?L\<rparr>) [] st2 st3"
    using frame_moves [OF moves_has [OF u(2)] q(3,2,4)] fe by simp
  let ?g = "\<lambda>e. e\<lparr>q_event := E_RCVD_CTS, q_idle := jiffies st3\<rparr>"
  have g: "plain_upd ?g" by (rule plain_updI) (simp_all add: unlinked_def)
  obtain st4 where w: "upd_entry a ?g st3 = Some st4" "moves env ?qs a (?g (e\<lparr>q_len := ?L\<rparr>)) [] st3 st4" "pkt st4 = pkt st3"
    by (rule upd_moves [OF moves_has [OF m3] g]) (rule that)
  let ?e = "?g (e\<lparr>q_len := ?L\<rparr>)"
  have m4: "moves env ?qs a ?e [] st st4"
    using moves_trans [OF d(2) moves_trans [OF u(2)[unfolded fe] moves_trans [OF m3 w(2)]]] by simp
  have "entry_msg env ?e (umem st4) msg" using msg m4 by (simp add: entry_msg_def moves_def)
  moreover have "q_len ?e = of_nat (length msg)" "q_datasent ?e = of_nat off" using e(2) by simp_all
  ultimately obtain st' ps g off' e' where r: "sendDATA env a (s32 (uint num_pkts)) st4 = Some st'" "moves env ?qs a e' ps st4 st'"
    "same_data (?e\<lparr>q_seq := q_seq ?e + of_nat (length ps + g), q_datasent := of_nat off'\<rparr>) e'"
    "burst (q_msgID ?e) (my_pnid (pkt st4)) msg (q_retries ?e) (q_seq ?e) off ps"
    "off' = min (length msg) (off + length ps * data_max)" "g \<le> 1" "length ps + g \<le> nat (s32 (uint num_pkts))"
    "0 < s32 (uint num_pkts) \<Longrightarrow> idle env (pkt st4) \<Longrightarrow> dst_ok ?e \<Longrightarrow> ps \<noteq> []"
    "full env ?e (nat (s32 (uint num_pkts))) (pkt st4) ps g"
    by (rule sendDATA_moves [OF moves_has [OF w(2)] _ off]) (rule that)
  have m: "moves env ?qs a e' ps st st'" using moves_trans0 [OF m4 r(2)] .
  have id: "msgid st a = msgID" using s by (simp add: sending_def)
  have e': "q_msgID e' = msgID" using r(3) e(3) by (simp add: same_data_def)
  have "msgid st' = msgid st" using moves_msgid [OF m] e' id by simp
  then have "sending ?qs msgID a st'" using s d(3) unfolding sending_def by auto
  moreover have "handleCTS env msgID (of_nat (length msg)) num_pkts st = Some st'"
    using d(1) u(1) q(1) w(1) r(1) by (simp add: handleCTS_def)
  moreover have "pkt st4 = pkt st" using d(4) u(3) w(3) frame_eq_more(1) [OF q(3)] by simp
  ultimately show thesis using that [OF _ m] r(3-8) full_cong [OF r(9), of e] e(3) by (simp add: same_data_def dst_ok_def)
qed

section \<open>Starting over\<close>

lemma handleDataResend_none:
  assumes h: "has env qs a e st" and s: "sending qs msgID a st" and a: "a \<notin> set (qs Qsending)"
  shows "handleDataResend env msgID st = Some st"
  using find_queue_ok [of st qs Qsending msgID] sending_find [OF s, of Qsending] h a
  by (simp add: handleDataResend_def has_def)

lemma handleDataResend_moves:
  assumes h: "has env qs a e st" and s: "sending qs msgID a st" and a: "a \<in> set (qs Qsending)"
    and msg: "entry_msg env e (umem st) msg" "length msg < 2 ^ 32" and e: "q_len e = of_nat (length msg)" "q_msgID e = msgID"
  obtains st' ps g off' e' where "handleDataResend env msgID st = Some st'" "moves env qs a e' ps st st'" "sending qs msgID a st'"
    "same_data (e\<lparr>q_retries := s32 (q_retries e + 1), q_seq := of_nat (length ps + g), q_datasent := of_nat off'\<rparr>) e'"
    "burst msgID (my_pnid (pkt st)) msg (s32 (q_retries e + 1)) 0 0 ps"
    "off' = min (length msg) (length ps * data_max)" "g \<le> 1" "length ps + g \<le> 1"
    "idle env (pkt st) \<Longrightarrow> dst_ok e \<Longrightarrow> ps \<noteq> []" "full env e 1 (pkt st) ps g"
proof -
  have fq: "find_queue Qsending msgID st = Some (Some a)"
    using find_queue_ok [of st qs Qsending msgID] sending_find [OF s, of Qsending] h a by (simp add: has_def)
  let ?f = "\<lambda>e. e\<lparr>q_idle := jiffies st, q_datasent := 0, q_seq := 0, q_retries := s32 (q_retries e + 1)\<rparr>"
  have f: "plain_upd ?f" by (rule plain_updI) (simp_all add: unlinked_def)
  obtain st1 where u: "upd_entry a ?f st = Some st1" "moves env qs a (?f e) [] st st1" "pkt st1 = pkt st"
    by (rule upd_moves [OF h f]) (rule that)
  have "entry_msg env (?f e) (umem st1) msg" using msg(1) u(2) by (simp add: entry_msg_def moves_def)
  moreover have "q_len (?f e) = of_nat (length msg)" "q_datasent (?f e) = of_nat 0" using e(1) by simp_all
  ultimately obtain st' ps g off' e' where r: "sendDATA env a 1 st1 = Some st'" "moves env qs a e' ps st1 st'"
    "same_data ((?f e)\<lparr>q_seq := q_seq (?f e) + of_nat (length ps + g), q_datasent := of_nat off'\<rparr>) e'"
    "burst (q_msgID (?f e)) (my_pnid (pkt st1)) msg (q_retries (?f e)) (q_seq (?f e)) 0 ps"
    "off' = min (length msg) (0 + length ps * data_max)" "g \<le> 1" "length ps + g \<le> nat 1"
    "0 < (1 :: int) \<Longrightarrow> idle env (pkt st1) \<Longrightarrow> dst_ok (?f e) \<Longrightarrow> ps \<noteq> []" "full env (?f e) (nat 1) (pkt st1) ps g"
    by (rule sendDATA_moves [OF moves_has [OF u(2)] _ le0 msg(2)]) (rule that)
  have m: "moves env qs a e' ps st st'" using moves_trans0 [OF u(2) r(2)] .
  have id: "msgid st a = msgID" using s by (simp add: sending_def)
  have e': "q_msgID e' = msgID" using r(3) e(2) by (simp add: same_data_def)
  have mid: "msgid st' = msgid st" using moves_msgid [OF m] e' id by simp
  have s': "sending qs msgID a st'" using s unfolding sending_def mid .
  have eq: "handleDataResend env msgID st = Some st'" using fq u(1) r(1) by (simp add: handleDataResend_def)
  show thesis using r(3-8) full_cong [OF r(9), of e] e(2) u(3) by (intro that [OF eq m s']) (simp_all add: same_data_def dst_ok_def)
qed

end
