(* ===== verification/R_Rounds.thy ===== *)
theory R_Rounds
  imports R_Burst
begin

text \<open>
  The numbering of the data packets of a message.  A sender that times out starts a new round
  from the beginning of the message; a packet carries its round and its number in the round.
  This theory has the relation between the sender, the packets in transit and the receiver,
  and how it is kept when packets are sent, lost and received, in terms of numbers only.
\<close>

section \<open>Rounds, numbers and offsets\<close>

definition rnd :: "packet \<Rightarrow> nat" where
  "rnd p = unat (ph_info2 (pk_hdr p))"

definition num :: "packet \<Rightarrow> nat" where
  "num p = unat (ph_seq (pk_hdr p))"

text \<open>
  The number that a receiver waits for when it has missed a packet, the bound on the numbers
  of packets, and the value that stands for no missed number.
\<close>

abbreviation dead :: nat where "dead \<equiv> 0x7fffffff"
abbreviation num_max :: nat where "num_max \<equiv> 0x7ffffffe"
abbreviation no_gap :: nat where "no_gap \<equiv> 0x80000000"

text \<open>
  The offset of packet \<open>k\<close> of round \<open>r\<close>: the first round starts behind the \<open>B\<close> bytes
  that came with the announcement of the message.
\<close>

definition pos :: "nat \<Rightarrow> nat \<Rightarrow> nat \<Rightarrow> nat \<Rightarrow> nat" where
  "pos B L r k = min L ((if r = 0 then B else 0) + (k - 1) * data_max)"

lemma pos_le [simp]: "pos B L r k \<le> L"
  by (simp add: pos_def)

lemma pos_Suc: "1 \<le> k \<Longrightarrow> min L (pos B L r k + j * data_max) = pos B L r (k + j)"
proof -
  assume "1 \<le> k"
  then have "(k - 1) * data_max + j * data_max = (k + j - 1) * data_max"
    by (simp flip: add_mult_distrib)
  then show ?thesis by (auto simp: pos_def min_def)
qed

definition before :: "packet \<Rightarrow> packet \<Rightarrow> bool" where
  "before p q \<longleftrightarrow> rnd p < rnd q \<or> rnd p = rnd q \<and> num p < num q"

text \<open>
  The packets in transit, oldest first.  \<open>G r\<close> is the number that was used up without a
  packet in round \<open>r\<close>; the packets before it are where they should be.
\<close>

definition good_pkt :: "32 word \<Rightarrow> int \<Rightarrow> nat \<Rightarrow> 8 word list \<Rightarrow> (nat \<Rightarrow> nat) \<Rightarrow> packet \<Rightarrow> bool" where
  "good_pkt msgID pnid B msg G p \<longleftrightarrow>
     1 \<le> num p \<and> num p < num_max \<and> rnd p < no_gap \<and> num p \<noteq> G (rnd p) \<and>
     (\<exists>off \<le> length msg. data_packet msgID pnid msg (int (rnd p)) (ph_seq (pk_hdr p)) off p \<and>
        (num p < G (rnd p) \<longrightarrow> off = pos B (length msg) (rnd p) (num p)))"

definition chan_ok ::
  "32 word \<Rightarrow> int \<Rightarrow> nat \<Rightarrow> 8 word list \<Rightarrow> (nat \<Rightarrow> nat) \<Rightarrow> nat \<Rightarrow> nat \<Rightarrow> packet list \<Rightarrow> bool" where
  "chan_ok msgID pnid B msg G R K ch \<longleftrightarrow>
     (\<forall>p \<in> set ch. good_pkt msgID pnid B msg G p \<and> (rnd p < R \<or> rnd p = R \<and> num p \<le> K)) \<and>
     sorted_wrt before ch"

text \<open>The sender is in round \<open>R\<close>, has used the numbers up to \<open>K\<close> and has come to offset \<open>D\<close>.\<close>

definition tx_ok :: "nat \<Rightarrow> nat \<Rightarrow> (nat \<Rightarrow> nat) \<Rightarrow> nat \<Rightarrow> nat \<Rightarrow> nat \<Rightarrow> bool" where
  "tx_ok B L G R K D \<longleftrightarrow>
     R < no_gap \<and> K < num_max \<and> D \<le> L \<and> (\<forall>r. 1 \<le> G r) \<and> (\<forall>r > R. G r = no_gap) \<and>
     (G R \<le> K \<or> G R = no_gap \<and> D = pos B L R (K + 1))"

text \<open>The receiver is in round \<open>r\<close>, waits for number \<open>k\<close> and has the bytes up to \<open>d\<close>.\<close>

definition rx_ok :: "nat \<Rightarrow> nat \<Rightarrow> (nat \<Rightarrow> nat) \<Rightarrow> nat \<Rightarrow> nat \<Rightarrow> packet list \<Rightarrow> nat \<Rightarrow> nat \<Rightarrow> nat \<Rightarrow> bool" where
  "rx_ok B L G R K ch r k d \<longleftrightarrow>
     r \<le> R \<and> (\<forall>p \<in> set ch. r < rnd p \<or> rnd p = r \<and> (if k = dead then 2 else k) \<le> num p) \<and>
     (if k = dead then r = R \<longrightarrow> 1 \<le> K
      else 1 \<le> k \<and> k \<le> num_max \<and> k \<le> G r \<and> (r = R \<longrightarrow> k \<le> K + 1) \<and> d = pos B L r k)"

section \<open>Sending\<close>

lemma num_of: "data_packet msgID pnid msg r k off p \<Longrightarrow> num p = unat k"
  by (simp add: data_packet_def num_def)

lemma rnd_of: "data_packet msgID pnid msg (int R) k off p \<Longrightarrow> R < no_gap \<Longrightarrow> rnd p = R"
  by (simp add: data_packet_def rnd_def unat_32)

lemma burst_packet:
  assumes "burst msgID pnid msg (int R) (of_nat K) D ps" "D \<le> length msg" "R < no_gap" "K + length ps < num_max" "j < length ps"
  shows "rnd (ps ! j) = R" "num (ps ! j) = K + Suc j"
    "data_packet msgID pnid msg (int R) (ph_seq (pk_hdr (ps ! j))) (min (length msg) (D + j * data_max)) (ps ! j)"
proof -
  have p: "data_packet msgID pnid msg (int R) (of_nat K + of_nat (Suc j)) (min (length msg) (D + j * data_max)) (ps ! j)"
    using burst_nth [OF assms(1,2,5)] .
  show "rnd (ps ! j) = R" using rnd_of [OF p assms(3)] .
  have "(of_nat K + of_nat (Suc j) :: 32 word) = of_nat (K + Suc j)" by simp
  then have "num (ps ! j) = unat (of_nat (K + Suc j) :: 32 word)" using num_of [OF p] by metis
  then show "num (ps ! j) = K + Suc j" using assms(4,5) unat_32 [of "K + Suc j"] by simp
  show "data_packet msgID pnid msg (int R) (ph_seq (pk_hdr (ps ! j))) (min (length msg) (D + j * data_max)) (ps ! j)"
    using p unfolding data_packet_def by auto
qed

lemma burst_sorted:
  assumes "burst msgID pnid msg (int R) (of_nat K) D ps" "D \<le> length msg" "R < no_gap" "K + length ps < num_max"
  shows "sorted_wrt before ps"
  unfolding sorted_wrt_iff_nth_less before_def
  using burst_packet(1,2) [OF assms] by simp

text \<open>A number used up at the end of a burst is the gap of the round, unless there was one.\<close>

definition new_gap :: "(nat \<Rightarrow> nat) \<Rightarrow> nat \<Rightarrow> nat \<Rightarrow> nat \<Rightarrow> nat \<Rightarrow> nat \<Rightarrow> nat" where
  "new_gap G R K g K' = (if g = 1 \<and> K < G R then G(R := K') else G)"

lemma new_gap_good:
  assumes p: "good_pkt msgID pnid B msg G p" "rnd p < R \<or> rnd p = R \<and> num p \<le> K" and K: "K < K' \<or> g = 0"
  shows "good_pkt msgID pnid B msg (new_gap G R K g K') p"
proof (cases "rnd p = R \<and> g = 1 \<and> K < G R")
  case True
  then have "num p \<le> K" "num p < G R" "num p < K'" using p(2) K by auto
  then show ?thesis using p(1) True unfolding good_pkt_def new_gap_def by auto
next
  case False
  then have "new_gap G R K g K' (rnd p) = G (rnd p)" by (auto simp: new_gap_def)
  then show ?thesis using p(1) by (simp add: good_pkt_def)
qed

lemma burst_good:
  assumes b: "burst msgID pnid msg (int R) (of_nat K) D ps" and t: "tx_ok B (length msg) G R K D"
    and K': "K' = K + length ps + g" "K' < num_max" "g \<le> 1" and p: "p \<in> set ps"
  shows "good_pkt msgID pnid B msg (new_gap G R K g K') p" "rnd p = R" "K < num p" "num p \<le> K'"
proof -
  obtain j where j: "j < length ps" "p = ps ! j" using p by (metis in_set_conv_nth)
  have D: "D \<le> length msg" "R < no_gap" using t by (simp_all add: tx_ok_def)
  have n: "K + length ps < num_max" using K' by simp
  note q = burst_packet [OF b D n j(1), folded j(2)]
  show "rnd p = R" "K < num p" "num p \<le> K'" using q j(1) K'(1) by simp_all
  let ?G = "new_gap G R K g K'"
  have G: "G R \<le> K \<or> G R = no_gap \<and> D = pos B (length msg) R (K + 1)" using t by (simp add: tx_ok_def)
  have "num p \<noteq> ?G R" using G q(2) j(1) K' by (auto simp: new_gap_def)
  moreover have "min (length msg) (D + j * data_max) = pos B (length msg) R (num p)" if "num p < ?G R"
  proof -
    have "D = pos B (length msg) R (K + 1)" using that G q(2) by (auto simp: new_gap_def split: if_splits)
    then show ?thesis using pos_Suc [of "K + 1" "length msg" B R j] q(2) by simp
  qed
  ultimately show "good_pkt msgID pnid B msg ?G p"
    unfolding good_pkt_def using q j(1) n D(2) by (auto intro!: exI [of _ "min (length msg) (D + j * data_max)"])
qed

lemma send_burst:
  assumes t: "tx_ok B (length msg) G R K D" and c: "chan_ok msgID pnid B msg G R K ch"
    and x: "rx_ok B (length msg) G R K ch r k d" and b: "burst msgID pnid msg (int R) (of_nat K) D ps"
    and K': "K' = K + length ps + g" "K' < num_max" "g \<le> 1" and D': "D' = min (length msg) (D + length ps * data_max)"
  defines "G' \<equiv> new_gap G R K g K'"
  shows "tx_ok B (length msg) G' R K' D'" "chan_ok msgID pnid B msg G' R K' (ch @ ps)" "rx_ok B (length msg) G' R K' (ch @ ps) r k d"
proof -
  have G: "G R \<le> K \<or> G R = no_gap \<and> D = pos B (length msg) R (K + 1)" using t by (simp add: tx_ok_def)
  have pre: "D \<le> length msg" "R < no_gap" "K + length ps < num_max" using t K' by (simp_all add: tx_ok_def)
  note good = burst_good [OF b t K', folded G'_def]
  have "g = 0 \<or> g = 1" using K'(3) by linarith
  then have "G' R \<le> K' \<or> G' R = no_gap \<and> D' = pos B (length msg) R (K' + 1)"
    using G K' D' pos_Suc [of "K + 1" "length msg" B R "length ps"] by (auto simp: G'_def new_gap_def)
  then show "tx_ok B (length msg) G' R K' D'" using t K' D' by (auto simp: tx_ok_def G'_def new_gap_def)
  have old: "good_pkt msgID pnid B msg G' p \<and> (rnd p < R \<or> rnd p = R \<and> num p \<le> K)" if "p \<in> set ch" for p
    using c that K' new_gap_good [of msgID pnid B msg G p R K K' g] unfolding G'_def chan_ok_def by auto
  have "sorted_wrt before (ch @ ps)"
    using c burst_sorted [OF b pre] old good unfolding sorted_wrt_append chan_ok_def before_def by fastforce
  then show "chan_ok msgID pnid B msg G' R K' (ch @ ps)"
    using old good K' unfolding chan_ok_def by fastforce
  have "k \<le> G' r" if "k \<noteq> dead" using x that K' by (auto simp: rx_ok_def G'_def new_gap_def)
  moreover have "(if k = dead then 2 else k) \<le> num p" if "p \<in> set ps" "r = R" for p
    using good(3) [OF that(1)] x that(2) by (auto simp: rx_ok_def split: if_splits)
  ultimately show "rx_ok B (length msg) G' R K' (ch @ ps) r k d"
    using x good K' unfolding rx_ok_def by (fastforce split: if_splits)
qed

lemma start_over:
  assumes "tx_ok B L G R K D" "R + 1 < no_gap"
  shows "tx_ok B L G (R + 1) 0 0" "chan_ok msgID pnid B msg G R K ch \<Longrightarrow> chan_ok msgID pnid B msg G (R + 1) 0 ch"
    "rx_ok B L G R K ch r k d \<Longrightarrow> rx_ok B L G (R + 1) 0 ch r k d"
  using assms by (auto simp: tx_ok_def chan_ok_def rx_ok_def pos_def split: if_splits)

section \<open>Losing and receiving\<close>

lemma lose_packet:
  "chan_ok msgID pnid B msg G R K (p # ch) \<Longrightarrow> chan_ok msgID pnid B msg G R K ch"
  "rx_ok B L G R K (p # ch) r k d \<Longrightarrow> rx_ok B L G R K ch r k d"
  by (auto simp: chan_ok_def rx_ok_def split: if_splits)

text \<open>What the receiver has to do with a packet.\<close>

lemma receive_packet:
  assumes t: "tx_ok B (length msg) G R K D" and c: "chan_ok msgID pnid B msg G R K (p # ch)"
    and x: "rx_ok B (length msg) G R K (p # ch) r k d"
  obtains (restart) "r < rnd p" "num p = 1" "data_packet msgID pnid msg (int (rnd p)) (ph_seq (pk_hdr p)) 0 p"
      "rx_ok B (length msg) G R K ch (rnd p) 2 (min (length msg) data_max)"
  | (expected) "rnd p = r" "num p = k" "k \<noteq> dead" "d = pos B (length msg) r k"
      "data_packet msgID pnid msg (int (rnd p)) (ph_seq (pk_hdr p)) d p"
      "rx_ok B (length msg) G R K ch r (k + 1) (min (length msg) (d + data_max))"
  | (missed) "r < rnd p \<and> num p \<noteq> 1 \<or> rnd p = r \<and> num p \<noteq> k \<and> num p \<noteq> 1 \<and> (k = dead \<or> k < num p)"
      "\<And>d. rx_ok B (length msg) G R K ch r dead d"
proof -
  have g: "good_pkt msgID pnid B msg G p" "rnd p < R \<or> rnd p = R \<and> num p \<le> K" and s: "\<forall>q \<in> set ch. before p q"
    using c by (simp_all add: chan_ok_def)
  have n: "1 \<le> num p" "num p < num_max" "num p \<noteq> G (rnd p)" using g(1) by (simp_all add: good_pkt_def)
  have r: "r \<le> R" and px: "r < rnd p \<or> rnd p = r \<and> (if k = dead then 2 else k) \<le> num p" using x by (simp_all add: rx_ok_def)
  have at: "data_packet msgID pnid msg (int (rnd p)) (ph_seq (pk_hdr p)) (pos B (length msg) (rnd p) (num p)) p"
    if "num p < G (rnd p)" using g(1) that by (auto simp: good_pkt_def)
  consider (1) "r < rnd p" "num p = 1" | (2) "rnd p = r" "num p = k" "k \<noteq> dead"
    | (3) "r < rnd p \<and> num p \<noteq> 1 \<or> rnd p = r \<and> num p \<noteq> k \<and> num p \<noteq> 1 \<and> (k = dead \<or> k < num p)"
  proof -
    have "k \<noteq> dead \<Longrightarrow> 1 \<le> k" using x by (simp add: rx_ok_def)
    then show ?thesis using px n that by (cases "r < rnd p"; cases "k = dead"; cases "num p = k"; cases "num p = 1"; force)
  qed
  then show thesis
  proof cases
    case 1
    have "1 \<le> G (rnd p)" using t by (simp add: tx_ok_def)
    then have G: "1 < G (rnd p)" using n(3) 1(2) by simp
    have p0: "pos B (length msg) (rnd p) 1 = 0" using 1(1) by (simp add: pos_def)
    have "pos B (length msg) (rnd p) 2 = min (length msg) data_max" using 1(1) by (simp add: pos_def)
    then have "rx_ok B (length msg) G R K ch (rnd p) 2 (min (length msg) data_max)"
      using g(2) s 1 G unfolding rx_ok_def before_def by auto
    then show thesis using restart 1 at G p0 by simp
  next
    case 2
    have k: "1 \<le> k" "k \<le> G r" "d = pos B (length msg) r k" using x 2(3) by (simp_all add: rx_ok_def)
    have G: "k < G r" using k(2) n(3) 2 by simp
    have "rx_ok B (length msg) G R K ch r (k + 1) (min (length msg) (d + data_max))"
      using pos_Suc [OF k(1), of "length msg" B r 1] k s 2 G g(2) n r unfolding rx_ok_def before_def by auto
    then show thesis using expected [OF 2] k(3) at 2 G by simp
  next
    case 3
    have "rx_ok B (length msg) G R K ch r dead d'" for d'
      using g(2) s 3 r n unfolding rx_ok_def before_def by (auto split: if_splits)
    then show thesis by (rule missed [OF 3])
  qed
qed

end
