(* ===== verification/R_Steps.thy ===== *)
theory R_Steps
  imports R_Sender R_Rounds
begin

text \<open>
  The steps of the two ends of the transfer of one message: the sender answering a
  clear-to-send packet and starting over after a timeout, the receiver taking a data packet,
  and the steps of the cards and the clocks of both nodes, which leave the transfer alone.
\<close>

section \<open>Steps of the cards and the clocks\<close>

inductive quiet :: "rts \<Rightarrow> rts \<Rightarrow> bool" where
  card: "quiet st (st\<lparr>pkt := snd_statem bus_avail send_rdy send_int (pkt st)\<rparr>)"
| dma: "quiet st (st\<lparr>pkt := e2l_dma_done (pkt st)\<rparr>)"
| ready: "quiet st (st\<lparr>pkt := (pkt st)\<lparr>rdy_to_snd := b\<rparr>\<rparr>)"
| clock: "quiet st (st\<lparr>jiffies := t\<rparr>)"

lemma ring_ok_card: "ring_ok env s \<longleftrightarrow> card_ok (virt_to_bus env) (sent s) s"
  by (auto simp: ring_ok_def card_ok_def sent_def)

lemma card_step_ok:
  assumes "card_ok vtb (sent s) s' " "ring_ok env s" "vtb = virt_to_bus env"
  shows "ring_ok env s'" "sent s' = sent s"
  using assms by (auto simp: ring_ok_def card_ok_def sent_def)

lemma snd_statem_pnid [simp]: "my_pnid (snd_statem b c d s) = my_pnid s"
  by (simp add: snd_statem_def snd_S0_def snd_S1_def snd_S2_def Let_def split: snd_states_t.split option.split)

lemma ready_ok: "ring_inv vtb k s \<Longrightarrow> ring_inv vtb k (s\<lparr>rdy_to_snd := b\<rparr>)"
  by (simp add: ring_parts ring_span_def ring_pos_def)

lemma quiet_ring:
  assumes "quiet st st'" "ring_ok env (pkt st)"
  shows "ring_ok env (pkt st')" "sent (pkt st') = sent (pkt st)" "my_pnid (pkt st') = my_pnid (pkt st)"
proof -
  have c: "card_ok (virt_to_bus env) (sent (pkt st)) (pkt st)" using assms(2) by (simp add: ring_ok_card)
  have "ring_ok env (pkt st') \<and> sent (pkt st') = sent (pkt st) \<and> my_pnid (pkt st') = my_pnid (pkt st)"
    using assms(1)
  proof cases
    case card
    then show ?thesis using card_step_ok [OF snd_statem_ok [OF c] assms(2) refl] by simp
  next
    case dma
    then show ?thesis using card_step_ok [OF e2l_dma_done_ok [OF c] assms(2) refl] by (simp add: e2l_dma_done_def)
  next
    case (ready b)
    obtain k where k: "ring_inv (virt_to_bus env) k (pkt st)" using assms(2) by (auto simp: ring_ok_def)
    then have "ring_ok env (pkt st')" using ready_ok [OF k] ready by (auto simp: ring_ok_def)
    moreover have "slot_packet ((pkt st)\<lparr>rdy_to_snd := b\<rparr>) = slot_packet (pkt st)" "ring_pos ((pkt st)\<lparr>rdy_to_snd := b\<rparr>) = ring_pos (pkt st)"
      by (simp_all add: slot_packet_def ring_pos_def fun_eq_iff)
    ultimately show ?thesis using ready by (simp add: sent_def queued_def)
  next
    case clock
    then show ?thesis using assms(2) by simp
  qed
  then show "ring_ok env (pkt st')" "sent (pkt st') = sent (pkt st)" "my_pnid (pkt st') = my_pnid (pkt st)" by simp_all
qed

lemma quiet_same:
  assumes "quiet st st'"
  shows "Qhead st' = Qhead st" "Qtail st' = Qtail st" "qheap st' = qheap st" "umem st' = umem st" "ent st' = ent st" "msgid st' = msgid st"
proof -
  show "Qhead st' = Qhead st" "Qtail st' = Qtail st" "umem st' = umem st" using assms by (cases; simp)+
  show h: "qheap st' = qheap st" using assms by (cases; simp)
  show "ent st' = ent st" using h by (rule ent_cong)
  then show "msgid st' = msgid st" by (simp add: msgid_def fun_eq_iff)
qed

text \<open>The part of a state that the two sides below depend on.\<close>

definition like :: "rts_env \<Rightarrow> rts \<Rightarrow> rts \<Rightarrow> bool" where
  "like env st st' \<longleftrightarrow>
     Qhead st' = Qhead st \<and> Qtail st' = Qtail st \<and> qheap st' = qheap st \<and> umem st' = umem st \<and>
     (ring_ok env (pkt st) \<longrightarrow> ring_ok env (pkt st') \<and> sent (pkt st') = sent (pkt st) \<and> my_pnid (pkt st') = my_pnid (pkt st))"

lemma quiet_like: "quiet st st' \<Longrightarrow> like env st st'"
  unfolding like_def using quiet_same(1-4) quiet_ring by blast

lemma remote_like: "like env st (upd_remote n f st)"
  by (simp add: like_def upd_remote_def)

lemma like_has:
  assumes "like env st st'" "has env qs a e st"
  shows "has env qs a e st'" "msgid st' = msgid st" "umem st' = umem st" "my_pnid (pkt st') = my_pnid (pkt st)" "sent (pkt st') = sent (pkt st)"
proof -
  have l: "Qhead st' = Qhead st" "Qtail st' = Qtail st" "qheap st' = qheap st" "umem st' = umem st"
      "ring_ok env (pkt st') \<and> sent (pkt st') = sent (pkt st) \<and> my_pnid (pkt st') = my_pnid (pkt st)"
    using assms by (simp_all add: like_def has_def)
  have ok: "queues_ok st' qs" using assms(2) l(1-3) unfolding has_def by (blast intro: queues_ok_cong)
  have en: "ent st' = ent st" using l(3) by (rule ent_cong)
  show "has env qs a e st'" using assms(2) l(5) ok en by (simp add: has_def)
  show "msgid st' = msgid st" using en by (simp add: msgid_def fun_eq_iff)
  show "umem st' = umem st" "my_pnid (pkt st') = my_pnid (pkt st)" "sent (pkt st') = sent (pkt st)" using l by simp_all
qed

section \<open>The two sides\<close>

text \<open>The sender in round \<open>R\<close> with \<open>K\<close> numbers used and \<open>D\<close> bytes sent.\<close>

definition tx_side ::
  "rts_env \<Rightarrow> 32 word \<Rightarrow> int \<Rightarrow> 8 word list \<Rightarrow> nat \<Rightarrow> nat \<Rightarrow> nat \<Rightarrow> nat \<Rightarrow> rts \<Rightarrow> bool" where
  "tx_side env msgID pnid msg a R K D st \<longleftrightarrow>
     (\<exists>qs e. has env qs a e st \<and> sending qs msgID a st \<and> dst_ok e \<and> entry_msg env e (umem st) msg \<and> q_msgID e = msgID \<and>
        q_retries e = int R \<and> q_seq e = of_nat K \<and> q_datasent e = of_nat D \<and> of_nat (length msg) \<le> q_len e \<and>
        (a \<in> set (qs Qsending) \<longrightarrow> q_len e = of_nat (length msg)) \<and> my_pnid (pkt st) = pnid)"

text \<open>
  The receiver in round \<open>r\<close>, waiting for number \<open>k\<close> with \<open>d\<close> bytes; \<open>fin\<close> is
  true when the library has been told that the message is complete.
\<close>

definition rx_side ::
  "rts_env \<Rightarrow> 32 word \<Rightarrow> 8 word list \<Rightarrow> page_tables \<Rightarrow> 64 word \<Rightarrow> nat \<Rightarrow> nat \<Rightarrow> nat \<Rightarrow> nat \<Rightarrow> bool \<Rightarrow> rts \<Rightarrow> bool" where
  "rx_side env msgID msg frame buf b r k d fin st \<longleftrightarrow>
     (\<exists>qs e. has env qs b e st \<and> find (\<lambda>x. msgid st x = msgID) (qs Qreceiving) = Some b \<and> q_msgID e = msgID \<and>
        q_len e = of_nat (length msg) \<and> q_retries e = int r \<and> q_seq e = of_nat k \<and>
        (k \<noteq> dead \<longrightarrow> q_datasent e = of_nat d) \<and> mm_of env (q_task e) = Some frame \<and> q_buf e = buf \<and>
        writable frame buf (length msg) \<and> (q_lib_finalize_called e \<longleftrightarrow> fin) \<and>
        (if fin then user_bytes frame buf (length msg) (umem st) = msg
         else k \<noteq> dead \<longrightarrow> take d (user_bytes frame buf (length msg) (umem st)) = take d msg))"

lemma tx_like:
  assumes l: "like env st st'" and t: "tx_side env msgID pnid msg a R K D st"
  shows "tx_side env msgID pnid msg a R K D st'" "sent (pkt st') = sent (pkt st)"
proof -
  obtain qs e where e: "has env qs a e st" "sending qs msgID a st" "entry_msg env e (umem st) msg" "dst_ok e \<and> q_msgID e = msgID \<and>
        q_retries e = int R \<and> q_seq e = of_nat K \<and> q_datasent e = of_nat D \<and> of_nat (length msg) \<le> q_len e \<and>
        (a \<in> set (qs Qsending) \<longrightarrow> q_len e = of_nat (length msg))" "my_pnid (pkt st) = pnid"
    using t unfolding tx_side_def by blast
  note h = like_has [OF l e(1)]
  have "sending qs msgID a st'" using e(2) unfolding sending_def h(2) .
  then show "tx_side env msgID pnid msg a R K D st'" unfolding tx_side_def using h(1) e(3-5) h(3,4) by auto
  show "sent (pkt st') = sent (pkt st)" by (rule h(5))
qed

lemma rx_like:
  assumes l: "like env st st'" and t: "rx_side env msgID msg frame buf b r k d fin st"
  shows "rx_side env msgID msg frame buf b r k d fin st'" "sent (pkt st') = sent (pkt st)"
proof -
  obtain qs e where e: "has env qs b e st" using t unfolding rx_side_def by blast
  have "has env qs' b e' st'" if "has env qs' b e' st" for qs' e' using like_has(1) [OF l that] .
  then show "rx_side env msgID msg frame buf b r k d fin st'"
    using t unfolding rx_side_def like_has(2,3) [OF l e] by blast
  show "sent (pkt st') = sent (pkt st)" by (rule like_has(5) [OF l e])
qed

section \<open>The sender's steps\<close>

text \<open>A clear-to-send packet for the message, from a node that exists.\<close>

definition cts_pkt :: "32 word \<Rightarrow> nat \<Rightarrow> packet \<Rightarrow> bool" where
  "cts_pkt msgID L p \<longleftrightarrow>
     ph_type (pk_hdr p) = CTS \<and> ph_msgID (pk_hdr p) = msgID \<and> ph_info (pk_hdr p) = of_nat L \<and>
     route (uint (ph_src_nid (pk_hdr p))) \<noteq> None"

lemma recv_cts:
  assumes "cts_pkt msgID L p"
  obtains n where "rtscts_recv env other p st =
    handleCTS env msgID (of_nat L) (ph_info2 (pk_hdr p)) (upd_remote n remote_ok st)"
  using assms by (auto simp: cts_pkt_def rtscts_recv_def unknown_pkt_def Let_def)

lemma cts_step:
  assumes t: "tx_side env msgID pnid msg a R K D st" and l: "D \<le> length msg" "length msg < 2 ^ 32"
  obtains st' ps g where "handleCTS env msgID (of_nat (length msg)) n st = Some st'" "sent (pkt st') = sent (pkt st) @ ps"
    "burst msgID pnid msg (int R) (of_nat K) D ps" "g \<le> 1" "length ps + g \<le> nat (s32 (uint n))"
    "tx_side env msgID pnid msg a R (K + length ps + g) (min (length msg) (D + length ps * data_max)) st'"
    "find_queue Qsending msgID st' = Some (Some a)" "0 < s32 (uint n) \<Longrightarrow> idle env (pkt st) \<Longrightarrow> ps \<noteq> []"
    "0 < s32 (uint n) \<and> space env (nat (s32 (uint n))) (nat (s32 (uint n))) (pkt st) \<longrightarrow>
       ps \<noteq> [] \<and> g = 0 \<and> ph_type (pk_hdr (last ps)) \<noteq> DATA"
proof -
  obtain qs e where e: "has env qs a e st" "sending qs msgID a st" "entry_msg env e (umem st) msg" "q_msgID e = msgID"
      "q_retries e = int R" "q_seq e = of_nat K" "q_datasent e = of_nat D" "of_nat (length msg) \<le> q_len e" "my_pnid (pkt st) = pnid" "dst_ok e"
    using t by (auto simp: tx_side_def)
  obtain st' qs' ps g off' e' where r: "handleCTS env msgID (of_nat (length msg)) n st = Some st'"
    "moves env qs' a e' ps st st'" "sending qs' msgID a st'" "a \<in> set (qs' Qsending)"
    "same_data (e\<lparr>q_len := of_nat (length msg), q_seq := q_seq e + of_nat (length ps + g), q_datasent := of_nat off'\<rparr>) e'"
    "burst msgID (my_pnid (pkt st)) msg (q_retries e) (q_seq e) D ps"
    "off' = min (length msg) (D + length ps * data_max)" "g \<le> 1" "length ps + g \<le> nat (s32 (uint n))"
    "0 < s32 (uint n) \<Longrightarrow> idle env (pkt st) \<Longrightarrow> dst_ok e \<Longrightarrow> ps \<noteq> []"
    "full env e (nat (s32 (uint n))) (pkt st) ps g"
    by (rule handleCTS_moves [OF e(1-3) l e(8,7,4)]) (rule that)
  have "entry_msg env e' (umem st') msg" using e(3) r(2,5) by (simp add: entry_msg_def moves_def same_data_def)
  moreover have "q_seq e' = of_nat (K + length ps + g)" using r(5) e(6) by (simp add: same_data_def add.assoc)
  ultimately have "tx_side env msgID pnid msg a R (K + length ps + g) off' st'"
    unfolding tx_side_def using moves_has [OF r(2)] r(2-5) e(4,5,9,10)
    by (intro exI [of _ qs'] exI [of _ e']) (simp add: same_data_def moves_def dst_ok_def)
  moreover have "find_queue Qsending msgID st' = Some (Some a)"
    using find_queue_ok [of st' qs' Qsending msgID] sending_find [OF r(3), of Qsending] moves_has [OF r(2)] r(4) by (simp add: has_def)
  ultimately show thesis using r e(5,6,9,10) by (intro that [OF r(1)]) (simp_all add: moves_def full_def)
qed

lemma resend_step:
  assumes t: "tx_side env msgID pnid msg a R K D st" and l: "length msg < 2 ^ 32" "R + 1 < no_gap"
  obtains (none) "handleDataResend env msgID st = Some st" "find_queue Qsending msgID st \<noteq> Some (Some a)"
  | (again) st' ps g where "handleDataResend env msgID st = Some st'" "sent (pkt st') = sent (pkt st) @ ps"
    "burst msgID pnid msg (int (R + 1)) (of_nat 0) 0 ps" "length ps + g \<le> 1"
    "tx_side env msgID pnid msg a (R + 1) (0 + length ps + g) (min (length msg) (0 + length ps * data_max)) st'"
    "idle env (pkt st) \<Longrightarrow> ps \<noteq> []" "ps \<noteq> [] \<longrightarrow> ph_type (pk_hdr (last ps)) \<noteq> DATA \<or> \<not> idle env (pkt st)"
proof -
  obtain qs e where e: "has env qs a e st" "sending qs msgID a st" "entry_msg env e (umem st) msg" "q_msgID e = msgID"
      "q_retries e = int R" "of_nat (length msg) \<le> q_len e" "my_pnid (pkt st) = pnid"
      "a \<in> set (qs Qsending) \<longrightarrow> q_len e = of_nat (length msg)" "dst_ok e"
    using t by (auto simp: tx_side_def)
  have s32: "s32 (q_retries e + 1) = int (R + 1)" using e(5) l(2) by (simp add: s32_def)
  show thesis
  proof (cases "a \<in> set (qs Qsending)")
    case False
    then show thesis
      using none handleDataResend_none [OF e(1,2)] find_queue_ok [of st qs Qsending msgID] sending_find [OF e(2), of Qsending] e(1)
      by (simp add: has_def)
  next
    case True
    obtain st' ps g off' e' where r: "handleDataResend env msgID st = Some st'" "moves env qs a e' ps st st'" "sending qs msgID a st'"
      "same_data (e\<lparr>q_retries := s32 (q_retries e + 1), q_seq := of_nat (length ps + g), q_datasent := of_nat off'\<rparr>) e'"
      "burst msgID (my_pnid (pkt st)) msg (s32 (q_retries e + 1)) 0 0 ps"
      "off' = min (length msg) (length ps * data_max)" "g \<le> 1" "length ps + g \<le> 1"
      "idle env (pkt st) \<Longrightarrow> dst_ok e \<Longrightarrow> ps \<noteq> []" "full env e 1 (pkt st) ps g"
      by (rule handleDataResend_moves [OF e(1,2) True e(3) l(1) e(8)[rule_format, OF True] e(4)]) (rule that)
    have "entry_msg env e' (umem st') msg" using e(3) r(2,4) by (simp add: entry_msg_def moves_def same_data_def)
    then have "tx_side env msgID pnid msg a (R + 1) (length ps + g) off' st'"
      unfolding tx_side_def using moves_has [OF r(2)] r(2-4) e(4-9) s32 True
      by (intro exI [of _ qs] exI [of _ e']) (simp add: same_data_def moves_def dst_ok_def)
    then show thesis using r e(7,9) s32 idle_space [of env "pkt st" 1 1] by (intro again [OF r(1)]) (auto simp: moves_def full_def MAX_SND_PKT_ENTRIES_def)
  qed
qed

section \<open>The receiver's step\<close>

lemma recv_data:
  assumes "data_packet msgID pnid msg r k off p" "0 \<le> pnid" "pnid < int MAX_NUM_ROUTES"
  shows "rtscts_recv env other p st = handleDATA env msgID (pk_hdr p) (pk_data p) (upd_remote (nat pnid) remote_ok st)"
proof -
  have "uint (of_int pnid :: 16 word) = pnid" using assms(2,3) by (simp add: uint_word_of_int MAX_NUM_ROUTES_def)
  then have "route (uint (ph_src_nid (pk_hdr p))) = Some (nat pnid)" using assms by (simp add: data_packet_def route_def)
  then show ?thesis using assms(1) by (auto simp: data_packet_def rtscts_recv_def unknown_pkt_def Let_def)
qed

text \<open>The check of a packet's number, in the cases of \<open>receive_packet\<close>.\<close>

lemma seq_of_num: "ph_seq (pk_hdr p) = of_nat (num p)"
  by (simp add: num_def)

lemma retries_of_rnd: "rnd p < no_gap \<Longrightarrow> s32 (uint (ph_info2 (pk_hdr p))) = int (rnd p)"
proof -
  assume r: "rnd p < no_gap"
  have u: "uint (ph_info2 (pk_hdr p)) = int (rnd p)" by (simp add: rnd_def)
  show ?thesis unfolding u s32_def using r by simp
qed

lemma of_nat_seq: "m < 2 ^ 32 \<Longrightarrow> n < 2 ^ 32 \<Longrightarrow> (of_nat m < (of_nat n :: 32 word)) = (m < n)"
  "m < 2 ^ 32 \<Longrightarrow> n < 2 ^ 32 \<Longrightarrow> (of_nat m = (of_nat n :: 32 word)) = (m = n)"
  by (simp_all add: word_less_nat_alt word_unat_eq_iff unat_32)

lemma check_restart:
  assumes "q_retries e = int r" "r < rnd p" "num p = 1" "rnd p < no_gap"
  shows "check_seq (pk_hdr p) (s32 (uint (ph_info2 (pk_hdr p)))) e = (SEQ_TAKE, q_granted_pkts e,
    e\<lparr>q_seq := 1, q_datasent := 0, q_retries := int (rnd p), q_granted_pkts := 0\<rparr>)"
  using assms by (simp add: check_seq_def retries_of_rnd seq_of_num)

lemma check_expected:
  assumes "q_retries e = int (rnd p)" "q_seq e = of_nat (num p)" "rnd p < no_gap"
  obtains n x where "check_seq (pk_hdr p) (s32 (uint (ph_info2 (pk_hdr p)))) e = (SEQ_TAKE, n, e\<lparr>q_granted_pkts := x\<rparr>)"
proof (cases "ph_type (pk_hdr p) = STOP_DATA \<or> ph_type (pk_hdr p) = LAST_DATA")
  case True
  then show ?thesis using assms by (intro that [of "q_granted_pkts e" 0]) (simp add: check_seq_def retries_of_rnd seq_of_num)
next
  case False
  then show ?thesis using assms by (intro that [of 0 "q_granted_pkts e"]) (simp add: check_seq_def retries_of_rnd seq_of_num)
qed

lemma check_missed:
  assumes e: "q_retries e = int r" "q_seq e = of_nat k" "k \<le> dead" and p: "num p < num_max" "rnd p < no_gap"
    and m: "r < rnd p \<and> num p \<noteq> 1 \<or> rnd p = r \<and> num p \<noteq> k \<and> num p \<noteq> 1 \<and> (k = dead \<or> k < num p)"
  shows "check_seq (pk_hdr p) (s32 (uint (ph_info2 (pk_hdr p)))) e = (SEQ_DROP, 0, e\<lparr>q_seq := 0x7fffffff\<rparr>)"
proof -
  have "(of_nat (num p) :: 32 word) \<noteq> 1" using m p(1) of_nat_seq(2) [of "num p" 1] by auto
  then show ?thesis
    using m e p of_nat_seq(1) [of "num p" k] of_nat_seq(1) [of k "num p"]
    by (auto simp: check_seq_def retries_of_rnd seq_of_num)
qed

lemma buffer_step:
  assumes w: "writable frame (q_buf e) (length msg)" and mm: "mm_of env (q_task e) = Some frame"
    and d: "d \<le> length msg" "length msg < 2 ^ 32" "q_datasent e = of_nat d" and fin: "\<not> q_lib_finalize_called e"
    and pre: "take d (user_bytes frame (q_buf e) (length msg) mem) = take d msg"
    and cp: "copied env e (take data_max (drop d msg)) mem mem'"
  defines "d' \<equiv> min (length msg) (d + data_max)"
  shows "take d' (user_bytes frame (q_buf e) (length msg) mem') = take d' msg"
proof -
  let ?bs = "take data_max (drop d msg)" and ?u = "user_bytes frame (q_buf e) (length msg) mem"
  have bs: "take d msg @ ?bs = take d' msg" "d + length ?bs = d'"
    using d(1) by (auto simp: d'_def min_def simp flip: take_add)
  show ?thesis
  proof (cases "?bs = []")
    case True
    then have "mem' = mem" using cp by (simp add: copied_def)
    moreover have "d' = d" using bs(2) unfolding True by simp
    ultimately show ?thesis using pre by simp
  next
    case False
    then have "stored frame (q_buf e + ucast (q_datasent e)) ?bs mem mem'"
      using cp fin mm unfolding copied_def by (auto split: if_splits)
    then have st: "stored frame (q_buf e + of_nat d) ?bs mem mem'" using d by (simp add: ucast_off)
    have le: "d + length ?bs \<le> length msg" using bs(2) by (simp add: d'_def)
    have "user_bytes frame (q_buf e) (length msg) mem' = take d ?u @ ?bs @ drop (d + length ?bs) ?u"
      by (rule stored_slice [OF w le st])
    moreover have "length (take d ?u @ ?bs) = d'" using bs(2) d(1) by simp
    ultimately have "take d' (user_bytes frame (q_buf e) (length msg) mem') = take d ?u @ ?bs"
      by (metis append.assoc append_eq_conv_conj)
    then show ?thesis using pre bs(1) by simp
  qed
qed

text \<open>The receiver's buffer when the entry \<open>e\<close> has come to offset \<open>d\<close>.\<close>

definition got :: "rts_env \<Rightarrow> 8 word list \<Rightarrow> page_tables \<Rightarrow> Qentry_t \<Rightarrow> nat \<Rightarrow> memory \<Rightarrow> bool" where
  "got env msg frame e d mem \<longleftrightarrow>
     q_len e = of_nat (length msg) \<and> mm_of env (q_task e) = Some frame \<and> writable frame (q_buf e) (length msg) \<and>
     (if q_lib_finalize_called e then user_bytes frame (q_buf e) (length msg) mem = msg
      else take d (user_bytes frame (q_buf e) (length msg) mem) = take d msg)"

lemma taken_step:
  assumes h: "has env qs b e st" and fnd: "find (\<lambda>x. msgid st x = msgID) (qs Qreceiving) = Some b"
    and chk: "check_seq (pk_hdr p) (s32 (uint (ph_info2 (pk_hdr p)))) e = (SEQ_TAKE, nb, e1)"
    and p: "data_packet msgID pnid msg i n d p" and l: "d \<le> length msg" "length msg < 2 ^ 32"
    and e1: "q_datasent e1 = of_nat d" "got env msg frame e1 d (umem st)"
  defines "d' \<equiv> min (length msg) (d + data_max)"
  obtains st' ps e' where "handleDATA env msgID (pk_hdr p) (pk_data p) st = Some st'" "sent (pkt st') = sent (pkt st) @ ps"
    "has env qs b e' st'" "\<And>x. x \<noteq> b \<Longrightarrow> ent st' x = ent st x" "same_data (e1\<lparr>q_datasent := of_nat d', q_seq := q_seq e1 + 1\<rparr>) e'"
    "got env msg frame e' d' (umem st')" "q_lib_finalize_called e1 \<Longrightarrow> q_lib_finalize_called e'"
    "(\<exists>q \<in> set ps. ph_type (pk_hdr q) = MSGEND) \<Longrightarrow> q_lib_finalize_called e'" "ph_type (pk_hdr p) = LAST_DATA \<Longrightarrow> q_lib_finalize_called e'"
    "my_pnid (pkt st') = my_pnid (pkt st)" "ph_type (pk_hdr p) = STOP_DATA \<and> idle env (pkt st) \<and> sendable (q_src_nid e1) (int sizeof_pkthdr) \<longrightarrow>
       (\<exists>c \<in> set ps. grants msgID (q_src_nid e1) (of_nat (length msg)) (my_pnid (pkt st)) c)"
proof -
  have g: "q_len e1 = of_nat (length msg)" "mm_of env (q_task e1) = Some frame" "writable frame (q_buf e1) (length msg)"
    using e1(2) by (simp_all add: got_def)
  have rm: "room env e1" "q_datasent e1 \<le> q_len e1"
    using g l e1(1) by (simp_all add: room_def unat_32 word_le_nat_alt)
  have bs: "take (unat (q_len e1 - q_datasent e1)) (pk_data p) = take data_max (drop d msg)"
    using p l g(1) e1(1) by (simp add: data_packet_def unat_32 min_def flip: of_nat_diff)
  have d': "d + length (take data_max (drop d msg)) = d'" using l by (auto simp: d'_def min_def)
  obtain st' ps e' mem where r: "handleDATA env msgID (pk_hdr p) (pk_data p) st = Some st'"
      "moves env qs b e' ps (st\<lparr>umem := mem\<rparr>) st'" "copied env e1 (take data_max (drop d msg)) (umem st) mem"
      "same_data (e1\<lparr>q_datasent := q_datasent e1 + of_nat (length (take data_max (drop d msg))), q_seq := q_seq e1 + 1\<rparr>) e'"
      "q_lib_finalize_called e' \<longleftrightarrow> q_lib_finalize_called e1 \<or> ph_type (pk_hdr p) = LAST_DATA"
      "(\<exists>q \<in> set ps. ph_type (pk_hdr q) = MSGEND) \<Longrightarrow> ph_type (pk_hdr p) = LAST_DATA"
      "ph_type (pk_hdr p) = STOP_DATA \<and> idle env (pkt st) \<and> sendable (q_src_nid e1) (int sizeof_pkthdr) \<longrightarrow>
         (\<exists>c \<in> set ps. grants msgID (q_src_nid e1) (q_len e1) (my_pnid (pkt st)) c)"
    by (rule handleDATA_moves [OF h fnd chk conjI [OF rm], where buf = "pk_data p", unfolded bs]) (simp, rule that)
  have sd: "same_data (e1\<lparr>q_datasent := of_nat d', q_seq := q_seq e1 + 1\<rparr>) e'"
    using r(4) e1(1) d' by (simp add: same_data_def flip: of_nat_add)
  have um: "umem st' = mem" using r(2) by (simp add: moves_def)
  have "take d' (user_bytes frame (q_buf e1) (length msg) mem) = take d' msg" if "\<not> q_lib_finalize_called e1"
    unfolding d'_def using e1(2) that by (intro buffer_step [OF g(3,2) l e1(1) that _ r(3)]) (simp add: got_def)
  moreover have "mem = umem st" if "q_lib_finalize_called e1" using r(3) that by (simp add: copied_def)
  moreover have "d' = length msg" if "ph_type (pk_hdr p) = LAST_DATA" using p that l by (simp add: data_packet_def d'_def)
  ultimately have "got env msg frame e' d' (umem st')"
    using e1(2) sd r(5) um by (auto simp: got_def same_data_def split: if_splits)
  then show thesis using r sd moves_has [OF r(2)] ent_cong [of "st\<lparr>umem := mem\<rparr>" st] g(1)
    by (intro that [OF r(1)]) (auto simp: moves_def)
qed

lemma rx_sideD:
  assumes "rx_side env msgID msg frame buf b r k d fin st"
  obtains qs e where "has env qs b e st" "find (\<lambda>x. msgid st x = msgID) (qs Qreceiving) = Some b" "q_msgID e = msgID"
    "q_retries e = int r" "q_seq e = of_nat k" "k \<noteq> dead \<Longrightarrow> q_datasent e = of_nat d" "q_buf e = buf" "q_lib_finalize_called e = fin"
    "q_len e = of_nat (length msg)" "mm_of env (q_task e) = Some frame" "writable frame buf (length msg)"
    "if fin then user_bytes frame buf (length msg) (umem st) = msg
     else k \<noteq> dead \<longrightarrow> take d (user_bytes frame buf (length msg) (umem st)) = take d msg"
  using assms unfolding rx_side_def by blast

lemma rx_sideI:
  assumes "has env qs b e st" "find (\<lambda>x. msgid st x = msgID) (qs Qreceiving) = Some b" "q_msgID e = msgID"
    "q_retries e = int r" "q_seq e = of_nat k" "q_datasent e = of_nat d" "q_buf e = buf" "got env msg frame e d (umem st)"
  shows "rx_side env msgID msg frame buf b r k d (q_lib_finalize_called e) st"
  unfolding rx_side_def using assms by (intro exI [of _ qs] exI [of _ e]) (auto simp: got_def)

text \<open>The node that the receiver's answers for an entry go to.\<close>

definition answered :: "nat \<Rightarrow> rts \<Rightarrow> 16 word option" where
  "answered b st = map_option q_src_nid (ent st b)"

text \<open>The entry stays where the lookup by message number finds it.\<close>

lemma find_stays:
  assumes h: "has env qs b e st" "has env qs' b e' st'" "q_msgID e' = q_msgID e" and o: "\<And>x. x \<noteq> b \<Longrightarrow> ent st' x = ent st x"
  shows "msgid st' = msgid st"
proof
  fix x
  show "msgid st' x = msgid st x" using h o [of x] by (cases "x = b") (simp_all add: msgid_def has_def)
qed

lemma rx_taken:
  assumes e: "has env qs b e st" "find (\<lambda>x. msgid st x = msgID) (qs Qreceiving) = Some b" "q_msgID e = msgID"
    and chk: "check_seq (pk_hdr p) (s32 (uint (ph_info2 (pk_hdr p)))) e = (SEQ_TAKE, nb, e1)"
    and p: "data_packet msgID pnid msg i n d p" "d \<le> length msg" and l: "length msg < 2 ^ 32"
    and e1: "q_datasent e1 = of_nat d" "got env msg frame e1 d (umem st)" "q_msgID e1 = msgID" "q_buf e1 = buf"
        "q_retries e1 = int r" "q_seq e1 = of_nat k" "q_lib_finalize_called e1 = fin"
  obtains st' ps fin' where "handleDATA env msgID (pk_hdr p) (pk_data p) st = Some st'" "sent (pkt st') = sent (pkt st) @ ps"
    "rx_side env msgID msg frame buf b r (k + 1) (min (length msg) (d + data_max)) fin' st'" "fin \<Longrightarrow> fin'"
    "(\<exists>q \<in> set ps. ph_type (pk_hdr q) = MSGEND) \<Longrightarrow> fin'" "ph_type (pk_hdr p) = LAST_DATA \<Longrightarrow> fin'"
    "my_pnid (pkt st') = my_pnid (pkt st)" "answered b st' = Some (q_src_nid e1)"
    "ph_type (pk_hdr p) = STOP_DATA \<and> idle env (pkt st) \<and> sendable (q_src_nid e1) (int sizeof_pkthdr) \<longrightarrow>
       (\<exists>c \<in> set ps. grants msgID (q_src_nid e1) (of_nat (length msg)) (my_pnid (pkt st)) c)"
proof -
  let ?d = "min (length msg) (d + data_max)"
  obtain st' ps e' where s: "handleDATA env msgID (pk_hdr p) (pk_data p) st = Some st'" "sent (pkt st') = sent (pkt st) @ ps"
    "has env qs b e' st'" "\<And>x. x \<noteq> b \<Longrightarrow> ent st' x = ent st x" "same_data (e1\<lparr>q_datasent := of_nat ?d, q_seq := q_seq e1 + 1\<rparr>) e'"
    "got env msg frame e' ?d (umem st')" "q_lib_finalize_called e1 \<Longrightarrow> q_lib_finalize_called e'"
    "(\<exists>q \<in> set ps. ph_type (pk_hdr q) = MSGEND) \<Longrightarrow> q_lib_finalize_called e'" "ph_type (pk_hdr p) = LAST_DATA \<Longrightarrow> q_lib_finalize_called e'"
    "my_pnid (pkt st') = my_pnid (pkt st)" "ph_type (pk_hdr p) = STOP_DATA \<and> idle env (pkt st) \<and> sendable (q_src_nid e1) (int sizeof_pkthdr) \<longrightarrow>
       (\<exists>c \<in> set ps. grants msgID (q_src_nid e1) (of_nat (length msg)) (my_pnid (pkt st)) c)"
    by (rule taken_step [OF e(1,2) chk p l e1(1,2)]) (rule that)
  have "msgid st' = msgid st" using e1(3) e(3) s(5) by (intro find_stays [OF e(1) s(3) _ s(4)]) (simp add: same_data_def)
  then have "rx_side env msgID msg frame buf b r (k + 1) ?d (q_lib_finalize_called e') st'"
    using e(2) s(5,6) e1 by (intro rx_sideI [OF s(3)]) (simp_all add: same_data_def)
  then show thesis
    by (rule that [OF s(1,2)]) (use s(3,5,7-11) e1(7) in \<open>auto simp: answered_def has_def same_data_def\<close>)
qed

text \<open>The receiver goes on with the packet.\<close>

definition wanted :: "nat \<Rightarrow> nat \<Rightarrow> packet \<Rightarrow> bool" where
  "wanted r k p \<longleftrightarrow> r < rnd p \<and> num p = 1 \<or> rnd p = r \<and> num p = k"

lemma data_step:
  assumes x: "rx_side env msgID msg frame buf b r k d fin st" and l: "length msg < 2 ^ 32" and pn: "0 \<le> pnid" "pnid < int MAX_NUM_ROUTES"
    and t: "tx_ok B (length msg) G R K D" and c: "chan_ok msgID pnid B msg G R K (p # ch)" and xo: "rx_ok B (length msg) G R K (p # ch) r k d"
  obtains st' r' k' d' fin' ps where "rtscts_recv env other p st = Some st'" "sent (pkt st') = sent (pkt st) @ ps"
    "rx_side env msgID msg frame buf b r' k' d' fin' st'" "rx_ok B (length msg) G R K ch r' k' d'"
    "fin \<Longrightarrow> fin'" "(\<exists>q \<in> set ps. ph_type (pk_hdr q) = MSGEND) \<Longrightarrow> fin'"
    "wanted r k p \<Longrightarrow> r' = rnd p \<and> k' = num p + 1 \<and> (ph_type (pk_hdr p) = LAST_DATA \<longrightarrow> fin')"
    "my_pnid (pkt st') = my_pnid (pkt st)" "answered b st' = answered b st"
    "\<forall>src. wanted r k p \<and> ph_type (pk_hdr p) = STOP_DATA \<and> idle env (pkt st) \<and> answered b st = Some src \<and> sendable src (int sizeof_pkthdr) \<longrightarrow>
       (\<exists>c \<in> set ps. grants msgID src (of_nat (length msg)) (my_pnid (pkt st)) c)"
proof -
  have gp: "num p < num_max" "rnd p < no_gap" "\<exists>i n off. data_packet msgID pnid msg i n off p"
    using c by (auto simp: chan_ok_def good_pkt_def)
  then have rv: "rtscts_recv env other p st = handleDATA env msgID (pk_hdr p) (pk_data p) (upd_remote (nat pnid) remote_ok st)"
    using recv_data pn by blast
  let ?st = "upd_remote (nat pnid) remote_ok st"
  note lk = rx_like [OF remote_like x, of "nat pnid" remote_ok]
  obtain qs e where e: "has env qs b e ?st" "find (\<lambda>x. msgid ?st x = msgID) (qs Qreceiving) = Some b" "q_msgID e = msgID"
    "q_retries e = int r" "q_seq e = of_nat k" "k \<noteq> dead \<Longrightarrow> q_datasent e = of_nat d" "q_buf e = buf" "q_lib_finalize_called e = fin"
    "q_len e = of_nat (length msg)" "mm_of env (q_task e) = Some frame" "writable frame buf (length msg)"
    "if fin then user_bytes frame buf (length msg) (umem ?st) = msg
     else k \<noteq> dead \<longrightarrow> take d (user_bytes frame buf (length msg) (umem ?st)) = take d msg"
    by (rule rx_sideD [OF lk(1)]) (rule that)
  have rem: "pkt ?st = pkt st" "answered b st = Some (q_src_nid e)"
    using e(1) ent_cong [of ?st st] by (simp_all add: upd_remote_def answered_def has_def)
  have kd: "k \<le> dead" using xo by (auto simp: rx_ok_def split: if_splits)
  from t c xo show thesis
  proof (cases rule: receive_packet)
    case restart
    let ?e = "e\<lparr>q_seq := 1, q_datasent := 0, q_retries := int (rnd p), q_granted_pkts := 0\<rparr>"
    have ge: "got env msg frame ?e 0 (umem ?st)" using e by (auto simp: got_def)
    have f: "q_datasent ?e = of_nat 0" "q_msgID ?e = msgID" "q_buf ?e = buf" "q_retries ?e = int (rnd p)" "q_seq ?e = of_nat 1"
      "q_lib_finalize_called ?e = fin" using e by simp_all
    obtain st' ps fin' where s: "handleDATA env msgID (pk_hdr p) (pk_data p) ?st = Some st'" "sent (pkt st') = sent (pkt ?st) @ ps"
        "rx_side env msgID msg frame buf b (rnd p) (1 + 1) (min (length msg) (0 + data_max)) fin' st'" "fin \<Longrightarrow> fin'"
        "(\<exists>q \<in> set ps. ph_type (pk_hdr q) = MSGEND) \<Longrightarrow> fin'" "ph_type (pk_hdr p) = LAST_DATA \<Longrightarrow> fin'"
        "my_pnid (pkt st') = my_pnid (pkt ?st)" "answered b st' = Some (q_src_nid ?e)"
        "ph_type (pk_hdr p) = STOP_DATA \<and> idle env (pkt ?st) \<and> sendable (q_src_nid ?e) (int sizeof_pkthdr) \<longrightarrow>
           (\<exists>c \<in> set ps. grants msgID (q_src_nid ?e) (of_nat (length msg)) (my_pnid (pkt ?st)) c)"
      by (rule rx_taken [OF e(1-3) check_restart [OF e(4) restart(1,2) gp(2)] restart(3) le0 l f(1) ge f(2-6)]) (rule that)
    have gr: "\<forall>src. wanted r k p \<and> ph_type (pk_hdr p) = STOP_DATA \<and> idle env (pkt st) \<and> answered b st = Some src \<and> sendable src (int sizeof_pkthdr) \<longrightarrow>
       (\<exists>c \<in> set ps. grants msgID src (of_nat (length msg)) (my_pnid (pkt st)) c)" using s(9) rem by auto
    show thesis using s(1-8) restart rv lk(2) rem gr by (intro that [OF _ _ s(3) _ s(4,5)]) (simp_all add: numeral_2_eq_2)
  next
    case expected
    have q: "q_retries e = int (rnd p)" "q_seq e = of_nat (num p)" using expected(1,2) e(4,5) by simp_all
    obtain n y where chk: "check_seq (pk_hdr p) (s32 (uint (ph_info2 (pk_hdr p)))) e = (SEQ_TAKE, n, e\<lparr>q_granted_pkts := y\<rparr>)"
      by (rule check_expected [OF q gp(2)]) (rule that)
    let ?e = "e\<lparr>q_granted_pkts := y\<rparr>"
    have ge: "got env msg frame ?e d (umem ?st)" using e expected(3) by (auto simp: got_def)
    have f: "q_datasent ?e = of_nat d" "q_msgID ?e = msgID" "q_buf ?e = buf" "q_retries ?e = int r" "q_seq ?e = of_nat k"
      "q_lib_finalize_called ?e = fin" "d \<le> length msg" using e expected(3,4) by simp_all
    obtain st' ps fin' where s: "handleDATA env msgID (pk_hdr p) (pk_data p) ?st = Some st'" "sent (pkt st') = sent (pkt ?st) @ ps"
        "rx_side env msgID msg frame buf b r (k + 1) (min (length msg) (d + data_max)) fin' st'" "fin \<Longrightarrow> fin'"
        "(\<exists>q \<in> set ps. ph_type (pk_hdr q) = MSGEND) \<Longrightarrow> fin'" "ph_type (pk_hdr p) = LAST_DATA \<Longrightarrow> fin'"
        "my_pnid (pkt st') = my_pnid (pkt ?st)" "answered b st' = Some (q_src_nid ?e)"
        "ph_type (pk_hdr p) = STOP_DATA \<and> idle env (pkt ?st) \<and> sendable (q_src_nid ?e) (int sizeof_pkthdr) \<longrightarrow>
           (\<exists>c \<in> set ps. grants msgID (q_src_nid ?e) (of_nat (length msg)) (my_pnid (pkt ?st)) c)"
      by (rule rx_taken [OF e(1-3) chk expected(5) f(7) l f(1) ge f(2-6)]) (rule that)
    have gr: "\<forall>src. wanted r k p \<and> ph_type (pk_hdr p) = STOP_DATA \<and> idle env (pkt st) \<and> answered b st = Some src \<and> sendable src (int sizeof_pkthdr) \<longrightarrow>
       (\<exists>c \<in> set ps. grants msgID src (of_nat (length msg)) (my_pnid (pkt st)) c)" using s(9) rem by auto
    show thesis using s(1-8) expected rv lk(2) rem gr by (intro that [OF _ _ s(3) expected(6) s(4,5)]) simp_all
  next
    case missed
    have chk: "check_seq (pk_hdr p) (s32 (uint (ph_info2 (pk_hdr p)))) e = (SEQ_DROP, 0, e\<lparr>q_seq := 0x7fffffff\<rparr>)"
      by (rule check_missed [OF e(4,5) kd gp(1,2) missed(1)])
    obtain st' where s: "handleDATA env msgID (pk_hdr p) (pk_data p) ?st = Some st'" "moves env qs b (e\<lparr>q_seq := 0x7fffffff\<rparr>) [] ?st st'"
      by (rule handleDATA_moves [OF e(1,2) chk, where buf = "pk_data p"]) auto
    have "msgid st' = msgid ?st" using s(2) by (intro find_stays [OF e(1) moves_has [OF s(2)]]) (auto simp: moves_def)
    then have "rx_side env msgID msg frame buf b r dead d fin st'"
      unfolding rx_side_def using e moves_has [OF s(2)] s(2)
      by (intro exI [of _ qs] exI [of _ "e\<lparr>q_seq := 0x7fffffff\<rparr>"]) (auto simp: moves_def)
    moreover have "\<not> wanted r k p" using missed(1) by (auto simp: wanted_def)
    moreover have "answered b st' = answered b st" using s(2) rem(2) by (auto simp: answered_def moves_def)
    ultimately show thesis using s missed(2) rv lk(2) rem by (intro that [of st' "[]" r dead d fin]) (auto simp: moves_def)
  qed
qed

end
