(* ===== verification/R_Transfer.thy ===== *)
theory R_Transfer
  imports R_Steps
begin

text \<open>
  The transfer of a message of many packets between two nodes, over a network that keeps the
  order of packets and may lose any of them, with all the code in between: the sender's and
  the receiver's handlers, the send pages, the ring and the card of both nodes.  Clear-to-send
  packets reach the sender at any time and grant any number of packets, and the sender may
  time out at any time.  The end of the message, MSGEND and GCH, a repeated announcement and
  the packets of other messages are not among the steps.
\<close>

section \<open>Two nodes and the network\<close>

text \<open>The network has delivered or lost the first \<open>taken\<close> packets of the sender's card.\<close>

record link =
  tx_node :: rts
  rx_node :: rts
  taken :: nat

text \<open>
  The numbers of the packets of one round and the number of rounds stay below the value
  \<open>0x7fffffff\<close> that the receiver uses for a round it has given up.
\<close>

definition grant_ok :: "nat \<Rightarrow> packet \<Rightarrow> rts \<Rightarrow> bool" where
  "grant_ok a p st \<longleftrightarrow>
     (\<forall>e. ent st a = Some e \<longrightarrow> unat (q_seq e) + nat (s32 (uint (ph_info2 (pk_hdr p)))) < num_max)"

definition retry_ok :: "nat \<Rightarrow> rts \<Rightarrow> bool" where
  "retry_ok a st \<longleftrightarrow> (\<forall>e. ent st a = Some e \<longrightarrow> q_retries e + 1 < int no_gap)"

inductive link_step :: "rts_env \<Rightarrow> rts_env \<Rightarrow> (packet \<Rightarrow> rts \<Rightarrow> rts option) \<Rightarrow> 32 word \<Rightarrow> nat \<Rightarrow> nat \<Rightarrow> link \<Rightarrow> link \<Rightarrow> bool"
  for senv renv other msgID L a where
  cts: "cts_pkt msgID L p \<Longrightarrow> grant_ok a p (tx_node l) \<Longrightarrow> rtscts_recv senv other p (tx_node l) = Some st \<Longrightarrow>
    link_step senv renv other msgID L a l (l\<lparr>tx_node := st\<rparr>)"
| timeout: "retry_ok a (tx_node l) \<Longrightarrow> handleDataResend senv msgID (tx_node l) = Some st \<Longrightarrow>
    link_step senv renv other msgID L a l (l\<lparr>tx_node := st\<rparr>)"
| data: "taken l < length (wire (pkt (tx_node l))) \<Longrightarrow>
    rtscts_recv renv other (wire (pkt (tx_node l)) ! taken l) (rx_node l) = Some st \<Longrightarrow>
    link_step senv renv other msgID L a l (l\<lparr>rx_node := st, taken := taken l + 1\<rparr>)"
| lose: "taken l < length (wire (pkt (tx_node l))) \<Longrightarrow>
    link_step senv renv other msgID L a l (l\<lparr>taken := taken l + 1\<rparr>)"
| tx_quiet: "quiet (tx_node l) st \<Longrightarrow> link_step senv renv other msgID L a l (l\<lparr>tx_node := st\<rparr>)"
| rx_quiet: "quiet (rx_node l) st \<Longrightarrow> link_step senv renv other msgID L a l (l\<lparr>rx_node := st\<rparr>)"

section \<open>Invariant\<close>

definition sending_ok ::
  "rts_env \<Rightarrow> 32 word \<Rightarrow> int \<Rightarrow> 8 word list \<Rightarrow> nat \<Rightarrow> nat \<Rightarrow> (nat \<Rightarrow> nat) \<Rightarrow> nat \<Rightarrow> nat \<Rightarrow> nat \<Rightarrow> rts \<Rightarrow> nat \<Rightarrow> nat \<Rightarrow> nat \<Rightarrow> nat \<Rightarrow> bool" where
  "sending_ok senv msgID pnid msg B a G R K D st n r k d \<longleftrightarrow>
     tx_ok B (length msg) G R K D \<and> chan_ok msgID pnid B msg G R K (drop n (sent (pkt st))) \<and>
     rx_ok B (length msg) G R K (drop n (sent (pkt st))) r k d \<and> tx_side senv msgID pnid msg a R K D st \<and> n \<le> length (sent (pkt st))"

definition receiving_ok ::
  "rts_env \<Rightarrow> 32 word \<Rightarrow> 8 word list \<Rightarrow> page_tables \<Rightarrow> 64 word \<Rightarrow> nat \<Rightarrow> nat \<Rightarrow> nat \<Rightarrow> nat \<Rightarrow> nat \<Rightarrow> rts \<Rightarrow> bool" where
  "receiving_ok renv msgID msg frame buf b n0 r k d st \<longleftrightarrow>
     (\<exists>fin. rx_side renv msgID msg frame buf b r k d fin st \<and> n0 \<le> length (sent (pkt st)) \<and>
        ((\<exists>q \<in> set (drop n0 (sent (pkt st))). ph_type (pk_hdr q) = MSGEND) \<longrightarrow> fin))"

definition link_inv ::
  "rts_env \<Rightarrow> rts_env \<Rightarrow> 32 word \<Rightarrow> int \<Rightarrow> 8 word list \<Rightarrow> nat \<Rightarrow> page_tables \<Rightarrow> 64 word \<Rightarrow> nat \<Rightarrow> nat \<Rightarrow> nat \<Rightarrow> link \<Rightarrow> bool" where
  "link_inv senv renv msgID pnid msg B frame buf a b n0 l \<longleftrightarrow>
     (\<exists>G R K D r k d. sending_ok senv msgID pnid msg B a G R K D (tx_node l) (taken l) r k d \<and>
        receiving_ok renv msgID msg frame buf b n0 r k d (rx_node l))"

lemma grant_bound:
  assumes "tx_side env msgID pnid msg a R K D st" "grant_ok a p st" "K < num_max"
  shows "K + nat (s32 (uint (ph_info2 (pk_hdr p)))) < num_max"
  using assms by (auto simp: tx_side_def grant_ok_def has_def unat_32)

lemma sending_cts:
  assumes i: "sending_ok senv msgID pnid msg B a G R K D st n r k d" and l: "length msg < 2 ^ 32"
    and p: "cts_pkt msgID (length msg) p" "grant_ok a p st"
  obtains st' G' ps g where "rtscts_recv senv other p st = Some st'"
    "sending_ok senv msgID pnid msg B a G' R (K + length ps + g) (min (length msg) (D + length ps * data_max)) st' n r k d"
    "sent (pkt st') = sent (pkt st) @ ps" "burst msgID pnid msg (int R) (of_nat K) D ps"
    "length ps + g \<le> nat (s32 (uint (ph_info2 (pk_hdr p))))" "find_queue Qsending msgID st' = Some (Some a)"
    "0 < s32 (uint (ph_info2 (pk_hdr p))) \<Longrightarrow> idle senv (pkt st) \<Longrightarrow> ps \<noteq> []"
    "0 < s32 (uint (ph_info2 (pk_hdr p))) \<and> s32 (uint (ph_info2 (pk_hdr p))) \<le> int MAX_SND_PKT_ENTRIES \<and> idle senv (pkt st) \<longrightarrow>
       ps \<noteq> [] \<and> g = 0 \<and> ph_type (pk_hdr (last ps)) \<noteq> DATA"
proof -
  have i': "tx_ok B (length msg) G R K D" "chan_ok msgID pnid B msg G R K (drop n (sent (pkt st)))"
     "rx_ok B (length msg) G R K (drop n (sent (pkt st))) r k d" "tx_side senv msgID pnid msg a R K D st" "n \<le> length (sent (pkt st))"
    using i by (simp_all add: sending_ok_def)
  obtain m where rv: "rtscts_recv senv other p st = handleCTS senv msgID (of_nat (length msg)) (ph_info2 (pk_hdr p)) (upd_remote m remote_ok st)"
    by (rule recv_cts [OF p(1)]) (rule that)
  note lk = tx_like [OF remote_like i'(4), of m remote_ok]
  have D: "D \<le> length msg" "K < num_max" using i'(1) by (simp_all add: tx_ok_def)
  obtain st' ps g where s: "handleCTS senv msgID (of_nat (length msg)) (ph_info2 (pk_hdr p)) (upd_remote m remote_ok st) = Some st'"
      "sent (pkt st') = sent (pkt (upd_remote m remote_ok st)) @ ps" "burst msgID pnid msg (int R) (of_nat K) D ps" "g \<le> 1"
      "length ps + g \<le> nat (s32 (uint (ph_info2 (pk_hdr p))))"
      "tx_side senv msgID pnid msg a R (K + length ps + g) (min (length msg) (D + length ps * data_max)) st'"
      "find_queue Qsending msgID st' = Some (Some a)"
      "0 < s32 (uint (ph_info2 (pk_hdr p))) \<Longrightarrow> idle senv (pkt (upd_remote m remote_ok st)) \<Longrightarrow> ps \<noteq> []"
      "0 < s32 (uint (ph_info2 (pk_hdr p))) \<and> space senv (nat (s32 (uint (ph_info2 (pk_hdr p))))) (nat (s32 (uint (ph_info2 (pk_hdr p)))))
         (pkt (upd_remote m remote_ok st)) \<longrightarrow> ps \<noteq> [] \<and> g = 0 \<and> ph_type (pk_hdr (last ps)) \<noteq> DATA"
    by (rule cts_step [OF lk(1) D(1) l]) (rule that)
  have K': "K + length ps + g < num_max" using grant_bound [OF i'(4) p(2) D(2)] s(5) by simp
  note b = send_burst [OF i'(1-3) s(3) refl K' s(4) refl]
  have "pkt (upd_remote m remote_ok st) = pkt st" by (simp add: upd_remote_def)
  then have all: "0 < s32 (uint (ph_info2 (pk_hdr p))) \<and> s32 (uint (ph_info2 (pk_hdr p))) \<le> int MAX_SND_PKT_ENTRIES \<and> idle senv (pkt st) \<longrightarrow>
      ps \<noteq> [] \<and> g = 0 \<and> ph_type (pk_hdr (last ps)) \<noteq> DATA" using s(9) idle_space [of senv "pkt st"] by auto
  show thesis
    by (rule that [of st' "new_gap G R K g (K + length ps + g)" ps g])
      (use rv s(1-8) lk(2) i'(5) b all in \<open>simp_all add: sending_ok_def upd_remote_def\<close>)
qed

lemma sending_timeout:
  assumes i: "sending_ok senv msgID pnid msg B a G R K D st n r k d" and l: "length msg < 2 ^ 32" and rt: "retry_ok a st"
  obtains (none) "handleDataResend senv msgID st = Some st" "find_queue Qsending msgID st \<noteq> Some (Some a)"
  | (again) st' G' ps g where "handleDataResend senv msgID st = Some st'"
    "sending_ok senv msgID pnid msg B a G' (R + 1) (length ps + g) (min (length msg) (length ps * data_max)) st' n r k d"
    "sent (pkt st') = sent (pkt st) @ ps" "burst msgID pnid msg (int (R + 1)) 0 0 ps" "length ps + g \<le> 1"
    "idle senv (pkt st) \<Longrightarrow> ps \<noteq> []" "ps \<noteq> [] \<longrightarrow> ph_type (pk_hdr (last ps)) \<noteq> DATA \<or> \<not> idle senv (pkt st)"
proof -
  have i': "tx_ok B (length msg) G R K D" "chan_ok msgID pnid B msg G R K (drop n (sent (pkt st)))"
     "rx_ok B (length msg) G R K (drop n (sent (pkt st))) r k d" "tx_side senv msgID pnid msg a R K D st" "n \<le> length (sent (pkt st))"
    using i by (simp_all add: sending_ok_def)
  have R: "R + 1 < no_gap" using i'(4) rt by (auto simp: tx_side_def retry_ok_def has_def)
  from i'(4) l R show thesis
  proof (cases rule: resend_step)
    case 1: none
    then show thesis by (rule none)
  next
    case 2: (again st' ps g)
    note o = start_over [OF i'(1) R]
    have g: "0 + length ps + g < num_max" "g \<le> 1" using 2(4) by simp_all
    note b = send_burst [OF o(1) o(2) [OF i'(2)] o(3) [OF i'(3)] 2(3) refl g refl]
    show thesis
      by (rule again [of st' "new_gap G (R + 1) 0 g (0 + length ps + g)" ps g])
        (use 2 i'(5) b in \<open>simp_all add: sending_ok_def\<close>)
  qed
qed

lemma next_packet:
  assumes "n < length (wire (pkt st))"
  shows "drop n (sent (pkt st)) = wire (pkt st) ! n # drop (n + 1) (sent (pkt st))" "n + 1 \<le> length (sent (pkt st))"
  using assms Cons_nth_drop_Suc [of n "sent (pkt st)"] by (simp_all add: sent_def nth_append)

lemma sending_lose:
  assumes i: "sending_ok senv msgID pnid msg B a G R K D st n r k d" and n: "n < length (wire (pkt st))"
  shows "sending_ok senv msgID pnid msg B a G R K D st (n + 1) r k d"
  using i lose_packet next_packet [OF n] unfolding sending_ok_def by metis

text \<open>The library of the receiver has been told that the message is there.\<close>

definition complete :: "nat \<Rightarrow> rts \<Rightarrow> bool" where
  "complete b st \<longleftrightarrow> (\<exists>e. ent st b = Some e \<and> q_lib_finalize_called e)"

lemma rx_complete: "rx_side env msgID msg frame buf b r k d fin st \<Longrightarrow> complete b st \<longleftrightarrow> fin"
  by (auto simp: rx_side_def complete_def has_def)

lemma data_ok:
  assumes i: "sending_ok senv msgID pnid msg B a G R K D st n r k d" and n: "n < length (wire (pkt st))"
    and x: "receiving_ok renv msgID msg frame buf b n0 r k d rst" and l: "length msg < 2 ^ 32" and pn: "0 \<le> pnid" "pnid < int MAX_NUM_ROUTES"
  obtains rst' r' k' d' ps where "rtscts_recv renv other (wire (pkt st) ! n) rst = Some rst'"
    "sending_ok senv msgID pnid msg B a G R K D st (n + 1) r' k' d'" "receiving_ok renv msgID msg frame buf b n0 r' k' d' rst'"
    "wanted r k (wire (pkt st) ! n) \<Longrightarrow> r' = rnd (wire (pkt st) ! n) \<and> k' = num (wire (pkt st) ! n) + 1 \<and>
       (ph_type (pk_hdr (wire (pkt st) ! n)) = LAST_DATA \<longrightarrow> complete b rst')"
    "sent (pkt rst') = sent (pkt rst) @ ps" "my_pnid (pkt rst') = my_pnid (pkt rst)" "answered b rst' = answered b rst"
    "\<forall>src. wanted r k (wire (pkt st) ! n) \<and> ph_type (pk_hdr (wire (pkt st) ! n)) = STOP_DATA \<and> idle renv (pkt rst) \<and> answered b rst = Some src \<and>
       sendable src (int sizeof_pkthdr) \<longrightarrow> (\<exists>c \<in> set ps. grants msgID src (of_nat (length msg)) (my_pnid (pkt rst)) c)"
proof -
  have i': "tx_ok B (length msg) G R K D" "chan_ok msgID pnid B msg G R K (wire (pkt st) ! n # drop (n + 1) (sent (pkt st)))"
     "rx_ok B (length msg) G R K (wire (pkt st) ! n # drop (n + 1) (sent (pkt st))) r k d"
    using i next_packet(1) [OF n] by (simp_all add: sending_ok_def)
  obtain fin where f: "rx_side renv msgID msg frame buf b r k d fin rst" "n0 \<le> length (sent (pkt rst))"
      "(\<exists>q \<in> set (drop n0 (sent (pkt rst))). ph_type (pk_hdr q) = MSGEND) \<longrightarrow> fin"
    using x by (auto simp: receiving_ok_def)
  obtain rst' r' k' d' fin' ps where s: "rtscts_recv renv other (wire (pkt st) ! n) rst = Some rst'" "sent (pkt rst') = sent (pkt rst) @ ps"
    "rx_side renv msgID msg frame buf b r' k' d' fin' rst'" "rx_ok B (length msg) G R K (drop (n + 1) (sent (pkt st))) r' k' d'"
    "fin \<Longrightarrow> fin'" "(\<exists>q \<in> set ps. ph_type (pk_hdr q) = MSGEND) \<Longrightarrow> fin'"
    "wanted r k (wire (pkt st) ! n) \<Longrightarrow> r' = rnd (wire (pkt st) ! n) \<and> k' = num (wire (pkt st) ! n) + 1 \<and>
       (ph_type (pk_hdr (wire (pkt st) ! n)) = LAST_DATA \<longrightarrow> fin')"
    "my_pnid (pkt rst') = my_pnid (pkt rst)" "answered b rst' = answered b rst"
    "\<forall>src. wanted r k (wire (pkt st) ! n) \<and> ph_type (pk_hdr (wire (pkt st) ! n)) = STOP_DATA \<and> idle renv (pkt rst) \<and> answered b rst = Some src \<and>
       sendable src (int sizeof_pkthdr) \<longrightarrow> (\<exists>c \<in> set ps. grants msgID src (of_nat (length msg)) (my_pnid (pkt rst)) c)"
    by (rule data_step [OF f(1) l pn i']) (rule that)
  have "sending_ok senv msgID pnid msg B a G R K D st (n + 1) r' k' d'"
    using i i'(2) s(4) next_packet(2) [OF n] lose_packet(1) unfolding sending_ok_def by blast
  moreover have "receiving_ok renv msgID msg frame buf b n0 r' k' d' rst'"
    unfolding receiving_ok_def using f s(2,3,5,6) by (intro exI [of _ fin']) auto
  ultimately show thesis by (rule that [OF s(1) _ _ _ s(2,8-10)]) (use s(7) rx_complete [OF s(3)] in simp)
qed

lemma quiet_sending:
  assumes "sending_ok senv msgID pnid msg B a G R K D st n r k d" "quiet st st'"
  shows "sending_ok senv msgID pnid msg B a G R K D st' n r k d"
  using assms tx_like [OF quiet_like [OF assms(2)]] unfolding sending_ok_def by metis

lemma quiet_receiving:
  assumes "receiving_ok renv msgID msg frame buf b n0 r k d st" "quiet st st'"
  shows "receiving_ok renv msgID msg frame buf b n0 r k d st'"
  using assms rx_like [OF quiet_like [OF assms(2)]] unfolding receiving_ok_def by metis

lemma link_step_inv:
  assumes s: "link_step senv renv other msgID (length msg) a l l'" and i: "link_inv senv renv msgID pnid msg B frame buf a b n0 l"
    and l: "length msg < 2 ^ 32" and pn: "0 \<le> pnid" "pnid < int MAX_NUM_ROUTES"
  shows "link_inv senv renv msgID pnid msg B frame buf a b n0 l'"
proof -
  obtain G R K D r k d where x: "sending_ok senv msgID pnid msg B a G R K D (tx_node l) (taken l) r k d"
      "receiving_ok renv msgID msg frame buf b n0 r k d (rx_node l)" using i by (auto simp: link_inv_def)
  from s show ?thesis
  proof cases
    case (cts p st)
    obtain st' G' K' D' where "rtscts_recv senv other p (tx_node l) = Some st'"
        "sending_ok senv msgID pnid msg B a G' R K' D' st' (taken l) r k d"
      by (rule sending_cts [OF x(1) l cts(2,3)]) (rule that)
    then show ?thesis using cts x(2) by (simp add: link_inv_def) blast
  next
    case (timeout st)
    obtain st' G' R' K' D' where "handleDataResend senv msgID (tx_node l) = Some st'"
        "sending_ok senv msgID pnid msg B a G' R' K' D' st' (taken l) r k d"
      by (rule sending_timeout [OF x(1) l timeout(2)]) (use x(1) that in blast)+
    then show ?thesis using timeout x(2) by (simp add: link_inv_def) blast
  next
    case (data st)
    obtain rst' r' k' d' where "rtscts_recv renv other (wire (pkt (tx_node l)) ! taken l) (rx_node l) = Some rst'"
        "sending_ok senv msgID pnid msg B a G R K D (tx_node l) (taken l + 1) r' k' d'" "receiving_ok renv msgID msg frame buf b n0 r' k' d' rst'"
      by (rule data_ok [OF x(1) data(2) x(2) l pn]) (rule that)
    then show ?thesis using data by (simp add: link_inv_def) blast
  next
    case lose
    then show ?thesis using sending_lose [OF x(1)] x(2) by (simp add: link_inv_def) blast
  next
    case (tx_quiet st)
    then show ?thesis using quiet_sending [OF x(1)] x(2) by (simp add: link_inv_def) blast
  next
    case (rx_quiet st)
    then show ?thesis using quiet_receiving [OF x(2)] x(1) by (simp add: link_inv_def) blast
  qed
qed

section \<open>The start of a transfer\<close>

text \<open>
  The announcement of the message, with its first \<open>B\<close> bytes, has been received: the sender
  waits for a clear-to-send packet and the receiver has an entry for the rest.
\<close>

definition start_ok ::
  "rts_env \<Rightarrow> rts_env \<Rightarrow> 32 word \<Rightarrow> int \<Rightarrow> 8 word list \<Rightarrow> nat \<Rightarrow> page_tables \<Rightarrow> 64 word \<Rightarrow> nat \<Rightarrow> nat \<Rightarrow> link \<Rightarrow> bool" where
  "start_ok senv renv msgID pnid msg B frame buf a b l \<longleftrightarrow>
     length msg < 2 ^ 32 \<and> B \<le> length msg \<and> 0 \<le> pnid \<and> pnid < int MAX_NUM_ROUTES \<and> taken l = length (sent (pkt (tx_node l))) \<and>
     tx_side senv msgID pnid msg a 0 0 B (tx_node l) \<and> rx_side renv msgID msg frame buf b 0 1 B False (rx_node l)"

lemma start_inv:
  assumes "start_ok senv renv msgID pnid msg B frame buf a b l"
  shows "link_inv senv renv msgID pnid msg B frame buf a b (length (sent (pkt (rx_node l)))) l"
proof -
  have p: "pos B (length msg) 0 1 = B" using assms by (simp add: pos_def start_ok_def)
  have "sending_ok senv msgID pnid msg B a (\<lambda>_. no_gap) 0 0 B (tx_node l) (taken l) 0 1 B"
    using assms p by (simp add: sending_ok_def start_ok_def tx_ok_def chan_ok_def rx_ok_def)
  moreover have "receiving_ok renv msgID msg frame buf b (length (sent (pkt (rx_node l)))) 0 1 B (rx_node l)"
    using assms unfolding receiving_ok_def start_ok_def by (intro exI [of _ False]) simp
  ultimately show ?thesis unfolding link_inv_def by blast
qed

lemma reach_inv:
  assumes "start_ok senv renv msgID pnid msg B frame buf a b l" "(link_step senv renv other msgID (length msg) a)\<^sup>*\<^sup>* l l'"
  shows "link_inv senv renv msgID pnid msg B frame buf a b (length (sent (pkt (rx_node l)))) l'"
  using assms(2)
proof induction
  case base
  show ?case by (rule start_inv [OF assms(1)])
next
  case (step y z)
  then show ?case using link_step_inv [OF step(2,3)] assms(1) by (simp add: start_ok_def)
qed

end
