(* ===== verification/R_Drain.thy ===== *)
theory R_Drain
  imports R_Transfer
begin

text \<open>
  The card sends what the ring holds: from every state its own steps lead to an empty ring,
  in which the next packets are accepted.  These steps leave the two sides of a transfer
  where they are.
\<close>

section \<open>The card empties the ring\<close>

text \<open>The card's steps for one packet when bus and network are ready.\<close>

definition card_turn :: "snd_st \<Rightarrow> snd_st" where
  "card_turn s = snd_statem True True True (e2l_dma_done (snd_statem True True True s))"

lemma snd_statem_wire: "length (wire s) \<le> length (wire (snd_statem a b c s))"
  by (simp add: snd_statem_def snd_S0_def snd_S1_def snd_S2_def Let_def split: snd_states_t.split option.split)

lemma dma_wire [simp]: "wire (e2l_dma_done s) = wire s"
  by (simp add: e2l_dma_done_def)

lemma card_turn_sends:
  assumes "ring_inv vtb k s" "0 < k"
  shows "length (wire s) < length (wire (card_turn s))"
proof -
  have busy: "phys_at s (last_snd_pkt s) \<noteq> 0"
    using span_busy [of k s 0] card_pos0 [of k s] assms by (simp add: ring_inv_def)
  let ?s1 = "snd_statem True True True s"
  consider (out) "length (wire s) < length (wire ?s1)" | (wait) "wire ?s1 = wire s" "SndState ?s1 = S2" "snd_buf ?s1 = None"
    using busy by (cases "SndState s"; cases "snd_buf s") (simp_all add: snd_statem_def snd_S0_def snd_S1_def snd_S2_def Let_def)
  then show ?thesis
  proof cases
    case out
    then show ?thesis using snd_statem_wire [of "e2l_dma_done ?s1" True True True] by (simp add: card_turn_def)
  next
    case wait
    then have "wire (card_turn s) = wire s @ [packet_of (cur_dest ?s1) (cur_len ?s1) (frames ?s1 (hst_addr ?s1))]"
      by (simp add: card_turn_def e2l_dma_done_def snd_statem_def [of True True True "_\<lparr>snd_buf := _\<rparr>"] snd_S2_def)
    then show ?thesis by simp
  qed
qed

lemma card_turn_ok: "card_ok vtb ps s \<Longrightarrow> card_ok vtb ps (card_turn s)"
  by (simp add: card_turn_def snd_statem_ok e2l_dma_done_ok)

lemma turn_quiet: "quiet\<^sup>*\<^sup>* st (st\<lparr>pkt := card_turn (pkt st)\<rparr>)"
proof -
  let ?st1 = "st\<lparr>pkt := snd_statem True True True (pkt st)\<rparr>"
  let ?st2 = "?st1\<lparr>pkt := e2l_dma_done (pkt ?st1)\<rparr>"
  let ?st3 = "?st2\<lparr>pkt := snd_statem True True True (pkt ?st2)\<rparr>"
  have "quiet st ?st1" "quiet ?st1 ?st2" "quiet ?st2 ?st3" by (rule quiet.card quiet.dma)+
  then have "quiet\<^sup>*\<^sup>* st ?st3" by (meson rtranclp.rtrancl_into_rtrancl rtranclp.rtrancl_refl)
  then show ?thesis by (simp add: card_turn_def)
qed

lemma drain_card:
  assumes "card_ok vtb ps (pkt st)"
  shows "\<exists>st'. quiet\<^sup>*\<^sup>* st st' \<and> ring_inv vtb 0 (pkt st')"
  using assms
proof (induction "length (queued (pkt st))" arbitrary: st rule: less_induct)
  case less
  obtain k where k: "ring_inv vtb k (pkt st)" "wire (pkt st) @ queued (pkt st) = ps" using less.prems by (auto simp: card_ok_def)
  show ?case
  proof (cases "k = 0")
    case True
    then show ?thesis using k(1) by blast
  next
    case False
    let ?st = "st\<lparr>pkt := card_turn (pkt st)\<rparr>"
    have ok: "card_ok vtb ps (pkt ?st)" using card_turn_ok [OF less.prems] by simp
    then have "length (wire (pkt ?st) @ queued (pkt ?st)) = length (wire (pkt st) @ queued (pkt st))" using k(2) by (simp add: card_ok_def)
    then have "length (queued (pkt ?st)) < length (queued (pkt st))" using card_turn_sends [OF k(1)] False by simp
    from less.hyps [OF this ok] show ?thesis using turn_quiet rtranclp_trans by metis
  qed
qed

lemma drain:
  assumes "ring_ok env (pkt st)"
  obtains st' where "quiet\<^sup>*\<^sup>* st st'" "idle env (pkt st')" "wire (pkt st') = sent (pkt st')"
proof -
  obtain st1 where s: "quiet\<^sup>*\<^sup>* st st1" "ring_inv (virt_to_bus env) 0 (pkt st1)" using drain_card assms ring_ok_card by metis
  let ?st = "st1\<lparr>pkt := (pkt st1)\<lparr>rdy_to_snd := True\<rparr>\<rparr>"
  have inv: "ring_inv (virt_to_bus env) 0 (pkt ?st)" using ready_ok [OF s(2)] by simp
  have "quiet\<^sup>*\<^sup>* st ?st" using s(1) quiet.ready by (rule rtranclp.rtrancl_into_rtrancl)
  moreover have "idle env (pkt ?st)" using inv by (simp add: idle_def)
  moreover have "wire (pkt ?st) = sent (pkt ?st)" using ring_length [OF inv] by (simp add: sent_def)
  ultimately show thesis by (rule that)
qed

section \<open>The sides of a transfer\<close>

lemma quiets_sending:
  assumes "quiet\<^sup>*\<^sup>* st st'" "sending_ok senv msgID pnid msg B a G R K D st n r k d"
  shows "sending_ok senv msgID pnid msg B a G R K D st' n r k d" "sent (pkt st') = sent (pkt st)"
    "find_queue Q m st' = find_queue Q m st"
  using assms
proof (induction rule: rtranclp_induct)
  case (step y z)
  { case 1 then show ?case using step quiet_sending by blast }
  { case 2
    then have "tx_side senv msgID pnid msg a R K D y" using step(3) by (simp add: sending_ok_def)
    then show ?case using tx_like(2) [OF quiet_like [OF step(2)]] step(4) 2 by metis }
  { case 3 then show ?case using step quiet_same [OF step(2)] by (simp add: find_queue_def) }
qed simp_all

lemma quiets_receiving:
  assumes "quiet\<^sup>*\<^sup>* st st'" "receiving_ok renv msgID msg frame buf b n0 r k d st"
  shows "receiving_ok renv msgID msg frame buf b n0 r k d st'" "sent (pkt st') = sent (pkt st)"
    "my_pnid (pkt st') = my_pnid (pkt st)" "answered b st' = answered b st"
  using assms
proof (induction rule: rtranclp_induct)
  case (step y z)
  { case 1 then show ?case using step quiet_receiving by blast }
  { case 2
    then have "ring_ok renv (pkt y)" using step(3) by (auto simp: receiving_ok_def rx_side_def has_def)
    then show ?case using quiet_ring(2) [OF step(2)] step(4) 2 by metis }
  { case 3
    then have "ring_ok renv (pkt y)" using step(3) by (auto simp: receiving_ok_def rx_side_def has_def)
    then show ?case using quiet_ring(3) [OF step(2)] step(5) 3 by metis }
  { case 4 then show ?case using step(6) quiet_same(5) [OF step(2)] by (simp add: answered_def) }
qed simp_all

lemma sending_loses:
  assumes "sending_ok senv msgID pnid msg B a G R K D st n r k d" "n \<le> m" "m \<le> length (wire (pkt st))"
  shows "sending_ok senv msgID pnid msg B a G R K D st m r k d"
  using assms(2,3)
proof (induction rule: dec_induct)
  case base
  show ?case by (rule assms(1))
next
  case (step j)
  then show ?case using sending_lose [of senv msgID pnid msg B a G R K D st j r k d] by simp
qed

end
