(* ===== verification/R_Net.thy ===== *)
theory R_Net
  imports R_Drain
begin

text \<open>
  The two nodes of a transfer when no packet comes from elsewhere: a clear-to-send packet that
  reaches the sender is one that the receiver's card has sent to it, in order; packets of both
  directions may be lost.  A transfer that has started can always be completed: after a timeout
  the first packet of the new round asks for more, the receiver answers with a grant, the
  sender's card takes all the packets of a grant when its ring is empty, and the last of them
  asks for more again or is the end of the message.
\<close>

section \<open>The nodes and both directions of the network\<close>

text \<open>The network has delivered or lost the first \<open>given\<close> packets of the receiver's card.\<close>

record net =
  ends :: link
  given :: nat

inductive net_step :: "rts_env \<Rightarrow> rts_env \<Rightarrow> (packet \<Rightarrow> rts \<Rightarrow> rts option) \<Rightarrow> 32 word \<Rightarrow> nat \<Rightarrow> nat \<Rightarrow> net \<Rightarrow> net \<Rightarrow> bool"
  for senv renv other msgID L a where
  reply: "given n < length (wire (pkt (rx_node (ends n)))) \<Longrightarrow> c = wire (pkt (rx_node (ends n))) ! given n \<Longrightarrow>
    pk_dest c = my_pnid (pkt (tx_node (ends n))) \<Longrightarrow> cts_pkt msgID L c \<Longrightarrow> grant_ok a c (tx_node (ends n)) \<Longrightarrow>
    rtscts_recv senv other c (tx_node (ends n)) = Some st \<Longrightarrow>
    net_step senv renv other msgID L a n (n\<lparr>ends := (ends n)\<lparr>tx_node := st\<rparr>, given := given n + 1\<rparr>)"
| reply_lost: "given n < length (wire (pkt (rx_node (ends n)))) \<Longrightarrow>
    net_step senv renv other msgID L a n (n\<lparr>given := given n + 1\<rparr>)"
| timeout: "retry_ok a (tx_node (ends n)) \<Longrightarrow> handleDataResend senv msgID (tx_node (ends n)) = Some st \<Longrightarrow>
    net_step senv renv other msgID L a n (n\<lparr>ends := (ends n)\<lparr>tx_node := st\<rparr>\<rparr>)"
| data: "taken (ends n) < length (wire (pkt (tx_node (ends n)))) \<Longrightarrow>
    rtscts_recv renv other (wire (pkt (tx_node (ends n))) ! taken (ends n)) (rx_node (ends n)) = Some st \<Longrightarrow>
    net_step senv renv other msgID L a n (n\<lparr>ends := (ends n)\<lparr>rx_node := st, taken := taken (ends n) + 1\<rparr>\<rparr>)"
| lose: "taken (ends n) < length (wire (pkt (tx_node (ends n)))) \<Longrightarrow>
    net_step senv renv other msgID L a n (n\<lparr>ends := (ends n)\<lparr>taken := taken (ends n) + 1\<rparr>\<rparr>)"
| tx_quiet: "quiet (tx_node (ends n)) st \<Longrightarrow> net_step senv renv other msgID L a n (n\<lparr>ends := (ends n)\<lparr>tx_node := st\<rparr>\<rparr>)"
| rx_quiet: "quiet (rx_node (ends n)) st \<Longrightarrow> net_step senv renv other msgID L a n (n\<lparr>ends := (ends n)\<lparr>rx_node := st\<rparr>\<rparr>)"

text \<open>Every step is one of the transfer in which clear-to-send packets come from anywhere.\<close>

lemma net_link:
  assumes "net_step senv renv other msgID L a n n'"
  shows "(link_step senv renv other msgID L a)\<^sup>*\<^sup>* (ends n) (ends n')"
  using assms
proof cases
  case (reply c st)
  then show ?thesis using link_step.cts [of msgID L c a "ends n"] by auto
next
  case reply_lost
  then show ?thesis by simp
next
  case (timeout st)
  then show ?thesis using link_step.timeout [of a "ends n"] by auto
next
  case (data st)
  then show ?thesis using link_step.data [of "ends n"] by auto
next
  case lose
  then show ?thesis using link_step.lose [of "ends n"] by auto
next
  case (tx_quiet st)
  then show ?thesis using link_step.tx_quiet [of "ends n"] by auto
next
  case (rx_quiet st)
  then show ?thesis using link_step.rx_quiet [of "ends n"] by auto
qed

lemma net_links: "(net_step senv renv other msgID L a)\<^sup>*\<^sup>* n n' \<Longrightarrow> (link_step senv renv other msgID L a)\<^sup>*\<^sup>* (ends n) (ends n')"
  by (induction rule: rtranclp_induct) (auto intro: rtranclp_trans net_link)

section \<open>Invariant\<close>

text \<open>What is fixed during a transfer.\<close>

record conn =
  cn_senv :: rts_env
  cn_renv :: rts_env
  cn_other :: "packet \<Rightarrow> rts \<Rightarrow> rts option"
  cn_id :: "32 word"
  cn_pnid :: int
  cn_msg :: "8 word list"
  cn_first :: nat
  cn_frame :: page_tables
  cn_buf :: "64 word"
  cn_tx :: nat
  cn_rx :: nat
  cn_before :: nat
  cn_rpnid :: int

text \<open>Both nodes have a route to the other, and the length of the message is that of a message.\<close>

definition conn_ok :: "conn \<Rightarrow> bool" where
  "conn_ok c \<longleftrightarrow> length (cn_msg c) < 2 ^ 32 \<and> 0 \<le> cn_pnid c \<and> cn_pnid c < int MAX_NUM_ROUTES \<and>
     0 \<le> cn_rpnid c \<and> cn_rpnid c < int MAX_NUM_ROUTES"

abbreviation steps :: "conn \<Rightarrow> net \<Rightarrow> net \<Rightarrow> bool" where
  "steps c \<equiv> (net_step (cn_senv c) (cn_renv c) (cn_other c) (cn_id c) (length (cn_msg c)) (cn_tx c))\<^sup>*\<^sup>*"

abbreviation tx_of :: "net \<Rightarrow> rts" where "tx_of n \<equiv> tx_node (ends n)"
abbreviation rx_of :: "net \<Rightarrow> rts" where "rx_of n \<equiv> rx_node (ends n)"

abbreviation tx_good :: "conn \<Rightarrow> (nat \<Rightarrow> nat) \<Rightarrow> nat \<Rightarrow> nat \<Rightarrow> nat \<Rightarrow> nat \<Rightarrow> nat \<Rightarrow> nat \<Rightarrow> net \<Rightarrow> bool" where
  "tx_good c G R K D r k d n \<equiv>
     sending_ok (cn_senv c) (cn_id c) (cn_pnid c) (cn_msg c) (cn_first c) (cn_tx c) G R K D (tx_of n) (taken (ends n)) r k d"

abbreviation rx_good :: "conn \<Rightarrow> nat \<Rightarrow> nat \<Rightarrow> nat \<Rightarrow> rts \<Rightarrow> bool" where
  "rx_good c r k d st \<equiv> receiving_ok (cn_renv c) (cn_id c) (cn_msg c) (cn_frame c) (cn_buf c) (cn_rx c) (cn_before c) r k d st"

text \<open>The receiver's answers go to the sender, and carry the receiver's number.\<close>

definition answers_to :: "conn \<Rightarrow> rts \<Rightarrow> bool" where
  "answers_to c st \<longleftrightarrow> answered (cn_rx c) st = Some (of_int (cn_pnid c)) \<and> my_pnid (pkt st) = cn_rpnid c"

definition net_ok :: "conn \<Rightarrow> (nat \<Rightarrow> nat) \<Rightarrow> nat \<Rightarrow> nat \<Rightarrow> nat \<Rightarrow> nat \<Rightarrow> nat \<Rightarrow> nat \<Rightarrow> net \<Rightarrow> bool" where
  "net_ok c G R K D r k d n \<longleftrightarrow>
     tx_good c G R K D r k d n \<and> rx_good c r k d (rx_of n) \<and> answers_to c (rx_of n) \<and> given n \<le> length (sent (pkt (rx_of n)))"

text \<open>The packets of the sender that are under way, and those of the receiver.\<close>

definition out :: "net \<Rightarrow> packet list" where
  "out n = drop (taken (ends n)) (sent (pkt (tx_of n)))"

definition home :: "net \<Rightarrow> packet list" where
  "home n = drop (given n) (sent (pkt (rx_of n)))"

lemma net_step_ok:
  assumes s: "net_step (cn_senv c) (cn_renv c) other (cn_id c) (length (cn_msg c)) (cn_tx c) n n'" and c: "conn_ok c"
    and i: "net_ok c G R K D r k d n"
  shows "\<exists>G R K D r k d. net_ok c G R K D r k d n'"
proof -
  have x: "tx_good c G R K D r k d n" "rx_good c r k d (rx_of n)" "answers_to c (rx_of n)" "given n \<le> length (sent (pkt (rx_of n)))"
    using i by (simp_all add: net_ok_def)
  have l: "length (cn_msg c) < 2 ^ 32" "0 \<le> cn_pnid c" "cn_pnid c < int MAX_NUM_ROUTES" using c by (simp_all add: conn_ok_def)
  from s show ?thesis
  proof cases
    case (reply p st)
    obtain st' G' K' D' where "rtscts_recv (cn_senv c) other p (tx_of n) = Some st'"
        "sending_ok (cn_senv c) (cn_id c) (cn_pnid c) (cn_msg c) (cn_first c) (cn_tx c) G' R K' D' st' (taken (ends n)) r k d"
      by (rule sending_cts [OF x(1) l(1) reply(5,6)]) (rule that)
    then have "net_ok c G' R K' D' r k d n'" using reply x by (simp add: net_ok_def sent_def)
    then show ?thesis by blast
  next
    case reply_lost
    then have "net_ok c G R K D r k d n'" using x by (simp add: net_ok_def sent_def)
    then show ?thesis by blast
  next
    case (timeout st)
    obtain st' G' R' K' D' where "handleDataResend (cn_senv c) (cn_id c) (tx_of n) = Some st'"
        "sending_ok (cn_senv c) (cn_id c) (cn_pnid c) (cn_msg c) (cn_first c) (cn_tx c) G' R' K' D' st' (taken (ends n)) r k d"
      by (rule sending_timeout [OF x(1) l(1) timeout(2)]) (use x(1) that in blast)+
    then have "net_ok c G' R' K' D' r k d n'" using timeout x by (simp add: net_ok_def)
    then show ?thesis by blast
  next
    case (data st)
    obtain rst' r' k' d' ps where "rtscts_recv (cn_renv c) other (wire (pkt (tx_of n)) ! taken (ends n)) (rx_of n) = Some rst'"
        "sending_ok (cn_senv c) (cn_id c) (cn_pnid c) (cn_msg c) (cn_first c) (cn_tx c) G R K D (tx_of n) (taken (ends n) + 1) r' k' d'"
        "rx_good c r' k' d' rst'" "sent (pkt rst') = sent (pkt (rx_of n)) @ ps" "my_pnid (pkt rst') = my_pnid (pkt (rx_of n))"
        "answered (cn_rx c) rst' = answered (cn_rx c) (rx_of n)"
      by (rule data_ok [OF x(1) data(2) x(2) l]) (rule that)
    then have "net_ok c G R K D r' k' d' n'" using data x(3,4) by (simp add: net_ok_def answers_to_def)
    then show ?thesis by blast
  next
    case lose
    then have "net_ok c G R K D r k d n'" using x sending_lose [OF x(1)] by (simp add: net_ok_def)
    then show ?thesis by blast
  next
    case (tx_quiet st)
    then have "net_ok c G R K D r k d n'" using x quiet_sending [OF x(1)] by (simp add: net_ok_def)
    then show ?thesis by blast
  next
    case (rx_quiet st)
    then have "net_ok c G R K D r k d n'"
      using x quiets_receiving [OF r_into_rtranclp [of quiet, OF rx_quiet(2)] x(2)] by (simp add: net_ok_def answers_to_def)
    then show ?thesis by blast
  qed
qed

lemma steps_ok:
  assumes "steps c n n'" "conn_ok c" "\<exists>G R K D r k d. net_ok c G R K D r k d n"
  shows "\<exists>G R K D r k d. net_ok c G R K D r k d n'"
  using assms
proof (induction rule: rtranclp_induct)
  case (step y z)
  then show ?case using net_step_ok [OF step(2)] by blast
qed blast

end
