(* ===== verification/R_Finish.thy ===== *)
theory R_Finish
  imports R_Net
begin

text \<open>The steps that complete a transfer.\<close>

section \<open>Both cards empty their rings\<close>

lemma tx_quiets:
  assumes "quiet\<^sup>*\<^sup>* (tx_of n) st"
  shows "steps c n (n\<lparr>ends := (ends n)\<lparr>tx_node := st\<rparr>\<rparr>)"
  using assms
proof (induction rule: rtranclp_induct)
  case (step y z)
  let ?n = "n\<lparr>ends := (ends n)\<lparr>tx_node := y\<rparr>\<rparr>"
  have "net_step (cn_senv c) (cn_renv c) (cn_other c) (cn_id c) (length (cn_msg c)) (cn_tx c) ?n (?n\<lparr>ends := (ends ?n)\<lparr>tx_node := z\<rparr>\<rparr>)"
    using step(2) by (intro net_step.tx_quiet) simp
  then show ?case using step(3) by (simp add: rtranclp.rtrancl_into_rtrancl)
qed simp

lemma rx_quiets:
  assumes "quiet\<^sup>*\<^sup>* (rx_of n) st"
  shows "steps c n (n\<lparr>ends := (ends n)\<lparr>rx_node := st\<rparr>\<rparr>)"
  using assms
proof (induction rule: rtranclp_induct)
  case (step y z)
  let ?n = "n\<lparr>ends := (ends n)\<lparr>rx_node := y\<rparr>\<rparr>"
  have "net_step (cn_senv c) (cn_renv c) (cn_other c) (cn_id c) (length (cn_msg c)) (cn_tx c) ?n (?n\<lparr>ends := (ends ?n)\<lparr>rx_node := z\<rparr>\<rparr>)"
    using step(2) by (intro net_step.rx_quiet) simp
  then show ?case using step(3) by (simp add: rtranclp.rtrancl_into_rtrancl)
qed simp

lemma settle_tx:
  assumes "net_ok c G R K D r k d n"
  obtains n' where "steps c n n'" "net_ok c G R K D r k d n'" "rx_of n' = rx_of n" "out n' = out n" "home n' = home n"
    "idle (cn_senv c) (pkt (tx_of n'))" "wire (pkt (tx_of n')) = sent (pkt (tx_of n'))"
    "find_queue Qsending (cn_id c) (tx_of n') = find_queue Qsending (cn_id c) (tx_of n)"
proof -
  have x: "tx_good c G R K D r k d n" using assms by (simp add: net_ok_def)
  have "ring_ok (cn_senv c) (pkt (tx_of n))" using x by (auto simp: sending_ok_def tx_side_def has_def)
  then obtain st where s: "quiet\<^sup>*\<^sup>* (tx_of n) st" "idle (cn_senv c) (pkt st)" "wire (pkt st) = sent (pkt st)" by (rule drain)
  show thesis
    using s quiets_sending [OF s(1) x] assms
    by (intro that [OF tx_quiets [OF s(1)]]) (simp_all add: net_ok_def out_def home_def)
qed

lemma settle_rx:
  assumes "net_ok c G R K D r k d n"
  obtains n' where "steps c n n'" "net_ok c G R K D r k d n'" "tx_of n' = tx_of n" "out n' = out n" "home n' = home n"
    "idle (cn_renv c) (pkt (rx_of n'))" "wire (pkt (rx_of n')) = sent (pkt (rx_of n'))" "taken (ends n') = taken (ends n)"
proof -
  have x: "rx_good c r k d (rx_of n)" using assms by (simp add: net_ok_def)
  have "ring_ok (cn_renv c) (pkt (rx_of n))" using x by (auto simp: receiving_ok_def rx_side_def has_def)
  then obtain st where s: "quiet\<^sup>*\<^sup>* (rx_of n) st" "idle (cn_renv c) (pkt st)" "wire (pkt st) = sent (pkt st)" by (rule drain)
  show thesis
    using s quiets_receiving [OF s(1) x] assms
    by (intro that [OF rx_quiets [OF s(1)]]) (simp_all add: net_ok_def out_def home_def answers_to_def)
qed

section \<open>Losing packets\<close>

lemma lose_some:
  assumes "m \<le> length (wire (pkt (tx_of n)))" "taken (ends n) \<le> m"
  shows "steps c n (n\<lparr>ends := (ends n)\<lparr>taken := m\<rparr>\<rparr>)"
  using assms(2,1)
proof (induction rule: dec_induct)
  case (step j)
  let ?n = "n\<lparr>ends := (ends n)\<lparr>taken := j\<rparr>\<rparr>"
  have "net_step (cn_senv c) (cn_renv c) (cn_other c) (cn_id c) (length (cn_msg c)) (cn_tx c) ?n (?n\<lparr>ends := (ends ?n)\<lparr>taken := taken (ends ?n) + 1\<rparr>\<rparr>)"
    using step by (intro net_step.lose) simp
  then show ?case using step by (simp add: rtranclp.rtrancl_into_rtrancl)
qed simp

lemma lose_replies:
  assumes "m \<le> length (wire (pkt (rx_of n)))" "given n \<le> m"
  shows "steps c n (n\<lparr>given := m\<rparr>)"
  using assms(2,1)
proof (induction rule: dec_induct)
  case (step j)
  let ?n = "n\<lparr>given := j\<rparr>"
  have "net_step (cn_senv c) (cn_renv c) (cn_other c) (cn_id c) (length (cn_msg c)) (cn_tx c) ?n (?n\<lparr>given := given ?n + 1\<rparr>)"
    using step by (intro net_step.reply_lost) simp
  then show ?case using step by (simp add: rtranclp.rtrancl_into_rtrancl)
qed simp

text \<open>The sender's card is idle and nothing it has sent is under way.\<close>

lemma lose_out:
  assumes "net_ok c G R K D r k d n"
  obtains n' where "steps c n n'" "net_ok c G R K D r k d n'" "rx_of n' = rx_of n" "out n' = []" "home n' = home n"
    "idle (cn_senv c) (pkt (tx_of n'))" "find_queue Qsending (cn_id c) (tx_of n') = find_queue Qsending (cn_id c) (tx_of n)"
proof -
  obtain n1 where s: "steps c n n1" "net_ok c G R K D r k d n1" "rx_of n1 = rx_of n" "out n1 = out n" "home n1 = home n"
    "idle (cn_senv c) (pkt (tx_of n1))" "wire (pkt (tx_of n1)) = sent (pkt (tx_of n1))"
    "find_queue Qsending (cn_id c) (tx_of n1) = find_queue Qsending (cn_id c) (tx_of n)" by (rule settle_tx [OF assms]) (rule that)
  let ?m = "length (wire (pkt (tx_of n1)))" let ?n = "n1\<lparr>ends := (ends n1)\<lparr>taken := ?m\<rparr>\<rparr>"
  have x: "tx_good c G R K D r k d n1" using s(2) by (simp add: net_ok_def)
  have m: "taken (ends n1) \<le> ?m" using x s(7) by (simp add: sending_ok_def)
  have "net_ok c G R K D r k d ?n" using s(2) sending_loses [OF x m le_refl] by (simp add: net_ok_def)
  then show thesis
    using s by (intro that [OF rtranclp_trans [OF s(1) lose_some [OF le_refl m]]]) (simp_all add: out_def home_def)
qed

section \<open>Data packets\<close>

definition granted :: "conn \<Rightarrow> net \<Rightarrow> bool" where
  "granted c n \<longleftrightarrow> (\<exists>g \<in> set (home n). grants (cn_id c) (of_int (cn_pnid c)) (of_nat (length (cn_msg c))) (cn_rpnid c) g)"

lemma route_sendable: "0 \<le> pnid \<Longrightarrow> pnid < int MAX_NUM_ROUTES \<Longrightarrow> sendable (of_int pnid) (int sizeof_pkthdr)"
  by (simp add: sendable_def sizeof_pkthdr_def MYRPKT_MTU_def PAGE_SHIFT_def MAX_NUM_ROUTES_def MAX_NODES_def uint_word_of_int)

lemma take_one:
  assumes i: "net_ok c G R K D r k d n" "conn_ok c" and p: "out n = p # ps" "wanted r k p"
  obtains n' d' where "steps c n n'" "net_ok c G R K D (rnd p) (num p + 1) d' n'" "out n' = ps"
    "ph_type (pk_hdr p) = LAST_DATA \<longrightarrow> complete (cn_rx c) (rx_of n')" "ph_type (pk_hdr p) = STOP_DATA \<longrightarrow> granted c n'"
proof -
  have l: "length (cn_msg c) < 2 ^ 32" "0 \<le> cn_pnid c" "cn_pnid c < int MAX_NUM_ROUTES" using i(2) by (simp_all add: conn_ok_def)
  obtain n1 where s: "steps c n n1" "net_ok c G R K D r k d n1" "out n1 = out n" "wire (pkt (tx_of n1)) = sent (pkt (tx_of n1))"
    by (rule settle_tx [OF i(1)]) (rule that)
  obtain n2 where t: "steps c n1 n2" "net_ok c G R K D r k d n2" "tx_of n2 = tx_of n1" "out n2 = out n1"
    "idle (cn_renv c) (pkt (rx_of n2))" by (rule settle_rx [OF s(2)]) (rule that)
  have x: "tx_good c G R K D r k d n2" "rx_good c r k d (rx_of n2)" "answers_to c (rx_of n2)" "given n2 \<le> length (sent (pkt (rx_of n2)))"
    using t(2) by (simp_all add: net_ok_def)
  let ?w = "wire (pkt (tx_of n2))" and ?t = "taken (ends n2)"
  have o: "drop ?t ?w = p # ps" using p(1) s(3,4) t(3,4) by (simp add: out_def)
  have "length (drop ?t ?w) \<noteq> 0" unfolding o by simp
  then have m: "?t < length ?w" by simp
  have w: "?w ! ?t = p" "drop (?t + 1) ?w = ps" using o Cons_nth_drop_Suc [OF m] by simp_all
  obtain rst r' k' d' qs where q: "rtscts_recv (cn_renv c) (cn_other c) (?w ! ?t) (rx_of n2) = Some rst"
    "sending_ok (cn_senv c) (cn_id c) (cn_pnid c) (cn_msg c) (cn_first c) (cn_tx c) G R K D (tx_of n2) (?t + 1) r' k' d'" "rx_good c r' k' d' rst"
    "wanted r k (?w ! ?t) \<Longrightarrow> r' = rnd (?w ! ?t) \<and> k' = num (?w ! ?t) + 1 \<and> (ph_type (pk_hdr (?w ! ?t)) = LAST_DATA \<longrightarrow> complete (cn_rx c) rst)"
    "sent (pkt rst) = sent (pkt (rx_of n2)) @ qs" "my_pnid (pkt rst) = my_pnid (pkt (rx_of n2))"
    "answered (cn_rx c) rst = answered (cn_rx c) (rx_of n2)"
    "\<forall>src. wanted r k (?w ! ?t) \<and> ph_type (pk_hdr (?w ! ?t)) = STOP_DATA \<and> idle (cn_renv c) (pkt (rx_of n2)) \<and> answered (cn_rx c) (rx_of n2) = Some src \<and>
       sendable src (int sizeof_pkthdr) \<longrightarrow> (\<exists>g \<in> set qs. grants (cn_id c) src (of_nat (length (cn_msg c))) (my_pnid (pkt (rx_of n2))) g)"
    by (rule data_ok [OF x(1) m x(2) l]) (rule that)
  have e: "r' = rnd p" "k' = num p + 1" "ph_type (pk_hdr p) = LAST_DATA \<longrightarrow> complete (cn_rx c) rst" using q(4) p(2) unfolding w(1) by simp_all
  let ?n = "n2\<lparr>ends := (ends n2)\<lparr>rx_node := rst, taken := ?t + 1\<rparr>\<rparr>"
  have st: "steps c n ?n"
    using rtranclp_trans [OF s(1) t(1)] net_step.data [OF m q(1)] by (rule rtranclp.rtrancl_into_rtrancl)
  have ok: "net_ok c G R K D (rnd p) (num p + 1) d' ?n" using q(2,3,5-7) x(3,4) e by (simp add: net_ok_def answers_to_def)
  have "granted c ?n" if "ph_type (pk_hdr p) = STOP_DATA"
    using q(5,8) that p(2) t(5) x(3,4) route_sendable [OF l(2,3)] unfolding w(1) by (auto simp: granted_def home_def answers_to_def)
  then show thesis using e(3) w(2) s(4) t(3) by (intro that [OF st ok]) (simp_all add: out_def)
qed

text \<open>All the packets of a grant, up to the one that asks for more.\<close>

lemma take_all:
  assumes "net_ok c G R K D R k d n" "conn_ok c" "out n = ps" "ps \<noteq> []" "ph_type (pk_hdr (last ps)) \<in> {STOP_DATA, LAST_DATA}"
    "\<forall>j < length ps. rnd (ps ! j) = R \<and> num (ps ! j) = k + j"
  shows "\<exists>n'. steps c n n' \<and> (complete (cn_rx c) (rx_of n') \<or>
    ph_type (pk_hdr (last ps)) = STOP_DATA \<and> (\<exists>d'. net_ok c G R K D R (k + length ps) d' n') \<and> out n' = [] \<and> granted c n')"
  using assms
proof (induction ps arbitrary: k d n)
  case (Cons p ps)
  have p: "rnd p = R" "num p = k" using Cons.prems(6) [rule_format, of 0] by simp_all
  then have w: "wanted R k p" by (simp add: wanted_def)
  obtain n1 d1 where s: "steps c n n1" "net_ok c G R K D (rnd p) (num p + 1) d1 n1" "out n1 = ps"
    "ph_type (pk_hdr p) = LAST_DATA \<longrightarrow> complete (cn_rx c) (rx_of n1)" "ph_type (pk_hdr p) = STOP_DATA \<longrightarrow> granted c n1"
    by (rule take_one [OF Cons.prems(1-3) w]) (rule that)
  show ?case
  proof (cases "ps = []")
    case True
    then show ?thesis using s Cons.prems(5) p by auto
  next
    case False
    have "\<forall>j < length ps. rnd (ps ! j) = R \<and> num (ps ! j) = k + 1 + j" using Cons.prems(6) by auto
    with Cons.IH [OF s(2) [unfolded p] Cons.prems(2) s(3) False] Cons.prems(5) False
    obtain n' where n': "steps c n1 n'" "complete (cn_rx c) (rx_of n') \<or>
      ph_type (pk_hdr (last ps)) = STOP_DATA \<and> (\<exists>d'. net_ok c G R K D R (k + 1 + length ps) d' n') \<and> out n' = [] \<and> granted c n'" by auto
    show ?thesis using rtranclp_trans [OF s(1) n'(1)] n'(2) False by (intro exI [of _ n']) simp
  qed
qed simp

section \<open>Grants\<close>

lemma grants_cts:
  assumes "grants msgID (of_int pnid) (of_nat L) rp g" "0 \<le> pnid" "pnid < int MAX_NUM_ROUTES" "0 \<le> rp" "rp < int MAX_NUM_ROUTES"
  obtains m where "1 \<le> m" "m \<le> 16" "cts_pkt msgID L g" "pk_dest g = pnid" "s32 (uint (ph_info2 (pk_hdr g))) = m"
proof -
  obtain m where m: "1 \<le> m" "m \<le> MAX_DATA_PKTS" "proto_pkt CTS msgID (of_int pnid) (of_nat L) (of_int m) [] rp g"
    using assms(1) by (auto simp: grants_def)
  have u: "uint (of_int pnid :: 16 word) = pnid" "uint (of_int rp :: 16 word) = rp" "uint (of_int m :: 16 word) = m"
    using assms(2-5) m(1,2) by (simp_all add: uint_word_of_int MAX_NUM_ROUTES_def MAX_DATA_PKTS_def)
  have "uint (ucast (of_int m :: 16 word) :: 32 word) = m"
    using u(3) m(1,2) by (simp add: uint_word_of_int MAX_DATA_PKTS_def unsigned_ucast_eq take_bit_int_eq_self)
  then have "s32 (uint (ph_info2 (pk_hdr g))) = m" using m by (simp add: proto_pkt_def s32_def MAX_DATA_PKTS_def)
  then show thesis
    using m u assms(4,5) by (intro that [of m]) (simp_all add: proto_pkt_def cts_pkt_def route_def MAX_DATA_PKTS_def)
qed

text \<open>A clear-to-send packet that is under way is the next of its direction after losses.\<close>

lemma bring_home:
  assumes i: "net_ok c G R K D r k d n" and g: "g \<in> set (home n)"
  obtains n' where "steps c n n'" "net_ok c G R K D r k d n'" "tx_of n' = tx_of n" "out n' = out n"
    "given n' < length (wire (pkt (rx_of n')))" "wire (pkt (rx_of n')) ! given n' = g"
proof -
  obtain n1 where s: "steps c n n1" "net_ok c G R K D r k d n1" "tx_of n1 = tx_of n" "out n1 = out n" "home n1 = home n"
    "wire (pkt (rx_of n1)) = sent (pkt (rx_of n1))" by (rule settle_rx [OF i]) (rule that)
  let ?w = "wire (pkt (rx_of n1))"
  obtain j where j: "j < length (drop (given n1) ?w)" "drop (given n1) ?w ! j = g"
    using g s(5,6) by (metis home_def in_set_conv_nth)
  let ?m = "given n1 + j" let ?n = "n1\<lparr>given := ?m\<rparr>"
  have m: "?m < length ?w" "?w ! ?m = g" using j by simp_all
  have "steps c n1 ?n" using m(1) by (intro lose_replies) simp_all
  from rtranclp_trans [OF s(1) this] show thesis
    using s m by (intro that [of ?n]) (simp_all add: net_ok_def out_def)
qed

text \<open>The sender's card takes all the packets of a grant of the receiver.\<close>

lemma answer:
  assumes i: "net_ok c G R K D R (K + 1) d n" "conn_ok c" and o: "out n = []" and g: "granted c n" and K: "K + 16 < num_max"
  obtains n' G' ps where "steps c n n'" "net_ok c G' R (K + length ps) (min (length (cn_msg c)) (D + length ps * data_max)) R (K + 1) d n'"
    "out n' = ps" "ps \<noteq> []" "ph_type (pk_hdr (last ps)) \<noteq> DATA" "burst (cn_id c) (cn_pnid c) (cn_msg c) (int R) (of_nat K) D ps" "length ps \<le> 16"
proof -
  have c: "length (cn_msg c) < 2 ^ 32" "0 \<le> cn_pnid c" "cn_pnid c < int MAX_NUM_ROUTES" "0 \<le> cn_rpnid c" "cn_rpnid c < int MAX_NUM_ROUTES"
    using i(2) by (simp_all add: conn_ok_def)
  obtain p where p: "p \<in> set (home n)" "grants (cn_id c) (of_int (cn_pnid c)) (of_nat (length (cn_msg c))) (cn_rpnid c) p"
    using g by (auto simp: granted_def)
  obtain m where m: "1 \<le> m" "m \<le> 16" "cts_pkt (cn_id c) (length (cn_msg c)) p" "pk_dest p = cn_pnid c" "s32 (uint (ph_info2 (pk_hdr p))) = m"
    by (rule grants_cts [OF p(2) c(2-5)]) (rule that)
  obtain n1 where s: "steps c n n1" "net_ok c G R K D R (K + 1) d n1" "out n1 = out n" "home n1 = home n"
    "idle (cn_senv c) (pkt (tx_of n1))" by (rule settle_tx [OF i(1)]) (rule that)
  obtain n2 where t: "steps c n1 n2" "net_ok c G R K D R (K + 1) d n2" "tx_of n2 = tx_of n1" "out n2 = out n1"
    "given n2 < length (wire (pkt (rx_of n2)))" "wire (pkt (rx_of n2)) ! given n2 = p"
    by (rule bring_home [OF s(2)]) (use p(1) s(4) that in auto)
  have x: "tx_good c G R K D R (K + 1) d n2" "K < num_max" using t(2) by (simp_all add: net_ok_def sending_ok_def tx_ok_def)
  then have tx: "tx_side (cn_senv c) (cn_id c) (cn_pnid c) (cn_msg c) (cn_tx c) R K D (tx_of n2)" by (simp add: sending_ok_def)
  have gr: "grant_ok (cn_tx c) p (tx_of n2)" using tx K m(2,5) by (auto simp: grant_ok_def tx_side_def has_def unat_32)
  obtain st G' ps f where r: "rtscts_recv (cn_senv c) (cn_other c) p (tx_of n2) = Some st"
    "sending_ok (cn_senv c) (cn_id c) (cn_pnid c) (cn_msg c) (cn_first c) (cn_tx c) G' R (K + length ps + f)
       (min (length (cn_msg c)) (D + length ps * data_max)) st (taken (ends n2)) R (K + 1) d"
    "sent (pkt st) = sent (pkt (tx_of n2)) @ ps" "burst (cn_id c) (cn_pnid c) (cn_msg c) (int R) (of_nat K) D ps"
    "length ps + f \<le> nat (s32 (uint (ph_info2 (pk_hdr p))))"
    "0 < s32 (uint (ph_info2 (pk_hdr p))) \<and> s32 (uint (ph_info2 (pk_hdr p))) \<le> int MAX_SND_PKT_ENTRIES \<and> idle (cn_senv c) (pkt (tx_of n2)) \<longrightarrow>
       ps \<noteq> [] \<and> f = 0 \<and> ph_type (pk_hdr (last ps)) \<noteq> DATA"
    by (rule sending_cts [OF x(1) c(1) m(3) gr]) (rule that)
  have ps: "ps \<noteq> []" "f = 0" "ph_type (pk_hdr (last ps)) \<noteq> DATA"
    using r(6) m(1,2,5) s(5) t(3) by (simp_all add: MAX_SND_PKT_ENTRIES_def)
  let ?n = "n2\<lparr>ends := (ends n2)\<lparr>tx_node := st\<rparr>, given := given n2 + 1\<rparr>"
  have dest: "pk_dest p = my_pnid (pkt (tx_of n2))" using m(4) tx by (auto simp: tx_side_def)
  have st: "steps c n ?n"
    using rtranclp_trans [OF s(1) t(1)] net_step.reply [OF t(5) t(6)[symmetric] dest m(3) gr r(1)] by (rule rtranclp.rtrancl_into_rtrancl)
  have "out ?n = ps" using r(3) o s(3) t(4) x(1) by (auto simp: out_def sending_ok_def)
  moreover have "net_ok c G' R (K + length ps) (min (length (cn_msg c)) (D + length ps * data_max)) R (K + 1) d ?n"
    using r(2) ps(2) t(2,5) by (simp add: net_ok_def sent_def)
  ultimately show thesis using r(4,5) m(2,5) ps by (intro that [OF st, of G' ps]) simp_all
qed

section \<open>Completion\<close>

lemma data_max_val: "data_max = 8104"
  by (simp add: MYRPKT_MTU_def sizeof_pkthdr_def PAGE_SHIFT_def)

lemma grant_rest:
  assumes "net_ok c G R K (min (length (cn_msg c)) (K * data_max)) R (K + 1) d n" "conn_ok c" "out n = []" "granted c n"
    "K * data_max < length (cn_msg c)"
  shows "\<exists>n'. steps c n n' \<and> complete (cn_rx c) (rx_of n')"
  using assms
proof (induction "length (cn_msg c) - K * data_max" arbitrary: G K d n rule: less_induct)
  case less
  let ?L = "length (cn_msg c)"
  have L: "?L < 2 ^ 32" using less.prems(2) by (simp add: conn_ok_def)
  have K: "K + 16 < num_max" using less.prems(5) L unfolding data_max_val by simp
  have D: "min ?L (K * data_max) = K * data_max" using less.prems(5) by simp
  obtain n1 G' ps where s: "steps c n n1" "net_ok c G' R (K + length ps) (min ?L (K * data_max + length ps * data_max)) R (K + 1) d n1"
    "out n1 = ps" "ps \<noteq> []" "ph_type (pk_hdr (last ps)) \<noteq> DATA" "burst (cn_id c) (cn_pnid c) (cn_msg c) (int R) (of_nat K) (K * data_max) ps"
    "length ps \<le> 16" by (rule answer [OF less.prems(1)[unfolded D] less.prems(2-4) K]) (rule that)
  have R: "R < no_gap" using s(2) by (simp add: net_ok_def sending_ok_def tx_ok_def)
  have b: "K * data_max \<le> ?L" "K + length ps < num_max" using less.prems(5) s(7) K by simp_all
  note pk = burst_packet [OF s(6) b(1) R b(2)]
  have num: "\<forall>j < length ps. rnd (ps ! j) = R \<and> num (ps ! j) = K + 1 + j" using pk by simp
  have j: "length ps - 1 < length ps" "ps ! (length ps - 1) = last ps" using s(4) by (simp_all add: last_conv_nth)
  note lp = pk(3) [OF j(1), unfolded j(2)]
  have ty: "ph_type (pk_hdr (last ps)) \<in> {STOP_DATA, LAST_DATA}" using lp s(5) by (auto simp: data_packet_def)
  obtain n2 where t: "steps c n1 n2" "complete (cn_rx c) (rx_of n2) \<or> ph_type (pk_hdr (last ps)) = STOP_DATA \<and>
      (\<exists>d'. net_ok c G' R (K + length ps) (min ?L (K * data_max + length ps * data_max)) R (K + 1 + length ps) d' n2) \<and> out n2 = [] \<and> granted c n2"
    using take_all [OF s(2) less.prems(2) s(3,4) ty num] by blast
  have st: "steps c n n2" using s(1) t(1) by (rule rtranclp_trans)
  from t(2) show ?case
  proof
    assume "complete (cn_rx c) (rx_of n2)"
    then show ?thesis using st by blast
  next
    let ?K = "K + length ps"
    assume a: "ph_type (pk_hdr (last ps)) = STOP_DATA \<and>
      (\<exists>d'. net_ok c G' R ?K (min ?L (K * data_max + length ps * data_max)) R (K + 1 + length ps) d' n2) \<and> out n2 = [] \<and> granted c n2"
    then obtain d' where ok: "net_ok c G' R ?K (min ?L (?K * data_max)) R (?K + 1) d' n2" "out n2 = []" "granted c n2"
      by (auto simp: add_mult_distrib add.commute add.left_commute)
    have q: "1 \<le> length ps" using s(4) by (cases ps) simp_all
    have "\<not> ?L \<le> min ?L (K * data_max + (length ps - 1) * data_max) + data_max" using lp a by (simp add: data_packet_def)
    moreover have "K * data_max + (length ps - 1) * data_max + data_max = ?K * data_max"
      using q by (cases "length ps") (simp_all add: add_mult_distrib)
    ultimately have more: "?K * data_max < ?L" by linarith
    have "?L - ?K * data_max < ?L - K * data_max" using more q data_max_val by (simp add: add_mult_distrib)
    from less.hyps [OF this ok(1) less.prems(2) ok(2,3) more] st rtranclp_trans show ?thesis by metis
  qed
qed

text \<open>After a timeout the first packet of the new round is received.\<close>

lemma restart:
  assumes i: "net_ok c G R K D r k d n" "conn_ok c" and q: "find_queue Qsending (cn_id c) (tx_of n) = Some (Some (cn_tx c))"
    and R: "R + 1 < no_gap"
  shows "\<exists>n'. steps c n n' \<and> complete (cn_rx c) (rx_of n')"
proof -
  let ?L = "length (cn_msg c)"
  have l: "?L < 2 ^ 32" using i(2) by (simp add: conn_ok_def)
  obtain n1 where s: "steps c n n1" "net_ok c G R K D r k d n1" "out n1 = []" "idle (cn_senv c) (pkt (tx_of n1))"
    "find_queue Qsending (cn_id c) (tx_of n1) = find_queue Qsending (cn_id c) (tx_of n)" by (rule lose_out [OF i(1)]) (rule that)
  have x: "tx_good c G R K D r k d n1" using s(2) by (simp add: net_ok_def)
  have le: "r \<le> R" "taken (ends n1) \<le> length (sent (pkt (tx_of n1)))" using x by (auto simp: sending_ok_def rx_ok_def)
  have rt: "retry_ok (cn_tx c) (tx_of n1)" using x R by (auto simp: retry_ok_def sending_ok_def tx_side_def has_def)
  obtain st G' ps g where t: "handleDataResend (cn_senv c) (cn_id c) (tx_of n1) = Some st"
    "sending_ok (cn_senv c) (cn_id c) (cn_pnid c) (cn_msg c) (cn_first c) (cn_tx c) G' (R + 1) (length ps + g) (min ?L (length ps * data_max)) st
       (taken (ends n1)) r k d"
    "sent (pkt st) = sent (pkt (tx_of n1)) @ ps" "burst (cn_id c) (cn_pnid c) (cn_msg c) (int (R + 1)) 0 0 ps" "length ps + g \<le> 1"
    "idle (cn_senv c) (pkt (tx_of n1)) \<Longrightarrow> ps \<noteq> []" "ps \<noteq> [] \<longrightarrow> ph_type (pk_hdr (last ps)) \<noteq> DATA \<or> \<not> idle (cn_senv c) (pkt (tx_of n1))"
    by (rule sending_timeout [OF x l rt]) (use q s(5) in simp, rule that)
  obtain p where p: "ps = [p]" "g = 0" using t(5) t(6) [OF s(4)] by (cases ps) auto
  have pk: "data_packet (cn_id c) (cn_pnid c) (cn_msg c) (int (R + 1)) 1 0 p" "ph_type (pk_hdr p) \<noteq> DATA" using t(4,7) p(1) s(4) by simp_all
  have num: "num p = 1" "rnd p = R + 1" using num_of [OF pk(1)] rnd_of [OF pk(1) R] by simp_all
  let ?n = "n1\<lparr>ends := (ends n1)\<lparr>tx_node := st\<rparr>\<rparr>"
  have st: "steps c n ?n" using s(1) net_step.timeout [OF rt t(1)] by (rule rtranclp.rtrancl_into_rtrancl)
  have ok: "net_ok c G' (R + 1) 1 (min ?L data_max) r k d ?n" using t(2) p s(2) by (simp add: net_ok_def)
  have o: "out ?n = p # []" using t(3) p(1) s(3) le(2) by (auto simp: out_def)
  have w: "wanted r k p" using num le(1) by (simp add: wanted_def)
  obtain n2 d2 where u: "steps c ?n n2" "net_ok c G' (R + 1) 1 (min ?L data_max) (rnd p) (num p + 1) d2 n2" "out n2 = []"
    "ph_type (pk_hdr p) = LAST_DATA \<longrightarrow> complete (cn_rx c) (rx_of n2)" "ph_type (pk_hdr p) = STOP_DATA \<longrightarrow> granted c n2"
    by (rule take_one [OF ok i(2) o w]) (rule that)
  have st2: "steps c n n2" using st u(1) by (rule rtranclp_trans)
  show ?thesis
  proof (cases "ph_type (pk_hdr p) = LAST_DATA")
    case True
    then show ?thesis using st2 u(4) by blast
  next
    case False
    then have "granted c n2" "1 * data_max < ?L" using pk u(5) by (auto simp: data_packet_def)
    moreover have "net_ok c G' (R + 1) 1 (min ?L (1 * data_max)) (R + 1) (1 + 1) d2 n2" using u(2) num by simp
    ultimately show ?thesis using grant_rest [OF _ i(2) u(3)] st2 rtranclp_trans by metis
  qed
qed

text \<open>
  A transfer has started when the sender has been granted packets, or a clear-to-send packet
  for it is under way that keeps its numbers below the bound.
\<close>

definition started :: "32 word \<Rightarrow> nat \<Rightarrow> nat \<Rightarrow> net \<Rightarrow> bool" where
  "started msgID L a n \<longleftrightarrow>
     find_queue Qsending msgID (tx_of n) = Some (Some a) \<or>
     (\<exists>p \<in> set (home n). cts_pkt msgID L p \<and> pk_dest p = my_pnid (pkt (tx_of n)) \<and> grant_ok a p (tx_of n))"

lemma can_finish:
  assumes i: "net_ok c G R K D r k d n" "conn_ok c" and s: "started (cn_id c) (length (cn_msg c)) (cn_tx c) n" and rt: "retry_ok (cn_tx c) (tx_of n)"
  shows "\<exists>n'. steps c n n' \<and> complete (cn_rx c) (rx_of n')"
proof -
  have R: "R + 1 < no_gap" using i(1) rt by (auto simp: net_ok_def sending_ok_def tx_side_def retry_ok_def has_def)
  have l: "length (cn_msg c) < 2 ^ 32" using i(2) by (simp add: conn_ok_def)
  from s consider "find_queue Qsending (cn_id c) (tx_of n) = Some (Some (cn_tx c))"
    | p where "p \<in> set (home n)" "cts_pkt (cn_id c) (length (cn_msg c)) p" "pk_dest p = my_pnid (pkt (tx_of n))" "grant_ok (cn_tx c) p (tx_of n)"
    by (auto simp: started_def)
  then show ?thesis
  proof cases
    case 1
    then show ?thesis by (intro restart [OF i _ R])
  next
    case (2 p)
    obtain n2 where t: "steps c n n2" "net_ok c G R K D r k d n2" "tx_of n2 = tx_of n"
      "given n2 < length (wire (pkt (rx_of n2)))" "wire (pkt (rx_of n2)) ! given n2 = p" by (rule bring_home [OF i(1) 2(1)]) (rule that)
    have x: "tx_good c G R K D r k d n2" using t(2) by (simp add: net_ok_def)
    note g = 2(3,2,4) [folded t(3)]
    obtain st G' K' D' where u: "rtscts_recv (cn_senv c) (cn_other c) p (tx_of n2) = Some st"
      "sending_ok (cn_senv c) (cn_id c) (cn_pnid c) (cn_msg c) (cn_first c) (cn_tx c) G' R K' D' st (taken (ends n2)) r k d"
      "find_queue Qsending (cn_id c) st = Some (Some (cn_tx c))"
      by (rule sending_cts [OF x l g(2,3)]) (rule that)
    let ?n = "n2\<lparr>ends := (ends n2)\<lparr>tx_node := st\<rparr>, given := given n2 + 1\<rparr>"
    have st: "steps c n ?n"
      using t(1) net_step.reply [OF t(4) t(5)[symmetric] g u(1)] by (rule rtranclp.rtrancl_into_rtrancl)
    have "net_ok c G' R K' D' r k d ?n" using u(2) t(2,4) by (simp add: net_ok_def sent_def)
    then show ?thesis using restart [OF _ i(2) _ R] u(3) st rtranclp_trans by fastforce
  qed
qed

end
