(* ===== verification/R_Start.thy ===== *)
theory R_Start
  imports R_Transfer
begin

text \<open>
  The announcement of a message: a message that \<open>p3_send\<close> announces, whose first packet the
  card accepts and whose announcement \<open>p3_recvBody\<close> answers, is a transfer that has begun.
\<close>

section \<open>The receiver\<close>

text \<open>\<open>kmalloc\<close> returns blocks that are not in use.\<close>

definition kmalloc_ok :: "rts_env \<Rightarrow> bool" where
  "kmalloc_ok env \<longleftrightarrow> (\<forall>h. case kmalloc env h of None \<Rightarrow> True | Some (a, _) \<Rightarrow> h a = None)"

text \<open>The first bytes of a message, in the buffer of the process.\<close>

lemma first_bytes:
  assumes w: "writable frame buf (length msg)" and B: "B \<le> length msg" and st: "stored frame buf (take B msg) mem mem'"
  shows "take B (user_bytes frame buf (length msg) mem') = take B msg"
proof -
  have "stored frame (buf + of_nat 0) (take B msg) mem mem'" "0 + length (take B msg) \<le> length msg" using st B by simp_all
  from stored_slice [OF w this(2,1)] show ?thesis using B by simp
qed

lemma ucast_down: "ucast (of_nat n :: 64 word) = (of_nat n :: 32 word)"
  by (transfer, simp)

lemma recv_first_ok:
  assumes ok: "ring_ok env (pkt st)" and x: "xf_type xfer = P3_RTS" "xf_pkt xfer = take B msg" "B < length msg" "length msg < 2 ^ 32"
    and mm: "mm_of env (xf_task xfer) = Some frame" "writable frame buf (length msg)"
  obtains n s mem out ps where "recv_first env xfer buf (of_nat (length msg)) st =
      Some (n, E_SENT_CTS, st\<lparr>pkt := s, outstanding_pkts := out, umem := mem\<rparr>)" "ring_ok env s" "my_pnid s = my_pnid (pkt st)"
    "take B (user_bytes frame buf (length msg) mem) = take B msg" "sent s = sent (pkt st) @ ps"
    "idle env (pkt st) \<and> sendable (of_int (src_nid (hdr_src (xf_hdr xfer)))) (int sizeof_pkthdr) \<longrightarrow>
       (\<exists>c \<in> set ps. grants (xf_msgID xfer) (of_int (src_nid (hdr_src (xf_hdr xfer)))) (of_nat (length msg)) (my_pnid (pkt st)) c)"
proof -
  have L: "unat (of_nat (length msg) :: 64 word) = length msg" using x(4) by (simp add: unat_of_nat take_bit_nat_eq_self)
  let ?n = "grant_pkts (outstanding_pkts st)"
  obtain s ps where s: "sendProtoMSG env CTS (xf_msgID xfer) (of_int (src_nid (hdr_src (xf_hdr xfer)))) (ucast (of_nat (length msg) :: 64 word))
      (of_int ?n) [] st = Some (st\<lparr>pkt := s\<rparr>)" "ring_ok env s" "my_pnid s = my_pnid (pkt st)" "sent s = sent (pkt st) @ ps"
    "ps = [] \<or> (\<exists>p. ps = [p] \<and> proto_pkt CTS (xf_msgID xfer) (of_int (src_nid (hdr_src (xf_hdr xfer)))) (ucast (of_nat (length msg) :: 64 word))
       (of_int ?n) [] (my_pnid (pkt st)) p)"
    "([] :: 8 word list) = [] \<Longrightarrow> idle env (pkt st) \<Longrightarrow> sendable (of_int (src_nid (hdr_src (xf_hdr xfer)))) (int sizeof_pkthdr) \<Longrightarrow> ps \<noteq> []"
    by (rule sendProtoMSG_ok [OF ok]) (rule that)
  have gr: "idle env (pkt st) \<and> sendable (of_int (src_nid (hdr_src (xf_hdr xfer)))) (int sizeof_pkthdr) \<longrightarrow>
      (\<exists>c \<in> set ps. grants (xf_msgID xfer) (of_int (src_nid (hdr_src (xf_hdr xfer)))) (of_nat (length msg)) (my_pnid (pkt st)) c)"
    using s(5,6) grant_range [of "outstanding_pkts st"] by (auto simp: grants_def ucast_down)
  have w: "writable frame buf (length (take B msg))"
    using mm(2) x(3) by (auto simp: writable_def mapped_def intro: inj_on_subset)
  obtain mem where m: "(if take B msg \<noteq> [] then memcpy2_to_user env (xf_task xfer) buf (take B msg) (umem st) else (0, umem st)) = (0, mem)"
      "take B (user_bytes frame buf (length msg) mem) = take B msg"
  proof (cases "take B msg = []")
    case False
    obtain mem where "memcpy2_to_user env (xf_task xfer) buf (take B msg) (umem st) = (0, mem)" "stored frame buf (take B msg) (umem st) mem"
      by (rule memcpy2_to_user_ok [OF mm(1) w]) (rule that)
    then show ?thesis using False first_bytes [OF mm(2)] x(3) by (intro that [of mem]) simp_all
  next
    case True
    then have "B = 0" using x(3) by auto
    then show ?thesis by (intro that [of "umem st"]) simp_all
  qed
  have t: "take (length msg) (take B msg) = take B msg" "length (take B msg) < length msg" using x(3) by (simp_all add: min_def)
  have "recv_first env xfer buf (of_nat (length msg)) st =
      Some (?n, E_SENT_CTS, st\<lparr>pkt := s, outstanding_pkts := outstanding_pkts st + ?n, umem := mem\<rparr>)"
    using s(1) m(1) x(1,3) unfolding recv_first_def x(2) L t(1) Let_def by (cases "B = 0") auto
  then show thesis using s(2,3) m(2) s(4) gr by (intro that)
qed

lemma find_snoc: "find P xs = None \<Longrightarrow> find P (xs @ [x]) = (if P x then Some x else None)"
  by (induction xs) (simp_all split: if_splits)

lemma recvBody_start:
  assumes ok: "ring_ok env (pkt st)" "queues_ok st qs" "kmalloc_ok env" "kmalloc env (qheap st) \<noteq> None"
    and x: "xf_type xfer = P3_RTS" "xf_pkt xfer = take B msg" "B < length msg" "length msg < 2 ^ 32"
    and new: "find (\<lambda>a. msgid st a = xf_msgID xfer) (qs Qreceiving) = None"
    and mm: "mm_of env (xf_task xfer) = Some frame" "writable frame buf (length msg)"
  obtains b st' where "p3_recvBody env nal xfer buf (of_nat (length msg)) rlen cookie st = Some (s32 (uint rlen), st')"
    "rx_side env (xf_msgID xfer) msg frame buf b 0 1 B False st'" "my_pnid (pkt st') = my_pnid (pkt st)"
    "answered b st' = Some (of_int (src_nid (hdr_src (xf_hdr xfer))))" "length (sent (pkt st)) \<le> length (sent (pkt st'))"
    "idle env (pkt st) \<and> sendable (of_int (src_nid (hdr_src (xf_hdr xfer)))) (int sizeof_pkthdr) \<longrightarrow>
       (\<exists>c \<in> set (drop (length (sent (pkt st))) (sent (pkt st'))).
          grants (xf_msgID xfer) (of_int (src_nid (hdr_src (xf_hdr xfer)))) (of_nat (length msg)) (my_pnid (pkt st)) c)"
proof -
  obtain n s mem out ps where f: "recv_first env xfer buf (of_nat (length msg)) st =
      Some (n, E_SENT_CTS, st\<lparr>pkt := s, outstanding_pkts := out, umem := mem\<rparr>)" "ring_ok env s"
    "take B (user_bytes frame buf (length msg) mem) = take B msg" "my_pnid s = my_pnid (pkt st)" "sent s = sent (pkt st) @ ps"
    "idle env (pkt st) \<and> sendable (of_int (src_nid (hdr_src (xf_hdr xfer)))) (int sizeof_pkthdr) \<longrightarrow>
       (\<exists>c \<in> set ps. grants (xf_msgID xfer) (of_int (src_nid (hdr_src (xf_hdr xfer)))) (of_nat (length msg)) (my_pnid (pkt st)) c)"
    by (rule recv_first_ok [OF ok(1) x mm]) (rule that)
  let ?st = "st\<lparr>pkt := s, outstanding_pkts := out, umem := mem\<rparr>" and ?L = "of_nat (length msg) :: 64 word"
  have L: "unat ?L = length msg" using x(4) by (simp add: unat_of_nat take_bit_nat_eq_self)
  have sh: "recv_short env nal xfer ?L cookie E_SENT_CTS ?st = Some (E_SENT_CTS, ?st)"
    using x by (simp add: recv_short_def L)
  have q: "queues_ok ?st qs" by (rule queues_ok_cong [OF ok(2)]) simp_all
  obtain b junk where km: "kmalloc env (qheap ?st) = Some (b, junk)" "qheap ?st b = None"
    using ok(3,4) unfolding kmalloc_ok_def by (force split: option.splits)
  let ?qs = "qs(Qreceiving := qs Qreceiving @ [b])" and ?e = "unlinked (new_entry (xf_msgID xfer) (jiffies ?st) junk)"
  obtain st3 where e: "enqueue (kmalloc env) Qreceiving (xf_msgID xfer) ?st = Some (Some b, st3)" "queues_ok st3 ?qs" "frame_eq ?st st3"
      "ent st3 = (ent ?st)(b \<mapsto> ?e)" by (rule enqueue_ok [OF q, where km = "kmalloc env", OF km]) (rule that)
  let ?f = "\<lambda>e. e\<lparr>q_phdr := xf_hdr xfer, q_event := E_SENT_CTS, q_buf := buf, q_len := ucast ?L, q_pktlen := int (length (xf_pkt xfer)),
      q_datasent := of_nat (min (unat ?L) (length (xf_pkt xfer))), q_seq := 1, q_task := xf_task xfer,
      q_src_nid := of_int (src_nid (hdr_src (xf_hdr xfer))), q_nal := nal, q_msgNum := xf_msgNum xfer, q_cookie := cookie,
      q_granted_pkts := n\<rparr>"
  have h: "has env ?qs b ?e st3" using e f(2) frame_eq_more(1) [OF e(3)] by (simp add: has_def)
  have pl: "plain_upd ?f" by (rule plain_updI) (simp_all add: unlinked_def)
  obtain st' where u: "upd_entry b ?f st3 = Some st'" "moves env ?qs b (?f ?e) [] st3 st'"
    by (rule upd_moves [OF h pl]) (rule that)
  have um: "umem st' = mem" using u(2) frame_eq_more(2) [OF e(3)] by (simp add: moves_def)
  have body: "p3_recvBody env nal xfer buf ?L rlen cookie st = Some (s32 (uint rlen), st')"
    using f(1) sh e(1) u(1) x(1) by (simp add: p3_recvBody_def)
  have h': "has env ?qs b (?f ?e) st'" by (rule moves_has [OF u(2)])
  have other: "msgid st' a = msgid st a" if "a \<noteq> b" for a
    using u(2) e(4) that ent_cong [of ?st st] by (simp add: moves_def msgid_def)
  have "b \<notin> set (qs Qreceiving)" using on_queueD(2) [OF queues_okD(1) [OF q]] km(2) by blast
  then have "find (\<lambda>a. msgid st' a = xf_msgID xfer) (qs Qreceiving) = None"
    using new other by (metis (mono_tags, lifting) find_None_iff)
  moreover have "msgid st' b = xf_msgID xfer" using h' by (simp add: has_def msgid_def new_entry_def unlinked_def)
  ultimately have fd: "find (\<lambda>a. msgid st' a = xf_msgID xfer) (?qs Qreceiving) = Some b"
    by (simp add: find_snoc)
  have "rx_side env (xf_msgID xfer) msg frame buf b 0 1 B (q_lib_finalize_called (?f ?e)) st'"
    using f(3) um mm x L by (intro rx_sideI [OF h' fd]) (simp_all add: new_entry_def unlinked_def got_def ucast_down)
  moreover have "sent (pkt st') = sent (pkt st) @ ps" "my_pnid (pkt st') = my_pnid (pkt st)"
    using u(2) frame_eq_more(1) [OF e(3)] f(4,5) by (simp_all add: moves_def)
  moreover have "answered b st' = Some (of_int (src_nid (hdr_src (xf_hdr xfer))))" using h' by (simp add: answered_def has_def)
  ultimately show thesis using f(6) by (intro that [OF body]) (simp_all add: new_entry_def unlinked_def)
qed

section \<open>The sender\<close>

abbreviation rts_max :: nat where
  "rts_max \<equiv> MYRPKT_MTU - (sizeof_pkthdr + sizeof_ptl_hdr)"

lemma p3_number_same:
  assumes "p3_number dst 0 n0 st = Some (mid, mnum, qo, st1)"
  shows "Qhead st1 = Qhead st" "Qtail st1 = Qtail st" "qheap st1 = qheap st" "umem st1 = umem st" "jiffies st1 = jiffies st"
    "pkt st1 = pkt st" "mcpshmem st1 = mcpshmem st" "route dst \<noteq> None"
  using assms by (auto simp: p3_number_def next_msgID_def next_msgNum_def upd_remote_def Let_def split: option.splits if_splits bind_splits)

lemma p3_page_ok:
  assumes ok: "ring_ok env (pkt st)" and cb: "cb_of env hdr = (nal, task)" and L: "rts_max < length msg" "length msg < 2 ^ 32"
    and mm: "mm_of env task = Some frame" "mapped frame buf (length msg)" "user_bytes frame buf (length msg) (umem st) = msg"
  obtains (refused) "p3_page env nal buf hdr cookie True NOOP P3_RTS mid mnum rts_max st = Some (Inr (-1, 0, task), st)" "\<not> idle env (pkt st)"
  | (given) i s where "p3_page env nal buf hdr cookie True NOOP P3_RTS mid mnum rts_max st = Some (Inr (int i, rts_max, task), st\<lparr>pkt := s\<rparr>)"
      "ring_ok env s" "holds i s" "sent s = sent (pkt st)" "my_pnid s = my_pnid (pkt st)"
      "ph_type (pg_hdr (page_at env i s)) = P3_RTS" "ph_msgID (pg_hdr (page_at env i s)) = mid" "pg_phdr (page_at env i s) = Some hdr"
      "map (pg_data (page_at env i s)) [0..<rts_max] = take rts_max msg" "idle env (pkt st) \<Longrightarrow> idle env s"
  using ok
proof (cases rule: build_page_ok [where type = P3_RTS and msgID = mid and phdr = "Some hdr" and payload = rts_max and msgNum = mnum])
  case 1: refused
  have "rts_max + headers_of (Some hdr) \<le> MYRPKT_MTU"
    by (simp add: headers_of_def MYRPKT_MTU_def sizeof_pkthdr_def sizeof_ptl_hdr_def PAGE_SHIFT_def)
  then show thesis using 1 cb by (intro refused) (simp_all add: p3_page_def Let_def)
next
  case b: (given i s1)
  let ?e = "undefined\<lparr>q_task := task, q_buf := buf\<rparr> :: Qentry_t" let ?st = "st\<lparr>pkt := s1\<rparr>"
  have m: "entry_msg env ?e (umem ?st) msg" using mm by (simp add: entry_msg_def)
  have le: "0 + rts_max \<le> length msg" using L(1) by simp
  have pos: "0 < rts_max" by (simp add: MYRPKT_MTU_def sizeof_pkthdr_def sizeof_ptl_hdr_def PAGE_SHIFT_def)
  have ok1: "ring_ok env (pkt ?st)" "holds i (pkt ?st)" using b(2,3) by simp_all
  obtain s where u: "user_to_page env (q_task ?e) (int i) (q_buf ?e + ucast (of_nat 0 :: 32 word)) rts_max ?st = (0, ?st\<lparr>pkt := s\<rparr>)"
    "ring_ok env s" "holds i s" "sent s = sent (pkt ?st)" "my_pnid s = my_pnid (pkt ?st)"
    "pg_hdr (page_at env i s) = pg_hdr (page_at env i (pkt ?st))" "pg_phdr (page_at env i s) = pg_phdr (page_at env i (pkt ?st))"
    "map (pg_data (page_at env i s)) [0..<rts_max] = take rts_max (drop 0 msg)" "idle env (pkt ?st) \<Longrightarrow> idle env s"
    by (rule user_to_page_ok [OF m le L(2) ok1]) (rule that)
  have "p3_page env nal buf hdr cookie True NOOP P3_RTS mid mnum rts_max st = Some (Inr (int i, rts_max, task), st\<lparr>pkt := s\<rparr>)"
    using b(1) u(1) cb pos by (simp add: p3_page_def Let_def)
  then show thesis using u b by (intro given) (simp_all add: new_hdr_def)
qed

lemma p3_enqueue_ok:
  assumes ok: "queues_ok st qs" "ring_ok env (pkt st)" "kmalloc_ok env" and r: "route dst \<noteq> None"
  obtains (full) "p3_enqueue env nal buf len dst hdr cookie ev mid n task st = Some (None, st)"
  | (queued) a st' e where "p3_enqueue env nal buf len dst hdr cookie ev mid n task st = Some (Some a, st')"
      "has env (qs(Qsnd_pending := qs Qsnd_pending @ [a])) a e st'" "pkt st' = pkt st" "umem st' = umem st"
      "\<And>x. x \<noteq> a \<Longrightarrow> ent st' x = ent st x" "\<And>R. a \<notin> set (qs R)"
      "q_msgID e = mid" "q_retries e = 0" "q_seq e = 0" "q_task e = task" "q_buf e = buf" "q_len e = ucast len"
      "q_datasent e = of_nat n" "q_dst_nid e = of_int dst"
proof (cases "kmalloc env (qheap st)")
  case None
  then show thesis using enqueue_none [of "kmalloc env" st] by (intro full) (simp add: p3_enqueue_def)
next
  case (Some aj)
  obtain a junk where km: "kmalloc env (qheap st) = Some (a, junk)" using Some by (cases aj) simp
  have fresh: "qheap st a = None" using ok(3) km unfolding kmalloc_ok_def by (force split: option.splits)
  let ?qs = "qs(Qsnd_pending := qs Qsnd_pending @ [a])" and ?e = "unlinked (new_entry mid (jiffies st) junk)"
  obtain st1 where e: "enqueue (kmalloc env) Qsnd_pending mid st = Some (Some a, st1)" "queues_ok st1 ?qs" "frame_eq st st1"
      "ent st1 = (ent st)(a \<mapsto> ?e)" by (rule enqueue_ok [OF ok(1), where km = "kmalloc env", OF km fresh]) (rule that)
  obtain m2 st2 where n: "next_msgNum dst False st1 = Some (m2, st2)" "Qhead st2 = Qhead st1" "Qtail st2 = Qtail st1"
      "qheap st2 = qheap st1" "umem st2 = umem st1" "pkt st2 = pkt st1"
    using r by (auto simp: next_msgNum_def)
  have h: "has env ?qs a ?e st2"
    using queues_ok_cong [OF e(2) n(2-4)] ent_cong [OF n(4)] e(4) ok(2) n(6) frame_eq_more(1) [OF e(3)] by (simp add: has_def)
  let ?f = "\<lambda>e. e\<lparr>q_msgNum := m2, q_event := ev, q_nal := nal, q_task := task, q_cookie := cookie, q_len := ucast len,
      q_datasent := of_nat n, q_dst_nid := of_int dst, q_buf := buf, q_seq := 0, q_phdr := hdr\<rparr>"
  have pl: "plain_upd ?f" by (rule plain_updI) (simp_all add: unlinked_def)
  obtain st' where u: "upd_entry a ?f st2 = Some st'" "moves env ?qs a (?f ?e) [] st2 st'" "pkt st' = pkt st2"
    by (rule upd_moves [OF h pl]) (rule that)
  have "p3_enqueue env nal buf len dst hdr cookie ev mid n task st = Some (Some a, st')"
    using e(1) n(1) u(1) by (simp add: p3_enqueue_def)
  moreover have "a \<notin> set (qs R)" for R using on_queueD(2) [OF queues_okD(1) [OF ok(1), of R]] fresh by auto
  moreover have "umem st' = umem st" "pkt st' = pkt st" "\<And>x. x \<noteq> a \<Longrightarrow> ent st' x = ent st x"
    using u(2,3) n(5,6) frame_eq_more(1,2) [OF e(3)] ent_cong [OF n(4)] e(4) by (simp_all add: moves_def)
  ultimately show thesis by (intro queued [OF _ moves_has [OF u(2)]]) (simp_all add: new_entry_def unlinked_def)
qed

lemma p3_kind_long:
  "rts_max < L \<Longrightarrow> L < 2 ^ 32 \<Longrightarrow> p3_kind NOOP (of_nat L) = (rts_max, P3_RTS, E_SENT_P3_RTS)"
  by (simp add: p3_kind_def Let_def unat_of_nat take_bit_nat_eq_self min_def)

lemma finalize_pkt [simp]: "pkt (snd (finalize env nal n cookie st)) = pkt st"
  by (simp add: finalize_def kcall_def Let_def split: option.split)

lemma route_dst_ok: "route dst \<noteq> None \<Longrightarrow> q_dst_nid e = of_int dst \<Longrightarrow> dst_ok e"
  by (auto simp: route_def dst_ok_def MAX_NUM_ROUTES_def MAX_NODES_def uint_word_of_int split: if_splits)

lemma free_page_sent:
  assumes "ring_ok env s" "holds i s"
  shows "sent (free_snd_page (int i) s) = sent s"
proof -
  obtain k where k: "ring_inv (virt_to_bus env) k s" using assms(1) by (auto simp: ring_ok_def)
  show ?thesis using set_stat_inv [OF k, of i pg_avail] assms(2) by (simp add: free_snd_page_def holds_def sent_def)
qed

text \<open>The entry and the packet of a page that the card accepts.\<close>

lemma submit_start:
  assumes ok: "queues_ok st qs" "ring_ok env (pkt st)" "holds i (pkt st)" "kmalloc_ok env" "route dst \<noteq> None"
    and mm: "mm_of env task = Some frame" "mapped frame buf (length msg)" "user_bytes frame buf (length msg) (umem st) = msg"
    and L: "rts_max < length msg" "length msg < 2 ^ 32"
    and pg: "ph_type (pg_hdr (page_at env i (pkt st))) = P3_RTS" "ph_msgID (pg_hdr (page_at env i (pkt st))) = mid"
      "pg_phdr (page_at env i (pkt st)) = Some hdr" "map (pg_data (page_at env i (pkt st))) [0..<rts_max] = take rts_max msg"
    and sub: "p3_submit env nal buf (of_nat (length msg)) dst hdr cookie True E_SENT_P3_RTS mid rts_max (Inr (int i, rts_max, task)) st = Some (rc, st')"
    and acc: "sent (pkt st') = sent (pkt st) @ [p]"
    and new: "\<And>Q x. Q \<in> {Qsnd_pending, Qsending} \<Longrightarrow> x \<in> set (qs Q) \<Longrightarrow> msgid st x \<noteq> ph_msgID (pk_hdr p)"
  obtains a where "tx_side env (ph_msgID (pk_hdr p)) (my_pnid (pkt st)) msg a 0 0 rts_max st'" "rc = P3_OK"
    "ph_type (pk_hdr p) = P3_RTS" "pk_data p = take rts_max msg" "pk_phdr p = Some hdr"
    "find_queue Qsnd_pending (ph_msgID (pk_hdr p)) st' = Some (Some a)"
  using ok(1,2,4,5)
proof (cases rule: p3_enqueue_ok [where nal = nal and buf = buf and len = "of_nat (length msg)" and hdr = hdr
        and cookie = cookie and ev = E_SENT_P3_RTS and mid = mid and n = rts_max and task = task])
  case full
  then have "pkt st' = free_snd_page (int i) (pkt st)" using sub by (auto simp: p3_submit_def)
  then show thesis using acc free_page_sent [OF ok(2,3)] by simp
next
  case e: (queued a st1 e)
  let ?len = "sizeof_pkthdr + sizeof_ptl_hdr + rts_max"
  have pk: "ring_ok env (pkt st1)" "holds i (pkt st1)" using e(3) ok(2,3) by simp_all
  from pk show thesis
  proof (cases rule: xmit_ok [where dst = "of_int dst" and len = ?len])
    case (refused s)
    then have "st' = st1\<lparr>pkt := s\<rparr>" using sub e(1) by (simp add: p3_submit_def)
    then show thesis using acc refused(3) e(3) by simp
  next
    case x: (sent s)
    let ?qs = "qs(Qsnd_pending := qs Qsnd_pending @ [a])"
    have st': "st' = st1\<lparr>pkt := s\<rparr>" "rc = P3_OK" using sub e(1) x(1) by (simp_all add: p3_submit_def)
    have p: "p = packet_of (uint (of_int dst :: 16 word)) (int ?len) (sent_page (int ?len) (my_pnid (pkt st)) (page_at env i (pkt st)))"
      using acc x(3) st'(1) e(3) by simp
    have ph: "ph_msgID (pk_hdr p) = mid" "ph_type (pk_hdr p) = P3_RTS" "pk_phdr p = Some hdr" "pk_data p = take rts_max msg"
      using pg unfolding p by (simp_all add: packet_of_def sent_page_def headers_of_def nat_add_distrib nat_int_add)
    have en: "ent st' = ent st1" unfolding st'(1) by (rule ent_cong) simp
    have h: "has env ?qs a e st'"
      using e(2) x(2) queues_ok_cong [of st1 ?qs st'] en st'(1) by (simp add: has_def)
    have id: "msgid st' a = mid" "\<And>x. x \<noteq> a \<Longrightarrow> msgid st' x = msgid st x" using h e(5,7) en by (simp_all add: msgid_def has_def)
    have sn: "sending ?qs mid a st'"
    proof -
      have "x = a" if "Q \<in> {Qsnd_pending, Qsending}" "x \<in> set (?qs Q)" "msgid st' x = mid" for Q x
        using that new [of Q x, unfolded ph(1)] id(2) [of x] by (cases "x = a") (auto split: if_splits)
      then show ?thesis using id(1) by (simp add: sending_def)
    qed
    have "find_queue Qsnd_pending mid st' = Some (Some a)"
      using find_queue_ok [of st' ?qs Qsnd_pending mid] sending_find [OF sn, of Qsnd_pending] h by (simp add: has_def)
    moreover have "entry_msg env e (umem st') msg" using mm e(4,10,11) st'(1) by (simp add: entry_msg_def)
    moreover have "of_nat (length msg) \<le> q_len e" "q_len e = of_nat (length msg)" using e(12) by (simp_all add: ucast_down)
    moreover have "my_pnid (pkt st') = my_pnid (pkt st)" using x(4) st'(1) e(3) by simp
    ultimately have "tx_side env mid (my_pnid (pkt st)) msg a 0 0 rts_max st' \<and> find_queue Qsnd_pending mid st' = Some (Some a)"
      unfolding tx_side_def using h sn e(7-9,13) route_dst_ok [OF ok(5) e(14)] by (intro conjI exI [of _ ?qs] exI [of _ e]) simp_all
    then show thesis using st'(2) ph by (intro that [of a]) simp_all
  qed
qed

lemma p3_send_start:
  assumes ok: "queues_ok st qs" "ring_ok env (pkt st)" "kmalloc_ok env"
    and cb: "cb_of env hdr = (nal, task)" and L: "rts_max < length msg" "length msg < 2 ^ 32"
    and mm: "mm_of env task = Some frame" "mapped frame buf (length msg)" "user_bytes frame buf (length msg) (umem st) = msg"
    and new: "\<And>Q x. Q \<in> {Qsnd_pending, Qsending} \<Longrightarrow> x \<in> set (qs Q) \<Longrightarrow> msgid st x \<noteq> ph_msgID (pk_hdr p)"
    and send: "p3_send env nal buf (of_nat (length msg)) dst hdr cookie 0 n0 NOOP st = Some (rc, st')"
    and acc: "sent (pkt st') = sent (pkt st) @ [p]"
  obtains a where "tx_side env (ph_msgID (pk_hdr p)) (my_pnid (pkt st)) msg a 0 0 rts_max st'" "rc = P3_OK"
    "ph_type (pk_hdr p) = P3_RTS" "pk_data p = take rts_max msg" "pk_phdr p = Some hdr"
    "find_queue Qsnd_pending (ph_msgID (pk_hdr p)) st' = Some (Some a)"
proof -
  have dst: "\<not> (dst > int MAX_NODES \<and> dst \<noteq> TEST_ROUTE_ID)"
  proof
    assume "dst > int MAX_NODES \<and> dst \<noteq> TEST_ROUTE_ID"
    then have "st' = snd (finalize env nal 24 cookie st)" using send by (simp add: p3_send_def)
    then show False using acc by simp
  qed
  obtain mid mnum qo st1 where nm: "p3_number dst 0 n0 st = Some (mid, mnum, qo, st1)"
    using send dst by (cases "p3_number dst 0 n0 st") (auto simp: p3_send_def)
  note same = p3_number_same [OF nm]
  have "mcpshmem st1"
  proof (rule ccontr)
    assume "\<not> mcpshmem st1"
    then have "st' = snd (finalize env nal 20 cookie st1)" using send nm dst by (simp add: p3_send_def)
    then show False using acc same(6) by simp
  qed
  then have "p3_send env nal buf (of_nat (length msg)) dst hdr cookie 0 n0 NOOP st =
      Option.bind (if qo then Some (Inr (-1, rts_max, junk_task env), st1)
        else p3_page env nal buf hdr cookie True NOOP P3_RTS mid mnum rts_max st1)
        (\<lambda>(r, st2). p3_submit env nal buf (of_nat (length msg)) dst hdr cookie True E_SENT_P3_RTS mid rts_max r st2)"
    using nm dst p3_kind_long [OF L] by (cases qo) (auto simp: p3_send_def)
  then obtain r st2 where pg: "(if qo then Some (Inr (-1, rts_max, junk_task env), st1)
        else p3_page env nal buf hdr cookie True NOOP P3_RTS mid mnum rts_max st1) = Some (r, st2)"
      and sub: "p3_submit env nal buf (of_nat (length msg)) dst hdr cookie True E_SENT_P3_RTS mid rts_max r st2 = Some (rc, st')"
    using send by (auto split: bind_splits)
  have ok1: "queues_ok st1 qs" "ring_ok env (pkt st1)" "user_bytes frame buf (length msg) (umem st1) = msg"
    using queues_ok_cong [OF ok(1) same(1-3)] ok(2) mm(3) same(4,6) by simp_all
  have none: False if "r = Inr (-1, n, t)" "st2 = st1" for n t
  proof (rule p3_enqueue_ok [OF ok1(1,2) ok(3) same(8), where nal = nal and buf = buf and len = "of_nat (length msg)" and hdr = hdr
        and cookie = cookie and ev = E_SENT_P3_RTS and mid = mid and n = n and task = t])
    assume "p3_enqueue env nal buf (of_nat (length msg)) dst hdr cookie E_SENT_P3_RTS mid n t st1 = Some (None, st1)"
    then have "pkt st' = pkt st1" using sub that by (auto simp: p3_submit_def free_snd_page_def)
    then show False using acc same(6) by simp
  next
    fix a st3 assume "p3_enqueue env nal buf (of_nat (length msg)) dst hdr cookie E_SENT_P3_RTS mid n t st1 = Some (Some a, st3)" "pkt st3 = pkt st1"
    then have "pkt st' = pkt st1" using sub that by (auto simp: p3_submit_def)
    then show False using acc same(6) by simp
  qed
  have page: "p3_page env nal buf hdr cookie True NOOP P3_RTS mid mnum rts_max st1 = Some (r, st2)"
    using pg none by (cases qo) auto
  have pn: "my_pnid (pkt st1) = my_pnid (pkt st)" "sent (pkt st1) = sent (pkt st)" "msgid st1 = msgid st"
    using same(6) ent_cong [OF same(3)] by (simp_all add: msgid_def fun_eq_iff)
  from ok1(2) cb L mm(1,2) ok1(3) show thesis
  proof (cases rule: p3_page_ok [where cookie = cookie and mid = mid and mnum = mnum])
    case refused
    then show thesis using page none by auto
  next
    case g: (given i s)
    let ?st = "st1\<lparr>pkt := s\<rparr>"
    have r: "r = Inr (int i, rts_max, task)" "st2 = ?st" using g(1) page by simp_all
    have q: "queues_ok ?st qs" by (rule queues_ok_cong [OF ok1(1)]) simp_all
    have "ent ?st = ent st1" by (rule ent_cong) simp
    then have id: "msgid ?st = msgid st" using pn(3) by (simp add: msgid_def fun_eq_iff)
    have f: "ring_ok env (pkt ?st)" "holds i (pkt ?st)" "user_bytes frame buf (length msg) (umem ?st) = msg"
      "ph_type (pg_hdr (page_at env i (pkt ?st))) = P3_RTS" "ph_msgID (pg_hdr (page_at env i (pkt ?st))) = mid"
      "pg_phdr (page_at env i (pkt ?st)) = Some hdr" "map (pg_data (page_at env i (pkt ?st))) [0..<rts_max] = take rts_max msg"
      "sent (pkt st') = sent (pkt ?st) @ [p]" "my_pnid (pkt ?st) = my_pnid (pkt st)"
      "\<And>Q x. Q \<in> {Qsnd_pending, Qsending} \<Longrightarrow> x \<in> set (qs Q) \<Longrightarrow> msgid ?st x \<noteq> ph_msgID (pk_hdr p)"
      using g ok1(3) pn acc new id by simp_all
    show thesis
      by (rule submit_start [OF q f(1,2) ok(3) same(8) mm(1,2) f(3) L f(4-7) sub [unfolded r] f(8,10)]) (use that f(9) in simp_all)
  qed
qed

text \<open>
  A card that is idle accepts the announcement: the message is sent when there is memory for
  its entry and its destination has answered before, or has not been sent a message yet.
\<close>

lemma p3_send_accepts:
  assumes ok: "queues_ok st qs" "idle env (pkt st)" "kmalloc_ok env" "kmalloc env (qheap st) \<noteq> None"
    and nm: "p3_number dst 0 n0 st = Some (mid, mnum, False, st1)" "mcpshmem st" "0 \<le> dst" "dst < int MAX_NUM_ROUTES"
    and cb: "cb_of env hdr = (nal, task)" and L: "rts_max < length msg" "length msg < 2 ^ 32"
    and mm: "mm_of env task = Some frame" "mapped frame buf (length msg)" "user_bytes frame buf (length msg) (umem st) = msg"
  obtains st' p where "p3_send env nal buf (of_nat (length msg)) dst hdr cookie 0 n0 NOOP st = Some (P3_OK, st')"
    "sent (pkt st') = sent (pkt st) @ [p]" "ph_msgID (pk_hdr p) = mid"
proof -
  note same = p3_number_same [OF nm(1)]
  have rk: "ring_ok env (pkt st1)" "idle env (pkt st1)" using ok(2) same(6) by (auto simp: ring_ok_def idle_def)
  have mm1: "user_bytes frame buf (length msg) (umem st1) = msg" using mm(3) same(4) by simp
  have dst: "\<not> (dst > int MAX_NODES \<and> dst \<noteq> TEST_ROUTE_ID)" using nm(4) by (simp add: MAX_NODES_def MAX_NUM_ROUTES_def)
  from rk(1) cb L mm(1,2) mm1 show thesis
  proof (cases rule: p3_page_ok [where cookie = cookie and mid = mid and mnum = mnum])
    case refused
    then show thesis using rk(2) by simp
  next
    case g: (given i s)
    let ?st = "st1\<lparr>pkt := s\<rparr>" and ?len = "sizeof_pkthdr + sizeof_ptl_hdr + rts_max"
    have q: "queues_ok ?st qs" "ring_ok env (pkt ?st)" "kmalloc env (qheap ?st) \<noteq> None"
      using queues_ok_cong [OF ok(1), of ?st] same(1-3) g(2) ok(4) by simp_all
    obtain a st3 e where e: "p3_enqueue env nal buf (of_nat (length msg)) dst hdr cookie E_SENT_P3_RTS mid rts_max task ?st = Some (Some a, st3)"
        "pkt st3 = pkt ?st"
    proof (rule p3_enqueue_ok [OF q(1,2) ok(3) same(8), where nal = nal and buf = buf and len = "of_nat (length msg)" and hdr = hdr
          and cookie = cookie and ev = E_SENT_P3_RTS and mid = mid and n = rts_max and task = task])
      assume "p3_enqueue env nal buf (of_nat (length msg)) dst hdr cookie E_SENT_P3_RTS mid rts_max task ?st = Some (None, ?st)"
      then show thesis using q(3) by (auto simp: p3_enqueue_def enqueue_def split: option.splits bind_splits)
    qed (rule that)
    have pk: "ring_ok env (pkt st3)" "holds i (pkt st3)" "idle env (pkt st3)" using e(2) g(2,3) g(10) [OF rk(2)] by simp_all
    have "sendable (of_int dst) (int ?len)"
      using nm(3,4) by (simp add: sendable_def MAX_NODES_def MAX_NUM_ROUTES_def uint_word_of_int MYRPKT_MTU_def sizeof_pkthdr_def
          sizeof_ptl_hdr_def PAGE_SHIFT_def)
    then obtain s' where x: "xmit env (of_int dst) (int i) ?len st3 = Some (0, st3\<lparr>pkt := s'\<rparr>)"
        "sent s' = sent (pkt st3) @ [packet_of (uint (of_int dst :: 16 word)) (int ?len) (sent_page (int ?len) (my_pnid (pkt st3)) (page_at env i (pkt st3)))]"
      using xmit_ok [OF pk(1,2), of "of_int dst" ?len] pk(3) by metis
    have "p3_send env nal buf (of_nat (length msg)) dst hdr cookie 0 n0 NOOP st = Some (P3_OK, st3\<lparr>pkt := s'\<rparr>)"
      using dst nm(1,2) same(7) p3_kind_long [OF L] g(1) e(1) x(1) by (auto simp: p3_send_def p3_submit_def)
    moreover have "sent (pkt (st3\<lparr>pkt := s'\<rparr>)) = sent (pkt st) @ [packet_of (uint (of_int dst :: 16 word)) (int ?len) (sent_page (int ?len) (my_pnid (pkt st3)) (page_at env i (pkt st3)))]"
      using x(2) e(2) g(4) same(6) by simp
    ultimately show thesis by (rule that) (use e(2) g(7) in \<open>simp add: packet_of_def sent_page_def\<close>)
  qed
qed

end
