(* ===== verification/R_Message.thy ===== *)
theory R_Message
  imports R_Finish R_Start
begin

text \<open>
  The way of a message from one process to another: \<open>p3_send\<close> announces it,
  \<open>p3_recvBody\<close> answers, and the packets of the rest follow, with losses, timeouts and
  new rounds.  The buffer of the receiver holds the message when the receiver's library or the
  sender is told that it has arrived; and with no other help than the receiver's own answers
  the transfer can be completed from every state in which it has started.
\<close>

section \<open>The beginning\<close>

definition sane :: "rts_env \<Rightarrow> rts \<Rightarrow> bool" where
  "sane env st \<longleftrightarrow> (\<exists>qs. queues_ok st qs) \<and> ring_ok env (pkt st) \<and> kmalloc_ok env"

text \<open>
  The announcement has been accepted by the sender's card: its packet is \<open>p\<close>, the entry of
  the message is \<open>a\<close>.  The id of the message is not in use.  When \<open>p3_send\<close> gets no
  page it enters the message in the queue without a packet; that is not such a beginning.
\<close>

definition send_begins ::
  "rts_env \<Rightarrow> nat option \<Rightarrow> 64 word \<Rightarrow> 8 word list \<Rightarrow> int \<Rightarrow> ptl_hdr \<Rightarrow> nat option \<Rightarrow> rts \<Rightarrow> rts \<Rightarrow> packet \<Rightarrow> nat \<Rightarrow> bool" where
  "send_begins env nal buf msg dst hdr cookie st st' p a \<longleftrightarrow>
     sane env st \<and>
     (\<exists>task frame. cb_of env hdr = (nal, task) \<and> mm_of env task = Some frame \<and> mapped frame buf (length msg) \<and>
        user_bytes frame buf (length msg) (umem st) = msg) \<and>
     rts_max < length msg \<and> length msg < 2 ^ 32 \<and> 0 \<le> my_pnid (pkt st) \<and> my_pnid (pkt st) < int MAX_NUM_ROUTES \<and>
     (\<exists>rc. p3_send env nal buf (of_nat (length msg)) dst hdr cookie 0 0 NOOP st = Some (rc, st')) \<and>
     sent (pkt st') = sent (pkt st) @ [p] \<and>
     find_queue Qsnd_pending (ph_msgID (pk_hdr p)) st = Some None \<and> find_queue Qsending (ph_msgID (pk_hdr p)) st = Some None \<and>
     find_queue Qsnd_pending (ph_msgID (pk_hdr p)) st' = Some (Some a)"

text \<open>
  The library of the receiver has taken the announcement \<open>p\<close>, for a message of \<open>L\<close>
  bytes into the buffer \<open>buf\<close> of a process; the entry of the message is \<open>b\<close>.
\<close>

definition recv_begins ::
  "rts_env \<Rightarrow> nat option \<Rightarrow> xfer_t \<Rightarrow> 64 word \<Rightarrow> nat \<Rightarrow> 64 word \<Rightarrow> nat option \<Rightarrow> page_tables \<Rightarrow> rts \<Rightarrow> rts \<Rightarrow> packet \<Rightarrow> nat \<Rightarrow> bool" where
  "recv_begins env nal xfer buf L rlen cookie frame st st' p b \<longleftrightarrow>
     sane env st \<and> kmalloc env (qheap st) \<noteq> None \<and> xf_type xfer = ph_type (pk_hdr p) \<and> xf_pkt xfer = pk_data p \<and>
     xf_msgID xfer = ph_msgID (pk_hdr p) \<and> mm_of env (xf_task xfer) = Some frame \<and> writable frame buf L \<and>
     find_queue Qreceiving (ph_msgID (pk_hdr p)) st = Some None \<and>
     (\<exists>rc. p3_recvBody env nal xfer buf (of_nat L) rlen cookie st = Some (rc, st')) \<and>
     find_queue Qreceiving (ph_msgID (pk_hdr p)) st' = Some (Some b)"

lemma unused:
  assumes "queues_ok st qs" "find_queue Q m st = Some None" "x \<in> set (qs Q)"
  shows "msgid st x \<noteq> m"
  using assms find_queue_ok [OF assms(1), of Q m] by (auto simp: find_None_iff)

lemma send_begins_side:
  assumes "send_begins env nal buf msg dst hdr cookie st st' p a"
  shows "tx_side env (ph_msgID (pk_hdr p)) (my_pnid (pkt st)) msg a 0 0 rts_max st'" "ph_type (pk_hdr p) = P3_RTS"
    "pk_data p = take rts_max msg"
proof -
  obtain qs task frame rc where h: "queues_ok st qs" "ring_ok env (pkt st)" "kmalloc_ok env" "cb_of env hdr = (nal, task)"
      "mm_of env task = Some frame" "mapped frame buf (length msg)" "user_bytes frame buf (length msg) (umem st) = msg"
      "rts_max < length msg" "length msg < 2 ^ 32" "p3_send env nal buf (of_nat (length msg)) dst hdr cookie 0 0 NOOP st = Some (rc, st')"
      "sent (pkt st') = sent (pkt st) @ [p]" "find_queue Qsnd_pending (ph_msgID (pk_hdr p)) st = Some None"
      "find_queue Qsending (ph_msgID (pk_hdr p)) st = Some None" "find_queue Qsnd_pending (ph_msgID (pk_hdr p)) st' = Some (Some a)"
    using assms by (auto simp: send_begins_def sane_def)
  have new: "msgid st x \<noteq> ph_msgID (pk_hdr p)" if "Q \<in> {Qsnd_pending, Qsending}" "x \<in> set (qs Q)" for Q x
    using that unused [OF h(1)] h(12,13) by blast
  obtain a' where t: "tx_side env (ph_msgID (pk_hdr p)) (my_pnid (pkt st)) msg a' 0 0 rts_max st'" "ph_type (pk_hdr p) = P3_RTS"
      "pk_data p = take rts_max msg"
    by (rule p3_send_start [OF h(1-4,8,9,5-7) new h(10,11)]) (assumption | rule that)+
  obtain qs' where s: "queues_ok st' qs'" "sending qs' (ph_msgID (pk_hdr p)) a' st'" using t(1) by (auto simp: tx_side_def has_def)
  have "a' = a"
    using h(14) find_queue_ok [OF s(1), of Qsnd_pending "ph_msgID (pk_hdr p)"] sending_find [OF s(2), of Qsnd_pending] by (simp split: if_splits)
  then show "tx_side env (ph_msgID (pk_hdr p)) (my_pnid (pkt st)) msg a 0 0 rts_max st'" "ph_type (pk_hdr p) = P3_RTS"
    "pk_data p = take rts_max msg" using t by simp_all
qed

lemma recv_begins_side:
  assumes "recv_begins env nal xfer buf (length msg) rlen cookie frame st st' p b" "ph_type (pk_hdr p) = P3_RTS" "pk_data p = take B msg"
    "B < length msg" "length msg < 2 ^ 32"
  shows "rx_side env (ph_msgID (pk_hdr p)) msg frame buf b 0 1 B False st'" "my_pnid (pkt st') = my_pnid (pkt st)"
    "answered b st' = Some (of_int (src_nid (hdr_src (xf_hdr xfer))))" "length (sent (pkt st)) \<le> length (sent (pkt st'))"
proof -
  obtain qs rc where h: "queues_ok st qs" "ring_ok env (pkt st)" "kmalloc_ok env" "kmalloc env (qheap st) \<noteq> None" "xf_type xfer = P3_RTS"
      "xf_pkt xfer = take B msg" "xf_msgID xfer = ph_msgID (pk_hdr p)" "mm_of env (xf_task xfer) = Some frame" "writable frame buf (length msg)"
      "find_queue Qreceiving (ph_msgID (pk_hdr p)) st = Some None" "p3_recvBody env nal xfer buf (of_nat (length msg)) rlen cookie st = Some (rc, st')"
      "find_queue Qreceiving (ph_msgID (pk_hdr p)) st' = Some (Some b)"
    using assms(1-3) by (auto simp: recv_begins_def sane_def)
  have new: "find (\<lambda>a. msgid st a = xf_msgID xfer) (qs Qreceiving) = None" using h(7,10) find_queue_ok [OF h(1)] by simp
  obtain b' where r: "rx_side env (xf_msgID xfer) msg frame buf b' 0 1 B False st'" "my_pnid (pkt st') = my_pnid (pkt st)"
      "answered b' st' = Some (of_int (src_nid (hdr_src (xf_hdr xfer))))" "length (sent (pkt st)) \<le> length (sent (pkt st'))"
    by (rule recvBody_start [OF h(2,1,3-6) assms(4,5) new h(8,9), of nal rlen cookie]) (use h(11) that in simp)
  obtain qs' where "queues_ok st' qs'" "find (\<lambda>x. msgid st' x = xf_msgID xfer) (qs' Qreceiving) = Some b'"
    using r(1) by (auto simp: rx_side_def has_def)
  then have "b' = b" using h(7,12) find_queue_ok [of st' qs' Qreceiving] by simp
  then show "rx_side env (ph_msgID (pk_hdr p)) msg frame buf b 0 1 B False st'" "my_pnid (pkt st') = my_pnid (pkt st)"
    "answered b st' = Some (of_int (src_nid (hdr_src (xf_hdr xfer))))" "length (sent (pkt st)) \<le> length (sent (pkt st'))"
    using r h(7) by simp_all
qed

text \<open>The two nodes when the announcement has been answered.\<close>

definition begun :: "rts \<Rightarrow> rts \<Rightarrow> link" where
  "begun st rst = \<lparr>tx_node = st, rx_node = rst, taken = length (sent (pkt st))\<rparr>"

lemma begun_start:
  assumes s: "send_begins senv snal sbuf msg dst hdr scookie st st1 p a"
    and r: "recv_begins renv rnal xfer rbuf (length msg) rlen rcookie frame rst rst1 p b"
  shows "start_ok senv renv (ph_msgID (pk_hdr p)) (my_pnid (pkt st)) msg rts_max frame rbuf a b (begun st1 rst1)"
proof -
  have l: "rts_max < length msg" "length msg < 2 ^ 32" "0 \<le> my_pnid (pkt st)" "my_pnid (pkt st) < int MAX_NUM_ROUTES"
    using s by (simp_all add: send_begins_def)
  note t = send_begins_side [OF s]
  show ?thesis
    using l t(1) recv_begins_side(1) [OF r t(2,3) l(1,2)] by (simp add: start_ok_def begun_def)
qed

text \<open>The same with both directions of the network: the receiver's answer is under way.\<close>

definition net_begun :: "rts \<Rightarrow> rts \<Rightarrow> rts \<Rightarrow> net" where
  "net_begun st rst rst' = \<lparr>ends = begun st rst', given = length (sent (pkt rst))\<rparr>"

definition begun_conn ::
  "rts_env \<Rightarrow> rts_env \<Rightarrow> (packet \<Rightarrow> rts \<Rightarrow> rts option) \<Rightarrow> 8 word list \<Rightarrow> page_tables \<Rightarrow> 64 word \<Rightarrow> rts \<Rightarrow> rts \<Rightarrow> rts \<Rightarrow> packet \<Rightarrow> nat \<Rightarrow> nat \<Rightarrow> conn" where
  "begun_conn senv renv other msg frame buf st rst rst' p a b =
     \<lparr>cn_senv = senv, cn_renv = renv, cn_other = other, cn_id = ph_msgID (pk_hdr p), cn_pnid = my_pnid (pkt st), cn_msg = msg,
      cn_first = rts_max, cn_frame = frame, cn_buf = buf, cn_tx = a, cn_rx = b, cn_before = length (sent (pkt rst')),
      cn_rpnid = my_pnid (pkt rst)\<rparr>"

lemma begun_conn_sel [simp]:
  "cn_senv (begun_conn senv renv other msg frame buf st rst rst' p a b) = senv"
  "cn_renv (begun_conn senv renv other msg frame buf st rst rst' p a b) = renv"
  "cn_other (begun_conn senv renv other msg frame buf st rst rst' p a b) = other"
  "cn_id (begun_conn senv renv other msg frame buf st rst rst' p a b) = ph_msgID (pk_hdr p)"
  "cn_msg (begun_conn senv renv other msg frame buf st rst rst' p a b) = msg"
  "cn_tx (begun_conn senv renv other msg frame buf st rst rst' p a b) = a"
  "cn_rx (begun_conn senv renv other msg frame buf st rst rst' p a b) = b"
  by (simp_all add: begun_conn_def)

lemma net_begun_ok:
  assumes s: "send_begins senv snal sbuf msg dst hdr scookie st st1 p a"
    and r: "recv_begins renv rnal xfer rbuf (length msg) rlen rcookie frame rst rst1 p b"
    and n: "src_nid (hdr_src (xf_hdr xfer)) = my_pnid (pkt st)" "0 \<le> my_pnid (pkt rst)" "my_pnid (pkt rst) < int MAX_NUM_ROUTES"
  shows "conn_ok (begun_conn senv renv other msg frame rbuf st rst rst1 p a b)"
    "\<exists>G R K D r k d. net_ok (begun_conn senv renv other msg frame rbuf st rst rst1 p a b) G R K D r k d (net_begun st1 rst rst1)"
proof -
  let ?c = "begun_conn senv renv other msg frame rbuf st rst rst1 p a b"
  have l: "rts_max < length msg" "length msg < 2 ^ 32" "0 \<le> my_pnid (pkt st)" "my_pnid (pkt st) < int MAX_NUM_ROUTES"
    using s by (simp_all add: send_begins_def)
  show "conn_ok ?c" using l n by (simp add: conn_ok_def begun_conn_def)
  note x = recv_begins_side [OF r send_begins_side(2,3) [OF s] l(1,2)]
  obtain G R K D r k d where "sending_ok senv (ph_msgID (pk_hdr p)) (my_pnid (pkt st)) msg rts_max a G R K D st1 (taken (begun st1 rst1)) r k d"
      "receiving_ok renv (ph_msgID (pk_hdr p)) msg frame rbuf b (length (sent (pkt rst1))) r k d rst1"
    using start_inv [OF begun_start [OF s r]] by (auto simp: link_inv_def begun_def)
  then have "net_ok ?c G R K D r k d (net_begun st1 rst rst1)"
    using x(2-4) n(1) by (simp add: net_ok_def answers_to_def begun_conn_def net_begun_def begun_def)
  then show "\<exists>G R K D r k d. net_ok ?c G R K D r k d (net_begun st1 rst rst1)" by blast
qed

section \<open>Properties\<close>

lemma inv_bytes:
  assumes "link_inv senv renv msgID pnid msg B frame buf a b n0 l"
    "complete b (rx_node l) \<or> (\<exists>q \<in> set (drop n0 (sent (pkt (rx_node l)))). ph_type (pk_hdr q) = MSGEND)"
  shows "user_bytes frame buf (length msg) (umem (rx_node l)) = msg"
proof -
  obtain r k d fin where x: "rx_side renv msgID msg frame buf b r k d fin (rx_node l)"
      "(\<exists>q \<in> set (drop n0 (sent (pkt (rx_node l)))). ph_type (pk_hdr q) = MSGEND) \<longrightarrow> fin"
    using assms(1) unfolding link_inv_def receiving_ok_def by blast
  then have fin using assms(2) rx_complete [OF x(1)] by blast
  then show ?thesis using x(1) unfolding rx_side_def by auto
qed

text \<open>
  C1: a message of many packets arrives unchanged.  When \<open>p3_send\<close> has
  announced the message and \<open>p3_recvBody\<close> has answered, then in every state the two nodes
  can reach, whatever packets are lost, granted or sent again, the receiver's library is told
  of the end of the message, and the sender is sent MSGEND, only when the receiver's buffer
  holds the bytes of the sender's.
\<close>

theorem message_intact:
  assumes "send_begins senv snal sbuf msg dst hdr scookie st st1 p a"
    and "recv_begins renv rnal xfer rbuf (length msg) rlen rcookie frame rst rst1 p b"
    and "(link_step senv renv other (ph_msgID (pk_hdr p)) (length msg) a)\<^sup>*\<^sup>* (begun st1 rst1) l"
    and "complete b (rx_node l) \<or> (\<exists>q \<in> set (drop (length (sent (pkt rst1))) (sent (pkt (rx_node l)))). ph_type (pk_hdr q) = MSGEND)"
  shows "user_bytes frame rbuf (length msg) (umem (rx_node l)) = msg"
proof -
  have "length (sent (pkt (rx_node (begun st1 rst1)))) = length (sent (pkt rst1))" by (simp add: begun_def)
  then show ?thesis
    using inv_bytes [OF reach_inv [OF begun_start [OF assms(1,2)] assms(3)]] assms(4) by metis
qed

text \<open>
  C3: none of the handlers of a transfer faults.  In every state the two nodes
  can reach, a clear-to-send packet, a timeout of the sender and the next packet at the
  receiver are handled without an access through a null pointer or outside of an array.
\<close>

theorem message_no_fault:
  assumes "send_begins senv snal sbuf msg dst hdr scookie st st1 p a"
    and "recv_begins renv rnal xfer rbuf (length msg) rlen rcookie frame rst rst1 p b"
    and "(link_step senv renv other (ph_msgID (pk_hdr p)) (length msg) a)\<^sup>*\<^sup>* (begun st1 rst1) l"
  shows "(\<forall>c. cts_pkt (ph_msgID (pk_hdr p)) (length msg) c \<and> grant_ok a c (tx_node l) \<longrightarrow> rtscts_recv senv other c (tx_node l) \<noteq> None) \<and>
    (retry_ok a (tx_node l) \<longrightarrow> handleDataResend senv (ph_msgID (pk_hdr p)) (tx_node l) \<noteq> None) \<and>
    (taken l < length (wire (pkt (tx_node l))) \<longrightarrow> rtscts_recv renv other (wire (pkt (tx_node l)) ! taken l) (rx_node l) \<noteq> None)"
proof -
  have s: "length msg < 2 ^ 32" "0 \<le> my_pnid (pkt st)" "my_pnid (pkt st) < int MAX_NUM_ROUTES" using assms(1) by (simp_all add: send_begins_def)
  obtain G R K D r k d where x: "sending_ok senv (ph_msgID (pk_hdr p)) (my_pnid (pkt st)) msg rts_max a G R K D (tx_node l) (taken l) r k d"
      "receiving_ok renv (ph_msgID (pk_hdr p)) msg frame rbuf b (length (sent (pkt (rx_node (begun st1 rst1))))) r k d (rx_node l)"
    using reach_inv [OF begun_start [OF assms(1,2)] assms(3)] by (auto simp: link_inv_def)
  have "rtscts_recv senv other c (tx_node l) \<noteq> None"
    if "cts_pkt (ph_msgID (pk_hdr p)) (length msg) c" "grant_ok a c (tx_node l)" for c
    by (rule sending_cts [OF x(1) s(1) that, of other]) simp
  moreover have "handleDataResend senv (ph_msgID (pk_hdr p)) (tx_node l) \<noteq> None" if "retry_ok a (tx_node l)"
    by (rule sending_timeout [OF x(1) s(1) that]) simp_all
  moreover have "rtscts_recv renv other (wire (pkt (tx_node l)) ! taken l) (rx_node l) \<noteq> None" if "taken l < length (wire (pkt (tx_node l)))"
    by (rule data_ok [OF x(1) that x(2) s, of other]) simp
  ultimately show ?thesis by blast
qed

text \<open>
  C2: a transfer that has started never gets stuck.  Here a clear-to-send
  packet reaches the sender only when the receiver's card has sent it to the sender.  Take any
  state that the two nodes can reach from the announcement, however many packets of either
  direction were lost or refused, in which the sender has been granted packets or a
  clear-to-send packet for it is under way.  When the sender may time out once more, there are
  steps of the two nodes and the network after which the receiver's library has been told of
  the end of the message and its buffer holds the message.
\<close>

theorem message_can_finish:
  assumes "send_begins senv snal sbuf msg dst hdr scookie st st1 p a"
    and "recv_begins renv rnal xfer rbuf (length msg) rlen rcookie frame rst rst1 p b"
    and "src_nid (hdr_src (xf_hdr xfer)) = my_pnid (pkt st)" "0 \<le> my_pnid (pkt rst)" "my_pnid (pkt rst) < int MAX_NUM_ROUTES"
    and "(net_step senv renv other (ph_msgID (pk_hdr p)) (length msg) a)\<^sup>*\<^sup>* (net_begun st1 rst rst1) n"
    and "started (ph_msgID (pk_hdr p)) (length msg) a n" and "retry_ok a (tx_of n)"
  shows "\<exists>n'. (net_step senv renv other (ph_msgID (pk_hdr p)) (length msg) a)\<^sup>*\<^sup>* n n' \<and> complete b (rx_of n') \<and>
    user_bytes frame rbuf (length msg) (umem (rx_of n')) = msg"
proof -
  let ?c = "begun_conn senv renv other msg frame rbuf st rst rst1 p a b"
  note b = net_begun_ok [OF assms(1-5), of other]
  obtain G R K D r k d where "net_ok ?c G R K D r k d n" using steps_ok [OF _ b, unfolded begun_conn_sel, OF assms(6)] by blast
  from can_finish [OF this b(1)] assms(7,8) obtain n' where n':
    "(net_step senv renv other (ph_msgID (pk_hdr p)) (length msg) a)\<^sup>*\<^sup>* n n'" "complete b (rx_of n')" by auto
  have "(link_step senv renv other (ph_msgID (pk_hdr p)) (length msg) a)\<^sup>*\<^sup>* (begun st1 rst1) (ends n')"
    using net_links [OF rtranclp_trans [OF assms(6) n'(1)]] by (simp add: net_begun_def)
  from inv_bytes [OF reach_inv [OF begun_start [OF assms(1,2)] this]] n' show ?thesis by blast
qed

section \<open>An example\<close>

text \<open>
  A message of 10000 bytes between two nodes with idle cards and empty queues; the buffers are
  at 8192, and the pages of the processes are mapped to the same addresses.
\<close>

definition node_frame :: page_tables where
  "node_frame q = (if 0 < q \<and> q < 16 then Some (push_bit PAGE_SHIFT q) else None)"

definition demo_ptl_hdr :: ptl_hdr where
  "demo_ptl_hdr = \<lparr>hdr_nid = 0, hdr_pid = 0, hdr_src = \<lparr>src_nid = 3, src_pid = 0, src_gid = 0, src_rid = 0\<rparr>, hdr_msg = MSG_BARRIER 0\<rparr>"

definition demo_junk :: Qentry_t where
  "demo_junk = \<lparr>q_phdr = demo_ptl_hdr, q_pktlen = 0, q_buf = 0, q_msgID = 0, q_msgNum = 0, q_len = 0, q_datasent = 0, q_seq = 0,
     q_src_nid = 0, q_dst_nid = 0, q_event = E_INVALID, q_idle = 0, q_nal = None, q_cookie = None, q_task = None, q_next = None,
     q_granted_pkts = 0, q_lib_finalize_called = False, q_retries = 0, q_p3msg_retries = 0\<rparr>"

definition demo_env :: rts_env where
  "demo_env = \<lparr>kmalloc = (\<lambda>h. if h 0 = None then Some (0, demo_junk) else None), virt_to_bus = demo_bus, task_mm = (\<lambda>_. Some node_frame),
     cb_table = [\<lparr>cb_nid = 3, cb_pid = 0, cb_task = Some 0, cb_cb = Some 1\<rparr>], lib_parse_of = (\<lambda>_ _ _. (0, None)),
     lib_finalize_of = (\<lambda>_ _ _. 0), junk_task = None, junk_hdr = demo_ptl_hdr\<rparr>"

definition demo_node :: "int \<Rightarrow> 8 word \<Rightarrow> rts" where
  "demo_node i x = \<lparr>Qhead = (\<lambda>_. None), Qtail = (\<lambda>_. None), qheap = (\<lambda>_. None), jiffies = 0, outstanding_pkts = 0, pkt = demo_load\<lparr>my_pnid := i\<rparr>,
     lastMsgNum = (\<lambda>_. BOOTMSGNUM), send_msgNum = (\<lambda>_. BOOTMSGNUM),
     remote_status = (\<lambda>_. \<lparr>rs_last_update = 0, rs_status = RMT_BOOT, rs_first_ack = False\<rparr>), cur_msgID = 0, mcpshmem = True,
     p3_ping_done = True, p3_ping_nid = 0, rtest = \<lparr>pINgFO = (\<lambda>_. 0), route_status = (\<lambda>_. ROUTE_UNTESTED), route_request = 0,
       route_requestor = 0, rte_nid0 = 0, test_route = [], ping_stat = 0, route_stat = 0\<rparr>,
     umem = (\<lambda>_. x), k_calls = []\<rparr>"

definition node_msg :: "8 word list" where
  "node_msg = replicate 10000 7"

lemma node_phys:
  assumes "i < 10000"
  shows "phys node_frame 8192 i = 8192 + of_nat i"
proof -
  let ?v = "8192 + of_nat i :: 64 word"
  have u: "unat ?v = 8192 + i" using assms by (simp add: unat_word_ariths unat_of_nat take_bit_nat_eq_self)
  have d: "unat (drop_bit PAGE_SHIFT ?v) = (8192 + i) div 8192"
    unfolding unat_drop_bit_eq u by (simp add: drop_bit_eq_div PAGE_SHIFT_def)
  have "0 < drop_bit PAGE_SHIFT ?v" "drop_bit PAGE_SHIFT ?v < 16"
    using d assms by (simp_all add: word_less_nat_alt)
  then have "phys node_frame 8192 i = push_bit PAGE_SHIFT (drop_bit PAGE_SHIFT ?v) + page_off PAGE_SHIFT ?v"
    by (simp add: phys_def calcPhysAddress_def node_frame_def)
  also have "\<dots> = ?v" unfolding page_off_def take_bit_eq_mask [symmetric] by (rule bits_ident)
  finally show ?thesis .
qed

lemma node_frames_ok: "frames_ok PAGE_SHIFT node_frame"
proof -
  have "push_bit PAGE_SHIFT q \<noteq> 0" if "0 < q" "q < 16" for q :: "64 word"
  proof -
    have "unat (push_bit PAGE_SHIFT q) = unat q * 8192"
      using that by (simp add: push_bit_eq_mult PAGE_SHIFT_def unat_word_ariths(2) word_less_nat_alt)
    then show ?thesis using that(1) by (auto simp: word_less_nat_alt)
  qed
  then show ?thesis
    by (auto simp: frames_ok_def node_frame_def page_off_def take_bit_push_bit simp flip: take_bit_eq_mask split: if_splits)
qed

lemma demo_writable: "writable node_frame 8192 (length node_msg)"
proof -
  have "inj_on (phys node_frame 8192) {..<10000}"
  proof (rule inj_onI)
    fix i j assume i: "i \<in> {..<10000}" "j \<in> {..<10000}" "phys node_frame 8192 i = phys node_frame 8192 j"
    then have "of_nat i = (of_nat j :: 64 word)" by (simp add: node_phys)
    then have "unat (of_nat i :: 64 word) = unat (of_nat j :: 64 word)" by simp
    then show "i = j" using i(1,2) by (simp add: unat_of_nat take_bit_nat_eq_self)
  qed
  moreover have "phys node_frame 8192 i \<noteq> 0" if "i < 10000" for i
  proof -
    have "unat (phys node_frame 8192 i) = 8192 + i"
      unfolding node_phys [OF that] using that by (simp add: unat_word_ariths unat_of_nat take_bit_nat_eq_self)
    then show ?thesis by auto
  qed
  ultimately show ?thesis using node_frames_ok by (simp add: writable_def mapped_def node_msg_def)
qed

lemma demo_bytes: "user_bytes node_frame 8192 (length node_msg) (\<lambda>_. 7) = node_msg"
  by (simp add: user_bytes_def node_msg_def map_replicate_const)

lemma demo_idle: "idle demo_env demo_load"
proof -
  obtain k where k: "ring_inv demo_bus k demo_load" "wire demo_load @ queued demo_load = []"
    using ring_run_ok [OF demo_run_load demo_kernel_pages] by (auto simp: card_ok_def)
  then have "ring_inv demo_bus 0 demo_load" using ring_length [OF k(1)] by simp
  then show ?thesis by (simp add: idle_def demo_env_def demo_load_eq(2) demo_card_def)
qed

lemma demo_node_idle: "idle demo_env (pkt (demo_node i x))"
  using demo_idle by (simp add: idle_def demo_node_def ring_parts ring_span_def ring_pos_def)

lemma demo_sane: "sane demo_env (demo_node i x)" "queues_ok (demo_node i x) (\<lambda>_. [])" "kmalloc_ok demo_env"
proof -
  show q: "queues_ok (demo_node i x) (\<lambda>_. [])" by (simp add: queues_ok_def on_queue_def demo_node_def)
  show k: "kmalloc_ok demo_env" by (simp add: kmalloc_ok_def demo_env_def)
  show "sane demo_env (demo_node i x)" using q k demo_node_idle [of i x] by (auto simp: sane_def idle_def ring_ok_def)
qed

lemma demo_mem: "kmalloc demo_env (qheap (demo_node i x)) \<noteq> None" "mm_of demo_env (Some 0) = Some node_frame"
  "cb_of demo_env demo_ptl_hdr = (Some 1, Some 0)" "my_pnid (pkt (demo_node i x)) = i"
  by (simp_all add: demo_env_def demo_node_def mm_of_def cb_of_def get_cb_def demo_ptl_hdr_def demo_load_eq(2) demo_card_def)

lemma demo_len: "rts_max < length node_msg" "length node_msg < 2 ^ 32"
  by (simp_all add: node_msg_def MYRPKT_MTU_def sizeof_pkthdr_def sizeof_ptl_hdr_def PAGE_SHIFT_def)

lemma demo_unused: "find_queue Q m (demo_node i x) = Some None"
  using find_queue_ok [OF demo_sane(2)] by simp

lemma demo_send:
  obtains st' p a where "send_begins demo_env (Some 1) 8192 node_msg 5 demo_ptl_hdr None (demo_node 3 7) st' p a"
proof -
  have um: "user_bytes node_frame 8192 (length node_msg) (umem (demo_node 3 7)) = node_msg" by (simp add: demo_node_def demo_bytes)
  have mp: "mapped node_frame 8192 (length node_msg)" using demo_writable by (simp add: writable_def)
  have id: "idle demo_env (pkt (demo_node 3 7))" by (rule demo_node_idle)
  obtain mid mnum st1 where nm: "p3_number 5 0 0 (demo_node 3 7) = Some (mid, mnum, False, st1)"
    by (simp add: p3_number_def route_def MAX_NUM_ROUTES_def next_msgID_def next_msgNum_def demo_node_def Let_def)
  have r: "(0 :: int) \<le> 5" "(5 :: int) < int MAX_NUM_ROUTES" "mcpshmem (demo_node 3 7)" by (simp_all add: MAX_NUM_ROUTES_def demo_node_def)
  obtain st' p where s: "p3_send demo_env (Some 1) 8192 (of_nat (length node_msg)) 5 demo_ptl_hdr None 0 0 NOOP (demo_node 3 7) = Some (P3_OK, st')"
    "sent (pkt st') = sent (pkt (demo_node 3 7)) @ [p]"
    by (rule p3_send_accepts [OF demo_sane(2) id demo_sane(3) demo_mem(1) nm r(3,1,2) demo_mem(3) demo_len demo_mem(2) mp um]) (rule that)
  have rk: "ring_ok demo_env (pkt (demo_node 3 7))" using id by (auto simp: idle_def ring_ok_def)
  obtain a where t: "find_queue Qsnd_pending (ph_msgID (pk_hdr p)) st' = Some (Some a)"
    by (rule p3_send_start [OF demo_sane(2) rk demo_sane(3) demo_mem(3) demo_len demo_mem(2) mp um _ s(1,2)]) (simp, rule that)
  have "send_begins demo_env (Some 1) 8192 node_msg 5 demo_ptl_hdr None (demo_node 3 7) st' p a"
    unfolding send_begins_def using demo_sane(1) demo_mem(2,3) mp um demo_len s t demo_unused demo_mem(4) MAX_NUM_ROUTES_def by auto
  then show thesis by (rule that)
qed

definition demo_xfer :: "packet \<Rightarrow> xfer_t" where
  "demo_xfer p = \<lparr>xf_msgID = ph_msgID (pk_hdr p), xf_msgNum = ph_msgNum (pk_hdr p), xf_pkt = pk_data p, xf_type = ph_type (pk_hdr p),
     xf_hdr = demo_ptl_hdr, xf_task = Some 0\<rparr>"

lemma demo_recv:
  assumes "send_begins demo_env (Some 1) 8192 node_msg 5 demo_ptl_hdr None (demo_node 3 7) st' p a"
  obtains rst' b where "recv_begins demo_env (Some 1) (demo_xfer p) 8192 (length node_msg) 0 None node_frame (demo_node 5 0) rst' p b"
    "\<exists>c \<in> set (drop (length (sent (pkt (demo_node 5 0)))) (sent (pkt rst'))). grants (ph_msgID (pk_hdr p)) (of_int 3) (of_nat (length node_msg)) 5 c"
proof -
  have rk: "ring_ok demo_env (pkt (demo_node 5 0))" using demo_sane(1) by (simp add: sane_def)
  have x: "xf_type (demo_xfer p) = P3_RTS" "xf_pkt (demo_xfer p) = take rts_max node_msg" "mm_of demo_env (xf_task (demo_xfer p)) = Some node_frame"
    using send_begins_side(2,3) [OF assms] demo_mem(2) by (simp_all add: demo_xfer_def)
  have new: "find (\<lambda>a. msgid (demo_node 5 0) a = xf_msgID (demo_xfer p)) ((\<lambda>_. []) Qreceiving) = None" by simp
  obtain b rst' where r: "p3_recvBody demo_env (Some 1) (demo_xfer p) 8192 (of_nat (length node_msg)) 0 None (demo_node 5 0) = Some (s32 (uint (0 :: 64 word)), rst')"
      "rx_side demo_env (xf_msgID (demo_xfer p)) node_msg node_frame 8192 b 0 1 rts_max False rst'"
      "idle demo_env (pkt (demo_node 5 0)) \<and> sendable (of_int (src_nid (hdr_src (xf_hdr (demo_xfer p))))) (int sizeof_pkthdr) \<longrightarrow>
         (\<exists>c \<in> set (drop (length (sent (pkt (demo_node 5 0)))) (sent (pkt rst'))).
            grants (xf_msgID (demo_xfer p)) (of_int (src_nid (hdr_src (xf_hdr (demo_xfer p))))) (of_nat (length node_msg)) (my_pnid (pkt (demo_node 5 0))) c)"
    by (rule recvBody_start [OF rk demo_sane(2,3) demo_mem(1) x(1,2) demo_len new x(3) demo_writable]) (rule that)
  obtain qs where "queues_ok rst' qs" "find (\<lambda>x. msgid rst' x = xf_msgID (demo_xfer p)) (qs Qreceiving) = Some b"
    using r(2) by (auto simp: rx_side_def has_def)
  then have "find_queue Qreceiving (ph_msgID (pk_hdr p)) rst' = Some (Some b)" using find_queue_ok [of rst' qs] by (simp add: demo_xfer_def)
  then have "recv_begins demo_env (Some 1) (demo_xfer p) 8192 (length node_msg) 0 None node_frame (demo_node 5 0) rst' p b"
    unfolding recv_begins_def using demo_sane(1) demo_mem(1) x(3) demo_writable demo_unused r(1) by (auto simp: demo_xfer_def)
  moreover have "sendable (of_int (src_nid (hdr_src (xf_hdr (demo_xfer p))))) (int sizeof_pkthdr)"
    using route_sendable [of 3] by (simp add: demo_xfer_def demo_ptl_hdr_def MAX_NUM_ROUTES_def)
  ultimately show thesis
    using r(3) demo_node_idle demo_mem(4) by (intro that) (simp_all add: demo_xfer_def demo_ptl_hdr_def)
qed

text \<open>No other packet reaches the nodes in the example.\<close>

definition demo_other :: "packet \<Rightarrow> rts \<Rightarrow> rts option" where
  "demo_other p st = Some st"

lemma demo_retry:
  assumes "start_ok senv renv msgID pnid msg B frame buf a b l"
  shows "retry_ok a (tx_node l)"
  using assms by (auto simp: start_ok_def tx_side_def retry_ok_def has_def)

text \<open>The nodes of the example when the announcement has been answered.\<close>

lemma demo_begun:
  obtains st' p a rst' b where "send_begins demo_env (Some 1) 8192 node_msg 5 demo_ptl_hdr None (demo_node 3 7) st' p a"
    "recv_begins demo_env (Some 1) (demo_xfer p) 8192 (length node_msg) 0 None node_frame (demo_node 5 0) rst' p b"
    "start_ok demo_env demo_env (ph_msgID (pk_hdr p)) 3 node_msg rts_max node_frame 8192 a b (begun st' rst')"
    "retry_ok a (tx_node (begun st' rst'))" "started (ph_msgID (pk_hdr p)) (length node_msg) a (net_begun st' (demo_node 5 0) rst')"
proof -
  obtain st' p a where s: "send_begins demo_env (Some 1) 8192 node_msg 5 demo_ptl_hdr None (demo_node 3 7) st' p a" by (rule demo_send)
  obtain rst' b where r: "recv_begins demo_env (Some 1) (demo_xfer p) 8192 (length node_msg) 0 None node_frame (demo_node 5 0) rst' p b"
    "\<exists>c \<in> set (drop (length (sent (pkt (demo_node 5 0)))) (sent (pkt rst'))). grants (ph_msgID (pk_hdr p)) (of_int 3) (of_nat (length node_msg)) 5 c"
    by (rule demo_recv [OF s]) (rule that)
  note b = begun_start [OF s r(1), unfolded demo_mem(4)]
  have tx: "tx_side demo_env (ph_msgID (pk_hdr p)) 3 node_msg a 0 0 rts_max st'" using b by (simp add: start_ok_def begun_def)
  obtain g where g: "g \<in> set (drop (length (sent (pkt (demo_node 5 0)))) (sent (pkt rst')))"
    "grants (ph_msgID (pk_hdr p)) (of_int 3) (of_nat (length node_msg)) 5 g" using r(2) by blast
  obtain m where m: "1 \<le> m" "m \<le> 16" "cts_pkt (ph_msgID (pk_hdr p)) (length node_msg) g" "pk_dest g = 3" "s32 (uint (ph_info2 (pk_hdr g))) = m"
    by (rule grants_cts [OF g(2)]) (simp_all add: MAX_NUM_ROUTES_def that)
  have "grant_ok a g st'" "my_pnid (pkt st') = 3" using tx m(2,5) by (auto simp: grant_ok_def tx_side_def has_def)
  then have "started (ph_msgID (pk_hdr p)) (length node_msg) a (net_begun st' (demo_node 5 0) rst')"
    using g(1) m(3,4) by (auto simp: started_def home_def net_begun_def begun_def)
  then show thesis by (rule that [OF s r(1) b demo_retry [OF b]])
qed

lemma demo_names: "src_nid (hdr_src (xf_hdr (demo_xfer p))) = my_pnid (pkt (demo_node 3 7))"
    "0 \<le> my_pnid (pkt (demo_node 5 0))" "my_pnid (pkt (demo_node 5 0)) < int MAX_NUM_ROUTES"
  by (simp_all add: demo_mem(4) demo_xfer_def demo_ptl_hdr_def MAX_NUM_ROUTES_def)

theorem message_intact_witness:
  "\<exists>st' p a rst' b l. send_begins demo_env (Some 1) 8192 node_msg 5 demo_ptl_hdr None (demo_node 3 7) st' p a \<and>
     recv_begins demo_env (Some 1) (demo_xfer p) 8192 (length node_msg) 0 None node_frame (demo_node 5 0) rst' p b \<and>
     (link_step demo_env demo_env demo_other (ph_msgID (pk_hdr p)) (length node_msg) a)\<^sup>*\<^sup>* (begun st' rst') l \<and> complete b (rx_node l) \<and>
     user_bytes node_frame 8192 (length node_msg) (umem (rx_node l)) = node_msg"
proof -
  obtain st' p a rst' b where d: "send_begins demo_env (Some 1) 8192 node_msg 5 demo_ptl_hdr None (demo_node 3 7) st' p a"
    "recv_begins demo_env (Some 1) (demo_xfer p) 8192 (length node_msg) 0 None node_frame (demo_node 5 0) rst' p b"
    "retry_ok a (tx_node (begun st' rst'))" "started (ph_msgID (pk_hdr p)) (length node_msg) a (net_begun st' (demo_node 5 0) rst')"
    by (rule demo_begun) (rule that)
  note b = net_begun_ok [OF d(1,2) demo_names, of demo_other]
  obtain n where n: "(net_step demo_env demo_env demo_other (ph_msgID (pk_hdr p)) (length node_msg) a)\<^sup>*\<^sup>* (net_begun st' (demo_node 5 0) rst') n"
      "complete b (rx_of n)"
  proof -
    obtain G R K D r k d where "net_ok (begun_conn demo_env demo_env demo_other node_msg node_frame 8192 (demo_node 3 7) (demo_node 5 0) rst' p a b)
        G R K D r k d (net_begun st' (demo_node 5 0) rst')" using b(2) by blast
    moreover have "retry_ok a (tx_of (net_begun st' (demo_node 5 0) rst'))" using d(3) by (simp add: net_begun_def)
    ultimately show thesis using can_finish [OF _ b(1)] d(4) that by fastforce
  qed
  have l: "(link_step demo_env demo_env demo_other (ph_msgID (pk_hdr p)) (length node_msg) a)\<^sup>*\<^sup>* (begun st' rst') (ends n)"
    using net_links [OF n(1)] by (simp add: net_begun_def)
  show ?thesis using d(1,2) l n(2) message_intact [OF d(1,2) l] by blast
qed

text \<open>A clear-to-send packet with a given grant.\<close>

definition make_cts :: "32 word \<Rightarrow> nat \<Rightarrow> 32 word \<Rightarrow> packet" where
  "make_cts msgID L n = \<lparr>pk_dest = 3, pk_hdr = \<lparr>ph_type = CTS, ph_src_nid = 5, ph_msgID = msgID, ph_len = int sizeof_pkthdr, ph_seq = 0,
     ph_info = of_nat L, ph_info2 = n, ph_msgNum = ILLMSGNUM\<rparr>, pk_phdr = None, pk_data = []\<rparr>"

lemma make_cts_ok: "cts_pkt msgID L (make_cts msgID L n)"
  by (simp add: cts_pkt_def make_cts_def route_def MAX_NUM_ROUTES_def)

lemma make_cts_grant:
  assumes "tx_side env msgID pnid msg a R K D st" "K + nat (s32 (uint n)) < num_max"
  shows "grant_ok a (make_cts msgID L n) st"
  using assms by (auto simp: tx_side_def grant_ok_def has_def unat_32 make_cts_def)

theorem message_no_fault_witness:
  "\<exists>st' p a rst' b. send_begins demo_env (Some 1) 8192 node_msg 5 demo_ptl_hdr None (demo_node 3 7) st' p a \<and>
     recv_begins demo_env (Some 1) (demo_xfer p) 8192 (length node_msg) 0 None node_frame (demo_node 5 0) rst' p b \<and>
     rtscts_recv demo_env demo_other (make_cts (ph_msgID (pk_hdr p)) (length node_msg) 1) st' \<noteq> None \<and>
     handleDataResend demo_env (ph_msgID (pk_hdr p)) st' \<noteq> None"
proof -
  obtain st' p a rst' b where d: "send_begins demo_env (Some 1) 8192 node_msg 5 demo_ptl_hdr None (demo_node 3 7) st' p a"
    "recv_begins demo_env (Some 1) (demo_xfer p) 8192 (length node_msg) 0 None node_frame (demo_node 5 0) rst' p b"
    "start_ok demo_env demo_env (ph_msgID (pk_hdr p)) 3 node_msg rts_max node_frame 8192 a b (begun st' rst')"
    "retry_ok a (tx_node (begun st' rst'))" by (rule demo_begun) (rule that)
  have tx: "tx_side demo_env (ph_msgID (pk_hdr p)) 3 node_msg a 0 0 rts_max st'" using d(3) by (simp add: start_ok_def begun_def)
  have "cts_pkt (ph_msgID (pk_hdr p)) (length node_msg) (make_cts (ph_msgID (pk_hdr p)) (length node_msg) 1)"
    "grant_ok a (make_cts (ph_msgID (pk_hdr p)) (length node_msg) 1) st'"
    using make_cts_ok make_cts_grant [OF tx, of 1 "length node_msg"] by (simp_all add: s32_def)
  then have "rtscts_recv demo_env demo_other (make_cts (ph_msgID (pk_hdr p)) (length node_msg) 1) st' \<noteq> None \<and>
      handleDataResend demo_env (ph_msgID (pk_hdr p)) st' \<noteq> None"
    using d(4) message_no_fault [OF d(1,2) rtranclp.rtrancl_refl, of demo_other] unfolding begun_def link.simps by blast
  then show ?thesis using d(1,2) by blast
qed

theorem message_can_finish_witness:
  "\<exists>st' p a rst' b n. send_begins demo_env (Some 1) 8192 node_msg 5 demo_ptl_hdr None (demo_node 3 7) st' p a \<and>
     recv_begins demo_env (Some 1) (demo_xfer p) 8192 (length node_msg) 0 None node_frame (demo_node 5 0) rst' p b \<and>
     (net_step demo_env demo_env demo_other (ph_msgID (pk_hdr p)) (length node_msg) a)\<^sup>*\<^sup>* (net_begun st' (demo_node 5 0) rst') n \<and> complete b (rx_of n)"
proof -
  obtain st' p a rst' b where d: "send_begins demo_env (Some 1) 8192 node_msg 5 demo_ptl_hdr None (demo_node 3 7) st' p a"
    "recv_begins demo_env (Some 1) (demo_xfer p) 8192 (length node_msg) 0 None node_frame (demo_node 5 0) rst' p b"
    "retry_ok a (tx_node (begun st' rst'))" "started (ph_msgID (pk_hdr p)) (length node_msg) a (net_begun st' (demo_node 5 0) rst')"
    by (rule demo_begun) (rule that)
  have "retry_ok a (tx_of (net_begun st' (demo_node 5 0) rst'))" using d(3) by (simp add: net_begun_def)
  from message_can_finish [OF d(1,2) demo_names rtranclp.rtrancl_refl d(4) this, of demo_other] d(1,2) show ?thesis by blast
qed

end
