(* ===== verification/Spec2Isabelle.thy ===== *)
theory Spec2Isabelle
  imports P30_Calls K_System R_Message R_Time
begin

text \<open>
  \<^bold>\<open>Verification of the message passing core of Cplant.\<close>

  Cplant is the runtime system of a Linux cluster.  A compute node runs application processes
  that exchange messages through Portals 3.0.  This development models the path of a message
  on a node, in C as it is under \<open>src/top/compute\<close>:

  \<^item> the Portals API that an application links (\<open>lib/p30/api-p30\<close>);
  \<^item> the Portals library that runs below it, in the process or in the kernel
    (\<open>lib/p30/lib-p30\<close>, headers in \<open>lib/p30/include\<close>);
  \<^item> the kernel's table of Portals processes (\<open>OS/cTask/cTask.c\<close>), which hands out the
    process ids (ppids) that address a process;
  \<^item> the kernel's cache of address translations (\<open>OS/addrCache/cache.c\<close>), which validates
    the user memory of a descriptor and copies to and from it.

  The API packs the arguments of a call into a block and gives it to the network layer (NAL),
  which forwards it to \<open>lib_dispatch\<close>.  The library keeps match entries, memory descriptors,
  event queues and messages; it calls the network layer back for sending, receiving, writing
  events, memory and the validation of user addresses.  In the kernel these validations are
  \<open>addrCache_populate\<close> and \<open>addrCache_tblLink\<close>, indexed by the ppids of \<open>cTask\<close>.

  Between nodes a message travels as packets of the RTS/CTS protocol over the Myrinet card
  (\<open>OS/Myrinet/rtscts\<close>, \<open>OS/Myrinet/MCP\<close>).

  \<^bold>\<open>Conventions.\<close>  A C \<open>int\<close> or \<open>long\<close> is an \<open>int\<close> that the wraps
  \<open>s32\<close> and \<open>s64\<close> of \<open>Cplant_Prelude\<close> bring back into range where the code
  computes; unsigned types and addresses are words.  A pointer to an element of an array is the
  index of the element.  What C leaves undefined (an access out of bounds, a null pointer
  followed) is the result \<open>None\<close>, and error returns are values.  The configuration is
  that of the 64-bit Alpha nodes.  Loops that follow pointers are partial functions with the
  result \<open>None\<close> when they do not end, and lemmas show when they end; loops over arrays
  have a measure.  There is no fuel.

  \<^bold>\<open>Portals library.\<close>

  \<^item> \<open>P30_Types\<close>: the types, constants and error codes (\<open>p30/types.h\<close>,
    \<open>lib-types.h\<close>, \<open>errno.h\<close>).
  \<^item> \<open>P30_Pool\<close>: the allocator that the macro \<open>mk_alloc\<close> of \<open>lib-p30.h\<close>
    generates; a locale for pools, with its laws.
  \<^item> \<open>P30_Links\<close>: \<open>lib_insert\<close> and \<open>lib_unlink\<close> on cells, well-formed links
    and the lists they hold.
  \<^item> \<open>P30_State\<close>: \<open>lib_ni_t\<close> as the record \<open>lib_ni\<close>, the callbacks
    \<open>nal_cb_t\<close> as a record of functions of the calls made so far, the trace of the calls,
    and the invariant \<open>ni_inv\<close>.
  \<^item> \<open>P30_MD\<close>, \<open>P30_ME\<close>, \<open>P30_EQ\<close>, \<open>P30_NI\<close>, \<open>P30_Move\<close>: the
    operations of \<open>md.c\<close>, \<open>me.c\<close>, \<open>eq.c\<close> and \<open>msg.c\<close>, \<open>ni.c\<close>,
    \<open>pid.c\<close> and \<open>not-impl.c\<close>, \<open>move.c\<close>, under their names in the code, each with
    the lemma that it keeps \<open>ni_inv\<close> and returns.
  \<^item> \<open>P30_Lib\<close>: \<open>lib_init\<close>, \<open>lib_fini\<close> and \<open>lib_dispatch\<close>
    (\<open>init.c\<close>, \<open>dispatch.c\<close>) over all argument blocks; \<open>dispatch_table\<close> has the
    order of the code, and a call is an index into it with a block.
  \<^item> \<open>P30_Safe\<close>, \<open>P30_Fini\<close>: the invariants of the pending operations and of the
    event queues, and the loops of the shutdown.
  \<^item> \<open>P30_Api\<close>: the functions of \<open>wrap.c\<close>, \<open>md.c\<close>, \<open>eq.c\<close>,
    \<open>init.c\<close> and \<open>ni.c\<close> of the API over a network layer given by its entry points.

  What is shown of it:

  \<^item> \<open>P30_Runs\<close>: in every reachable state requests and incoming messages return and keep
    the invariant, except at the index one past each array; an incoming message faults exactly
    there.  In orderly runs the pending counters are exact and completing the messages drains
    them.
    \<open>P30_Example\<close> builds the concrete interface that the witnesses use.
  \<^item> \<open>P30_Delivery\<close>: the search of the match list finds the first entry that accepts; the
    message stays in the region; acknowledgements and replies come back to their descriptor.
    \<open>P30_Trace\<close> has the calls that the completion of a message makes: the events, then the
    one acknowledgement, then the invalidations.
  \<^item> \<open>P30_Events\<close>: the event of a completed message reaches the reader of its queue, in
    order, and overruns are reported.
  \<^item> \<open>P30_Lists\<close>: insertion and removal of match entries as operations on lists.
  \<^item> \<open>P30_Calls\<close>: initialisation and its failures, every branch of a conditional update, and
    the calls of the application from end to end: each of the twenty that forward reaches the
    function of the library that it is named after.

  \<^bold>\<open>Task table.\<close>  \<open>K_Task\<close> has the table as the record \<open>ctask\<close> and every
  operation of \<open>cTask.c\<close>; what the kernel knows (the running process, the live processes,
  results of system calls) is the record \<open>kern\<close>.  \<open>ct_reach\<close> are the states of its
  runs and \<open>ct_inv\<close> its invariant.  \<open>K_TaskProps\<close> shows that a registered process is
  found under its ppid, and two faults: a ppid can be handed out twice, and the map of ranks
  can be overrun.

  \<^bold>\<open>Address cache.\<close>

  \<^item> \<open>K_Cache\<close>: the three subcaches, their tables and the slots of \<open>cache.c\<close> and
    every operation on them.  The page tables of a process are a function from page numbers to
    frames (what \<open>calcPhysAddress\<close> walks); the page shift is a parameter, 13 on the Alpha.
    The loops over the slots stop at the end of the array with \<open>None\<close>.  The counter of
    free tables is an \<open>int\<close> without a bound, which the number of tables keeps small.
    The function \<open>send_fn\<close> that gets the summary of the process of rank 1 is taken to be
    registered.
  \<^item> \<open>K_CacheCopy\<close>: a filled table describes its region (\<open>region_ok\<close>), and the blocks
    of a copy are the user's addresses.
  \<^item> \<open>K_CacheRuns\<close>, \<open>K_CacheProps\<close>: the layout of the slots, the invariant
    \<open>cache_inv\<close> of all runs (\<open>cache_run\<close>), and the exactness of both copies.  A run has
    one assignment of page tables, the same for all its processes and times, and regions of at
    most 511 pages.
  \<^item> \<open>K_CacheLists\<close>, \<open>K_CacheOrder\<close>, \<open>K_CacheOrderly\<close>: the free list and the
    lists of the processes as the abstract state, what every operation does to it, the
    invariant of orderly runs (\<open>lists_run\<close>), when a validation succeeds, and the round
    trip of validating and giving back.
  \<^item> \<open>K_CacheFaults\<close>: two faults, the link back that clearing a process leaves, and regions
    of more than 512 pages.

  \<open>K_System\<close> puts the task table and the address cache together: the ppids outgrow the
  lists that they index, with at most two processes at a time, at the eightieth registration
  (\<open>served\<close> counts them along the run).

  \<^bold>\<open>RTS/CTS.\<close>

  \<^item> \<open>R_Types\<close>: packets and their headers (\<open>RTSCTS_protocol.h\<close>, \<open>RTSCTS_pkthdr.h\<close>).
    The version of a header, the lengths \<open>len1\<close> and \<open>len2\<close>, and the second and third
    copies of the type, the source and the message id, which only the receive interrupt
    (\<open>Pkt_recv.c\<close>) compares, are left out.
  \<^item> \<open>R_Pages\<close>, \<open>R_Ring\<close>: the send pages and the ring shared with the card
    (\<open>Pkt_send.c\<close>, \<open>snd_statem\<close> of \<open>MCP/Pkt_statem.c\<close>); the ring is a queue,
    and a page in the hands of the host is private.
  \<^item> \<open>R_Queue\<close>, \<open>R_QueueProps\<close>: the message queues of \<open>queue.c\<close>, and what every
    operation does to the lists they hold.  The counters of granted packets are integers
    without a bound; the code has them as \<open>long\<close>.
  \<^item> \<open>R_Proto\<close>, \<open>R_Copy\<close>: the state of the module, message numbers and ids, and
    \<open>memcpy2\<close>, which moves exactly the bytes of a process.
  \<^item> \<open>R_Send\<close>, \<open>R_Recv\<close>, \<open>R_P3\<close>, \<open>R_Time\<close>: the functions of
    \<open>RTSCTS_send.c\<close>, \<open>RTSCTS_recv.c\<close>, \<open>RTSCTS_p3.c\<close>, \<open>RTSCTS_route.c\<close>
    and \<open>RTSCTS_protocol.c\<close>.  Handlers run with interrupts off and are one step each; the
    Portals library below them is the record \<open>rts_env\<close> of functions of the calls so far.
  \<^item> \<open>R_SendProps\<close>, \<open>R_Burst\<close>: what the senders put on the network, and that a ring
    with room for the packets of a grant takes all of them.
  \<^item> \<open>R_Moves\<close>, \<open>R_Sender\<close>: what the handlers of a transfer do to the entry of the
    message, the queues, the buffer and the network, on every branch.
  \<^item> \<open>R_Rounds\<close>, \<open>R_Steps\<close>, \<open>R_Transfer\<close>: the transfer of a message as steps of two
    nodes and a network that keeps the order of packets and loses any of them, and its
    invariant.  A sender that times out starts a new round; a receiver that misses a packet
    waits for the first packet of the next round.  The receiver marks a missed packet with the
    number \<open>0x7fffffff\<close>: the packets of one round and the rounds of one message stay below
    (\<open>grant_ok\<close>, \<open>retry_ok\<close>), which 4 GB, the largest message, needs 530000 packets of.
    Clear-to-send packets reach the sender at any time and from anywhere.  The answers MSGEND
    and MSGDROP, the hint GCH, a repeated announcement and packets of other messages are not
    steps of the transfer; their handlers are in \<open>R_Recv\<close>, \<open>R_P3\<close> and \<open>R_Time\<close>.
  \<^item> \<open>R_Start\<close>, \<open>R_Message\<close>: \<open>p3_send\<close> and \<open>p3_recvBody\<close> begin a transfer
    (\<open>send_begins\<close>: the card has taken the announcement, so the path of \<open>p3_send\<close> without
    a page is not one of them), and the results: the message arrives intact and no handler faults.
  \<^item> \<open>R_Drain\<close>, \<open>R_Net\<close>, \<open>R_Finish\<close>: the card empties the ring.  In \<open>net_step\<close>
    the clear-to-send packets are those that the receiver's card has sent to the sender, and
    they may be lost as well.  A transfer that has started, that is, whose sender has been
    granted packets or has a clear-to-send packet under way, can be completed from every
    state: a timeout sends one packet that asks for more, \<open>ask_more\<close> answers with a grant of
    one to sixteen packets, and the last packet of a grant asks for more or is the end.  A
    sender whose first clear-to-send packet was lost depends on its repeated announcement, which
    is outside of this result.

  \<^bold>\<open>Not modelled.\<close>  Diagnostic output (\<open>printk\<close>, \<open>cb_printf\<close>, proc files);
  \<open>PtlNIInit\<close>, \<open>PtlNIFini\<close> and \<open>PtlEQWait_timeout\<close>, which depend on the start-up
  of the process group and on the clock; interrupts and the masking of them (every operation is
  one step); the interrupt handler of the Myrinet driver, its services (IP, statistics), and the
  control program of the card but for sending; patches of the Linux kernel;
  third-party code (MPICH, PBS, nexus); the daemons and launchers (\<open>pct\<close>, \<open>bebopd\<close>,
  \<open>yod\<close>, \<open>fyod\<close>), which are programs around system calls and messages of other hosts.
\<close>

end
